(* ===== verification/Prelude.thy ===== *)
theory Prelude
  imports Main "HOL-Library.Word" "HOL-Library.List_Lexorder" "HOL-Library.AList"
begin

section \<open>Prelude: the JavaScript values and idioms the components share\<close>

text \<open>
  This theory holds what every component of the cache uses and none of them owns:
  \<^item> JavaScript strings as lists of UTF-16 code units, the UTF-8 encoding of
    \<open>TextEncoder\<close>, and the two string orders the program uses (code units for
    \<open><\<close> and \<open>Array.sort\<close>, UTF-8 bytes for \<open>byteCompare\<close>);
  \<^item> bytes, lower-case hex;
  \<^item> \<open>Map\<close> and \<open>Set\<close> objects, which iterate in insertion order;
  \<^item> results of code that throws, and the iteration of such code over a list;
  \<^item> the string predicates that the program writes as regular expressions.
\<close>

named_theorems js_eval "rules that evaluate string literals and predicates on closed terms"
named_theorems inv_intros "introduction rules for component invariants"

subsection \<open>Strings, bytes and numbers\<close>

type_synonym jstr = "nat list"  \<comment> \<open>UTF-16 code units\<close>
type_synonym byte = "8 word"
type_synonym bytes = "8 word list"

definition js :: "string \<Rightarrow> jstr" where
  "js s = map of_char s"

lemma js_simps [js_eval]:
  "js [] = []" "js (c # s) = of_char c # js s"
  by (simp_all add: js_def)

lemma js_append: "js (a @ b) = js a @ js b"
  by (simp add: js_def)

lemma length_js [simp]: "length (js s) = length s"
  by (simp add: js_def)

lemma js_inject [simp]: "js a = js b \<longleftrightarrow> a = b"
proof -
  have "inj (of_char :: char \<Rightarrow> nat)"
    by (rule injI) simp
  then show ?thesis by (simp add: js_def)
qed

lemma replicate_numeral [js_eval]:
  "replicate (numeral k) x = x # replicate (pred_numeral k) x"
  by (simp add: numeral_eq_Suc)

text \<open>\<open>Number.MAX_SAFE_INTEGER\<close> and \<open>Number.isSafeInteger\<close> on a number whose value is integral.\<close>

definition max_safe :: int where
  "max_safe = 9007199254740991"

definition safe_int :: "int \<Rightarrow> bool" where
  "safe_int n \<longleftrightarrow> - max_safe \<le> n \<and> n \<le> max_safe"

subsection \<open>UTF-8 (TextEncoder.encode)\<close>

text \<open>
  \<open>TextEncoder\<close> first turns the string into scalar values: a surrogate pair is one
  scalar value, an unpaired surrogate becomes U+FFFD.
\<close>

definition high_surrogate :: "nat \<Rightarrow> bool" where
  "high_surrogate u \<longleftrightarrow> 0xD800 \<le> u \<and> u < 0xDC00"

definition low_surrogate :: "nat \<Rightarrow> bool" where
  "low_surrogate u \<longleftrightarrow> 0xDC00 \<le> u \<and> u < 0xE000"

fun scalars :: "jstr \<Rightarrow> nat list" where
  "scalars [] = []"
| "scalars [u] = (if high_surrogate u \<or> low_surrogate u then [0xFFFD] else [u])"
| "scalars (u # v # s) =
     (if high_surrogate u \<and> low_surrogate v
      then ((u - 0xD800) * 0x400 + (v - 0xDC00) + 0x10000) # scalars s
      else (if high_surrogate u \<or> low_surrogate u then 0xFFFD else u) # scalars (v # s))"

definition utf8_scalar :: "nat \<Rightarrow> nat list" where
  "utf8_scalar c =
     (if c < 0x80 then [c]
      else if c < 0x800 then [0xC0 + c div 0x40, 0x80 + c mod 0x40]
      else if c < 0x10000
        then [0xE0 + c div 0x1000, 0x80 + (c div 0x40) mod 0x40, 0x80 + c mod 0x40]
      else [0xF0 + c div 0x40000, 0x80 + (c div 0x1000) mod 0x40,
            0x80 + (c div 0x40) mod 0x40, 0x80 + c mod 0x40])"

definition utf8 :: "jstr \<Rightarrow> nat list" where
  "utf8 s = concat (map utf8_scalar (scalars s))"

definition utf8_bytes :: "jstr \<Rightarrow> bytes" where
  "utf8_bytes s = map of_nat (utf8 s)"

text \<open>The code units of a scalar value.\<close>

definition utf16 :: "nat \<Rightarrow> jstr" where
  "utf16 c = (if c < 0x10000 then [c]
     else [0xD800 + (c - 0x10000) div 0x400, 0xDC00 + (c - 0x10000) mod 0x400])"

text \<open>
  \<open>byteCompare\<close>: the loop over the common length and then the difference of the lengths.
  The two copies of it in the program (\<open>protocol/hashtree.ts\<close>, \<open>hashtree/writer.ts\<close>)
  are the same function.
\<close>

fun byte_diff :: "nat list \<Rightarrow> nat list \<Rightarrow> int" where
  "byte_diff (x # xs) (y # ys) = (if x \<noteq> y then int x - int y else byte_diff xs ys)"
| "byte_diff xs ys = int (length xs) - int (length ys)"

definition byte_compare :: "jstr \<Rightarrow> jstr \<Rightarrow> int" where
  "byte_compare a b = byte_diff (utf8 a) (utf8 b)"

lemma Nil_less_iff: "([] :: nat list) < ys \<longleftrightarrow> ys \<noteq> []"
  by (cases ys) simp_all

lemma byte_diff_neg: "byte_diff xs ys < 0 \<longleftrightarrow> xs < ys"
  by (induction xs ys rule: byte_diff.induct) (auto simp: Nil_less_iff)

lemma byte_diff_zero: "byte_diff xs ys = 0 \<longleftrightarrow> xs = ys"
  by (induction xs ys rule: byte_diff.induct) auto

lemma byte_compare_less: "byte_compare a b < 0 \<longleftrightarrow> utf8 a < utf8 b"
  by (simp add: byte_compare_def byte_diff_neg)

lemma byte_compare_ge: "byte_compare a b \<ge> 0 \<longleftrightarrow> utf8 b \<le> utf8 a"
  by (metis byte_compare_less linorder_not_less)

lemma byte_compare_pos: "byte_compare a b > 0 \<longleftrightarrow> utf8 b < utf8 a"
proof -
  have "byte_compare a b = 0 \<longleftrightarrow> utf8 a = utf8 b"
    by (simp add: byte_compare_def byte_diff_zero)
  then show ?thesis
    using byte_compare_less [of a b] by (metis not_less_iff_gr_or_eq)
qed

lemmas byte_compare_order = byte_compare_less byte_compare_ge byte_compare_pos

subsection \<open>String operations\<close>

definition starts_with :: "jstr \<Rightarrow> jstr \<Rightarrow> bool" where
  "starts_with p s \<longleftrightarrow> take (length p) s = p"

definition ends_with :: "jstr \<Rightarrow> jstr \<Rightarrow> bool" where
  "ends_with p s \<longleftrightarrow> length p \<le> length s \<and> drop (length s - length p) s = p"

text \<open>\<open>indexOf\<close>: \<open>None\<close> is JavaScript's \<open>-1\<close>.\<close>

fun index_of :: "jstr \<Rightarrow> jstr \<Rightarrow> nat option" where
  "index_of p [] = (if p = [] then Some 0 else None)"
| "index_of p (u # s) =
     (if starts_with p (u # s) then Some 0 else map_option Suc (index_of p s))"

definition last_index_of :: "nat \<Rightarrow> jstr \<Rightarrow> nat option" where
  "last_index_of u s =
     (case index_of [u] (rev s) of None \<Rightarrow> None | Some i \<Rightarrow> Some (length s - 1 - i))"

definition slice :: "nat \<Rightarrow> nat \<Rightarrow> 'a list \<Rightarrow> 'a list" where
  "slice i j s = take (j - i) (drop i s)"

text \<open>\<open>split\<close> on one code unit.\<close>

fun split_on :: "nat \<Rightarrow> jstr \<Rightarrow> jstr list" where
  "split_on c [] = [[]]"
| "split_on c (u # s) =
     (if u = c then [] # split_on c s
      else case split_on c s of [] \<Rightarrow> [[u]] | w # ws \<Rightarrow> (u # w) # ws)"

fun join_with :: "jstr \<Rightarrow> jstr list \<Rightarrow> jstr" where
  "join_with d [] = []"
| "join_with d [w] = w"
| "join_with d (w # v # ws) = w @ d @ join_with d (v # ws)"

lemma split_on_nonempty [simp]: "split_on c s \<noteq> []"
  by (cases s) (auto split: list.splits)

lemma join_split: "join_with [c] (split_on c s) = s"
proof (induction s)
  case Nil
  then show ?case by simp
next
  case (Cons u s)
  obtain w ws where sp: "split_on c s = w # ws"
    by (cases "split_on c s") auto
  with Cons show ?case by (cases ws) auto
qed

lemma split_on_no_sep: "\<forall>w \<in> set (split_on c s). c \<notin> set w"
  by (induction s) (auto split: list.splits)

lemma split_on_append_sep:
  "c \<notin> set w \<Longrightarrow> split_on c (w @ c # s) = w # split_on c s"
  by (induction w) auto

lemma split_on_plain: "c \<notin> set w \<Longrightarrow> split_on c w = [w]"
  by (induction w) auto

lemma split_join:
  "ws \<noteq> [] \<Longrightarrow> \<forall>w \<in> set ws. c \<notin> set w \<Longrightarrow> split_on c (join_with [c] ws) = ws"
proof (induction ws)
  case (Cons w ws)
  then show ?case
    by (cases ws) (simp_all add: split_on_append_sep split_on_plain)
qed simp

lemma starts_with_append [simp]: "starts_with p (p @ s)"
  by (simp add: starts_with_def)

lemma index_of_single_None: "index_of [c] s = None \<longleftrightarrow> c \<notin> set s"
  by (induction s) (auto simp: starts_with_def)

lemma index_of_single_first:
  "c \<notin> set w \<Longrightarrow> index_of [c] (w @ c # s) = Some (length w)"
  by (induction w) (auto simp: starts_with_def)

lemma index_of_single_Some:
  "index_of [c] s = Some i \<Longrightarrow> i < length s \<and> s ! i = c \<and> c \<notin> set (take i s)"
proof (induction s arbitrary: i)
  case Nil
  then show ?case by simp
next
  case (Cons u s)
  show ?case
  proof (cases "u = c")
    case True
    with Cons.prems show ?thesis by (simp add: starts_with_def)
  next
    case False
    with Cons.prems obtain j where "index_of [c] s = Some j" "i = Suc j"
      by (auto simp: starts_with_def)
    with Cons.IH [of j] False show ?thesis by auto
  qed
qed

text \<open>Decimal text: \<open>String(n)\<close> of a natural number, and \<open>Number\<close> of a string of digits.\<close>

fun dec_digits :: "nat \<Rightarrow> jstr" where
  "dec_digits n = (if n < 10 then [48 + n] else dec_digits (n div 10) @ [48 + n mod 10])"

declare dec_digits.simps [simp del]

definition dec_value :: "jstr \<Rightarrow> nat" where
  "dec_value s = foldl (\<lambda>n u. 10 * n + (u - 48)) 0 s"

lemma dec_value_snoc: "dec_value (s @ [u]) = 10 * dec_value s + (u - 48)"
  by (simp add: dec_value_def)

lemma dec_value_digits [simp]: "dec_value (dec_digits n) = n"
proof (induction n rule: dec_digits.induct)
  case (1 n)
  show ?case
  proof (cases "n < 10")
    case True
    then show ?thesis by (simp add: dec_digits.simps [of n] dec_value_def)
  next
    case False
    with 1 show ?thesis
      by (simp add: dec_digits.simps [of n] dec_value_snoc)
  qed
qed

lemma dec_digits_inject: "dec_digits m = dec_digits n \<longleftrightarrow> m = n"
  by (metis dec_value_digits)

subsection \<open>Character classes (the program's regular expressions)\<close>

definition is_digit :: "nat \<Rightarrow> bool" where
  "is_digit u \<longleftrightarrow> 48 \<le> u \<and> u \<le> 57"

definition is_lower :: "nat \<Rightarrow> bool" where
  "is_lower u \<longleftrightarrow> 97 \<le> u \<and> u \<le> 122"

definition is_upper :: "nat \<Rightarrow> bool" where
  "is_upper u \<longleftrightarrow> 65 \<le> u \<and> u \<le> 90"

definition is_lower_hex :: "nat \<Rightarrow> bool" where
  "is_lower_hex u \<longleftrightarrow> is_digit u \<or> (97 \<le> u \<and> u \<le> 102)"

text \<open>JavaScript's \<open>\s\<close>.\<close>

definition is_space :: "nat \<Rightarrow> bool" where
  "is_space u \<longleftrightarrow>
     (9 \<le> u \<and> u \<le> 13) \<or> u = 32 \<or> u = 0xA0 \<or> u = 0x1680 \<or> (0x2000 \<le> u \<and> u \<le> 0x200A)
     \<or> u = 0x2028 \<or> u = 0x2029 \<or> u = 0x202F \<or> u = 0x205F \<or> u = 0x3000 \<or> u = 0xFEFF"

text \<open>\<open>trim\<close>.\<close>

definition trim :: "jstr \<Rightarrow> jstr" where
  "trim s = rev (dropWhile is_space (rev (dropWhile is_space s)))"

lemmas char_classes = is_digit_def is_lower_def is_upper_def is_lower_hex_def is_space_def

lemma dec_digits_are_digits: "u \<in> set (dec_digits n) \<Longrightarrow> is_digit u"
proof (induction n rule: dec_digits.induct)
  case (1 n)
  then show ?case
    by (cases "n < 10") (auto simp: dec_digits.simps [of n] is_digit_def)
qed

lemma dec_digits_nonempty [simp]: "dec_digits n \<noteq> []"
  by (subst dec_digits.simps) simp

subsection \<open>Hexadecimal\<close>

definition hex_digit :: "nat \<Rightarrow> nat" where
  "hex_digit d = (if d < 10 then 48 + d else 87 + d)"

definition hex_byte :: "byte \<Rightarrow> jstr" where
  "hex_byte b = [hex_digit (unat b div 16), hex_digit (unat b mod 16)]"

definition to_hex :: "bytes \<Rightarrow> jstr" where
  "to_hex bs = concat (map hex_byte bs)"

lemma hex_digit_inject: "a < 16 \<Longrightarrow> b < 16 \<Longrightarrow> hex_digit a = hex_digit b \<longleftrightarrow> a = b"
  by (auto simp: hex_digit_def split: if_splits)

lemma unat_byte_less [simp]: "unat (b :: byte) < 256"
  by (rule order.strict_trans2 [OF unsigned_less]) simp

lemma unat_byte_nibbles: "unat (b :: byte) div 16 < 16" "unat b mod 16 < 16"
  using unat_byte_less [of b] by (simp_all add: less_mult_imp_div_less del: unat_byte_less)

lemma hex_byte_inject [simp]: "hex_byte a = hex_byte b \<longleftrightarrow> a = b"
proof
  assume "hex_byte a = hex_byte b"
  then have "unat a div 16 = unat b div 16" "unat a mod 16 = unat b mod 16"
    by (simp_all add: hex_byte_def hex_digit_inject unat_byte_nibbles)
  then have "unat a = unat b" by (metis div_mult_mod_eq)
  then show "a = b" by (rule unsigned_word_eqI)
qed simp

lemma to_hex_simps [simp]: "to_hex [] = []" "to_hex (b # bs) = hex_byte b @ to_hex bs"
  by (simp_all add: to_hex_def)

lemma length_to_hex [simp]: "length (to_hex bs) = 2 * length bs"
  by (induction bs) (simp_all add: hex_byte_def)

lemma to_hex_inject [simp]: "to_hex as = to_hex bs \<longleftrightarrow> as = bs"
proof
  show "to_hex as = to_hex bs \<Longrightarrow> as = bs"
  proof (induction as arbitrary: bs)
    case Nil
    then show ?case by (cases bs) (simp_all add: hex_byte_def)
  next
    case (Cons a as)
    then obtain b bs' where bs: "bs = b # bs'" by (cases bs) (auto simp: hex_byte_def)
    with Cons.prems have "hex_byte a = hex_byte b" "to_hex as = to_hex bs'"
      by (simp_all add: hex_byte_def)
    with Cons.IH [of bs'] bs show ?case by simp
  qed
qed simp

text \<open>\<open>/^[0-9a-f]{64}$/\<close>, the form of every blob hash the program accepts.\<close>

definition is_hash :: "jstr \<Rightarrow> bool" where
  "is_hash s \<longleftrightarrow> length s = 64 \<and> list_all is_lower_hex s"

lemma hex_byte_lower_hex: "list_all is_lower_hex (hex_byte b)"
  using unat_byte_nibbles [of b] by (auto simp: hex_byte_def hex_digit_def char_classes)

lemma is_hash_to_hex: "length bs = 32 \<Longrightarrow> is_hash (to_hex bs)"
proof -
  have "list_all is_lower_hex (to_hex bs)"
    by (induction bs) (simp_all add: hex_byte_lower_hex)
  moreover assume "length bs = 32"
  ultimately show ?thesis by (simp add: is_hash_def)
qed

subsection \<open>Code that throws\<close>

definition ebind :: "'e + 'a \<Rightarrow> ('a \<Rightarrow> 'e + 'b) \<Rightarrow> 'e + 'b" where
  "ebind x f = (case x of Inl e \<Rightarrow> Inl e | Inr a \<Rightarrow> f a)"

lemma ebind_simps [simp]: "ebind (Inl e) f = Inl e" "ebind (Inr a) f = f a"
  by (simp_all add: ebind_def)

lemma ebind_Inr: "ebind x f = Inr b \<longleftrightarrow> (\<exists>a. x = Inr a \<and> f a = Inr b)"
  by (cases x) auto

lemma ebind_Inl: "ebind x f = Inl e \<longleftrightarrow> x = Inl e \<or> (\<exists>a. x = Inr a \<and> f a = Inl e)"
  by (cases x) auto

definition guard_err :: "bool \<Rightarrow> 'e \<Rightarrow> 'e + unit" where
  "guard_err ok e = (if ok then Inr () else Inl e)"

text \<open>\<open>for (x of xs) s = f(x, s)\<close> and \<open>xs.map(f)\<close>, where \<open>f\<close> may throw.\<close>

fun fold_err :: "('a \<Rightarrow> 's \<Rightarrow> 'e + 's) \<Rightarrow> 'a list \<Rightarrow> 's \<Rightarrow> 'e + 's" where
  "fold_err f [] s = Inr s"
| "fold_err f (x # xs) s = (case f x s of Inl e \<Rightarrow> Inl e | Inr s' \<Rightarrow> fold_err f xs s')"

fun map_err :: "('a \<Rightarrow> 'e + 'b) \<Rightarrow> 'a list \<Rightarrow> 'e + 'b list" where
  "map_err f [] = Inr []"
| "map_err f (x # xs) =
     (case f x of Inl e \<Rightarrow> Inl e
      | Inr y \<Rightarrow> (case map_err f xs of Inl e \<Rightarrow> Inl e | Inr ys \<Rightarrow> Inr (y # ys)))"

lemma map_err_Inr: "map_err f xs = Inr ys \<longleftrightarrow> list_all2 (\<lambda>x y. f x = Inr y) xs ys"
proof (induction xs arbitrary: ys)
  case Nil
  then show ?case by auto
next
  case (Cons x xs)
  have "map_err f (x # xs) = Inr ys \<longleftrightarrow>
      (\<exists>y zs. f x = Inr y \<and> map_err f xs = Inr zs \<and> ys = y # zs)"
    by (auto split: sum.splits)
  then show ?case by (auto simp: Cons.IH list_all2_Cons1)
qed

lemma map_err_set: "map_err f xs = Inr ys \<Longrightarrow> y \<in> set ys \<Longrightarrow> \<exists>x \<in> set xs. f x = Inr y"
  unfolding map_err_Inr list_all2_conv_all_nth in_set_conv_nth by (metis nth_mem)

lemma map_err_length: "map_err f xs = Inr ys \<Longrightarrow> length ys = length xs"
  by (auto simp: map_err_Inr dest: list_all2_lengthD)

lemma map_err_all: "(\<And>x. x \<in> set xs \<Longrightarrow> f x = Inr (g x)) \<Longrightarrow> map_err f xs = Inr (map g xs)"
  by (induction xs) auto

lemma map_err_cong [fundef_cong]:
  "xs = ys \<Longrightarrow> (\<And>x. x \<in> set ys \<Longrightarrow> f x = g x) \<Longrightarrow> map_err f xs = map_err g ys"
proof (induction xs arbitrary: ys)
  case (Cons x xs)
  then have "map_err f xs = map_err g xs" "f x = g x" by auto
  with Cons.prems(1) show ?case by (auto split: sum.split)
qed simp

lemma fold_err_cong [fundef_cong]:
  "xs = ys \<Longrightarrow> s = t \<Longrightarrow> (\<And>x u. x \<in> set ys \<Longrightarrow> f x u = g x u)
    \<Longrightarrow> fold_err f xs s = fold_err g ys t"
proof (induction xs arbitrary: ys s t)
  case (Cons x xs)
  then show ?case by (auto split: sum.split)
qed simp

lemma fold_err_append:
  "fold_err f (xs @ ys) s = ebind (fold_err f xs s) (fold_err f ys)"
  by (induction xs arbitrary: s) (auto split: sum.split)

lemma fold_err_inv:
  assumes "fold_err f xs s = Inr t" "I s"
    and "\<And>x s t. x \<in> set xs \<Longrightarrow> I s \<Longrightarrow> f x s = Inr t \<Longrightarrow> I t"
  shows "I t"
  using assms
proof (induction xs arbitrary: s)
  case (Cons x xs)
  then obtain u where u: "f x s = Inr u" "fold_err f xs u = Inr t"
    by (auto split: sum.splits)
  with Cons.prems have "I u" by auto
  with u Cons show ?case by auto
qed simp

subsection \<open>map followed by filter\<close>

lemma map_filter_Nil: "List.map_filter f [] = []"
  by (simp add: List.map_filter_def)

lemma map_filter_Cons: "List.map_filter f (x # xs) =
    (case f x of None \<Rightarrow> List.map_filter f xs | Some y \<Rightarrow> y # List.map_filter f xs)"
  by (simp add: List.map_filter_def split: option.split)

lemmas map_filter_rules = map_filter_Nil map_filter_Cons

lemma map_filter_eq: "\<forall>x \<in> set xs. f x = g x \<Longrightarrow> List.map_filter f xs = List.map_filter g xs"
  by (induction xs) (auto simp: map_filter_rules split: option.split)

lemma set_map_filter: "set (List.map_filter f xs) = {y. \<exists>x \<in> set xs. f x = Some y}"
  by (induction xs) (auto simp: map_filter_rules split: option.splits)

subsection \<open>Map and Set objects\<close>

text \<open>
  A JavaScript \<open>Map\<close> iterates in the order in which its keys were first set:
  an association list, with \<open>set\<close> the library's \<^const>\<open>AList.update\<close> (in place when
  the key is there, at the end otherwise), \<open>delete\<close> \<^const>\<open>AList.delete\<close>, \<open>get\<close>
  \<^const>\<open>map_of\<close>. \<open>[...new Set(xs)]\<close> keeps the first occurrence of each element.
\<close>

type_synonym ('k, 'v) jmap = "('k \<times> 'v) list"

definition uniq :: "'a list \<Rightarrow> 'a list" where
  "uniq xs = rev (remdups (rev xs))"

lemma set_uniq [simp]: "set (uniq xs) = set xs"
  by (simp add: uniq_def)

lemma distinct_uniq [simp]: "distinct (uniq xs)"
  by (simp add: uniq_def)

lemma uniq_id: "distinct xs \<Longrightarrow> uniq xs = xs"
  by (simp add: uniq_def distinct_remdups_id)

definition jmap_ok :: "('k, 'v) jmap \<Rightarrow> bool" where
  "jmap_ok m \<longleftrightarrow> distinct (map fst m)"

lemma jmap_ok_simps [simp]:
  "jmap_ok []" "jmap_ok m \<Longrightarrow> jmap_ok (AList.update k v m)"
  "jmap_ok m \<Longrightarrow> jmap_ok (AList.delete k m)"
  by (simp_all add: jmap_ok_def distinct_update distinct_delete)


lemma update_new: "map_of m k = None \<Longrightarrow> AList.update k v m = m @ [(k, v)]"
  by (induction m) (auto split: if_splits)

lemma map_of_update: "map_of (AList.update k v m) x = (if x = k then Some v else map_of m x)"
  by (simp add: update_conv')

lemma jmap_ok_map_of: "jmap_ok m \<Longrightarrow> (k, v) \<in> set m \<longleftrightarrow> map_of m k = Some v"
  by (simp add: jmap_ok_def)

subsection \<open>Values that come from outside\<close>

text \<open>
  What \<open>JSON.parse\<close> or the MessagePack \<open>decode\<close> can return. \<open>V_Int\<close> is a Number with an
  integral value, \<open>V_Float\<close> any other Number by its IEEE pattern; \<open>V_Inst\<close> is an instance
  of a class (an extension value), given by its own enumerable properties; \<open>V_Other\<close> stands
  for a value of any other kind, such as a \<open>bigint\<close> (neither format has an \<open>undefined\<close>).
\<close>

datatype jsval =
    V_Null
  | V_Bool bool
  | V_Int int
  | V_Float "64 word"
  | V_Str jstr
  | V_Bin bytes
  | V_Arr "jsval list"
  | V_Obj "(jstr \<times> jsval) list"
  | V_Inst "(jstr \<times> jsval) list"
  | V_Other

type_synonym props = "(jstr \<times> jsval) list"

text \<open>\<open>Number.isSafeInteger\<close> of any value, \<open>Array.isArray(v)\<close> and \<open>typeof v === "string"\<close>.\<close>

definition safe_integer :: "jsval \<Rightarrow> int option" where
  "safe_integer v = (case v of V_Int n \<Rightarrow> if safe_int n then Some n else None | _ \<Rightarrow> None)"

fun the_array :: "jsval \<Rightarrow> jsval list option" where
  "the_array (V_Arr vs) = Some vs"
| "the_array _ = None"

fun the_string :: "jsval \<Rightarrow> jstr option" where
  "the_string (V_Str s) = Some s"
| "the_string _ = None"

lemma safe_integer_Some: "safe_integer v = Some n \<longleftrightarrow> v = V_Int n \<and> safe_int n"
  by (cases v) (auto simp: safe_integer_def)

lemma the_array_Some: "the_array v = Some vs \<longleftrightarrow> v = V_Arr vs"
  by (cases v) auto

lemma the_string_Some: "the_string v = Some s \<longleftrightarrow> v = V_Str s"
  by (cases v) auto

lemmas js_value_cases = safe_integer_Some the_array_Some the_string_Some

text \<open>All results of a list of partial functions, as \<open>every\<close> followed by a map.\<close>

fun all_some :: "'a option list \<Rightarrow> 'a list option" where
  "all_some [] = Some []"
| "all_some (x # xs) =
     (case x of None \<Rightarrow> None | Some a \<Rightarrow> map_option (\<lambda>as. a # as) (all_some xs))"

lemma all_some_map: "(\<And>x. x \<in> set xs \<Longrightarrow> f x = Some (g x)) \<Longrightarrow> all_some (map f xs) = Some (map g xs)"
  by (induction xs) auto

lemma all_some_Some: "all_some xs = Some ys \<longleftrightarrow> xs = map Some ys"
proof (induction xs arbitrary: ys)
  case (Cons x xs)
  then show ?case by (cases ys) (auto split: option.splits)
qed auto


lemma all_some_map_inv:
  assumes "all_some (map f xs) = Some ys" "\<And>x y. f x = Some y \<Longrightarrow> x = g y"
  shows "xs = map g ys"
  using assms(1)
proof (induction xs arbitrary: ys)
  case (Cons x xs)
  then obtain a as where "f x = Some a" "all_some (map f xs) = Some as" "ys = a # as"
    by (auto split: option.splits)
  with Cons.IH assms(2) show ?case by simp
qed simp

end
