(* ===== verification/Tables.thy ===== *)
theory Tables
  imports Prelude "HOL-Library.Multiset"
begin

section \<open>SQLite tables, transactions and operations that may throw\<close>

text \<open>
  The repositories of the program keep their state in SQLite tables. A table is the list of
  its rows, oldest first; a primary key is a function of the row. Each SQL form that the
  program uses is one operation here: \<open>INSERT\<close> (fails on a duplicate key),
  \<open>INSERT OR IGNORE\<close>, \<open>INSERT OR REPLACE\<close>, \<open>UPDATE ... WHERE\<close>, \<open>DELETE ... WHERE\<close>,
  \<open>SELECT ... WHERE key\<close> and \<open>ORDER BY\<close>.

  An operation of a component is a function from the state to its result (a thrown error or
  a value) and the new state; a throw keeps what was changed before it, unless a
  transaction rolled it back.
\<close>

subsection \<open>Tables\<close>

definition pk :: "('r \<Rightarrow> 'k) \<Rightarrow> 'r list \<Rightarrow> bool" where
  "pk key t \<longleftrightarrow> distinct (map key t)"

definition row :: "('r \<Rightarrow> 'k) \<Rightarrow> 'k \<Rightarrow> 'r list \<Rightarrow> 'r option" where
  "row key k t = find (\<lambda>r. key r = k) t"

definition has_key :: "('r \<Rightarrow> 'k) \<Rightarrow> 'k \<Rightarrow> 'r list \<Rightarrow> bool" where
  "has_key key k t \<longleftrightarrow> list_ex (\<lambda>r. key r = k) t"

definition insert_row :: "('r \<Rightarrow> 'k) \<Rightarrow> 'r \<Rightarrow> 'r list \<Rightarrow> 'r list option" where
  "insert_row key r t = (if has_key key (key r) t then None else Some (t @ [r]))"

definition insert_ignore :: "('r \<Rightarrow> 'k) \<Rightarrow> 'r \<Rightarrow> 'r list \<Rightarrow> 'r list" where
  "insert_ignore key r t = (if has_key key (key r) t then t else t @ [r])"

definition insert_replace :: "('r \<Rightarrow> 'k) \<Rightarrow> 'r \<Rightarrow> 'r list \<Rightarrow> 'r list" where
  "insert_replace key r t = filter (\<lambda>x. key x \<noteq> key r) t @ [r]"

definition delete_where :: "('r \<Rightarrow> bool) \<Rightarrow> 'r list \<Rightarrow> 'r list" where
  "delete_where P t = filter (\<lambda>r. \<not> P r) t"

definition update_where :: "('r \<Rightarrow> bool) \<Rightarrow> ('r \<Rightarrow> 'r) \<Rightarrow> 'r list \<Rightarrow> 'r list" where
  "update_where P f t = map (\<lambda>r. if P r then f r else r) t"

text \<open>\<open>INSERT ... SELECT\<close>: the first duplicate key aborts the statement.\<close>

fun insert_rows :: "('r \<Rightarrow> 'k) \<Rightarrow> 'r list \<Rightarrow> 'r list \<Rightarrow> 'r list option" where
  "insert_rows key [] t = Some t"
| "insert_rows key (r # rs) t =
     (case insert_row key r t of None \<Rightarrow> None | Some t' \<Rightarrow> insert_rows key rs t')"

definition insert_rows_ignore :: "('r \<Rightarrow> 'k) \<Rightarrow> 'r list \<Rightarrow> 'r list \<Rightarrow> 'r list" where
  "insert_rows_ignore key rs t = fold (insert_ignore key) rs t"

lemma has_key_iff: "has_key key k t \<longleftrightarrow> k \<in> key ` set t"
  by (auto simp: has_key_def list_ex_iff)

lemma row_Some_iff: "pk key t \<Longrightarrow> row key k t = Some r \<longleftrightarrow> r \<in> set t \<and> key r = k"
proof (induction t)
  case (Cons x t)
  then show ?case by (auto simp: row_def pk_def image_iff)
qed (simp add: row_def)

lemma row_SomeD: "row key k t = Some r \<Longrightarrow> r \<in> set t \<and> key r = k"
  by (auto simp: row_def find_Some_iff)

lemma row_None_iff: "row key k t = None \<longleftrightarrow> k \<notin> key ` set t"
  by (auto simp: row_def find_None_iff)

lemma pk_simps [simp]: "pk key []"
  by (simp add: pk_def)

lemma insert_row_Some:
  "insert_row key r t = Some t' \<longleftrightarrow> key r \<notin> key ` set t \<and> t' = t @ [r]"
  by (auto simp: insert_row_def has_key_iff)

lemma pk_insert_row: "insert_row key r t = Some t' \<Longrightarrow> pk key t \<Longrightarrow> pk key t'"
  by (auto simp: insert_row_Some pk_def)

lemma pk_insert_ignore: "pk key t \<Longrightarrow> pk key (insert_ignore key r t)"
  by (auto simp: insert_ignore_def has_key_iff pk_def)

lemma pk_insert_replace: "pk key t \<Longrightarrow> pk key (insert_replace key r t)"
  by (auto simp: insert_replace_def pk_def distinct_map_filter)

lemma pk_delete_where: "pk key t \<Longrightarrow> pk key (delete_where P t)"
  by (simp add: delete_where_def pk_def distinct_map_filter)

lemma pk_update_where:
  assumes "pk key t" "\<And>r. P r \<Longrightarrow> key (f r) = key r"
  shows "pk key (update_where P f t)"
proof -
  have "map key (update_where P f t) = map key t"
    using assms(2) by (simp add: update_where_def)
  with assms(1) show ?thesis by (simp add: pk_def)
qed

lemma pk_insert_rows: "insert_rows key rs t = Some t' \<Longrightarrow> pk key t \<Longrightarrow> pk key t'"
  by (induction rs arbitrary: t) (auto split: option.splits dest: pk_insert_row)

lemma pk_insert_rows_ignore: "pk key t \<Longrightarrow> pk key (insert_rows_ignore key rs t)"
  by (induction rs arbitrary: t) (auto simp: insert_rows_ignore_def pk_insert_ignore)

lemmas pk_preserved [inv_intros] = pk_insert_row pk_insert_ignore pk_insert_replace pk_delete_where
  pk_insert_rows pk_insert_rows_ignore

lemma insert_rows_append:
  "insert_rows key rs t = Some t' \<Longrightarrow> t' = t @ rs"
  by (induction rs arbitrary: t) (fastforce simp: insert_row_Some split: option.splits)+

lemma set_delete_where [simp]: "set (delete_where P t) = {r \<in> set t. \<not> P r}"
  by (auto simp: delete_where_def)

lemma set_update_where: "set (update_where P f t) = {r \<in> set t. \<not> P r} \<union> f ` {r \<in> set t. P r}"
  by (auto simp: update_where_def)

lemma set_insert_ignore_mono: "set t \<subseteq> set (insert_ignore key r t)"
  by (auto simp: insert_ignore_def)

lemma insert_ignore_cases:
  "set (insert_ignore key r t) = (if key r \<in> key ` set t then set t else insert r (set t))"
  by (auto simp: insert_ignore_def has_key_iff)

lemma keys_insert_ignore: "key ` set (insert_ignore key r t) = insert (key r) (key ` set t)"
  by (auto simp: insert_ignore_cases)

lemma keys_insert_rows_ignore:
  "key ` set (insert_rows_ignore key rs t) = key ` set t \<union> key ` set rs"
proof (induction rs arbitrary: t)
  case (Cons r rs)
  have "insert_rows_ignore key (r # rs) t = insert_rows_ignore key rs (insert_ignore key r t)"
    by (simp add: insert_rows_ignore_def)
  then show ?case by (simp add: Cons.IH keys_insert_ignore)
qed (simp add: insert_rows_ignore_def)

lemma set_insert_rows_ignore_id:
  "set (insert_rows_ignore id rs t) = set t \<union> set rs"
  using keys_insert_rows_ignore [of id rs t] by simp

lemma has_key_row: "has_key key k t \<longleftrightarrow> row key k t \<noteq> None"
  by (simp add: has_key_iff row_None_iff)

lemma row_append: "row key k (t @ [r]) = (case row key k t of Some x \<Rightarrow> Some x
    | None \<Rightarrow> if key r = k then Some r else None)"
  by (induction t) (simp_all add: row_def)

lemma row_update_where:
  assumes "\<And>r. key (f r) = key r"
  shows "row key k (update_where (\<lambda>r. key r = j) f t) =
    (if k = j then map_option f (row key k t) else row key k t)"
proof -
  have "find (\<lambda>r. key r = k) (map (\<lambda>r. if key r = j then f r else r) t)
      = (if k = j then map_option f (find (\<lambda>r. key r = k) t) else find (\<lambda>r. key r = k) t)"
    by (induction t) (auto simp: assms)
  then show ?thesis by (simp only: row_def update_where_def)
qed

lemma row_delete_where:
  "row key k (delete_where (\<lambda>r. key r = j) t) = (if k = j then None else row key k t)"
proof -
  have "find (\<lambda>r. key r = k) (filter (\<lambda>r. key r \<noteq> j) t)
      = (if k = j then None else find (\<lambda>r. key r = k) t)"
    by (induction t) auto
  then show ?thesis by (simp only: row_def delete_where_def)
qed

subsection \<open>Operations and transactions\<close>

type_synonym ('s, 'e, 'a) op = "'s \<Rightarrow> ('e + 'a) \<times> 's"

definition op_return :: "'a \<Rightarrow> ('s, 'e, 'a) op" where
  "op_return a s = (Inr a, s)"

definition op_throw :: "'e \<Rightarrow> ('s, 'e, 'a) op" where
  "op_throw e s = (Inl e, s)"

definition op_bind :: "('s, 'e, 'a) op \<Rightarrow> ('a \<Rightarrow> ('s, 'e, 'b) op) \<Rightarrow> ('s, 'e, 'b) op" where
  "op_bind m f s = (case m s of (Inl e, s') \<Rightarrow> (Inl e, s') | (Inr a, s') \<Rightarrow> f a s')"

text \<open>\<open>BEGIN IMMEDIATE ... COMMIT\<close>, with \<open>ROLLBACK\<close> and rethrow when the body throws.\<close>

definition transaction :: "('s \<Rightarrow> 'e + 'a \<times> 's) \<Rightarrow> ('s, 'e, 'a) op" where
  "transaction body s = (case body s of Inl e \<Rightarrow> (Inl e, s) | Inr (a, s') \<Rightarrow> (Inr a, s'))"

definition keeps :: "('s \<Rightarrow> bool) \<Rightarrow> ('s, 'e, 'a) op \<Rightarrow> bool" where
  "keeps I m \<longleftrightarrow> (\<forall>s. I s \<longrightarrow> I (snd (m s)))"

lemma keepsI: "(\<And>s. I s \<Longrightarrow> I (snd (m s))) \<Longrightarrow> keeps I m"
  by (simp add: keeps_def)

lemma keepsD: "keeps I m \<Longrightarrow> I s \<Longrightarrow> I (snd (m s))"
  by (simp add: keeps_def)

lemma keeps_return: "keeps I (op_return a)"
  by (simp add: keeps_def op_return_def)

lemma keeps_throw: "keeps I (op_throw e)"
  by (simp add: keeps_def op_throw_def)

lemma keeps_bind: "keeps I m \<Longrightarrow> (\<And>a. keeps I (f a)) \<Longrightarrow> keeps I (op_bind m f)"
  by (fastforce simp: keeps_def op_bind_def split: prod.split sum.split)

lemma keeps_transaction:
  "(\<And>s a s'. I s \<Longrightarrow> body s = Inr (a, s') \<Longrightarrow> I s') \<Longrightarrow> keeps I (transaction body)"
  by (auto simp: keeps_def transaction_def split: sum.split)

lemma transaction_Inl: "transaction body s = (Inl e, s') \<longleftrightarrow> body s = Inl e \<and> s' = s"
  by (auto simp: transaction_def split: sum.splits)

lemma transaction_Inr: "transaction body s = (Inr a, s') \<longleftrightarrow> body s = Inr (a, s')"
  by (auto simp: transaction_def split: sum.splits)

text \<open>\<open>RouteComponent\<close>: one chunk of a route, shared by the writer and the blob store.\<close>

record route_component =
  rc_index :: int
  rc_hash :: jstr
  rc_size :: int

lemmas keeps_rules [inv_intros] = keeps_return keeps_throw keeps_bind

end
