(* ===== verification/Hashtree_Codec.thy ===== *)
theory Hashtree_Codec
  imports Prelude "HOL-Library.Multiset"
begin

section \<open>Hashtree manifests: validation and canonical encoding (protocol/hashtree.ts)\<close>

text \<open>
  \<^verbatim>\<open>src/protocol/hashtree.ts\<close> turns the MessagePack bytes of a BUD manifest into a
  validated manifest and back. MessagePack itself is the package \<open>@msgpack/msgpack\<close>: its
  \<open>decode\<close> and \<open>encode\<close> are the parameters \<open>mp_decode\<close> (\<open>None\<close>: it threw) and
  \<open>mp_encode\<close> (\<open>None\<close>: it threw, as it does on too deep a value) of the definitions.
\<close>

subsection \<open>Manifests\<close>

datatype link_type = L_Blob | L_File | L_Directory | L_Fanout

datatype manifest_type = M_File | M_Directory | M_Fanout

record manifest_link =
  ml_hash :: bytes
  ml_key :: "bytes option"
  ml_metadata :: "props option"
  ml_name :: "jstr option"
  ml_size :: int
  ml_type :: link_type

record manifest =
  m_type :: manifest_type
  m_links :: "manifest_link list"

record manifest_limits =
  max_wire_bytes :: int
  max_decoded_bytes :: int
  max_links :: int

record validated_manifest =
  vm_manifest :: manifest
  vm_decoded_bytes :: int

text \<open>One constructor for each \<open>ManifestDataError\<close>; \<open>ME_encode_threw\<close> is the re-encoding throwing.\<close>

datatype manifest_error =
    ME_wire_size | ME_malformed | ME_encode_threw | ME_not_canonical | ME_decoded_limit
  | ME_root_not_map | ME_fields | ME_links_not_array | ME_too_many_links | ME_manifest_type
  | ME_link_not_map | ME_unknown_field jstr | ME_missing_field jstr | ME_link_type
  | ME_bytes32 | ME_metadata_map | ME_metadata_json | ME_name_text | ME_uint
  | ME_file_link | ME_unsafe_name | ME_name_order | ME_fanout_link | ME_fanout_bounds

fun link_code :: "link_type \<Rightarrow> int" where
  "link_code L_Blob = 0" | "link_code L_File = 1"
| "link_code L_Directory = 2" | "link_code L_Fanout = 3"

fun manifest_code :: "manifest_type \<Rightarrow> int" where
  "manifest_code M_File = 1" | "manifest_code M_Directory = 2" | "manifest_code M_Fanout = 3"

definition link_of_code :: "jsval \<Rightarrow> link_type option" where
  "link_of_code v =
     (if v = V_Int 0 then Some L_Blob else if v = V_Int 1 then Some L_File
      else if v = V_Int 2 then Some L_Directory else if v = V_Int 3 then Some L_Fanout else None)"

definition manifest_of_code :: "jsval \<Rightarrow> manifest_type option" where
  "manifest_of_code v =
     (if v = V_Int 1 then Some M_File else if v = V_Int 2 then Some M_Directory
      else if v = V_Int 3 then Some M_Fanout else None)"

subsection \<open>Encoding\<close>

definition opt_prop :: "string \<Rightarrow> jsval option \<Rightarrow> props" where
  "opt_prop k v = (case v of None \<Rightarrow> [] | Some x \<Rightarrow> [(js k, x)])"

definition link_value :: "manifest_link \<Rightarrow> jsval" where
  "link_value l = V_Obj
     ([(js ''h'', V_Bin (ml_hash l))]
      @ opt_prop ''k'' (map_option V_Bin (ml_key l))
      @ opt_prop ''m'' (map_option V_Obj (ml_metadata l))
      @ opt_prop ''n'' (map_option V_Str (ml_name l))
      @ [(js ''s'', V_Int (ml_size l)), (js ''t'', V_Int (link_code (ml_type l)))])"

definition manifest_value :: "manifest \<Rightarrow> jsval" where
  "manifest_value m = V_Obj
     [(js ''l'', V_Arr (map link_value (m_links m))),
      (js ''t'', V_Int (manifest_code (m_type m)))]"

definition encode_manifest :: "(jsval \<Rightarrow> bytes option) \<Rightarrow> manifest \<Rightarrow> bytes option" where
  "encode_manifest mp_encode m = mp_encode (manifest_value m)"

subsection \<open>Checks on values\<close>

fun record_props :: "jsval \<Rightarrow> props option" where
  "record_props (V_Obj p) = Some p"
| "record_props (V_Inst p) = Some p"
| "record_props _ = None"

definition exact_keys :: "props \<Rightarrow> jstr list \<Rightarrow> bool" where
  "exact_keys p allowed \<longleftrightarrow> sort (map fst p) = sort allowed"

definition uint_js :: "jsval \<Rightarrow> manifest_error + int" where
  "uint_js v = (case v of V_Int n \<Rightarrow> if safe_int n \<and> 0 \<le> n then Inr n else Inl ME_uint
             | _ \<Rightarrow> Inl ME_uint)"

definition bytes32 :: "jsval \<Rightarrow> manifest_error + bytes" where
  "bytes32 v = (case v of V_Bin b \<Rightarrow> if length b = 32 then Inr b else Inl ME_bytes32
                | _ \<Rightarrow> Inl ME_bytes32)"

text \<open>\<open>Number.isFinite\<close> on the IEEE pattern: the exponent field is not all ones.\<close>

definition finite_float :: "64 word \<Rightarrow> bool" where
  "finite_float w \<longleftrightarrow> (unat w div 2 ^ 52) mod 2048 \<noteq> 2047"

text \<open>\<open>jsonMetadata\<close> and its inner \<open>visit\<close>: a deep copy that refuses what JSON cannot hold.\<close>

fun json_visit :: "jsval \<Rightarrow> manifest_error + jsval"
  and json_visit_list :: "jsval list \<Rightarrow> manifest_error + jsval list"
  and json_visit_props :: "props \<Rightarrow> manifest_error + props"
where
  "json_visit V_Null = Inr V_Null"
| "json_visit (V_Str s) = Inr (V_Str s)"
| "json_visit (V_Bool b) = Inr (V_Bool b)"
| "json_visit (V_Int n) = Inr (V_Int n)"
| "json_visit (V_Float w) = (if finite_float w then Inr (V_Float w) else Inl ME_metadata_json)"
| "json_visit (V_Arr vs) = ebind (json_visit_list vs) (\<lambda>us. Inr (V_Arr us))"
| "json_visit (V_Obj p) = ebind (json_visit_props p) (\<lambda>q. Inr (V_Obj q))"
| "json_visit (V_Inst p) = ebind (json_visit_props p) (\<lambda>q. Inr (V_Obj q))"
| "json_visit (V_Bin b) = Inl ME_metadata_json"
| "json_visit V_Other = Inl ME_metadata_json"
| "json_visit_list [] = Inr []"
| "json_visit_list (v # vs) =
     ebind (json_visit v) (\<lambda>u. ebind (json_visit_list vs) (\<lambda>us. Inr (u # us)))"
| "json_visit_props [] = Inr []"
| "json_visit_props ((k, v) # p) =
     ebind (json_visit v) (\<lambda>u. ebind (json_visit_props p) (\<lambda>q. Inr ((k, u) # q)))"

definition json_metadata :: "jsval \<Rightarrow> manifest_error + props" where
  "json_metadata v = (case record_props v of None \<Rightarrow> Inl ME_metadata_map
                      | Some p \<Rightarrow> json_visit_props p)"

fun decoded_cost :: "jsval \<Rightarrow> int"
  and decoded_cost_list :: "jsval list \<Rightarrow> int"
  and decoded_cost_props :: "props \<Rightarrow> int"
where
  "decoded_cost V_Null = 1"
| "decoded_cost (V_Str s) = int (length (utf8 s))"
| "decoded_cost (V_Int _) = 8"
| "decoded_cost (V_Float _) = 8"
| "decoded_cost (V_Bool _) = 8"
| "decoded_cost (V_Bin b) = int (length b)"
| "decoded_cost (V_Arr vs) = decoded_cost_list vs"
| "decoded_cost (V_Obj p) = decoded_cost_props p"
| "decoded_cost (V_Inst p) = decoded_cost_props p"
| "decoded_cost V_Other = max_safe"
| "decoded_cost_list [] = 0"
| "decoded_cost_list (v # vs) = decoded_cost v + decoded_cost_list vs"
| "decoded_cost_props [] = 0"
| "decoded_cost_props ((k, v) # p) =
     int (length (utf8 k)) + decoded_cost v + decoded_cost_props p"

subsection \<open>Decoding\<close>

text \<open>The callback of \<open>raw.l.map\<close>: one link, with the checks in the order the code makes them.\<close>

definition required_keys :: "manifest_type \<Rightarrow> jstr list" where
  "required_keys mt =
     (if mt = M_Directory then map js [''h'', ''n'', ''s'', ''t''] else map js [''h'', ''s'', ''t''])"

definition optional_of :: "(jsval \<Rightarrow> manifest_error + 'a) \<Rightarrow> jsval option \<Rightarrow> manifest_error + 'a option"
where
  "optional_of f v = (case v of None \<Rightarrow> Inr None | Some x \<Rightarrow> ebind (f x) (\<lambda>a. Inr (Some a)))"

definition text_value :: "jsval \<Rightarrow> manifest_error + jstr" where
  "text_value v = (case v of V_Str s \<Rightarrow> Inr s | _ \<Rightarrow> Inl ME_name_text)"

definition decode_link_fields :: "props \<Rightarrow> link_type \<Rightarrow> manifest_error + manifest_link" where
  "decode_link_fields p t =
     ebind (bytes32 (the (map_of p (js ''h'')))) (\<lambda>h.
     ebind (optional_of bytes32 (map_of p (js ''k''))) (\<lambda>k.
     ebind (optional_of json_metadata (map_of p (js ''m''))) (\<lambda>m.
     ebind (optional_of text_value (map_of p (js ''n''))) (\<lambda>n.
     ebind (uint_js (the (map_of p (js ''s'')))) (\<lambda>s.
     Inr \<lparr>ml_hash = h, ml_key = k, ml_metadata = m, ml_name = n, ml_size = s, ml_type = t\<rparr>)))))"

definition decode_link :: "manifest_type \<Rightarrow> jsval \<Rightarrow> manifest_error + manifest_link" where
  "decode_link mt item =
     (case record_props item of None \<Rightarrow> Inl ME_link_not_map
      | Some p \<Rightarrow>
          (case find (\<lambda>k. k \<notin> set (required_keys mt @ map js [''k'', ''m''])) (sort (map fst p)) of
             Some k \<Rightarrow> Inl (ME_unknown_field k)
           | None \<Rightarrow>
               (case find (\<lambda>k. map_of p k = None) (required_keys mt) of
                  Some k \<Rightarrow> Inl (ME_missing_field k)
                | None \<Rightarrow>
                    (case link_of_code (the (map_of p (js ''t''))) of None \<Rightarrow> Inl ME_link_type
                     | Some t \<Rightarrow> decode_link_fields p t))))"

definition file_link_ok :: "manifest_link \<Rightarrow> bool" where
  "file_link_ok l \<longleftrightarrow> ml_name l = None \<and> (ml_type l = L_Blob \<or> ml_type l = L_File)"

definition safe_name :: "jstr \<Rightarrow> bool" where
  "safe_name n \<longleftrightarrow> n \<noteq> [] \<and> n \<noteq> js ''.'' \<and> n \<noteq> js ''..'' \<and> 47 \<notin> set n \<and> 0 \<notin> set n"

text \<open>The loop over a directory's links, carrying the previous name.\<close>

fun check_directory :: "jstr option \<Rightarrow> manifest_link list \<Rightarrow> manifest_error + unit" where
  "check_directory previous [] = Inr ()"
| "check_directory previous (l # ls) =
     (case ml_name l of None \<Rightarrow> Inl ME_unsafe_name
      | Some n \<Rightarrow>
          if \<not> safe_name n then Inl ME_unsafe_name
          else if (case previous of None \<Rightarrow> False | Some q \<Rightarrow> byte_compare q n \<ge> 0)
            then Inl ME_name_order
          else check_directory (Some n) ls)"

definition prop_text :: "props \<Rightarrow> string \<Rightarrow> jstr option" where
  "prop_text p k = (case map_of p (js k) of Some (V_Str s) \<Rightarrow> Some s | _ \<Rightarrow> None)"

text \<open>The loop over a fanout's links, carrying the last name of the previous range.\<close>

fun check_fanout :: "jstr option \<Rightarrow> manifest_link list \<Rightarrow> manifest_error + unit" where
  "check_fanout prior [] = Inr ()"
| "check_fanout prior (l # ls) =
     (if ml_name l \<noteq> None \<or> (ml_type l \<noteq> L_Directory \<and> ml_type l \<noteq> L_Fanout)
      then Inl ME_fanout_link
      else (case ml_metadata l of None \<Rightarrow> Inl ME_fanout_link
      | Some p \<Rightarrow>
          if \<not> exact_keys p (map js [''count'', ''first'', ''last'']) then Inl ME_fields
          else ebind (uint_js (the (map_of p (js ''count'')))) (\<lambda>count.
            (case (prop_text p ''first'', prop_text p ''last'') of
              (Some lo, Some hi) \<Rightarrow>
                (if count = 0 \<or> byte_compare lo hi > 0
                   \<or> (case prior of None \<Rightarrow> False | Some q \<Rightarrow> byte_compare q lo \<ge> 0)
                then Inl ME_fanout_bounds
                else check_fanout (Some hi) ls)
            | _ \<Rightarrow> Inl ME_fanout_bounds))))"

definition check_links :: "manifest_type \<Rightarrow> manifest_link list \<Rightarrow> manifest_error + unit" where
  "check_links mt ls =
     (case mt of M_File \<Rightarrow> guard_err (list_all file_link_ok ls) ME_file_link
      | M_Directory \<Rightarrow> check_directory None ls
      | M_Fanout \<Rightarrow> check_fanout None ls)"

text \<open>What follows the MessagePack decoding: the root checks, the links, the checks of the kind.\<close>

definition validate_manifest ::
  "manifest_limits \<Rightarrow> int \<Rightarrow> jsval \<Rightarrow> manifest_error + validated_manifest" where
  "validate_manifest lim cost raw =
     (case record_props raw of None \<Rightarrow> Inl ME_root_not_map
      | Some p \<Rightarrow>
          if \<not> exact_keys p (map js [''l'', ''t'']) then Inl ME_fields
          else (case the (map_of p (js ''l'')) of
            V_Arr items \<Rightarrow>
              if int (length items) > max_links lim then Inl ME_too_many_links
              else (case manifest_of_code (the (map_of p (js ''t''))) of
                  None \<Rightarrow> Inl ME_manifest_type
                | Some mt \<Rightarrow>
                    ebind (map_err (decode_link mt) items) (\<lambda>ls.
                    ebind (check_links mt ls) (\<lambda>_.
                      Inr \<lparr>vm_manifest = \<lparr>m_type = mt, m_links = ls\<rparr>, vm_decoded_bytes = cost\<rparr>)))
          | _ \<Rightarrow> Inl ME_links_not_array))"

definition decode_validated_manifest ::
  "(bytes \<Rightarrow> jsval option) \<Rightarrow> (jsval \<Rightarrow> bytes option) \<Rightarrow> bytes \<Rightarrow> manifest_limits
    \<Rightarrow> manifest_error + validated_manifest" where
  "decode_validated_manifest mp_decode mp_encode wire lim =
     (if \<not> safe_int (max_wire_bytes lim) \<or> int (length wire) > max_wire_bytes lim
      then Inl ME_wire_size
      else (case mp_decode wire of None \<Rightarrow> Inl ME_malformed
      | Some raw \<Rightarrow>
          (case mp_encode raw of None \<Rightarrow> Inl ME_encode_threw
           | Some canonical \<Rightarrow>
               if canonical \<noteq> wire then Inl ME_not_canonical
               else if decoded_cost raw > max_decoded_bytes lim then Inl ME_decoded_limit
               else validate_manifest lim (decoded_cost raw) raw)))"

definition decode_manifest ::
  "(bytes \<Rightarrow> jsval option) \<Rightarrow> (jsval \<Rightarrow> bytes option) \<Rightarrow> bytes \<Rightarrow> manifest_limits
    \<Rightarrow> manifest_error + manifest" where
  "decode_manifest mp_decode mp_encode wire lim =
     ebind (decode_validated_manifest mp_decode mp_encode wire lim) (\<lambda>vm. Inr (vm_manifest vm))"


subsection \<open>What a valid manifest is\<close>

text \<open>
  The abstract specification: hashes of 32 bytes, safe sizes, JSON metadata; directory names
  safe and in strict UTF-8 order; fanout ranges non-empty, ordered and disjoint.
\<close>

fun json_ok :: "jsval \<Rightarrow> bool"
  and json_list_ok :: "jsval list \<Rightarrow> bool"
  and json_props_ok :: "props \<Rightarrow> bool"
where
  "json_ok (V_Float w) = finite_float w"
| "json_ok (V_Arr vs) = json_list_ok vs"
| "json_ok (V_Obj p) = json_props_ok p"
| "json_ok (V_Inst _) = False"
| "json_ok (V_Bin _) = False"
| "json_ok V_Other = False"
| "json_ok _ = True"
| "json_list_ok [] = True"
| "json_list_ok (v # vs) = (json_ok v \<and> json_list_ok vs)"
| "json_props_ok [] = True"
| "json_props_ok ((k, v) # p) = (json_ok v \<and> json_props_ok p)"

definition wf_link :: "manifest_type \<Rightarrow> manifest_link \<Rightarrow> bool" where
  "wf_link mt l \<longleftrightarrow>
     length (ml_hash l) = 32 \<and> (case ml_key l of None \<Rightarrow> True | Some k \<Rightarrow> length k = 32)
     \<and> (case ml_metadata l of None \<Rightarrow> True | Some p \<Rightarrow> json_props_ok p)
     \<and> 0 \<le> ml_size l \<and> ml_size l \<le> max_safe
     \<and> (ml_name l \<noteq> None \<longleftrightarrow> mt = M_Directory)"

definition name_less :: "jstr \<Rightarrow> jstr \<Rightarrow> bool" where
  "name_less a b \<longleftrightarrow> utf8 a < utf8 b"

definition link_name :: "manifest_link \<Rightarrow> jstr" where
  "link_name l = the (ml_name l)"

definition fanout_range :: "manifest_link \<Rightarrow> (int \<times> jstr \<times> jstr) option" where
  "fanout_range l =
     (case ml_metadata l of None \<Rightarrow> None
      | Some p \<Rightarrow>
          if exact_keys p (map js [''count'', ''first'', ''last''])
          then (case (map_of p (js ''count''), prop_text p ''first'', prop_text p ''last'') of
                  (Some (V_Int n), Some lo, Some hi) \<Rightarrow> Some (n, lo, hi) | _ \<Rightarrow> None)
          else None)"

definition range_ok :: "manifest_link \<Rightarrow> bool" where
  "range_ok l \<longleftrightarrow>
     (ml_type l = L_Directory \<or> ml_type l = L_Fanout)
     \<and> (case fanout_range l of None \<Rightarrow> False
        | Some (n, lo, hi) \<Rightarrow> 0 < n \<and> n \<le> max_safe \<and> utf8 lo \<le> utf8 hi)"

definition range_lo :: "manifest_link \<Rightarrow> jstr" where
  "range_lo l = fst (snd (the (fanout_range l)))"

definition range_hi :: "manifest_link \<Rightarrow> jstr" where
  "range_hi l = snd (snd (the (fanout_range l)))"

definition range_less :: "manifest_link \<Rightarrow> manifest_link \<Rightarrow> bool" where
  "range_less a b \<longleftrightarrow> utf8 (range_hi a) < utf8 (range_lo b)"

definition wf_kind :: "manifest_type \<Rightarrow> manifest_link list \<Rightarrow> bool" where
  "wf_kind mt ls =
     (case mt of
        M_File \<Rightarrow> (\<forall>l \<in> set ls. ml_type l = L_Blob \<or> ml_type l = L_File)
      | M_Directory \<Rightarrow>
          (\<forall>l \<in> set ls. safe_name (link_name l)) \<and> sorted_wrt name_less (map link_name ls)
      | M_Fanout \<Rightarrow> (\<forall>l \<in> set ls. range_ok l) \<and> sorted_wrt range_less ls)"

definition wf_manifest :: "manifest \<Rightarrow> bool" where
  "wf_manifest m \<longleftrightarrow>
     (\<forall>l \<in> set (m_links m). wf_link (m_type m) l) \<and> wf_kind (m_type m) (m_links m)"

subsection \<open>Values and metadata\<close>

lemma exact_keys_mset: "exact_keys p ks \<longleftrightarrow> mset (map fst p) = mset ks"
  unfolding exact_keys_def by (metis mset_sort properties_for_sort sorted_sort)

lemma json_visit_ok:
  "json_visit v = Inr u \<Longrightarrow> json_ok u"
  "json_visit_list vs = Inr us \<Longrightarrow> json_list_ok us"
  "json_visit_props p = Inr q \<Longrightarrow> json_props_ok q"
  by (induction v and vs and p arbitrary: u and us and q
      rule: json_visit_json_visit_list_json_visit_props.induct)
    (auto simp: ebind_Inr split: if_splits)

lemma json_visit_id:
  "json_ok v \<Longrightarrow> json_visit v = Inr v"
  "json_list_ok vs \<Longrightarrow> json_visit_list vs = Inr vs"
  "json_props_ok p \<Longrightarrow> json_visit_props p = Inr p"
  by (induction v and vs and p rule: json_visit_json_visit_list_json_visit_props.induct) auto

lemma json_metadata_ok: "json_metadata v = Inr p \<Longrightarrow> json_props_ok p"
  by (auto simp: json_metadata_def json_visit_ok(3) split: option.splits)

lemma json_metadata_id: "json_props_ok p \<Longrightarrow> json_metadata (V_Obj p) = Inr p"
  by (simp add: json_metadata_def json_visit_id(3))

lemma uint_js_Inr: "uint_js v = Inr n \<longleftrightarrow> v = V_Int n \<and> 0 \<le> n \<and> n \<le> max_safe"
  by (cases v) (auto simp: uint_js_def safe_int_def max_safe_def)

lemma bytes32_Inr: "bytes32 v = Inr b \<longleftrightarrow> v = V_Bin b \<and> length b = 32"
  by (cases v) (auto simp: bytes32_def)

lemma text_value_Inr: "text_value v = Inr s \<longleftrightarrow> v = V_Str s"
  by (cases v) (auto simp: text_value_def)

lemma optional_of_Inr:
  "optional_of f v = Inr r \<longleftrightarrow>
     (v = None \<and> r = None \<or> (\<exists>x a. v = Some x \<and> f x = Inr a \<and> r = Some a))"
  by (auto simp: optional_of_def ebind_Inr split: option.splits)


lemma check_directory_step:
  "check_directory prev (l # ls) = Inr () \<longleftrightarrow>
     (\<exists>n. ml_name l = Some n \<and> safe_name n
       \<and> (case prev of None \<Rightarrow> True | Some q \<Rightarrow> name_less q n)
       \<and> check_directory (Some n) ls = Inr ())"
  by (cases "ml_name l"; cases prev) (auto simp: byte_compare_order name_less_def)

lemma name_less_trans: "name_less a b \<Longrightarrow> name_less b c \<Longrightarrow> name_less a c"
  by (simp add: name_less_def)

lemma check_directory_Some:
  "check_directory (Some q) ls = Inr () \<longleftrightarrow>
     (\<forall>l \<in> set ls. \<exists>n. ml_name l = Some n \<and> safe_name n)
     \<and> sorted_wrt name_less (q # map link_name ls)"
proof (induction ls arbitrary: q)
  case (Cons l ls)
  show ?case
    by (cases "ml_name l")
      (auto simp: check_directory_step Cons.IH link_name_def intro: name_less_trans
        simp del: check_directory.simps)
qed simp

lemma check_directory_iff:
  "check_directory None ls = Inr () \<longleftrightarrow>
     (\<forall>l \<in> set ls. \<exists>n. ml_name l = Some n \<and> safe_name n)
     \<and> sorted_wrt name_less (map link_name ls)"
proof (cases ls)
  case (Cons l ls')
  then show ?thesis
    by (cases "ml_name l")
      (auto simp: check_directory_step check_directory_Some link_name_def
        simp del: check_directory.simps)
qed simp

lemma range_lo_le_hi: "range_ok l \<Longrightarrow> utf8 (range_lo l) \<le> utf8 (range_hi l)"
  by (auto simp: range_ok_def range_lo_def range_hi_def split: option.splits prod.splits)

lemma range_less_trans: "range_ok b \<Longrightarrow> range_less a b \<Longrightarrow> range_less b c \<Longrightarrow> range_less a c"
  using range_lo_le_hi [of b] by (auto simp: range_less_def)

lemma exact_keys_map_of: "exact_keys p ks \<Longrightarrow> k \<in> set ks \<Longrightarrow> \<exists>v. map_of p k = Some v"
  by (metis exact_keys_mset map_of_eq_None_iff not_None_eq mset_eq_setD set_map)

lemma check_fanout_meta:
  assumes "ml_name l = None" "ml_type l = L_Directory \<or> ml_type l = L_Fanout"
    and "ml_metadata l = Some p"
  shows "check_fanout prior (l # ls) = Inr () \<longleftrightarrow>
     range_ok l
     \<and> (case prior of None \<Rightarrow> True | Some q \<Rightarrow> utf8 q < utf8 (range_lo l))
     \<and> check_fanout (Some (range_hi l)) ls = Inr ()"
proof (cases "exact_keys p (map js [''count'', ''first'', ''last''])")
  case False
  then show ?thesis
    using assms by (auto simp: range_ok_def fanout_range_def)
next
  case True
  then obtain v where v: "map_of p (js ''count'') = Some v"
    using exact_keys_map_of [OF True, of "js ''count''"] by auto
  show ?thesis
  proof (cases "uint_js v")
    case (Inl e)
    then have "\<not> (0 < n \<and> n \<le> max_safe)" if "v = V_Int n" for n
      using uint_js_Inr [of v n] that by auto
    then have "\<not> range_ok l"
      using assms True v by (auto simp: range_ok_def fanout_range_def split: option.splits jsval.splits)
    with Inl show ?thesis using assms True v by auto
  next
    case (Inr n)
    then have n: "v = V_Int n" "0 \<le> n" "n \<le> max_safe" by (simp_all add: uint_js_Inr)
    show ?thesis
      using assms True v n Inr
      by (cases "prop_text p ''first''"; cases "prop_text p ''last''"; cases prior)
        (auto simp: range_ok_def fanout_range_def range_lo_def range_hi_def byte_compare_order)
  qed
qed

lemma check_fanout_step:
  "check_fanout prior (l # ls) = Inr () \<longleftrightarrow>
     ml_name l = None \<and> range_ok l
     \<and> (case prior of None \<Rightarrow> True | Some q \<Rightarrow> utf8 q < utf8 (range_lo l))
     \<and> check_fanout (Some (range_hi l)) ls = Inr ()"
proof (cases "ml_name l \<noteq> None \<or> \<not> (ml_type l = L_Directory \<or> ml_type l = L_Fanout)
    \<or> ml_metadata l = None")
  case True
  then show ?thesis
    by (cases "ml_metadata l") (auto simp: range_ok_def fanout_range_def)
next
  case False
  then obtain p where "ml_metadata l = Some p" by auto
  with False show ?thesis using check_fanout_meta [of l p] by simp
qed

lemma check_fanout_Some:
  "check_fanout (Some q) ls = Inr () \<longleftrightarrow>
     (\<forall>l \<in> set ls. ml_name l = None \<and> range_ok l) \<and> sorted_wrt range_less ls
     \<and> (\<forall>l \<in> set ls. utf8 q < utf8 (range_lo l))"
proof (induction ls arbitrary: q)
  case (Cons l ls)
  have less: "utf8 (range_hi l) < utf8 (range_lo m) \<longleftrightarrow> range_less l m" for m
    by (simp add: range_less_def)
  have "range_ok l \<Longrightarrow> utf8 q < utf8 (range_lo l) \<Longrightarrow> range_less l m \<Longrightarrow> utf8 q < utf8 (range_lo m)"
    for m
    using range_lo_le_hi [of l] by (auto simp: range_less_def)
  then show ?case
    unfolding check_fanout_step Cons.IH by (auto simp: less)
qed simp

lemma check_fanout_iff:
  "check_fanout None ls = Inr () \<longleftrightarrow>
     (\<forall>l \<in> set ls. ml_name l = None \<and> range_ok l) \<and> sorted_wrt range_less ls"
proof (cases ls)
  case (Cons l ls')
  then show ?thesis
    unfolding Cons check_fanout_step check_fanout_Some
    by (auto simp: range_less_def [of l])
qed simp


subsection \<open>Soundness of the decoder\<close>

lemma find_None_all: "find P xs = None \<Longrightarrow> x \<in> set xs \<Longrightarrow> \<not> P x"
  by (auto simp: find_None_iff)

lemma decode_link_fields_Inr:
  "decode_link_fields p t = Inr l \<longleftrightarrow>
     (\<exists>h k m n s. bytes32 (the (map_of p (js ''h''))) = Inr h
       \<and> optional_of bytes32 (map_of p (js ''k'')) = Inr k
       \<and> optional_of json_metadata (map_of p (js ''m'')) = Inr m
       \<and> optional_of text_value (map_of p (js ''n'')) = Inr n
       \<and> uint_js (the (map_of p (js ''s''))) = Inr s
       \<and> l = \<lparr>ml_hash = h, ml_key = k, ml_metadata = m, ml_name = n, ml_size = s, ml_type = t\<rparr>)"
  by (auto simp: decode_link_fields_def ebind_Inr)

lemma decode_link_Inr:
  assumes "decode_link mt item = Inr l"
  obtains p t where "record_props item = Some p"
    "\<forall>k \<in> fst ` set p. k \<in> set (required_keys mt @ map js [''k'', ''m''])"
    "\<forall>k \<in> set (required_keys mt). map_of p k \<noteq> None"
    "link_of_code (the (map_of p (js ''t''))) = Some t" "decode_link_fields p t = Inr l"
  using assms
  by (auto simp: decode_link_def find_None_iff image_iff split: option.splits intro!: that)

lemma decode_link_wf:
  assumes "decode_link mt item = Inr l"
  shows "wf_link mt l"
proof -
  obtain p t where p: "\<forall>k \<in> fst ` set p. k \<in> set (required_keys mt @ map js [''k'', ''m''])"
    "\<forall>k \<in> set (required_keys mt). map_of p k \<noteq> None"
    "decode_link_fields p t = Inr l"
    using decode_link_Inr [OF assms] by metis
  have name: "map_of p (js ''n'') \<noteq> None \<longleftrightarrow> mt = M_Directory"
  proof (cases "mt = M_Directory")
    case True
    with p(2) show ?thesis by (simp add: required_keys_def)
  next
    case False
    then have "js ''n'' \<notin> fst ` set p" using p(1) by (auto simp: required_keys_def)
    with False show ?thesis by (simp add: map_of_eq_None_iff)
  qed
  obtain h k m n s where f: "bytes32 (the (map_of p (js ''h''))) = Inr h"
    "optional_of bytes32 (map_of p (js ''k'')) = Inr k"
    "optional_of json_metadata (map_of p (js ''m'')) = Inr m"
    "optional_of text_value (map_of p (js ''n'')) = Inr n"
    "uint_js (the (map_of p (js ''s''))) = Inr s"
    and l: "l = \<lparr>ml_hash = h, ml_key = k, ml_metadata = m, ml_name = n, ml_size = s, ml_type = t\<rparr>"
    using p(3) unfolding decode_link_fields_Inr by blast
  have "length h = 32" "0 \<le> s \<and> s \<le> max_safe"
    using f(1,5) by (simp_all add: bytes32_Inr uint_js_Inr)
  moreover have "case k of None \<Rightarrow> True | Some x \<Rightarrow> length x = 32"
    using f(2) by (auto simp: optional_of_Inr bytes32_Inr)
  moreover have "case m of None \<Rightarrow> True | Some x \<Rightarrow> json_props_ok x"
    using f(3) by (auto simp: optional_of_Inr json_metadata_ok)
  moreover have "n \<noteq> None \<longleftrightarrow> mt = M_Directory"
    using f(4) name by (auto simp: optional_of_Inr)
  ultimately show ?thesis using l by (simp add: wf_link_def)
qed

lemma check_links_wf_kind:
  assumes "check_links mt ls = Inr ()" "\<forall>l \<in> set ls. wf_link mt l"
  shows "wf_kind mt ls"
proof (cases mt)
  case M_File
  with assms show ?thesis
    by (auto simp: check_links_def wf_kind_def guard_err_def list_all_iff file_link_ok_def
        split: if_splits)
next
  case M_Directory
  with assms show ?thesis
    by (fastforce simp: check_links_def wf_kind_def check_directory_iff link_name_def)
next
  case M_Fanout
  with assms show ?thesis
    by (simp add: check_links_def wf_kind_def check_fanout_iff)
qed

lemma wf_kind_check_links:
  assumes "wf_kind mt ls" "\<forall>l \<in> set ls. wf_link mt l"
  shows "check_links mt ls = Inr ()"
proof (cases mt)
  case M_File
  with assms show ?thesis
    by (auto simp: check_links_def wf_kind_def guard_err_def list_all_iff file_link_ok_def
        wf_link_def)
next
  case M_Directory
  with assms show ?thesis
    by (fastforce simp: check_links_def wf_kind_def check_directory_iff link_name_def wf_link_def)
next
  case M_Fanout
  with assms show ?thesis
    by (simp add: check_links_def wf_kind_def check_fanout_iff wf_link_def)
qed

lemma validate_manifest_Inr:
  assumes "validate_manifest lim cost raw = Inr vm"
  shows "wf_manifest (vm_manifest vm)" "vm_decoded_bytes vm = cost"
    "int (length (m_links (vm_manifest vm))) \<le> max_links lim"
proof -
  obtain p where p: "record_props raw = Some p"
    using assms by (cases "record_props raw") (simp_all add: validate_manifest_def)
  have keys: "exact_keys p (map js [''l'', ''t''])"
    using assms p by (rule_tac ccontr) (simp add: validate_manifest_def)
  obtain items where l: "the (map_of p (js ''l'')) = V_Arr items"
    using assms p keys
    by (cases "the (map_of p (js ''l''))") (simp_all add: validate_manifest_def)
  have items: "int (length items) \<le> max_links lim"
    using assms p keys l by (rule_tac ccontr) (simp add: validate_manifest_def)
  obtain mt where mt: "manifest_of_code (the (map_of p (js ''t''))) = Some mt"
    using assms p keys l items
    by (cases "manifest_of_code (the (map_of p (js ''t'')))")
      (simp_all add: validate_manifest_def)
  obtain ls where ls: "map_err (decode_link mt) items = Inr ls" "check_links mt ls = Inr ()"
    and vm: "vm = \<lparr>vm_manifest = \<lparr>m_type = mt, m_links = ls\<rparr>, vm_decoded_bytes = cost\<rparr>"
  proof -
    have "ebind (map_err (decode_link mt) items) (\<lambda>ls. ebind (check_links mt ls)
        (\<lambda>_. Inr \<lparr>vm_manifest = \<lparr>m_type = mt, m_links = ls\<rparr>, vm_decoded_bytes = cost\<rparr>)) = Inr vm"
      using assms p keys l items mt by (simp add: validate_manifest_def)
    then show ?thesis by (auto simp: ebind_Inr intro: that)
  qed
  have "\<forall>l \<in> set ls. wf_link mt l"
    using map_err_set [OF ls(1)] decode_link_wf by blast
  with ls(2) vm show "wf_manifest (vm_manifest vm)"
    by (simp add: wf_manifest_def check_links_wf_kind)
  show "vm_decoded_bytes vm = cost" using vm by simp
  show "int (length (m_links (vm_manifest vm))) \<le> max_links lim"
    using vm items map_err_length [OF ls(1)] by simp
qed

text \<open>
  C1: Every manifest that \<open>decodeValidatedManifest\<close> accepts, whatever MessagePack decodes the
  bytes to, is a valid manifest: link hashes and keys of 32 bytes, sizes that are safe
  unsigned integers, JSON-compatible metadata, a name on a link exactly in a directory; a
  file's links are blobs or files, a directory's names are safe path components in strict
  UTF-8 order, a fanout's ranges are well formed, ordered and disjoint. The limits on the
  wire size, the decoded cost and the number of links hold of it.
\<close>

theorem decode_sound:
  assumes "decode_validated_manifest mp_decode mp_encode wire lim = Inr vm"
  shows "wf_manifest (vm_manifest vm)
    \<and> int (length (m_links (vm_manifest vm))) \<le> max_links lim
    \<and> vm_decoded_bytes vm \<le> max_decoded_bytes lim
    \<and> int (length wire) \<le> max_wire_bytes lim
    \<and> (\<exists>raw. mp_decode wire = Some raw \<and> mp_encode raw = Some wire
         \<and> vm_decoded_bytes vm = decoded_cost raw)"
proof -
  obtain raw where raw: "mp_decode wire = Some raw" "mp_encode raw = Some wire"
    "decoded_cost raw \<le> max_decoded_bytes lim" "int (length wire) \<le> max_wire_bytes lim"
    "validate_manifest lim (decoded_cost raw) raw = Inr vm"
    using assms by (auto simp: decode_validated_manifest_def split: if_splits option.splits)
  show ?thesis using raw validate_manifest_Inr [OF raw(5)] by auto
qed


subsection \<open>Round trip\<close>

lemma link_of_code_link_code: "link_of_code (V_Int (link_code t)) = Some t"
  by (cases t) (simp_all add: link_of_code_def)

lemma manifest_of_code_manifest_code: "manifest_of_code (V_Int (manifest_code t)) = Some t"
  by (cases t) (simp_all add: manifest_of_code_def)

lemma decode_link_fields_link_value:
  assumes "wf_link mt l"
  shows "\<exists>p. link_value l = V_Obj p \<and> fst ` set p \<subseteq> set (required_keys mt @ map js [''k'', ''m''])
    \<and> (\<forall>k \<in> set (required_keys mt). map_of p k \<noteq> None)
    \<and> map_of p (js ''t'') = Some (V_Int (link_code (ml_type l)))
    \<and> decode_link_fields p (ml_type l) = Inr l"
proof -
  obtain p where p: "link_value l = V_Obj p" by (simp add: link_value_def)
  have name: "ml_name l = None \<longleftrightarrow> mt \<noteq> M_Directory" using assms by (auto simp: wf_link_def)
  have keys: "fst ` set p \<subseteq> set (required_keys mt @ map js [''k'', ''m''])"
    using p name
    by (auto simp: link_value_def opt_prop_def required_keys_def split: option.splits if_splits)
  have look: "map_of p (js ''h'') = Some (V_Bin (ml_hash l))"
    "map_of p (js ''k'') = map_option V_Bin (ml_key l)"
    "map_of p (js ''m'') = map_option V_Obj (ml_metadata l)"
    "map_of p (js ''n'') = map_option V_Str (ml_name l)"
    "map_of p (js ''s'') = Some (V_Int (ml_size l))"
    "map_of p (js ''t'') = Some (V_Int (link_code (ml_type l)))"
    using p by (auto simp: link_value_def opt_prop_def map_add_def split: option.splits)
  have req: "\<forall>k \<in> set (required_keys mt). map_of p k \<noteq> None"
    using look name by (auto simp: required_keys_def)
  have "decode_link_fields p (ml_type l) = Inr l"
    unfolding decode_link_fields_Inr look
    using assms
    by (intro exI [of _ "ml_hash l"] exI [of _ "ml_key l"] exI [of _ "ml_metadata l"]
        exI [of _ "ml_name l"] exI [of _ "ml_size l"])
      (auto simp: json_metadata_id wf_link_def bytes32_Inr uint_js_Inr optional_of_def text_value_Inr
        text_value_def bytes32_def split: option.splits)
  with p keys req look(6) show ?thesis by blast
qed

lemma decode_link_link_value: "wf_link mt l \<Longrightarrow> decode_link mt (link_value l) = Inr l"
proof -
  assume "wf_link mt l"
  then obtain p where p: "link_value l = V_Obj p"
    "fst ` set p \<subseteq> set (required_keys mt @ map js [''k'', ''m''])"
    "\<forall>k \<in> set (required_keys mt). map_of p k \<noteq> None"
    "map_of p (js ''t'') = Some (V_Int (link_code (ml_type l)))"
    "decode_link_fields p (ml_type l) = Inr l"
    using decode_link_fields_link_value by blast
  have "find (\<lambda>k. k \<notin> set (required_keys mt @ map js [''k'', ''m''])) (sort (map fst p)) = None"
    using p(2) by (auto simp: find_None_iff)
  moreover have "find (\<lambda>k. map_of p k = None) (required_keys mt) = None"
    using p(3) by (auto simp: find_None_iff)
  ultimately show ?thesis
    using p by (simp add: decode_link_def link_of_code_link_code)
qed

lemma validate_manifest_manifest_value:
  assumes "wf_manifest m" "int (length (m_links m)) \<le> max_links lim"
  shows "validate_manifest lim cost (manifest_value m)
    = Inr \<lparr>vm_manifest = m, vm_decoded_bytes = cost\<rparr>"
proof -
  have links: "map_err (decode_link (m_type m)) (map link_value (m_links m)) = Inr (m_links m)"
    unfolding map_err_Inr
    using assms(1) by (auto simp: list_all2_conv_all_nth wf_manifest_def decode_link_link_value)
  have "check_links (m_type m) (m_links m) = Inr ()"
    using assms(1) by (simp add: wf_manifest_def wf_kind_check_links)
  then show ?thesis
    using assms(2) links
    by (simp add: validate_manifest_def manifest_value_def exact_keys_mset
        manifest_of_code_manifest_code)
qed

text \<open>
  C2: Encoding and decoding are inverse: for every valid manifest within the limits, if
  MessagePack encodes its value to \<open>w\<close> and decodes \<open>w\<close> to that value, then
  \<open>decodeValidatedManifest\<close> of what \<open>encodeManifest\<close> wrote accepts and returns the manifest
  with its decoded cost: nothing the writer writes within the limits is refused.
\<close>

theorem encode_decode:
  assumes "encode_manifest mp_encode m = Some w" "mp_decode w = Some (manifest_value m)"
    and "wf_manifest m" "int (length (m_links m)) \<le> max_links lim"
    and "safe_int (max_wire_bytes lim)" "int (length w) \<le> max_wire_bytes lim"
    and "decoded_cost (manifest_value m) \<le> max_decoded_bytes lim"
  shows "decode_validated_manifest mp_decode mp_encode w lim
    = Inr \<lparr>vm_manifest = m, vm_decoded_bytes = decoded_cost (manifest_value m)\<rparr>"
  using assms
  by (simp add: decode_validated_manifest_def encode_manifest_def validate_manifest_manifest_value)

subsection \<open>The canonical form\<close>

lemma validate_manifest_swap:
  "validate_manifest lim c (V_Obj [(js ''t'', t), (js ''l'', l)])
    = validate_manifest lim c (V_Obj [(js ''l'', l), (js ''t'', t)])"
  by (cases l) (simp_all add: validate_manifest_def exact_keys_mset add_mset_commute)

text \<open>
  The check that a manifest is canonically encoded does not fix the order of its fields:
  re-encoding keeps the order in which the decoder met them, so the bytes with \<open>t\<close> before
  \<open>l\<close> are accepted exactly when the bytes with \<open>l\<close> before \<open>t\<close> are, and give the same
  manifest, although \<open>encodeManifest\<close> only ever writes \<open>l\<close> first. Two different blobs (with
  two hashes) therefore stand for one manifest.
\<close>

theorem field_order_not_canonical:
  assumes "mp_decode w1 = Some (V_Obj [(js ''l'', l), (js ''t'', t)])"
    and "mp_encode (V_Obj [(js ''l'', l), (js ''t'', t)]) = Some w1"
    and "mp_decode w2 = Some (V_Obj [(js ''t'', t), (js ''l'', l)])"
    and "mp_encode (V_Obj [(js ''t'', t), (js ''l'', l)]) = Some w2"
    and "length w1 = length w2"
  shows "decode_manifest mp_decode mp_encode w2 lim = decode_manifest mp_decode mp_encode w1 lim"
proof -
  have "decoded_cost (V_Obj [(js ''t'', t), (js ''l'', l)])
      = decoded_cost (V_Obj [(js ''l'', l), (js ''t'', t)])"
    by (simp add: js_eval utf8_def utf8_scalar_def)
  with assms show ?thesis
    by (simp add: decode_manifest_def decode_validated_manifest_def validate_manifest_swap
        del: decoded_cost.simps)
qed


subsection \<open>Witnesses\<close>

text \<open>
  A directory with a file \<open>a\<close> and a sub-directory \<open>b\<close>, a MessagePack that maps the bytes
  \<open>0x82\<close> and the directory's value to each other, and the limits of the tests.
\<close>

definition sample_link :: "string \<Rightarrow> link_type \<Rightarrow> manifest_link" where
  "sample_link n t = \<lparr>ml_hash = replicate 32 7, ml_key = None,
     ml_metadata = Some [(js ''mime'', V_Arr [V_Null, V_Int 3])],
     ml_name = Some (js n), ml_size = 5, ml_type = t\<rparr>"

definition sample_directory :: manifest where
  "sample_directory = \<lparr>m_type = M_Directory,
     m_links = [sample_link ''a'' L_File, sample_link ''b'' L_Directory]\<rparr>"

definition sample_limits :: manifest_limits where
  "sample_limits = \<lparr>max_wire_bytes = 65536, max_decoded_bytes = 65536, max_links = 174\<rparr>"

lemma sample_directory_ok: "wf_manifest sample_directory"
  by (simp add: wf_manifest_def wf_kind_def wf_link_def sample_directory_def sample_link_def
      link_name_def safe_name_def name_less_def utf8_def utf8_scalar_def js_eval
      max_safe_def high_surrogate_def low_surrogate_def)

lemma sample_directory_cost: "decoded_cost (manifest_value sample_directory) \<le> 65536"
  by (simp add: manifest_value_def link_value_def opt_prop_def sample_directory_def
      sample_link_def js_eval utf8_def utf8_scalar_def high_surrogate_def low_surrogate_def)

lemma decode_sound_witness:
  "wf_manifest sample_directory \<and> (int (length (m_links sample_directory)) \<le> 174
    \<and> decoded_cost (manifest_value sample_directory) \<le> 65536)"
proof -
  have "decode_validated_manifest (\<lambda>_. Some (manifest_value sample_directory)) (\<lambda>_. Some [0x82])
      [0x82] sample_limits
    = Inr \<lparr>vm_manifest = sample_directory,
        vm_decoded_bytes = decoded_cost (manifest_value sample_directory)\<rparr>"
    using sample_directory_ok sample_directory_cost
    by (simp add: decode_validated_manifest_def validate_manifest_manifest_value sample_limits_def
        safe_int_def max_safe_def sample_directory_def)
  from decode_sound [OF this] show ?thesis by (simp add: sample_limits_def)
qed

lemma encode_decode_witness:
  "decode_validated_manifest (\<lambda>_. Some (manifest_value sample_directory)) (\<lambda>_. Some [0x82])
      [0x82] sample_limits
    = Inr \<lparr>vm_manifest = sample_directory,
        vm_decoded_bytes = decoded_cost (manifest_value sample_directory)\<rparr>"
proof (rule encode_decode)
  show "encode_manifest (\<lambda>_. Some [0x82]) sample_directory = Some [0x82]"
    by (simp add: encode_manifest_def)
  show "wf_manifest sample_directory" by (rule sample_directory_ok)
  show "decoded_cost (manifest_value sample_directory) \<le> max_decoded_bytes sample_limits"
    using sample_directory_cost by (simp add: sample_limits_def)
qed (simp_all add: sample_limits_def sample_directory_def safe_int_def max_safe_def)

definition sample_order :: "bytes \<Rightarrow> jsval option" where
  "sample_order w =
     (if w = [1, 2] then Some (V_Obj [(js ''l'', V_Arr []), (js ''t'', V_Int 2)])
      else if w = [2, 1] then Some (V_Obj [(js ''t'', V_Int 2), (js ''l'', V_Arr [])])
      else None)"

definition sample_encode :: "jsval \<Rightarrow> bytes option" where
  "sample_encode v =
     (if v = V_Obj [(js ''l'', V_Arr []), (js ''t'', V_Int 2)] then Some [1, 2]
      else if v = V_Obj [(js ''t'', V_Int 2), (js ''l'', V_Arr [])] then Some [2, 1]
      else None)"

lemma field_order_not_canonical_witness:
  "decode_manifest sample_order sample_encode [2, 1] sample_limits
      = decode_manifest sample_order sample_encode [1, 2] sample_limits
    \<and> decode_manifest sample_order sample_encode [1, 2] sample_limits
      = Inr \<lparr>m_type = M_Directory, m_links = []\<rparr>"
proof (rule conjI)
  show "decode_manifest sample_order sample_encode [2, 1] sample_limits
      = decode_manifest sample_order sample_encode [1, 2] sample_limits"
    by (rule field_order_not_canonical [where l = "V_Arr []" and t = "V_Int 2"])
      (simp_all add: sample_order_def sample_encode_def)
  show "decode_manifest sample_order sample_encode [1, 2] sample_limits
      = Inr \<lparr>m_type = M_Directory, m_links = []\<rparr>"
    by (simp add: decode_manifest_def decode_validated_manifest_def sample_order_def
        sample_encode_def sample_limits_def safe_int_def max_safe_def validate_manifest_def
        exact_keys_mset manifest_of_code_def check_links_def utf8_def utf8_scalar_def js_eval
        high_surrogate_def low_surrogate_def)
qed

end
