(* ===== verification/Nhash.thy ===== *)
theory Nhash
  imports Prelude
begin

section \<open>Plaintext nhash roots (protocol/nhash.ts)\<close>

text \<open>
  \<^verbatim>\<open>src/protocol/nhash.ts\<close>: the textual form of a plaintext root, a Bech32 string
  over type-length-value records. Bech32 is the package \<open>@scure/base\<close>: \<open>b_decode\<close>,
  \<open>b_encode\<close> (both with the limit 200), \<open>b_from\<close> and \<open>b_to\<close> stand for \<open>bech32.decode\<close>,
  \<open>encode\<close>, \<open>fromWords\<close> and \<open>toWords\<close>, with \<open>None\<close> where they throw; \<open>lower\<close> is
  \<open>String.prototype.toLowerCase\<close>, whose Unicode tables are not part of the program.
\<close>

datatype nhash_error =
    NE_root_length | NE_not_lowercase | NE_bech32 | NE_prefix | NE_padding | NE_not_canonical
  | NE_encode_threw | NE_truncated_header | NE_truncated_value | NE_unknown_type
  | NE_one_root | NE_key_record | NE_encrypted

record plaintext_root =
  pr_bytes :: bytes
  pr_hex :: jstr
  pr_nhash :: jstr

definition nhash_payload :: "bytes \<Rightarrow> bytes" where
  "nhash_payload root = 0 # 32 # root"

definition encode_plaintext_nhash ::
  "(jstr \<Rightarrow> nat list \<Rightarrow> jstr option) \<Rightarrow> (bytes \<Rightarrow> nat list) \<Rightarrow> bytes \<Rightarrow> nhash_error + jstr" where
  "encode_plaintext_nhash b_encode b_to root =
     (if length root \<noteq> 32 then Inl NE_root_length
      else (case b_encode (js ''nhash'') (b_to (nhash_payload root)) of
              None \<Rightarrow> Inl NE_encode_threw | Some s \<Rightarrow> Inr s))"

text \<open>The loop over the payload: a type byte, a length byte, that many bytes.\<close>

function tlv_records :: "bytes \<Rightarrow> nhash_error + (byte \<times> bytes) list" where
  "tlv_records [] = Inr []"
| "tlv_records [t] = Inl NE_truncated_header"
| "tlv_records (t # n # rest) =
     (if unat n > length rest then Inl NE_truncated_value
      else ebind (tlv_records (drop (unat n) rest)) (\<lambda>rs. Inr ((t, take (unat n) rest) # rs)))"
  by pat_completeness auto
termination by (relation "measure length") auto

definition nhash_root :: "(byte \<times> bytes) list \<Rightarrow> nhash_error + bytes" where
  "nhash_root records =
     (let roots = filter (\<lambda>r. fst r = 0) records; keys = filter (\<lambda>r. fst r = 5) records in
      if list_ex (\<lambda>r. fst r \<noteq> 0 \<and> fst r \<noteq> 5) records then Inl NE_unknown_type
      else if length roots \<noteq> 1 \<or> length (snd (roots ! 0)) \<noteq> 32 then Inl NE_one_root
      else if list_ex (\<lambda>r. length (snd r) \<noteq> 32) keys \<or> length keys > 1 then Inl NE_key_record
      else if length keys = 1 then Inl NE_encrypted
      else Inr (snd (roots ! 0)))"

definition decode_plaintext_nhash ::
  "(jstr \<Rightarrow> jstr) \<Rightarrow> (jstr \<Rightarrow> (jstr \<times> nat list) option) \<Rightarrow> (nat list \<Rightarrow> bytes option)
    \<Rightarrow> (jstr \<Rightarrow> nat list \<Rightarrow> jstr option) \<Rightarrow> (bytes \<Rightarrow> nat list) \<Rightarrow> jstr \<Rightarrow> nhash_error + plaintext_root"
where
  "decode_plaintext_nhash lower b_decode b_from b_encode b_to value =
     (if length value > 200 \<or> value \<noteq> lower value then Inl NE_not_lowercase
      else (case b_decode value of None \<Rightarrow> Inl NE_bech32
      | Some (prefix, words) \<Rightarrow>
          if prefix \<noteq> js ''nhash'' then Inl NE_prefix
          else (case b_from words of None \<Rightarrow> Inl NE_padding
          | Some payload \<Rightarrow>
              (case b_encode (js ''nhash'') (b_to payload) of None \<Rightarrow> Inl NE_encode_threw
              | Some canonical \<Rightarrow>
                  if canonical \<noteq> value then Inl NE_not_canonical
                  else ebind (tlv_records payload) (\<lambda>records.
                       ebind (nhash_root records) (\<lambda>root.
                       Inr \<lparr>pr_bytes = root, pr_hex = to_hex root, pr_nhash = value\<rparr>))))))"

subsection \<open>Records\<close>

definition tlv_bytes :: "(byte \<times> bytes) list \<Rightarrow> bytes" where
  "tlv_bytes rs = concat (map (\<lambda>(t, v). t # of_nat (length v) # v) rs)"

lemma tlv_records_exact: "tlv_records b = Inr rs \<Longrightarrow> tlv_bytes rs = b"
proof (induction b arbitrary: rs rule: tlv_records.induct)
  case (3 t n rest)
  then obtain rs' where "unat n \<le> length rest" "tlv_records (drop (unat n) rest) = Inr rs'"
    "rs = (t, take (unat n) rest) # rs'"
    by (auto simp: ebind_Inr split: if_splits)
  with 3 show ?case by (simp add: tlv_bytes_def min_absorb2)
qed (simp_all add: tlv_bytes_def)

lemma nhash_root_Inr:
  assumes "nhash_root records = Inr root"
  shows "records = [(0, root)]" "length root = 32"
proof -
  let ?roots = "filter (\<lambda>r. fst r = 0) records" and ?keys = "filter (\<lambda>r. fst r = 5) records"
  have all: "\<forall>r \<in> set records. fst r = 0 \<or> fst r = 5" and one: "length ?roots = 1"
    and root: "root = snd (?roots ! 0)" "length root = 32"
    and few: "\<not> length ?keys > 1" "length ?keys \<noteq> 1"
    using assms
    by (auto simp: nhash_root_def Let_def list_ex_iff split: if_splits)
  have none: "length ?keys = 0" using few by linarith
  have "?roots = records" using all none by (auto simp: filter_id_conv filter_empty_conv)
  with one have "length records = 1" by simp
  then obtain r where r: "records = [r]" by (cases records) auto
  with \<open>?roots = records\<close> root show "records = [(0, root)]"
    by (cases r) (auto split: if_splits)
  show "length root = 32" by (rule root(2))
qed

lemma decode_plaintext_nhash_form:
  assumes "decode_plaintext_nhash lower b_decode b_from b_encode b_to value = Inr r"
  shows "encode_plaintext_nhash b_encode b_to (pr_bytes r) = Inr value
    \<and> length (pr_bytes r) = 32 \<and> pr_hex r = to_hex (pr_bytes r) \<and> pr_nhash r = value
    \<and> is_hash (pr_hex r)"
proof -
  obtain payload records root where p: "b_encode (js ''nhash'') (b_to payload) = Some value"
    "tlv_records payload = Inr records" "nhash_root records = Inr root"
    "r = \<lparr>pr_bytes = root, pr_hex = to_hex root, pr_nhash = value\<rparr>"
    using assms
    by (auto simp: decode_plaintext_nhash_def ebind_Inr split: if_splits option.splits)
  note root = nhash_root_Inr [OF p(3)]
  have "payload = nhash_payload root"
    using tlv_records_exact [OF p(2)] root by (simp add: tlv_bytes_def nhash_payload_def)
  with p root show ?thesis by (simp add: encode_plaintext_nhash_def is_hash_to_hex)
qed

text \<open>
  C3: A root has one textual form: whatever Bech32 does, a string that
  \<open>decodePlaintextNhash\<close> accepts holds exactly one 32-byte root record and no encryption key,
  and is the very string \<open>encodePlaintextNhash\<close> gives for the decoded root.
\<close>

theorem nhash_unique_form:
  assumes "decode_plaintext_nhash lower b_decode b_from b_encode b_to value = Inr r"
  shows "encode_plaintext_nhash b_encode b_to (pr_bytes r) = Inr value
    \<and> length (pr_bytes r) = 32 \<and> pr_hex r = to_hex (pr_bytes r) \<and> pr_nhash r = value
    \<and> is_hash (pr_hex r)"
  by (rule decode_plaintext_nhash_form [OF assms])

text \<open>
  Encoding and decoding a root are inverse: for every 32-byte root whose encoding Bech32
  writes as \<open>s\<close>, in lower case and at most 200 characters long, and reads back,
  \<open>decodePlaintextNhash s\<close> returns the root with its hexadecimal form.
\<close>

theorem nhash_round_trip:
  assumes "encode_plaintext_nhash b_encode b_to root = Inr s"
    and "b_decode s = Some (js ''nhash'', b_to (nhash_payload root))"
    and "b_from (b_to (nhash_payload root)) = Some (nhash_payload root)"
    and "lower s = s" "length s \<le> 200"
  shows "decode_plaintext_nhash lower b_decode b_from b_encode b_to s
    = Inr \<lparr>pr_bytes = root, pr_hex = to_hex root, pr_nhash = s\<rparr>"
proof -
  have len: "length root = 32" and enc: "b_encode (js ''nhash'') (b_to (nhash_payload root)) = Some s"
    using assms(1) by (auto simp: encode_plaintext_nhash_def split: if_splits option.splits)
  have "tlv_records (nhash_payload root) = Inr [(0, root)]"
    using len by (simp add: nhash_payload_def)
  moreover have "nhash_root [(0, root)] = Inr root"
    using len by (simp add: nhash_root_def)
  ultimately show ?thesis
    using assms enc by (simp add: decode_plaintext_nhash_def)
qed

subsection \<open>Witnesses\<close>

text \<open>A stand-in for Bech32: words are bytes and the string is the prefix, \<open>1\<close> and the hex.\<close>

definition toy_encode :: "jstr \<Rightarrow> nat list \<Rightarrow> jstr option" where
  "toy_encode p ws = Some (p @ [49] @ ws)"

definition toy_decode :: "jstr \<Rightarrow> (jstr \<times> nat list) option" where
  "toy_decode s = (case index_of [49] s of None \<Rightarrow> None | Some i \<Rightarrow> Some (take i s, drop (i + 1) s))"

definition toy_to :: "bytes \<Rightarrow> nat list" where
  "toy_to b = map (\<lambda>x. 200 + unat x) b"

definition toy_from :: "nat list \<Rightarrow> bytes option" where
  "toy_from ws = Some (map (\<lambda>n. of_nat (n - 200)) ws)"

definition toy_string :: "bytes \<Rightarrow> jstr" where
  "toy_string root = js ''nhash'' @ 49 # toy_to (nhash_payload root)"

lemma toy_codec:
  "toy_from (toy_to b) = Some b"
  "toy_decode (toy_string root) = Some (js ''nhash'', toy_to (nhash_payload root))"
  "toy_encode (js ''nhash'') (toy_to (nhash_payload root)) = Some (toy_string root)"
proof -
  have "49 \<notin> set (js ''nhash'')" by (simp add: js_eval)
  then show "toy_decode (toy_string root) = Some (js ''nhash'', toy_to (nhash_payload root))"
    by (simp add: toy_decode_def toy_string_def index_of_single_first)
qed (simp_all add: toy_from_def toy_to_def toy_encode_def toy_string_def comp_def)

lemma toy_decode_nhash:
  "decode_plaintext_nhash id toy_decode toy_from toy_encode toy_to (toy_string (replicate 32 9))
    = Inr \<lparr>pr_bytes = replicate 32 9, pr_hex = to_hex (replicate 32 9),
        pr_nhash = toy_string (replicate 32 9)\<rparr>"
proof -
  have "tlv_records (nhash_payload (replicate 32 9)) = Inr [(0, replicate 32 9)]"
    by (simp add: nhash_payload_def)
  moreover have "length (toy_string (replicate 32 9)) = 40"
    by (simp add: toy_string_def toy_to_def nhash_payload_def)
  ultimately show ?thesis
    by (simp add: decode_plaintext_nhash_def toy_codec nhash_root_def)
qed

lemma nhash_unique_form_witness:
  "encode_plaintext_nhash toy_encode toy_to (replicate 32 9)
    = Inr (toy_string (replicate 32 9))"
  using nhash_unique_form [OF toy_decode_nhash] by simp

lemma nhash_round_trip_witness:
  "decode_plaintext_nhash id toy_decode toy_from toy_encode toy_to (toy_string (replicate 32 9))
    = Inr \<lparr>pr_bytes = replicate 32 9, pr_hex = to_hex (replicate 32 9),
        pr_nhash = toy_string (replicate 32 9)\<rparr>"
proof (rule nhash_round_trip)
  show "encode_plaintext_nhash toy_encode toy_to (replicate 32 9)
      = Inr (toy_string (replicate 32 9))"
    by (simp add: encode_plaintext_nhash_def toy_codec)
  show "length (toy_string (replicate 32 9)) \<le> 200"
    by (simp add: toy_string_def toy_to_def nhash_payload_def)
qed (simp_all add: toy_codec)

end
