(* ===== verification/Base64.thy ===== *)
theory Base64
  imports Prelude
begin

section \<open>Base64: atob and btoa of the JavaScript standard library\<close>

text \<open>
  \<open>atob\<close> follows the forgiving decoder of the standard: ASCII white space is dropped, one
  or two \<open>=\<close> are dropped at the end of a text whose length is a multiple of four, a length of
  one modulo four or a character outside the alphabet throws. \<open>btoa\<close> always writes the
  canonical padded form. Both sides of a binary string are given as bytes.
\<close>

definition b64_value :: "nat \<Rightarrow> nat option" where
  "b64_value u =
     (if is_upper u then Some (u - 65) else if is_lower u then Some (u - 71)
      else if is_digit u then Some (u + 4) else if u = 43 then Some 62
      else if u = 47 then Some 63 else None)"

definition b64_char :: "nat \<Rightarrow> nat" where
  "b64_char n =
     (if n < 26 then n + 65 else if n < 52 then n + 71 else if n < 62 then n - 4
      else if n = 62 then 43 else 47)"

fun b64_bytes :: "nat list \<Rightarrow> nat list" where
  "b64_bytes (a # b # c # d # vs) =
     [a * 4 + b div 16, b mod 16 * 16 + c div 4, c mod 4 * 64 + d] @ b64_bytes vs"
| "b64_bytes [a, b, c] = [a * 4 + b div 16, b mod 16 * 16 + c div 4]"
| "b64_bytes [a, b] = [a * 4 + b div 16]"
| "b64_bytes _ = []"

definition b64_unpad :: "jstr \<Rightarrow> jstr" where
  "b64_unpad s =
     (if length s mod 4 = 0 then
        (if ends_with [61, 61] s then take (length s - 2) s
         else if ends_with [61] s then take (length s - 1) s else s)
      else s)"

definition atob :: "jstr \<Rightarrow> bytes option" where
  "atob s =
     (let t = b64_unpad (filter (\<lambda>u. u \<notin> {9, 10, 12, 13, 32}) s) in
      if length t mod 4 = 1 then None
      else map_option (\<lambda>vs. map of_nat (b64_bytes vs)) (all_some (map b64_value t)))"

fun btoa :: "bytes \<Rightarrow> jstr" where
  "btoa [] = []"
| "btoa [a] = [b64_char (unat a div 4), b64_char (unat a mod 4 * 16), 61, 61]"
| "btoa [a, b] =
     [b64_char (unat a div 4), b64_char (unat a mod 4 * 16 + unat b div 16),
      b64_char (unat b mod 16 * 4), 61]"
| "btoa (a # b # c # bs) =
     [b64_char (unat a div 4), b64_char (unat a mod 4 * 16 + unat b div 16),
      b64_char (unat b mod 16 * 4 + unat c div 64), b64_char (unat c mod 64)] @ btoa bs"

definition is_b64 :: "nat \<Rightarrow> bool" where
  "is_b64 u \<longleftrightarrow> is_upper u \<or> is_lower u \<or> is_digit u \<or> u = 43 \<or> u = 47"

lemma b64_value_char: "n < 64 \<Longrightarrow> b64_value (b64_char n) = Some n"
  by (auto simp: b64_value_def b64_char_def char_classes)

lemma is_b64_char: "n < 64 \<Longrightarrow> is_b64 (b64_char n)"
  by (auto simp: is_b64_def b64_char_def char_classes)

lemma b64_char_plain: "n < 64 \<Longrightarrow> b64_char n \<notin> {9, 10, 12, 13, 32, 61}"
  by (auto simp: b64_char_def)


subsection \<open>atob after btoa\<close>

fun sextets :: "bytes \<Rightarrow> nat list" where
  "sextets [] = []"
| "sextets [a] = [unat a div 4, unat a mod 4 * 16]"
| "sextets [a, b] = [unat a div 4, unat a mod 4 * 16 + unat b div 16, unat b mod 16 * 4]"
| "sextets (a # b # c # bs) =
     [unat a div 4, unat a mod 4 * 16 + unat b div 16, unat b mod 16 * 4 + unat c div 64,
      unat c mod 64] @ sextets bs"

definition b64_pad :: "bytes \<Rightarrow> nat" where
  "b64_pad bs = (3 - length bs mod 3) mod 3"

lemma byte_bounds:
  "unat (a :: byte) div 4 < 64" "unat (b :: byte) div 16 < 16" "unat (c :: byte) div 64 < 4"
  using unat_byte_less [of a] unat_byte_less [of b] unat_byte_less [of c] by linarith+

lemma sextet_bounds:
  "unat (a :: byte) mod 4 * 16 < 64" "unat (b :: byte) mod 16 * 4 < 64"
  "unat (a :: byte) mod 4 * 16 + unat (b :: byte) div 16 < 64"
  "unat (b :: byte) mod 16 * 4 + unat (c :: byte) div 64 < 64"
  using byte_bounds(2) [of b] byte_bounds(3) [of c] mod_less_divisor [of 4 "unat a"]
    mod_less_divisor [of 16 "unat b"]
  by linarith+

lemma sextets_bound: "v \<in> set (sextets bs) \<Longrightarrow> v < 64"
  by (induction bs rule: sextets.induct) (auto intro: byte_bounds sextet_bounds)

lemma btoa_sextets: "btoa bs = map b64_char (sextets bs) @ replicate (b64_pad bs) 61"
proof (induction bs rule: btoa.induct)
  case (4 a b c bs)
  have "b64_pad (a # b # c # bs) = b64_pad bs" by (simp add: b64_pad_def)
  with 4 show ?case by simp
qed (simp_all add: b64_pad_def numeral_2_eq_2)

lemma length_sextets:
  "length (sextets bs) + b64_pad bs = 4 * ((length bs + 2) div 3)"
proof (induction bs rule: sextets.induct)
  case (4 a b c bs)
  have "b64_pad (a # b # c # bs) = b64_pad bs" by (simp add: b64_pad_def)
  moreover have "(length (a # b # c # bs) + 2) div 3 = Suc ((length bs + 2) div 3)" by simp
  ultimately show ?case using 4 by simp
qed (simp_all add: b64_pad_def)

lemma b64_bytes_sextets: "b64_bytes (sextets bs) = map unat bs"
proof (induction bs rule: sextets.induct)
  case (2 a)
  show ?case by simp
next
  case (3 a b)
  have "(unat a mod 4 * 16 + unat b div 16) div 16 = unat a mod 4"
    "(unat a mod 4 * 16 + unat b div 16) mod 16 = unat b div 16"
    using byte_bounds(2) [of b] by simp_all
  then show ?case by (simp add: mult.commute div_mult_mod_eq)
next
  case (4 a b c bs)
  have "(unat a mod 4 * 16 + unat b div 16) div 16 = unat a mod 4"
    "(unat a mod 4 * 16 + unat b div 16) mod 16 = unat b div 16"
    "(unat b mod 16 * 4 + unat c div 64) div 4 = unat b mod 16"
    "(unat b mod 16 * 4 + unat c div 64) mod 4 = unat c div 64"
    using byte_bounds(2) [of b] byte_bounds(3) [of c] by simp_all
  with 4 show ?case by (simp add: mult.commute div_mult_mod_eq)
qed simp_all

lemma ends_with_append: "ends_with p (s @ p)"
  by (simp add: ends_with_def)

lemma ends_with_singleton: "ends_with [u] s \<longleftrightarrow> s \<noteq> [] \<and> last s = u"
  by (cases s rule: rev_cases) (auto simp: ends_with_def)

lemma ends_with_pair: "ends_with [u, v] s \<longrightarrow> s \<noteq> [] \<and> last s = v"
proof
  assume e: "ends_with [u, v] s"
  then have "s = take (length s - 2) s @ [u, v]"
    by (metis append_take_drop_id ends_with_def length_Cons list.size(3) numeral_2_eq_2)
  then show "s \<noteq> [] \<and> last s = v" by (metis append_is_Nil_conv last.simps last_append list.distinct(1))
qed

lemma b64_unpad_pad:
  assumes "61 \<notin> set t" "(length t + n) mod 4 = 0" "n \<le> 2"
  shows "b64_unpad (t @ replicate n 61) = t"
proof -
  have plain: "\<not> ends_with [61, 61] t" "\<not> ends_with [61] t"
    using assms(1) ends_with_pair [of 61 61 t] last_in_set [of t]
    by (metis ends_with_singleton)+
  consider "n = 0" | "n = 1" | "n = 2" using assms(3) by linarith
  then show ?thesis
  proof cases
    case 1
    then show ?thesis using plain by (simp add: b64_unpad_def)
  next
    case 2
    have "\<not> ends_with [61, 61] (t @ [61])"
      using assms(1) by (cases t rule: rev_cases) (auto simp: ends_with_def)
    then show ?thesis using 2 assms(2)
      by (simp add: b64_unpad_def ends_with_append)
  next
    case 3
    then show ?thesis using assms(2) ends_with_append [of "[61, 61]" t]
      by (simp add: b64_unpad_def numeral_2_eq_2)
  qed
qed

lemma length_not_one: "(n :: nat) + p = 4 * k \<Longrightarrow> p \<le> 2 \<Longrightarrow> n mod 4 \<noteq> 1"
  by presburger

lemma atob_btoa: "atob (btoa bs) = Some bs"
proof -
  have plain: "u \<notin> {9, 10, 12, 13, 32, 61}" if u: "u \<in> set (map b64_char (sextets bs))" for u
  proof -
    obtain v where "v \<in> set (sextets bs)" "u = b64_char v" using u by auto
    then show ?thesis using b64_char_plain [of v] sextets_bound [of v bs] by simp
  qed
  have "\<forall>u \<in> set (btoa bs). u \<notin> {9, 10, 12, 13, 32}"
  proof
    fix u assume "u \<in> set (btoa bs)"
    then consider "u \<in> set (map b64_char (sextets bs))" | "u = 61"
      unfolding btoa_sextets by (auto simp del: set_map)
    then show "u \<notin> {9, 10, 12, 13, 32}" by cases (use plain in blast, simp)
  qed
  then have filt: "filter (\<lambda>u. u \<notin> {9, 10, 12, 13, 32}) (btoa bs) = btoa bs"
    by (simp only: filter_id_conv)
  have pad: "b64_pad bs \<le> 2" by (simp add: b64_pad_def)
  have "61 \<notin> set (map b64_char (sextets bs))" using plain by blast
  then have unpad: "b64_unpad (btoa bs) = map b64_char (sextets bs)"
    unfolding btoa_sextets
    using length_sextets [of bs] pad by (intro b64_unpad_pad) simp_all
  have "length (sextets bs) mod 4 \<noteq> 1"
    by (rule length_not_one [OF length_sextets pad])
  moreover have "all_some (map b64_value (map b64_char (sextets bs))) = Some (sextets bs)"
    unfolding all_some_Some using sextets_bound [of _ bs] by (simp add: b64_value_char)
  ultimately show ?thesis
    unfolding atob_def Let_def filt unpad by (simp add: b64_bytes_sextets comp_def)
qed

lemma btoa_inject: "btoa a = btoa b \<longleftrightarrow> a = b"
  by (metis atob_btoa option.inject)

end
