(* ===== verification/Publication.thy ===== *)
theory Publication
  imports Nhash Base64
begin

section \<open>Cache publications (protocol/publication.ts)\<close>

text \<open>
  \<^verbatim>\<open>src/protocol/publication.ts\<close>: a Nostr event that announces a cache is checked and
  turned into a validated publication, or rejected with a code. What the code calls outside
  the program is the record \<open>pub_env\<close>: \<open>verifyEvent\<close> of nostr-tools (\<open>None\<close>: it threw),
  the URL parser, and the Bech32 functions of the theory of nhash roots.
\<close>

record raw_publication =
  rp_id :: jstr
  rp_pubkey :: jstr
  rp_created_at :: jsval
  rp_kind :: jsval
  rp_tags :: jsval
  rp_content :: jstr
  rp_sig :: jstr

record publication_identity =
  pi_kind :: int
  pi_pubkey :: jstr
  pi_name :: "jstr option"

record nix_key =
  nk_name :: jstr
  nk_encoded :: jstr
  nk_bytes :: bytes

record validated_publication =
  vp_event :: raw_publication
  vp_identity :: publication_identity
  vp_root :: plaintext_root
  vp_keys :: "nix_key list"
  vp_servers :: "jstr list"
  vp_expires :: "int option"

record url_parts =
  u_protocol :: jstr
  u_username :: jstr
  u_password :: jstr
  u_hostname :: jstr
  u_search :: jstr
  u_hash :: jstr

record pub_env =
  pe_verify :: "raw_publication \<Rightarrow> bool option"
  pe_url :: "jstr \<Rightarrow> url_parts option"
  pe_lower :: "jstr \<Rightarrow> jstr"
  pe_bech_decode :: "jstr \<Rightarrow> (jstr \<times> nat list) option"
  pe_from_words :: "nat list \<Rightarrow> bytes option"
  pe_bech_encode :: "jstr \<Rightarrow> nat list \<Rightarrow> jstr option"
  pe_to_words :: "bytes \<Rightarrow> nat list"

text \<open>The codes, and one reason for each place that rejects, with the code it carries.\<close>

datatype rejection_code =
    RC_invalid_event | RC_future | RC_expired | RC_kind | RC_identity | RC_htree | RC_nhash
  | RC_unsupported_encryption | RC_nix_signature_key | RC_resource_limit

datatype rejection =
    RJ_timestamp | RJ_limits | RJ_signature | RJ_shape | RJ_future | RJ_kind | RJ_default_d
  | RJ_named_d | RJ_htree_tag | RJ_htree_root | RJ_encrypted | RJ_nhash
  | RJ_key_tag | RJ_key_colon | RJ_key_form | RJ_key_base64 | RJ_key_canonical | RJ_key_name
  | RJ_expiration | RJ_expired

fun code_of :: "rejection \<Rightarrow> rejection_code" where
  "code_of RJ_timestamp = RC_invalid_event" | "code_of RJ_limits = RC_resource_limit"
| "code_of RJ_signature = RC_invalid_event" | "code_of RJ_shape = RC_invalid_event"
| "code_of RJ_future = RC_future" | "code_of RJ_kind = RC_kind"
| "code_of RJ_default_d = RC_identity" | "code_of RJ_named_d = RC_identity"
| "code_of RJ_htree_tag = RC_htree" | "code_of RJ_htree_root = RC_htree"
| "code_of RJ_encrypted = RC_unsupported_encryption" | "code_of RJ_nhash = RC_nhash"
| "code_of RJ_key_tag = RC_nix_signature_key" | "code_of RJ_key_colon = RC_nix_signature_key"
| "code_of RJ_key_form = RC_nix_signature_key" | "code_of RJ_key_base64 = RC_nix_signature_key"
| "code_of RJ_key_canonical = RC_nix_signature_key" | "code_of RJ_key_name = RC_nix_signature_key"
| "code_of RJ_expiration = RC_expired" | "code_of RJ_expired = RC_expired"

subsection \<open>Tags, labels and keys\<close>

text \<open>\<open>validLabel\<close>: white space, control characters and DEL lie in one code unit each.\<close>

definition valid_label :: "jstr \<Rightarrow> bool" where
  "valid_label s \<longleftrightarrow>
     length (utf8 s) > 0 \<and> length (utf8 s) \<le> 64
     \<and> \<not> list_ex (\<lambda>u. is_space u \<or> u < 32 \<or> u = 127) s"

definition tag_is :: "string \<Rightarrow> jstr list \<Rightarrow> bool" where
  "tag_is k t \<longleftrightarrow> t \<noteq> [] \<and> t ! 0 = js k"

definition tag_strings :: "jsval \<Rightarrow> jstr list option" where
  "tag_strings tag =
     (case the_array tag of None \<Rightarrow> None
      | Some items \<Rightarrow>
          if length items > 8 then None
          else all_some (map (\<lambda>f. case the_string f of None \<Rightarrow> None
                | Some s \<Rightarrow> if length s > 4096 then None else Some s) items))"

definition raw_tags :: "jsval \<Rightarrow> jstr list list option" where
  "raw_tags tags =
     (case the_array tags of None \<Rightarrow> None
      | Some ts \<Rightarrow> if length ts > 256 then None else all_some (map tag_strings ts))"

definition key_form :: "jstr \<Rightarrow> bool" where
  "key_form s \<longleftrightarrow> length s = 44 \<and> list_all is_b64 (take 43 s) \<and> s ! 43 = 61"

text \<open>The body of the loop of \<open>parseNixKeys\<close>; its state is \<open>byBytes\<close> and \<open>names\<close>.\<close>

type_synonym key_state = "(jstr, nix_key) jmap \<times> (jstr, jstr) jmap"

definition nix_key_step :: "jstr list \<Rightarrow> key_state \<Rightarrow> rejection + key_state" where
  "nix_key_step tag st =
     (if length tag \<noteq> 2 then Inl RJ_key_tag
      else let value = tag ! 1 in
        (case index_of [58] value of None \<Rightarrow> Inl RJ_key_colon
        | Some colon \<Rightarrow>
            if colon = 0 \<or> last_index_of 58 value \<noteq> Some colon then Inl RJ_key_colon
            else let name = take colon value; encoded = drop (colon + 1) value in
              if \<not> valid_label name \<or> \<not> key_form encoded then Inl RJ_key_form
              else (case atob encoded of None \<Rightarrow> Inl RJ_key_base64
              | Some b \<Rightarrow>
                  if length b \<noteq> 32 \<or> btoa b \<noteq> encoded then Inl RJ_key_canonical
                  else if (case map_of (snd st) name of None \<Rightarrow> False | Some h \<Rightarrow> h \<noteq> to_hex b)
                  then Inl RJ_key_name
                  else Inr
                    (if map_of (fst st) (to_hex b) = None
                       then AList.update (to_hex b)
                              \<lparr>nk_name = name, nk_encoded = encoded, nk_bytes = b\<rparr> (fst st)
                       else fst st,
                     AList.update name (to_hex b) (snd st)))))"

definition parse_nix_keys :: "jstr list list \<Rightarrow> rejection + nix_key list" where
  "parse_nix_keys tags =
     ebind (fold_err nix_key_step (filter (tag_is ''nixSigKey'') tags) ([], []))
       (\<lambda>st. Inr (map snd (fst st)))"

definition valid_blossom_url :: "(jstr \<Rightarrow> url_parts option) \<Rightarrow> jstr \<Rightarrow> jstr option" where
  "valid_blossom_url parse value =
     (case parse value of None \<Rightarrow> None
      | Some u \<Rightarrow>
          if (u_protocol u \<noteq> js ''http:'' \<and> u_protocol u \<noteq> js ''https:'')
             \<or> u_username u \<noteq> [] \<or> u_password u \<noteq> [] then None
          else if u_hostname u = [] \<or> u_search u \<noteq> [] \<or> u_hash u \<noteq> [] then None
          else Some (rev (dropWhile (\<lambda>c. c = 47) (rev value))))"

subsection \<open>Validation\<close>

definition identity_name :: "int \<Rightarrow> jstr list list \<Rightarrow> rejection + jstr option" where
  "identity_name kind tags =
     (let d = filter (tag_is ''d'') tags in
      if kind = 17091 then (if length d \<noteq> 0 then Inl RJ_default_d else Inr None)
      else if length d \<noteq> 1 \<or> length (d ! 0) \<noteq> 2 \<or> \<not> valid_label (d ! 0 ! 1) then Inl RJ_named_d
      else Inr (Some (d ! 0 ! 1)))"

definition publication_root :: "pub_env \<Rightarrow> jstr list list \<Rightarrow> rejection + plaintext_root" where
  "publication_root env tags =
     (let h = filter (tag_is ''htree'') tags in
      if length h \<noteq> 1 \<or> length (h ! 0) \<noteq> 2 \<or> \<not> starts_with (js ''htree://'') (h ! 0 ! 1)
      then Inl RJ_htree_tag
      else let nhash = drop (length ''htree://'') (h ! 0 ! 1) in
        if nhash = [] \<or> list_ex (\<lambda>u. u = 47 \<or> u = 63 \<or> u = 35) nhash then Inl RJ_htree_root
        else (case decode_plaintext_nhash (pe_lower env) (pe_bech_decode env) (pe_from_words env)
                    (pe_bech_encode env) (pe_to_words env) nhash of
                Inl e \<Rightarrow> Inl (if e = NE_encrypted then RJ_encrypted else RJ_nhash)
              | Inr root \<Rightarrow> Inr root))"

definition canonical_decimal :: "jstr \<Rightarrow> bool" where
  "canonical_decimal s \<longleftrightarrow> s = [48] \<or> (s \<noteq> [] \<and> list_all is_digit s \<and> s ! 0 \<noteq> 48)"

definition expiration :: "int \<Rightarrow> jstr list list \<Rightarrow> rejection + int option" where
  "expiration now tags =
     (let e = filter (tag_is ''expiration'') tags in
      if e = [] then Inr None
      else if length e \<noteq> 1 \<or> length (e ! 0) \<noteq> 2 \<or> \<not> canonical_decimal (e ! 0 ! 1)
      then Inl RJ_expiration
      else let at = int (dec_value (e ! 0 ! 1)) in
        if \<not> safe_int at \<or> at \<le> now then Inl RJ_expired else Inr (Some at))"

definition blossom_servers :: "pub_env \<Rightarrow> jstr list list \<Rightarrow> jstr list" where
  "blossom_servers env tags =
     List.map_filter (\<lambda>t. valid_blossom_url (pe_url env) (t ! 1))
       (filter (\<lambda>t. tag_is ''blossom'' t \<and> length t = 2) tags)"

definition validate_publication ::
  "pub_env \<Rightarrow> raw_publication \<Rightarrow> int \<Rightarrow> rejection + validated_publication" where
  "validate_publication env raw now =
     (case safe_integer (rp_created_at raw) of None \<Rightarrow> Inl RJ_timestamp
      | Some created \<Rightarrow>
      if \<not> safe_int now then Inl RJ_timestamp
      else (case raw_tags (rp_tags raw) of None \<Rightarrow> Inl RJ_limits
      | Some tags \<Rightarrow>
      if length (rp_content raw) > 65536 then Inl RJ_limits
      else (case pe_verify env raw of None \<Rightarrow> Inl RJ_shape
      | Some verified \<Rightarrow>
      if \<not> verified then Inl RJ_signature
      else if created > now + 900 then Inl RJ_future
      else if rp_kind raw \<noteq> V_Int 17091 \<and> rp_kind raw \<noteq> V_Int 37091 then Inl RJ_kind
      else let kind = (if rp_kind raw = V_Int 17091 then 17091 else 37091) in
        ebind (identity_name kind tags) (\<lambda>name.
        ebind (publication_root env tags) (\<lambda>root.
        ebind (parse_nix_keys tags) (\<lambda>keys.
        ebind (expiration now tags) (\<lambda>expires.
        Inr \<lparr>vp_event = raw,
             vp_identity = \<lparr>pi_kind = kind, pi_pubkey = rp_pubkey raw, pi_name = name\<rparr>,
             vp_root = root, vp_keys = keys, vp_servers = blossom_servers env tags,
             vp_expires = expires\<rparr>)))))))"

definition kind_text :: "int \<Rightarrow> jstr" where
  "kind_text k = dec_digits (nat k)"

definition cache_identity :: "publication_identity \<Rightarrow> jstr" where
  "cache_identity i =
     kind_text (pi_kind i) @ [58] @ pi_pubkey i @ [58] @ (case pi_name i of None \<Rightarrow> [] | Some n \<Rightarrow> n)"

subsection \<open>Keys\<close>

definition wf_nix_key :: "nix_key \<Rightarrow> bool" where
  "wf_nix_key k \<longleftrightarrow>
     length (nk_bytes k) = 32 \<and> btoa (nk_bytes k) = nk_encoded k \<and> valid_label (nk_name k)
     \<and> 58 \<notin> set (nk_name k)"

definition key_state_ok :: "key_state \<Rightarrow> bool" where
  "key_state_ok st \<longleftrightarrow>
     jmap_ok (fst st)
     \<and> (\<forall>(h, k) \<in> set (fst st). wf_nix_key k \<and> h = to_hex (nk_bytes k)
          \<and> map_of (snd st) (nk_name k) = Some h)"

lemma nix_key_step_Inr:
  assumes "nix_key_step tag st = Inr st'"
  obtains name b where "tag = [tag ! 0, name @ 58 # btoa b]" "length tag = 2"
    "wf_nix_key \<lparr>nk_name = name, nk_encoded = btoa b, nk_bytes = b\<rparr>"
    "map_of (snd st) name = None \<or> map_of (snd st) name = Some (to_hex b)"
    "st' = (if map_of (fst st) (to_hex b) = None
            then AList.update (to_hex b) \<lparr>nk_name = name, nk_encoded = btoa b, nk_bytes = b\<rparr> (fst st)
            else fst st, AList.update name (to_hex b) (snd st))"
proof -
  define v where "v = tag ! 1"
  have len: "length tag = 2" using assms by (auto simp: nix_key_step_def split: if_splits)
  then have tag: "tag = [tag ! 0, v]"
    by (cases tag; cases "tl tag") (auto simp: v_def)
  obtain colon where colon: "index_of [58] v = Some colon"
    using assms len
    by (cases "index_of [58] v") (auto simp: nix_key_step_def v_def Let_def)
  define name and encoded where "name = take colon v" and "encoded = drop (colon + 1) v"
  have form: "valid_label name" "key_form encoded"
    using assms len colon
    by (auto simp: nix_key_step_def v_def Let_def name_def encoded_def split: if_splits)
  obtain b where b: "atob encoded = Some b"
    using assms len colon form
    by (cases "atob encoded")
      (auto simp: nix_key_step_def v_def Let_def name_def encoded_def split: if_splits)
  have rest: "length b = 32" "btoa b = encoded"
    "map_of (snd st) name = None \<or> map_of (snd st) name = Some (to_hex b)"
    "st' = (if map_of (fst st) (to_hex b) = None
            then AList.update (to_hex b) \<lparr>nk_name = name, nk_encoded = btoa b, nk_bytes = b\<rparr> (fst st)
            else fst st, AList.update name (to_hex b) (snd st))"
    using assms len colon form b
    by (auto simp: nix_key_step_def v_def Let_def name_def encoded_def
        split: if_splits option.splits)
  have sep: "colon < length v" "v ! colon = 58" "58 \<notin> set name"
    using index_of_single_Some [OF colon] by (simp_all add: name_def)
  then have "v = name @ 58 # btoa b"
    using rest(2) by (metis Suc_eq_plus1 encoded_def id_take_nth_drop name_def)
  with tag have "tag = [tag ! 0, name @ 58 # btoa b]" by simp
  moreover have "wf_nix_key \<lparr>nk_name = name, nk_encoded = btoa b, nk_bytes = b\<rparr>"
    using rest(1) form(1) sep(3) by (simp add: wf_nix_key_def)
  ultimately show thesis using that len rest by blast
qed


lemma nix_key_step_ok:
  assumes "nix_key_step tag st = Inr st'" "key_state_ok st"
  shows "key_state_ok st'" "set (fst st) \<subseteq> set (fst st')"
    "\<exists>name. \<exists>k \<in> snd ` set (fst st'). tag ! 1 = name @ 58 # nk_encoded k"
proof -
  obtain name b where tag: "tag = [tag ! 0, name @ 58 # btoa b]"
    and wf: "wf_nix_key \<lparr>nk_name = name, nk_encoded = btoa b, nk_bytes = b\<rparr>"
    and names: "map_of (snd st) name = None \<or> map_of (snd st) name = Some (to_hex b)"
    and st': "st' = (if map_of (fst st) (to_hex b) = None
            then AList.update (to_hex b) \<lparr>nk_name = name, nk_encoded = btoa b, nk_bytes = b\<rparr> (fst st)
            else fst st, AList.update name (to_hex b) (snd st))"
    using nix_key_step_Inr [OF assms(1)] by blast
  let ?k = "\<lparr>nk_name = name, nk_encoded = btoa b, nk_bytes = b\<rparr>"
  have keep: "map_of (snd st') n = Some h" if "map_of (snd st) n = Some h" for n h
    using that names st' by (auto simp: map_of_update)
  have name: "map_of (snd st') name = Some (to_hex b)" using st' by (simp add: map_of_update)
  show sub: "set (fst st) \<subseteq> set (fst st')" using st' by (auto simp: update_new)
  have new: "set (fst st') = (if map_of (fst st) (to_hex b) = None
      then insert (to_hex b, ?k) (set (fst st)) else set (fst st))"
    using st' by (auto simp: update_new)
  show "key_state_ok st'"
    using assms(2) wf name keep st' unfolding key_state_ok_def new
    by (auto split: if_splits)
  have "\<exists>k. (to_hex b, k) \<in> set (fst st') \<and> nk_encoded k = btoa b"
  proof (cases "map_of (fst st) (to_hex b)")
    case None
    then show ?thesis using new by auto
  next
    case (Some k)
    then have m: "(to_hex b, k) \<in> set (fst st)" by (rule map_of_SomeD)
    with assms(2) have "wf_nix_key k" "to_hex b = to_hex (nk_bytes k)"
      by (auto simp: key_state_ok_def)
    then have "nk_encoded k = btoa b" by (simp add: wf_nix_key_def)
    with m sub show ?thesis by blast
  qed
  then show "\<exists>name. \<exists>k \<in> snd ` set (fst st'). tag ! 1 = name @ 58 # nk_encoded k"
    using tag by (metis image_eqI nth_Cons_0 nth_Cons_Suc One_nat_def snd_conv)
qed

lemma nix_keys_fold_ok:
  "fold_err nix_key_step tags st = Inr st' \<Longrightarrow> key_state_ok st \<Longrightarrow>
     key_state_ok st' \<and> set (fst st) \<subseteq> set (fst st')
     \<and> (\<forall>t \<in> set tags. \<exists>name. \<exists>k \<in> snd ` set (fst st'). t ! 1 = name @ 58 # nk_encoded k)"
proof (induction tags arbitrary: st)
  case (Cons t tags)
  then obtain u where u: "nix_key_step t st = Inr u" "fold_err nix_key_step tags u = Inr st'"
    by (auto split: sum.splits)
  note step = nix_key_step_ok [OF u(1) Cons.prems(2)]
  with Cons.IH [OF u(2)] show ?case by (simp; blast)
qed simp

lemma key_state_distinct:
  assumes "key_state_ok (m, names)"
  shows "distinct (map nk_name (map snd m)) \<and> distinct (map nk_bytes (map snd m))"
proof -
  have ok: "distinct (map fst m)" "h = to_hex (nk_bytes k)" "map_of names (nk_name k) = Some h"
    if hk: "(h, k) \<in> set m" for h k
    using assms hk by (auto simp: key_state_ok_def jmap_ok_def)
  have d: "distinct (map fst m)" using assms by (simp add: key_state_ok_def jmap_ok_def)
  have same: "k1 = k2" if "(h1, k1) \<in> set m" "(h2, k2) \<in> set m" "h1 = h2" for h1 k1 h2 k2
    using that eq_key_imp_eq_value [OF d] by blast
  have "inj_on (nk_name \<circ> snd) (set m)"
  proof (rule inj_onI)
    fix x y assume "x \<in> set m" "y \<in> set m" "(nk_name \<circ> snd) x = (nk_name \<circ> snd) y"
    then show "x = y"
      using ok(3) [of "fst x" "snd x"] ok(3) [of "fst y" "snd y"] same [of "fst x" "snd x"]
      by (metis comp_apply option.inject prod.collapse)
  qed
  moreover have "inj_on (nk_bytes \<circ> snd) (set m)"
  proof (rule inj_onI)
    fix x y assume "x \<in> set m" "y \<in> set m" "(nk_bytes \<circ> snd) x = (nk_bytes \<circ> snd) y"
    then show "x = y"
      using ok(2) [of "fst x" "snd x"] ok(2) [of "fst y" "snd y"] same [of "fst x" "snd x"]
      by (metis comp_apply prod.collapse)
  qed
  moreover have "distinct m" using d by (simp add: distinct_map)
  ultimately show ?thesis by (simp add: distinct_map)
qed

text \<open>What \<open>parseNixKeys\<close> returns.\<close>

definition wf_nix_keys :: "jstr list list \<Rightarrow> nix_key list \<Rightarrow> bool" where
  "wf_nix_keys tags ks \<longleftrightarrow>
     (\<forall>k \<in> set ks. wf_nix_key k) \<and> distinct (map nk_name ks) \<and> distinct (map nk_bytes ks)
     \<and> (\<forall>t \<in> set tags. tag_is ''nixSigKey'' t
          \<longrightarrow> (\<exists>name. \<exists>k \<in> set ks. t ! 1 = name @ 58 # nk_encoded k))"

lemma parse_nix_keys_ok:
  assumes "parse_nix_keys tags = Inr ks"
  shows "wf_nix_keys tags ks"
proof -
  obtain m names where f: "fold_err nix_key_step (filter (tag_is ''nixSigKey'') tags) ([], [])
      = Inr (m, names)" and ks: "ks = map snd m"
    using assms by (auto simp: parse_nix_keys_def ebind_Inr)
  have "key_state_ok ([], [])" by (simp add: key_state_ok_def)
  note r = nix_keys_fold_ok [OF f this]
  then have "key_state_ok (m, names)" by blast
  note d = key_state_distinct [OF this]
  show ?thesis using r d unfolding ks wf_nix_keys_def
    by (auto simp: key_state_ok_def simp del: map_map)
qed

subsection \<open>What a validated publication is\<close>

definition pub_tags :: "raw_publication \<Rightarrow> jstr list list" where
  "pub_tags raw = (case raw_tags (rp_tags raw) of None \<Rightarrow> [] | Some ts \<Rightarrow> ts)"

lemma validate_publication_Inr:
  assumes "validate_publication env raw now = Inr v"
  obtains created tags kind name root keys expires where
    "rp_created_at raw = V_Int created" "created \<le> now + 900"
    "raw_tags (rp_tags raw) = Some tags" "pe_verify env raw = Some True"
    "rp_kind raw = V_Int kind" "kind = 17091 \<or> kind = 37091"
    "identity_name kind tags = Inr name" "publication_root env tags = Inr root"
    "parse_nix_keys tags = Inr keys" "expiration now tags = Inr expires"
    "v = \<lparr>vp_event = raw,
             vp_identity = \<lparr>pi_kind = kind, pi_pubkey = rp_pubkey raw, pi_name = name\<rparr>,
             vp_root = root, vp_keys = keys, vp_servers = blossom_servers env tags,
             vp_expires = expires\<rparr>"
proof -
  obtain created where c: "rp_created_at raw = V_Int created"
    "safe_integer (V_Int created) = Some created"
    using assms
    by (cases "safe_integer (rp_created_at raw)")
      (auto simp: validate_publication_def safe_integer_Some)
  obtain tags where t: "raw_tags (rp_tags raw) = Some tags"
    using assms c by (cases "raw_tags (rp_tags raw)")
      (auto simp: validate_publication_def split: if_splits)
  have ver: "pe_verify env raw = Some True"
    using assms c t
    by (cases "pe_verify env raw") (auto simp: validate_publication_def split: if_splits)
  define kind :: int where "kind = (if rp_kind raw = V_Int 17091 then 17091 else 37091)"
  have k: "rp_kind raw = V_Int kind" "kind = 17091 \<or> kind = 37091" "created \<le> now + 900"
    using assms c t ver
    by (auto simp: validate_publication_def kind_def split: if_splits)
  have "ebind (identity_name kind tags) (\<lambda>name.
        ebind (publication_root env tags) (\<lambda>root.
        ebind (parse_nix_keys tags) (\<lambda>keys.
        ebind (expiration now tags) (\<lambda>expires.
        Inr \<lparr>vp_event = raw,
             vp_identity = \<lparr>pi_kind = kind, pi_pubkey = rp_pubkey raw, pi_name = name\<rparr>,
             vp_root = root, vp_keys = keys, vp_servers = blossom_servers env tags,
             vp_expires = expires\<rparr>)))) = Inr v"
    using assms c t ver k unfolding kind_def
    by (simp add: validate_publication_def Let_def split: if_splits)
  then show thesis using c t ver k that by (auto simp: ebind_Inr)
qed


definition valid_identity :: "publication_identity \<Rightarrow> bool" where
  "valid_identity i \<longleftrightarrow>
     (pi_kind i = 17091 \<and> pi_name i = None)
     \<or> (pi_kind i = 37091 \<and> (\<exists>n. pi_name i = Some n \<and> valid_label n))"

definition valid_root :: "pub_env \<Rightarrow> jstr list list \<Rightarrow> plaintext_root \<Rightarrow> bool" where
  "valid_root env tags root \<longleftrightarrow>
     filter (tag_is ''htree'') tags = [[js ''htree'', js ''htree://'' @ pr_nhash root]]
     \<and> length (pr_bytes root) = 32 \<and> pr_hex root = to_hex (pr_bytes root)
     \<and> encode_plaintext_nhash (pe_bech_encode env) (pe_to_words env) (pr_bytes root)
       = Inr (pr_nhash root)"

definition valid_publication :: "pub_env \<Rightarrow> int \<Rightarrow> validated_publication \<Rightarrow> bool" where
  "valid_publication env now v \<longleftrightarrow>
     pe_verify env (vp_event v) = Some True
     \<and> (\<exists>c. rp_created_at (vp_event v) = V_Int c \<and> c \<le> now + 900)
     \<and> rp_kind (vp_event v) = V_Int (pi_kind (vp_identity v))
     \<and> rp_pubkey (vp_event v) = pi_pubkey (vp_identity v)
     \<and> valid_identity (vp_identity v)
     \<and> valid_root env (pub_tags (vp_event v)) (vp_root v)
     \<and> wf_nix_keys (pub_tags (vp_event v)) (vp_keys v)
     \<and> (case vp_expires v of None \<Rightarrow> filter (tag_is ''expiration'') (pub_tags (vp_event v)) = []
        | Some t \<Rightarrow> now < t)"

lemma identity_name_ok:
  "identity_name kind tags = Inr name \<Longrightarrow> kind = 17091 \<or> kind = 37091
     \<Longrightarrow> valid_identity \<lparr>pi_kind = kind, pi_pubkey = p, pi_name = name\<rparr>"
  by (auto simp: identity_name_def valid_identity_def Let_def split: if_splits)

lemma starts_with_drop: "starts_with p s \<Longrightarrow> s = p @ drop (length p) s"
  by (metis append_take_drop_id starts_with_def)

lemma publication_root_ok:
  assumes "publication_root env tags = Inr root"
  shows "valid_root env tags root"
proof -
  define h where "h = filter (tag_is ''htree'') tags"
  have h: "length h = 1" "length (h ! 0) = 2" "starts_with (js ''htree://'') (h ! 0 ! 1)"
    using assms by (auto simp: publication_root_def h_def Let_def split: if_splits)
  define n where "n = drop (length ''htree://'') (h ! 0 ! 1)"
  have dec: "decode_plaintext_nhash (pe_lower env) (pe_bech_decode env) (pe_from_words env)
      (pe_bech_encode env) (pe_to_words env) n = Inr root"
    using assms by (auto simp: publication_root_def h_def n_def Let_def split: if_splits sum.splits)
  have form: "length (pr_bytes root) = 32" "pr_hex root = to_hex (pr_bytes root)"
    "encode_plaintext_nhash (pe_bech_encode env) (pe_to_words env) (pr_bytes root) = Inr n"
    "pr_nhash root = n"
    using decode_plaintext_nhash_form [OF dec] by auto
  obtain t where t: "h = [t]" using h(1) by (cases h) auto
  then have "t \<in> set h" by simp
  then have "tag_is ''htree'' t" by (simp add: h_def)
  moreover have "t ! 1 = js ''htree://'' @ n"
    using starts_with_drop [OF h(3)] t by (simp add: n_def)
  ultimately have "t = [js ''htree'', js ''htree://'' @ n]"
    using h(2) t by (cases t; cases "tl t") (auto simp: tag_is_def)
  then show ?thesis using form t by (simp add: valid_root_def h_def)
qed

lemma expiration_ok:
  "expiration now tags = Inr e \<Longrightarrow>
     (case e of None \<Rightarrow> filter (tag_is ''expiration'') tags = [] | Some t \<Rightarrow> now < t)"
  by (auto simp: expiration_def Let_def split: if_splits)

lemma validate_publication_valid:
  assumes "validate_publication env raw now = Inr v"
  shows "valid_publication env now v" "vp_event v = raw"
proof -
  obtain created tags kind name root keys expires where v:
    "rp_created_at raw = V_Int created" "created \<le> now + 900"
    "raw_tags (rp_tags raw) = Some tags" "pe_verify env raw = Some True"
    "rp_kind raw = V_Int kind" "kind = 17091 \<or> kind = 37091"
    "identity_name kind tags = Inr name" "publication_root env tags = Inr root"
    "parse_nix_keys tags = Inr keys" "expiration now tags = Inr expires"
    "v = \<lparr>vp_event = raw,
             vp_identity = \<lparr>pi_kind = kind, pi_pubkey = rp_pubkey raw, pi_name = name\<rparr>,
             vp_root = root, vp_keys = keys, vp_servers = blossom_servers env tags,
             vp_expires = expires\<rparr>"
    by (rule validate_publication_Inr [OF assms])
  note parts = identity_name_ok [OF v(7,6)] publication_root_ok [OF v(8)]
    parse_nix_keys_ok [OF v(9)] expiration_ok [OF v(10)]
  have tags: "pub_tags raw = tags" using v(3) by (simp add: pub_tags_def)
  show "valid_publication env now v"
    using v(1,2,4,5) parts unfolding v(11) valid_publication_def
    by (cases expires) (simp_all add: tags)
  show "vp_event v = raw" using v(11) by simp
qed

lemma kind_text_no_colon: "58 \<notin> set (kind_text k)"
  using dec_digits_are_digits [of 58 "nat k"] by (auto simp: kind_text_def is_digit_def)

lemma split_at_sep:
  "c \<notin> set x \<Longrightarrow> c \<notin> set y \<Longrightarrow> x @ c # s = y @ c # t \<longleftrightarrow> x = y \<and> s = t"
proof (induction x arbitrary: y)
  case Nil
  then show ?case by (cases y) auto
next
  case (Cons u x)
  then show ?case by (cases y) auto
qed

lemma cache_identity_eq:
  assumes "valid_identity i" "58 \<notin> set (pi_pubkey i)" "valid_identity j" "58 \<notin> set (pi_pubkey j)"
    and "cache_identity i = cache_identity j"
  shows "i = j"
proof -
  have "kind_text (pi_kind i) = kind_text (pi_kind j)" "pi_pubkey i = pi_pubkey j"
    "(case pi_name i of None \<Rightarrow> [] | Some n \<Rightarrow> n) = (case pi_name j of None \<Rightarrow> [] | Some n \<Rightarrow> n)"
    using assms(2,4,5) by (simp_all add: cache_identity_def split_at_sep kind_text_no_colon)
  moreover have "nat (pi_kind i) = nat (pi_kind j)"
    using calculation(1) by (simp add: kind_text_def dec_digits_inject)
  ultimately show ?thesis
    using assms(1,3)
    by (cases i; cases j) (auto simp: valid_identity_def valid_label_def utf8_def)
qed

text \<open>
  C4: Whatever the outside functions do, a publication that \<open>validatePublication\<close> accepts is
  a verified event at most 15 minutes in the future and not expired; a default cache has no
  name and a named one a valid label; its single \<open>htree\<close> tag is the one textual form of the
  32-byte root; its signature keys have distinct names and distinct bytes, are canonical
  base64 of 32 bytes, and every \<open>nixSigKey\<close> tag of the event declares one of them.
\<close>

theorem publication_sound:
  assumes "validate_publication env raw now = Inr v"
  shows "valid_publication env now v \<and> vp_event v = raw"
  using validate_publication_valid [OF assms] by blast

text \<open>
  The textual identity of a cache, under which its state is stored, names one identity:
  two accepted publications whose public keys hold no colon (as every key that \<open>verifyEvent\<close>
  accepts) have the same \<open>cacheIdentity\<close> exactly when kind, key and name agree, whatever
  colons the name holds.
\<close>

theorem cache_identity_inject:
  assumes "validate_publication env a now = Inr va" "validate_publication env b now' = Inr vb"
    and "58 \<notin> set (rp_pubkey a)" "58 \<notin> set (rp_pubkey b)"
  shows "cache_identity (vp_identity va) = cache_identity (vp_identity vb)
    \<longleftrightarrow> vp_identity va = vp_identity vb"
proof
  assume same: "cache_identity (vp_identity va) = cache_identity (vp_identity vb)"
  have va: "valid_identity (vp_identity va)" "58 \<notin> set (pi_pubkey (vp_identity va))"
    using validate_publication_valid [OF assms(1)] assms(3)
    by (auto simp: valid_publication_def)
  have vb: "valid_identity (vp_identity vb)" "58 \<notin> set (pi_pubkey (vp_identity vb))"
    using validate_publication_valid [OF assms(2)] assms(4)
    by (auto simp: valid_publication_def)
  show "vp_identity va = vp_identity vb"
    by (rule cache_identity_eq [OF va vb same])
qed simp


subsection \<open>Witnesses\<close>

definition sample_env :: pub_env where
  "sample_env = \<lparr>pe_verify = \<lambda>_. Some True, pe_url = \<lambda>_. None, pe_lower = id,
     pe_bech_decode = toy_decode, pe_from_words = toy_from, pe_bech_encode = toy_encode,
     pe_to_words = toy_to\<rparr>"

definition sample_raw :: raw_publication where
  "sample_raw = \<lparr>rp_id = js ''e0'', rp_pubkey = js ''ab'', rp_created_at = V_Int 900,
     rp_kind = V_Int 37091,
     rp_tags = V_Arr (map (\<lambda>t. V_Arr (map V_Str t))
       [[js ''d'', js ''main''],
        [js ''htree'', js ''htree://'' @ toy_string (replicate 32 9)],
        [js ''nixSigKey'', js ''k:'' @ btoa (replicate 32 7)],
        [js ''expiration'', js ''2000'']]),
     rp_content = [], rp_sig = []\<rparr>"

definition sample_publication :: validated_publication where
  "sample_publication = \<lparr>vp_event = sample_raw,
     vp_identity = \<lparr>pi_kind = 37091, pi_pubkey = js ''ab'', pi_name = Some (js ''main'')\<rparr>,
     vp_root = \<lparr>pr_bytes = replicate 32 9, pr_hex = to_hex (replicate 32 9),
        pr_nhash = toy_string (replicate 32 9)\<rparr>,
     vp_keys = [\<lparr>nk_name = js ''k'', nk_encoded = btoa (replicate 32 7), nk_bytes = replicate 32 7\<rparr>],
     vp_servers = [], vp_expires = Some 2000\<rparr>"

definition sample_tags :: "jstr list list" where
  "sample_tags =
     [[js ''d'', js ''main''],
      [js ''htree'', js ''htree://'' @ toy_string (replicate 32 9)],
      [js ''nixSigKey'', js ''k:'' @ btoa (replicate 32 7)],
      [js ''expiration'', js ''2000'']]"

lemma length_toy_string: "length (toy_string (replicate 32 9)) = 40"
  by (simp add: toy_string_def toy_to_def nhash_payload_def)

lemma btoa_32: "length (btoa (replicate 32 7)) = 44" "key_form (btoa (replicate 32 7))"
  by (simp_all add: js_eval key_form_def b64_char_def is_b64_def char_classes)

lemma sample_raw_tags: "raw_tags (rp_tags sample_raw) = Some sample_tags"
  by (simp add: sample_raw_def raw_tags_def tag_strings_def sample_tags_def length_toy_string
      btoa_32)

lemma valid_label_simps:
  "valid_label (js ''main'')" "valid_label (js ''k'')"
  by (simp_all add: valid_label_def js_eval utf8_def utf8_scalar_def high_surrogate_def
      low_surrogate_def is_space_def)

lemma sample_name: "identity_name 37091 sample_tags = Inr (Some (js ''main''))"
  by (simp add: identity_name_def sample_tags_def tag_is_def valid_label_simps)

lemma sample_root: "publication_root sample_env sample_tags = Inr (vp_root sample_publication)"
proof -
  have "\<not> list_ex (\<lambda>u. u = 47 \<or> u = 63 \<or> u = 35) (toy_string (replicate 32 9))"
    by (simp add: toy_string_def toy_to_def nhash_payload_def js_eval)
  moreover have "toy_string (replicate 32 9) \<noteq> []" using length_toy_string by auto
  moreover have "starts_with (js ''htree://'') (js ''htree://'' @ toy_string (replicate 32 9))"
    by (rule starts_with_append)
  ultimately show ?thesis
    using toy_decode_nhash
    by (simp add: publication_root_def sample_tags_def tag_is_def sample_env_def
        sample_publication_def)
qed

lemma sample_keys: "parse_nix_keys sample_tags = Inr (vp_keys sample_publication)"
proof -
  have k: "js ''k:'' @ btoa (replicate 32 7) = js ''k'' @ 58 # btoa (replicate 32 7)"
    by (simp add: js_eval)
  have i: "index_of [58] (js ''k'' @ 58 # btoa (replicate 32 7)) = Some 1"
    using index_of_single_first [of 58 "js ''k''"] by (simp add: js_eval)
  have "last_index_of 58 (js ''k'' @ 58 # btoa (replicate 32 7)) = Some 1"
    by (simp add: last_index_of_def js_eval starts_with_def b64_char_def)
  then show ?thesis
    using i btoa_32 valid_label_simps
    by (simp add: parse_nix_keys_def sample_tags_def tag_is_def nix_key_step_def k atob_btoa
        sample_publication_def Let_def)
qed

lemma sample_expires: "expiration 1000 sample_tags = Inr (Some 2000)"
  by (simp add: expiration_def sample_tags_def tag_is_def canonical_decimal_def js_eval
      dec_value_def safe_int_def max_safe_def is_digit_def)

lemma sample_validates: "validate_publication sample_env sample_raw 1000 = Inr sample_publication"
proof -
  have "blossom_servers sample_env sample_tags = []"
    by (simp add: blossom_servers_def sample_tags_def tag_is_def)
  then show ?thesis
    using sample_raw_tags sample_name sample_root sample_keys sample_expires
    by (simp add: validate_publication_def safe_integer_def safe_int_def max_safe_def Let_def
        sample_env_def [THEN arg_cong [where f = pe_verify]] sample_raw_def sample_publication_def)
qed

lemma publication_sound_witness:
  "valid_publication sample_env 1000 sample_publication"
  using publication_sound [OF sample_validates] by blast

lemma cache_identity_inject_witness:
  "cache_identity (vp_identity sample_publication) = cache_identity (vp_identity sample_publication)
    \<longleftrightarrow> vp_identity sample_publication = vp_identity sample_publication"
  by (rule cache_identity_inject [OF sample_validates sample_validates])
    (simp_all add: sample_raw_def js_eval)

end
