(* ===== verification/Newest_Wins.thy ===== *)
theory Newest_Wins
  imports Main
begin

section \<open>The interface of a store that keeps the newest value\<close>

text \<open>
  Several components keep, per cache identity, the newest of the publications they are
  given and drop the others. The locale states what such a store promises of one operation,
  and shows once what follows for any sequence of them: the value kept is the newest one
  given, so it does not depend on the order in which they arrived.
\<close>

locale newest_wins =
  fixes step :: "'p \<Rightarrow> 's \<Rightarrow> 's"
    and cur :: "'s \<Rightarrow> 'v option"
    and view :: "'p \<Rightarrow> 'v"
    and newer :: "'v \<Rightarrow> 'v \<Rightarrow> bool"
    and ok :: "'s \<Rightarrow> bool"
    and good :: "'p \<Rightarrow> bool"
  assumes ok_step: "ok s \<Longrightarrow> good p \<Longrightarrow> ok (step p s)"
    and cur_step: "ok s \<Longrightarrow> good p \<Longrightarrow> cur (step p s) =
      (case cur s of None \<Rightarrow> Some (view p)
       | Some v \<Rightarrow> if newer (view p) v then Some (view p) else Some v)"
    and newer_irrefl: "\<not> newer v v"
    and newer_trans: "newer u v \<Longrightarrow> newer v w \<Longrightarrow> newer u w"
    and not_newer_trans: "\<not> newer u v \<Longrightarrow> \<not> newer v w \<Longrightarrow> \<not> newer u w"
begin

definition steps :: "'p list \<Rightarrow> 's \<Rightarrow> 's" where
  "steps ps s = fold step ps s"

lemma steps_simps [simp]: "steps [] s = s" "steps (p # ps) s = steps ps (step p s)"
  by (simp_all add: steps_def)

lemma steps_ok: "ok s \<Longrightarrow> \<forall>p \<in> set ps. good p \<Longrightarrow> ok (steps ps s)"
  by (induction ps arbitrary: s) (simp_all add: ok_step)

text \<open>The value kept is one of those given, or the first, and none given is newer.\<close>

lemma steps_newest:
  assumes "ok s" "\<forall>p \<in> set ps. good p" "cur s = Some v"
  shows "\<exists>w. cur (steps ps s) = Some w \<and> w \<in> insert v (view ` set ps)
    \<and> (\<forall>u \<in> insert v (view ` set ps). \<not> newer u w)"
  using assms
proof (induction ps arbitrary: s v)
  case Nil
  then show ?case by (simp add: newer_irrefl)
next
  case (Cons p ps)
  define x where "x = (if newer (view p) v then view p else v)"
  have s: "ok (step p s)" "cur (step p s) = Some x"
    using Cons.prems by (auto simp: ok_step cur_step x_def)
  obtain w where w: "cur (steps ps (step p s)) = Some w" "w \<in> insert x (view ` set ps)"
    "\<forall>u \<in> insert x (view ` set ps). \<not> newer u w"
    using Cons.IH [OF s(1) _ s(2)] Cons.prems(2) by auto
  have x: "\<not> newer x w" using w(3) by blast
  have "\<not> newer v w \<and> \<not> newer (view p) w"
  proof (cases "newer (view p) v")
    case True
    then have "\<not> newer (view p) w" using x by (simp add: x_def)
    moreover have "\<not> newer v w" using True calculation newer_trans by blast
    ultimately show ?thesis by blast
  next
    case False
    then have "\<not> newer v w" using x by (simp add: x_def)
    with False show ?thesis using not_newer_trans by blast
  qed
  with w show ?case by (auto simp: x_def split: if_splits)
qed

lemma steps_newest_first:
  assumes "ok s" "\<forall>p \<in> set ps. good p" "cur s = None" "ps \<noteq> []"
  shows "\<exists>w \<in> view ` set ps. cur (steps ps s) = Some w \<and> (\<forall>u \<in> view ` set ps. \<not> newer u w)"
proof -
  obtain p qs where ps: "ps = p # qs" using assms(4) by (cases ps) auto
  have "ok (step p s)" "cur (step p s) = Some (view p)"
    using assms ps by (simp_all add: ok_step cur_step)
  from steps_newest [OF this(1) _ this(2), of qs] show ?thesis
    using assms(2) ps by auto
qed

text \<open>When two different values are always ordered, the order of arrival does not matter.\<close>

lemma steps_order:
  assumes "ok s" "\<forall>p \<in> set ps. good p" "cur s = None" "set ps = set qs"
    and "\<And>u v. u \<in> view ` set ps \<Longrightarrow> v \<in> view ` set ps \<Longrightarrow> newer u v \<or> newer v u \<or> u = v"
  shows "cur (steps ps s) = cur (steps qs s)"
proof (cases "ps = []")
  case True
  then show ?thesis using assms(4) by simp
next
  case False
  with assms(4) have "qs \<noteq> []" by auto
  then obtain w where "w \<in> view ` set ps" "cur (steps qs s) = Some w"
    "\<forall>u \<in> view ` set ps. \<not> newer u w"
    using steps_newest_first [of s qs] assms by auto
  moreover obtain v where "v \<in> view ` set ps" "cur (steps ps s) = Some v"
    "\<forall>u \<in> view ` set ps. \<not> newer u v"
    using steps_newest_first [of s ps] assms False by auto
  ultimately show ?thesis using assms(5) [of v w] by auto
qed

end

end
