(* ===== verification/State_Repository.thy ===== *)
theory State_Repository
  imports Publication Tables Newest_Wins
begin

section \<open>The selections and policies of the identities (persistence/state_repository.ts)\<close>

text \<open>
  \<^verbatim>\<open>src/persistence/state_repository.ts\<close> stores, per cache identity, the selected
  publication with its trust history, and the quarantined origins. A text column that holds
  JSON is given by what \<open>JSON.parse\<close> makes of it: nothing (the empty text), no value (it
  throws) or a value; \<open>JSON.stringify\<close> of an event is the text of its value. The two
  integer columns with a \<open>CHECK\<close> of 0 or 1 are booleans.
\<close>

datatype json_text = JT_empty | JT_bad | JT_value jsval

record identity_row =
  ir_identity :: jstr
  ir_event :: "json_text option"
  ir_created :: "int option"
  ir_event_id :: "jstr option"
  ir_signed :: bool
  ir_consent :: bool

record quarantine_row =
  qr_origin :: jstr
  qr_reason :: jstr
  qr_at :: int

record state_db =
  sd_identities :: "identity_row list"
  sd_quarantine :: "quarantine_row list"

record stored_selection =
  ss_identity :: jstr
  ss_event :: raw_publication
  ss_created :: int
  ss_event_id :: jstr
  ss_signed :: bool

datatype state_error = SE_commit | SE_json | SE_shape

datatype acceptance = AC_stale | AC_consent_required | AC_accepted "stored_selection option"

subsection \<open>Events as stored\<close>

definition event_value :: "raw_publication \<Rightarrow> jsval" where
  "event_value e = V_Obj
     [(js ''id'', V_Str (rp_id e)), (js ''pubkey'', V_Str (rp_pubkey e)),
      (js ''created_at'', rp_created_at e), (js ''kind'', rp_kind e), (js ''tags'', rp_tags e),
      (js ''content'', V_Str (rp_content e)), (js ''sig'', V_Str (rp_sig e))]"

text \<open>\<open>tags.every((tag) => Array.isArray(tag) && tag.every(string))\<close>.\<close>

definition string_tags :: "jsval \<Rightarrow> jstr list list option" where
  "string_tags v =
     (case the_array v of None \<Rightarrow> None
      | Some ts \<Rightarrow> all_some (map (\<lambda>t. case the_array t of None \<Rightarrow> None
          | Some fs \<Rightarrow> all_some (map the_string fs)) ts))"

text \<open>\<open>isRawPublication\<close>, giving the event when it holds.\<close>

definition string_prop :: "props \<Rightarrow> string \<Rightarrow> jstr option" where
  "string_prop p k = Option.bind (map_of p (js k)) the_string"

definition integer_prop :: "props \<Rightarrow> string \<Rightarrow> int option" where
  "integer_prop p k = Option.bind (map_of p (js k)) safe_integer"

definition raw_of_value :: "jsval \<Rightarrow> raw_publication option" where
  "raw_of_value v =
     (case v of V_Obj p \<Rightarrow>
        Option.bind (string_prop p ''id'') (\<lambda>i.
        Option.bind (string_prop p ''pubkey'') (\<lambda>k.
        Option.bind (string_prop p ''sig'') (\<lambda>s.
        Option.bind (string_prop p ''content'') (\<lambda>c.
        Option.bind (integer_prop p ''created_at'') (\<lambda>at.
        Option.bind (integer_prop p ''kind'') (\<lambda>kind.
        Option.bind (map_of p (js ''tags'')) (\<lambda>tags.
        if string_tags tags = None then None
        else Some \<lparr>rp_id = i, rp_pubkey = k, rp_created_at = V_Int at, rp_kind = V_Int kind,
                   rp_tags = tags, rp_content = c, rp_sig = s\<rparr>)))))))
      | _ \<Rightarrow> None)"

definition event_signed :: "raw_publication \<Rightarrow> bool" where
  "event_signed e =
     (case string_tags (rp_tags e) of None \<Rightarrow> False | Some ts \<Rightarrow> list_ex (tag_is ''nixSigKey'') ts)"

definition event_created :: "raw_publication \<Rightarrow> int" where
  "event_created e = (case rp_created_at e of V_Int n \<Rightarrow> n | _ \<Rightarrow> 0)"

subsection \<open>The operations\<close>

definition identity_row_of :: "jstr \<Rightarrow> state_db \<Rightarrow> identity_row option" where
  "identity_row_of i db = row ir_identity i (sd_identities db)"

definition load_selection :: "jstr \<Rightarrow> state_db \<Rightarrow> state_error + stored_selection option" where
  "load_selection i db =
     (case identity_row_of i db of None \<Rightarrow> Inr None
      | Some r \<Rightarrow>
          (case (ir_event r, ir_created r, ir_event_id r) of
             (Some text, Some created, Some event_id) \<Rightarrow>
               (case text of JT_empty \<Rightarrow> Inr None
                | JT_bad \<Rightarrow> Inl SE_json
                | JT_value v \<Rightarrow>
                    (case raw_of_value v of None \<Rightarrow> Inl SE_shape
                     | Some e \<Rightarrow> Inr (Some \<lparr>ss_identity = i, ss_event = e, ss_created = created,
                         ss_event_id = event_id, ss_signed = event_signed e\<rparr>)))
           | _ \<Rightarrow> Inr None))"

text \<open>\<open>INSERT ... ON CONFLICT(identity) DO UPDATE\<close>, the signed history by \<open>MAX\<close>.\<close>

definition upsert_selection :: "jstr \<Rightarrow> raw_publication \<Rightarrow> bool \<Rightarrow> bool \<Rightarrow> identity_row list \<Rightarrow> identity_row list"
where
  "upsert_selection i e keyed consent t =
     (if has_key ir_identity i t
      then update_where (\<lambda>r. ir_identity r = i)
        (\<lambda>r. r\<lparr>ir_event := Some (JT_value (event_value e)), ir_created := Some (event_created e),
               ir_event_id := Some (rp_id e), ir_signed := ir_signed r \<or> keyed\<rparr>) t
      else t @ [\<lparr>ir_identity = i, ir_event = Some (JT_value (event_value e)),
                 ir_created = Some (event_created e), ir_event_id = Some (rp_id e),
                 ir_signed = keyed, ir_consent = consent\<rparr>])"

definition newer_event :: "int \<times> jstr \<Rightarrow> int \<times> jstr \<Rightarrow> bool" where
  "newer_event a b \<longleftrightarrow> fst a > fst b \<or> (fst a = fst b \<and> snd a < snd b)"

text \<open>
  \<open>accept\<close>: \<open>commit_ok\<close> tells whether the \<open>beforeCommit\<close> hook returns.
\<close>

definition accept_publication ::
  "bool \<Rightarrow> validated_publication \<Rightarrow> (state_db, state_error, acceptance) op" where
  "accept_publication commit_ok p db =
     (let i = cache_identity (vp_identity p);
          current = identity_row_of i db;
          keyed = (vp_keys p \<noteq> []);
          e = vp_event p in
      if (case current of None \<Rightarrow> False | Some r \<Rightarrow> ir_signed r \<and> \<not> keyed \<and> \<not> ir_consent r)
      then (Inr AC_consent_required, db)
      else if (case current of None \<Rightarrow> False
          | Some r \<Rightarrow> (case (ir_created r, ir_event_id r) of
              (Some c, Some last_id) \<Rightarrow> last_id \<noteq> [] \<and> \<not> newer_event (event_created e, rp_id e) (c, last_id)
            | _ \<Rightarrow> False))
      then (Inr AC_stale, db)
      else op_bind
        (transaction (\<lambda>s. if commit_ok
            then Inr ((), s\<lparr>sd_identities := upsert_selection i e keyed
              (case current of None \<Rightarrow> False | Some r \<Rightarrow> ir_consent r) (sd_identities s)\<rparr>)
            else Inl SE_commit))
        (\<lambda>_ s. (map_sum id AC_accepted (load_selection i s), s)) db)"

definition clear_corrupt_selection :: "jstr \<Rightarrow> state_db \<Rightarrow> state_db" where
  "clear_corrupt_selection i db = db\<lparr>sd_identities :=
     update_where (\<lambda>r. ir_identity r = i)
       (\<lambda>r. r\<lparr>ir_event := None, ir_created := None, ir_event_id := None\<rparr>) (sd_identities db)\<rparr>"

text \<open>The loop of \<open>loadSelections\<close>, with what it hands to \<open>onCorrupt\<close>.\<close>

fun load_rows :: "jstr list \<Rightarrow> state_db \<Rightarrow> (stored_selection list \<times> (jstr \<times> state_error) list) \<times> state_db"
where
  "load_rows [] db = (([], []), db)"
| "load_rows (i # is) db =
     (case load_selection i db of
        Inr sel \<Rightarrow> (let ((sels, bad), db') = load_rows is db in
          (((case sel of None \<Rightarrow> sels | Some s \<Rightarrow> s # sels), bad), db'))
      | Inl e \<Rightarrow> (let ((sels, bad), db') = load_rows is (clear_corrupt_selection i db) in
          ((sels, (i, e) # bad), db')))"

definition load_selections :: "state_db \<Rightarrow> (stored_selection list \<times> (jstr \<times> state_error) list) \<times> state_db"
where
  "load_selections db =
     load_rows (map ir_identity (filter (\<lambda>r. ir_event r \<noteq> None) (sd_identities db))) db"

text \<open>\<open>loadPolicy\<close>: the signed history and the consent.\<close>

definition load_policy :: "jstr \<Rightarrow> state_db \<Rightarrow> bool \<times> bool" where
  "load_policy i db =
     (case identity_row_of i db of None \<Rightarrow> (False, False) | Some r \<Rightarrow> (ir_signed r, ir_consent r))"

definition set_unsigned_consent :: "jstr \<Rightarrow> bool \<Rightarrow> state_db \<Rightarrow> state_db" where
  "set_unsigned_consent i allowed db = db\<lparr>sd_identities :=
     (if has_key ir_identity i (sd_identities db)
      then update_where (\<lambda>r. ir_identity r = i) (\<lambda>r. r\<lparr>ir_consent := allowed\<rparr>) (sd_identities db)
      else sd_identities db @ [\<lparr>ir_identity = i, ir_event = None, ir_created = None,
             ir_event_id = None, ir_signed = False, ir_consent = allowed\<rparr>])\<rparr>"

definition quarantine_origin :: "jstr \<Rightarrow> jstr \<Rightarrow> int \<Rightarrow> state_db \<Rightarrow> state_db" where
  "quarantine_origin origin reason at db = db\<lparr>sd_quarantine :=
     (if has_key qr_origin origin (sd_quarantine db)
      then update_where (\<lambda>r. qr_origin r = origin) (\<lambda>r. r\<lparr>qr_reason := reason, qr_at := at\<rparr>) (sd_quarantine db)
      else sd_quarantine db @ [\<lparr>qr_origin = origin, qr_reason = reason, qr_at = at\<rparr>])\<rparr>"

definition release_quarantine :: "jstr \<Rightarrow> state_db \<Rightarrow> state_db" where
  "release_quarantine origin db = db\<lparr>sd_quarantine := delete_where (\<lambda>r. qr_origin r = origin) (sd_quarantine db)\<rparr>"

definition is_quarantined :: "jstr \<Rightarrow> state_db \<Rightarrow> bool" where
  "is_quarantined origin db \<longleftrightarrow> has_key qr_origin origin (sd_quarantine db)"


subsection \<open>Rows\<close>

lemma identity_row_of_upsert:
  "identity_row_of j (db\<lparr>sd_identities := upsert_selection i e keyed consent (sd_identities db)\<rparr>) =
     (if j = i then
        Some (case identity_row_of i db of
          None \<Rightarrow> \<lparr>ir_identity = i, ir_event = Some (JT_value (event_value e)),
                   ir_created = Some (event_created e), ir_event_id = Some (rp_id e),
                   ir_signed = keyed, ir_consent = consent\<rparr>
        | Some r \<Rightarrow> r\<lparr>ir_event := Some (JT_value (event_value e)), ir_created := Some (event_created e),
               ir_event_id := Some (rp_id e), ir_signed := ir_signed r \<or> keyed\<rparr>)
      else identity_row_of j db)"
  by (auto simp: identity_row_of_def upsert_selection_def row_update_where row_append
      has_key_row split: option.split)

lemma identity_row_of_clear:
  "identity_row_of j (clear_corrupt_selection i db) =
     (if j = i then map_option (\<lambda>r. r\<lparr>ir_event := None, ir_created := None, ir_event_id := None\<rparr>)
        (identity_row_of i db) else identity_row_of j db)"
  by (simp add: identity_row_of_def clear_corrupt_selection_def row_update_where)

lemma identity_row_of_consent:
  "identity_row_of j (set_unsigned_consent i allowed db) =
     (if j = i then Some (case identity_row_of i db of
          None \<Rightarrow> \<lparr>ir_identity = i, ir_event = None, ir_created = None, ir_event_id = None,
                   ir_signed = False, ir_consent = allowed\<rparr>
        | Some r \<Rightarrow> r\<lparr>ir_consent := allowed\<rparr>)
      else identity_row_of j db)"
  by (auto simp: identity_row_of_def set_unsigned_consent_def row_update_where row_append
      has_key_row split: option.split)

lemma identity_row_of_quarantine:
  "identity_row_of j (quarantine_origin x reason at db) = identity_row_of j db"
  "identity_row_of j (release_quarantine x db) = identity_row_of j db"
  by (simp_all add: identity_row_of_def quarantine_origin_def release_quarantine_def)

lemmas identity_rows = identity_row_of_upsert identity_row_of_clear identity_row_of_consent
  identity_row_of_quarantine

lemma load_selection_row:
  "identity_row_of i db = identity_row_of i db' \<Longrightarrow> load_selection i db = load_selection i db'"
  by (simp add: load_selection_def)

subsection \<open>Events round-trip through the store\<close>

definition storable_event :: "raw_publication \<Rightarrow> bool" where
  "storable_event e \<longleftrightarrow>
     (\<exists>n. rp_created_at e = V_Int n \<and> safe_int n) \<and> (\<exists>n. rp_kind e = V_Int n \<and> safe_int n)
     \<and> string_tags (rp_tags e) \<noteq> None"

lemma safe_integer_Int: "safe_int n \<Longrightarrow> safe_integer (V_Int n) = Some n"
  by (simp add: safe_integer_def)

lemma raw_of_event_value:
  assumes "storable_event e"
  shows "raw_of_value (event_value e) = Some e"
proof -
  obtain m n ts where "rp_created_at e = V_Int m" "safe_int m" "rp_kind e = V_Int n" "safe_int n"
    "string_tags (rp_tags e) = Some ts"
    using assms by (auto simp: storable_event_def)
  then show ?thesis
    by (simp add: raw_of_value_def event_value_def string_prop_def integer_prop_def
        safe_integer_Int)
qed

lemma tag_strings_all: "tag_strings t = Some ss \<Longrightarrow> t = V_Arr (map V_Str ss)"
proof -
  assume "tag_strings t = Some ss"
  then obtain items where t: "t = V_Arr items"
    and items: "all_some (map (\<lambda>f. case the_string f of None \<Rightarrow> None
        | Some s \<Rightarrow> if length s > 4096 then None else Some s) items) = Some ss"
    by (auto simp: tag_strings_def the_array_Some split: option.splits if_splits)
  have "items = map V_Str ss"
    by (rule all_some_map_inv [OF items]) (auto simp: the_string_Some split: option.splits if_splits)
  with t show ?thesis by simp
qed

lemma raw_tags_string_tags:
  assumes "raw_tags v = Some tags"
  shows "string_tags v = Some tags"
proof -
  obtain ts where v: "v = V_Arr ts" and ts: "all_some (map tag_strings ts) = Some tags"
    using assms by (auto simp: raw_tags_def the_array_Some split: option.splits if_splits)
  have "ts = map (\<lambda>ss. V_Arr (map V_Str ss)) tags"
    by (rule all_some_map_inv [OF ts tag_strings_all])
  with v show ?thesis
    by (simp add: string_tags_def all_some_Some comp_def)
qed

text \<open>What \<open>accept\<close> is called with: a publication that \<open>validatePublication\<close> returned.\<close>

definition validated :: "validated_publication \<Rightarrow> bool" where
  "validated p \<longleftrightarrow>
     storable_event (vp_event p) \<and> (vp_keys p \<noteq> [] \<longleftrightarrow> event_signed (vp_event p))"

lemma validate_publication_validated:
  assumes "validate_publication env raw now = Inr v"
  shows "validated v"
proof -
  obtain created tags kind name root keys expires where v:
    "rp_created_at raw = V_Int created" "created \<le> now + 900"
    "raw_tags (rp_tags raw) = Some tags" "pe_verify env raw = Some True"
    "rp_kind raw = V_Int kind" "kind = 17091 \<or> kind = 37091"
    "identity_name kind tags = Inr name" "publication_root env tags = Inr root"
    "parse_nix_keys tags = Inr keys" "expiration now tags = Inr expires"
    "v = \<lparr>vp_event = raw,
             vp_identity = \<lparr>pi_kind = kind, pi_pubkey = rp_pubkey raw, pi_name = name\<rparr>,
             vp_root = root, vp_keys = keys, vp_servers = blossom_servers env tags,
             vp_expires = expires\<rparr>"
    by (rule validate_publication_Inr [OF assms])
  have "safe_int created"
    using assms v(1) by (auto simp: validate_publication_def safe_integer_def split: if_splits)
  then have "storable_event raw"
    using v(1,5,6) raw_tags_string_tags [OF v(3)]
    by (auto simp: storable_event_def safe_int_def max_safe_def)
  moreover have "keys \<noteq> [] \<longleftrightarrow> list_ex (tag_is ''nixSigKey'') tags"
  proof
    assume "list_ex (tag_is ''nixSigKey'') tags"
    then show "keys \<noteq> []"
      using parse_nix_keys_ok [OF v(9)] by (fastforce simp: wf_nix_keys_def list_ex_iff)
  next
    assume "keys \<noteq> []"
    then have "filter (tag_is ''nixSigKey'') tags \<noteq> []"
      using v(9) by (auto simp: parse_nix_keys_def)
    then show "list_ex (tag_is ''nixSigKey'') tags"
      by (auto simp: filter_empty_conv list_ex_iff)
  qed
  ultimately show ?thesis
    using v(11) raw_tags_string_tags [OF v(3)] by (simp add: validated_def event_signed_def)
qed


subsection \<open>The newest publication wins\<close>

definition selection_of :: "validated_publication \<Rightarrow> stored_selection" where
  "selection_of p = \<lparr>ss_identity = cache_identity (vp_identity p), ss_event = vp_event p,
     ss_created = event_created (vp_event p), ss_event_id = rp_id (vp_event p),
     ss_signed = event_signed (vp_event p)\<rparr>"





definition signed_for :: "jstr \<Rightarrow> validated_publication \<Rightarrow> bool" where
  "signed_for i p \<longleftrightarrow>
     validated p \<and> cache_identity (vp_identity p) = i \<and> rp_id (vp_event p) \<noteq> [] \<and> vp_keys p \<noteq> []"

text \<open>A transaction that commits installs the row of the publication.\<close>

definition installed :: "validated_publication \<Rightarrow> state_db \<Rightarrow> state_db" where
  "installed p db = db\<lparr>sd_identities := upsert_selection (cache_identity (vp_identity p)) (vp_event p)
     (vp_keys p \<noteq> [])
     (case identity_row_of (cache_identity (vp_identity p)) db of None \<Rightarrow> False | Some r \<Rightarrow> ir_consent r)
     (sd_identities db)\<rparr>"

definition accept_guard :: "validated_publication \<Rightarrow> state_db \<Rightarrow> acceptance option" where
  "accept_guard p db =
     (case identity_row_of (cache_identity (vp_identity p)) db of None \<Rightarrow> None
      | Some r \<Rightarrow>
          if ir_signed r \<and> vp_keys p = [] \<and> \<not> ir_consent r then Some AC_consent_required
          else (case (ir_created r, ir_event_id r) of
              (Some c, Some last_id) \<Rightarrow>
                if last_id \<noteq> [] \<and> \<not> newer_event (event_created (vp_event p), rp_id (vp_event p)) (c, last_id)
                then Some AC_stale else None
            | _ \<Rightarrow> None))"

lemma accept_publication_cases:
  "accept_publication commit_ok p db =
     (case accept_guard p db of Some a \<Rightarrow> (Inr a, db)
      | None \<Rightarrow>
          if commit_ok
          then (map_sum id AC_accepted (load_selection (cache_identity (vp_identity p)) (installed p db)),
                installed p db)
          else (Inl SE_commit, db))"
  by (auto simp: accept_publication_def accept_guard_def installed_def Let_def op_bind_def
      transaction_def split: option.split)

lemma load_installed:
  assumes "validated p"
  shows "load_selection (cache_identity (vp_identity p)) (installed p db) = Inr (Some (selection_of p))"
  using assms
  by (auto simp: load_selection_def installed_def identity_row_of_upsert selection_of_def
      validated_def raw_of_event_value split: option.split)

lemma load_installed_other:
  "j \<noteq> cache_identity (vp_identity p) \<Longrightarrow> load_selection j (installed p db) = load_selection j db"
  by (simp add: load_selection_def installed_def identity_row_of_upsert)










subsection \<open>Downgrade protection\<close>

text \<open>The operations other components call, and a run of them.\<close>

datatype state_op =
    SO_accept bool validated_publication
  | SO_load_all
  | SO_clear jstr
  | SO_consent jstr bool
  | SO_quarantine jstr jstr int
  | SO_release jstr

fun state_step :: "state_op \<Rightarrow> state_db \<Rightarrow> state_db" where
  "state_step (SO_accept commit_ok p) db = snd (accept_publication commit_ok p db)"
| "state_step SO_load_all db = snd (load_selections db)"
| "state_step (SO_clear i) db = clear_corrupt_selection i db"
| "state_step (SO_consent i b) db = set_unsigned_consent i b db"
| "state_step (SO_quarantine x reason at) db = quarantine_origin x reason at db"
| "state_step (SO_release x) db = release_quarantine x db"

definition state_run :: "state_op list \<Rightarrow> state_db \<Rightarrow> state_db" where
  "state_run ops db = fold state_step ops db"

fun op_keeps_trust :: "jstr \<Rightarrow> state_op \<Rightarrow> bool" where
  "op_keeps_trust i (SO_accept _ p) = validated p"
| "op_keeps_trust i (SO_consent j b) = (j \<noteq> i \<or> \<not> b)"
| "op_keeps_trust i _ = True"

definition row_trusted :: "identity_row \<Rightarrow> bool" where
  "row_trusted r \<longleftrightarrow> ir_signed r \<and> \<not> ir_consent r
     \<and> (case ir_event r of Some (JT_value v) \<Rightarrow>
          (case raw_of_value v of None \<Rightarrow> True | Some e \<Rightarrow> event_signed e)
        | _ \<Rightarrow> True)"

definition trusted :: "jstr \<Rightarrow> state_db \<Rightarrow> bool" where
  "trusted i db \<longleftrightarrow> (\<exists>r. identity_row_of i db = Some r \<and> row_trusted r)"

lemma trusted_clear: "trusted i db \<Longrightarrow> trusted i (clear_corrupt_selection j db)"
  by (auto simp: trusted_def identity_row_of_clear row_trusted_def)

lemma load_rows_induct:
  assumes "P db" "\<And>j db. P db \<Longrightarrow> P (clear_corrupt_selection j db)"
  shows "P (snd (load_rows is db))"
  using assms(1)
proof (induction "is" arbitrary: db)
  case (Cons i "is")
  then show ?case
    using assms(2) by (auto simp: Let_def split: sum.split prod.split) (metis snd_conv)+
qed simp

lemma trusted_accept:
  assumes "trusted i db" "validated p"
  shows "trusted i (snd (accept_publication c p db))"
proof (cases "cache_identity (vp_identity p) = i")
  case False
  then show ?thesis
    using assms(1)
    by (auto simp: accept_publication_cases installed_def trusted_def identity_row_of_upsert
        split: option.split)
next
  case True
  with assms obtain r where r: "identity_row_of i db = Some r" "row_trusted r"
    by (auto simp: trusted_def)
  show ?thesis
  proof (cases "vp_keys p = []")
    case True
    with r \<open>cache_identity (vp_identity p) = i\<close> have "accept_guard p db = Some AC_consent_required"
      by (simp add: accept_guard_def row_trusted_def)
    with assms(1) show ?thesis by (simp add: accept_publication_cases)
  next
    case signed_keys: False
    then have "event_signed (vp_event p)" using assms(2) by (simp add: validated_def)
    then have "trusted i (installed p db)"
      using r True assms(2) signed_keys
      by (simp add: trusted_def installed_def identity_row_of_upsert row_trusted_def validated_def
          raw_of_event_value)
    with assms(1) show ?thesis by (auto simp: accept_publication_cases split: option.split)
  qed
qed

lemma trusted_step:
  assumes "trusted i db" "op_keeps_trust i x"
  shows "trusted i (state_step x db)"
proof (cases x)
  case (SO_accept c p)
  then show ?thesis using trusted_accept assms by simp
next
  case SO_load_all
  then show ?thesis
    using load_rows_induct [of "trusted i", OF assms(1) trusted_clear]
    by (simp add: load_selections_def)
next
  case (SO_clear j)
  then show ?thesis using trusted_clear assms by simp
next
  case (SO_consent j b)
  then show ?thesis using assms
    by (auto simp: trusted_def identity_row_of_consent row_trusted_def)
qed (use assms in \<open>auto simp: trusted_def identity_row_of_quarantine\<close>)

lemma trusted_run: "trusted i db \<Longrightarrow> \<forall>x \<in> set ops. op_keeps_trust i x \<Longrightarrow> trusted i (state_run ops db)"
  unfolding state_run_def by (induction ops arbitrary: db) (simp_all add: trusted_step)

lemma trusted_load:
  assumes "trusted i db" "load_selection i db = Inr (Some s)"
  shows "ss_signed s"
proof -
  obtain r where "identity_row_of i db = Some r" "row_trusted r"
    using assms(1) by (auto simp: trusted_def)
  then show ?thesis
    using assms(2) by (auto simp: row_trusted_def load_selection_def
        split: option.splits json_text.splits)
qed

lemma trusted_refuses:
  "trusted i db \<Longrightarrow> cache_identity (vp_identity q) = i \<Longrightarrow> vp_keys q = []
    \<Longrightarrow> accept_publication c q db = (Inr AC_consent_required, db)"
  by (auto simp: trusted_def row_trusted_def accept_publication_cases accept_guard_def)

text \<open>
  C6: An identity that has been signed is not downgraded: once \<open>accept\<close> took a signed
  publication while the user's consent to unsigned ones is not set, then whatever operations
  follow (accepting any validated publications, failing commits, loading, clearing corrupt
  rows, quarantining origins, withdrawing consent), as long as consent is not given for it,
  every selection loaded for the identity is signed and an unsigned publication is refused.
\<close>

theorem no_silent_downgrade:
  assumes "validated p" "vp_keys p \<noteq> []" "cache_identity (vp_identity p) = i"
    and "accept_publication True p db = (Inr (AC_accepted a), db')"
    and "\<not> snd (load_policy i db)" "\<forall>x \<in> set ops. op_keeps_trust i x"
  shows "(\<forall>s. load_selection i (state_run ops db') = Inr (Some s) \<longrightarrow> ss_signed s)
    \<and> (\<forall>q c. cache_identity (vp_identity q) = i \<longrightarrow> vp_keys q = [] \<longrightarrow>
         accept_publication c q (state_run ops db') = (Inr AC_consent_required, state_run ops db'))"
proof -
  have "db' = installed p db"
    using assms(4) by (auto simp: accept_publication_cases split: option.splits
        if_splits)
      (auto simp: accept_guard_def split: option.splits if_splits)
  then have "trusted i db'"
    using assms(1,2,3,5)
    by (auto simp: trusted_def installed_def identity_row_of_upsert row_trusted_def
        raw_of_event_value validated_def load_policy_def split: option.splits)
  then have "trusted i (state_run ops db')" using assms(6) by (rule trusted_run)
  then show ?thesis using trusted_load trusted_refuses by blast
qed


subsection \<open>Corrupt rows\<close>

lemma load_selection_clear:
  "load_selection j (clear_corrupt_selection i db) =
    (if j = i then Inr None else load_selection j db)"
  by (simp add: load_selection_def identity_row_of_clear split: option.split)

lemma load_policy_clear [simp]: "load_policy j (clear_corrupt_selection i db) = load_policy j db"
  by (auto simp: load_policy_def identity_row_of_clear split: option.split)

lemma load_rows_effect:
  assumes "load_rows is db = ((sels, bad), db')" "distinct is"
  shows "load_selection j db' = (if j \<in> set is
      then (case load_selection j db of Inl e \<Rightarrow> Inr None | Inr s \<Rightarrow> Inr s) else load_selection j db)"
    "load_policy j db' = load_policy j db"
    "sels = List.map_filter (\<lambda>j. case load_selection j db of Inl e \<Rightarrow> None | Inr s \<Rightarrow> s) is"
    "bad = List.map_filter (\<lambda>j. case load_selection j db of Inl e \<Rightarrow> Some (j, e) | Inr s \<Rightarrow> None) is"
  using assms
proof (induction "is" arbitrary: db sels bad)
  case Nil
  { case 1 then show ?case by simp }
  { case 2 then show ?case by simp }
  { case 3 then show ?case by simp }
  { case 4 then show ?case by simp }
next
  case (Cons i "is")
  have clear: "List.map_filter (\<lambda>j. case load_selection j (clear_corrupt_selection i db) of
        Inl e \<Rightarrow> f j e | Inr s \<Rightarrow> g s) is
      = List.map_filter (\<lambda>j. case load_selection j db of Inl e \<Rightarrow> f j e | Inr s \<Rightarrow> g s) is"
    if "i \<notin> set is"
    for db and f :: "jstr \<Rightarrow> state_error \<Rightarrow> 'c option" and g :: "stored_selection option \<Rightarrow> 'c option"
    using that by (intro map_filter_eq) (auto simp: load_selection_clear)
  have split_run: "\<exists>sels2 bad2.
      load_rows is (case load_selection i db of Inl e \<Rightarrow> clear_corrupt_selection i db | Inr s \<Rightarrow> db)
        = ((sels2, bad2), db')
      \<and> sels = (case load_selection i db of Inr (Some s) \<Rightarrow> s # sels2 | _ \<Rightarrow> sels2)
      \<and> bad = (case load_selection i db of Inl e \<Rightarrow> (i, e) # bad2 | _ \<Rightarrow> bad2)"
    if "load_rows (i # is) db = ((sels, bad), db')" for db sels bad
    using that by (auto simp: Let_def split: sum.splits prod.splits option.splits)
  { case 1
    then obtain sels2 bad2 where
      "load_rows is (case load_selection i db of Inl e \<Rightarrow> clear_corrupt_selection i db | Inr s \<Rightarrow> db)
        = ((sels2, bad2), db')" using split_run by blast
    from Cons.IH(1) [OF this] 1(2) show ?case
      by (cases "load_selection i db") (auto simp: load_selection_clear) }
  { case 2
    then obtain sels2 bad2 where
      "load_rows is (case load_selection i db of Inl e \<Rightarrow> clear_corrupt_selection i db | Inr s \<Rightarrow> db)
        = ((sels2, bad2), db')" using split_run by blast
    from Cons.IH(2) [OF this] 2(2) show ?case
      by (cases "load_selection i db") simp_all }
  { case 3
    then obtain sels2 bad2 where
      "load_rows is (case load_selection i db of Inl e \<Rightarrow> clear_corrupt_selection i db | Inr s \<Rightarrow> db)
        = ((sels2, bad2), db')"
      "sels = (case load_selection i db of Inr (Some s) \<Rightarrow> s # sels2 | _ \<Rightarrow> sels2)"
      using split_run by blast
    from Cons.IH(3) [OF this(1)] 3(2) this(2) show ?case
      by (cases "load_selection i db") (auto simp: clear split: option.splits) }
  { case 4
    then obtain sels2 bad2 where
      "load_rows is (case load_selection i db of Inl e \<Rightarrow> clear_corrupt_selection i db | Inr s \<Rightarrow> db)
        = ((sels2, bad2), db')"
      "bad = (case load_selection i db of Inl e \<Rightarrow> (i, e) # bad2 | _ \<Rightarrow> bad2)"
      using split_run by blast
    from Cons.IH(4) [OF this(1)] 4(2) this(2) show ?case
      by (cases "load_selection i db") (auto simp: clear split: option.splits) }
qed

text \<open>
  \<open>loadSelections\<close> recovers from corrupt rows: afterwards every identity loads without
  an error, the selections returned are exactly those that could be loaded, each corrupt row
  is reported and lost, and no row's trust history or consent has changed (so a corrupt row
  does not open a downgrade).
\<close>

theorem load_selections_recovers:
  assumes "load_selections db = ((sels, bad), db')" "pk ir_identity (sd_identities db)"
  shows "load_selection j db' = (case load_selection j db of Inl e \<Rightarrow> Inr None | Inr s \<Rightarrow> Inr s)
    \<and> load_policy j db' = load_policy j db
    \<and> (s \<in> set sels \<longleftrightarrow> (\<exists>i. load_selection i db = Inr (Some s)))
    \<and> ((i, e) \<in> set bad \<longleftrightarrow> load_selection i db = Inl e)"
proof -
  define ids where "ids = map ir_identity (filter (\<lambda>r. ir_event r \<noteq> None) (sd_identities db))"
  have run: "load_rows ids db = ((sels, bad), db')"
    using assms(1) by (simp add: load_selections_def ids_def)
  have d: "distinct ids" using assms(2) by (simp add: ids_def pk_def distinct_map_filter)
  have ids: "k \<in> set ids" if k: "load_selection k db \<noteq> Inr None" for k
  proof -
    obtain r where "identity_row_of k db = Some r" "ir_event r \<noteq> None"
      using k by (auto simp: load_selection_def split: option.splits)
    then show ?thesis
      using row_SomeD [of ir_identity k "sd_identities db" r]
      by (force simp: identity_row_of_def ids_def)
  qed
  note eff = load_rows_effect [OF run d]
  have "load_selection j db' = (case load_selection j db of Inl e \<Rightarrow> Inr None | Inr s \<Rightarrow> Inr s)"
    using eff(1) [of j] ids [of j] by (auto split: sum.splits)
  moreover have "(case load_selection k db of Inl e \<Rightarrow> None | Inr s \<Rightarrow> s) = Some s
      \<longleftrightarrow> load_selection k db = Inr (Some s)" for k
    by (cases "load_selection k db") auto
  then have "s \<in> set sels \<longleftrightarrow> (\<exists>i. load_selection i db = Inr (Some s))"
    unfolding eff(3) set_map_filter using ids by auto
  moreover have "(case load_selection k db of Inl e \<Rightarrow> Some (k, e) | Inr s \<Rightarrow> None) = Some (i, e)
      \<longleftrightarrow> k = i \<and> load_selection i db = Inl e" for k
    by (cases "load_selection k db") auto
  then have "(i, e) \<in> set bad \<longleftrightarrow> load_selection i db = Inl e"
    unfolding eff(4) set_map_filter using ids by auto
  ultimately show ?thesis using eff(2) by blast
qed


subsection \<open>Witnesses\<close>

definition empty_state :: state_db where
  "empty_state = \<lparr>sd_identities = [], sd_quarantine = []\<rparr>"

definition later_publication :: validated_publication where
  "later_publication = sample_publication\<lparr>vp_event :=
     sample_raw\<lparr>rp_created_at := V_Int 901, rp_id := js ''e1''\<rparr>\<rparr>"

definition sample_identity :: jstr where
  "sample_identity = cache_identity (vp_identity sample_publication)"

lemma sample_signed_for:
  "signed_for sample_identity sample_publication" "signed_for sample_identity later_publication"
proof -
  have v: "validated sample_publication"
    by (rule validate_publication_validated [OF sample_validates])
  then show "signed_for sample_identity sample_publication"
    by (simp add: signed_for_def sample_identity_def sample_publication_def sample_raw_def js_eval)
  have "event_signed (vp_event later_publication) = event_signed (vp_event sample_publication)"
    by (simp add: later_publication_def event_signed_def sample_publication_def)
  moreover have "storable_event (vp_event later_publication)"
    using v by (simp add: validated_def later_publication_def storable_event_def
        sample_publication_def safe_int_def max_safe_def)
  ultimately have "validated later_publication"
    using v by (simp add: validated_def later_publication_def)
  then show "signed_for sample_identity later_publication"
    by (simp add: signed_for_def sample_identity_def later_publication_def sample_publication_def
        js_eval)
qed



lemma sample_accepted:
  "accept_publication True sample_publication empty_state
    = (Inr (AC_accepted (Some (selection_of sample_publication))), installed sample_publication empty_state)"
proof -
  have "accept_guard sample_publication empty_state = None"
    by (simp add: accept_guard_def identity_row_of_def empty_state_def row_def)
  then show ?thesis
    using load_installed [of sample_publication empty_state] sample_signed_for(1)
    by (simp add: accept_publication_cases signed_for_def)
qed

lemma no_silent_downgrade_witness:
  "accept_publication True (sample_publication\<lparr>vp_keys := []\<rparr>)
      (state_run [SO_load_all, SO_accept True later_publication, SO_consent sample_identity False]
        (installed sample_publication empty_state))
    = (Inr AC_consent_required,
       state_run [SO_load_all, SO_accept True later_publication, SO_consent sample_identity False]
        (installed sample_publication empty_state))"
proof -
  have "\<not> snd (load_policy sample_identity empty_state)"
    by (simp add: load_policy_def identity_row_of_def empty_state_def row_def)
  then show ?thesis
    using no_silent_downgrade [OF _ _ _ sample_accepted, of sample_identity
        "[SO_load_all, SO_accept True later_publication, SO_consent sample_identity False]"]
      sample_signed_for
    by (simp add: signed_for_def)
qed

definition corrupt_state :: state_db where
  "corrupt_state = \<lparr>sd_identities = [\<lparr>ir_identity = js ''a'', ir_event = Some JT_bad,
     ir_created = Some 3, ir_event_id = Some (js ''e''), ir_signed = True, ir_consent = False\<rparr>],
     sd_quarantine = []\<rparr>"

lemma load_selections_recovers_witness:
  "load_policy (js ''a'') (snd (load_selections corrupt_state)) = (True, False)
    \<and> load_selection (js ''a'') (snd (load_selections corrupt_state)) = Inr None
    \<and> (js ''a'', SE_json) \<in> set (snd (fst (load_selections corrupt_state)))"
proof -
  have bad: "load_selection (js ''a'') corrupt_state = Inl SE_json"
    "load_policy (js ''a'') corrupt_state = (True, False)"
    by (simp_all add: load_selection_def load_policy_def identity_row_of_def corrupt_state_def row_def)
  have "pk ir_identity (sd_identities corrupt_state)" by (simp add: corrupt_state_def pk_def)
  moreover obtain sels bads db' where run: "load_selections corrupt_state = ((sels, bads), db')"
    by (metis prod.collapse)
  ultimately show ?thesis
    using load_selections_recovers [OF run, of "js ''a''" _ "js ''a''" SE_json] bad by simp
qed

end
