(* ===== verification/Budget.thy ===== *)
theory Budget
  imports Tables
begin

section \<open>The budget of a request (hashtree/reader.ts, RequestBudget)\<close>

text \<open>
  \<^verbatim>\<open>src/hashtree/reader.ts\<close>, class \<open>RequestBudget\<close>: the counters that bound what one
  request may traverse, fetch and emit. The limits are frozen at construction and are an
  argument of every operation; the private fields are the record \<open>budget\<close>. \<open>Date.now()\<close> is
  the clock of the environment: its readings are the sequence \<open>rb_clock\<close>, of which each
  call of \<open>#live\<close> takes the next.
\<close>

record traversal_limits =
  tl_max_depth :: int
  tl_max_links :: int
  tl_max_unique_nodes :: int
  tl_max_decoded_bytes :: int
  tl_max_attempts :: int
  tl_max_redirects :: int
  tl_max_concurrent :: int
  tl_max_blob_transfer_bytes :: int
  tl_max_transferred_bytes :: int
  tl_max_output_bytes :: int
  tl_deadline :: int

record budget =
  rb_links :: int
  rb_nodes :: "jstr list"
  rb_decoded :: int
  rb_attempts :: int
  rb_redirects :: int
  rb_concurrent :: int
  rb_transferred :: int
  rb_output :: int
  rb_permits :: "bool list"  \<comment> \<open>the \<open>held\<close> variable of each closure that \<open>acquire\<close> returned\<close>
  rb_clock :: "nat \<Rightarrow> int"
  rb_ticks :: nat

datatype budget_error =
    BE_deadline | BE_depth | BE_links | BE_nodes | BE_decoded | BE_attempts | BE_redirects
  | BE_transfer | BE_output | BE_concurrent | BE_range | BE_blob_size | BE_unsafe_size

type_synonym 'a budget_op = "(budget, budget_error, 'a) op"

text \<open>The constructor.\<close>

definition limit_values :: "traversal_limits \<Rightarrow> int list" where
  "limit_values l =
     [tl_max_depth l, tl_max_links l, tl_max_unique_nodes l, tl_max_decoded_bytes l,
      tl_max_attempts l, tl_max_redirects l, tl_max_concurrent l, tl_max_blob_transfer_bytes l,
      tl_max_transferred_bytes l, tl_max_output_bytes l, tl_deadline l]"

definition new_budget :: "traversal_limits \<Rightarrow> (nat \<Rightarrow> int) \<Rightarrow> budget_error + budget" where
  "new_budget l clock =
     (if list_ex (\<lambda>v. \<not> safe_int v \<or> v \<le> 0) (limit_values l) then Inl BE_range
      else Inr \<lparr>rb_links = 0, rb_nodes = [], rb_decoded = 0, rb_attempts = 0, rb_redirects = 0,
                rb_concurrent = 0, rb_transferred = 0, rb_output = 0, rb_permits = [],
                rb_clock = clock, rb_ticks = 0\<rparr>)"

subsection \<open>The operations\<close>

definition live :: "traversal_limits \<Rightarrow> unit budget_op" where
  "live l b =
     (if rb_clock b (rb_ticks b) \<ge> tl_deadline l then Inl BE_deadline else Inr (),
      b\<lparr>rb_ticks := Suc (rb_ticks b)\<rparr>)"

definition check_depth :: "traversal_limits \<Rightarrow> int \<Rightarrow> unit budget_op" where
  "check_depth l depth =
     op_bind (live l) (\<lambda>_ b. (if depth > tl_max_depth l then Inl BE_depth else Inr (), b))"

definition debit_links :: "traversal_limits \<Rightarrow> int \<Rightarrow> unit budget_op" where
  "debit_links l n =
     op_bind (live l) (\<lambda>_ b.
       if rb_links b + n > tl_max_links l then (Inl BE_links, b)
       else (Inr (), b\<lparr>rb_links := rb_links b + n\<rparr>))"

definition visit :: "traversal_limits \<Rightarrow> jstr \<Rightarrow> bool budget_op" where
  "visit l hash =
     op_bind (live l) (\<lambda>_ b.
       if hash \<in> set (rb_nodes b) then (Inr False, b)
       else if int (length (rb_nodes b)) \<ge> tl_max_unique_nodes l then (Inl BE_nodes, b)
       else (Inr True, b\<lparr>rb_nodes := rb_nodes b @ [hash]\<rparr>))"

definition debit_decoded :: "traversal_limits \<Rightarrow> int \<Rightarrow> unit budget_op" where
  "debit_decoded l n =
     op_bind (live l) (\<lambda>_ b.
       if rb_decoded b + n > tl_max_decoded_bytes l then (Inl BE_decoded, b)
       else (Inr (), b\<lparr>rb_decoded := rb_decoded b + n\<rparr>))"

definition debit_attempt :: "traversal_limits \<Rightarrow> unit budget_op" where
  "debit_attempt l =
     op_bind (live l) (\<lambda>_ b.
       if rb_attempts b \<ge> tl_max_attempts l then (Inl BE_attempts, b)
       else (Inr (), b\<lparr>rb_attempts := rb_attempts b + 1\<rparr>))"

definition debit_redirect :: "traversal_limits \<Rightarrow> unit budget_op" where
  "debit_redirect l =
     op_bind (live l) (\<lambda>_ b.
       if rb_redirects b \<ge> tl_max_redirects l then (Inl BE_redirects, b)
       else (Inr (), b\<lparr>rb_redirects := rb_redirects b + 1\<rparr>))"

definition remaining_transfer_bytes :: "traversal_limits \<Rightarrow> budget \<Rightarrow> int" where
  "remaining_transfer_bytes l b = tl_max_transferred_bytes l - rb_transferred b"

definition remaining_output_bytes :: "traversal_limits \<Rightarrow> budget \<Rightarrow> int" where
  "remaining_output_bytes l b = tl_max_output_bytes l - rb_output b"

definition debit_transfer :: "traversal_limits \<Rightarrow> int \<Rightarrow> unit budget_op" where
  "debit_transfer l n =
     op_bind (live l) (\<lambda>_ b.
       if \<not> safe_int n \<or> n < 0 then (Inl BE_range, b)
       else if n > remaining_transfer_bytes l b then (Inl BE_transfer, b)
       else (Inr (), b\<lparr>rb_transferred := rb_transferred b + n\<rparr>))"

definition ensure_output_available :: "traversal_limits \<Rightarrow> int \<Rightarrow> unit budget_op" where
  "ensure_output_available l n =
     op_bind (live l) (\<lambda>_ b.
       if \<not> safe_int n \<or> n < 0 then (Inl BE_range, b)
       else if n > remaining_output_bytes l b then (Inl BE_output, b)
       else (Inr (), b))"

definition debit_output :: "traversal_limits \<Rightarrow> int \<Rightarrow> unit budget_op" where
  "debit_output l n =
     op_bind (ensure_output_available l n)
       (\<lambda>_ b. (Inr (), b\<lparr>rb_output := rb_output b + n\<rparr>))"

text \<open>\<open>acquire\<close> returns a closure, here its index; \<open>release_permit\<close> is a call of the closure.\<close>

definition acquire :: "traversal_limits \<Rightarrow> nat budget_op" where
  "acquire l =
     op_bind (live l) (\<lambda>_ b.
       if rb_concurrent b \<ge> tl_max_concurrent l then (Inl BE_concurrent, b)
       else (Inr (length (rb_permits b)),
             b\<lparr>rb_concurrent := rb_concurrent b + 1, rb_permits := rb_permits b @ [True]\<rparr>))"

definition release_permit :: "nat \<Rightarrow> budget \<Rightarrow> budget" where
  "release_permit k b =
     (if k < length (rb_permits b) \<and> rb_permits b ! k
      then b\<lparr>rb_concurrent := rb_concurrent b - 1, rb_permits := (rb_permits b)[k := False]\<rparr>
      else b)"

lemmas budget_op_defs = check_depth_def debit_links_def visit_def debit_decoded_def debit_attempt_def
  debit_redirect_def debit_transfer_def ensure_output_available_def debit_output_def acquire_def

subsection \<open>The interface of a metered counter\<close>

text \<open>
  What every counter of the budget promises: an operation that debits \<open>n\<close> either fails and
  leaves the counter alone or adds \<open>n\<close> to it without passing the cap. The locale draws the
  conclusion for any sequence of such operations.
\<close>

locale metered =
  fixes debit :: "int \<Rightarrow> ('s, 'e, unit) op"
    and used :: "'s \<Rightarrow> int"
    and cap :: int
  assumes debit_ok: "debit n s = (Inr (), s') \<Longrightarrow> used s' = used s + n \<and> used s' \<le> cap"
    and debit_fails: "debit n s = (Inl e, s') \<Longrightarrow> used s' = used s"
begin

fun debits :: "int list \<Rightarrow> ('s, 'e, unit) op" where
  "debits [] s = (Inr (), s)"
| "debits (n # ns) s = op_bind (debit n) (\<lambda>_. debits ns) s"

lemma debits_total:
  "debits ns s = (Inr (), s') \<Longrightarrow> used s' = used s + sum_list ns \<and> (ns \<noteq> [] \<longrightarrow> used s' \<le> cap)"
proof (induction ns arbitrary: s)
  case (Cons n ns)
  then obtain t where t: "debit n s = (Inr (), t)" "debits ns t = (Inr (), s')"
    by (auto simp: op_bind_def split: prod.splits sum.splits)
  note ih = Cons.IH [OF t(2)] and d = debit_ok [OF t(1)]
  show ?case
  proof (cases ns)
    case Nil
    with t(2) d show ?thesis by simp
  next
    case (Cons m ms)
    with ih d show ?thesis by simp
  qed
qed simp

lemma debit_used_le: "used s \<le> cap \<Longrightarrow> used (snd (debit n s)) \<le> cap"
proof (cases "debit n s")
  case (Pair r s')
  moreover assume "used s \<le> cap"
  ultimately show ?thesis
    using debit_ok [of n s s'] debit_fails [of n s] by (cases r) auto
qed

end

lemma op_bind_live:
  "op_bind (live l) f b =
     (if rb_clock b (rb_ticks b) \<ge> tl_deadline l then (Inl BE_deadline, b\<lparr>rb_ticks := Suc (rb_ticks b)\<rparr>)
      else f () (b\<lparr>rb_ticks := Suc (rb_ticks b)\<rparr>))"
  by (simp add: op_bind_def live_def)

interpretation links: metered "debit_links l" rb_links "tl_max_links l" for l
  by unfold_locales (auto simp: debit_links_def op_bind_live split: if_splits)

interpretation decoded: metered "debit_decoded l" rb_decoded "tl_max_decoded_bytes l" for l
  by unfold_locales (auto simp: debit_decoded_def op_bind_live split: if_splits)

interpretation transfer: metered "debit_transfer l" rb_transferred "tl_max_transferred_bytes l" for l
  by unfold_locales
    (auto simp: debit_transfer_def op_bind_live remaining_transfer_bytes_def split: if_splits)

interpretation outputs: metered "debit_output l" rb_output "tl_max_output_bytes l" for l
  by unfold_locales
    (auto simp: debit_output_def ensure_output_available_def op_bind_def live_def
      remaining_output_bytes_def split: if_splits)

interpretation attempts: metered "\<lambda>n. if n = 1 then debit_attempt l else op_throw BE_range"
    rb_attempts "tl_max_attempts l" for l
  by unfold_locales (auto simp: debit_attempt_def op_bind_live op_throw_def split: if_splits)

interpretation redirects: metered "\<lambda>n. if n = 1 then debit_redirect l else op_throw BE_range"
    rb_redirects "tl_max_redirects l" for l
  by unfold_locales (auto simp: debit_redirect_def op_bind_live op_throw_def split: if_splits)

subsection \<open>The invariant\<close>

definition budget_ok :: "traversal_limits \<Rightarrow> budget \<Rightarrow> bool" where
  "budget_ok l b \<longleftrightarrow>
     rb_links b \<le> tl_max_links l \<and> distinct (rb_nodes b)
     \<and> int (length (rb_nodes b)) \<le> tl_max_unique_nodes l
     \<and> rb_decoded b \<le> tl_max_decoded_bytes l \<and> rb_attempts b \<le> tl_max_attempts l
     \<and> rb_redirects b \<le> tl_max_redirects l \<and> rb_transferred b \<le> tl_max_transferred_bytes l
     \<and> rb_output b \<le> tl_max_output_bytes l
     \<and> rb_concurrent b = int (length (filter id (rb_permits b)))
     \<and> rb_concurrent b \<le> tl_max_concurrent l"

lemma budget_ok_live [simp]: "budget_ok l (b\<lparr>rb_ticks := t\<rparr>) = budget_ok l b"
  by (simp add: budget_ok_def)

lemma budget_ok_simple:
  "keeps (budget_ok l) (check_depth l d)" "keeps (budget_ok l) (debit_links l n)"
  "keeps (budget_ok l) (visit l h)" "keeps (budget_ok l) (debit_decoded l n)"
  "keeps (budget_ok l) (debit_attempt l)" "keeps (budget_ok l) (debit_redirect l)"
  "keeps (budget_ok l) (debit_transfer l n)" "keeps (budget_ok l) (ensure_output_available l n)"
  "keeps (budget_ok l) (debit_output l n)" "keeps (budget_ok l) (acquire l)"
  by (auto simp: keeps_def budget_op_defs op_bind_live op_bind_def live_def budget_ok_def
      remaining_transfer_bytes_def remaining_output_bytes_def)

lemma filter_update_False:
  "k < length ps \<Longrightarrow> ps ! k \<Longrightarrow>
     int (length (filter id (ps[k := False]))) = int (length (filter id ps)) - 1"
proof (induction ps arbitrary: k)
  case (Cons p ps)
  then show ?case by (cases k) auto
qed simp

lemma budget_ok_release: "budget_ok l b \<Longrightarrow> budget_ok l (release_permit k b)"
  using filter_update_False [of k "rb_permits b"]
  by (auto simp: release_permit_def budget_ok_def)

lemmas budget_keeps [inv_intros] = budget_ok_simple budget_ok_release


subsection \<open>Sequences of calls\<close>

datatype budget_call =
    BC_depth int | BC_links int | BC_visit jstr | BC_decoded int | BC_attempt | BC_redirect
  | BC_transfer int | BC_available int | BC_output int | BC_acquire | BC_release nat

fun budget_step :: "traversal_limits \<Rightarrow> budget_call \<Rightarrow> budget \<Rightarrow> budget" where
  "budget_step l (BC_depth d) b = snd (check_depth l d b)"
| "budget_step l (BC_links n) b = snd (debit_links l n b)"
| "budget_step l (BC_visit h) b = snd (visit l h b)"
| "budget_step l (BC_decoded n) b = snd (debit_decoded l n b)"
| "budget_step l BC_attempt b = snd (debit_attempt l b)"
| "budget_step l BC_redirect b = snd (debit_redirect l b)"
| "budget_step l (BC_transfer n) b = snd (debit_transfer l n b)"
| "budget_step l (BC_available n) b = snd (ensure_output_available l n b)"
| "budget_step l (BC_output n) b = snd (debit_output l n b)"
| "budget_step l BC_acquire b = snd (acquire l b)"
| "budget_step l (BC_release k) b = release_permit k b"

definition budget_run :: "traversal_limits \<Rightarrow> budget_call list \<Rightarrow> budget \<Rightarrow> budget" where
  "budget_run l calls b = fold (budget_step l) calls b"

lemma budget_step_ok: "budget_ok l b \<Longrightarrow> budget_ok l (budget_step l c b)"
  using budget_keeps by (cases c) (auto simp: keeps_def)

lemma budget_run_keeps: "budget_ok l b \<Longrightarrow> budget_ok l (budget_run l calls b)"
  unfolding budget_run_def by (induction calls arbitrary: b) (simp_all add: budget_step_ok)

lemma new_budget_ok: "new_budget l clock = Inr b \<Longrightarrow> budget_ok l b"
  by (auto simp: new_budget_def budget_ok_def limit_values_def split: if_splits)

text \<open>
  The callers debit the number of links of a manifest, the bytes of a value that was decoded and
  the length of a piece: no negative amount. \<open>debit_transfer\<close> and \<open>debit_output\<close> refuse one,
  \<open>debit_links\<close> and \<open>debit_decoded\<close> do not look.
\<close>

fun counts_up :: "budget_call \<Rightarrow> bool" where
  "counts_up (BC_links n) = (0 \<le> n)"
| "counts_up (BC_decoded n) = (0 \<le> n)"
| "counts_up _ = True"

definition not_negative :: "budget \<Rightarrow> bool" where
  "not_negative b \<longleftrightarrow> 0 \<le> rb_links b \<and> 0 \<le> rb_decoded b \<and> 0 \<le> rb_attempts b \<and> 0 \<le> rb_redirects b
     \<and> 0 \<le> rb_transferred b \<and> 0 \<le> rb_output b \<and> 0 \<le> rb_concurrent b"

lemma debits_not_negative:
  "0 \<le> n \<Longrightarrow> keeps not_negative (debit_links l n)" "0 \<le> n \<Longrightarrow> keeps not_negative (debit_decoded l n)"
  "keeps not_negative (check_depth l d)" "keeps not_negative (visit l h)"
  "keeps not_negative (debit_attempt l)" "keeps not_negative (debit_redirect l)"
  "keeps not_negative (debit_transfer l n)" "keeps not_negative (ensure_output_available l n)"
  "keeps not_negative (debit_output l n)" "keeps not_negative (acquire l)"
  by (auto simp: keeps_def budget_op_defs op_bind_live op_bind_def live_def not_negative_def)

lemma release_not_negative: "budget_ok l b \<Longrightarrow> not_negative b \<Longrightarrow> not_negative (release_permit k b)"
  using budget_ok_release [of l b k] by (auto simp: budget_ok_def not_negative_def release_permit_def)

lemma step_not_negative:
  "budget_ok l b \<Longrightarrow> not_negative b \<Longrightarrow> counts_up c \<Longrightarrow> not_negative (budget_step l c b)"
  using debits_not_negative release_not_negative by (cases c) (auto simp: keeps_def)

lemma run_not_negative:
  "budget_ok l b \<Longrightarrow> not_negative b \<Longrightarrow> list_all counts_up calls \<Longrightarrow> not_negative (budget_run l calls b)"
  unfolding budget_run_def
  by (induction calls arbitrary: b) (simp_all add: budget_step_ok step_not_negative)

text \<open>
  C7: No sequence of calls on a fresh \<open>RequestBudget\<close>, whatever the clock reads and whichever
  calls throw, passes a limit: links, unique nodes, decoded bytes, attempts, redirects,
  transferred and emitted bytes stay at most at theirs; the concurrency counter is always the
  number of permits that are held, so calling the release closure of a permit twice does not
  return it twice, and at most \<open>maxConcurrent\<close> are held. When no call debits a negative number
  of links or decoded bytes, every counter also stays at zero or above.
\<close>

theorem budget_within_limits:
  assumes "new_budget l clock = Inr b"
  shows "budget_ok l (budget_run l calls b)
    \<and> (list_all counts_up calls \<longrightarrow> not_negative (budget_run l calls b))"
proof -
  have "not_negative b"
    using assms by (auto simp: new_budget_def not_negative_def split: if_splits)
  then show ?thesis using budget_run_keeps run_not_negative new_budget_ok [OF assms] by blast
qed

definition sample_traversal :: traversal_limits where
  "sample_traversal = \<lparr>tl_max_depth = 32, tl_max_links = 2, tl_max_unique_nodes = 4,
     tl_max_decoded_bytes = 100, tl_max_attempts = 3, tl_max_redirects = 1, tl_max_concurrent = 1,
     tl_max_blob_transfer_bytes = 64, tl_max_transferred_bytes = 100, tl_max_output_bytes = 50,
     tl_deadline = 10\<rparr>"

lemma budget_within_limits_witness:
  "rb_links (budget_run sample_traversal [BC_links 2, BC_acquire, BC_links 1, BC_acquire, BC_release 0,
      BC_release 0] (projr (new_budget sample_traversal (\<lambda>_. 5)))) = 2
    \<and> budget_ok sample_traversal (budget_run sample_traversal [BC_links 2, BC_acquire, BC_links 1,
        BC_acquire, BC_release 0, BC_release 0] (projr (new_budget sample_traversal (\<lambda>_. 5))))
    \<and> not_negative (budget_run sample_traversal [BC_links 2, BC_acquire, BC_links 1, BC_acquire,
        BC_release 0, BC_release 0] (projr (new_budget sample_traversal (\<lambda>_. 5))))"
proof -
  have "new_budget sample_traversal (\<lambda>_. 5) = Inr (projr (new_budget sample_traversal (\<lambda>_. 5)))"
    by (simp add: new_budget_def limit_values_def sample_traversal_def safe_int_def max_safe_def)
  from budget_within_limits [OF this, of "[BC_links 2, BC_acquire, BC_links 1, BC_acquire, BC_release 0,
      BC_release 0]"]
  show ?thesis
    by (simp add: budget_run_def new_budget_def limit_values_def sample_traversal_def safe_int_def
        max_safe_def budget_op_defs op_bind_live release_permit_def)
qed

end
