(* ===== verification/Utf8_Order.thy ===== *)
theory Utf8_Order
  imports Prelude
begin

section \<open>When the two string orders agree\<close>

text \<open>
  The program compares names by their UTF-8 bytes where it validates and builds directories,
  and by JavaScript's \<open><\<close>, which compares UTF-16 code units, where it searches a fanout. The
  two orders agree on strings without surrogates (all of the basic plane), and only there.
\<close>

definition plain :: "jstr \<Rightarrow> bool" where
  "plain s \<longleftrightarrow> (\<forall>u \<in> set s. u < 0xD800 \<or> (0xE000 \<le> u \<and> u < 0x10000))"

lemma plain_simps [simp]:
  "plain []" "plain (u # s) \<longleftrightarrow> (u < 0xD800 \<or> (0xE000 \<le> u \<and> u < 0x10000)) \<and> plain s"
  by (auto simp: plain_def)

lemma scalars_plain: "plain s \<Longrightarrow> scalars s = s"
  by (induction s rule: scalars.induct) (auto simp: high_surrogate_def low_surrogate_def)

lemma utf8_plain: "plain s \<Longrightarrow> utf8 s = concat (map utf8_scalar s)"
  by (simp add: utf8_def scalars_plain)

lemma digit_less:
  fixes u v n :: nat
  assumes "u < v" "0 < n"
  shows "u div n < v div n \<or> (u div n = v div n \<and> u mod n < v mod n)"
proof -
  have "u div n \<le> v div n" using assms by (simp add: div_le_mono)
  moreover have "u mod n < v mod n" if "u div n = v div n"
    using assms(1) that by (metis add_less_cancel_left div_mult_mod_eq)
  ultimately show ?thesis by linarith
qed

lemma utf8_scalar_cases:
  "c < 0x80 \<Longrightarrow> utf8_scalar c = [c]"
  "0x80 \<le> c \<Longrightarrow> c < 0x800 \<Longrightarrow> utf8_scalar c = [192 + c div 64, 128 + c mod 64]"
  "0x800 \<le> c \<Longrightarrow> c < 0x10000 \<Longrightarrow> utf8_scalar c =
     [224 + c div 64 div 64, 128 + c div 64 mod 64, 128 + c mod 64]"
  by (simp_all add: utf8_scalar_def div_mult2_eq [symmetric])

lemma utf8_scalar_less:
  assumes "u < v" "v < 0x10000"
  shows "utf8_scalar u @ xs < utf8_scalar v @ ys"
proof -
  note d = digit_less [OF assms(1), of 64]
  consider (a) "u < 0x80" | (b) "0x80 \<le> u" "u < 0x800" | (c) "0x800 \<le> u" by linarith
  then show ?thesis
  proof cases
    case a
    consider "v < 0x80" | "0x80 \<le> v" "v < 0x800" | "0x800 \<le> v" by linarith
    then show ?thesis using a assms by cases (simp_all add: utf8_scalar_cases)
  next
    case b
    have "u div 64 < 32" using b(2) by (simp add: less_mult_imp_div_less)
    consider "v < 0x800" | "0x800 \<le> v" by linarith
    then show ?thesis
    proof cases
      case 1
      then show ?thesis using b assms d by (auto simp: utf8_scalar_cases)
    next
      case 2
      then show ?thesis using b assms \<open>u div 64 < 32\<close> by (simp add: utf8_scalar_cases)
    qed
  next
    case c
    have "u div 64 < v div 64 \<Longrightarrow> u div 64 div 64 < v div 64 div 64
        \<or> (u div 64 div 64 = v div 64 div 64 \<and> u div 64 mod 64 < v div 64 mod 64)"
      using digit_less [of "u div 64" "v div 64" 64] by simp
    then show ?thesis using c assms d by (auto simp: utf8_scalar_cases)
  qed
qed

lemma utf8_less_plain:
  "plain a \<Longrightarrow> plain b \<Longrightarrow> utf8 a < utf8 b \<longleftrightarrow> a < b"
proof (induction a arbitrary: b)
  case Nil
  have "utf8_scalar c \<noteq> []" for c by (simp add: utf8_scalar_def)
  with Nil show ?case
    by (cases b) (simp_all add: utf8_plain Nil_less_iff)
next
  case (Cons u a)
  show ?case
  proof (cases b)
    case Nil
    then show ?thesis by (simp add: utf8_plain)
  next
    case (Cons v b')
    have ub: "u < 0x10000" "v < 0x10000" using Cons.prems Cons by auto
    have ih: "utf8 a < utf8 b' \<longleftrightarrow> a < b'" using Cons.IH Cons.prems Cons by simp
    have e: "utf8 (u # a) = utf8_scalar u @ utf8 a" "utf8 b = utf8_scalar v @ utf8 b'"
      using Cons.prems Cons by (simp_all add: utf8_plain)
    consider "u < v" | "v < u" | "u = v" by linarith
    then show ?thesis
    proof cases
      case 1
      then show ?thesis using utf8_scalar_less [OF 1 ub(2)] e Cons by simp
    next
      case 2
      then have "\<not> utf8 (u # a) < utf8 b"
        using utf8_scalar_less [OF 2 ub(1)] e by (metis order_less_asym')
      with 2 Cons show ?thesis by simp
    next
      case 3
      have "utf8_scalar v @ xs < utf8_scalar v @ ys \<longleftrightarrow> xs < ys" for xs ys
        by (simp add: utf8_scalar_def)
      with 3 show ?thesis using e Cons ih by simp
    qed
  qed
qed

lemma utf8_le_plain: "plain a \<Longrightarrow> plain b \<Longrightarrow> utf8 a \<le> utf8 b \<longleftrightarrow> a \<le> b"
  using utf8_less_plain [of b a] by (simp add: linorder_not_less [symmetric])

end
