(* ===== verification/Reader.thy ===== *)
theory Reader
  imports Budget Hashtree_Codec Utf8_Order
begin

section \<open>Resolving paths in an authenticated tree (hashtree/reader.ts, PathResolver)\<close>

text \<open>
  \<^verbatim>\<open>src/hashtree/reader.ts\<close>: a path is resolved from a root hash by fetching one manifest
  after the other, all under one budget. A request has the state \<open>rstate\<close>: its budget, the
  map \<open>manifests\<close> of the request, and the world outside (network, disk), of which nothing is
  known. The blob fetcher and the shared manifest cache are other components: they are
  functions of the record \<open>reader_env\<close>, which may use the budget and change the world. The
  awaits of one request follow each other, so a request is one sequence of steps.
\<close>

record blob_limits =
  bl_max_attempts :: int
  bl_max_transfer :: int
  bl_declared :: "int option"

text \<open>A fetched blob: what its stream yields, piece by piece, and its size.\<close>

record blob =
  vb_pieces :: "bytes list"
  vb_size :: int

datatype reader_error =
    RE_budget budget_error
  | RE_manifest manifest_error
  | RE_fetch "jstr list"  \<comment> \<open>a failed fetch, with the sources that failed\<close>
  | RE_aborted
  | RE_absent
  | RE_type
  | RE_directory
  | RE_not_file
  | RE_child
  | RE_nested_size
  | RE_file_size
  | RE_nar "jstr list"
  | RE_stream_changed
  | RE_stream_exceeds

record 'w rstate =
  rs_budget :: budget
  rs_manifests :: "(jstr, manifest) jmap"
  rs_world :: 'w

type_synonym ('w, 'a) rop = "('w rstate, reader_error, 'a) op"

record 'w reader_env =
  re_limits :: traversal_limits
  re_manifest_limits :: manifest_limits
  re_mp_decode :: "bytes \<Rightarrow> jsval option"
  re_mp_encode :: "jsval \<Rightarrow> bytes option"
  re_fetch :: "blob_limits \<Rightarrow> jstr \<Rightarrow> (budget \<times> 'w, reader_error, blob) op"
  re_shared :: "(jstr \<Rightarrow> (budget \<times> 'w, reader_error, validated_manifest) op
                  \<Rightarrow> (budget \<times> 'w, reader_error, validated_manifest) op) option"
  re_aborted :: "'w \<Rightarrow> bool"

subsection \<open>Lifting\<close>

text \<open>A budget operation in a request, and an operation on budget and world.\<close>

definition with_budget :: "'a budget_op \<Rightarrow> ('w, 'a) rop" where
  "with_budget f st =
     (case f (rs_budget st) of
        (Inl e, b) \<Rightarrow> (Inl (RE_budget e), st\<lparr>rs_budget := b\<rparr>)
      | (Inr a, b) \<Rightarrow> (Inr a, st\<lparr>rs_budget := b\<rparr>))"

definition with_world :: "(budget \<times> 'w, reader_error, 'a) op \<Rightarrow> ('w, 'a) rop" where
  "with_world f st =
     (case f (rs_budget st, rs_world st) of
        (r, (b, w)) \<Rightarrow> (r, st\<lparr>rs_budget := b, rs_world := w\<rparr>))"

subsection \<open>Fetching\<close>

text \<open>\<open>#fetch\<close>: a permit is held while the blob is fetched and returned in any case.\<close>

definition fetch_blob ::
  "'w reader_env \<Rightarrow> jstr \<Rightarrow> int option \<Rightarrow> int \<Rightarrow> (budget \<times> 'w, reader_error, blob) op" where
  "fetch_blob env hash declared ceiling = (\<lambda>(b, w).
     (let l = re_limits env in
      if (case declared of None \<Rightarrow> False | Some d \<Rightarrow> d > tl_max_blob_transfer_bytes l)
      then (Inl (RE_budget BE_blob_size), (b, w))
      else (case acquire l b of
          (Inl e, b1) \<Rightarrow> (Inl (RE_budget e), (b1, w))
        | (Inr permit, b1) \<Rightarrow>
            let m = min (min (tl_max_blob_transfer_bytes l) (remaining_transfer_bytes l b1))
                        (min ceiling (case declared of None \<Rightarrow> max_safe | Some d \<Rightarrow> d)) in
            if m \<le> 0 then (Inl (RE_budget BE_transfer), (release_permit permit b1, w))
            else (case re_fetch env \<lparr>bl_max_attempts = tl_max_attempts l, bl_max_transfer = m,
                        bl_declared = declared\<rparr> hash (b1, w) of
                    (r, (b2, w2)) \<Rightarrow> (r, (release_permit permit b2, w2))))))"

definition load_manifest ::
  "'w reader_env \<Rightarrow> jstr \<Rightarrow> (budget \<times> 'w, reader_error, validated_manifest) op" where
  "load_manifest env hash =
     op_bind (fetch_blob env hash None (max_wire_bytes (re_manifest_limits env))) (\<lambda>blob s.
       (case decode_validated_manifest (re_mp_decode env) (re_mp_encode env)
               (concat (vb_pieces blob)) (re_manifest_limits env) of
          Inl e \<Rightarrow> (Inl (RE_manifest e), s)
        | Inr vm \<Rightarrow> (Inr vm, s)))"

text \<open>\<open>#manifest\<close>.\<close>

definition manifest_of :: "'w reader_env \<Rightarrow> jstr \<Rightarrow> ('w, manifest) rop" where
  "manifest_of env hash st =
     (case map_of (rs_manifests st) hash of Some m \<Rightarrow> (Inr m, st)
      | None \<Rightarrow>
        op_bind (with_budget (visit (re_limits env) hash)) (\<lambda>_.
        op_bind (with_world (case re_shared env of
                    None \<Rightarrow> load_manifest env hash
                  | Some shared \<Rightarrow> shared hash (load_manifest env hash))) (\<lambda>vm.
        op_bind (with_budget (debit_decoded (re_limits env) (vm_decoded_bytes vm))) (\<lambda>_ s.
          (Inr (vm_manifest vm),
           s\<lparr>rs_manifests := AList.update hash (vm_manifest vm) (rs_manifests s)\<rparr>)))) st)"

subsection \<open>File plans\<close>

type_synonym chunk = "jstr \<times> int"

fun plan_links ::
  "'w reader_env \<Rightarrow> (jstr \<Rightarrow> ('w, int \<times> chunk list) rop) \<Rightarrow> manifest_link list
    \<Rightarrow> int \<Rightarrow> chunk list \<Rightarrow> ('w, int \<times> chunk list) rop" where
  "plan_links env child [] acc chunks st = (Inr (acc, chunks), st)"
| "plan_links env child (l # ls) acc chunks st =
     (case (case ml_type l of
              L_Blob \<Rightarrow> (Inr (ml_size l, [(to_hex (ml_hash l), ml_size l)]), st)
            | L_File \<Rightarrow>
                (case child (to_hex (ml_hash l)) st of
                   (Inl e, s) \<Rightarrow> (Inl e, s)
                 | (Inr (n, cs), s) \<Rightarrow>
                     if ml_size l \<noteq> n then (Inl RE_nested_size, s) else (Inr (n, cs), s))
            | _ \<Rightarrow> (Inl RE_child, st)) of
        (Inl e, s) \<Rightarrow> (Inl e, s)
      | (Inr (n, cs), s) \<Rightarrow>
          if \<not> safe_int (acc + n) then (Inl (RE_budget BE_unsafe_size), s)
          else (case with_budget (ensure_output_available (re_limits env) (acc + n)) s of
                  (Inl e, s') \<Rightarrow> (Inl e, s')
                | (Inr _, s') \<Rightarrow> plan_links env child ls (acc + n) (chunks @ cs) s'))"

lemma with_budget_depth:
  "with_budget (check_depth l d) st = (Inr u, st') \<Longrightarrow> d \<le> tl_max_depth l"
  by (auto simp: with_budget_def check_depth_def op_bind_live split: if_splits)

function plan_visit :: "'w reader_env \<Rightarrow> jstr \<Rightarrow> int \<Rightarrow> ('w, int \<times> chunk list) rop" where
  "plan_visit env hash depth st =
     (if re_aborted env (rs_world st) then (Inl RE_aborted, st)
      else (case with_budget (check_depth (re_limits env) depth) st of
        (Inl e, s) \<Rightarrow> (Inl e, s)
      | (Inr u, s) \<Rightarrow>
        (case manifest_of env hash s of
          (Inl e, s1) \<Rightarrow> (Inl e, s1)
        | (Inr m, s1) \<Rightarrow>
            if m_type m \<noteq> M_File then (Inl RE_not_file, s1)
            else (case with_budget (debit_links (re_limits env) (int (length (m_links m)))) s1 of
                    (Inl e, s2) \<Rightarrow> (Inl e, s2)
                  | (Inr v, s2) \<Rightarrow>
                      plan_links env (\<lambda>h. plan_visit env h (depth + 1)) (m_links m) 0 [] s2))))"
  by pat_completeness auto
termination
  by (relation "measure (\<lambda>(env, hash, depth, st). nat (tl_max_depth (re_limits env) + 1 - depth))")
    (auto dest: with_budget_depth [OF sym])

declare plan_visit.simps [simp del]

definition file_plan :: "'w reader_env \<Rightarrow> jstr \<Rightarrow> int \<Rightarrow> ('w, int \<times> chunk list) rop" where
  "file_plan env hash expected st =
     (case plan_visit env hash 1 st of
        (Inl e, s) \<Rightarrow> (Inl e, s)
      | (Inr (n, cs), s) \<Rightarrow> if expected \<noteq> n then (Inl RE_file_size, s) else (Inr (n, cs), s))"

subsection \<open>Streams\<close>

text \<open>
  \<open>cleanupStream\<close> read to its end: the pieces of the blob pass through while their acc
  stays within the expected size and the output budget. The result is what was emitted and
  how it ended.
\<close>

fun clean_pieces ::
  "'w reader_env \<Rightarrow> int \<Rightarrow> int \<Rightarrow> bytes list \<Rightarrow> 'w rstate \<Rightarrow> (bytes list \<times> reader_error option) \<times> 'w rstate"
where
  "clean_pieces env expected emitted [] st =
     (([], if emitted \<noteq> expected then Some RE_stream_changed else None), st)"
| "clean_pieces env expected emitted (p # ps) st =
     (if emitted + int (length p) > expected then (([], Some RE_stream_exceeds), st)
      else (case with_budget (debit_output (re_limits env) (int (length p))) st of
              (Inl e, s) \<Rightarrow> (([], Some e), s)
            | (Inr _, s) \<Rightarrow>
                (case clean_pieces env expected (emitted + int (length p)) ps s of
                   ((out, r), s') \<Rightarrow> ((p # out, r), s'))))"

text \<open>\<open>#rawStream\<close>, and \<open>#fileStream\<close> read to its end.\<close>

definition raw_stream :: "'w reader_env \<Rightarrow> jstr \<Rightarrow> int \<Rightarrow> ('w, blob) rop" where
  "raw_stream env hash n =
     with_world (fetch_blob env hash (Some n) (tl_max_blob_transfer_bytes (re_limits env)))"

fun file_stream ::
  "'w reader_env \<Rightarrow> chunk list \<Rightarrow> 'w rstate \<Rightarrow> (bytes list \<times> reader_error option) \<times> 'w rstate"
where
  "file_stream env [] st = (([], None), st)"
| "file_stream env ((h, n) # cs) st =
     (case raw_stream env h n st of
        (Inl e, s) \<Rightarrow> (([], Some e), s)
      | (Inr blob, s) \<Rightarrow>
          (case clean_pieces env n 0 (vb_pieces blob) s of
             ((out, Some e), s') \<Rightarrow> ((out, Some e), s')
           | ((out, None), s') \<Rightarrow>
               (case file_stream env cs s' of ((out', r), s'') \<Rightarrow> ((out @ out', r), s''))))"

subsection \<open>Resolving\<close>

datatype body = B_none | B_raw blob int | B_chunks "chunk list"

record resolved =
  rv_hash :: jstr
  rv_size :: int
  rv_type :: link_type
  rv_body :: body

definition code_unit_range :: "jstr \<Rightarrow> manifest_link \<Rightarrow> bool" where
  "code_unit_range segment l =
     (case ml_metadata l of None \<Rightarrow> False
      | Some p \<Rightarrow> (case (prop_text p ''first'', prop_text p ''last'') of
          (Some lo, Some hi) \<Rightarrow> lo \<le> segment \<and> segment \<le> hi | _ \<Rightarrow> False))"

definition find_link :: "manifest \<Rightarrow> jstr \<Rightarrow> manifest_link option" where
  "find_link m segment =
     (if m_type m = M_Directory then find (\<lambda>l. ml_name l = Some segment) (m_links m)
      else find (code_unit_range segment) (m_links m))"

text \<open>\<open>blobFailureSources\<close>, and what the \<open>catch\<close> of the final segment throws.\<close>

definition failure_sources :: "reader_error \<Rightarrow> jstr list" where
  "failure_sources e = (case e of RE_fetch srcs \<Rightarrow> srcs | _ \<Rightarrow> [])"

definition wrap_final :: "reader_error \<Rightarrow> reader_error" where
  "wrap_final e = (if failure_sources e = [] then e else RE_nar (failure_sources e))"

definition resolve_final :: "'w reader_env \<Rightarrow> bool \<Rightarrow> manifest_link \<Rightarrow> ('w, resolved) rop" where
  "resolve_final env head l st =
     (let hash = to_hex (ml_hash l);
          r = (case ml_type l of
                 L_Blob \<Rightarrow>
                   if head then (Inr (ml_size l, B_none), st)
                   else (case raw_stream env hash (ml_size l) st of
                           (Inl e, s) \<Rightarrow> (Inl e, s)
                         | (Inr blob, s) \<Rightarrow> (Inr (ml_size l, B_raw blob (ml_size l)), s))
               | L_File \<Rightarrow>
                   (case file_plan env hash (ml_size l) st of
                      (Inl e, s) \<Rightarrow> (Inl e, s)
                    | (Inr (n, cs), s) \<Rightarrow> (Inr (n, if head then B_none else B_chunks cs), s))
               | _ \<Rightarrow> (Inl RE_directory, st)) in
      (case r of
         (Inl e, s) \<Rightarrow> (Inl (wrap_final e), s)
       | (Inr (n, body), s) \<Rightarrow>
           (Inr \<lparr>rv_hash = hash, rv_size = n, rv_type = ml_type l, rv_body = body\<rparr>, s)))"

text \<open>A turn of the loop up to the search: depth, manifest, its type, its links.\<close>

definition enter_manifest :: "'w reader_env \<Rightarrow> jstr \<Rightarrow> link_type \<Rightarrow> int \<Rightarrow> ('w, manifest) rop" where
  "enter_manifest env hash expected depth =
     op_bind (with_budget (check_depth (re_limits env) depth)) (\<lambda>_.
     op_bind (manifest_of env hash) (\<lambda>m s.
       if (expected = L_Directory \<and> m_type m \<noteq> M_Directory)
          \<or> (expected = L_Fanout \<and> m_type m \<noteq> M_Fanout)
       then (Inl RE_type, s)
       else op_bind (with_budget (debit_links (re_limits env) (int (length (m_links m)))))
              (\<lambda>_ s. (Inr m, s)) s))"

lemma enter_manifest_depth:
  "enter_manifest env hash expected d st = (Inr m, st') \<Longrightarrow> d \<le> tl_max_depth (re_limits env)"
  by (auto simp: enter_manifest_def op_bind_def dest: with_budget_depth split: prod.splits sum.splits)

text \<open>The loop of \<open>resolve\<close>; the segments that are left are the argument.\<close>

function resolve_loop ::
  "'w reader_env \<Rightarrow> bool \<Rightarrow> jstr list \<Rightarrow> jstr \<Rightarrow> link_type \<Rightarrow> int \<Rightarrow> ('w, resolved) rop" where
  "resolve_loop env head segments hash expected depth st =
     (case enter_manifest env hash expected (depth + 1) st of
        (Inl e, s) \<Rightarrow> (Inl e, s)
      | (Inr m, s) \<Rightarrow>
          (case find_link m (hd segments) of None \<Rightarrow> (Inl RE_absent, s)
          | Some l \<Rightarrow>
              if m_type m = M_Fanout
              then resolve_loop env head segments (to_hex (ml_hash l)) (ml_type l) (depth + 1) s
              else if length segments = 1 then resolve_final env head l s
              else if ml_type l \<noteq> L_Directory \<and> ml_type l \<noteq> L_Fanout then (Inl RE_absent, s)
              else resolve_loop env head (tl segments) (to_hex (ml_hash l)) (ml_type l)
                     (depth + 1) s))"
  by pat_completeness auto
termination
  by (relation "measure (\<lambda>(env, head, segments, hash, expected, depth, st).
      nat (tl_max_depth (re_limits env) - depth))")
    (auto dest: enter_manifest_depth [OF sym])

declare resolve_loop.simps [simp del]

definition path_segments :: "jstr \<Rightarrow> jstr list" where
  "path_segments path = filter (\<lambda>s. s \<noteq> []) (split_on 47 path)"

definition resolve :: "'w reader_env \<Rightarrow> jstr \<Rightarrow> jstr \<Rightarrow> bool \<Rightarrow> budget \<Rightarrow> 'w \<Rightarrow>
    (reader_error + resolved) \<times> 'w rstate" where
  "resolve env root path head b w =
     (let st = \<lparr>rs_budget = b, rs_manifests = [], rs_world = w\<rparr> in
      if path_segments path = [] then (Inl RE_absent, st)
      else resolve_loop env head (path_segments path) root L_Directory 0 st)"


subsection \<open>The tree that the hashes authenticate\<close>

text \<open>
  The specification does not mention requests: \<open>content\<close> gives the bytes of a hash, and
  \<open>manifest_at\<close> the manifest they decode to. A link is located by walking directories by name
  and fanouts by range; a file is the list of the blobs of its manifests in order.
\<close>

definition manifest_at :: "'w reader_env \<Rightarrow> (jstr \<Rightarrow> bytes option) \<Rightarrow> jstr \<Rightarrow> manifest option" where
  "manifest_at env content h =
     (case content h of None \<Rightarrow> None
      | Some w \<Rightarrow>
          (case decode_validated_manifest (re_mp_decode env) (re_mp_encode env) w
                  (re_manifest_limits env) of Inl e \<Rightarrow> None | Inr vm \<Rightarrow> Some (vm_manifest vm)))"

inductive locates :: "(jstr \<Rightarrow> manifest option) \<Rightarrow> jstr \<Rightarrow> link_type \<Rightarrow> jstr list \<Rightarrow> manifest_link \<Rightarrow> bool"
  for tree where
  locates_here: "tree h = Some m \<Longrightarrow> m_type m = M_Directory \<Longrightarrow> l \<in> set (m_links m)
    \<Longrightarrow> ml_name l = Some s \<Longrightarrow> locates tree h L_Directory [s] l"
| locates_below: "tree h = Some m \<Longrightarrow> m_type m = M_Directory \<Longrightarrow> d \<in> set (m_links m)
    \<Longrightarrow> ml_name d = Some s \<Longrightarrow> ml_type d = L_Directory \<or> ml_type d = L_Fanout
    \<Longrightarrow> locates tree (to_hex (ml_hash d)) (ml_type d) (t # ts) l
    \<Longrightarrow> locates tree h L_Directory (s # t # ts) l"
| locates_fanout: "tree h = Some m \<Longrightarrow> m_type m = M_Fanout \<Longrightarrow> d \<in> set (m_links m)
    \<Longrightarrow> code_unit_range s d \<Longrightarrow> locates tree (to_hex (ml_hash d)) (ml_type d) (s # ts) l
    \<Longrightarrow> locates tree h L_Fanout (s # ts) l"

inductive_cases locates_fanoutE: "locates tree h L_Fanout ss l"
inductive_cases locates_directoryE: "locates tree h L_Directory ss l"
inductive_cases locates_otherE: "locates tree h L_Blob ss l" "locates tree h L_File ss l"

inductive file_chunks :: "(jstr \<Rightarrow> manifest option) \<Rightarrow> jstr \<Rightarrow> int \<Rightarrow> chunk list \<Rightarrow> bool"
  and links_chunks :: "(jstr \<Rightarrow> manifest option) \<Rightarrow> manifest_link list \<Rightarrow> int \<Rightarrow> chunk list \<Rightarrow> bool"
  for tree where
  file_chunks_intro: "tree h = Some m \<Longrightarrow> m_type m = M_File \<Longrightarrow> links_chunks tree (m_links m) n cs
    \<Longrightarrow> file_chunks tree h n cs"
| links_chunks_Nil: "links_chunks tree [] 0 []"
| links_chunks_blob: "ml_type l = L_Blob \<Longrightarrow> links_chunks tree ls n cs
    \<Longrightarrow> links_chunks tree (l # ls) (ml_size l + n) ((to_hex (ml_hash l), ml_size l) # cs)"
| links_chunks_file: "ml_type l = L_File \<Longrightarrow> file_chunks tree (to_hex (ml_hash l)) (ml_size l) ds
    \<Longrightarrow> links_chunks tree ls n cs \<Longrightarrow> links_chunks tree (l # ls) (ml_size l + n) (ds @ cs)"

text \<open>
  What the fetcher and the shared cache promise: a fetched blob has the bytes of its hash,
  and a cached manifest is the one those bytes decode to; neither throws \<open>VerifiedAbsent\<close>,
  the error by which only path resolution reports absence.
\<close>

definition faithful :: "'w reader_env \<Rightarrow> (jstr \<Rightarrow> bytes option) \<Rightarrow> bool" where
  "faithful env content \<longleftrightarrow>
     (\<forall>bl h s blob s'. re_fetch env bl h s = (Inr blob, s')
        \<longrightarrow> content h = Some (concat (vb_pieces blob)))
     \<and> (\<forall>bl h s. fst (re_fetch env bl h s) \<noteq> Inl RE_absent)
     \<and> (\<forall>f h s. re_shared env = Some f \<longrightarrow> fst (f h (load_manifest env h) s) \<noteq> Inl RE_absent)
     \<and> (\<forall>f h s vm s'. re_shared env = Some f \<longrightarrow> f h (load_manifest env h) s = (Inr vm, s')
        \<longrightarrow> manifest_at env content h = Some (vm_manifest vm))"

subsection \<open>Every manifest a request uses is authenticated\<close>

definition manifests_ok :: "'w reader_env \<Rightarrow> (jstr \<Rightarrow> bytes option) \<Rightarrow> 'w rstate \<Rightarrow> bool" where
  "manifests_ok env content st \<longleftrightarrow>
     (\<forall>h m. map_of (rs_manifests st) h = Some m \<longrightarrow> manifest_at env content h = Some m)"

lemma with_budget_manifests: "with_budget f st = (r, st') \<Longrightarrow> rs_manifests st' = rs_manifests st"
  by (auto simp: with_budget_def split: prod.splits sum.splits)

lemma with_world_manifests: "with_world f st = (r, st') \<Longrightarrow> rs_manifests st' = rs_manifests st"
  by (auto simp: with_world_def split: prod.splits)

lemma manifests_ok_cong:
  "rs_manifests st' = rs_manifests st \<Longrightarrow> manifests_ok env content st' = manifests_ok env content st"
  by (simp add: manifests_ok_def)

lemmas manifests_ok_budget = manifests_ok_cong [OF with_budget_manifests]
lemmas manifests_ok_world = manifests_ok_cong [OF with_world_manifests]

lemma with_budget_absent: "with_budget f st = (r, st') \<Longrightarrow> r \<noteq> Inl RE_absent"
  by (auto simp: with_budget_def split: prod.splits sum.splits)

lemma op_bind_cases:
  "op_bind f g s = (r, s') \<Longrightarrow>
     (\<exists>e. f s = (Inl e, s') \<and> r = Inl e) \<or> (\<exists>a t. f s = (Inr a, t) \<and> g a t = (r, s'))"
  by (auto simp: op_bind_def split: prod.splits sum.splits)

lemma faithful_fetch:
  "faithful env content \<Longrightarrow> re_fetch env bl h s = (Inr blob, s')
    \<Longrightarrow> content h = Some (concat (vb_pieces blob))"
  unfolding faithful_def by blast

lemma faithful_shared:
  "faithful env content \<Longrightarrow> re_shared env = Some f \<Longrightarrow> f h (load_manifest env h) s = (Inr vm, s')
    \<Longrightarrow> manifest_at env content h = Some (vm_manifest vm)"
  unfolding faithful_def by blast

lemma faithful_absent:
  "faithful env content \<Longrightarrow> re_fetch env bl h s \<noteq> (Inl RE_absent, s')"
  "faithful env content \<Longrightarrow> re_shared env = Some f \<Longrightarrow> f h (load_manifest env h) s \<noteq> (Inl RE_absent, s')"
  unfolding faithful_def by (metis fst_conv)+

lemma fetch_blob_absent:
  assumes "faithful env content"
  shows "fetch_blob env h d c s \<noteq> (Inl RE_absent, s')"
  using faithful_absent(1) [OF assms]
  by (cases s) (auto simp: fetch_blob_def Let_def split: if_splits prod.splits sum.splits)

lemma load_manifest_absent:
  assumes "faithful env content"
  shows "load_manifest env h s \<noteq> (Inl RE_absent, s')"
  using fetch_blob_absent [OF assms]
  by (auto simp: load_manifest_def op_bind_def split: prod.splits sum.splits)

lemma fetch_blob_content:
  assumes "faithful env content" "fetch_blob env h d c s = (Inr blob, s')"
  shows "content h = Some (concat (vb_pieces blob))"
proof (cases s)
  case (Pair b w)
  then have "\<exists>bl t u. re_fetch env bl h t = (Inr blob, u)"
    using assms(2) by (auto simp: fetch_blob_def Let_def split: if_splits prod.splits sum.splits) blast
  then show ?thesis using faithful_fetch [OF assms(1)] by blast
qed

lemma load_manifest_content:
  assumes "faithful env content" "load_manifest env h s = (Inr vm, s')"
  shows "manifest_at env content h = Some (vm_manifest vm)"
proof -
  obtain blob t where blob: "fetch_blob env h None (max_wire_bytes (re_manifest_limits env)) s = (Inr blob, t)"
    and dec: "decode_validated_manifest (re_mp_decode env) (re_mp_encode env)
        (concat (vb_pieces blob)) (re_manifest_limits env) = Inr vm"
    using assms(2) by (auto simp: load_manifest_def op_bind_def split: prod.splits sum.splits)
  show ?thesis
    using fetch_blob_content [OF assms(1) blob] dec by (simp add: manifest_at_def)
qed

lemma manifest_of_ok:
  assumes "faithful env content" "manifests_ok env content st" "manifest_of env h st = (r, st')"
  shows "manifests_ok env content st' \<and> r \<noteq> Inl RE_absent
    \<and> (\<forall>m. r = Inr m \<longrightarrow> manifest_at env content h = Some m)"
proof (cases "map_of (rs_manifests st) h")
  case (Some m)
  with assms(2,3) show ?thesis by (auto simp: manifest_of_def manifests_ok_def)
next
  case None
  let ?load = "case re_shared env of None \<Rightarrow> load_manifest env h
      | Some shared \<Rightarrow> shared h (load_manifest env h)"
  have loaded: "manifest_at env content h = Some (vm_manifest vm)" if "?load s = (Inr vm, s')" for s vm s'
    using that load_manifest_content [OF assms(1), of h s vm s'] faithful_shared [OF assms(1)]
    by (cases "re_shared env") auto
  have shared: "?load s \<noteq> (Inl RE_absent, s')" for s s'
    using load_manifest_absent [OF assms(1)] faithful_absent(2) [OF assms(1)]
    by (cases "re_shared env") auto
  have absent: "with_world ?load s \<noteq> (Inl RE_absent, s')" for s s'
    using shared by (auto simp: with_world_def split: prod.splits)
  consider (budget) e s1 where "with_budget (visit (re_limits env) h) st = (Inl e, s1)" "r = Inl e" "st' = s1"
    | (load) u s1 e where "with_budget (visit (re_limits env) h) st = (Inr u, s1)"
      "with_world ?load s1 = (Inl e, st')" "r = Inl e"
    | (debit) u s1 vm s2 e where "with_budget (visit (re_limits env) h) st = (Inr u, s1)"
      "with_world ?load s1 = (Inr vm, s2)"
      "with_budget (debit_decoded (re_limits env) (vm_decoded_bytes vm)) s2 = (Inl e, st')" "r = Inl e"
    | (ok) u s1 vm s2 v s3 where "with_budget (visit (re_limits env) h) st = (Inr u, s1)"
      "with_world ?load s1 = (Inr vm, s2)"
      "with_budget (debit_decoded (re_limits env) (vm_decoded_bytes vm)) s2 = (Inr v, s3)"
      "r = Inr (vm_manifest vm)"
      "st' = s3\<lparr>rs_manifests := AList.update h (vm_manifest vm) (rs_manifests s3)\<rparr>"
    using assms(3) None unfolding manifest_of_def
    by (auto dest!: op_bind_cases)
  then show ?thesis
  proof cases
    case budget
    then show ?thesis using assms(2) with_budget_absent [OF budget(1)]
      by (simp add: manifests_ok_budget [OF budget(1)])
  next
    case load
    then show ?thesis using assms(2) absent
      by (auto simp: manifests_ok_budget [OF load(1)] manifests_ok_world [OF load(2)])
  next
    case debit
    then show ?thesis using assms(2) with_budget_absent [OF debit(3)]
      by (simp add: manifests_ok_budget [OF debit(1)] manifests_ok_world [OF debit(2)]
          manifests_ok_budget [OF debit(3)])
  next
    case ok
    have "\<exists>s s'. ?load s = (Inr vm, s')"
      using ok(2) unfolding with_world_def by (auto split: prod.splits)
    then have "manifest_at env content h = Some (vm_manifest vm)" using loaded by blast
    moreover have "manifests_ok env content s3"
      using assms(2)
      by (simp add: manifests_ok_budget [OF ok(1)] manifests_ok_world [OF ok(2)]
          manifests_ok_budget [OF ok(3)])
    ultimately show ?thesis
      using ok(4,5) by (auto simp: manifests_ok_def map_of_update)
  qed
qed


subsection \<open>File plans are the authenticated chunks\<close>

lemma plan_links_ok:
  assumes child: "\<And>h st r st'. child h st = (r, st') \<Longrightarrow> manifests_ok env content st \<Longrightarrow>
      manifests_ok env content st' \<and> r \<noteq> Inl RE_absent
      \<and> (\<forall>n cs. r = Inr (n, cs) \<longrightarrow> file_chunks (manifest_at env content) h n cs)"
    and "plan_links env child ls acc chunks st = (r, st')" "manifests_ok env content st"
  shows "manifests_ok env content st' \<and> r \<noteq> Inl RE_absent \<and> (\<forall>n cs. r = Inr (n, cs) \<longrightarrow>
      (\<exists>n' cs'. n = acc + n' \<and> cs = chunks @ cs' \<and> links_chunks (manifest_at env content) ls n' cs'))"
  using assms(2,3)
proof (induction ls arbitrary: acc chunks st)
  case Nil
  then show ?case by (auto intro: file_chunks_links_chunks.intros)
next
  case (Cons l ls)
  let ?T = "manifest_at env content"
  have rest: "manifests_ok env content st' \<and> r \<noteq> Inl RE_absent \<and> (\<forall>n cs. r = Inr (n, cs) \<longrightarrow>
      (\<exists>n' cs'. n = acc + k + n' \<and> cs = (chunks @ ds) @ cs' \<and> links_chunks ?T ls n' cs'))"
    if ok: "manifests_ok env content s"
      and run: "(if \<not> safe_int (acc + k) then (Inl (RE_budget BE_unsafe_size), s)
          else (case with_budget (ensure_output_available (re_limits env) (acc + k)) s of
                  (Inl e, s') \<Rightarrow> (Inl e, s')
                | (Inr _, s') \<Rightarrow> plan_links env child ls (acc + k) (chunks @ ds) s')) = (r, st')"
    for k ds s
  proof (cases "with_budget (ensure_output_available (re_limits env) (acc + k)) s")
    case (Pair q s1)
    have "manifests_ok env content s1" using ok manifests_ok_budget [OF Pair] by simp
    with Cons.IH [of "acc + k" "chunks @ ds" s1] run Pair ok with_budget_absent [OF Pair] show ?thesis
      by (auto split: if_splits sum.splits)
  qed
  show ?case
  proof (cases "ml_type l")
    case L_Blob
    from rest [of st "ml_size l" "[(to_hex (ml_hash l), ml_size l)]"] Cons.prems L_Blob
    have *: "manifests_ok env content st' \<and> r \<noteq> Inl RE_absent \<and> (\<forall>n cs. r = Inr (n, cs) \<longrightarrow>
        (\<exists>n' cs'. n = acc + ml_size l + n' \<and> cs = (chunks @ [(to_hex (ml_hash l), ml_size l)]) @ cs'
           \<and> links_chunks ?T ls n' cs'))" by simp
    then show ?thesis using links_chunks_blob [OF L_Blob] by fastforce
  next
    case L_File
    obtain q s where c: "child (to_hex (ml_hash l)) st = (q, s)" by fastforce
    note cok = child [OF c Cons.prems(2)]
    show ?thesis
    proof (cases q)
      case (Inl e)
      with Cons.prems L_File c cok show ?thesis by auto
    next
      case (Inr p)
      obtain n ds where p: "p = (n, ds)" by fastforce
      show ?thesis
      proof (cases "ml_size l = n")
        case False
        with Cons.prems L_File c cok Inr p show ?thesis by auto
      next
        case True
        from rest [of s n ds] Cons.prems L_File c cok Inr p True
        have *: "manifests_ok env content st' \<and> r \<noteq> Inl RE_absent \<and> (\<forall>m cs. r = Inr (m, cs) \<longrightarrow>
          (\<exists>n' cs'. m = acc + n + n' \<and> cs = (chunks @ ds) @ cs' \<and> links_chunks ?T ls n' cs'))" by simp
        have "file_chunks ?T (to_hex (ml_hash l)) (ml_size l) ds" using cok Inr p True by simp
        then show ?thesis using * links_chunks_file [OF L_File] True by fastforce
      qed
    qed
  qed (use Cons.prems in auto)
qed

lemma plan_visit_ok:
  assumes "faithful env content"
  shows "plan_visit env h depth st = (r, st') \<Longrightarrow> manifests_ok env content st \<Longrightarrow>
    manifests_ok env content st' \<and> r \<noteq> Inl RE_absent
    \<and> (\<forall>n cs. r = Inr (n, cs) \<longrightarrow> file_chunks (manifest_at env content) h n cs)"
  using assms
proof (induction env h depth st arbitrary: r st' rule: plan_visit.induct)
  case (1 env h depth st)
  show ?case
  proof (cases "re_aborted env (rs_world st)")
    case True
    with "1.prems" show ?thesis by (auto simp: plan_visit.simps [of env h])
  next
    case nab: False
    obtain d s where d: "with_budget (check_depth (re_limits env) depth) st = (d, s)" by fastforce
    have sok: "manifests_ok env content s" using "1.prems"(2) manifests_ok_budget [OF d] by simp
    show ?thesis
    proof (cases d)
      case (Inl e)
      with "1.prems" nab d sok with_budget_absent [OF d] show ?thesis by (auto simp: plan_visit.simps [of env h])
    next
      case dr: (Inr u)
      obtain q s1 where q: "manifest_of env h s = (q, s1)" by fastforce
      note qok = manifest_of_ok [OF "1.prems"(3) sok q]
      show ?thesis
      proof (cases q)
        case (Inl e)
        with "1.prems" nab d dr q qok show ?thesis by (auto simp: plan_visit.simps [of env h])
      next
        case qr: (Inr m)
        obtain v s2 where v: "with_budget (debit_links (re_limits env) (int (length (m_links m)))) s1
            = (v, s2)" by fastforce
        have s2ok: "manifests_ok env content s2" using qok manifests_ok_budget [OF v] by simp
        show ?thesis
        proof (cases "m_type m = M_File \<and> (\<exists>x. v = Inr x)")
          case False
          with "1.prems" nab d dr q qr qok v s2ok with_budget_absent [OF v] show ?thesis
            by (cases v) (auto simp: plan_visit.simps [of env h] split: if_splits)
        next
          case True
          then obtain x where x: "v = Inr x" "m_type m = M_File" by blast
          have run: "plan_links env (\<lambda>h. plan_visit env h (depth + 1)) (m_links m) 0 [] s2 = (r, st')"
            using "1.prems"(1) nab d dr q qr v x by (simp add: plan_visit.simps [of env h])
          have child: "manifests_ok env content t' \<and> y \<noteq> Inl RE_absent \<and> (\<forall>n cs. y = Inr (n, cs) \<longrightarrow>
              file_chunks (manifest_at env content) k n cs)"
            if "plan_visit env k (depth + 1) t = (y, t')" "manifests_ok env content t" for k t y t'
            using "1.IH" [OF nab d [symmetric] dr q [symmetric] qr _ v [symmetric] x(1) that] x(2)
              "1.prems"(3) by simp
          have m: "manifest_at env content h = Some m" using qok qr by simp
          from plan_links_ok [OF child run s2ok] m x(2) show ?thesis
            by (auto intro: file_chunks_intro)
        qed
      qed
    qed
  qed
qed

lemma file_plan_ok:
  assumes "faithful env content" "file_plan env h n st = (r, st')" "manifests_ok env content st"
  shows "manifests_ok env content st' \<and> r \<noteq> Inl RE_absent \<and> (\<forall>k cs. r = Inr (k, cs) \<longrightarrow>
    k = n \<and> file_chunks (manifest_at env content) h n cs)"
proof -
  obtain q s where q: "plan_visit env h 1 st = (q, s)" by fastforce
  from plan_visit_ok [OF assms(1) q assms(3)] q assms(2) show ?thesis
    by (auto simp: file_plan_def split: sum.splits if_splits)
qed


subsection \<open>Resolution follows the tree\<close>

text \<open>What the answer to a path is, once its link is located.\<close>

definition delivers ::
  "'w reader_env \<Rightarrow> (jstr \<Rightarrow> bytes option) \<Rightarrow> bool \<Rightarrow> manifest_link \<Rightarrow> resolved \<Rightarrow> bool" where
  "delivers env content head l v \<longleftrightarrow>
     rv_hash v = to_hex (ml_hash l) \<and> rv_type v = ml_type l \<and> rv_size v = ml_size l
     \<and> (case ml_type l of
          L_Blob \<Rightarrow> (if head then rv_body v = B_none
            else (\<exists>blob. rv_body v = B_raw blob (ml_size l)
                    \<and> content (to_hex (ml_hash l)) = Some (concat (vb_pieces blob))))
        | L_File \<Rightarrow> (\<exists>cs. file_chunks (manifest_at env content) (to_hex (ml_hash l)) (ml_size l) cs
                    \<and> rv_body v = (if head then B_none else B_chunks cs))
        | _ \<Rightarrow> False)"

lemma with_world_content:
  assumes "faithful env content" "raw_stream env h n st = (Inr blob, st')"
  shows "content h = Some (concat (vb_pieces blob))"
proof -
  have "\<exists>s s'. fetch_blob env h (Some n) (tl_max_blob_transfer_bytes (re_limits env)) s = (Inr blob, s')"
    using assms(2) unfolding raw_stream_def with_world_def by (auto split: prod.splits)
  then show ?thesis using fetch_blob_content [OF assms(1)] by blast
qed

lemma resolve_final_ok:
  assumes "faithful env content" "resolve_final env head l st = (Inr v, st')" "manifests_ok env content st"
  shows "delivers env content head l v"
proof (cases "ml_type l")
  case L_Blob
  show ?thesis
  proof (cases head)
    case True
    with assms(2) L_Blob show ?thesis by (auto simp: resolve_final_def delivers_def)
  next
    case False
    then obtain blob s where "raw_stream env (to_hex (ml_hash l)) (ml_size l) st = (Inr blob, s)"
      "v = \<lparr>rv_hash = to_hex (ml_hash l), rv_size = ml_size l, rv_type = L_Blob,
            rv_body = B_raw blob (ml_size l)\<rparr>"
      using assms(2) L_Blob by (auto simp: resolve_final_def Let_def split: prod.splits sum.splits)
    with with_world_content [OF assms(1)] L_Blob False show ?thesis by (simp add: delivers_def)
  qed
next
  case L_File
  then obtain n cs s where p: "file_plan env (to_hex (ml_hash l)) (ml_size l) st = (Inr (n, cs), s)"
    "v = \<lparr>rv_hash = to_hex (ml_hash l), rv_size = n, rv_type = L_File,
          rv_body = (if head then B_none else B_chunks cs)\<rparr>"
    using assms(2) by (auto simp: resolve_final_def Let_def split: prod.splits sum.splits)
  from file_plan_ok [OF assms(1) p(1) assms(3)] p(2) L_File show ?thesis
    by (auto simp: delivers_def)
qed (use assms(2) in \<open>simp_all add: resolve_final_def\<close>)

lemma manifest_at_wf:
  assumes "manifest_at env content h = Some m"
  shows "wf_manifest m"
proof -
  obtain w vm where "decode_validated_manifest (re_mp_decode env) (re_mp_encode env) w
      (re_manifest_limits env) = Inr vm" "m = vm_manifest vm"
    using assms by (auto simp: manifest_at_def split: option.splits sum.splits)
  then show ?thesis
    using validate_manifest_Inr(1)
    by (auto simp: decode_validated_manifest_def split: if_splits option.splits)
qed

lemma find_link_Some:
  assumes "find_link m s = Some l"
  shows "l \<in> set (m_links m)" "m_type m = M_Directory \<Longrightarrow> ml_name l = Some s"
    "m_type m \<noteq> M_Directory \<Longrightarrow> code_unit_range s l"
  using assms by (auto simp: find_link_def find_Some_iff split: if_splits)

lemma fanout_link_types:
  "wf_manifest m \<Longrightarrow> m_type m = M_Fanout \<Longrightarrow> l \<in> set (m_links m)
    \<Longrightarrow> ml_type l = L_Directory \<or> ml_type l = L_Fanout"
  by (auto simp: wf_manifest_def wf_kind_def range_ok_def)



lemma resolve_final_absent:
  assumes "faithful env content" "manifests_ok env content st"
  shows "resolve_final env head l st \<noteq> (Inl RE_absent, st')"
proof -
  have wrap: "wrap_final e = RE_absent \<longleftrightarrow> e = RE_absent" for e
    by (auto simp: wrap_final_def failure_sources_def)
  have raw: "raw_stream env h n st \<noteq> (Inl RE_absent, s)" for h n s
    using fetch_blob_absent [OF assms(1)]
    by (auto simp: raw_stream_def with_world_def split: prod.splits)
  have plan: "file_plan env h n st \<noteq> (Inl RE_absent, s)" for h n s
    using file_plan_ok [OF assms(1) _ assms(2), of h n] by blast
  show ?thesis
    using raw plan by (cases "ml_type l") (auto simp: resolve_final_def Let_def wrap split: prod.splits sum.splits)
qed

lemma enter_manifest_ok:
  assumes "faithful env content" "enter_manifest env h expected depth st = (r, st')"
    and "manifests_ok env content st"
  shows "manifests_ok env content st'" "r \<noteq> Inl RE_absent"
    "r = Inr m \<Longrightarrow> manifest_at env content h = Some m"
    "r = Inr m \<Longrightarrow> expected = L_Directory \<Longrightarrow> m_type m = M_Directory"
    "r = Inr m \<Longrightarrow> expected = L_Fanout \<Longrightarrow> m_type m = M_Fanout"
proof -
  obtain d s where d: "with_budget (check_depth (re_limits env) depth) st = (d, s)" by fastforce
  have s: "manifests_ok env content s" using assms(3) manifests_ok_budget [OF d] by simp
  obtain q s1 where q: "manifest_of env h s = (q, s1)" by fastforce
  note qok = manifest_of_ok [OF assms(1) s q]
  obtain v s2 where v: "with_budget (debit_links (re_limits env) (int (length (m_links (projr q))))) s1
      = (v, s2)" by fastforce
  have s2: "manifests_ok env content s2" using qok manifests_ok_budget [OF v] by simp
  have *: "manifests_ok env content st' \<and> r \<noteq> Inl RE_absent \<and> (\<forall>m. r = Inr m \<longrightarrow>
      manifest_at env content h = Some m \<and> (expected = L_Directory \<longrightarrow> m_type m = M_Directory)
      \<and> (expected = L_Fanout \<longrightarrow> m_type m = M_Fanout))"
  proof (cases d)
    case (Inl e)
    with assms(2) d s with_budget_absent [OF d] show ?thesis
      by (auto simp: enter_manifest_def op_bind_def)
  next
    case dr: (Inr u)
    show ?thesis
    proof (cases q)
      case (Inl e)
      with assms(2) d dr q qok show ?thesis by (auto simp: enter_manifest_def op_bind_def)
    next
      case (Inr m)
      with assms(2) d dr q qok v s2 with_budget_absent [OF v] show ?thesis
        by (cases v) (auto simp: enter_manifest_def op_bind_def split: if_splits)
    qed
  qed
  then show "manifests_ok env content st'" "r \<noteq> Inl RE_absent"
    "r = Inr m \<Longrightarrow> manifest_at env content h = Some m"
    "r = Inr m \<Longrightarrow> expected = L_Directory \<Longrightarrow> m_type m = M_Directory"
    "r = Inr m \<Longrightarrow> expected = L_Fanout \<Longrightarrow> m_type m = M_Fanout" by blast+
qed

lemma resolve_loop_locates:
  assumes "faithful env content"
  shows "resolve_loop env head segs h expected depth st = (Inr v, st') \<Longrightarrow>
    manifests_ok env content st \<Longrightarrow> segs \<noteq> [] \<Longrightarrow>
    expected = L_Directory \<or> expected = L_Fanout \<Longrightarrow>
    \<exists>l. locates (manifest_at env content) h expected segs l \<and> delivers env content head l v"
  using assms
proof (induction env head segs h expected depth st rule: resolve_loop.induct)
  case (1 env head segs h expected depth st)
  let ?T = "manifest_at env content"
  note loop = resolve_loop.simps [of env head segs h expected depth st]
  obtain q s where q: "enter_manifest env h expected (depth + 1) st = (q, s)" by fastforce
  obtain m where qm: "q = Inr m" using "1.prems"(1) q loop by (cases q) simp_all
  note en = q [unfolded qm]
  note ok = enter_manifest_ok [OF "1.prems"(5) en "1.prems"(2)]
  obtain l where l: "find_link m (hd segs) = Some l"
    using "1.prems"(1) en loop by (cases "find_link m (hd segs)") simp_all
  note lf = find_link_Some [OF l]
  obtain seg rest where segs: "segs = seg # rest" using "1.prems"(3) by (cases segs) auto
  have T: "?T h = Some m" using ok(3) [OF refl] .
  show ?case
  proof (cases "m_type m = M_Fanout")
    case True
    have run: "resolve_loop env head segs (to_hex (ml_hash l)) (ml_type l) (depth + 1) s = (Inr v, st')"
      using "1.prems"(1) en l True by (simp add: loop)
    have ty: "ml_type l = L_Directory \<or> ml_type l = L_Fanout"
      using fanout_link_types manifest_at_wf [OF T] True lf(1) by blast
    from "1.IH"(1) [OF en [symmetric] refl l True run ok(1) "1.prems"(3) ty "1.prems"(5)]
    obtain k where "locates ?T (to_hex (ml_hash l)) (ml_type l) segs k" "delivers env content head k v"
      by blast
    then have "locates ?T (to_hex (ml_hash l)) (ml_type l) (seg # rest) k" by (simp only: segs)
    moreover have "code_unit_range seg l" using lf(3) True segs by simp
    ultimately have "locates ?T h L_Fanout (seg # rest) k"
      by (intro locates_fanout [where tree = ?T, OF T True lf(1)])
    moreover have "expected = L_Fanout" using "1.prems"(4) ok(4) [OF refl] True by force
    ultimately show ?thesis using \<open>delivers env content head k v\<close> segs by blast
  next
    case nf: False
    have ex: "expected = L_Directory" using "1.prems"(4) ok(5) [OF refl] nf by blast
    note dir = ok(4) [OF refl ex] ex
    note name = lf(2) [OF dir(1)]
    show ?thesis
    proof (cases "length segs = 1")
      case True
      then have "resolve_final env head l s = (Inr v, st')"
        using "1.prems"(1) en l nf by (simp add: loop)
      then have "delivers env content head l v" by (rule resolve_final_ok [OF "1.prems"(5) _ ok(1)])
      moreover have "ml_name l = Some seg" "segs = [seg]" using name True segs by simp_all
      then have "locates ?T h L_Directory segs l"
        using locates_here [where tree = ?T, OF T dir(1) lf(1)] by simp
      ultimately show ?thesis using dir(2) by blast
    next
      case long: False
      have ty: "ml_type l = L_Directory \<or> ml_type l = L_Fanout"
        using "1.prems"(1) en l nf long
        by (rule_tac ccontr) (simp add: loop)
      have run: "resolve_loop env head (tl segs) (to_hex (ml_hash l)) (ml_type l) (depth + 1) s = (Inr v, st')"
        using "1.prems"(1) en l nf long ty by (auto simp: loop split: if_splits)
      have ne: "tl segs \<noteq> []" using long segs by auto
      have "\<not> (ml_type l \<noteq> L_Directory \<and> ml_type l \<noteq> L_Fanout)" using ty by blast
      from "1.IH"(2) [OF en [symmetric] refl l nf long this run ok(1) ne ty "1.prems"(5)]
      obtain k where k: "locates ?T (to_hex (ml_hash l)) (ml_type l) (tl segs) k"
        "delivers env content head k v" by blast
      obtain t ts where rest: "rest = t # ts" using ne segs by (cases rest) auto
      have "ml_name l = Some seg" using name segs by simp
      moreover have "locates ?T (to_hex (ml_hash l)) (ml_type l) (t # ts) k"
        using k(1) segs rest by simp
      ultimately have "locates ?T h L_Directory (seg # t # ts) k"
        by (intro locates_below [where tree = ?T, OF T dir(1) lf(1) _ ty])
      with k(2) dir(2) segs rest show ?thesis by blast
    qed
  qed
qed


text \<open>
  C8: A path resolves only to what the root hash authenticates: whatever the network does
  and however the budget runs out, if \<open>resolve\<close> answers then the tree of manifests under
  \<open>rootHash\<close> holds a link at that path, and the answer is that link: its hash, its size and
  kind; for a blob the bytes of that hash; for a file its authenticated size and the chunk list
  of its manifests in order.
\<close>

theorem resolve_sound:
  assumes "faithful env content" "resolve env root path head b w = (Inr v, st')"
  shows "\<exists>l. locates (manifest_at env content) root L_Directory (path_segments path) l
    \<and> delivers env content head l v"
proof -
  let ?st = "\<lparr>rs_budget = b, rs_manifests = [], rs_world = w\<rparr>"
  have "path_segments path \<noteq> []"
    "resolve_loop env head (path_segments path) root L_Directory 0 ?st = (Inr v, st')"
    using assms(2) by (auto simp: resolve_def Let_def split: if_splits)
  moreover have "manifests_ok env content ?st" by (simp add: manifests_ok_def)
  ultimately show ?thesis using resolve_loop_locates [OF assms(1)] by blast
qed

subsection \<open>Absence is authenticated\<close>

lemma sorted_wrt_unique:
  "sorted_wrt R xs \<Longrightarrow> x \<in> set xs \<Longrightarrow> y \<in> set xs \<Longrightarrow> \<not> R x y \<Longrightarrow> \<not> R y x \<Longrightarrow> x = y"
  by (induction xs) auto

definition plain_fanouts :: "(jstr \<Rightarrow> manifest option) \<Rightarrow> bool" where
  "plain_fanouts tree \<longleftrightarrow> (\<forall>h m l. tree h = Some m \<longrightarrow> m_type m = M_Fanout \<longrightarrow> l \<in> set (m_links m)
     \<longrightarrow> plain (range_lo l) \<and> plain (range_hi l))"

lemma code_unit_range_iff:
  assumes "range_ok l"
  shows "code_unit_range s l \<longleftrightarrow> range_lo l \<le> s \<and> s \<le> range_hi l"
  using assms
  by (auto simp: range_ok_def fanout_range_def code_unit_range_def range_lo_def range_hi_def
      split: option.splits if_splits jsval.splits)

lemma find_link_unique:
  assumes "wf_manifest m" "find_link m s = Some l" "d \<in> set (m_links m)"
    and "m_type m = M_Directory \<Longrightarrow> ml_name d = Some s"
    and "m_type m = M_Fanout \<Longrightarrow> code_unit_range s d"
    and "m_type m = M_Directory \<or> m_type m = M_Fanout"
    and "m_type m = M_Fanout \<Longrightarrow> \<forall>k \<in> set (m_links m). plain (range_lo k) \<and> plain (range_hi k)"
  shows "d = l"
proof (cases "m_type m = M_Directory")
  case True
  have srt: "sorted_wrt (\<lambda>a b. name_less (link_name a) (link_name b)) (m_links m)"
    using assms(1) True by (simp add: wf_manifest_def wf_kind_def sorted_wrt_map)
  have "link_name d = link_name l"
    using assms(4) find_link_Some(2) [OF assms(2)] True by (simp add: link_name_def)
  then show ?thesis
    using sorted_wrt_unique [OF srt assms(3) find_link_Some(1) [OF assms(2)]]
    by (simp add: name_less_def)
next
  case False
  then have f: "m_type m = M_Fanout" using assms(6) by simp
  have ok: "\<forall>k \<in> set (m_links m). range_ok k" "sorted_wrt range_less (m_links m)"
    using assms(1) f by (simp_all add: wf_manifest_def wf_kind_def)
  note l = find_link_Some(1,3) [OF assms(2)]
  have "range_lo d \<le> s \<and> s \<le> range_hi d" "range_lo l \<le> s \<and> s \<le> range_hi l"
    using assms(3,5) l f False ok(1) by (auto simp: code_unit_range_iff)
  moreover have "range_less x y \<longleftrightarrow> range_hi x < range_lo y" if "x \<in> set (m_links m)" "y \<in> set (m_links m)" for x y
    using assms(7) [OF f] that by (auto simp: range_less_def utf8_less_plain)
  ultimately have "\<not> range_less d l" "\<not> range_less l d" using assms(3) l(1) by auto
  then show ?thesis using sorted_wrt_unique [OF ok(2) assms(3) l(1)] by simp
qed

lemma resolve_loop_absent:
  assumes "faithful env content" "plain_fanouts (manifest_at env content)"
  shows "resolve_loop env head segs h expected depth st = (Inl RE_absent, st') \<Longrightarrow>
    manifests_ok env content st \<Longrightarrow> segs \<noteq> [] \<Longrightarrow>
    expected = L_Directory \<or> expected = L_Fanout \<Longrightarrow>
    \<not> locates (manifest_at env content) h expected segs k"
  using assms
proof (induction env head segs h expected depth st rule: resolve_loop.induct)
  case (1 env head segs h expected depth st)
  let ?T = "manifest_at env content"
  note loop = resolve_loop.simps [of env head segs h expected depth st]
  obtain q s where q: "enter_manifest env h expected (depth + 1) st = (q, s)" by fastforce
  obtain m where qm: "q = Inr m"
    using "1.prems"(1) q loop enter_manifest_ok(2) [OF "1.prems"(5) q "1.prems"(2)]
    by (cases q) auto
  note en = q [unfolded qm]
  note ok = enter_manifest_ok [OF "1.prems"(5) en "1.prems"(2)]
  have T: "?T h = Some m" using ok(3) [OF refl] .
  note wf = manifest_at_wf [OF T]
  obtain seg rest where segs: "segs = seg # rest" using "1.prems"(3) by (cases segs) auto
  have plain: "m_type m = M_Fanout \<Longrightarrow> \<forall>k \<in> set (m_links m). plain (range_lo k) \<and> plain (range_hi k)"
    using "1.prems"(6) T unfolding plain_fanouts_def by blast
  have dirf: "expected = L_Directory \<Longrightarrow> m_type m = M_Directory"
    "expected = L_Fanout \<Longrightarrow> m_type m = M_Fanout"
    using ok(4) [OF refl] ok(5) [OF refl] by blast+
  show ?case
  proof
    assume loc: "locates ?T h expected segs k"
    from "1.prems"(4) obtain d where d: "d \<in> set (m_links m)"
      "m_type m = M_Directory \<Longrightarrow> ml_name d = Some seg"
      "m_type m = M_Fanout \<Longrightarrow> code_unit_range seg d"
      and below: "m_type m = M_Directory \<Longrightarrow> rest \<noteq> [] \<Longrightarrow>
          (ml_type d = L_Directory \<or> ml_type d = L_Fanout)
          \<and> locates ?T (to_hex (ml_hash d)) (ml_type d) rest k"
        "m_type m = M_Fanout \<Longrightarrow> locates ?T (to_hex (ml_hash d)) (ml_type d) segs k"
    proof
      assume ex: "expected = L_Directory"
      from loc [unfolded ex] show thesis
        by (cases rule: locates_directoryE) (use T segs dirf(1) [OF ex] that in auto)
    next
      assume ex: "expected = L_Fanout"
      from loc [unfolded ex] show thesis
        by (cases rule: locates_fanoutE) (use T segs dirf(2) [OF ex] that in auto)
    qed
    have ty: "m_type m = M_Directory \<or> m_type m = M_Fanout" using "1.prems"(4) dirf by blast
    have "find_link m seg \<noteq> None"
    proof (cases "m_type m = M_Directory")
      case True
      with d(1,2) show ?thesis by (auto simp: find_link_def find_None_iff)
    next
      case False
      with d(1,3) ty show ?thesis by (auto simp: find_link_def find_None_iff)
    qed
    then obtain l where l: "find_link m (hd segs) = Some l" using segs by auto
    then have l': "find_link m seg = Some l" using segs by simp
    have dl: "d = l" by (rule find_link_unique [OF wf l' d ty plain])
    show False
    proof (cases "m_type m = M_Fanout")
      case True
      have run: "resolve_loop env head segs (to_hex (ml_hash l)) (ml_type l) (depth + 1) s
          = (Inl RE_absent, st')"
        using "1.prems"(1) en l True by (simp add: loop)
      have tyl: "ml_type l = L_Directory \<or> ml_type l = L_Fanout"
        using fanout_link_types wf True d(1) dl by blast
      from "1.IH"(1) [OF en [symmetric] refl l True run ok(1) "1.prems"(3) tyl "1.prems"(5,6)]
      show False using below(2) [OF True] dl by simp
    next
      case nf: False
      then have dir: "m_type m = M_Directory" using ty by simp
      show False
      proof (cases "length segs = 1")
        case True
        then have "resolve_final env head l s = (Inl RE_absent, st')"
          using "1.prems"(1) en l nf by (simp add: loop)
        then show False using resolve_final_absent [OF "1.prems"(5) ok(1)] by blast
      next
        case long: False
        then have rest: "rest \<noteq> []" using segs by auto
        note b = below(1) [OF dir rest, unfolded dl]
        have run: "resolve_loop env head (tl segs) (to_hex (ml_hash l)) (ml_type l) (depth + 1) s
            = (Inl RE_absent, st')"
          using "1.prems"(1) en l nf long b by (auto simp: loop split: if_splits)
        have "\<not> (ml_type l \<noteq> L_Directory \<and> ml_type l \<noteq> L_Fanout)" using b by blast
        from "1.IH"(2) [OF en [symmetric] refl l nf long this run ok(1) _ _ "1.prems"(5,6)]
        show False using b rest segs by simp
      qed
    qed
  qed
qed

text \<open>
  An answer that a path is absent is authenticated: if \<open>resolve\<close> throws \<open>VerifiedAbsent\<close>
  for a path, then the tree under the root holds no link at that path at all, provided the
  bounds of its fanouts lie in the basic plane without surrogates (where the search by
  UTF-16 code units agrees with the UTF-8 order that the manifests are built in).
\<close>

theorem resolve_absent_sound:
  assumes "faithful env content" "plain_fanouts (manifest_at env content)"
    and "resolve env root path head b w = (Inl RE_absent, st')" "path_segments path \<noteq> []"
  shows "\<not> locates (manifest_at env content) root L_Directory (path_segments path) l"
proof -
  let ?st = "\<lparr>rs_budget = b, rs_manifests = [], rs_world = w\<rparr>"
  have "resolve_loop env head (path_segments path) root L_Directory 0 ?st = (Inl RE_absent, st')"
    using assms(3,4) by (simp add: resolve_def)
  moreover have "manifests_ok env content ?st" by (simp add: manifests_ok_def)
  ultimately show ?thesis using resolve_loop_absent [OF assms(1,2)] assms(4) by blast
qed


subsection \<open>Streams deliver the authenticated bytes\<close>

lemma clean_pieces_all:
  "clean_pieces env n emitted ps st = ((out, None), st') \<Longrightarrow>
     out = ps \<and> emitted + int (length (concat ps)) = n"
proof (induction ps arbitrary: emitted out st st')
  case (Cons p ps)
  obtain r s where r: "with_budget (debit_output (re_limits env) (int (length p))) st = (r, s)"
    by fastforce
  then obtain u where u: "r = Inr u" using Cons.prems by (cases r) (auto split: if_splits)
  obtain out2 e s2 where c: "clean_pieces env n (emitted + int (length p)) ps s = ((out2, e), s2)"
    by (metis prod.collapse)
  have "out = p # out2" "e = None" using Cons.prems r u c by (auto split: if_splits)
  with Cons.IH c show ?case by fastforce
qed (simp split: if_splits)

lemma file_stream_content:
  assumes "faithful env content"
  shows "file_stream env cs st = ((out, None), st') \<Longrightarrow>
    \<exists>contents. list_all2 (\<lambda>(h, n) c. content h = Some c \<and> int (length c) = n) cs contents
      \<and> concat out = concat contents"
proof (induction cs arbitrary: st out st')
  case Nil
  then show ?case by auto
next
  case (Cons c cs)
  obtain h n where c: "c = (h, n)" by fastforce
  obtain r s where r: "raw_stream env h n st = (r, s)" by fastforce
  then obtain blob where blob: "r = Inr blob" using Cons.prems c by (cases r) auto
  obtain o1 e1 s1 where cl: "clean_pieces env n 0 (vb_pieces blob) s = ((o1, e1), s1)"
    by (metis prod.collapse)
  have e1: "e1 = None" using Cons.prems c r blob cl by (cases e1) auto
  obtain o2 e2 s2 where rest: "file_stream env cs s1 = ((o2, e2), s2)" by (metis prod.collapse)
  have o: "out = o1 @ o2" "e2 = None" using Cons.prems c r blob cl e1 rest by auto
  obtain contents where "list_all2 (\<lambda>(h, n) c. content h = Some c \<and> int (length c) = n) cs contents"
    "concat o2 = concat contents"
    using Cons.IH rest o(2) by blast
  moreover have "o1 = vb_pieces blob \<and> int (length (concat (vb_pieces blob))) = n"
    using clean_pieces_all [of env n 0 "vb_pieces blob" s o1 s1] cl e1 by simp
  moreover have "content h = Some (concat (vb_pieces blob))"
    using with_world_content [OF assms] r blob by blast
  ultimately show ?case
    using o(1) c by (intro exI [of _ "concat (vb_pieces blob) # contents"]) simp
qed

lemma chunks_size:
  "file_chunks tree h n cs \<Longrightarrow> n = sum_list (map snd cs)"
  "links_chunks tree ls n cs \<Longrightarrow> n = sum_list (map snd cs)"
  by (induction rule: file_chunks_links_chunks.inducts) simp_all

lemma contents_size:
  "list_all2 (\<lambda>(h, n) c. content h = Some c \<and> int (length c) = n) cs contents \<Longrightarrow>
     map (\<lambda>c. content (fst c)) cs = map Some contents
     \<and> int (length (concat contents)) = sum_list (map snd cs)"
  by (induction rule: list_all2_induct) auto

text \<open>
  C9: A file is delivered whole or the stream fails: if a GET resolves to a file and its
  stream is read to an end without an error, then what was emitted is the concatenation of
  the contents of the authenticated chunks, in order, and its length is the authenticated
  size announced with the answer.
\<close>

theorem file_delivery:
  assumes "faithful env content" "resolve env root path False b w = (Inr v, st1)"
    and "rv_body v = B_chunks cs" "file_stream env cs st2 = ((out, None), st3)"
  shows "int (length (concat out)) = rv_size v
    \<and> (\<exists>contents. map (\<lambda>c. content (fst c)) cs = map Some contents \<and> concat out = concat contents)
    \<and> file_chunks (manifest_at env content) (rv_hash v) (rv_size v) cs"
proof -
  let ?st = "\<lparr>rs_budget = b, rs_manifests = [], rs_world = w\<rparr>"
  have "path_segments path \<noteq> []"
    "resolve_loop env False (path_segments path) root L_Directory 0 ?st = (Inr v, st1)"
    using assms(2) by (auto simp: resolve_def Let_def split: if_splits)
  moreover have "manifests_ok env content ?st" by (simp add: manifests_ok_def)
  ultimately obtain l where l: "delivers env content False l v"
    using resolve_loop_locates [OF assms(1)] by blast
  then have chunks: "file_chunks (manifest_at env content) (rv_hash v) (rv_size v) cs"
    using assms(3) by (cases "ml_type l") (auto simp: delivers_def)
  obtain contents where c: "list_all2 (\<lambda>(h, n) c. content h = Some c \<and> int (length c) = n) cs contents"
    "concat out = concat contents"
    using file_stream_content [OF assms(1,4)] by blast
  show ?thesis using contents_size [OF c(1)] c(2) chunks chunks_size(1) [OF chunks] by auto
qed

subsection \<open>Two consequences of the code\<close>

text \<open>A root that is a fanout is never read: \<open>resolve\<close> expects a directory there.\<close>

lemma fanout_root_unreadable:
  assumes "faithful env content" "manifest_at env content root = Some m" "m_type m = M_Fanout"
  shows "\<exists>e st'. resolve env root path head b w = (Inl e, st')"
proof -
  obtain r st' where r: "resolve env root path head b w = (r, st')" by fastforce
  have False if v: "r = Inr v" for v
  proof -
    let ?st = "\<lparr>rs_budget = b, rs_manifests = [], rs_world = w\<rparr>"
    have "path_segments path \<noteq> []"
      "resolve_loop env head (path_segments path) root L_Directory 0 ?st = (Inr v, st')"
      using r v by (auto simp: resolve_def Let_def split: if_splits)
    moreover have "manifests_ok env content ?st" by (simp add: manifests_ok_def)
    ultimately obtain l where "locates (manifest_at env content) root L_Directory (path_segments path) l"
      using resolve_loop_locates [OF assms(1)] by blast
    then show False by (cases rule: locates_directoryE) (use assms(2,3) in auto)
  qed
  with r show ?thesis by (cases r) auto
qed

lemma utf8_append_plain: "plain p \<Longrightarrow> utf8 (p @ s) = utf8 p @ utf8 s"
proof (induction p)
  case (Cons u p)
  then have "scalars (u # p @ s) = u # scalars (p @ s)"
    by (cases "p @ s") (auto simp: high_surrogate_def low_surrogate_def)
  moreover have "scalars (u # p) = u # scalars p" using Cons.prems by (simp add: scalars_plain)
  ultimately show ?case using Cons by (simp add: utf8_def)
qed (simp add: utf8_def)

lemma utf8_astral_above:
  assumes "0xE000 \<le> u" "u < 0x10000" "high_surrogate v" "low_surrogate w"
  shows "utf8 (u # s) < utf8 (v # w # t)"
proof -
  have "scalars (u # s) = u # scalars s"
    using assms(1) by (cases s) (auto simp: high_surrogate_def low_surrogate_def)
  moreover have "u div 4096 < 16" using assms(2) by (simp add: less_mult_imp_div_less)
  ultimately show ?thesis using assms by (simp add: utf8_def utf8_scalar_def)
qed

lemma append_less_right: "xs < ys \<Longrightarrow> zs @ xs < zs @ (ys :: nat list)"
  by (induction zs) auto

text \<open>
  C10: The search of a valid fanout is exact in the basic plane and wrong beyond it: when the bounds and
  the name have no surrogates, the link found is the one whose range holds the name in the UTF-8 order
  that fanouts are built and validated in, and nothing is found when there is none; but a range that ends in
  a name beyond the basic plane is never found for a name that differs from its end by a character of
  U+E000 or above, although that name lies in the range.
\<close>

theorem fanout_search_order:
  assumes "wf_manifest m" "m_type m = M_Fanout"
  shows "((\<forall>k \<in> set (m_links m). plain (range_lo k) \<and> plain (range_hi k)) \<and> plain name \<longrightarrow>
      (find_link m name = Some l \<longleftrightarrow>
        l \<in> set (m_links m) \<and> utf8 (range_lo l) \<le> utf8 name \<and> utf8 name \<le> utf8 (range_hi l)))
    \<and> (l \<in> set (m_links m) \<and> range_hi l = p @ v # w # t \<and> plain p \<and> high_surrogate v \<and> low_surrogate w
        \<and> name = p @ u # s \<and> 0xE000 \<le> u \<and> u < 0x10000 \<longrightarrow>
      utf8 name \<le> utf8 (range_hi l) \<and> find_link m name \<noteq> Some l)"
proof (intro conjI impI)
  have ok: "\<forall>k \<in> set (m_links m). range_ok k" using assms by (simp add: wf_manifest_def wf_kind_def)
  show "find_link m name = Some l \<longleftrightarrow> l \<in> set (m_links m) \<and> utf8 (range_lo l) \<le> utf8 name \<and> utf8 name \<le> utf8 (range_hi l)"
    if plain: "(\<forall>k \<in> set (m_links m). plain (range_lo k) \<and> plain (range_hi k)) \<and> plain name"
  proof -
    have iff: "code_unit_range name k \<longleftrightarrow> utf8 (range_lo k) \<le> utf8 name \<and> utf8 name \<le> utf8 (range_hi k)"
      if "k \<in> set (m_links m)" for k using that plain ok by (simp add: code_unit_range_iff utf8_le_plain)
    have "find_link m name = Some l" if l: "l \<in> set (m_links m)" "code_unit_range name l"
    proof -
      obtain k where k: "find_link m name = Some k"
        using l assms(2) by (cases "find_link m name") (auto simp: find_link_def find_None_iff)
      then show ?thesis using find_link_unique [OF assms(1) k l(1)] l(2) assms(2) plain by simp
    qed
    moreover have "l \<in> set (m_links m) \<and> code_unit_range name l" if "find_link m name = Some l"
      using find_link_Some [OF that] assms(2) by simp
    ultimately show ?thesis using iff by blast
  qed
  assume l: "l \<in> set (m_links m) \<and> range_hi l = p @ v # w # t \<and> plain p \<and> high_surrogate v \<and> low_surrogate w
      \<and> name = p @ u # s \<and> 0xE000 \<le> u \<and> u < 0x10000"
  then have "utf8 name < utf8 (range_hi l)"
    using utf8_astral_above by (simp add: utf8_append_plain append_less_right)
  then show "utf8 name \<le> utf8 (range_hi l)" by simp
  have "range_hi l < name" using l by (simp add: append_less_right high_surrogate_def)
  then have "\<not> code_unit_range name l" using l ok by (auto simp: code_unit_range_iff)
  then show "find_link m name \<noteq> Some l" using find_link_Some(3) assms(2) by fastforce
qed

subsection \<open>Witnesses\<close>

text \<open>Two fanouts of one range: \<open>a\<close> to \<open>c\<close>, and U+FF5E to U+1F600, in this (UTF-8) order.\<close>

definition sample_range_link :: "jstr \<Rightarrow> jstr \<Rightarrow> manifest_link" where
  "sample_range_link lo hi = \<lparr>ml_hash = replicate 32 0, ml_key = None,
     ml_metadata = Some [(js ''count'', V_Int 2), (js ''first'', V_Str lo), (js ''last'', V_Str hi)],
     ml_name = None, ml_size = 10, ml_type = L_Directory\<rparr>"

definition sample_fanout :: "jstr \<Rightarrow> jstr \<Rightarrow> manifest" where
  "sample_fanout lo hi = \<lparr>m_type = M_Fanout, m_links = [sample_range_link lo hi]\<rparr>"

lemma sample_fanout_ok:
  assumes "utf8 lo \<le> utf8 hi" "utf8 lo \<noteq> utf8 hi"
  shows "wf_manifest (sample_fanout lo hi) \<and> range_lo (sample_range_link lo hi) = lo \<and> range_hi (sample_range_link lo hi) = hi"
proof -
  have "fanout_range (sample_range_link lo hi) = Some (2, lo, hi)"
    by (simp add: fanout_range_def sample_range_link_def exact_keys_mset prop_text_def)
  with assms show ?thesis
    by (simp add: wf_manifest_def wf_kind_def range_ok_def sample_fanout_def range_lo_def range_hi_def max_safe_def)
      (simp add: wf_link_def sample_range_link_def max_safe_def)
qed

lemma fanout_search_order_witness:
  "find_link (sample_fanout [97] [99]) [98] = Some (sample_range_link [97] [99])
    \<and> utf8 [0xFF5E] \<le> utf8 [0xD83D, 0xDE00]
    \<and> find_link (sample_fanout [0xFF5E] [0xD83D, 0xDE00]) [0xFF5E] \<noteq> Some (sample_range_link [0xFF5E] [0xD83D, 0xDE00])"
proof -
  have u: "utf8 [0xFF5E] = [239, 189, 158]" "utf8 [0xD83D, 0xDE00] = [240, 159, 152, 128]" "utf8 [97] = [97]" "utf8 [98] = [98]" "utf8 [99] = [99]"
    by (simp_all add: utf8_def utf8_scalar_def high_surrogate_def low_surrogate_def)
  have ok: "wf_manifest (sample_fanout [97] [99]) \<and> range_lo (sample_range_link [97] [99]) = [97] \<and> range_hi (sample_range_link [97] [99]) = [99]"
    "wf_manifest (sample_fanout [0xFF5E] [0xD83D, 0xDE00]) \<and> range_lo (sample_range_link [0xFF5E] [0xD83D, 0xDE00]) = [0xFF5E]
      \<and> range_hi (sample_range_link [0xFF5E] [0xD83D, 0xDE00]) = [0xD83D, 0xDE00]"
    by (rule sample_fanout_ok; simp add: u)+
  have links: "m_links (sample_fanout lo hi) = [sample_range_link lo hi]" "m_type (sample_fanout lo hi) = M_Fanout" for lo hi
    by (simp_all add: sample_fanout_def)
  show ?thesis
    using fanout_search_order [of "sample_fanout [97] [99]" "[98]" "sample_range_link [97] [99]"]
      fanout_search_order [of "sample_fanout [0xFF5E] [0xD83D, 0xDE00]" "[0xFF5E]" "sample_range_link [0xFF5E] [0xD83D, 0xDE00]"
        "[]" "0xD83D" "0xDE00" "[]" "0xFF5E" "[]"]
      ok u links by (simp add: high_surrogate_def low_surrogate_def)
qed

text \<open>A root with one file \<open>a\<close> of one chunk, a fetcher that reads a table, and its limits.\<close>

definition sample_key :: "nat \<Rightarrow> jstr" where
  "sample_key n = to_hex (replicate 32 (of_nat n))"

definition sample_tree_root :: manifest where
  "sample_tree_root = \<lparr>m_type = M_Directory, m_links = [\<lparr>ml_hash = replicate 32 2, ml_key = None,
     ml_metadata = None, ml_name = Some (js ''a''), ml_size = 2, ml_type = L_File\<rparr>]\<rparr>"

definition sample_tree_file :: manifest where
  "sample_tree_file = \<lparr>m_type = M_File, m_links = [\<lparr>ml_hash = replicate 32 3, ml_key = None,
     ml_metadata = None, ml_name = None, ml_size = 2, ml_type = L_Blob\<rparr>]\<rparr>"

definition sample_content :: "jstr \<Rightarrow> bytes option" where
  "sample_content h =
     (if h = sample_key 4 then Some [1] else if h = sample_key 2 then Some [2]
      else if h = sample_key 3 then Some [7, 8] else None)"

definition sample_reader :: "unit reader_env" where
  "sample_reader = \<lparr>re_limits = sample_traversal\<lparr>tl_max_decoded_bytes := 1000\<rparr>,
     re_manifest_limits = sample_limits,
     re_mp_decode = (\<lambda>w. if w = [1] then Some (manifest_value sample_tree_root)
       else if w = [2] then Some (manifest_value sample_tree_file) else None),
     re_mp_encode = (\<lambda>v. if v = manifest_value sample_tree_root then Some [1]
       else if v = manifest_value sample_tree_file then Some [2] else None),
     re_fetch = (\<lambda>bl h s. (case sample_content h of None \<Rightarrow> (Inl (RE_fetch []), s)
       | Some c \<Rightarrow> (Inr \<lparr>vb_pieces = [c], vb_size = int (length c)\<rparr>, s))),
     re_shared = None, re_aborted = (\<lambda>_. False)\<rparr>"

definition sample_budget :: budget where
  "sample_budget = projr (new_budget sample_traversal (\<lambda>_. 0))"

lemma sample_keys_distinct [simp]:
  "sample_key 4 \<noteq> sample_key 2" "sample_key 4 \<noteq> sample_key 3" "sample_key 2 \<noteq> sample_key 3"
  "sample_key 2 \<noteq> sample_key 4" "sample_key 3 \<noteq> sample_key 4" "sample_key 3 \<noteq> sample_key 2"
  by (simp_all add: sample_key_def replicate_eq_replicate)

lemma sample_reader_faithful: "faithful sample_reader sample_content"
  by (auto simp: faithful_def sample_reader_def split: option.splits)

lemma sample_tree_wf: "wf_manifest sample_tree_root" "wf_manifest sample_tree_file"
  by (simp_all add: wf_manifest_def wf_kind_def wf_link_def sample_tree_root_def
      sample_tree_file_def link_name_def safe_name_def js_eval max_safe_def)

lemma sample_values_differ: "manifest_value sample_tree_file \<noteq> manifest_value sample_tree_root"
  by (simp add: manifest_value_def sample_tree_file_def sample_tree_root_def)

lemma sample_decodes:
  "decode_validated_manifest (re_mp_decode sample_reader) (re_mp_encode sample_reader) [1] sample_limits
    = Inr \<lparr>vm_manifest = sample_tree_root, vm_decoded_bytes = decoded_cost (manifest_value sample_tree_root)\<rparr>"
  "decode_validated_manifest (re_mp_decode sample_reader) (re_mp_encode sample_reader) [2] sample_limits
    = Inr \<lparr>vm_manifest = sample_tree_file, vm_decoded_bytes = decoded_cost (manifest_value sample_tree_file)\<rparr>"
proof -
  have cost: "decoded_cost (manifest_value sample_tree_root) \<le> 65536"
    "decoded_cost (manifest_value sample_tree_file) \<le> 65536"
    by (simp_all add: manifest_value_def link_value_def opt_prop_def sample_tree_root_def
        sample_tree_file_def js_eval utf8_def utf8_scalar_def high_surrogate_def low_surrogate_def)
  show "decode_validated_manifest (re_mp_decode sample_reader) (re_mp_encode sample_reader) [1] sample_limits
    = Inr \<lparr>vm_manifest = sample_tree_root, vm_decoded_bytes = decoded_cost (manifest_value sample_tree_root)\<rparr>"
    using cost sample_tree_wf sample_values_differ
    by (simp add: decode_validated_manifest_def sample_reader_def sample_limits_def safe_int_def
        max_safe_def validate_manifest_manifest_value sample_tree_root_def)
  show "decode_validated_manifest (re_mp_decode sample_reader) (re_mp_encode sample_reader) [2] sample_limits
    = Inr \<lparr>vm_manifest = sample_tree_file, vm_decoded_bytes = decoded_cost (manifest_value sample_tree_file)\<rparr>"
    using cost sample_tree_wf sample_values_differ
    by (simp add: decode_validated_manifest_def sample_reader_def sample_limits_def safe_int_def
        max_safe_def validate_manifest_manifest_value sample_tree_file_def)
qed


lemma sample_costs:
  "decoded_cost (manifest_value sample_tree_root) = 63"
  "decoded_cost (manifest_value sample_tree_file) = 61"
  by (simp_all add: manifest_value_def link_value_def opt_prop_def sample_tree_root_def
      sample_tree_file_def js_eval utf8_def utf8_scalar_def high_surrogate_def low_surrogate_def)

lemma sample_reader_simps:
  "re_limits sample_reader = sample_traversal\<lparr>tl_max_decoded_bytes := 1000\<rparr>"
  "re_manifest_limits sample_reader = sample_limits" "max_wire_bytes sample_limits = 65536"
  "re_shared sample_reader = None" "re_aborted sample_reader w = False"
  "re_fetch sample_reader bl (sample_key 4) s = (Inr \<lparr>vb_pieces = [[1]], vb_size = 1\<rparr>, s)"
  "re_fetch sample_reader bl (sample_key 2) s = (Inr \<lparr>vb_pieces = [[2]], vb_size = 1\<rparr>, s)"
  "re_fetch sample_reader bl (sample_key 3) s = (Inr \<lparr>vb_pieces = [[7, 8]], vb_size = 2\<rparr>, s)"
  by (simp_all add: sample_reader_def sample_limits_def sample_content_def)

lemma sample_budget_eq: "sample_budget = \<lparr>rb_links = 0, rb_nodes = [], rb_decoded = 0, rb_attempts = 0,
    rb_redirects = 0, rb_concurrent = 0, rb_transferred = 0, rb_output = 0, rb_permits = [],
    rb_clock = \<lambda>_. 0, rb_ticks = 0\<rparr>"
  by (simp add: sample_budget_def new_budget_def limit_values_def sample_traversal_def safe_int_def
      max_safe_def)

lemmas reader_eval = resolve_def enter_manifest_def manifest_of_def op_bind_def with_budget_def
  with_world_def load_manifest_def fetch_blob_def budget_op_defs live_def release_permit_def
  remaining_transfer_bytes_def remaining_output_bytes_def Let_def sample_reader_simps sample_budget_eq
  sample_traversal_def sample_decodes sample_costs find_link_def resolve_final_def file_plan_def
  raw_stream_def safe_int_def max_safe_def

lemma sample_tree_simps:
  "m_type sample_tree_root = M_Directory" "m_type sample_tree_file = M_File"
  "m_links sample_tree_root = [\<lparr>ml_hash = replicate 32 2, ml_key = None,
     ml_metadata = None, ml_name = Some (js ''a''), ml_size = 2, ml_type = L_File\<rparr>]"
  "m_links sample_tree_file = [\<lparr>ml_hash = replicate 32 3, ml_key = None,
     ml_metadata = None, ml_name = None, ml_size = 2, ml_type = L_Blob\<rparr>]"
  "to_hex (replicate 32 2) = sample_key 2" "to_hex (replicate 32 3) = sample_key 3"
  by (simp_all add: sample_tree_root_def sample_tree_file_def sample_key_def)

lemma sample_path: "path_segments (js ''a'') = [js ''a'']" "path_segments (js ''b'') = [js ''b'']"
  by (simp_all add: path_segments_def js_eval)

lemma sample_resolves: "\<exists>st'. resolve sample_reader (sample_key 4) (js ''a'') False sample_budget () =
    (Inr \<lparr>rv_hash = sample_key 2, rv_size = 2, rv_type = L_File, rv_body = B_chunks [(sample_key 3, 2)]\<rparr>, st')"
  by (simp add: reader_eval sample_path sample_tree_simps resolve_loop.simps [of _ _ _ "sample_key 4"]
      plan_visit.simps [of _ "sample_key 2"])


lemma sample_absent: "\<exists>st'. resolve sample_reader (sample_key 4) (js ''b'') False sample_budget () =
    (Inl RE_absent, st')"
  by (simp add: reader_eval sample_path sample_tree_simps resolve_loop.simps [of _ _ _ "sample_key 4"])

lemma sample_streams: "\<exists>st'. file_stream sample_reader [(sample_key 3, 2)]
    \<lparr>rs_budget = sample_budget, rs_manifests = [], rs_world = ()\<rparr> = (([[7, 8]], None), st')"
  by (simp add: reader_eval)

lemma resolve_sound_witness:
  "\<exists>l. locates (manifest_at sample_reader sample_content) (sample_key 4) L_Directory [js ''a''] l
    \<and> delivers sample_reader sample_content False l
      \<lparr>rv_hash = sample_key 2, rv_size = 2, rv_type = L_File, rv_body = B_chunks [(sample_key 3, 2)]\<rparr>"
proof -
  obtain st' where "resolve sample_reader (sample_key 4) (js ''a'') False sample_budget () =
    (Inr \<lparr>rv_hash = sample_key 2, rv_size = 2, rv_type = L_File, rv_body = B_chunks [(sample_key 3, 2)]\<rparr>, st')"
    using sample_resolves by blast
  from resolve_sound [OF sample_reader_faithful this] show ?thesis by (simp add: sample_path)
qed

lemma resolve_absent_sound_witness:
  "\<nexists>l. locates (manifest_at sample_reader sample_content) (sample_key 4) L_Directory [js ''b''] l"
proof -
  obtain st' where run: "resolve sample_reader (sample_key 4) (js ''b'') False sample_budget () =
    (Inl RE_absent, st')"
    using sample_absent by blast
  have "plain_fanouts (manifest_at sample_reader sample_content)"
    using sample_decodes
    by (auto simp: plain_fanouts_def manifest_at_def sample_content_def sample_reader_simps
        sample_tree_simps decode_validated_manifest_def sample_reader_def
        split: option.splits sum.splits if_splits)
  from resolve_absent_sound [OF sample_reader_faithful this run]
  show ?thesis unfolding sample_path by blast
qed

lemma file_delivery_witness:
  "int (length (concat [[7, 8 :: byte]])) = 2
    \<and> file_chunks (manifest_at sample_reader sample_content) (sample_key 2) 2 [(sample_key 3, 2)]"
proof -
  obtain st1 where r: "resolve sample_reader (sample_key 4) (js ''a'') False sample_budget () =
    (Inr \<lparr>rv_hash = sample_key 2, rv_size = 2, rv_type = L_File, rv_body = B_chunks [(sample_key 3, 2)]\<rparr>, st1)"
    using sample_resolves by blast
  obtain st3 where f: "file_stream sample_reader [(sample_key 3, 2)]
    \<lparr>rs_budget = sample_budget, rs_manifests = [], rs_world = ()\<rparr> = (([[7, 8]], None), st3)"
    using sample_streams by blast
  show ?thesis using file_delivery [OF sample_reader_faithful r _ f] by simp
qed

end
