(* ===== verification/Writer.thy ===== *)
theory Writer
  imports Reader
begin

section \<open>Building a tree (hashtree/writer.ts)\<close>

text \<open>
  \<^verbatim>\<open>src/hashtree/writer.ts\<close>, class \<open>HashtreeWriter\<close>: the method \<open>#build\<close> splits files into
  chunks, groups the links of files and directories into manifests of at most \<open>maxLinks\<close>
  links, level by level, and keeps an inventory of the blobs it wrote. SHA-256 and
  MessagePack are functions of the record \<open>writer_env\<close>; so is the store that blobs are put
  into (a directory of files, or the blob store) and the local files that are read. The
  table \<open>work\<close> of one scope and level is the list of its links in order of \<open>seq\<close>; the tables
  of the inventory and of the nodes are fields of the state. The ownership rows of a run are
  modelled with the repository that keeps them.
\<close>

definition file_chunk_bytes :: nat where
  "file_chunk_bytes = 2097152"

record writer_limits =
  wl_max_links :: nat
  wl_max_blobs :: int
  wl_max_bytes :: int
  wl_max_entries :: "int option"
  wl_max_route_bytes :: "int option"
  wl_max_route_depth :: "int option"

record candidate_blob =
  cb_hash :: jstr
  cb_size :: int
  cb_path :: jstr

record inventory_row = candidate_blob +
  iv_created :: bool

record logical_file =
  lf_route :: jstr
  lf_path :: "jstr option"
  lf_size :: int
  lf_components :: "route_component list option"

datatype writer_error =
    WE_limits | WE_aborted | WE_identity | WE_ceiling | WE_encode | WE_store | WE_size
  | WE_entries | WE_unsafe_route | WE_route_bytes | WE_route_depth | WE_route_order
  | WE_component_order | WE_component_chunking | WE_component_missing | WE_no_source
  | WE_file_changed | WE_key | WE_base_missing | WE_base_manifest manifest_error | WE_base_type
  | WE_base_link | WE_base_name

text \<open>A row of the table \<open>nodes\<close>.\<close>

record node_row =
  nd_path :: jstr
  nd_parent :: jstr
  nd_name :: jstr
  nd_depth :: int
  nd_is_file :: bool
  nd_component_source :: bool
  nd_hash :: "bytes option"
  nd_size :: "int option"
  nd_type :: "link_type option"
  nd_source_path :: "jstr option"
  nd_source_size :: "int option"

record 'w wstate =
  ws_inventory :: "inventory_row list"
  ws_total :: int
  ws_created :: int
  ws_max_buffered :: int
  ws_nodes :: "node_row list"
  ws_components :: "(jstr \<times> route_component) list"
  ws_world :: 'w

type_synonym ('w, 'a) wop = "('w wstate, writer_error, 'a) op"

record 'w writer_env =
  we_limits :: writer_limits
  we_sha :: "bytes \<Rightarrow> bytes"
  we_mp_encode :: "jsval \<Rightarrow> bytes option"
  we_path_for :: "jstr \<Rightarrow> jstr"
  we_put :: "jstr \<Rightarrow> bytes \<Rightarrow> ('w, writer_error, bool) op"
  we_lookup :: "'w \<Rightarrow> jstr \<Rightarrow> (int \<times> jstr) option"
  we_read_file :: "'w \<Rightarrow> jstr \<Rightarrow> bytes option"
  we_aborted :: "'w \<Rightarrow> bool"

definition hash_of :: "'w writer_env \<Rightarrow> bytes \<Rightarrow> jstr" where
  "hash_of env b = to_hex (we_sha env b)"

subsection \<open>The inventory\<close>

definition inventory_blob :: "jstr \<Rightarrow> 'w wstate \<Rightarrow> inventory_row option" where
  "inventory_blob h st = row cb_hash h (ws_inventory st)"

definition ensure_inventory_room :: "'w writer_env \<Rightarrow> int \<Rightarrow> 'w wstate \<Rightarrow> bool" where
  "ensure_inventory_room env n st \<longleftrightarrow>
     \<not> (int (length (ws_inventory st)) + 1 > wl_max_blobs (we_limits env)
        \<or> ws_total st + n > wl_max_bytes (we_limits env))"

definition inventory_row_of :: "candidate_blob \<Rightarrow> bool \<Rightarrow> inventory_row" where
  "inventory_row_of b c = \<lparr>cb_hash = cb_hash b, cb_size = cb_size b, cb_path = cb_path b, iv_created = c\<rparr>"

text \<open>\<open>recordCandidate\<close>: the total is raised first, then the row is inserted (which may fail).\<close>

definition record_candidate :: "candidate_blob \<Rightarrow> bool \<Rightarrow> ('w, candidate_blob) wop" where
  "record_candidate b c st =
     (let st1 = st\<lparr>ws_total := ws_total st + cb_size b\<rparr> in
      (case insert_row cb_hash (inventory_row_of b c) (ws_inventory st1) of
         None \<Rightarrow> (Inl WE_key, st1)
       | Some t \<Rightarrow> (Inr b, st1\<lparr>ws_inventory := t\<rparr>)))"

definition checked_existing :: "inventory_row \<Rightarrow> candidate_blob \<Rightarrow> ('w, candidate_blob) wop" where
  "checked_existing old b st =
     (if cb_size old \<noteq> cb_size b \<or> cb_path old \<noteq> cb_path b then (Inl WE_identity, st) else (Inr b, st))"

definition register_candidate :: "'w writer_env \<Rightarrow> candidate_blob \<Rightarrow> ('w, candidate_blob) wop" where
  "register_candidate env b st =
     (case inventory_blob (cb_hash b) st of
        Some old \<Rightarrow> checked_existing old b st
      | None \<Rightarrow> if \<not> ensure_inventory_room env (cb_size b) st then (Inl WE_ceiling, st)
                else record_candidate b False st)"

definition persist :: "'w writer_env \<Rightarrow> bytes \<Rightarrow> ('w, candidate_blob) wop" where
  "persist env bs st =
     (if we_aborted env (ws_world st) then (Inl WE_aborted, st)
      else let hash = hash_of env bs;
               b = \<lparr>cb_hash = hash, cb_size = int (length bs), cb_path = we_path_for env hash\<rparr> in
        (case inventory_blob hash st of
           Some old \<Rightarrow> checked_existing old b st
         | None \<Rightarrow>
             if \<not> ensure_inventory_room env (cb_size b) st then (Inl WE_ceiling, st)
             else (case we_put env hash bs (ws_world st) of
                     (Inl e, w) \<Rightarrow> (Inl e, st\<lparr>ws_world := w\<rparr>)
                   | (Inr fresh, w) \<Rightarrow>
                       record_candidate b fresh
                         (st\<lparr>ws_world := w, ws_created := ws_created st + (if fresh then 1 else 0)\<rparr>))))"

subsection \<open>Collapsing links into manifests\<close>

text \<open>\<open>logicalSize\<close>.\<close>

fun logical_size :: "int \<Rightarrow> manifest_link list \<Rightarrow> writer_error + int" where
  "logical_size acc [] = Inr acc"
| "logical_size acc (l # ls) =
     (if \<not> safe_int (acc + ml_size l) then Inl WE_size else logical_size (acc + ml_size l) ls)"

definition link_count :: "manifest_link \<Rightarrow> int" where
  "link_count l =
     (case ml_metadata l of None \<Rightarrow> 1
      | Some p \<Rightarrow> (case map_of p (js ''count'') of Some (V_Int n) \<Rightarrow> n | _ \<Rightarrow> 1))"

definition links_count :: "manifest_link list \<Rightarrow> int" where
  "links_count ls = sum_list (map link_count ls)"

text \<open>\<open>link.metadata?.first ?? link.name\<close>, and the same for \<open>last\<close>.\<close>

definition bound_name :: "string \<Rightarrow> manifest_link \<Rightarrow> jstr" where
  "bound_name k l =
     (case ml_metadata l of None \<Rightarrow> the (ml_name l)
      | Some p \<Rightarrow> (case prop_text p k of Some s \<Rightarrow> s | None \<Rightarrow> the (ml_name l)))"

datatype tree_kind = K_file | K_directory

definition manifest_kind :: "tree_kind \<Rightarrow> nat \<Rightarrow> manifest_type" where
  "manifest_kind k level =
     (if k = K_file then M_File else if level = 0 then M_Directory else M_Fanout)"

definition kind_link :: "manifest_type \<Rightarrow> link_type" where
  "kind_link mt = (case mt of M_File \<Rightarrow> L_File | M_Directory \<Rightarrow> L_Directory | M_Fanout \<Rightarrow> L_Fanout)"

text \<open>Encoding a manifest and persisting it.\<close>

definition persist_manifest :: "'w writer_env \<Rightarrow> manifest \<Rightarrow> ('w, candidate_blob) wop" where
  "persist_manifest env m st =
     (case encode_manifest (we_mp_encode env) m of
        None \<Rightarrow> (Inl WE_encode, st) | Some bs \<Rightarrow> persist env bs st)"

text \<open>The link that \<open>flushGroup\<close> stores for a group, given the blob of its manifest.\<close>

definition group_link :: "'w writer_env \<Rightarrow> tree_kind \<Rightarrow> nat \<Rightarrow> manifest \<Rightarrow> bytes \<Rightarrow> int \<Rightarrow> manifest_link" where
  "group_link env k level m digest n =
     \<lparr>ml_hash = digest, ml_key = None,
      ml_metadata = (if k = K_file then None
        else Some [(js ''count'', V_Int (links_count (m_links m))),
                   (js ''first'', V_Str (bound_name ''first'' (hd (m_links m)))),
                   (js ''last'', V_Str (bound_name ''last'' (last (m_links m))))]),
      ml_name = None, ml_size = n, ml_type = kind_link (m_type m)\<rparr>"

definition flush_group ::
  "'w writer_env \<Rightarrow> tree_kind \<Rightarrow> nat \<Rightarrow> manifest_link list \<Rightarrow> ('w, manifest_link) wop" where
  "flush_group env k level links st =
     (if we_aborted env (ws_world st) then (Inl WE_aborted, st)
      else let m = \<lparr>m_type = manifest_kind k level, m_links = links\<rparr>;
               st0 = st\<lparr>ws_max_buffered := max (ws_max_buffered st) (int (length links))\<rparr> in
        (case persist_manifest env m st0 of
           (Inl e, s) \<Rightarrow> (Inl e, s)
         | (Inr b, s) \<Rightarrow>
             (case logical_size 0 links of
                Inl e \<Rightarrow> (Inl e, s)
              | Inr n \<Rightarrow> (Inr (group_link env k level m
                    (we_sha env (the (encode_manifest (we_mp_encode env) m))) n), s))))"

fun flush_all ::
  "'w writer_env \<Rightarrow> tree_kind \<Rightarrow> nat \<Rightarrow> manifest_link list list \<Rightarrow> ('w, manifest_link list) wop" where
  "flush_all env k level [] st = (Inr [], st)"
| "flush_all env k level (g # gs) st =
     (case flush_group env k level g st of
        (Inl e, s) \<Rightarrow> (Inl e, s)
      | (Inr l, s) \<Rightarrow>
          (case flush_all env k level gs s of
             (Inl e, s') \<Rightarrow> (Inl e, s') | (Inr ls, s') \<Rightarrow> (Inr (l # ls), s')))"

function groups :: "nat \<Rightarrow> 'a list \<Rightarrow> 'a list list" where
  "groups n xs = (if n = 0 \<or> xs = [] then [] else take n xs # groups n (drop n xs))"
  by pat_completeness auto
termination by (relation "measure (\<lambda>(n, xs). length xs)") auto

declare groups.simps [simp del]

record built =
  bt_blob :: candidate_blob
  bt_digest :: bytes
  bt_size :: int
  bt_type :: link_type
  bt_count :: int

text \<open>
  \<open>collapse\<close>: while there are more than \<open>maxLinks\<close> links, a level of manifests over groups of
  \<open>maxLinks\<close> replaces them; then one manifest is left. The constructor of the writer has
  thrown when \<open>maxLinks\<close> is below two, so the first branch is that of no writer.
\<close>

lemma length_groups: "2 \<le> n \<Longrightarrow> n < length xs \<Longrightarrow> length (groups n xs) < length xs"
proof -
  assume n: "2 \<le> n"
  have "length (groups n ys) \<le> length ys div 2 + 1 \<and> (ys = [] \<longrightarrow> groups n ys = [])
      \<and> 2 * length (groups n ys) \<le> length ys + 1" for ys
    using n
  proof (induction n ys rule: groups.induct)
    case (1 n ys)
    then show ?case
    proof (cases "ys = []")
      case False
      then have g: "groups n ys = take n ys # groups n (drop n ys)"
        using 1(2) by (simp add: groups.simps [of n ys])
      have ih: "2 * length (groups n (drop n ys)) \<le> length (drop n ys) + 1"
        "drop n ys = [] \<longrightarrow> groups n (drop n ys) = []"
        using 1 False by auto
      have "2 * length (groups n ys) \<le> length ys + 1"
      proof (cases "length ys \<le> n")
        case True
        with False g ih(2) show ?thesis by (cases ys) auto
      next
        case long: False
        with ih(1) g 1(2) show ?thesis by auto
      qed
      with False show ?thesis by auto
    qed (simp add: groups.simps [of n "[]"])
  qed
  then have "2 * length (groups n xs) \<le> length xs + 1" by blast
  moreover assume "n < length xs"
  ultimately show ?thesis using n by linarith
qed

lemma flush_all_length:
  "flush_all env k level gs st = (Inr ls, st') \<Longrightarrow> length ls = length gs"
  by (induction gs arbitrary: st ls) (auto split: prod.splits sum.splits)

function collapse ::
  "'w writer_env \<Rightarrow> tree_kind \<Rightarrow> nat \<Rightarrow> manifest_link list \<Rightarrow> ('w, built) wop" where
  "collapse env k level links st =
     (if wl_max_links (we_limits env) < 2 then (Inl WE_limits, st)
      else if we_aborted env (ws_world st) then (Inl WE_aborted, st)
      else if length links \<le> wl_max_links (we_limits env) then
        (let m = \<lparr>m_type = manifest_kind k level, m_links = links\<rparr>;
             st0 = st\<lparr>ws_max_buffered := max (ws_max_buffered st) (int (length links))\<rparr> in
         (case persist_manifest env m st0 of
            (Inl e, s) \<Rightarrow> (Inl e, s)
          | (Inr b, s) \<Rightarrow>
              (case logical_size 0 links of
                 Inl e \<Rightarrow> (Inl e, s)
               | Inr n \<Rightarrow> (Inr \<lparr>bt_blob = b,
                     bt_digest = we_sha env (the (encode_manifest (we_mp_encode env) m)),
                     bt_size = n, bt_type = kind_link (m_type m),
                     bt_count = (if k = K_file then 1 else links_count links)\<rparr>, s))))
      else (case flush_all env k level (groups (wl_max_links (we_limits env)) links) st of
              (Inl e, s) \<Rightarrow> (Inl e, s)
            | (Inr ls, s) \<Rightarrow> collapse env k (level + 1) ls s))"
  by pat_completeness auto
termination
  by (relation "measure (\<lambda>(env, k, level, links, st). length links)")
    (auto dest!: flush_all_length [OF sym] simp: length_groups)

declare collapse.simps [simp del]


subsection \<open>Files\<close>

definition chunk_link :: "bytes \<Rightarrow> int \<Rightarrow> manifest_link" where
  "chunk_link digest n = \<lparr>ml_hash = digest, ml_key = None, ml_metadata = None, ml_name = None,
     ml_size = n, ml_type = L_Blob\<rparr>"

text \<open>The loop that reads a file: each read fills a chunk or reaches the end of the file.\<close>

fun persist_chunks ::
  "'w writer_env \<Rightarrow> bytes list \<Rightarrow> ('w, (manifest_link \<times> candidate_blob) list) wop" where
  "persist_chunks env [] st = (if we_aborted env (ws_world st) then (Inl WE_aborted, st) else (Inr [], st))"
| "persist_chunks env (c # cs) st =
     (case persist env c st of
        (Inl e, s) \<Rightarrow> (Inl e, s)
      | (Inr b, s) \<Rightarrow>
          (case persist_chunks env cs s of
             (Inl e, s') \<Rightarrow> (Inl e, s')
           | (Inr ls, s') \<Rightarrow> (Inr ((chunk_link (we_sha env c) (int (length c)), b) # ls), s')))"

text \<open>The loop over the stored components of a route: order, chunking and availability.\<close>

fun component_links ::
  "'w writer_env \<Rightarrow> int \<Rightarrow> int option \<Rightarrow> (route_component \<times> bytes) list
    \<Rightarrow> ('w, (manifest_link \<times> candidate_blob) list) wop" where
  "component_links env i prev [] st = (Inr [], st)"
| "component_links env i prev ((c, digest) # cs) st =
     (if we_aborted env (ws_world st) then (Inl WE_aborted, st)
      else if rc_index c \<noteq> i then (Inl WE_component_order, st)
      else if rc_size c \<le> 0 \<or> rc_size c > int file_chunk_bytes
        \<or> (case prev of None \<Rightarrow> False | Some n \<Rightarrow> n \<noteq> int file_chunk_bytes)
      then (Inl WE_component_chunking, st)
      else (case we_lookup env (ws_world st) (rc_hash c) of
          None \<Rightarrow> (Inl WE_component_missing, st)
        | Some (n, path) \<Rightarrow>
            if n \<noteq> rc_size c then (Inl WE_component_missing, st)
            else (case register_candidate env
                    \<lparr>cb_hash = rc_hash c, cb_size = rc_size c, cb_path = path\<rparr> st of
                (Inl e, s) \<Rightarrow> (Inl e, s)
              | (Inr b, s) \<Rightarrow>
                  (case component_links env (i + 1) (Some (rc_size c)) cs s of
                     (Inl e, s') \<Rightarrow> (Inl e, s')
                   | (Inr ls, s') \<Rightarrow> (Inr ((chunk_link digest (rc_size c), b) # ls), s')))))"

text \<open>
  \<open>buildFile\<close>: \<open>hex_bytes\<close> reads a hash of the table of components. One chunk (or none: the
  empty blob) is linked directly, more are collapsed.
\<close>

definition build_file :: "'w writer_env \<Rightarrow> (jstr \<Rightarrow> bytes) \<Rightarrow> node_row \<Rightarrow> ('w, built) wop" where
  "build_file env hex_bytes f st =
     (case (if nd_component_source f
            then component_links env 0 None
              (map (\<lambda>(p, c). (c, hex_bytes (rc_hash c)))
                (sort_key (\<lambda>(p, c). rc_index c) (filter (\<lambda>(p, c). p = nd_path f) (ws_components st)))) st
            else (case nd_source_path f of
                None \<Rightarrow> (Inl WE_no_source, st)
              | Some path \<Rightarrow>
                  (case we_read_file env (ws_world st) path of
                     None \<Rightarrow> (Inl WE_store, st)
                   | Some content \<Rightarrow> persist_chunks env (groups file_chunk_bytes content) st))) of
        (Inl e, s) \<Rightarrow> (Inl e, s)
      | (Inr chunks, s) \<Rightarrow>
          let observed = sum_list (map (ml_size \<circ> fst) chunks) in
          if Some observed \<noteq> nd_source_size f then (Inl WE_file_changed, s)
          else (case chunks of
              [] \<Rightarrow>
                (case persist env [] s of
                   (Inl e, s') \<Rightarrow> (Inl e, s')
                 | (Inr b, s') \<Rightarrow> (Inr \<lparr>bt_blob = b, bt_digest = we_sha env [], bt_size = 0,
                     bt_type = L_Blob, bt_count = 1\<rparr>, s'))
            | [(l, b)] \<Rightarrow> (Inr \<lparr>bt_blob = b, bt_digest = ml_hash l, bt_size = ml_size l,
                     bt_type = L_Blob, bt_count = 1\<rparr>, s)
            | _ \<Rightarrow> collapse env K_file 0 (map fst chunks) s))"

subsection \<open>Logical files and nodes\<close>

definition join_path :: "jstr list \<Rightarrow> jstr" where
  "join_path parts = join_with [47] parts"

definition limit_or :: "int option \<Rightarrow> int \<Rightarrow> int" where
  "limit_or v d = (case v of None \<Rightarrow> d | Some n \<Rightarrow> n)"

definition blank_node :: "jstr \<Rightarrow> jstr \<Rightarrow> jstr \<Rightarrow> int \<Rightarrow> node_row" where
  "blank_node path parent name depth = \<lparr>nd_path = path, nd_parent = parent, nd_name = name,
     nd_depth = depth, nd_is_file = False, nd_component_source = False, nd_hash = None,
     nd_size = None, nd_type = None, nd_source_path = None, nd_source_size = None\<rparr>"

definition directory_node :: "jstr list \<Rightarrow> nat \<Rightarrow> node_row" where
  "directory_node parts depth =
     blank_node (join_path (take depth parts)) (join_path (take (depth - 1) parts))
       (if depth = 0 then [] else parts ! (depth - 1)) (int depth)"

text \<open>
  The body of the loop over the given files; \<open>entries\<close> counts them and \<open>previous\<close> is the
  last route.
\<close>

definition add_file ::
  "'w writer_env \<Rightarrow> logical_file \<Rightarrow> int \<Rightarrow> jstr option \<Rightarrow> ('w, int \<times> jstr option) wop" where
  "add_file env f entries previous st =
     (let lim = we_limits env; parts = path_segments (lf_route f) in
      if we_aborted env (ws_world st) then (Inl WE_aborted, st)
      else if entries + 1 > limit_or (wl_max_entries lim) (wl_max_blobs lim) then (Inl WE_entries, st)
      else if parts = [] \<or> list_ex (\<lambda>x. x = js ''.'' \<or> x = js ''..'' \<or> 0 \<in> set x) parts
      then (Inl WE_unsafe_route, st)
      else if int (length (utf8 (lf_route f))) > limit_or (wl_max_route_bytes lim) 4096
      then (Inl WE_route_bytes, st)
      else if int (length parts) > limit_or (wl_max_route_depth lim) 32 then (Inl WE_route_depth, st)
      else if (case previous of None \<Rightarrow> False | Some q \<Rightarrow> byte_compare q (lf_route f) \<ge> 0)
      then (Inl WE_route_order, st)
      else let node = (blank_node (lf_route f) (join_path (butlast parts)) (last parts)
                   (int (length parts)))\<lparr>nd_is_file := True,
                   nd_component_source := lf_components f \<noteq> None,
                   nd_source_path := lf_path f, nd_source_size := Some (lf_size f)\<rparr>;
               st1 = st\<lparr>ws_nodes := insert_replace nd_path node (ws_nodes st)\<rparr> in
        (case (case lf_components f of None \<Rightarrow> Some (ws_components st1)
               | Some cs \<Rightarrow> insert_rows (\<lambda>(p, c). (p, rc_index c)) (map (Pair (lf_route f)) cs)
                    (ws_components st1)) of
           None \<Rightarrow> (Inl WE_key, st1)
         | Some comps \<Rightarrow>
             (Inr (entries + 1, Some (lf_route f)),
              st1\<lparr>ws_components := comps,
                  ws_nodes := insert_rows_ignore nd_path
                    (map (directory_node parts) [0..<length parts]) (ws_nodes st1)\<rparr>)))"

fun add_files ::
  "'w writer_env \<Rightarrow> logical_file list \<Rightarrow> int \<Rightarrow> jstr option \<Rightarrow> ('w, int) wop" where
  "add_files env [] entries previous st = (Inr entries, st)"
| "add_files env (f # fs) entries previous st =
     (case add_file env f entries previous st of
        (Inl e, s) \<Rightarrow> (Inl e, s) | (Inr (n, q), s) \<Rightarrow> add_files env fs n q s)"

definition set_built :: "jstr \<Rightarrow> built \<Rightarrow> 'w wstate \<Rightarrow> 'w wstate" where
  "set_built path b st = st\<lparr>ws_nodes := update_where (\<lambda>r. nd_path r = path)
     (\<lambda>r. r\<lparr>nd_hash := Some (bt_digest b), nd_size := Some (bt_size b), nd_type := Some (bt_type b)\<rparr>)
     (ws_nodes st)\<rparr>"

fun build_files :: "'w writer_env \<Rightarrow> (jstr \<Rightarrow> bytes) \<Rightarrow> node_row list \<Rightarrow> ('w, unit) wop" where
  "build_files env hex_bytes [] st = (Inr (), st)"
| "build_files env hex_bytes (f # fs) st =
     (case build_file env hex_bytes f st of
        (Inl e, s) \<Rightarrow> (Inl e, s)
      | (Inr b, s) \<Rightarrow> build_files env hex_bytes fs (set_built (nd_path f) b s))"

text \<open>The links of a directory: its children by the bytes of their names, each already built.\<close>

definition child_link :: "node_row \<Rightarrow> manifest_link option" where
  "child_link r =
     (case (nd_hash r, nd_size r, nd_type r) of
        (Some h, Some n, Some t) \<Rightarrow> Some \<lparr>ml_hash = h, ml_key = None, ml_metadata = None,
            ml_name = Some (nd_name r), ml_size = n, ml_type = t\<rparr>
      | _ \<Rightarrow> None)"

definition directory_links :: "jstr \<Rightarrow> node_row list \<Rightarrow> manifest_link list option" where
  "directory_links path nodes =
     all_some (map child_link (sort_key (\<lambda>r. utf8 (nd_name r))
       (filter (\<lambda>r. nd_parent r = path \<and> nd_path r \<noteq> path) nodes)))"

fun build_directories :: "'w writer_env \<Rightarrow> jstr list \<Rightarrow> ('w, unit) wop" where
  "build_directories env [] st = (Inr (), st)"
| "build_directories env (path # paths) st =
     (case directory_links path (ws_nodes st) of
        None \<Rightarrow> (Inl WE_store, st)
      | Some links \<Rightarrow>
          (case collapse env K_directory 0 links st of
             (Inl e, s) \<Rightarrow> (Inl e, s)
           | (Inr b, s) \<Rightarrow> build_directories env paths (set_built path b s)))"

text \<open>\<open>#build\<close> without a base: the nodes, the files by path, the directories from the deepest up.\<close>

definition build_tree :: "'w writer_env \<Rightarrow> (jstr \<Rightarrow> bytes) \<Rightarrow> logical_file list \<Rightarrow> ('w, node_row) wop" where
  "build_tree env hex_bytes files st =
     (case add_files env files 0 None st of
        (Inl e, s) \<Rightarrow> (Inl e, s)
      | (Inr entries, s) \<Rightarrow>
          (case build_files env hex_bytes (sort_key (\<lambda>r. utf8 (nd_path r))
                  (filter (\<lambda>r. nd_is_file r \<and> nd_source_size r \<noteq> None) (ws_nodes s))) s of
             (Inl e, s') \<Rightarrow> (Inl e, s')
           | (Inr u, s') \<Rightarrow>
               (case build_directories env
                       (map nd_path (sort_key (\<lambda>r. - nd_depth r) (sort_key (\<lambda>r. utf8 (nd_path r))
                         (filter (\<lambda>r. \<not> nd_is_file r \<and> nd_hash r = None) (ws_nodes s'))))) s' of
                  (Inl e, s'') \<Rightarrow> (Inl e, s'')
                | (Inr v, s'') \<Rightarrow>
                    (case row nd_path [] (ws_nodes s'') of
                       None \<Rightarrow> (Inl WE_store, s'') | Some r \<Rightarrow> (Inr r, s'')))))"

end
