(* ===== verification/Writer_Proofs.thy ===== *)
theory Writer_Proofs
  imports Writer
begin

section \<open>What the writer builds\<close>

text \<open>
  The grouping of links into manifests is stated once as a pure function, \<open>tree_manifests\<close>;
  the writer's \<open>collapse\<close> is shown to store exactly these manifests, through the laws that any
  content store promises (locale \<open>content_store\<close>, interpreted on the directory of files that
  the writer uses without a blob store). Reading back with the reader's specification then
  gives the links that went in.
\<close>

subsection \<open>The pure tree\<close>

definition total_size :: "manifest_link list \<Rightarrow> int" where
  "total_size ls = sum_list (map ml_size ls)"

definition manifest_bytes :: "'w writer_env \<Rightarrow> manifest \<Rightarrow> bytes" where
  "manifest_bytes env m = the (encode_manifest (we_mp_encode env) m)"

definition group_manifest :: "tree_kind \<Rightarrow> nat \<Rightarrow> manifest_link list \<Rightarrow> manifest" where
  "group_manifest k level g = \<lparr>m_type = manifest_kind k level, m_links = g\<rparr>"

definition parent_link :: "'w writer_env \<Rightarrow> tree_kind \<Rightarrow> nat \<Rightarrow> manifest_link list \<Rightarrow> manifest_link" where
  "parent_link env k level g =
     (let m = group_manifest k level g in
      group_link env k level m (we_sha env (manifest_bytes env m)) (total_size g))"

function tree_manifests :: "'w writer_env \<Rightarrow> tree_kind \<Rightarrow> nat \<Rightarrow> manifest_link list \<Rightarrow> manifest list" where
  "tree_manifests env k level links =
     (let n = wl_max_links (we_limits env) in
      if n < 2 then []
      else if length links \<le> n then [group_manifest k level links]
      else map (group_manifest k level) (groups n links)
        @ tree_manifests env k (level + 1) (map (parent_link env k level) (groups n links)))"
  by pat_completeness auto
termination
  by (relation "measure (\<lambda>(env, k, level, links). length links)") (auto simp: length_groups)

declare tree_manifests.simps [simp del]

lemma groups_rec: "0 < n \<Longrightarrow> xs \<noteq> [] \<Longrightarrow> groups n xs = take n xs # groups n (drop n xs)"
  by (simp add: groups.simps [of n xs])

lemma groups_Nil [simp]: "groups n [] = []"
  by (simp add: groups.simps)

lemma concat_groups: "0 < n \<Longrightarrow> concat (groups n xs) = xs"
proof (induction n xs rule: groups.induct)
  case (1 n xs)
  then show ?case by (cases "xs = []") (simp_all add: groups_rec)
qed

lemma groups_bound: "0 < n \<Longrightarrow> g \<in> set (groups n xs) \<Longrightarrow> g \<noteq> [] \<and> length g \<le> n"
proof (induction n xs rule: groups.induct)
  case (1 n xs)
  then show ?case by (cases "xs = []") (auto simp: groups_rec)
qed

lemma logical_size_Inr: "logical_size acc ls = Inr n \<Longrightarrow> n = acc + total_size ls"
proof (induction ls arbitrary: acc)
  case (Cons l ls)
  then have "logical_size (acc + ml_size l) ls = Inr n" by (simp split: if_splits)
  from Cons.IH [OF this] show ?case by (simp add: total_size_def)
qed (simp add: total_size_def)

lemma logical_size_safe: "logical_size acc ls = Inr n \<Longrightarrow> acc \<le> max_safe \<Longrightarrow> n \<le> max_safe"
proof (induction ls arbitrary: acc)
  case (Cons l ls)
  then have "logical_size (acc + ml_size l) ls = Inr n" "acc + ml_size l \<le> max_safe"
    by (simp_all add: safe_int_def split: if_splits)
  then show ?case by (rule Cons.IH)
qed simp

lemma tree_manifests_bound:
  "m \<in> set (tree_manifests env k level links) \<Longrightarrow>
     length (m_links m) \<le> wl_max_links (we_limits env)"
proof (induction env k level links rule: tree_manifests.induct)
  case (1 env k level links)
  let ?n = "wl_max_links (we_limits env)"
  consider "?n < 2" | "\<not> ?n < 2" "length links \<le> ?n" | "\<not> ?n < 2" "\<not> length links \<le> ?n" by blast
  then show ?case
  proof cases
    case 3
    then have "m \<in> group_manifest k level ` set (groups ?n links)
        \<or> m \<in> set (tree_manifests env k (level + 1) (map (parent_link env k level) (groups ?n links)))"
      using "1.prems" by (subst (asm) tree_manifests.simps) (auto simp: Let_def)
    then show ?thesis
    proof
      assume "m \<in> group_manifest k level ` set (groups ?n links)"
      then show ?thesis using groups_bound [of ?n _ links] 3 by (auto simp: group_manifest_def)
    next
      assume "m \<in> set (tree_manifests env k (level + 1) (map (parent_link env k level) (groups ?n links)))"
      then show ?thesis using "1.IH" [OF refl 3] by blast
    qed
  qed (use "1.prems" in \<open>simp_all add: tree_manifests.simps [of env k level links] group_manifest_def\<close>)
qed

lemma tree_manifests_nonempty:
  "2 \<le> wl_max_links (we_limits env) \<Longrightarrow> tree_manifests env k level links \<noteq> []"
  by (induction env k level links rule: tree_manifests.induct)
    (subst tree_manifests.simps, auto simp: Let_def)

lemma tree_manifests_types:
  "m \<in> set (tree_manifests env k level links) \<Longrightarrow> \<exists>lv \<ge> level. m_type m = manifest_kind k lv"
proof (induction env k level links rule: tree_manifests.induct)
  case (1 env k level links)
  let ?n = "wl_max_links (we_limits env)"
  consider "?n < 2" | "\<not> ?n < 2" "length links \<le> ?n" | "\<not> ?n < 2" "\<not> length links \<le> ?n" by blast
  then show ?case
  proof cases
    case 3
    then have "m \<in> group_manifest k level ` set (groups ?n links)
        \<or> m \<in> set (tree_manifests env k (level + 1) (map (parent_link env k level) (groups ?n links)))"
      using "1.prems" by (subst (asm) tree_manifests.simps) (auto simp: Let_def)
    then show ?thesis
    proof
      assume "m \<in> group_manifest k level ` set (groups ?n links)"
      then show ?thesis by (auto simp: group_manifest_def)
    next
      assume "m \<in> set (tree_manifests env k (level + 1) (map (parent_link env k level) (groups ?n links)))"
      from "1.IH" [OF refl 3 this] obtain lv where "level + 1 \<le> lv" "m_type m = manifest_kind k lv"
        by blast
      then show ?thesis by (intro exI [of _ lv]) simp
    qed
  qed (use "1.prems" in \<open>auto simp: tree_manifests.simps [of env k level links] group_manifest_def\<close>)
qed

lemma tree_manifests_file: "m \<in> set (tree_manifests env K_file level links) \<Longrightarrow> m_type m = M_File"
  using tree_manifests_types [of m env K_file level links] by (auto simp: manifest_kind_def)

subsection \<open>The interface of a content store\<close>

locale content_store =
  fixes env :: "'w writer_env" and get :: "'w \<Rightarrow> jstr \<Rightarrow> bytes option" and ok :: "'w \<Rightarrow> bool"
  assumes put_ok: "ok w \<Longrightarrow> we_put env (hash_of env c) c w = (r, w') \<Longrightarrow> ok w'"
    and put_get: "ok w \<Longrightarrow> we_put env (hash_of env c) c w = (Inr fresh, w') \<Longrightarrow> get w' (hash_of env c) \<noteq> None"
    and put_keep: "ok w \<Longrightarrow> we_put env (hash_of env c) c w = (r, w') \<Longrightarrow> get w h = Some d \<Longrightarrow> get w' h = Some d"
    and put_new: "ok w \<Longrightarrow> we_put env (hash_of env c) c w = (r, w') \<Longrightarrow> get w' h = Some d
      \<Longrightarrow> get w h = Some d \<or> h = hash_of env c \<and> d = c"
begin

definition stored :: "'w wstate \<Rightarrow> bool" where
  "stored st \<longleftrightarrow> ok (ws_world st) \<and> (\<forall>r \<in> set (ws_inventory st). get (ws_world st) (cb_hash r) \<noteq> None)"

definition grows :: "'w wstate \<Rightarrow> 'w wstate \<Rightarrow> bool" where
  "grows st st' \<longleftrightarrow> (\<forall>h d. get (ws_world st) h = Some d \<longrightarrow> get (ws_world st') h = Some d)"

text \<open>What is new in the store is one of the given byte strings, at its own hash.\<close>

definition adds :: "bytes set \<Rightarrow> 'w wstate \<Rightarrow> 'w wstate \<Rightarrow> bool" where
  "adds C st st' \<longleftrightarrow> (\<forall>h d. get (ws_world st') h = Some d
     \<longrightarrow> get (ws_world st) h = Some d \<or> d \<in> C \<and> h = hash_of env d)"

lemma adds_refl: "ws_world st' = ws_world st \<Longrightarrow> adds C st st'"
  by (simp add: adds_def)

lemma adds_mono: "adds C st st' \<Longrightarrow> C \<subseteq> D \<Longrightarrow> adds D st st'"
  by (auto simp: adds_def)

lemma adds_trans: "adds C a b \<Longrightarrow> adds D b c \<Longrightarrow> adds (C \<union> D) a c"
  by (auto simp: adds_def)

lemma put_adds:
  "ok (ws_world st) \<Longrightarrow> we_put env (hash_of env c) c (ws_world st) = (r, w) \<Longrightarrow> ws_world st' = w \<Longrightarrow> adds {c} st st'"
  unfolding adds_def using put_new by blast

definition holds :: "'w wstate \<Rightarrow> manifest \<Rightarrow> bool" where
  "holds st m \<longleftrightarrow> get (ws_world st) (hash_of env (manifest_bytes env m)) \<noteq> None
     \<and> encode_manifest (we_mp_encode env) m \<noteq> None"

lemma grows_refl: "grows st st"
  by (simp add: grows_def)

lemma grows_trans: "grows a b \<Longrightarrow> grows b c \<Longrightarrow> grows a c"
  by (simp add: grows_def)

lemma holds_grows: "holds st m \<Longrightarrow> grows st st' \<Longrightarrow> holds st' m"
  by (auto simp: holds_def grows_def)

lemma record_candidate_world:
  "record_candidate b c st = (r, st') \<Longrightarrow> ws_world st' = ws_world st
     \<and> (\<forall>x \<in> set (ws_inventory st'). x \<in> set (ws_inventory st) \<or> cb_hash x = cb_hash b)"
  by (auto simp: record_candidate_def Let_def insert_row_Some inventory_row_of_def
      split: option.splits)

lemma persist_stored:
  assumes "persist env bs st = (r, st')" "stored st"
  shows "stored st' \<and> grows st st' \<and> adds {bs} st st'
    \<and> (\<forall>b. r = Inr b \<longrightarrow> get (ws_world st') (hash_of env bs) \<noteq> None)"
proof (cases "we_aborted env (ws_world st)")
  case True
  with assms show ?thesis by (auto simp: persist_def grows_refl adds_refl)
next
  case alive: False
  let ?h = "hash_of env bs"
  let ?b = "\<lparr>cb_hash = ?h, cb_size = int (length bs), cb_path = we_path_for env ?h\<rparr>"
  show ?thesis
  proof (cases "inventory_blob ?h st")
    case (Some old)
    then have "old \<in> set (ws_inventory st)" "cb_hash old = ?h"
      using row_SomeD [of cb_hash ?h "ws_inventory st" old] by (simp_all add: inventory_blob_def)
    then have "get (ws_world st) ?h \<noteq> None" using assms(2) by (auto simp: stored_def)
    moreover have "st' = st" using assms(1) Some alive
      by (auto simp: persist_def Let_def checked_existing_def split: if_splits)
    ultimately show ?thesis using assms(2) grows_refl adds_refl by simp
  next
    case none: None
    show ?thesis
    proof (cases "ensure_inventory_room env (int (length bs)) st")
      case False
      with assms alive none show ?thesis by (auto simp: persist_def Let_def grows_refl adds_refl)
    next
      case room: True
      obtain q w where put: "we_put env ?h bs (ws_world st) = (q, w)" by fastforce
      have keep: "ok w" "\<And>h d. get (ws_world st) h = Some d \<Longrightarrow> get w h = Some d"
        using put_ok put_keep put assms(2) by (auto simp: stored_def)
      have ok: "ok (ws_world st)" using assms(2) by (simp add: stored_def)
      show ?thesis
      proof (cases q)
        case (Inl e)
        then have st': "r = Inl e" "st' = st\<lparr>ws_world := w\<rparr>"
          using assms(1) alive none room put by (simp_all add: persist_def Let_def)
        then have "adds {bs} st st'" using put_adds [OF ok put] by simp
        moreover have "stored st'" using assms(2) st'(2) keep by (fastforce simp: stored_def)
        ultimately show ?thesis using st' keep by (simp add: grows_def)
      next
        case (Inr fresh)
        let ?st = "st\<lparr>ws_world := w, ws_created := ws_created st + (if fresh then 1 else 0)\<rparr>"
        have rec: "record_candidate ?b fresh ?st = (r, st')"
          using assms(1) alive none room put Inr by (simp add: persist_def Let_def)
        note rw = record_candidate_world [OF rec]
        have "get w ?h \<noteq> None" using put_get put Inr assms(2) by (auto simp: stored_def)
        moreover have "stored st'"
          unfolding stored_def
        proof (intro conjI ballI)
          show "ok (ws_world st')" using rw keep(1) by simp
          fix x assume "x \<in> set (ws_inventory st')"
          then consider "x \<in> set (ws_inventory st)" | "cb_hash x = ?h" using rw by auto
          then show "get (ws_world st') (cb_hash x) \<noteq> None"
          proof cases
            case 1
            then have "get (ws_world st) (cb_hash x) \<noteq> None" using assms(2) by (simp add: stored_def)
            then show ?thesis using keep(2) rw by auto
          qed (use \<open>get w ?h \<noteq> None\<close> rw in simp)
        qed
        moreover have "adds {bs} st st'" using put_adds [OF ok put] rw by simp
        ultimately show ?thesis using rw keep(2) by (simp add: grows_def)
      qed
    qed
  qed
qed

lemma persist_manifest_stored:
  assumes "persist_manifest env m st = (r, st')" "stored st"
  shows "stored st' \<and> grows st st' \<and> adds {manifest_bytes env m} st st' \<and> (\<forall>b. r = Inr b \<longrightarrow> holds st' m)"
proof (cases "encode_manifest (we_mp_encode env) m")
  case None
  with assms show ?thesis by (auto simp: persist_manifest_def grows_refl adds_refl)
next
  case (Some bs)
  then have "persist env bs st = (r, st')" using assms(1) by (simp add: persist_manifest_def)
  from persist_stored [OF this assms(2)] Some show ?thesis
    by (auto simp: holds_def manifest_bytes_def)
qed

lemma stored_buffered [simp]:
  "stored (st\<lparr>ws_max_buffered := x\<rparr>) = stored st" "grows (st\<lparr>ws_max_buffered := x\<rparr>) st' = grows st st'"
  "adds C (st\<lparr>ws_max_buffered := x\<rparr>) st' = adds C st st'"
  by (simp_all add: stored_def grows_def adds_def)

lemma flush_group_stored:
  assumes "flush_group env k level g st = (r, st')" "stored st"
  shows "stored st' \<and> grows st st' \<and> adds {manifest_bytes env (group_manifest k level g)} st st'
    \<and> (\<forall>l. r = Inr l \<longrightarrow> l = parent_link env k level g \<and> holds st' (group_manifest k level g))"
proof (cases "we_aborted env (ws_world st)")
  case True
  with assms show ?thesis by (auto simp: flush_group_def grows_refl adds_refl)
next
  case False
  let ?m = "group_manifest k level g"
  let ?st = "st\<lparr>ws_max_buffered := max (ws_max_buffered st) (int (length g))\<rparr>"
  obtain q s where q: "persist_manifest env ?m ?st = (q, s)" by fastforce
  have "stored ?st" using assms(2) by simp
  note p = persist_manifest_stored [OF q this]
  show ?thesis
  proof (cases q)
    case (Inl e)
    with assms(1) False q p show ?thesis by (auto simp: flush_group_def Let_def group_manifest_def)
  next
    case (Inr b)
    with assms(1) False q have "s = st'"
      by (auto simp: flush_group_def Let_def group_manifest_def split: sum.splits)
    moreover have "l = parent_link env k level g" if "r = Inr l" for l
      using assms(1) False q Inr that
      by (auto simp: flush_group_def Let_def group_manifest_def parent_link_def manifest_bytes_def
          dest!: logical_size_Inr split: sum.splits)
    ultimately show ?thesis using p Inr by auto
  qed
qed

lemma flush_all_stored:
  "flush_all env k level gs st = (r, st') \<Longrightarrow> stored st \<Longrightarrow>
     stored st' \<and> grows st st' \<and> adds (manifest_bytes env ` group_manifest k level ` set gs) st st'
     \<and> (\<forall>ls. r = Inr ls \<longrightarrow> ls = map (parent_link env k level) gs
       \<and> (\<forall>g \<in> set gs. holds st' (group_manifest k level g)))"
proof (induction gs arbitrary: st r)
  case Nil
  then show ?case by (auto simp: grows_refl adds_refl)
next
  case (Cons g gs)
  obtain q s where q: "flush_group env k level g st = (q, s)" by fastforce
  note f = flush_group_stored [OF q Cons.prems(2)]
  show ?case
  proof (cases q)
    case (Inl e)
    with Cons.prems q f show ?thesis by (auto intro: adds_mono)
  next
    case (Inr l)
    obtain q2 s2 where q2: "flush_all env k level gs s = (q2, s2)" by fastforce
    have s2: "s2 = st'" using Cons.prems(1) q q2 Inr by (cases q2) auto
    have ih: "stored st' \<and> grows s st' \<and> adds (manifest_bytes env ` group_manifest k level ` set gs) s st' \<and> (\<forall>ls. q2 = Inr ls \<longrightarrow> ls = map (parent_link env k level) gs
       \<and> (\<forall>g \<in> set gs. holds st' (group_manifest k level g)))"
      using Cons.IH [of s q2] q2 s2 f by simp
    have "adds (manifest_bytes env ` group_manifest k level ` set (g # gs)) st st'"
      using adds_trans [OF conjunct1 [OF conjunct2 [OF conjunct2 [OF f]]]
          conjunct1 [OF conjunct2 [OF conjunct2 [OF ih]]]] by simp
    then show ?thesis
      using Cons.prems(1) q q2 Inr f ih grows_trans holds_grows by (cases q2) auto
  qed
qed

text \<open>\<open>collapse\<close> refines the pure tree: it stores its manifests and returns its last one.\<close>

lemma collapse_stored:
  "collapse env k level links st = (Inr b, st') \<Longrightarrow> stored st \<Longrightarrow>
     stored st' \<and> grows st st' \<and> (\<forall>m \<in> set (tree_manifests env k level links). holds st' m)
     \<and> adds (manifest_bytes env ` set (tree_manifests env k level links)) st st'
     \<and> bt_digest b = we_sha env (manifest_bytes env (last (tree_manifests env k level links)))
     \<and> bt_size b = total_size links \<and> total_size links \<le> max_safe
     \<and> bt_type b = kind_link (m_type (last (tree_manifests env k level links)))"
proof (induction "length links" arbitrary: level links st rule: less_induct)
  case less
  let ?n = "wl_max_links (we_limits env)"
  note simps = collapse.simps [of env k level links st] tree_manifests.simps [of env k level links]
  have n: "\<not> ?n < 2" and alive: "\<not> we_aborted env (ws_world st)"
    using less.prems(1) simps(1) by (auto split: if_splits)
  show ?case
  proof (cases "length links \<le> ?n")
    case True
    let ?m = "group_manifest k level links"
    let ?st = "st\<lparr>ws_max_buffered := max (ws_max_buffered st) (int (length links))\<rparr>"
    obtain q s where q: "persist_manifest env ?m ?st = (q, s)" by fastforce
    have "stored ?st" using less.prems(2) by simp
    note p = persist_manifest_stored [OF q this]
    obtain pb where pb: "q = Inr pb"
      using less.prems(1) n alive True q simps(1) by (cases q) (auto simp: group_manifest_def Let_def)
    obtain sz where sz: "logical_size 0 links = Inr sz"
      using less.prems(1) n alive True q pb simps(1)
      by (cases "logical_size 0 links") (auto simp: group_manifest_def Let_def)
    have "b = \<lparr>bt_blob = pb, bt_digest = we_sha env (manifest_bytes env ?m), bt_size = sz,
        bt_type = kind_link (m_type ?m), bt_count = (if k = K_file then 1 else links_count links)\<rparr>"
      "s = st'"
      using less.prems(1) n alive True q pb sz simps(1)
      by (auto simp: group_manifest_def Let_def manifest_bytes_def)
    with p pb n True logical_size_Inr [OF sz] logical_size_safe [OF sz] simps(2) show ?thesis by (simp add: Let_def max_safe_def)
  next
    case False
    obtain q s where q: "flush_all env k level (groups ?n links) st = (q, s)" by fastforce
    note f = flush_all_stored [OF q less.prems(2)]
    obtain ls where ls: "q = Inr ls"
      using less.prems(1) n alive False q simps(1) by (cases q) auto
    then have ls': "ls = map (parent_link env k level) (groups ?n links)" using f by blast
    have run: "collapse env k (level + 1) ls s = (Inr b, st')"
      using less.prems(1) n alive False q ls simps(1) by auto
    have "length ls < length links" using ls' n False by (simp add: length_groups)
    note ih = less.hyps [OF this run conjunct1 [OF f]]
    have tm: "tree_manifests env k level links = map (group_manifest k level) (groups ?n links)
        @ tree_manifests env k (level + 1) ls"
      using simps(2) n False ls' by (simp add: Let_def)
    have ne: "tree_manifests env k (level + 1) ls \<noteq> []" using n by (intro tree_manifests_nonempty) simp
    have "total_size ls = total_size links"
    proof -
      have "total_size (map (parent_link env k level) gs) = total_size (concat gs)" for gs
        by (induction gs) (auto simp: total_size_def parent_link_def group_link_def Let_def)
      then show ?thesis using ls' n concat_groups [of ?n links] by simp
    qed
    have "adds (manifest_bytes env ` set (tree_manifests env k level links)) st st'"
    proof -
      have a: "adds (manifest_bytes env ` group_manifest k level ` set (groups ?n links)) st s" using f by blast
      have b: "adds (manifest_bytes env ` set (tree_manifests env k (level + 1) ls)) s st'" using ih by blast
      from adds_trans [OF a b] show ?thesis by (simp add: tm image_Un)
    qed
    with ih f ls tm ne holds_grows grows_trans \<open>total_size ls = total_size links\<close> show ?thesis by auto
  qed
qed

end


subsection \<open>The directory of files as a content store\<close>

text \<open>
  Without a blob store the writer puts a blob into the file \<open>root/hash\<close>, created only when it
  does not exist. The world is then the file system: file contents by path.
\<close>

type_synonym files = "(jstr, bytes) jmap"

definition blob_path :: "jstr \<Rightarrow> jstr \<Rightarrow> jstr" where
  "blob_path root h = root @ [47] @ h"

definition put_file :: "jstr \<Rightarrow> jstr \<Rightarrow> bytes \<Rightarrow> (files, writer_error, bool) op" where
  "put_file root h c w =
     (if map_of w (blob_path root h) = None then (Inr True, w @ [(blob_path root h, c)])
      else (Inr False, w))"

definition directory_env ::
  "writer_limits \<Rightarrow> (bytes \<Rightarrow> bytes) \<Rightarrow> (jsval \<Rightarrow> bytes option) \<Rightarrow> jstr \<Rightarrow> files writer_env" where
  "directory_env lim sha mp_encode root = \<lparr>we_limits = lim, we_sha = sha, we_mp_encode = mp_encode,
     we_path_for = blob_path root, we_put = put_file root, we_lookup = (\<lambda>w h. None),
     we_read_file = (\<lambda>w p. map_of w p), we_aborted = (\<lambda>w. False)\<rparr>"

lemma directory_env_simps [simp]:
  "we_limits (directory_env lim sha mp_encode root) = lim"
  "we_sha (directory_env lim sha mp_encode root) = sha"
  "we_mp_encode (directory_env lim sha mp_encode root) = mp_encode"
  "we_path_for (directory_env lim sha mp_encode root) = blob_path root"
  "we_put (directory_env lim sha mp_encode root) = put_file root"
  "we_lookup (directory_env lim sha mp_encode root) w h = None"
  "we_read_file (directory_env lim sha mp_encode root) w p = map_of w p"
  "we_aborted (directory_env lim sha mp_encode root) w = False"
  by (simp_all add: directory_env_def)

definition file_content :: "jstr \<Rightarrow> files \<Rightarrow> jstr \<Rightarrow> bytes option" where
  "file_content root w h = map_of w (blob_path root h)"

interpretation files: content_store "directory_env lim sha mp_encode root" "file_content root" "\<lambda>w. True"
  for lim sha mp_encode root
  by unfold_locales
    (auto simp: put_file_def file_content_def map_add_def blob_path_def split: if_splits option.splits)

subsection \<open>Reading back\<close>

text \<open>
  A manifest the reader's limits admit and MessagePack reads back; no other content under its
  hash.
\<close>

definition readable :: "'v reader_env \<Rightarrow> manifest \<Rightarrow> bool" where
  "readable renv m \<longleftrightarrow>
     (\<exists>w. encode_manifest (re_mp_encode renv) m = Some w \<and> re_mp_decode renv w = Some (manifest_value m)
        \<and> int (length w) \<le> max_wire_bytes (re_manifest_limits renv)
        \<and> safe_int (max_wire_bytes (re_manifest_limits renv))
        \<and> decoded_cost (manifest_value m) \<le> max_decoded_bytes (re_manifest_limits renv)
        \<and> int (length (m_links m)) \<le> max_links (re_manifest_limits renv))"

lemma readable_manifest_at:
  assumes "readable renv m" "wf_manifest m" "content h = encode_manifest (re_mp_encode renv) m"
  shows "manifest_at renv content h = Some m"
  using assms
  by (auto simp: readable_def manifest_at_def decode_validated_manifest_def encode_manifest_def
      validate_manifest_manifest_value)

text \<open>The parts of a file under one parent link.\<close>

lemma links_chunks_size: "links_chunks tree ls n cs \<Longrightarrow> n = total_size ls"
  by (induction ls arbitrary: n cs) (auto simp: total_size_def elim: links_chunks.cases)

lemma links_chunks_append:
  "links_chunks tree (as @ bs) n cs \<Longrightarrow>
     \<exists>m k xs ys. links_chunks tree as m xs \<and> links_chunks tree bs k ys \<and> n = m + k \<and> cs = xs @ ys"
proof (induction as arbitrary: n cs)
  case Nil
  then show ?case using links_chunks_Nil by force
next
  case (Cons a as)
  from Cons.prems have "links_chunks tree (a # (as @ bs)) n cs" by simp
  then show ?case
  proof (cases rule: links_chunks.cases)
    case (links_chunks_blob n' cs')
    from Cons.IH [OF links_chunks_blob(4)] obtain m k xs ys where
      "links_chunks tree as m xs" "links_chunks tree bs k ys" "n' = m + k" "cs' = xs @ ys" by blast
    then show ?thesis
      using Reader.links_chunks_blob [OF links_chunks_blob(3), of tree as m xs] links_chunks_blob
      by (metis add.assoc append_Cons)
  next
    case (links_chunks_file ds n' cs')
    from Cons.IH [OF links_chunks_file(5)] obtain m k xs ys where
      "links_chunks tree as m xs" "links_chunks tree bs k ys" "n' = m + k" "cs' = xs @ ys" by blast
    then show ?thesis
      using Reader.links_chunks_file [OF links_chunks_file(3,4), of as m xs] links_chunks_file
      by (metis add.assoc append.assoc)
  qed
qed


definition file_links_ok :: "manifest_link list \<Rightarrow> bool" where
  "file_links_ok ls \<longleftrightarrow> (\<forall>l \<in> set ls. wf_link M_File l \<and> (ml_type l = L_Blob \<or> ml_type l = L_File))"

lemma file_links_wf: "file_links_ok g \<Longrightarrow> wf_manifest (group_manifest K_file level g)"
  by (simp add: file_links_ok_def wf_manifest_def group_manifest_def manifest_kind_def wf_kind_def)

lemma file_links_nonneg: "file_links_ok g \<Longrightarrow> 0 \<le> total_size g"
  unfolding total_size_def file_links_ok_def wf_link_def by (intro sum_list_nonneg) auto

lemma total_size_append: "total_size (as @ bs) = total_size as + total_size bs"
  by (simp add: total_size_def)

lemma parent_links_ok:
  assumes "\<And>b. length (we_sha env b) = 32" "\<forall>g \<in> set gs. file_links_ok g"
    and "total_size (concat gs) \<le> max_safe"
  shows "file_links_ok (map (parent_link env K_file level) gs)"
  using assms(2,3)
proof (induction gs)
  case (Cons g gs)
  have "0 \<le> total_size g" "0 \<le> total_size (concat gs)"
    using Cons.prems(1) file_links_nonneg [of g] file_links_nonneg [of "concat gs"]
    by (auto simp: file_links_ok_def)
  then have "total_size g \<le> max_safe" "total_size (concat gs) \<le> max_safe"
    using Cons.prems(2) by (simp_all add: total_size_append)
  with Cons assms(1) \<open>0 \<le> total_size g\<close> show ?case
    by (auto simp: file_links_ok_def parent_link_def group_link_def Let_def wf_link_def kind_link_def
        group_manifest_def manifest_kind_def)
qed (simp add: file_links_ok_def)

text \<open>A tree that knows a manifest by the hash of its bytes.\<close>

definition knows :: "(jstr \<Rightarrow> manifest option) \<Rightarrow> 'w writer_env \<Rightarrow> manifest \<Rightarrow> bool" where
  "knows tree env m \<longleftrightarrow> tree (hash_of env (manifest_bytes env m)) = Some m"

lemma parent_links_chunks:
  assumes "\<forall>g \<in> set gs. knows tree env (group_manifest K_file level g)"
  shows "links_chunks tree (concat gs) n cs \<Longrightarrow> links_chunks tree (map (parent_link env K_file level) gs) n cs"
  using assms
proof (induction gs arbitrary: n cs)
  case (Cons g gs)
  from links_chunks_append [of tree g "concat gs" n cs] Cons.prems(1)
  obtain m k xs ys where p: "links_chunks tree g m xs" "links_chunks tree (concat gs) k ys"
    "n = m + k" "cs = xs @ ys" by auto
  let ?l = "parent_link env K_file level g"
  have "ml_type ?l = L_File" "ml_size ?l = total_size g"
    "to_hex (ml_hash ?l) = hash_of env (manifest_bytes env (group_manifest K_file level g))"
    by (simp_all add: parent_link_def group_link_def Let_def kind_link_def group_manifest_def
        manifest_kind_def hash_of_def)
  moreover have "m = total_size g" using links_chunks_size [OF p(1)] .
  moreover have "file_chunks tree (hash_of env (manifest_bytes env (group_manifest K_file level g))) m xs"
    using Cons.prems(2) p(1)
    by (intro file_chunks_intro [where m = "group_manifest K_file level g"])
      (simp_all add: knows_def group_manifest_def manifest_kind_def)
  ultimately show ?case
    using links_chunks_file [of ?l tree xs "map (parent_link env K_file level) gs" k ys]
      Cons.IH [OF p(2)] Cons.prems(2) p(3,4) by simp
qed simp

lemma tree_chunks:
  assumes "2 \<le> wl_max_links (we_limits env)"
  shows "links_chunks tree links n cs \<Longrightarrow>
    \<forall>m \<in> set (tree_manifests env K_file level links). knows tree env m \<Longrightarrow>
    file_chunks tree (hash_of env (manifest_bytes env (last (tree_manifests env K_file level links)))) n cs"
proof (induction "length links" arbitrary: level links rule: less_induct)
  case less
  let ?n = "wl_max_links (we_limits env)"
  note tm = tree_manifests.simps [of env K_file level links]
  have n: "0 < ?n" "\<not> ?n < 2" using assms by simp_all
  show ?case
  proof (cases "length links \<le> ?n")
    case True
    then have e: "tree_manifests env K_file level links = [group_manifest K_file level links]"
      using tm n by (simp add: Let_def)
    have k: "tree (hash_of env (manifest_bytes env (group_manifest K_file level links)))
        = Some (group_manifest K_file level links)"
      using less.prems(2) unfolding e knows_def by simp
    have "file_chunks tree (hash_of env (manifest_bytes env (group_manifest K_file level links))) n cs"
      by (rule file_chunks_intro [where tree = tree, OF k])
        (simp_all add: group_manifest_def manifest_kind_def less.prems(1))
    then show ?thesis unfolding e by simp
  next
    case False
    let ?ls = "map (parent_link env K_file level) (groups ?n links)"
    have e: "tree_manifests env K_file level links = map (group_manifest K_file level) (groups ?n links)
        @ tree_manifests env K_file (level + 1) ?ls"
      using tm n False by (simp add: Let_def)
    have "links_chunks tree ?ls n cs"
      using parent_links_chunks [of "groups ?n links" tree env level n cs] less.prems
        concat_groups [OF n(1), of links] e by auto
    moreover have "length ?ls < length links" using assms False by (simp add: length_groups)
    moreover have "\<forall>m \<in> set (tree_manifests env K_file (level + 1) ?ls). knows tree env m"
      using less.prems(2) e by simp
    ultimately have "file_chunks tree (hash_of env (manifest_bytes env
        (last (tree_manifests env K_file (level + 1) ?ls)))) n cs"
      using less.hyps [of ?ls "level + 1"] by blast
    then show ?thesis using e tree_manifests_nonempty [OF assms, of K_file "level + 1" ?ls] by simp
  qed
qed

lemma tree_manifests_wf_file:
  assumes "\<And>b. length (we_sha env b) = 32"
  shows "m \<in> set (tree_manifests env K_file level links) \<Longrightarrow> file_links_ok links \<Longrightarrow>
    total_size links \<le> max_safe \<Longrightarrow> wf_manifest m"
proof (induction "length links" arbitrary: level links rule: less_induct)
  case less
  let ?n = "wl_max_links (we_limits env)"
  note tm = tree_manifests.simps [of env K_file level links]
  consider "?n < 2" | "\<not> ?n < 2" "length links \<le> ?n" | "\<not> ?n < 2" "\<not> length links \<le> ?n" by blast
  then show ?case
  proof cases
    case 3
    let ?gs = "groups ?n links"
    have c: "concat ?gs = links" using 3 by (simp add: concat_groups)
    have "g \<in> set ?gs \<Longrightarrow> file_links_ok g" for g
      using less.prems(2) c unfolding file_links_ok_def by (metis UN_I set_concat)
    then have gs: "\<forall>g \<in> set ?gs. file_links_ok g" by blast
    have "m \<in> group_manifest K_file level ` set ?gs
        \<or> m \<in> set (tree_manifests env K_file (level + 1) (map (parent_link env K_file level) ?gs))"
      using less.prems(1) tm 3 by (auto simp: Let_def)
    then show ?thesis
    proof
      assume "m \<in> group_manifest K_file level ` set ?gs"
      then show ?thesis using gs file_links_wf by blast
    next
      let ?ls = "map (parent_link env K_file level) ?gs"
      assume m: "m \<in> set (tree_manifests env K_file (level + 1) ?ls)"
      have "total_size (concat ?gs) \<le> max_safe" using c less.prems(3) by simp
      then have "file_links_ok ?ls" by (rule parent_links_ok [OF assms gs])
      moreover have "total_size (map (parent_link env K_file level) gs) = total_size (concat gs)" for gs
        by (induction gs) (auto simp: total_size_def parent_link_def group_link_def Let_def)
      then have "total_size ?ls \<le> max_safe" using c less.prems(3) by simp
      moreover have "length ?ls < length links" using 3 by (simp add: length_groups)
      ultimately show ?thesis using less.hyps m by blast
    qed
  qed (use less.prems tm file_links_wf in \<open>auto simp: Let_def\<close>)
qed


lemma collapse_needs_links: "collapse env k level links st = (Inr b, st') \<Longrightarrow> 2 \<le> wl_max_links (we_limits env)"
  by (subst (asm) collapse.simps) (auto split: if_splits)

lemma knows_stored:
  assumes "content_store.holds (directory_env lim sha mp_encode root) (file_content root) st m"
    and "re_mp_encode renv = mp_encode" "readable renv m" "wf_manifest m"
    and "\<And>d. file_content root (ws_world st) (to_hex (sha (manifest_bytes
        (directory_env lim sha mp_encode root) m))) = Some d
      \<Longrightarrow> d = manifest_bytes (directory_env lim sha mp_encode root) m"
  shows "knows (manifest_at renv (file_content root (ws_world st))) (directory_env lim sha mp_encode root) m"
proof -
  let ?env = "directory_env lim sha mp_encode root"
  let ?h = "hash_of ?env (manifest_bytes ?env m)"
  have enc: "encode_manifest mp_encode m = Some (manifest_bytes ?env m)"
    and some: "file_content root (ws_world st) ?h \<noteq> None"
    using assms(1) by (auto simp: files.holds_def manifest_bytes_def)
  have "?h = to_hex (sha (manifest_bytes ?env m))" by (simp add: hash_of_def)
  then have "file_content root (ws_world st) ?h = Some (manifest_bytes ?env m)"
    using some assms(5) by fastforce
  then show ?thesis
    using readable_manifest_at [OF assms(3,4)] enc assms(2) by (simp add: knows_def)
qed

text \<open>
  After a write, the bytes at the hash of a manifest are those of the manifest: they lay there
  before, or they were written by the run. What is asked is asked of the state before the write:
  that the directory holds nothing else under these hashes; and that SHA-256 tells the manifests of
  the tree apart.
\<close>

lemma written_bytes:
  assumes "collapse (directory_env lim sha mp_encode root) k 0 links st = (Inr b, st')"
    and "\<forall>r \<in> set (ws_inventory st). file_content root (ws_world st) (cb_hash r) \<noteq> None"
    and "\<forall>m \<in> set (tree_manifests (directory_env lim sha mp_encode root) k 0 links).
      \<forall>d. file_content root (ws_world st) (to_hex (sha (manifest_bytes
            (directory_env lim sha mp_encode root) m))) = Some d
        \<longrightarrow> d = manifest_bytes (directory_env lim sha mp_encode root) m"
    and "inj_on sha (manifest_bytes (directory_env lim sha mp_encode root)
      ` set (tree_manifests (directory_env lim sha mp_encode root) k 0 links))"
    and "m \<in> set (tree_manifests (directory_env lim sha mp_encode root) k 0 links)"
    and "file_content root (ws_world st') (to_hex (sha (manifest_bytes
            (directory_env lim sha mp_encode root) m))) = Some d"
  shows "d = manifest_bytes (directory_env lim sha mp_encode root) m"
proof -
  let ?env = "directory_env lim sha mp_encode root"
  let ?B = "manifest_bytes ?env ` set (tree_manifests ?env k 0 links)"
  let ?h = "to_hex (sha (manifest_bytes ?env m))"
  have "files.stored root st" using assms(2) by (simp add: files.stored_def)
  then have "files.adds lim sha mp_encode root ?B st st'"
    using files.collapse_stored [OF assms(1)] by blast
  then have "file_content root (ws_world st) ?h = Some d \<or> d \<in> ?B \<and> ?h = hash_of ?env d"
    using assms(6) unfolding files.adds_def by blast
  then consider "file_content root (ws_world st) ?h = Some d" | "d \<in> ?B" "?h = to_hex (sha d)"
    unfolding hash_of_def by auto
  then show ?thesis
  proof cases
    case 1
    then show ?thesis using assms(3,5) by blast
  next
    case 2
    then show ?thesis using inj_onD [OF assms(4)] assms(5) by auto
  qed
qed

text \<open>
  C11: What the writer makes of a file is what the reader plans: when the links of a file's
  chunks are collapsed into manifests, level by level, over the directory of files, then the
  resulting file link has the total size of the chunks, every manifest written has at most
  \<open>maxLinks\<close> links, and the reader's specification of a file over the stored manifests gives
  exactly the chunks that went in, in order. (MessagePack reads back what it wrote, the
  reader's limits admit the manifests, SHA-256 tells them apart, and before the write the
  directory holds a file for each blob of the inventory and nothing else under their hashes.)
\<close>

theorem file_written_reads_back:
  assumes "\<And>bs. length (sha bs) = 32"
    and "collapse (directory_env lim sha mp_encode root) K_file 0 links st = (Inr b, st')"
    and "\<forall>r \<in> set (ws_inventory st). file_content root (ws_world st) (cb_hash r) \<noteq> None"
    and "\<forall>l \<in> set links. ml_type l = L_Blob \<and> wf_link M_File l"
    and "re_mp_encode renv = mp_encode"
    and "\<forall>m \<in> set (tree_manifests (directory_env lim sha mp_encode root) K_file 0 links). readable renv m"
    and "\<forall>m \<in> set (tree_manifests (directory_env lim sha mp_encode root) K_file 0 links).
      \<forall>d. file_content root (ws_world st) (to_hex (sha (manifest_bytes
            (directory_env lim sha mp_encode root) m))) = Some d
        \<longrightarrow> d = manifest_bytes (directory_env lim sha mp_encode root) m"
    and "inj_on sha (manifest_bytes (directory_env lim sha mp_encode root)
      ` set (tree_manifests (directory_env lim sha mp_encode root) K_file 0 links))"
  shows "bt_type b = L_File \<and> bt_size b = total_size links
    \<and> (\<forall>m \<in> set (tree_manifests (directory_env lim sha mp_encode root) K_file 0 links).
         length (m_links m) \<le> wl_max_links lim)
    \<and> file_chunks (manifest_at renv (file_content root (ws_world st'))) (to_hex (bt_digest b))
        (total_size links) (map (\<lambda>l. (to_hex (ml_hash l), ml_size l)) links)"
proof -
  let ?env = "directory_env lim sha mp_encode root"
  let ?tm = "tree_manifests ?env K_file 0 links"
  let ?T = "manifest_at renv (file_content root (ws_world st'))"
  have stored: "files.stored root st" using assms(3) by (simp add: files.stored_def)
  note c = files.collapse_stored [OF assms(2) stored]
  have n: "2 \<le> wl_max_links (we_limits ?env)" by (rule collapse_needs_links [OF assms(2)])
  have sha: "length (we_sha ?env bs) = 32" for bs using assms(1) by simp
  have ok: "file_links_ok links" using assms(4) by (simp add: file_links_ok_def)
  have knows: "knows ?T ?env m" if m: "m \<in> set ?tm" for m
  proof (rule knows_stored [OF _ assms(5)])
    show "files.holds lim sha mp_encode root st' m" using c m by blast
    show "wf_manifest m" using tree_manifests_wf_file [OF sha m ok] c by blast
    show "d = manifest_bytes ?env m"
      if "file_content root (ws_world st') (to_hex (sha (manifest_bytes ?env m))) = Some d" for d
      using written_bytes [OF assms(2,3,7,8) m that] .
  qed (use assms(6) m in auto)
  have chunks: "\<forall>l \<in> set ls. ml_type l = L_Blob \<Longrightarrow>
      links_chunks ?T ls (total_size ls) (map (\<lambda>l. (to_hex (ml_hash l), ml_size l)) ls)" for ls
    by (induction ls) (auto simp: total_size_def intro: file_chunks_links_chunks.intros)
  have last: "last ?tm \<in> set ?tm" using tree_manifests_nonempty [OF n] by simp
  have "bt_type b = L_File"
    using c last tree_manifests_file by (fastforce simp: kind_link_def)
  moreover have "file_chunks ?T (hash_of ?env (manifest_bytes ?env (last ?tm))) (total_size links)
      (map (\<lambda>l. (to_hex (ml_hash l), ml_size l)) links)"
    using tree_chunks [OF n chunks] knows assms(4) by blast
  moreover have "to_hex (bt_digest b) = hash_of ?env (manifest_bytes ?env (last ?tm))"
    using c by (simp add: hash_of_def)
  moreover have "\<forall>m \<in> set ?tm. length (m_links m) \<le> wl_max_links lim"
    using tree_manifests_bound [of _ ?env] by auto
  ultimately show ?thesis using c by simp
qed


subsection \<open>Directories\<close>

text \<open>The entries of a directory, through any number of fanouts.\<close>

inductive entries_of :: "(jstr \<Rightarrow> manifest option) \<Rightarrow> jstr \<Rightarrow> manifest_link list \<Rightarrow> bool"
  and ranges_of :: "(jstr \<Rightarrow> manifest option) \<Rightarrow> manifest_link list \<Rightarrow> manifest_link list \<Rightarrow> bool"
  for tree where
  entries_directory: "tree h = Some m \<Longrightarrow> m_type m = M_Directory \<Longrightarrow> entries_of tree h (m_links m)"
| entries_fanout: "tree h = Some m \<Longrightarrow> m_type m = M_Fanout \<Longrightarrow> ranges_of tree (m_links m) es
    \<Longrightarrow> entries_of tree h es"
| ranges_Nil: "ranges_of tree [] []"
| ranges_Cons: "entries_of tree (to_hex (ml_hash l)) es \<Longrightarrow> ranges_of tree ls fs
    \<Longrightarrow> ranges_of tree (l # ls) (es @ fs)"

lemma ranges_of_append:
  "ranges_of tree (as @ bs) es \<Longrightarrow> \<exists>xs ys. ranges_of tree as xs \<and> ranges_of tree bs ys \<and> es = xs @ ys"
proof (induction as arbitrary: es)
  case Nil
  then show ?case using ranges_Nil by force
next
  case (Cons a as)
  from Cons.prems have "ranges_of tree (a # (as @ bs)) es" by simp
  then obtain xs ys where p: "entries_of tree (to_hex (ml_hash a)) xs" "ranges_of tree (as @ bs) ys"
    "es = xs @ ys" by (cases rule: ranges_of.cases) auto
  from Cons.IH [OF p(2)] obtain us vs where "ranges_of tree as us" "ranges_of tree bs vs" "ys = us @ vs"
    by blast
  with p show ?case using ranges_Cons [OF p(1), of as us] by force
qed

text \<open>What a level of links of a directory stands for: itself, or the entries of its ranges.\<close>

definition level_entries :: "(jstr \<Rightarrow> manifest option) \<Rightarrow> nat \<Rightarrow> manifest_link list \<Rightarrow> manifest_link list \<Rightarrow> bool" where
  "level_entries tree level ls es = (if level = 0 then es = ls else ranges_of tree ls es)"

lemma parent_hash: "to_hex (ml_hash (parent_link env k level g))
    = hash_of env (manifest_bytes env (group_manifest k level g))"
  by (simp add: parent_link_def group_link_def Let_def hash_of_def)

lemma group_entries:
  assumes "knows tree env (group_manifest K_directory level g)" "level_entries tree level g es"
  shows "entries_of tree (hash_of env (manifest_bytes env (group_manifest K_directory level g))) es"
proof -
  let ?m = "group_manifest K_directory level g"
  have T: "tree (hash_of env (manifest_bytes env ?m)) = Some ?m" using assms(1) by (simp add: knows_def)
  show ?thesis
  proof (cases "level = 0")
    case True
    then show ?thesis
      using entries_directory [where tree = tree, OF T] assms(2)
      by (simp add: group_manifest_def manifest_kind_def level_entries_def)
  next
    case False
    then show ?thesis
      using entries_fanout [where tree = tree, OF T] assms(2)
      by (simp add: group_manifest_def manifest_kind_def level_entries_def)
  qed
qed

lemma parent_entries:
  assumes "\<forall>g \<in> set gs. knows tree env (group_manifest K_directory level g)"
  shows "level_entries tree level (concat gs) es
    \<Longrightarrow> ranges_of tree (map (parent_link env K_directory level) gs) es"
  using assms
proof (induction gs arbitrary: es)
  case Nil
  then show ?case by (auto simp: level_entries_def ranges_Nil split: if_splits
        elim: ranges_of.cases)
next
  case (Cons g gs)
  obtain xs ys where p: "level_entries tree level g xs" "level_entries tree level (concat gs) ys"
    "es = xs @ ys"
    using Cons.prems(1) ranges_of_append [of tree g "concat gs" es]
    by (cases "level = 0") (auto simp: level_entries_def)
  have "entries_of tree (to_hex (ml_hash (parent_link env K_directory level g))) xs"
    unfolding parent_hash using Cons.prems(2) by (intro group_entries [OF _ p(1)]) simp
  then show ?case using ranges_Cons Cons.IH [OF p(2)] Cons.prems(2) p(3) by simp
qed

lemma tree_entries:
  assumes "2 \<le> wl_max_links (we_limits env)"
  shows "level_entries tree level links es \<Longrightarrow>
    \<forall>m \<in> set (tree_manifests env K_directory level links). knows tree env m \<Longrightarrow>
    entries_of tree (hash_of env (manifest_bytes env (last (tree_manifests env K_directory level links)))) es"
proof (induction "length links" arbitrary: level links rule: less_induct)
  case less
  let ?n = "wl_max_links (we_limits env)"
  note tm = tree_manifests.simps [of env K_directory level links]
  have n: "0 < ?n" "\<not> ?n < 2" using assms by simp_all
  show ?case
  proof (cases "length links \<le> ?n")
    case True
    then have e: "tree_manifests env K_directory level links = [group_manifest K_directory level links]"
      using tm n by (simp add: Let_def)
    show ?thesis using group_entries less.prems unfolding e by simp
  next
    case False
    let ?ls = "map (parent_link env K_directory level) (groups ?n links)"
    have e: "tree_manifests env K_directory level links = map (group_manifest K_directory level) (groups ?n links)
        @ tree_manifests env K_directory (level + 1) ?ls"
      using tm n False by (simp add: Let_def)
    have "level_entries tree (level + 1) ?ls es"
      using parent_entries [of "groups ?n links" tree env level es] less.prems
        concat_groups [OF n(1), of links] e by (auto simp: level_entries_def)
    moreover have "length ?ls < length links" using assms False by (simp add: length_groups)
    moreover have "\<forall>m \<in> set (tree_manifests env K_directory (level + 1) ?ls). knows tree env m"
      using less.prems(2) e by simp
    ultimately have "entries_of tree (hash_of env (manifest_bytes env
        (last (tree_manifests env K_directory (level + 1) ?ls)))) es"
      using less.hyps [of ?ls "level + 1"] by blast
    then show ?thesis using e tree_manifests_nonempty [OF assms, of K_directory "level + 1" ?ls] by simp
  qed
qed

lemma last_manifest_type:
  assumes "2 \<le> wl_max_links (we_limits env)"
  shows "m_type (last (tree_manifests env K_directory 0 links)) =
    (if length links \<le> wl_max_links (we_limits env) then M_Directory else M_Fanout)"
proof (cases "length links \<le> wl_max_links (we_limits env)")
  case True
  then show ?thesis using assms
    by (simp add: tree_manifests.simps [of env K_directory 0 links] Let_def group_manifest_def manifest_kind_def)
next
  case False
  let ?ls = "map (parent_link env K_directory 0) (groups (wl_max_links (we_limits env)) links)"
  have e: "tree_manifests env K_directory 0 links
      = map (group_manifest K_directory 0) (groups (wl_max_links (we_limits env)) links)
        @ tree_manifests env K_directory 1 ?ls"
    using assms False by (simp add: tree_manifests.simps [of env K_directory 0 links] Let_def)
  have ne: "tree_manifests env K_directory 1 ?ls \<noteq> []" by (rule tree_manifests_nonempty [OF assms])
  then have "last (tree_manifests env K_directory 1 ?ls) \<in> set (tree_manifests env K_directory 1 ?ls)" by simp
  from tree_manifests_types [OF this] have "m_type (last (tree_manifests env K_directory 1 ?ls)) = M_Fanout"
    by (auto simp: manifest_kind_def)
  then show ?thesis using e ne False by simp
qed


subsection \<open>The manifests of a directory are valid\<close>

definition lo_name :: "manifest_link \<Rightarrow> jstr" where
  "lo_name l = bound_name ''first'' l"

definition hi_name :: "manifest_link \<Rightarrow> jstr" where
  "hi_name l = bound_name ''last'' l"

definition range_ordered :: "manifest_link list \<Rightarrow> bool" where
  "range_ordered ls \<longleftrightarrow> (\<forall>l \<in> set ls. utf8 (lo_name l) \<le> utf8 (hi_name l))
     \<and> sorted_wrt (\<lambda>a b. utf8 (hi_name a) < utf8 (lo_name b)) ls"

lemma range_ordered_append:
  "range_ordered (as @ bs) \<longleftrightarrow> range_ordered as \<and> range_ordered bs
     \<and> (\<forall>a \<in> set as. \<forall>b \<in> set bs. utf8 (hi_name a) < utf8 (lo_name b))"
  by (auto simp: range_ordered_def sorted_wrt_append)

lemma range_ordered_ends:
  "range_ordered g \<Longrightarrow> g \<noteq> [] \<Longrightarrow> utf8 (lo_name (hd g)) \<le> utf8 (hi_name (last g))"
proof (induction g)
  case (Cons a g)
  show ?case
  proof (cases "g = []")
    case True
    with Cons.prems show ?thesis by (simp add: range_ordered_def)
  next
    case False
    then have "utf8 (lo_name a) \<le> utf8 (hi_name a)" "utf8 (hi_name a) < utf8 (lo_name (hd g))"
      "utf8 (lo_name (hd g)) \<le> utf8 (hi_name (last g))"
      using Cons by (auto simp: range_ordered_def)
    then show ?thesis using False by simp
  qed
qed simp

lemma parent_metadata:
  "ml_metadata (parent_link env K_directory level g) =
     Some [(js ''count'', V_Int (links_count g)), (js ''first'', V_Str (lo_name (hd g))),
       (js ''last'', V_Str (hi_name (last g)))]"
  by (simp add: parent_link_def group_link_def Let_def lo_name_def hi_name_def group_manifest_def)

lemma parent_bounds:
  "lo_name (parent_link env K_directory level g) = lo_name (hd g)"
  "hi_name (parent_link env K_directory level g) = hi_name (last g)"
  "link_count (parent_link env K_directory level g) = links_count g"
  using parent_metadata [of env level g]
  by (simp_all add: lo_name_def [of "parent_link env K_directory level g"]
      hi_name_def [of "parent_link env K_directory level g"]
      bound_name_def [of _ "parent_link env K_directory level g"] link_count_def prop_text_def)

lemma parents_ordered:
  "range_ordered (concat gs) \<Longrightarrow> \<forall>g \<in> set gs. g \<noteq> [] \<Longrightarrow>
     range_ordered (map (parent_link env K_directory level) gs)"
proof (induction gs)
  case (Cons g gs)
  let ?p = "parent_link env K_directory level"
  have o: "range_ordered g" "range_ordered (concat gs)"
    "\<And>a b. a \<in> set g \<Longrightarrow> b \<in> set (concat gs) \<Longrightarrow> utf8 (hi_name a) < utf8 (lo_name b)"
    using Cons.prems(1) by (auto simp: range_ordered_append)
  have g: "g \<noteq> []" using Cons.prems(2) by simp
  have "utf8 (hi_name (?p g)) < utf8 (lo_name (?p h))" if h: "h \<in> set gs" for h
  proof -
    have "h \<noteq> []" using h Cons.prems(2) by simp
    then have "hd h \<in> set h" by simp
    then have "hd h \<in> set (concat gs)" using h by (simp only: set_concat) blast
    then show ?thesis using o(3) g by (simp add: parent_bounds)
  qed
  moreover have "utf8 (lo_name (?p g)) \<le> utf8 (hi_name (?p g))"
    using range_ordered_ends [OF o(1) g] by (simp add: parent_bounds)
  moreover have "range_ordered (map ?p gs)" using Cons.IH o(2) Cons.prems(2) by simp
  ultimately show ?case by (auto simp: range_ordered_def)
qed (simp add: range_ordered_def)

text \<open>The links of a level: named entries below, ranges above.\<close>

definition directory_links_ok :: "nat \<Rightarrow> manifest_link list \<Rightarrow> bool" where
  "directory_links_ok level ls \<longleftrightarrow>
     range_ordered ls \<and> (\<forall>l \<in> set ls. 1 \<le> link_count l)
     \<and> (if level = 0
        then (\<forall>l \<in> set ls. wf_link M_Directory l \<and> ml_metadata l = None \<and> safe_name (link_name l))
        else (\<forall>l \<in> set ls. wf_link M_Fanout l \<and> range_ok l))"

lemma range_names:
  assumes "range_ok l"
  shows "lo_name l = range_lo l" "hi_name l = range_hi l"
proof -
  obtain p n lo hi where "ml_metadata l = Some p" "fanout_range l = Some (n, lo, hi)"
    "prop_text p ''first'' = Some lo" "prop_text p ''last'' = Some hi"
    using assms by (auto simp: range_ok_def fanout_range_def split: option.splits if_splits jsval.splits)
  then show "lo_name l = range_lo l" "hi_name l = range_hi l"
    by (simp_all add: lo_name_def hi_name_def bound_name_def range_lo_def range_hi_def)
qed

lemma directory_group_wf:
  assumes "directory_links_ok level g"
  shows "wf_manifest (group_manifest K_directory level g)"
proof (cases "level = 0")
  case True
  have "sorted_wrt (\<lambda>a b. name_less (link_name a) (link_name b)) g"
    using assms True
    by (auto simp: directory_links_ok_def range_ordered_def lo_name_def hi_name_def bound_name_def
        name_less_def link_name_def intro: sorted_wrt_mono_rel [rotated])
  with True assms show ?thesis
    by (auto simp: wf_manifest_def group_manifest_def manifest_kind_def wf_kind_def
        directory_links_ok_def sorted_wrt_map)
next
  case False
  then have "sorted_wrt range_less g"
    using assms range_names
    by (auto simp: directory_links_ok_def range_ordered_def range_less_def
        intro: sorted_wrt_mono_rel [rotated])
  with False assms show ?thesis
    by (auto simp: wf_manifest_def group_manifest_def manifest_kind_def wf_kind_def
        directory_links_ok_def)
qed

lemma total_size_nonneg: "\<forall>l \<in> set g. 0 \<le> ml_size l \<Longrightarrow> 0 \<le> total_size g"
  by (induction g) (auto simp: total_size_def)

lemma links_count_append: "links_count (as @ bs) = links_count as + links_count bs"
  by (simp add: links_count_def)

lemma links_count_pos: "\<forall>l \<in> set g. 1 \<le> link_count l \<Longrightarrow> int (length g) \<le> links_count g"
  by (induction g) (auto simp: links_count_def)

lemma parent_range:
  assumes "\<And>b. length (we_sha env b) = 32" "directory_links_ok level g" "g \<noteq> []"
    and "0 \<le> total_size g" "total_size g \<le> max_safe" "links_count g \<le> max_safe"
  shows "wf_link M_Fanout (parent_link env K_directory level g)
    \<and> range_ok (parent_link env K_directory level g)"
proof -
  let ?l = "parent_link env K_directory level g"
  have pos: "0 < links_count g"
    using links_count_pos [of g] assms(2,3) by (cases g) (auto simp: directory_links_ok_def)
  have "utf8 (bound_name ''first'' (hd g)) \<le> utf8 (bound_name ''last'' (last g))"
    using range_ordered_ends [OF _ assms(3)] assms(2)
    by (simp add: directory_links_ok_def lo_name_def hi_name_def)
  then have "range_ok ?l"
    using pos assms(6)
    by (auto simp: range_ok_def fanout_range_def parent_link_def group_link_def Let_def
        exact_keys_mset prop_text_def group_manifest_def manifest_kind_def kind_link_def)
  moreover have "wf_link M_Fanout ?l"
    using assms by (simp add: wf_link_def parent_link_def group_link_def Let_def)
  ultimately show ?thesis by simp
qed

lemma parents_ok:
  assumes "\<And>b. length (we_sha env b) = 32"
    and "\<forall>g \<in> set gs. g \<noteq> [] \<and> directory_links_ok level g" "range_ordered (concat gs)"
    and "\<forall>l \<in> set (concat gs). 0 \<le> ml_size l"
    and "total_size (concat gs) \<le> max_safe" "links_count (concat gs) \<le> max_safe"
  shows "directory_links_ok (level + 1) (map (parent_link env K_directory level) gs)"
proof -
  have part: "0 \<le> total_size g \<and> total_size g \<le> max_safe \<and> links_count g \<le> max_safe"
    if g: "g \<in> set gs" for g
  proof -
    obtain as bs where "gs = as @ g # bs" using g by (metis split_list)
    then have c: "concat gs = concat as @ g @ concat bs" by simp
    have nn: "0 \<le> total_size (concat as)" "0 \<le> total_size (concat bs)" "0 \<le> total_size g"
      using assms(4) unfolding c by (simp_all add: total_size_nonneg del: set_concat)
    have cnt: "\<forall>l \<in> set (concat gs). 1 \<le> link_count l"
      using assms(2) by (auto simp: directory_links_ok_def)
    have "0 \<le> links_count (concat as)" "0 \<le> links_count (concat bs)"
      using cnt links_count_pos [of "concat as"] links_count_pos [of "concat bs"] unfolding c
      by (metis Un_iff of_nat_0_le_iff order.trans set_append)+
    then show ?thesis using nn assms(5,6) unfolding c by (simp add: total_size_append links_count_append)
  qed
  have "\<forall>g \<in> set gs. 1 \<le> links_count g"
  proof
    fix g assume "g \<in> set gs"
    then have "g \<noteq> []" "\<forall>l \<in> set g. 1 \<le> link_count l"
      using assms(2) by (auto simp: directory_links_ok_def)
    then show "1 \<le> links_count g" using links_count_pos [of g] by (cases g) auto
  qed
  then show ?thesis
    using parents_ordered [OF assms(3), of env level] parent_range [OF assms(1), of level] part assms(2)
    unfolding directory_links_ok_def by (auto simp: parent_bounds)
qed


lemma directory_links_append:
  "directory_links_ok level (as @ bs) \<Longrightarrow> directory_links_ok level as \<and> directory_links_ok level bs"
  unfolding directory_links_ok_def range_ordered_append by (cases "level = 0") simp_all

lemma directory_links_concat:
  "directory_links_ok level (concat gs) \<Longrightarrow> \<forall>g \<in> set gs. directory_links_ok level g"
proof (induction gs)
  case (Cons g gs)
  from Cons.prems have "directory_links_ok level (g @ concat gs)" by (simp only: concat.simps)
  from directory_links_append [OF this] Cons.IH show ?case by (simp only: list.set ball_simps) blast
qed (simp only: list.set ball_simps)

lemma parent_size: "ml_size (parent_link env k level g) = total_size g"
  by (simp add: parent_link_def group_link_def Let_def)

lemma parents_totals:
  "total_size (map (parent_link env k level) gs) = total_size (concat gs)"
  "links_count (map (parent_link env K_directory level) gs) = links_count (concat gs)"
  by (induction gs) (simp_all add: total_size_def links_count_def parent_bounds
      parent_size [unfolded total_size_def])

lemma parents_sizes:
  assumes "\<forall>l \<in> set (concat gs). 0 \<le> ml_size l"
  shows "\<forall>l \<in> set (map (parent_link env k level) gs). 0 \<le> ml_size l"
  using assms total_size_nonneg by (auto simp: parent_size)

text \<open>The links of a directory and what the manifests above them can hold.\<close>

definition directory_input :: "nat \<Rightarrow> manifest_link list \<Rightarrow> bool" where
  "directory_input level ls \<longleftrightarrow> directory_links_ok level ls \<and> (\<forall>l \<in> set ls. 0 \<le> ml_size l)
     \<and> total_size ls \<le> max_safe \<and> links_count ls \<le> max_safe"

lemma tree_manifests_wf_directory:
  assumes "\<And>b. length (we_sha env b) = 32"
  shows "m \<in> set (tree_manifests env K_directory level links) \<Longrightarrow> directory_input level links \<Longrightarrow>
    wf_manifest m"
proof (induction "length links" arbitrary: level links rule: less_induct)
  case less
  let ?n = "wl_max_links (we_limits env)"
  note tm = tree_manifests.simps [of env K_directory level links]
  have ok: "directory_links_ok level links" using less.prems(2) by (simp add: directory_input_def)
  consider "?n < 2" | "\<not> ?n < 2" "length links \<le> ?n" | "\<not> ?n < 2" "\<not> length links \<le> ?n" by blast
  then show ?case
  proof cases
    case 3
    let ?gs = "groups ?n links" and ?ls = "map (parent_link env K_directory level) (groups ?n links)"
    have c: "concat ?gs = links" using 3 by (simp add: concat_groups)
    have gs: "\<forall>g \<in> set ?gs. directory_links_ok level g"
      using directory_links_concat [of level ?gs] ok c by simp
    have "m \<in> group_manifest K_directory level ` set ?gs
        \<or> m \<in> set (tree_manifests env K_directory (level + 1) ?ls)"
      using less.prems(1) tm 3 by (auto simp: Let_def)
    then show ?thesis
    proof
      assume "m \<in> group_manifest K_directory level ` set ?gs"
      then show ?thesis using gs directory_group_wf by blast
    next
      assume m: "m \<in> set (tree_manifests env K_directory (level + 1) ?ls)"
      have "\<forall>g \<in> set ?gs. g \<noteq> [] \<and> directory_links_ok level g"
        using groups_bound [of ?n] gs 3 by auto
      moreover have "range_ordered (concat ?gs)" using ok c by (simp add: directory_links_ok_def)
      ultimately have "directory_links_ok (level + 1) ?ls"
        using parents_ok [OF assms, of ?gs level] less.prems(2) unfolding c directory_input_def by blast
      then have "directory_input (level + 1) ?ls"
        using less.prems(2) parents_totals [where env = env and level = level and gs = ?gs] parents_sizes [of ?gs env K_directory level]
        unfolding c directory_input_def by simp
      moreover have "length ?ls < length links" using 3 by (simp add: length_groups)
      ultimately show ?thesis using less.hyps m by blast
    qed
  qed (use less.prems ok tm directory_group_wf in \<open>auto simp: Let_def\<close>)
qed

lemma collapse_directory:
  assumes "\<And>bs. length (sha bs) = 32"
    and "collapse (directory_env lim sha mp_encode root) K_directory 0 links st = (Inr b, st')"
    and "\<forall>r \<in> set (ws_inventory st). file_content root (ws_world st) (cb_hash r) \<noteq> None"
    and "directory_input 0 links" "re_mp_encode renv = mp_encode"
    and "\<forall>m \<in> set (tree_manifests (directory_env lim sha mp_encode root) K_directory 0 links). readable renv m"
    and "\<forall>m \<in> set (tree_manifests (directory_env lim sha mp_encode root) K_directory 0 links).
      \<forall>d. file_content root (ws_world st) (to_hex (sha (manifest_bytes
            (directory_env lim sha mp_encode root) m))) = Some d
        \<longrightarrow> d = manifest_bytes (directory_env lim sha mp_encode root) m"
    and "inj_on sha (manifest_bytes (directory_env lim sha mp_encode root)
      ` set (tree_manifests (directory_env lim sha mp_encode root) K_directory 0 links))"
    and "m \<in> set (tree_manifests (directory_env lim sha mp_encode root) K_directory 0 links)"
  shows "knows (manifest_at renv (file_content root (ws_world st'))) (directory_env lim sha mp_encode root) m"
proof (rule knows_stored [OF _ assms(5)])
  have "files.stored root st" using assms(3) by (simp add: files.stored_def)
  from files.collapse_stored [OF assms(2) this] assms(9)
  show "files.holds lim sha mp_encode root st' m" by blast
  show "wf_manifest m"
    using tree_manifests_wf_directory [OF _ assms(9,4)] assms(1) by simp
  show "d = manifest_bytes (directory_env lim sha mp_encode root) m"
    if "file_content root (ws_world st') (to_hex (sha (manifest_bytes
      (directory_env lim sha mp_encode root) m))) = Some d" for d
    using written_bytes [OF assms(2,3,7,8,9) that] .
qed (use assms in auto)


text \<open>The entries that the writer emits for a directory: named, in the order of their UTF-8 names.\<close>

definition directory_entries :: "manifest_link list \<Rightarrow> bool" where
  "directory_entries links \<longleftrightarrow>
     (\<forall>l \<in> set links. wf_link M_Directory l \<and> ml_metadata l = None \<and> safe_name (link_name l))
     \<and> sorted_wrt name_less (map link_name links)
     \<and> total_size links \<le> max_safe \<and> int (length links) \<le> max_safe"

lemma directory_entries_input:
  assumes "directory_entries links"
  shows "directory_input 0 links"
proof -
  have m: "\<forall>l \<in> set links. ml_metadata l = None" using assms by (simp add: directory_entries_def)
  then have b: "\<forall>l \<in> set links. lo_name l = link_name l \<and> hi_name l = link_name l \<and> link_count l = 1"
    by (simp add: lo_name_def hi_name_def bound_name_def link_name_def link_count_def)
  have "sorted_wrt (\<lambda>x y. name_less (link_name x) (link_name y)) links"
    using assms by (simp add: directory_entries_def sorted_wrt_map)
  then have "sorted_wrt (\<lambda>x y. utf8 (hi_name x) < utf8 (lo_name y)) links"
    by (rule sorted_wrt_mono_rel [rotated]) (use b in \<open>simp add: name_less_def\<close>)
  then have "range_ordered links" using b by (simp add: range_ordered_def)
  moreover have "links_count links = int (length links)"
    using b by (induction links) (simp_all add: links_count_def)
  ultimately show ?thesis
    using assms b by (simp add: directory_input_def directory_links_ok_def directory_entries_def wf_link_def)
qed

text \<open>
  C12: What the writer makes of a directory holds exactly its entries: when the entries of a
  directory are collapsed over the directory of files, the manifests written are valid in
  every respect the decoder checks (names in order, ranges that do not overlap, counts), the
  link has the total size of the entries, and walking the stored manifests from its hash,
  through all fanouts, gives the entries that went in, in order. The link is a directory as
  long as the entries fit into one manifest and a fanout beyond. (As above: MessagePack reads back
  what it wrote, the reader's limits admit the manifests, SHA-256 tells them apart, and before the
  write the directory holds a file for each blob of the inventory and nothing else under their
  hashes.)
\<close>

theorem directory_written_reads_back:
  assumes "\<And>bs. length (sha bs) = 32"
    and "collapse (directory_env lim sha mp_encode root) K_directory 0 links st = (Inr b, st')"
    and "\<forall>r \<in> set (ws_inventory st). file_content root (ws_world st) (cb_hash r) \<noteq> None"
    and "directory_entries links" "re_mp_encode renv = mp_encode"
    and "\<forall>m \<in> set (tree_manifests (directory_env lim sha mp_encode root) K_directory 0 links). readable renv m"
    and "\<forall>m \<in> set (tree_manifests (directory_env lim sha mp_encode root) K_directory 0 links).
      \<forall>d. file_content root (ws_world st) (to_hex (sha (manifest_bytes
            (directory_env lim sha mp_encode root) m))) = Some d
        \<longrightarrow> d = manifest_bytes (directory_env lim sha mp_encode root) m"
    and "inj_on sha (manifest_bytes (directory_env lim sha mp_encode root)
      ` set (tree_manifests (directory_env lim sha mp_encode root) K_directory 0 links))"
  shows "bt_type b = (if length links \<le> wl_max_links lim then L_Directory else L_Fanout)
    \<and> bt_size b = total_size links
    \<and> (\<forall>m \<in> set (tree_manifests (directory_env lim sha mp_encode root) K_directory 0 links).
         wf_manifest m \<and> length (m_links m) \<le> wl_max_links lim)
    \<and> entries_of (manifest_at renv (file_content root (ws_world st'))) (to_hex (bt_digest b)) links"
proof -
  let ?env = "directory_env lim sha mp_encode root"
  let ?tm = "tree_manifests ?env K_directory 0 links"
  let ?T = "manifest_at renv (file_content root (ws_world st'))"
  have "files.stored root st" using assms(3) by (simp add: files.stored_def)
  note c = files.collapse_stored [OF assms(2) this]
  note input = directory_entries_input [OF assms(4)]
  have n: "2 \<le> wl_max_links (we_limits ?env)" by (rule collapse_needs_links [OF assms(2)])
  have sha: "length (we_sha ?env bs) = 32" for bs using assms(1) by simp
  have "\<forall>m \<in> set ?tm. knows ?T ?env m"
    using collapse_directory [OF assms(1,2,3) input assms(5,6,7,8)] by blast
  then have "entries_of ?T (hash_of ?env (manifest_bytes ?env (last ?tm))) links"
    by (intro tree_entries [OF n]) (simp_all add: level_entries_def)
  moreover have "to_hex (bt_digest b) = hash_of ?env (manifest_bytes ?env (last ?tm))"
    using c by (simp add: hash_of_def)
  moreover have "\<forall>m \<in> set ?tm. wf_manifest m \<and> length (m_links m) \<le> wl_max_links lim"
    using tree_manifests_bound [of _ ?env] tree_manifests_wf_directory [OF sha _ input] by auto
  moreover have "bt_type b = (if length links \<le> wl_max_links lim then L_Directory else L_Fanout)"
    using c last_manifest_type [OF n, of links] by (simp add: kind_link_def)
  ultimately show ?thesis using c by simp
qed

text \<open>
  A directory of more than \<open>maxLinks\<close> entries is written but not read: its root is then a
  fanout, and the reader, which expects a directory at the root, fails for every path.
\<close>

theorem large_directory_unreadable:
  assumes "\<And>bs. length (sha bs) = 32"
    and "collapse (directory_env lim sha mp_encode root) K_directory 0 links st = (Inr b, st')"
    and "\<forall>r \<in> set (ws_inventory st). file_content root (ws_world st) (cb_hash r) \<noteq> None"
    and "directory_entries links" "re_mp_encode renv = mp_encode"
    and "\<forall>m \<in> set (tree_manifests (directory_env lim sha mp_encode root) K_directory 0 links). readable renv m"
    and "\<forall>m \<in> set (tree_manifests (directory_env lim sha mp_encode root) K_directory 0 links).
      \<forall>d. file_content root (ws_world st) (to_hex (sha (manifest_bytes
            (directory_env lim sha mp_encode root) m))) = Some d
        \<longrightarrow> d = manifest_bytes (directory_env lim sha mp_encode root) m"
    and "inj_on sha (manifest_bytes (directory_env lim sha mp_encode root)
      ` set (tree_manifests (directory_env lim sha mp_encode root) K_directory 0 links))"
    and "wl_max_links lim < length links" "faithful renv (file_content root (ws_world st'))"
  shows "\<exists>e s. resolve renv (to_hex (bt_digest b)) path head bg w = (Inl e, s)"
proof -
  let ?env = "directory_env lim sha mp_encode root"
  let ?tm = "tree_manifests ?env K_directory 0 links"
  have "files.stored root st" using assms(3) by (simp add: files.stored_def)
  note c = files.collapse_stored [OF assms(2) this]
  have n: "2 \<le> wl_max_links (we_limits ?env)" by (rule collapse_needs_links [OF assms(2)])
  have "last ?tm \<in> set ?tm" using tree_manifests_nonempty [OF n] by simp
  from collapse_directory [OF assms(1,2,3) directory_entries_input [OF assms(4)] assms(5,6,7,8) this]
  have "manifest_at renv (file_content root (ws_world st')) (to_hex (bt_digest b)) = Some (last ?tm)"
    using c by (simp add: knows_def hash_of_def)
  moreover have "m_type (last ?tm) = M_Fanout" using last_manifest_type [OF n, of links] assms(9) by simp
  ultimately show ?thesis by (rule fanout_root_unreadable [OF assms(10)])
qed


subsection \<open>Witnesses\<close>

text \<open>Three entries over manifests of at most two links, each hash a repeated byte.\<close>

definition sample_writer_limits :: writer_limits where
  "sample_writer_limits = \<lparr>wl_max_links = 2, wl_max_blobs = 100, wl_max_bytes = 1000,
     wl_max_entries = None, wl_max_route_bytes = None, wl_max_route_depth = None\<rparr>"

lemma sample_writer_limits_simps [simp]:
  "wl_max_links sample_writer_limits = 2" "wl_max_blobs sample_writer_limits = 100"
  "wl_max_bytes sample_writer_limits = 1000"
  by (simp_all add: sample_writer_limits_def)

definition sample_sha :: "bytes \<Rightarrow> bytes" where
  "sample_sha bs = replicate 32 (case bs of [] \<Rightarrow> 0 | b # _ \<Rightarrow> b)"

definition sample_entry :: "nat \<Rightarrow> string \<Rightarrow> manifest_link" where
  "sample_entry n name = \<lparr>ml_hash = replicate 32 (of_nat n), ml_key = None, ml_metadata = None,
     ml_name = Some (js name), ml_size = 1, ml_type = L_Blob\<rparr>"

definition sample_entries :: "manifest_link list" where
  "sample_entries = [sample_entry 5 ''a'', sample_entry 6 ''b'', sample_entry 7 ''c'']"

definition sample_range :: "nat \<Rightarrow> int \<Rightarrow> string \<Rightarrow> string \<Rightarrow> manifest_link" where
  "sample_range n k lo hi = \<lparr>ml_hash = replicate 32 (of_nat n), ml_key = None,
     ml_metadata = Some [(js ''count'', V_Int k), (js ''first'', V_Str (js lo)),
       (js ''last'', V_Str (js hi))],
     ml_name = None, ml_size = k, ml_type = L_Directory\<rparr>"

definition sample_low :: manifest where
  "sample_low = \<lparr>m_type = M_Directory, m_links = [sample_entry 5 ''a'', sample_entry 6 ''b'']\<rparr>"

definition sample_high :: manifest where
  "sample_high = \<lparr>m_type = M_Directory, m_links = [sample_entry 7 ''c'']\<rparr>"

definition sample_top :: manifest where
  "sample_top = \<lparr>m_type = M_Fanout,
     m_links = [sample_range 2 2 ''a'' ''b'', sample_range 3 1 ''c'' ''c'']\<rparr>"

definition sample_chunks :: "manifest_link list" where
  "sample_chunks = [chunk_link (replicate 32 5) 1, chunk_link (replicate 32 6) 1]"

definition sample_pair :: manifest where
  "sample_pair = \<lparr>m_type = M_File, m_links = sample_chunks\<rparr>"

definition sample_table :: "(bytes \<times> manifest) list" where
  "sample_table = [([2], sample_low), ([3], sample_high), ([4], sample_top), ([8], sample_pair)]"

definition sample_encode :: "jsval \<Rightarrow> bytes option" where
  "sample_encode v = (if v = manifest_value sample_low then Some [2]
     else if v = manifest_value sample_high then Some [3]
     else if v = manifest_value sample_top then Some [4]
     else if v = manifest_value sample_pair then Some [8] else None)"

definition sample_decode :: "bytes \<Rightarrow> jsval option" where
  "sample_decode w = map_option manifest_value (map_of sample_table w)"

abbreviation sample_writer :: "files writer_env" where
  "sample_writer \<equiv> directory_env sample_writer_limits sample_sha sample_encode (js ''/t'')"

lemma sample_differ:
  "manifest_value sample_high \<noteq> manifest_value sample_low"
  "manifest_value sample_top \<noteq> manifest_value sample_low"
  "manifest_value sample_top \<noteq> manifest_value sample_high"
  "manifest_value sample_pair \<noteq> manifest_value sample_low"
  "manifest_value sample_pair \<noteq> manifest_value sample_high"
  "manifest_value sample_pair \<noteq> manifest_value sample_top"
  by (simp_all add: manifest_value_def sample_high_def sample_low_def sample_top_def sample_pair_def)

lemma sample_encodes:
  "encode_manifest sample_encode sample_low = Some [2]"
  "encode_manifest sample_encode sample_high = Some [3]"
  "encode_manifest sample_encode sample_top = Some [4]"
  "encode_manifest sample_encode sample_pair = Some [8]"
  using sample_differ by (simp_all add: encode_manifest_def sample_encode_def)

lemma sample_groups: "groups 2 [a, b, c] = [[a, b], [c]]"
  by (simp add: groups_rec)

lemma sample_parents:
  "group_manifest K_directory 0 [sample_entry 5 ''a'', sample_entry 6 ''b''] = sample_low"
  "group_manifest K_directory 0 [sample_entry 7 ''c''] = sample_high"
  "group_manifest K_directory (Suc 0) [sample_range 2 2 ''a'' ''b'', sample_range 3 1 ''c'' ''c''] = sample_top"
  by (simp_all add: group_manifest_def manifest_kind_def sample_low_def sample_high_def sample_top_def)

lemma sample_links:
  "parent_link sample_writer K_directory 0 [sample_entry 5 ''a'', sample_entry 6 ''b''] = sample_range 2 2 ''a'' ''b''"
  "parent_link sample_writer K_directory 0 [sample_entry 7 ''c''] = sample_range 3 1 ''c'' ''c''"
  using sample_encodes
  unfolding parent_link_def sample_parents Let_def group_link_def manifest_bytes_def
  by (simp_all add: sample_sha_def sample_range_def sample_low_def sample_high_def links_count_def link_count_def
      bound_name_def sample_entry_def total_size_def kind_link_def)

lemma sample_tree:
  "tree_manifests sample_writer K_directory 0 sample_entries = [sample_low, sample_high, sample_top]"
  using sample_links
  by (simp add: tree_manifests.simps [of _ _ 0] tree_manifests.simps [of _ _ "Suc 0"] sample_entries_def
      sample_groups sample_parents)


definition sample_path_of :: "nat \<Rightarrow> jstr" where
  "sample_path_of n = blob_path (js ''/t'') (sample_key n)"

lemma persist_fresh:
  assumes "inventory_blob h st = None" "map_of (ws_world st) (blob_path root h) = None"
    and "h = to_hex (sha bs)" "ensure_inventory_room (directory_env lim sha mpe root) (int (length bs)) st"
  shows "persist (directory_env lim sha mpe root) bs st =
    (Inr \<lparr>cb_hash = h, cb_size = int (length bs), cb_path = blob_path root h\<rparr>,
     st\<lparr>ws_inventory := ws_inventory st @ [\<lparr>cb_hash = h, cb_size = int (length bs),
          cb_path = blob_path root h, iv_created = True\<rparr>],
        ws_total := ws_total st + int (length bs), ws_created := ws_created st + 1,
        ws_world := ws_world st @ [(blob_path root h, bs)]\<rparr>)"
proof -
  have "\<not> has_key cb_hash h (ws_inventory st)"
    using assms(1) by (auto simp: inventory_blob_def row_def find_None_iff has_key_iff)
  then show ?thesis using assms
    by (simp add: persist_def hash_of_def put_file_def record_candidate_def insert_row_def
        inventory_row_of_def Let_def)
qed

definition sample_state :: "nat list \<Rightarrow> int \<Rightarrow> files wstate" where
  "sample_state ns k = \<lparr>ws_inventory = map (\<lambda>n. \<lparr>cb_hash = sample_key n, cb_size = 1,
       cb_path = sample_path_of n, iv_created = True\<rparr>) ns,
     ws_total = int (length ns), ws_created = int (length ns), ws_max_buffered = k, ws_nodes = [],
     ws_components = [], ws_world = map (\<lambda>n. (sample_path_of n, [of_nat n])) ns\<rparr>"

lemma sample_persist:
  assumes "sample_key n \<notin> sample_key ` set ns" "length ns < 100"
  shows "persist sample_writer [of_nat n] ((sample_state ns k)\<lparr>ws_max_buffered := j\<rparr>) =
    (Inr \<lparr>cb_hash = sample_key n, cb_size = 1, cb_path = sample_path_of n\<rparr>, sample_state (ns @ [n]) j)"
proof -
  let ?st = "(sample_state ns k)\<lparr>ws_max_buffered := j\<rparr>"
  have "inventory_blob (sample_key n) ?st = None"
    using assms(1) by (auto simp: inventory_blob_def row_def find_None_iff sample_state_def image_iff)
  moreover have "map_of (ws_world ?st) (blob_path (js ''/t'') (sample_key n)) = None"
    using assms(1) by (auto simp: map_of_eq_None_iff sample_state_def sample_path_of_def blob_path_def image_iff)
  moreover have "sample_key n = to_hex (sample_sha [of_nat n])" by (simp add: sample_sha_def sample_key_def)
  moreover have "ensure_inventory_room sample_writer (int (length [of_nat n :: byte])) ?st"
    using assms(2) by (simp add: ensure_inventory_room_def sample_state_def)
  ultimately show ?thesis
    by (subst persist_fresh [where h = "sample_key n"]) (simp_all add: sample_state_def sample_path_of_def)
qed


lemma sample_flush:
  assumes "encode_manifest sample_encode (group_manifest k level g) = Some [of_nat n]"
    and "sample_key n \<notin> sample_key ` set ns" "length ns < 100"
    and "logical_size 0 g = Inr (total_size g)"
  shows "flush_group sample_writer k level g (sample_state ns j) =
    (Inr (parent_link sample_writer k level g), sample_state (ns @ [n]) (max j (int (length g))))"
proof -
  have m: "\<lparr>m_type = manifest_kind k level, m_links = g\<rparr> = group_manifest k level g"
    by (simp add: group_manifest_def)
  have j: "ws_max_buffered (sample_state ns j) = j" by (simp add: sample_state_def)
  show ?thesis
    unfolding flush_group_def m j Let_def
    by (simp add: persist_manifest_def assms(1,4) sample_persist [OF assms(2,3)] parent_link_def
        manifest_bytes_def)
qed

lemma sample_collapse_last:
  assumes "encode_manifest sample_encode (group_manifest k level g) = Some [of_nat n]"
    and "sample_key n \<notin> sample_key ` set ns" "length ns < 100"
    and "logical_size 0 g = Inr (total_size g)" "length g \<le> 2"
  shows "collapse sample_writer k level g (sample_state ns j) =
    (Inr \<lparr>bt_blob = \<lparr>cb_hash = sample_key n, cb_size = 1, cb_path = sample_path_of n\<rparr>,
       bt_digest = sample_sha [of_nat n], bt_size = total_size g,
       bt_type = kind_link (m_type (group_manifest k level g)),
       bt_count = (if k = K_file then 1 else links_count g)\<rparr>,
     sample_state (ns @ [n]) (max j (int (length g))))"
proof -
  have m: "\<lparr>m_type = manifest_kind k level, m_links = g\<rparr> = group_manifest k level g"
    by (simp add: group_manifest_def)
  have j: "ws_max_buffered (sample_state ns j) = j" by (simp add: sample_state_def)
  show ?thesis
    unfolding collapse.simps [of _ k level g] m j Let_def
    using assms(5) by (simp add: persist_manifest_def assms(1,4) sample_persist [OF assms(2,3)])
qed

definition sample_built :: built where
  "sample_built = \<lparr>bt_blob = \<lparr>cb_hash = sample_key 4, cb_size = 1, cb_path = sample_path_of 4\<rparr>,
     bt_digest = sample_sha [4], bt_size = 3, bt_type = L_Fanout, bt_count = 3\<rparr>"

lemma sample_collapses:
  "collapse sample_writer K_directory 0 sample_entries (sample_state [] 0)
    = (Inr sample_built, sample_state [2, 3, 4] 2)"
proof -
  let ?low = "[sample_entry 5 ''a'', sample_entry 6 ''b'']" and ?high = "[sample_entry 7 ''c'']"
  let ?top = "[sample_range 2 2 ''a'' ''b'', sample_range 3 1 ''c'' ''c'']"
  have s: "logical_size 0 ?low = Inr (total_size ?low)" "logical_size 0 ?high = Inr (total_size ?high)"
    "logical_size 0 ?top = Inr (total_size ?top)"
    by (simp_all add: sample_entry_def sample_range_def safe_int_def max_safe_def total_size_def)
  have e: "encode_manifest sample_encode (group_manifest K_directory 0 ?low) = Some [of_nat 2]"
    "encode_manifest sample_encode (group_manifest K_directory 0 ?high) = Some [of_nat 3]"
    "encode_manifest sample_encode (group_manifest K_directory (Suc 0) ?top) = Some [of_nat 4]"
    unfolding sample_parents by (simp_all add: sample_encodes)
  have t: "total_size ?top = 3" "links_count ?top = 3"
    by (simp_all add: total_size_def sample_range_def links_count_def link_count_def)
  have y: "m_type (group_manifest K_directory (Suc 0) ?top) = M_Fanout"
    unfolding sample_parents by (simp add: sample_top_def)
  have a: "flush_group sample_writer K_directory 0 ?low (sample_state [] 0)
      = (Inr (sample_range 2 2 ''a'' ''b''), sample_state [2] 2)"
    using sample_flush [OF e(1), of "[]" 0] s(1) by (simp add: sample_links)
  have b: "flush_group sample_writer K_directory 0 ?high (sample_state [2] 2)
      = (Inr (sample_range 3 1 ''c'' ''c''), sample_state [2, 3] 2)"
    using sample_flush [OF e(2), of "[2]" 2] s(2) by (simp add: sample_links)
  have c: "collapse sample_writer K_directory (Suc 0) ?top (sample_state [2, 3] 2)
      = (Inr sample_built, sample_state [2, 3, 4] 2)"
    using sample_collapse_last [OF e(3), of "[2, 3]" 2] s(3)
    by (simp add: y t sample_built_def kind_link_def)
  show ?thesis
    by (subst collapse.simps) (simp add: sample_entries_def sample_groups a b c)
qed


lemma sample_pair_group: "group_manifest K_file 0 sample_chunks = sample_pair"
  by (simp add: group_manifest_def manifest_kind_def sample_pair_def)

lemma sample_pair_tree: "tree_manifests sample_writer K_file 0 sample_chunks = [sample_pair]"
  by (simp add: tree_manifests.simps [of _ _ 0] sample_pair_group) (simp add: sample_chunks_def)

definition sample_file_built :: built where
  "sample_file_built = \<lparr>bt_blob = \<lparr>cb_hash = sample_key 8, cb_size = 1, cb_path = sample_path_of 8\<rparr>,
     bt_digest = sample_sha [8], bt_size = 2, bt_type = L_File, bt_count = 1\<rparr>"

lemma sample_file_collapses:
  "collapse sample_writer K_file 0 sample_chunks (sample_state [] 0)
    = (Inr sample_file_built, sample_state [8] 2)"
proof -
  have e: "encode_manifest sample_encode (group_manifest K_file 0 sample_chunks) = Some [of_nat 8]"
    unfolding sample_pair_group by (simp add: sample_encodes)
  have s: "logical_size 0 sample_chunks = Inr (total_size sample_chunks)" "total_size sample_chunks = 2"
    "length sample_chunks = 2"
    by (simp_all add: sample_chunks_def chunk_link_def safe_int_def max_safe_def total_size_def)
  show ?thesis
    using sample_collapse_last [OF e, of "[]" 0] s
    by (simp add: sample_file_built_def sample_pair_group sample_pair_def kind_link_def)
qed

definition sample_store :: "nat list \<Rightarrow> jstr \<Rightarrow> bytes option" where
  "sample_store ns = file_content (js ''/t'') (ws_world (sample_state ns 2))"

definition sample_store_reader :: "nat list \<Rightarrow> unit reader_env" where
  "sample_store_reader ns = sample_reader\<lparr>re_mp_decode := sample_decode, re_mp_encode := sample_encode,
     re_fetch := (\<lambda>bl h s. (case sample_store ns h of None \<Rightarrow> (Inl (RE_fetch []), s)
       | Some c \<Rightarrow> (Inr \<lparr>vb_pieces = [c], vb_size = int (length c)\<rparr>, s)))\<rparr>"

lemma sample_store_reader_simps [simp]:
  "re_mp_encode (sample_store_reader ns) = sample_encode"
  "re_mp_decode (sample_store_reader ns) = sample_decode"
  "re_manifest_limits (sample_store_reader ns) = sample_limits"
  by (simp_all add: sample_store_reader_def sample_reader_def)

lemma sample_store_faithful: "faithful (sample_store_reader ns) (sample_store ns)"
  by (auto simp: faithful_def sample_store_reader_def sample_reader_def split: option.splits)

lemma sample_readable:
  "readable (sample_store_reader ns) sample_low" "readable (sample_store_reader ns) sample_high"
  "readable (sample_store_reader ns) sample_top" "readable (sample_store_reader ns) sample_pair"
  unfolding readable_def sample_store_reader_simps sample_encodes
  by (simp_all add: sample_decode_def sample_table_def sample_limits_def safe_int_def max_safe_def)
    (simp_all add: manifest_value_def link_value_def opt_prop_def sample_low_def sample_high_def
      sample_top_def sample_pair_def sample_chunks_def chunk_link_def sample_entry_def sample_range_def
      js_eval utf8_def utf8_scalar_def high_surrogate_def low_surrogate_def)

lemma sample_entries_ok: "directory_entries sample_entries"
  by (simp add: directory_entries_def sample_entries_def sample_entry_def wf_link_def total_size_def
      link_name_def safe_name_def name_less_def utf8_def utf8_scalar_def js_eval
      high_surrogate_def low_surrogate_def max_safe_def)


lemma sample_bytes:
  "manifest_bytes sample_writer sample_low = [2]" "manifest_bytes sample_writer sample_high = [3]"
  "manifest_bytes sample_writer sample_top = [4]" "manifest_bytes sample_writer sample_pair = [8]"
  by (simp_all add: manifest_bytes_def sample_encodes)

lemma sample_sha_keys:
  "to_hex (sample_sha [2]) = sample_key 2" "to_hex (sample_sha [3]) = sample_key 3"
  "to_hex (sample_sha [4]) = sample_key 4" "to_hex (sample_sha [8]) = sample_key 8"
  by (simp_all add: sample_sha_def sample_key_def)

lemma sample_stored:
  "sample_store [2, 3, 4] (sample_key 2) = Some [2]" "sample_store [2, 3, 4] (sample_key 3) = Some [3]"
  "sample_store [2, 3, 4] (sample_key 4) = Some [4]" "sample_store [8] (sample_key 8) = Some [8]"
  by (simp_all add: sample_store_def file_content_def sample_state_def sample_path_of_def blob_path_def)

lemma sample_sha_length: "length (sample_sha bs) = 32"
  by (simp add: sample_sha_def)

text \<open>The directory is empty before the write.\<close>

lemma sample_empty_store:
  "\<forall>m \<in> set (tree_manifests sample_writer k 0 links).
     \<forall>d. file_content (js ''/t'') (ws_world (sample_state [] 0))
        (to_hex (sample_sha (manifest_bytes sample_writer m))) = Some d
      \<longrightarrow> d = manifest_bytes sample_writer m"
  by (simp add: file_content_def sample_state_def)

lemma sample_hashes_differ:
  "inj_on sample_sha (manifest_bytes sample_writer ` set (tree_manifests sample_writer K_directory 0 sample_entries))"
  "inj_on sample_sha (manifest_bytes sample_writer ` set (tree_manifests sample_writer K_file 0 sample_chunks))"
  unfolding sample_tree sample_pair_tree by (simp_all add: sample_bytes sample_sha_def)

lemma sample_directory_readable:
  "\<forall>m \<in> set (tree_manifests sample_writer K_directory 0 sample_entries).
     readable (sample_store_reader ns) m"
  unfolding sample_tree by (simp add: sample_readable)

lemma sample_no_inventory:
  "\<forall>r \<in> set (ws_inventory (sample_state [] 0)).
     file_content root (ws_world (sample_state [] 0)) (cb_hash r) \<noteq> None"
  by (simp add: sample_state_def)

lemma file_written_reads_back_witness:
  "file_chunks (manifest_at (sample_store_reader [8]) (sample_store [8])) (sample_key 8) 2
     [(to_hex (replicate 32 5), 1), (to_hex (replicate 32 6), 1)]"
proof -
  have l: "\<forall>l \<in> set sample_chunks. ml_type l = L_Blob \<and> wf_link M_File l"
    by (simp add: sample_chunks_def chunk_link_def wf_link_def max_safe_def)
  have r: "\<forall>m \<in> set (tree_manifests sample_writer K_file 0 sample_chunks). readable (sample_store_reader [8]) m"
    unfolding sample_pair_tree by (simp add: sample_readable)
  have "total_size sample_chunks = 2" by (simp add: sample_chunks_def chunk_link_def total_size_def)
  moreover have "map (\<lambda>l. (to_hex (ml_hash l), ml_size l)) sample_chunks
      = [(to_hex (replicate 32 5), 1), (to_hex (replicate 32 6), 1)]"
    by (simp add: sample_chunks_def chunk_link_def)
  ultimately show ?thesis
    using file_written_reads_back [OF sample_sha_length sample_file_collapses sample_no_inventory l
        sample_store_reader_simps(1) r sample_empty_store sample_hashes_differ(2)]
    by (simp only: sample_file_built_def built.simps sample_sha_keys sample_store_def)
qed

lemma directory_written_reads_back_witness:
  "entries_of (manifest_at (sample_store_reader [2, 3, 4]) (sample_store [2, 3, 4])) (sample_key 4) sample_entries"
  using directory_written_reads_back [OF sample_sha_length sample_collapses sample_no_inventory
      sample_entries_ok sample_store_reader_simps(1) sample_directory_readable sample_empty_store
      sample_hashes_differ(1)]
  by (simp only: sample_built_def built.simps sample_sha_keys sample_store_def)

lemma large_directory_unreadable_witness:
  "\<exists>e s. resolve (sample_store_reader [2, 3, 4]) (sample_key 4) (js ''a'') False sample_budget () = (Inl e, s)"
proof -
  have "wl_max_links sample_writer_limits < length sample_entries" by (simp add: sample_entries_def)
  from large_directory_unreadable [OF sample_sha_length sample_collapses sample_no_inventory
      sample_entries_ok sample_store_reader_simps(1) sample_directory_readable sample_empty_store
      sample_hashes_differ(1) this
      sample_store_faithful [of "[2, 3, 4]", unfolded sample_store_def]]
  show ?thesis by (simp only: sample_built_def built.simps sample_sha_keys)
qed

end
