(* ===== verification/Narinfo.thy ===== *)
theory Narinfo
  imports Base64
begin

section \<open>Narinfo texts (protocol/narinfo.ts)\<close>

text \<open>
  \<^verbatim>\<open>src/protocol/narinfo.ts\<close>: the parser of narinfo texts, the comparison of their
  fields, the text with signatures appended, and the endorsement of signatures by keys.
  Ed25519 verification is a parameter.
\<close>

datatype narinfo_error =
    NE_text | NE_line | NE_sig_colon | NE_sig_name | NE_base64 | NE_base64_form | NE_base64_canonical
  | NE_unknown | NE_duplicate | NE_missing | NE_store_path | NE_url | NE_compression | NE_hash
  | NE_integer | NE_too_large | NE_references | NE_key

record narinfo_signature =
  ns_name :: jstr
  ns_encoded :: jstr
  ns_bytes :: bytes
  ns_raw :: jstr

record narinfo =
  ni_store_path :: jstr
  ni_url :: jstr
  ni_compression :: jstr
  ni_file_hash :: jstr
  ni_file_size :: int
  ni_nar_hash :: jstr
  ni_nar_size :: int
  ni_references :: "jstr list"
  ni_deriver :: "jstr option"
  ni_system :: "jstr option"
  ni_ca :: "jstr option"
  ni_signatures :: "narinfo_signature list"
  ni_fingerprint :: jstr
  ni_raw :: jstr

datatype narinfo_field =
    NF_StorePath | NF_URL | NF_Compression | NF_FileHash | NF_FileSize | NF_NarHash | NF_NarSize
  | NF_References | NF_Deriver | NF_System | NF_CA

definition required_fields :: "narinfo_field list" where
  "required_fields = [NF_StorePath, NF_URL, NF_Compression, NF_FileHash, NF_FileSize, NF_NarHash,
     NF_NarSize, NF_References]"

definition optional_fields :: "narinfo_field list" where
  "optional_fields = [NF_Deriver, NF_System, NF_CA]"

definition semantic_fields :: "narinfo_field list" where
  "semantic_fields = required_fields @ [NF_Deriver, NF_System, NF_CA]"

fun field_text :: "narinfo_field \<Rightarrow> jstr" where
  "field_text NF_StorePath = js ''StorePath''" | "field_text NF_URL = js ''URL''"
| "field_text NF_Compression = js ''Compression''" | "field_text NF_FileHash = js ''FileHash''"
| "field_text NF_FileSize = js ''FileSize''" | "field_text NF_NarHash = js ''NarHash''"
| "field_text NF_NarSize = js ''NarSize''" | "field_text NF_References = js ''References''"
| "field_text NF_Deriver = js ''Deriver''" | "field_text NF_System = js ''System''"
| "field_text NF_CA = js ''CA''"

subsection \<open>Signatures\<close>

definition base64_form :: "jstr \<Rightarrow> bool" where
  "base64_form s \<longleftrightarrow>
     (let body = takeWhile is_b64 s; pad = dropWhile is_b64 s in
      body \<noteq> [] \<and> (pad = [] \<or> pad = [61] \<or> pad = [61, 61]))"

definition canonical_base64 :: "jstr \<Rightarrow> nat \<Rightarrow> narinfo_error + bytes" where
  "canonical_base64 s n =
     (if \<not> base64_form s then Inl NE_base64_form
      else (case atob s of None \<Rightarrow> Inl NE_base64
        | Some b \<Rightarrow> if length b \<noteq> n \<or> btoa b \<noteq> s then Inl NE_base64_canonical else Inr b))"

definition signature_of :: "jstr \<Rightarrow> jstr \<Rightarrow> narinfo_error + narinfo_signature" where
  "signature_of line val =
     (case index_of [58] val of None \<Rightarrow> Inl NE_sig_colon
      | Some colon \<Rightarrow>
          if colon = 0 \<or> last_index_of 58 val \<noteq> Some colon then Inl NE_sig_colon
          else let name = take colon val; encoded = drop (colon + 1) val in
            if name = [] \<or> list_ex (\<lambda>u. is_space u \<or> u < 32 \<or> u = 127) name then Inl NE_sig_name
            else ebind (canonical_base64 encoded 64) (\<lambda>b.
              Inr \<lparr>ns_name = name, ns_encoded = encoded, ns_bytes = b, ns_raw = line\<rparr>))"

subsection \<open>Lines\<close>

type_synonym narinfo_state = "(jstr, jstr) jmap \<times> narinfo_signature list"

definition narinfo_line :: "jstr \<Rightarrow> narinfo_state \<Rightarrow> narinfo_error + narinfo_state" where
  "narinfo_line line st =
     (case index_of (js '': '') line of None \<Rightarrow> Inl NE_line
      | Some sep \<Rightarrow>
          if sep = 0 then Inl NE_line
          else let field = take sep line; val = drop (sep + 2) line in
            if field = js ''Sig'' then
              ebind (signature_of line val) (\<lambda>s. Inr (fst st, snd st @ [s]))
            else if field \<notin> set (map field_text required_fields)
              \<and> field \<notin> set (map field_text optional_fields) then Inl NE_unknown
            else if map_of (fst st) field \<noteq> None then Inl NE_duplicate
            else Inr (AList.update field val (fst st), snd st))"

subsection \<open>Fields\<close>

text \<open>\<open>/^[0-9a-z]{32}-[^/\s]+$/\<close>, after \<open>/nix/store/\<close> for a store path.\<close>

definition is_base32 :: "nat \<Rightarrow> bool" where
  "is_base32 u \<longleftrightarrow> is_digit u \<or> is_lower u"

definition store_name :: "jstr \<Rightarrow> bool" where
  "store_name s \<longleftrightarrow> 33 < length s \<and> list_all is_base32 (take 32 s) \<and> s ! 32 = 45
     \<and> list_all (\<lambda>u. u \<noteq> 47 \<and> \<not> is_space u) (drop 33 s)"

definition store_path :: "jstr \<Rightarrow> bool" where
  "store_path s \<longleftrightarrow> starts_with (js ''/nix/store/'') s \<and> store_name (drop 11 s)"

definition nar_url :: "jstr \<Rightarrow> bool" where
  "nar_url s \<longleftrightarrow> \<not> (s = [] \<or> starts_with [47] s \<or> 92 \<in> set s \<or> js ''..'' \<in> set (split_on 47 s))"

definition hash_text :: "jstr \<Rightarrow> bool" where
  "hash_text s \<longleftrightarrow> starts_with (js ''sha256:'') s \<and> 7 < length s \<and> list_all is_base32 (drop 7 s)"

definition unsigned_integer :: "jstr \<Rightarrow> narinfo_error + int" where
  "unsigned_integer s =
     (if s = [] \<or> \<not> list_all is_digit s then Inl NE_integer
      else if \<not> safe_int (int (dec_value s)) then Inl NE_too_large
      else Inr (int (dec_value s)))"

definition fingerprint_of :: "jstr \<Rightarrow> jstr \<Rightarrow> int \<Rightarrow> jstr list \<Rightarrow> jstr" where
  "fingerprint_of path nar n refs =
     js ''1;'' @ path @ [59] @ nar @ [59] @ dec_digits (nat n) @ [59] @ join_with [44] refs"

definition narinfo_of :: "jstr \<Rightarrow> narinfo_state \<Rightarrow> narinfo_error + narinfo" where
  "narinfo_of raw st =
     (let get = (\<lambda>f. map_of (fst st) (field_text f)); val = (\<lambda>f. the (get f)) in
      if \<exists>f \<in> set required_fields. get f = None then Inl NE_missing
      else if \<not> store_path (val NF_StorePath) then Inl NE_store_path
      else if \<not> nar_url (val NF_URL) then Inl NE_url
      else if val NF_Compression = [] \<or> list_ex is_space (val NF_Compression) then Inl NE_compression
      else if \<not> hash_text (val NF_FileHash) \<or> \<not> hash_text (val NF_NarHash) then Inl NE_hash
      else ebind (unsigned_integer (val NF_FileSize)) (\<lambda>file_size.
           ebind (unsigned_integer (val NF_NarSize)) (\<lambda>nar_size.
             let refs = filter (\<lambda>s. s \<noteq> []) (split_on 32 (val NF_References)) in
             if \<not> list_all store_name refs then Inl NE_references
             else Inr \<lparr>ni_store_path = val NF_StorePath, ni_url = val NF_URL,
               ni_compression = val NF_Compression, ni_file_hash = val NF_FileHash,
               ni_file_size = file_size, ni_nar_hash = val NF_NarHash, ni_nar_size = nar_size,
               ni_references = refs, ni_deriver = get NF_Deriver, ni_system = get NF_System,
               ni_ca = get NF_CA, ni_signatures = snd st,
               ni_fingerprint = fingerprint_of (val NF_StorePath) (val NF_NarHash) nar_size refs,
               ni_raw = raw\<rparr>)))"

definition parse_narinfo :: "jstr \<Rightarrow> narinfo_error + narinfo" where
  "parse_narinfo text =
     (if \<not> ends_with [10] text \<or> 13 \<in> set text \<or> 0 \<in> set text then Inl NE_text
      else ebind (fold_err narinfo_line (split_on 10 (butlast text)) ([], [])) (narinfo_of text))"

subsection \<open>Comparing and extending\<close>

datatype field_value = FV_text jstr | FV_number int | FV_list "jstr list" | FV_undefined

definition opt_text :: "jstr option \<Rightarrow> field_value" where
  "opt_text v = (case v of None \<Rightarrow> FV_undefined | Some s \<Rightarrow> FV_text s)"

fun semantics :: "narinfo \<Rightarrow> narinfo_field \<Rightarrow> field_value" where
  "semantics n NF_StorePath = FV_text (ni_store_path n)" | "semantics n NF_URL = FV_text (ni_url n)"
| "semantics n NF_Compression = FV_text (ni_compression n)"
| "semantics n NF_FileHash = FV_text (ni_file_hash n)"
| "semantics n NF_FileSize = FV_number (ni_file_size n)"
| "semantics n NF_NarHash = FV_text (ni_nar_hash n)"
| "semantics n NF_NarSize = FV_number (ni_nar_size n)"
| "semantics n NF_References = FV_list (ni_references n)"
| "semantics n NF_Deriver = opt_text (ni_deriver n)"
| "semantics n NF_System = opt_text (ni_system n)" | "semantics n NF_CA = opt_text (ni_ca n)"

definition differing_fields :: "narinfo \<Rightarrow> narinfo \<Rightarrow> narinfo_field list" where
  "differing_fields a b = filter (\<lambda>f. semantics a f \<noteq> semantics b f) semantic_fields"

definition append_signatures :: "narinfo \<Rightarrow> jstr list \<Rightarrow> jstr" where
  "append_signatures winner ls =
     (if ls = [] then ni_raw winner
      else butlast (ni_raw winner) @ concat (map (\<lambda>l. 10 # l) ls) @ [10])"

record endorsement =
  en_signature :: nat
  en_endorsed :: bool
  en_key :: "nat option"

text \<open>The inner loop: the first key that verifies; a key of another length throws.\<close>

fun endorsing_key ::
  "(bytes \<Rightarrow> bytes \<Rightarrow> bytes \<Rightarrow> bool) \<Rightarrow> bytes \<Rightarrow> bytes \<Rightarrow> nat \<Rightarrow> bytes list \<Rightarrow> narinfo_error + nat option"
where
  "endorsing_key verify sig msg i [] = Inr None"
| "endorsing_key verify sig msg i (k # ks) =
     (if length k \<noteq> 32 then Inl NE_key
      else if verify sig msg k then Inr (Some i)
      else endorsing_key verify sig msg (i + 1) ks)"

definition classify_endorsements ::
  "(bytes \<Rightarrow> bytes \<Rightarrow> bytes \<Rightarrow> bool) \<Rightarrow> narinfo \<Rightarrow> bytes list \<Rightarrow> narinfo_error + endorsement list"
where
  "classify_endorsements verify n keys =
     map_err (\<lambda>(i, s).
       ebind (endorsing_key verify (ns_bytes s) (utf8_bytes (ni_fingerprint n)) 0 keys) (\<lambda>k.
         Inr \<lparr>en_signature = i, en_endorsed = (k \<noteq> None), en_key = k\<rparr>))
       (enumerate 0 (ni_signatures n))"


subsection \<open>Lines of a text\<close>

lemma signature_of_raw: "signature_of line val = Inr s \<Longrightarrow> ns_raw s = line"
  by (auto simp: signature_of_def Let_def ebind_Inr split: option.splits if_splits)

lemma narinfo_line_signatures:
  assumes "narinfo_line line (sc, sg) = Inr (sc', sg')"
  shows "sg' = sg \<or> (\<exists>s. sg' = sg @ [s] \<and> ns_raw s = line
    \<and> (\<forall>fc fg. narinfo_line line (fc, fg) = Inr (fc, fg @ [s])))"
  using assms signature_of_raw
  by (auto simp: narinfo_line_def Let_def ebind_Inr split: option.splits if_splits)

text \<open>A signature of a parsed text comes from a line that adds it to any state.\<close>

definition signature_line :: "jstr list \<Rightarrow> narinfo_signature \<Rightarrow> bool" where
  "signature_line lines s \<longleftrightarrow> ns_raw s \<in> set lines
     \<and> (\<forall>fc fg. narinfo_line (ns_raw s) (fc, fg) = Inr (fc, fg @ [s]))"

lemma fold_lines_signatures:
  assumes "fold_err narinfo_line lines (sc, sg) = Inr (sc', sg')" "\<forall>s \<in> set sg. signature_line all s"
    and "set lines \<subseteq> set all"
  shows "\<forall>s \<in> set sg'. signature_line all s"
  using assms
proof (induction lines arbitrary: sc sg)
  case (Cons l ls)
  obtain fc fg where l: "narinfo_line l (sc, sg) = Inr (fc, fg)"
    using Cons.prems(1) by (cases "narinfo_line l (sc, sg)") auto
  have "\<forall>s \<in> set fg. signature_line all s"
    using narinfo_line_signatures [OF l] Cons.prems(2,3) by (auto simp: signature_line_def)
  then show ?case using Cons.IH [of fc fg] Cons.prems l by simp
qed simp

lemma fold_err_split:
  "fold_err f (xs @ ys) s = (case fold_err f xs s of Inl e \<Rightarrow> Inl e | Inr t \<Rightarrow> fold_err f ys t)"
  by (auto simp: fold_err_append split: sum.splits)

lemma fold_added_signatures:
  "\<forall>s \<in> set added. \<exists>lines. signature_line lines s \<Longrightarrow>
     fold_err narinfo_line (map ns_raw added) (sc, sg) = Inr (sc, sg @ added)"
  by (induction added arbitrary: sg) (auto simp: signature_line_def)

lemma split_on_lines:
  "\<forall>l \<in> set ls. 10 \<notin> set l \<Longrightarrow> split_on 10 (w @ concat (map (\<lambda>l. 10 # l) ls)) = split_on 10 w @ ls"
proof (induction w)
  case Nil
  then show ?case
  proof (induction ls)
    case (Cons l ls)
    then show ?case
    proof (cases ls)
      case (Cons m ms)
      with Cons.IH Cons.prems split_on_append_sep [of 10 l] show ?thesis by simp
    qed (simp add: split_on_plain)
  qed simp
next
  case (Cons u w)
  then show ?case by (auto split: list.splits)
qed

lemma parsed_text:
  assumes "parse_narinfo t = Inr n"
  shows "ni_raw n = t \<and> (\<exists>body. t = body @ [10]) \<and> 13 \<notin> set t \<and> 0 \<notin> set t
    \<and> (\<forall>s \<in> set (ni_signatures n). signature_line (split_on 10 (butlast t)) s)"
proof -
  obtain sc sg where f: "fold_err narinfo_line (split_on 10 (butlast t)) ([], []) = Inr (sc, sg)"
    and n: "narinfo_of t (sc, sg) = Inr n" and c: "ends_with [10] t" "13 \<notin> set t" "0 \<notin> set t"
    using assms by (auto simp: parse_narinfo_def ebind_Inr split: if_splits)
  have "ni_raw n = t" "ni_signatures n = sg"
    using n by (auto simp: narinfo_of_def Let_def ebind_Inr split: if_splits)
  moreover have "t = butlast t @ [10]"
    using c(1) by (cases t rule: rev_cases) (auto simp: ends_with_def)
  moreover have "\<forall>s \<in> set sg. signature_line (split_on 10 (butlast t)) s"
    by (rule fold_lines_signatures [OF f]) simp_all
  ultimately show ?thesis using c by blast
qed

lemma signature_line_chars:
  assumes "parse_narinfo t = Inr n" "s \<in> set (ni_signatures n)"
  shows "10 \<notin> set (ns_raw s) \<and> 13 \<notin> set (ns_raw s) \<and> 0 \<notin> set (ns_raw s)"
proof -
  have "ns_raw s \<in> set (split_on 10 (butlast t))"
    using parsed_text [OF assms(1)] assms(2) by (auto simp: signature_line_def)
  moreover have "set w \<subseteq> set v" if "w \<in> set (split_on c v)" for c w and v :: jstr
    using that
  proof (induction v arbitrary: w)
    case (Cons a v)
    then show ?case by (cases "split_on c v") (fastforce split: if_splits)+
  qed simp
  ultimately show ?thesis
    using parsed_text [OF assms(1)] split_on_no_sep [of 10 "butlast t"] by (meson in_set_butlastD subsetD)
qed

text \<open>
  C13: Appending signatures is exact: when raw signature lines of parsed narinfos are
  appended to the text of a winner, the text parses again, to the winner with these
  signatures added at the end; every other field, and with it the fingerprint that is signed,
  is unchanged.
\<close>

theorem appended_signatures_parse:
  assumes "parse_narinfo t = Inr n"
    and "\<forall>s \<in> set added. \<exists>u m. parse_narinfo u = Inr m \<and> s \<in> set (ni_signatures m)"
  shows "parse_narinfo (append_signatures n (map ns_raw added)) =
    Inr (n\<lparr>ni_signatures := ni_signatures n @ added, ni_raw := append_signatures n (map ns_raw added)\<rparr>)"
proof (cases "added = []")
  case True
  then show ?thesis using assms(1) parsed_text [OF assms(1)] by (simp add: append_signatures_def)
next
  case False
  let ?ls = "map ns_raw added"
  let ?t = "append_signatures n ?ls"
  note p = parsed_text [OF assms(1)]
  have chars: "\<forall>l \<in> set ?ls. 10 \<notin> set l \<and> 13 \<notin> set l \<and> 0 \<notin> set l"
    using assms(2) signature_line_chars by fastforce
  have t: "?t = (butlast t @ concat (map (\<lambda>l. 10 # l) ?ls)) @ [10]"
    using False p by (simp add: append_signatures_def)
  have ok: "ends_with [10] ?t" "13 \<notin> set ?t" "0 \<notin> set ?t"
    using chars p unfolding t by (auto simp: ends_with_def dest: in_set_butlastD)
  have lines: "split_on 10 (butlast ?t) = split_on 10 (butlast t) @ ?ls"
    unfolding t butlast_snoc using chars by (intro split_on_lines) blast
  obtain sc sg where f: "fold_err narinfo_line (split_on 10 (butlast t)) ([], []) = Inr (sc, sg)"
    and n: "narinfo_of t (sc, sg) = Inr n"
    using assms(1) by (auto simp: parse_narinfo_def ebind_Inr split: if_splits)
  have "\<forall>s \<in> set added. \<exists>lines. signature_line lines s"
    using assms(2) parsed_text by blast
  then have "fold_err narinfo_line (split_on 10 (butlast ?t)) ([], []) = Inr (sc, sg @ added)"
    unfolding lines fold_err_split f using fold_added_signatures by simp
  then have "parse_narinfo ?t = narinfo_of ?t (sc, sg @ added)"
    using ok by (simp add: parse_narinfo_def)
  also have "\<dots> = Inr (n\<lparr>ni_signatures := sg @ added, ni_raw := ?t\<rparr>)"
    using n by (auto simp: narinfo_of_def Let_def ebind_Inr split: if_splits)
  also have "sg = ni_signatures n"
    using n by (auto simp: narinfo_of_def Let_def ebind_Inr split: if_splits)
  finally show ?thesis .
qed

subsection \<open>The fingerprint\<close>

lemma parsed_fields:
  assumes "parse_narinfo t = Inr n"
  shows "hash_text (ni_nar_hash n) \<and> 0 \<le> ni_nar_size n \<and> store_path (ni_store_path n)
    \<and> list_all store_name (ni_references n)
    \<and> ni_fingerprint n = fingerprint_of (ni_store_path n) (ni_nar_hash n) (ni_nar_size n) (ni_references n)"
  using assms
  by (auto simp: parse_narinfo_def narinfo_of_def Let_def ebind_Inr unsigned_integer_def split: if_splits)

lemma hash_text_plain: "hash_text s \<Longrightarrow> 59 \<notin> set s"
proof -
  assume h: "hash_text s"
  have "length (js ''sha256:'') = 7" by simp
  with h have "take 7 s = js ''sha256:''" unfolding hash_text_def starts_with_def by metis
  moreover have "59 \<notin> set (drop 7 s)"
    using h by (auto simp: hash_text_def list_all_iff is_base32_def char_classes)
  ultimately have "59 \<notin> set (take 7 s @ drop 7 s)" by (simp only: set_append) (simp add: js_eval)
  then show ?thesis by simp
qed

lemma append_sep_inject:
  "c \<notin> set a \<Longrightarrow> c \<notin> set b \<Longrightarrow> a @ c # x = b @ c # y \<longleftrightarrow> a = b \<and> x = y"
proof (induction a arbitrary: b)
  case Nil
  then show ?case by (cases b) auto
next
  case (Cons u a)
  then show ?case by (cases b) auto
qed

text \<open>
  The fingerprint that is signed determines what it stands for: two parsed narinfos with
  the same fingerprint have the same store path, NAR hash, NAR size and references, when their
  store paths have no semicolon and their references no comma.
\<close>

theorem fingerprint_determines:
  assumes "parse_narinfo t = Inr a" "parse_narinfo u = Inr b" "ni_fingerprint a = ni_fingerprint b"
    and "59 \<notin> set (ni_store_path a)" "59 \<notin> set (ni_store_path b)"
    and "\<forall>r \<in> set (ni_references a @ ni_references b). 44 \<notin> set r"
  shows "ni_store_path a = ni_store_path b \<and> ni_nar_hash a = ni_nar_hash b
    \<and> ni_nar_size a = ni_nar_size b \<and> ni_references a = ni_references b"
proof -
  note p = parsed_fields [OF assms(1)] parsed_fields [OF assms(2)]
  have digits: "59 \<notin> set (dec_digits n)" for n
    using dec_digits_are_digits [of 59 n] by (auto simp: is_digit_def)
  have "ni_store_path a @ 59 # ni_nar_hash a @ 59 # dec_digits (nat (ni_nar_size a)) @ 59 # join_with [44] (ni_references a)
      = ni_store_path b @ 59 # ni_nar_hash b @ 59 # dec_digits (nat (ni_nar_size b)) @ 59 # join_with [44] (ni_references b)"
    using assms(3) p by (simp add: fingerprint_of_def)
  then have eq: "ni_store_path a = ni_store_path b" "ni_nar_hash a = ni_nar_hash b"
    "dec_digits (nat (ni_nar_size a)) = dec_digits (nat (ni_nar_size b))"
    "join_with [44] (ni_references a) = join_with [44] (ni_references b)"
    using assms(4,5) p digits hash_text_plain by (simp_all add: append_sep_inject)
  have nonempty: "\<forall>r \<in> set (ni_references a @ ni_references b). r \<noteq> []"
    using p by (auto simp: list_all_iff store_name_def)
  have join_empty: "join_with [44] rs = [] \<longleftrightarrow> rs = []" if "\<forall>r \<in> set rs. r \<noteq> []" for rs :: "jstr list"
  proof (cases rs)
    case (Cons r rs')
    with that show ?thesis by (cases rs') auto
  qed simp
  have "ni_references a = ni_references b"
  proof (cases "ni_references a = [] \<or> ni_references b = []")
    case True
    then show ?thesis using eq(4) join_empty [of "ni_references a"] join_empty [of "ni_references b"]
        nonempty by fastforce
  next
    case False
    then show ?thesis
      using arg_cong [OF eq(4), of "split_on 44"] split_join [of _ 44] assms(6) by simp
  qed
  moreover have "ni_nar_size a = ni_nar_size b"
    using eq(3) p by (metis dec_digits_inject nat_0_le)
  ultimately show ?thesis using eq by simp
qed

lemma endorsing_key_first:
  "endorsing_key verify sig msg i keys = Inr (Some k) \<Longrightarrow>
     i \<le> k \<and> k < i + length keys \<and> verify sig msg (keys ! (k - i))
     \<and> (\<forall>j < k - i. \<not> verify sig msg (keys ! j))"
proof (induction keys arbitrary: i)
  case (Cons x keys)
  then show ?case
  proof (cases "verify sig msg x")
    case False
    with Cons.prems have "endorsing_key verify sig msg (i + 1) keys = Inr (Some k)"
      by (simp split: if_splits)
    from Cons.IH [OF this] have "Suc i \<le> k" "k - Suc i < length keys"
      "verify sig msg (keys ! (k - Suc i))" "\<forall>j < k - Suc i. \<not> verify sig msg (keys ! j)"
      by auto
    moreover have "k - i = Suc (k - Suc i)" using \<open>Suc i \<le> k\<close> by simp
    ultimately show ?thesis using False by (auto simp: nth_Cons split: nat.splits)
  qed (auto split: if_splits)
qed simp

lemma endorsing_key_none:
  "endorsing_key verify sig msg i keys = Inr None \<Longrightarrow> \<forall>k \<in> set keys. length k = 32 \<and> \<not> verify sig msg k"
  by (induction keys arbitrary: i) (auto split: if_splits)


text \<open>
  Endorsements are exact: \<open>classifyEndorsements\<close> succeeds only when it reports, for every
  signature in order, whether some key of the list verifies it over the fingerprint, and the
  index it reports is that of the first such key.
\<close>

theorem endorsements_exact:
  assumes "classify_endorsements verify n keys = Inr es"
  shows "length es = length (ni_signatures n)
    \<and> (\<forall>i < length es. en_signature (es ! i) = i
        \<and> (en_endorsed (es ! i) \<longleftrightarrow>
            (\<exists>k \<in> set keys. verify (ns_bytes (ni_signatures n ! i)) (utf8_bytes (ni_fingerprint n)) k))
        \<and> (case en_key (es ! i) of None \<Rightarrow> \<not> en_endorsed (es ! i)
           | Some j \<Rightarrow> en_endorsed (es ! i) \<and> j < length keys
               \<and> verify (ns_bytes (ni_signatures n ! i)) (utf8_bytes (ni_fingerprint n)) (keys ! j)
               \<and> (\<forall>m < j. \<not> verify (ns_bytes (ni_signatures n ! i))
                     (utf8_bytes (ni_fingerprint n)) (keys ! m))))"
proof -
  let ?msg = "utf8_bytes (ni_fingerprint n)"
  let ?key = "\<lambda>s. endorsing_key verify (ns_bytes s) ?msg 0 keys"
  have l: "list_all2 (\<lambda>(i, s) e. \<exists>k. ?key s = Inr k
      \<and> e = \<lparr>en_signature = i, en_endorsed = (k \<noteq> None), en_key = k\<rparr>) (enumerate 0 (ni_signatures n)) es"
    using assms unfolding classify_endorsements_def map_err_Inr
    by (rule list_all2_mono) (auto simp: ebind_Inr)
  have len: "length es = length (ni_signatures n)" using list_all2_lengthD [OF l] by simp
  moreover have "en_signature (es ! i) = i
        \<and> (en_endorsed (es ! i) \<longleftrightarrow> (\<exists>k \<in> set keys. verify (ns_bytes (ni_signatures n ! i)) ?msg k))
        \<and> (case en_key (es ! i) of None \<Rightarrow> \<not> en_endorsed (es ! i)
           | Some j \<Rightarrow> en_endorsed (es ! i) \<and> j < length keys
               \<and> verify (ns_bytes (ni_signatures n ! i)) ?msg (keys ! j)
               \<and> (\<forall>m < j. \<not> verify (ns_bytes (ni_signatures n ! i)) ?msg (keys ! m)))"
    if i: "i < length es" for i
  proof -
    obtain k where k: "?key (ni_signatures n ! i) = Inr k"
      and e: "es ! i = \<lparr>en_signature = i, en_endorsed = (k \<noteq> None), en_key = k\<rparr>"
      using list_all2_nthD2 [OF l i] i len by (auto simp: nth_enumerate_eq)
    show ?thesis
    proof (cases k)
      case None
      with endorsing_key_none [of verify _ ?msg 0 keys] k e show ?thesis by fastforce
    next
      case (Some j)
      with endorsing_key_first [of verify _ ?msg 0 keys j] k e show ?thesis by (auto dest: nth_mem)
    qed
  qed
  ultimately show ?thesis by blast
qed

subsection \<open>Two narinfos with one fingerprint\<close>

text \<open>
  The form of a name does not exclude the semicolon, so the text that is signed can be read in
  two ways: a signature for a path with a suitable reference endorses another path.
\<close>

definition narinfo_text :: "jstr \<Rightarrow> jstr \<Rightarrow> nat \<Rightarrow> jstr list \<Rightarrow> jstr list \<Rightarrow> jstr" where
  "narinfo_text path nar n refs sigs = concat (map (\<lambda>l. l @ [10])
     ([js ''StorePath: '' @ path, js ''URL: nar/x'', js ''Compression: none'', js ''FileHash: sha256:f'',
       js ''FileSize: 1'', js ''NarHash: '' @ nar, js ''NarSize: '' @ dec_digits n,
       js ''References: '' @ join_with [32] refs] @ sigs))"

definition plain_value :: "jstr \<Rightarrow> bool" where
  "plain_value s \<longleftrightarrow> 10 \<notin> set s \<and> 13 \<notin> set s \<and> 0 \<notin> set s"

lemma index_of_prefix:
  "58 \<notin> set f \<Longrightarrow> index_of (js '': '') (f @ 58 # 32 # v) = Some (length f)"
  by (induction f) (auto simp: starts_with_def js_eval)

lemma field_line:
  assumes "f \<in> set (required_fields @ optional_fields)" "map_of sc (field_text f) = None"
  shows "narinfo_line (field_text f @ 58 # 32 # v) (sc, sg) = Inr (AList.update (field_text f) v sc, sg)"
proof -
  have c: "58 \<notin> set (field_text f)" "field_text f \<noteq> []" "field_text f \<noteq> js ''Sig''"
    by (cases f; simp add: js_eval)+
  have "field_text f \<in> set (map field_text required_fields) \<or> field_text f \<in> set (map field_text optional_fields)"
    using assms(1) by auto
  then show ?thesis using assms(2) c by (auto simp: narinfo_line_def index_of_prefix)
qed


lemma canonical_btoa:
  assumes "length bs = n" "0 < n"
  shows "canonical_base64 (btoa bs) n = Inr bs"
proof -
  let ?v = "map b64_char (sextets bs)"
  have v: "list_all is_b64 ?v" using sextets_bound [of _ bs] by (auto simp: list_all_iff is_b64_char)
  have pad: "b64_pad bs = 0 \<or> b64_pad bs = 1 \<or> b64_pad bs = 2" by (auto simp: b64_pad_def)
  have n61: "\<not> is_b64 61" by (simp add: is_b64_def char_classes)
  have t: "takeWhile is_b64 (?v @ replicate k 61) = ?v" "dropWhile is_b64 (?v @ replicate k 61) = replicate k 61" for k
    using v n61 by (induction bs rule: sextets.induct; cases k; auto simp: list_all_iff takeWhile_append dropWhile_append3 is_b64_char)+
  have "sextets bs \<noteq> []" using assms by (cases bs rule: sextets.cases) auto
  then have "base64_form (btoa bs)"
    using pad unfolding base64_form_def btoa_sextets t Let_def by (auto simp: numeral_2_eq_2)
  then show ?thesis using assms by (simp add: canonical_base64_def atob_btoa)
qed


definition signature_text :: "jstr \<Rightarrow> bytes \<Rightarrow> jstr" where
  "signature_text name bs = js ''Sig: '' @ name @ [58] @ btoa bs"

definition signature_value :: "jstr \<Rightarrow> bytes \<Rightarrow> narinfo_signature" where
  "signature_value name bs = \<lparr>ns_name = name, ns_encoded = btoa bs, ns_bytes = bs,
     ns_raw = signature_text name bs\<rparr>"

lemma btoa_chars: "u \<in> set (btoa bs) \<Longrightarrow> is_b64 u \<or> u = 61"
  using sextets_bound [of _ bs] by (auto simp: btoa_sextets is_b64_char)

lemma signature_text_line:
  assumes "name \<noteq> []" "58 \<notin> set name" "\<not> list_ex (\<lambda>u. is_space u \<or> u < 32 \<or> u = 127) name" "length bs = 64"
  shows "narinfo_line (signature_text name bs) (sc, sg) = Inr (sc, sg @ [signature_value name bs])"
proof -
  have b: "58 \<notin> set (btoa bs)" using btoa_chars [of 58 bs] by (auto simp: is_b64_def char_classes)
  have "signature_text name bs = js ''Sig'' @ 58 # 32 # (name @ 58 # btoa bs)"
    by (simp add: signature_text_def js_eval)
  moreover have "58 \<notin> set (js ''Sig'')" by (simp add: js_eval)
  ultimately have i: "index_of (js '': '') (signature_text name bs) = Some 3"
    and d: "take 3 (signature_text name bs) = js ''Sig''" "drop 5 (signature_text name bs) = name @ 58 # btoa bs"
    by (simp_all add: index_of_prefix)
  have "index_of [58] (rev (btoa bs) @ 58 # rev name) = Some (length (btoa bs))"
    by (rule index_of_single_first [of 58 "rev (btoa bs)" "rev name", simplified length_rev]) (use b in simp)
  then have l: "last_index_of 58 (name @ 58 # btoa bs) = Some (length name)"
    by (simp add: last_index_of_def)
  have "signature_of (signature_text name bs) (name @ 58 # btoa bs) = Inr (signature_value name bs)"
    using assms l canonical_btoa [OF assms(4)]
    by (simp add: signature_of_def index_of_single_first signature_value_def)
  then show ?thesis using i d by (simp add: narinfo_line_def)
qed

lemma split_lines: "\<forall>l \<in> set (l0 # ls). 10 \<notin> set l \<Longrightarrow>
  split_on 10 (butlast (concat (map (\<lambda>l. l @ [10]) (l0 # ls)))) = l0 # ls"
proof -
  assume a: "\<forall>l \<in> set (l0 # ls). 10 \<notin> set l"
  have "concat (map (\<lambda>l. l @ [10]) (l0 # ls)) = (l0 @ concat (map (\<lambda>l. 10 # l) ls)) @ [10]"
    by (induction ls arbitrary: l0) auto
  then have "butlast (concat (map (\<lambda>l. l @ [10]) (l0 # ls))) = l0 @ concat (map (\<lambda>l. 10 # l) ls)"
    by (simp only: butlast_snoc)
  then show ?thesis using a split_on_lines [of ls l0] split_on_plain [of 10 l0] by simp
qed

lemma join_with_set: "set (join_with [c] ws) \<subseteq> insert c (\<Union>w \<in> set ws. set w)"
proof (induction ws)
  case (Cons w ws)
  then show ?case by (cases ws) auto
qed simp

definition text_fields :: "jstr \<Rightarrow> jstr \<Rightarrow> nat \<Rightarrow> jstr list \<Rightarrow> (narinfo_field \<times> jstr) list" where
  "text_fields path nar n refs = [(NF_StorePath, path), (NF_URL, js ''nar/x''), (NF_Compression, js ''none''),
     (NF_FileHash, js ''sha256:f''), (NF_FileSize, js ''1''), (NF_NarHash, nar), (NF_NarSize, dec_digits n),
     (NF_References, join_with [32] refs)]"

lemma narinfo_text_fields:
  "narinfo_text path nar n refs sigs = concat (map (\<lambda>l. l @ [10])
     (map (\<lambda>(f, v). field_text f @ 58 # 32 # v) (text_fields path nar n refs) @ sigs))"
  by (simp add: narinfo_text_def text_fields_def js_eval)

lemma fold_field_lines:
  assumes "distinct (map fst sc @ map (field_text \<circ> fst) fs)"
    and "set (map fst fs) \<subseteq> set (required_fields @ optional_fields)"
  shows "fold_err narinfo_line (map (\<lambda>(f, v). field_text f @ 58 # 32 # v) fs) (sc, sg)
    = Inr (sc @ map (\<lambda>(f, v). (field_text f, v)) fs, sg)"
  using assms
proof (induction fs arbitrary: sc)
  case (Cons x fs)
  obtain f v where x: "x = (f, v)" by fastforce
  have new: "map_of sc (field_text f) = None"
    using Cons.prems(1) x by (auto simp: map_of_eq_None_iff)
  have "narinfo_line (field_text f @ 58 # 32 # v) (sc, sg) = Inr (AList.update (field_text f) v sc, sg)"
    using field_line [OF _ new] Cons.prems(2) x by simp
  moreover have "AList.update (field_text f) v sc = sc @ [(field_text f, v)]"
    using new by (simp add: update_new)
  ultimately show ?case using Cons.IH [of "sc @ [(field_text f, v)]"] Cons.prems x by simp
qed simp


lemma dec_digits_plain: "plain_value (dec_digits n)"
  using dec_digits_are_digits [of _ n] by (fastforce simp: plain_value_def is_digit_def)

lemma parse_lines:
  assumes "\<forall>l \<in> set (l0 # ls). plain_value l"
  shows "parse_narinfo (concat (map (\<lambda>l. l @ [10]) (l0 # ls))) =
    ebind (fold_err narinfo_line (l0 # ls) ([], [])) (narinfo_of (concat (map (\<lambda>l. l @ [10]) (l0 # ls))))"
proof -
  let ?t = "concat (map (\<lambda>l. l @ [10]) (l0 # ls))"
  have free: "c \<notin> set (concat (map (\<lambda>l. l @ [10]) ms))" if "\<forall>l \<in> set ms. c \<notin> set l" "c \<noteq> 10"
    for c and ms :: "jstr list"
    using that by (induction ms) auto
  have "13 \<notin> set ?t" "0 \<notin> set ?t" using assms by (intro free; simp add: plain_value_def)+
  moreover have "ends_with [10] ?t"
  proof -
    have "concat (map (\<lambda>l. l @ [10]) (m # ms)) = (m @ concat (map (\<lambda>l. 10 # l) ms)) @ [10]" for m and ms :: "jstr list"
      by (induction ms arbitrary: m) auto
    then show ?thesis using ends_with_append by metis
  qed
  moreover have "split_on 10 (butlast ?t) = l0 # ls"
    by (rule split_lines) (use assms in \<open>simp add: plain_value_def\<close>)
  ultimately show ?thesis unfolding parse_narinfo_def by simp
qed

lemma text_field_lines:
  assumes "plain_value path" "plain_value nar" "\<forall>r \<in> set refs. plain_value r"
  shows "\<forall>(f, v) \<in> set (text_fields path nar n refs). plain_value (field_text f @ 58 # 32 # v)"
proof -
  have join: "plain_value (join_with [32] refs)"
    using assms(3) join_with_set [of 32 refs] by (fastforce simp: plain_value_def)
  have "plain_value (field_text f)" for f by (cases f) (simp_all add: plain_value_def js_eval)
  then have c: "plain_value v \<Longrightarrow> plain_value (field_text f @ 58 # 32 # v)" for f v
    by (simp add: plain_value_def)
  have "plain_value (js ''nar/x'')" "plain_value (js ''none'')" "plain_value (js ''sha256:f'')" "plain_value (js ''1'')"
    by (simp_all add: plain_value_def js_eval)
  then show ?thesis using c assms(1,2) join dec_digits_plain by (simp add: text_fields_def del: field_text.simps)
qed

lemma parse_narinfo_text:
  assumes "store_path path" "plain_value path" "hash_text nar" "plain_value nar" "int n \<le> max_safe"
    and "list_all store_name refs" "\<forall>r \<in> set refs. plain_value r"
    and "\<forall>s \<in> set added. plain_value (ns_raw s) \<and> signature_line lines s"
  shows "parse_narinfo (narinfo_text path nar n refs (map ns_raw added)) =
    Inr \<lparr>ni_store_path = path, ni_url = js ''nar/x'', ni_compression = js ''none'',
      ni_file_hash = js ''sha256:f'', ni_file_size = 1, ni_nar_hash = nar, ni_nar_size = int n,
      ni_references = refs, ni_deriver = None, ni_system = None, ni_ca = None, ni_signatures = added,
      ni_fingerprint = fingerprint_of path nar (int n) refs,
      ni_raw = narinfo_text path nar n refs (map ns_raw added)\<rparr>"
    (is "?lhs = Inr ?rhs")
proof -
  let ?fs = "text_fields path nar n refs" and ?line = "\<lambda>(f, v). field_text f @ 58 # 32 # v"
  let ?t = "narinfo_text path nar n refs (map ns_raw added)"
  let ?l0 = "?line (NF_StorePath, path)" and ?ls = "map ?line (tl ?fs) @ map ns_raw added"
  have fs: "map ?line ?fs @ map ns_raw added = ?l0 # ?ls" by (simp add: text_fields_def)
  have t: "?t = concat (map (\<lambda>l. l @ [10]) (?l0 # ?ls))" unfolding fs [symmetric] by (rule narinfo_text_fields)
  have "\<forall>l \<in> set (map ?line ?fs @ map ns_raw added). plain_value l"
    using text_field_lines [OF assms(2,4,7), of n] assms(8) by fastforce
  then have "?lhs = ebind (fold_err narinfo_line (map ?line ?fs @ map ns_raw added) ([], [])) (narinfo_of ?t)"
    unfolding t fs by (rule parse_lines)
  also have "fold_err narinfo_line (map ?line ?fs @ map ns_raw added) ([], [])
      = Inr (map (\<lambda>(f, v). (field_text f, v)) ?fs, added)"
  proof -
    have "distinct (map (field_text \<circ> fst) ?fs)" by (simp add: text_fields_def js_eval)
    moreover have "set (map fst ?fs) \<subseteq> set (required_fields @ optional_fields)"
      by (simp add: text_fields_def required_fields_def)
    ultimately have "fold_err narinfo_line (map ?line ?fs) ([], []) = Inr (map (\<lambda>(f, v). (field_text f, v)) ?fs, [])"
      using fold_field_lines [of "[]" ?fs "[]"] by simp
    moreover have "\<forall>s \<in> set added. \<exists>lines. signature_line lines s" using assms(8) by blast
    ultimately show ?thesis unfolding fold_err_split using fold_added_signatures by simp
  qed
  also have "ebind (Inr (map (\<lambda>(f, v). (field_text f, v)) ?fs, added)) (narinfo_of ?t) = Inr ?rhs"
  proof -
    have refs: "r \<noteq> [] \<and> 32 \<notin> set r" if "r \<in> set refs" for r
    proof -
      have "32 < length r" using assms(6) that by (auto simp: list_all_iff store_name_def)
      then have "r = take 32 r @ r ! 32 # drop 33 r" using id_take_nth_drop [of 32 r] by simp
      from arg_cong [OF this, of set]
      have "set r = set (take 32 r) \<union> insert (r ! 32) (set (drop 33 r))" by (simp only: set_append list.simps)
      moreover have "\<forall>u \<in> set (take 32 r). is_base32 u" "r ! 32 = 45" "\<forall>u \<in> set (drop 33 r). \<not> is_space u"
        using assms(6) that by (auto simp: list_all_iff store_name_def)
      then have "32 \<notin> set (take 32 r)" "r ! 32 \<noteq> 32" "32 \<notin> set (drop 33 r)"
        by (auto simp: is_base32_def char_classes)
      ultimately show ?thesis using \<open>32 < length r\<close> by auto
    qed
    have r: "filter (\<lambda>s. s \<noteq> []) (split_on 32 (join_with [32] refs)) = refs"
      using split_join [of refs 32] refs by (cases "refs = []") (simp_all add: filter_id_conv)
    have d: "unsigned_integer (dec_digits n) = Inr (int n)"
      using assms(5) dec_digits_are_digits by (auto simp: unsigned_integer_def list_all_iff safe_int_def max_safe_def)
    have v: "nar_url (js ''nar/x'')" "hash_text (js ''sha256:f'')" "unsigned_integer (js ''1'') = Inr 1"
      "js ''none'' \<noteq> []" "\<not> list_ex is_space (js ''none'')"
      by (simp_all add: nar_url_def hash_text_def unsigned_integer_def starts_with_def js_eval
          is_base32_def char_classes dec_value_def safe_int_def max_safe_def)
    show ?thesis unfolding narinfo_of_def Let_def ebind_simps
      using v d r assms(1,3,6) by (simp add: text_fields_def required_fields_def)
  qed
  finally show ?thesis .
qed

text \<open>Texts of a path with one reference and a signature of 64 equal bytes.\<close>

definition sample_store_name :: "nat \<Rightarrow> string \<Rightarrow> jstr" where
  "sample_store_name u rest = replicate 32 u @ 45 # js rest"

definition sample_narinfo_path :: "string \<Rightarrow> jstr" where
  "sample_narinfo_path rest = js ''/nix/store/'' @ sample_store_name 97 rest"

lemma sample_store_names:
  assumes "is_base32 u" "rest \<noteq> []" "list_all (\<lambda>v. v \<noteq> 47 \<and> \<not> is_space v \<and> 32 \<le> v) (js rest)"
  shows "store_name (sample_store_name u rest) \<and> plain_value (sample_store_name u rest)"
proof -
  have "replicate 32 u @ 45 # js rest = (replicate 32 u @ [45]) @ js rest" by simp
  then have "drop 33 (replicate 32 u @ 45 # js rest) = js rest" by simp
  moreover have "list_all is_base32 (replicate 32 u)" using assms(1) by (simp add: list_all_iff)
  moreover have "length (js rest) > 0" using assms(2) by simp
  ultimately have "store_name (sample_store_name u rest)" using assms(3)
    by (simp add: sample_store_name_def store_name_def nth_append list_all_iff)
  moreover have "u \<noteq> 10 \<and> u \<noteq> 13 \<and> u \<noteq> 0" using assms(1) by (auto simp: is_base32_def char_classes)
  then have "plain_value (sample_store_name u rest)"
    using assms(3) by (auto simp: sample_store_name_def plain_value_def list_all_iff)
  ultimately show ?thesis by blast
qed

lemma sample_narinfo_paths:
  assumes "rest \<noteq> []" "list_all (\<lambda>v. v \<noteq> 47 \<and> \<not> is_space v \<and> 32 \<le> v) (js rest)"
  shows "store_path (sample_narinfo_path rest) \<and> plain_value (sample_narinfo_path rest)"
proof -
  have "store_name (sample_store_name 97 rest) \<and> plain_value (sample_store_name 97 rest)"
    using assms by (intro sample_store_names) (simp_all add: is_base32_def char_classes)
  moreover have "drop 11 (js ''/nix/store/'' @ s) = s" for s by simp
  moreover have "plain_value (js ''/nix/store/'')" by (simp add: plain_value_def js_eval)
  ultimately show ?thesis by (simp add: store_path_def sample_narinfo_path_def plain_value_def)
qed


definition sample_signature :: narinfo_signature where
  "sample_signature = signature_value (js ''k'') (replicate 64 7)"

lemma btoa_plain: "plain_value (btoa bs)"
proof -
  have "u \<in> set (btoa bs) \<Longrightarrow> 32 < u" for u using btoa_chars [of u bs] by (auto simp: is_b64_def char_classes)
  then show ?thesis by (fastforce simp: plain_value_def)
qed

lemma signature_value_line:
  assumes "name \<noteq> []" "58 \<notin> set name" "\<not> list_ex (\<lambda>u. is_space u \<or> u < 32 \<or> u = 127) name" "length bs = 64"
  shows "plain_value (ns_raw (signature_value name bs))
    \<and> signature_line [ns_raw (signature_value name bs)] (signature_value name bs)"
proof -
  have "plain_value name" using assms(3) by (auto simp: plain_value_def list_ex_iff)
  moreover have "plain_value (js ''Sig: '')" by (simp add: plain_value_def js_eval)
  ultimately have "plain_value (signature_text name bs)"
    using btoa_plain [of bs] by (simp add: signature_text_def plain_value_def)
  moreover have "signature_line [signature_text name bs] (signature_value name bs)"
    using signature_text_line [OF assms] by (simp add: signature_line_def signature_value_def)
  ultimately show ?thesis by (simp add: signature_value_def)
qed

lemma sample_signature_line:
  "plain_value (ns_raw sample_signature) \<and> signature_line [ns_raw sample_signature] sample_signature"
  unfolding sample_signature_def by (rule signature_value_line) (simp_all add: js_simps char_classes)

text \<open>The text of path \<open>a\<close>, with what it parses to.\<close>

definition sample_text :: "narinfo_signature list \<Rightarrow> jstr" where
  "sample_text added = narinfo_text (sample_narinfo_path ''a'') (js ''sha256:y'') 5 [] (map ns_raw added)"

lemma sample_hash_text: "hash_text (js ''sha256:x'') \<and> plain_value (js ''sha256:x'')"
  "hash_text (js ''sha256:y'') \<and> plain_value (js ''sha256:y'')"
  by (simp_all add: hash_text_def plain_value_def starts_with_def js_eval is_base32_def char_classes)

lemma sample_parses:
  assumes "set added \<subseteq> {sample_signature}"
  shows "\<exists>n. parse_narinfo (sample_text added) = Inr n \<and> ni_signatures n = added \<and> ni_raw n = sample_text added
    \<and> ni_store_path n = sample_narinfo_path ''a'' \<and> ni_references n = []
    \<and> ni_fingerprint n = fingerprint_of (sample_narinfo_path ''a'') (js ''sha256:y'') 5 []"
proof -
  have "store_path (sample_narinfo_path ''a'') \<and> plain_value (sample_narinfo_path ''a'')"
    by (rule sample_narinfo_paths) (simp_all add: js_eval char_classes)
  moreover have "\<forall>s \<in> set added. plain_value (ns_raw s) \<and> signature_line [ns_raw sample_signature] s"
    using assms sample_signature_line by auto
  ultimately show ?thesis
    using parse_narinfo_text [of "sample_narinfo_path ''a''" "js ''sha256:y''" 5 "[]" added "[ns_raw sample_signature]"]
      sample_hash_text
    by (simp add: sample_text_def max_safe_def)
qed

lemma appended_signatures_parse_witness:
  "\<exists>n. parse_narinfo (sample_text []) = Inr n
    \<and> parse_narinfo (append_signatures n [ns_raw sample_signature]) =
        Inr (n\<lparr>ni_signatures := [sample_signature], ni_raw := append_signatures n [ns_raw sample_signature]\<rparr>)"
proof -
  obtain n where n: "parse_narinfo (sample_text []) = Inr n" "ni_signatures n = []"
    using sample_parses [of "[]"] by auto
  have "\<exists>u m. parse_narinfo u = Inr m \<and> sample_signature \<in> set (ni_signatures m)"
    using sample_parses [of "[sample_signature]"] by fastforce
  then show ?thesis using appended_signatures_parse [OF n(1), of "[sample_signature]"] n by auto
qed

lemma sample_path_plain: "59 \<notin> set (sample_narinfo_path ''a'')"
  by (simp add: sample_narinfo_path_def sample_store_name_def js_simps)

lemma fingerprint_determines_witness:
  "\<exists>a b. parse_narinfo (sample_text []) = Inr a \<and> parse_narinfo (sample_text [sample_signature]) = Inr b
    \<and> ni_store_path a = ni_store_path b \<and> ni_nar_hash a = ni_nar_hash b"
proof -
  obtain a where a: "parse_narinfo (sample_text []) = Inr a" "ni_store_path a = sample_narinfo_path ''a''"
    "ni_references a = []" "ni_fingerprint a = fingerprint_of (sample_narinfo_path ''a'') (js ''sha256:y'') 5 []"
    using sample_parses [of "[]"] by auto
  obtain b where b: "parse_narinfo (sample_text [sample_signature]) = Inr b"
    "ni_store_path b = sample_narinfo_path ''a''" "ni_references b = []"
    "ni_fingerprint b = fingerprint_of (sample_narinfo_path ''a'') (js ''sha256:y'') 5 []"
    using sample_parses [of "[sample_signature]"] by auto
  from fingerprint_determines [OF a(1) b(1)] show ?thesis
    using a b sample_path_plain by auto
qed

lemma endorsements_exact_witness:
  "\<exists>n es. parse_narinfo (sample_text [sample_signature]) = Inr n
    \<and> classify_endorsements (\<lambda>s m k. k = replicate 32 2) n [replicate 32 1, replicate 32 2] = Inr es
    \<and> length es = 1 \<and> en_signature (es ! 0) = 0 \<and> en_endorsed (es ! 0)"
proof -
  obtain n where n: "parse_narinfo (sample_text [sample_signature]) = Inr n" "ni_signatures n = [sample_signature]"
    using sample_parses [of "[sample_signature]"] by auto
  have "replicate 32 1 \<noteq> (replicate 32 2 :: bytes)" by simp
  then have c: "classify_endorsements (\<lambda>s m k. k = replicate 32 2) n [replicate 32 1, replicate 32 2]
      = Inr [\<lparr>en_signature = 0, en_endorsed = True, en_key = Some 1\<rparr>]"
    using n(2) by (simp add: classify_endorsements_def)
  from endorsements_exact [OF c] n show ?thesis using c by auto
qed

subsection \<open>Two narinfos with one fingerprint\<close>

text \<open>
  The form of a name does not exclude the semicolon, so the text that is signed can be read in
  two ways: a signature for a path with a suitable reference endorses another path.
\<close>

lemma fingerprint_ambiguous:
  "\<exists>t u a b. parse_narinfo t = Inr a \<and> parse_narinfo u = Inr b
    \<and> ni_fingerprint a = ni_fingerprint b \<and> ni_store_path a \<noteq> ni_store_path b
    \<and> ni_nar_hash a \<noteq> ni_nar_hash b"
proof -
  let ?r = "sample_store_name 98 ''q;sha256:x;7;''" and ?p = "sample_narinfo_path ''a''"
  let ?p' = "?p @ js '';sha256:y;5;'' @ sample_store_name 98 ''q''"
  have p: "store_path ?p \<and> plain_value ?p"
    by (rule sample_narinfo_paths) (simp_all add: js_eval char_classes)
  have r: "store_name ?r \<and> plain_value ?r" "store_name (sample_store_name 98 ''q'') \<and> plain_value (sample_store_name 98 ''q'')"
    by (rule sample_store_names; simp add: js_eval is_base32_def char_classes)+
  have path: "?p' = sample_narinfo_path (''a;sha256:y;5;'' @ replicate 32 (CHR ''b'') @ ''-q'')"
    by (simp add: sample_narinfo_path_def sample_store_name_def js_def)
  have "list_all (\<lambda>v. v \<noteq> 47 \<and> \<not> is_space v \<and> 32 \<le> v) (js (''a;sha256:y;5;'' @ replicate 32 (CHR ''b'') @ ''-q''))"
    unfolding js_append js_def map_replicate by (simp add: char_classes list_all_iff)
  then have p': "store_path ?p' \<and> plain_value ?p'" unfolding path by (rule sample_narinfo_paths [rotated]) simp
  obtain a where a: "parse_narinfo (narinfo_text ?p (js ''sha256:y'') 5 [?r] []) = Inr a"
    "ni_store_path a = ?p" "ni_nar_hash a = js ''sha256:y''" "ni_fingerprint a = fingerprint_of ?p (js ''sha256:y'') 5 [?r]"
    using parse_narinfo_text [of ?p "js ''sha256:y''" 5 "[?r]" "[]" "[]"] p r sample_hash_text
    by (simp add: max_safe_def)
  obtain b where b: "parse_narinfo (narinfo_text ?p' (js ''sha256:x'') 7 [] []) = Inr b"
    "ni_store_path b = ?p'" "ni_nar_hash b = js ''sha256:x''" "ni_fingerprint b = fingerprint_of ?p' (js ''sha256:x'') 7 []"
    using parse_narinfo_text [of ?p' "js ''sha256:x''" 7 "[]" "[]" "[]"] p' sample_hash_text
    by (simp add: max_safe_def)
  have "fingerprint_of ?p (js ''sha256:y'') 5 [?r] = fingerprint_of ?p' (js ''sha256:x'') 7 []"
    by (simp add: fingerprint_of_def sample_store_name_def dec_digits.simps js_simps)
  moreover have "?p \<noteq> ?p'" by (simp add: js_simps)
  moreover have "js ''sha256:y'' \<noteq> js ''sha256:x''" by simp
  ultimately show ?thesis using a b by metis
qed

end
