(* ===== verification/Selection.thy ===== *)
theory Selection
  imports State_Repository
begin

section \<open>The selected publications (nostr/selection.ts)\<close>

text \<open>
  \<^verbatim>\<open>src/nostr/selection.ts\<close> and \<^verbatim>\<open>src/nostr/blossom_servers.ts\<close>: events are validated,
  authorised and offered to the state repository before they reach the event store, and the
  selection is computed from the events of the store alone: one publication per configured
  identity, in the configured order. The event store (applesauce) and the collation of
  \<open>localeCompare\<close> are fields of the record \<open>sel_env\<close>; callbacks are logs of the state.
\<close>

record selected_publication = validated_publication +
  sp_bud03 :: "jstr list"

record 's sel_env =
  sl_pub :: pub_env
  sl_add :: "raw_publication \<Rightarrow> 's \<Rightarrow> 's"
  sl_timeline :: "int list \<Rightarrow> 's \<Rightarrow> raw_publication list"
  sl_compare :: "jstr \<Rightarrow> jstr \<Rightarrow> int"

subsection \<open>Sorting with a comparator\<close>

text \<open>\<open>Array.prototype.sort\<close> is stable.\<close>

fun insert_cmp :: "('a \<Rightarrow> 'a \<Rightarrow> int) \<Rightarrow> 'a \<Rightarrow> 'a list \<Rightarrow> 'a list" where
  "insert_cmp c x [] = [x]"
| "insert_cmp c x (y # ys) = (if c x y \<le> 0 then x # y # ys else y # insert_cmp c x ys)"

definition sort_cmp :: "('a \<Rightarrow> 'a \<Rightarrow> int) \<Rightarrow> 'a list \<Rightarrow> 'a list" where
  "sort_cmp c xs = foldr (insert_cmp c) xs []"

subsection \<open>Server lists\<close>

definition plain_url :: "url_parts \<Rightarrow> bool" where
  "plain_url u \<longleftrightarrow> (u_protocol u = js ''http:'' \<or> u_protocol u = js ''https:'')
     \<and> u_username u = [] \<and> u_password u = [] \<and> u_search u = [] \<and> u_hash u = []"

definition event_tags :: "raw_publication \<Rightarrow> jstr list list" where
  "event_tags e = (case string_tags (rp_tags e) of None \<Rightarrow> [] | Some ts \<Rightarrow> ts)"

definition project_servers ::
  "(jstr \<Rightarrow> url_parts option) \<Rightarrow> raw_publication \<Rightarrow> jstr list \<Rightarrow> jstr list" where
  "project_servers parse e publishers =
     (if rp_kind e \<noteq> V_Int 10063 \<or> rp_pubkey e \<notin> set publishers then []
      else List.map_filter (\<lambda>t.
        if length t \<noteq> 2 \<or> \<not> tag_is ''server'' t then None
        else (case parse (t ! 1) of None \<Rightarrow> None
              | Some u \<Rightarrow> if plain_url u then Some (t ! 1) else None)) (event_tags e))"

subsection \<open>The model of the selection\<close>

text \<open>The comparators: the newest event first, then by id.\<close>

definition compare_events :: "'s sel_env \<Rightarrow> raw_publication \<Rightarrow> raw_publication \<Rightarrow> int" where
  "compare_events env a b =
     (if event_created b - event_created a \<noteq> 0 then event_created b - event_created a
      else sl_compare env (rp_id a) (rp_id b))"

definition authorised :: "jstr list \<Rightarrow> jstr list \<Rightarrow> validated_publication \<Rightarrow> bool" where
  "authorised publishers identities p \<longleftrightarrow>
     rp_pubkey (vp_event p) \<in> set publishers \<and> cache_identity (vp_identity p) \<in> set identities"

text \<open>The clock is read once for each event; \<open>clock i\<close> is the reading for the \<open>i\<close>th.\<close>

definition valid_publications ::
  "'s sel_env \<Rightarrow> (nat \<Rightarrow> int) \<Rightarrow> jstr list \<Rightarrow> jstr list \<Rightarrow> raw_publication list \<Rightarrow> validated_publication list"
where
  "valid_publications env clock publishers identities events =
     filter (authorised publishers identities)
       (List.map_filter (\<lambda>(i, e).
          case validate_publication (sl_pub env) e (clock i) of Inl x \<Rightarrow> None | Inr v \<Rightarrow> Some v)
         (enumerate 0 events))"

definition with_servers :: "validated_publication \<Rightarrow> jstr list \<Rightarrow> selected_publication" where
  "with_servers p servers = \<lparr>vp_event = vp_event p, vp_identity = vp_identity p, vp_root = vp_root p,
     vp_keys = vp_keys p, vp_servers = vp_servers p, vp_expires = vp_expires p, sp_bud03 = servers\<rparr>"

definition select_identity ::
  "'s sel_env \<Rightarrow> jstr list \<Rightarrow> validated_publication list \<Rightarrow> raw_publication list \<Rightarrow> jstr
    \<Rightarrow> selected_publication option"
where
  "select_identity env publishers publications server_events identity =
     (case sort_cmp (\<lambda>a b. compare_events env (vp_event a) (vp_event b))
             (filter (\<lambda>p. cache_identity (vp_identity p) = identity) publications) of
        [] \<Rightarrow> None
      | p # _ \<Rightarrow>
          (let lists = sort_cmp (compare_events env)
                 (filter (\<lambda>e. rp_pubkey e = rp_pubkey (vp_event p)) server_events) in
           Some (with_servers p (case lists of [] \<Rightarrow> []
             | e # _ \<Rightarrow> project_servers (pe_url (sl_pub env)) e publishers))))"

definition selection_model ::
  "'s sel_env \<Rightarrow> (nat \<Rightarrow> int) \<Rightarrow> jstr list \<Rightarrow> jstr list \<Rightarrow> jstr list \<Rightarrow> 's \<Rightarrow> selected_publication list"
where
  "selection_model env clock publishers identities order store =
     List.map_filter (select_identity env publishers
         (valid_publications env clock publishers identities (sl_timeline env [17091, 37091] store))
         (sl_timeline env [10063] store)) order"

text \<open>\<open>distinctUntilChanged\<close>: event ids and server lists.\<close>

definition same_selection :: "selected_publication list \<Rightarrow> selected_publication list \<Rightarrow> bool" where
  "same_selection a b \<longleftrightarrow>
     map (\<lambda>p. (rp_id (vp_event p), sp_bud03 p)) a = map (\<lambda>p. (rp_id (vp_event p), sp_bud03 p)) b"

text \<open>The delay until the next publication expires, below the ceiling of a timer.\<close>

definition nearest_expiry :: "selected_publication list \<Rightarrow> int option" where
  "nearest_expiry ps =
     foldl (\<lambda>near p. case vp_expires p of None \<Rightarrow> near
       | Some at \<Rightarrow> (case near of None \<Rightarrow> Some at | Some m \<Rightarrow> Some (min m at))) None ps"

definition expiry_delay :: "int \<Rightarrow> selected_publication list \<Rightarrow> int option" where
  "expiry_delay now ps =
     map_option (\<lambda>at. min 2147483647 (max 0 (at - now) * 1000)) (nearest_expiry ps)"

subsection \<open>The selector\<close>

datatype sel_rejection =
    SR_servers | SR_invalid rejection_code | SR_publisher | SR_identity | SR_stale | SR_consent

record 's sel_state =
  sl_store :: 's
  sl_repository :: state_db
  sl_publishers :: "jstr list"
  sl_blossom_publishers :: "jstr list"
  sl_identities :: "jstr list"
  sl_order :: "jstr list"
  sl_blossom :: "(jstr, raw_publication) jmap"
  sl_current :: "selected_publication list option"  \<comment> \<open>what was last emitted\<close>
  sl_timer :: "int option"
  sl_rejected :: "(raw_publication \<times> sel_rejection) list"
  sl_admitted :: "raw_publication list"
  sl_errors :: "state_error list"

text \<open>A turn of the model: what is emitted when it differs, and the timer that is then set.\<close>

definition refresh_selection ::
  "'s sel_env \<Rightarrow> int \<Rightarrow> (nat \<Rightarrow> int) \<Rightarrow> 's sel_state \<Rightarrow> 's sel_state" where
  "refresh_selection env now clock st =
     (let ps = selection_model env clock (sl_publishers st) (sl_identities st) (sl_order st) (sl_store st) in
      if (case sl_current st of None \<Rightarrow> False | Some old \<Rightarrow> same_selection old ps) then st
      else st\<lparr>sl_current := Some ps, sl_timer := expiry_delay now ps\<rparr>)"

definition reject_event :: "raw_publication \<Rightarrow> sel_rejection \<Rightarrow> 's sel_state \<Rightarrow> 's sel_state" where
  "reject_event e r st = st\<lparr>sl_rejected := sl_rejected st @ [(e, r)]\<rparr>"

text \<open>A server list: replaced by a newer one, or by one of the same time with a smaller id.\<close>

definition accept_servers :: "'s sel_env \<Rightarrow> raw_publication \<Rightarrow> 's sel_state \<Rightarrow> 's sel_state" where
  "accept_servers env e st =
     (if rp_pubkey e \<notin> set (sl_blossom_publishers st) \<or> pe_verify (sl_pub env) e \<noteq> Some True
      then reject_event e SR_servers st
      else if (case map_of (sl_blossom st) (rp_pubkey e) of None \<Rightarrow> False
        | Some old \<Rightarrow> event_created old > event_created e
            \<or> (event_created old = event_created e \<and> rp_id old \<le> rp_id e)) then st
      else st\<lparr>sl_blossom := AList.update (rp_pubkey e) e (sl_blossom st),
              sl_store := sl_add env e (sl_store st)\<rparr>)"

definition accept_event ::
  "'s sel_env \<Rightarrow> bool \<Rightarrow> int \<Rightarrow> raw_publication \<Rightarrow> 's sel_state \<Rightarrow> 's sel_state" where
  "accept_event env commit_ok now e st =
     (if rp_kind e = V_Int 10063 then accept_servers env e st
      else (case validate_publication (sl_pub env) e now of
          Inl r \<Rightarrow> reject_event e (SR_invalid (code_of r)) st
        | Inr p \<Rightarrow>
            if rp_pubkey (vp_event p) \<notin> set (sl_publishers st) then reject_event e SR_publisher st
            else if cache_identity (vp_identity p) \<notin> set (sl_identities st)
            then reject_event e SR_identity st
            else (case accept_publication commit_ok p (sl_repository st) of
                (Inl x, db) \<Rightarrow> st\<lparr>sl_repository := db, sl_errors := sl_errors st @ [x]\<rparr>
              | (Inr AC_stale, db) \<Rightarrow> reject_event e SR_stale (st\<lparr>sl_repository := db\<rparr>)
              | (Inr AC_consent_required, db) \<Rightarrow> reject_event e SR_consent (st\<lparr>sl_repository := db\<rparr>)
              | (Inr (AC_accepted sel), db) \<Rightarrow>
                  st\<lparr>sl_repository := db, sl_store := sl_add env (vp_event p) (sl_store st),
                     sl_admitted := sl_admitted st @ [vp_event p]\<rparr>)))"

text \<open>What was stored is validated and authorised again when the selector starts.\<close>

definition load_stored :: "'s sel_env \<Rightarrow> int \<Rightarrow> 's sel_state \<Rightarrow> 's sel_state" where
  "load_stored env now st =
     (case load_selections (sl_repository st) of ((stored, bad), db) \<Rightarrow>
        fold (\<lambda>s t. case validate_publication (sl_pub env) (ss_event s) now of
            Inl r \<Rightarrow> t
          | Inr p \<Rightarrow> if authorised (sl_publishers t) (sl_identities t) p
                     then t\<lparr>sl_store := sl_add env (vp_event p) (sl_store t)\<rparr> else t)
          stored (st\<lparr>sl_repository := db, sl_errors := sl_errors st @ map snd bad\<rparr>))"

definition add_once :: "'a \<Rightarrow> 'a list \<Rightarrow> 'a list" where
  "add_once x xs = (if x \<in> set xs then xs else xs @ [x])"

definition authorize_publisher :: "jstr \<Rightarrow> jstr \<Rightarrow> 's sel_state \<Rightarrow> 's sel_state" where
  "authorize_publisher pubkey identity st =
     st\<lparr>sl_publishers := add_once pubkey (sl_publishers st),
        sl_identities := add_once identity (sl_identities st),
        sl_order := identity # remove1 identity (sl_order st)\<rparr>"

definition authorize_blossom :: "jstr \<Rightarrow> 's sel_state \<Rightarrow> 's sel_state" where
  "authorize_blossom pubkey st =
     st\<lparr>sl_blossom_publishers := add_once pubkey (sl_blossom_publishers st)\<rparr>"

definition blossom_servers_for :: "'s sel_env \<Rightarrow> jstr \<Rightarrow> 's sel_state \<Rightarrow> jstr list" where
  "blossom_servers_for env pubkey st =
     (if pubkey \<notin> set (sl_blossom_publishers st) then []
      else (case map_of (sl_blossom st) pubkey of None \<Rightarrow> []
        | Some e \<Rightarrow> project_servers (pe_url (sl_pub env)) e (sl_blossom_publishers st)))"


subsection \<open>The first of a sorted list\<close>

definition total_compare :: "('a \<Rightarrow> 'a \<Rightarrow> int) \<Rightarrow> bool" where
  "total_compare c \<longleftrightarrow> (\<forall>a b. c a b \<le> 0 \<or> c b a \<le> 0) \<and> (\<forall>a b d. c a b \<le> 0 \<longrightarrow> c b d \<le> 0 \<longrightarrow> c a d \<le> 0)"

lemma set_insert_cmp [simp]: "set (insert_cmp c x ys) = insert x (set ys)"
  by (induction ys) auto

lemma set_sort_cmp [simp]: "set (sort_cmp c xs) = set xs"
  by (induction xs) (simp_all add: sort_cmp_def)

lemma insert_cmp_sorted:
  "total_compare c \<Longrightarrow> sorted_wrt (\<lambda>a b. c a b \<le> 0) ys \<Longrightarrow> sorted_wrt (\<lambda>a b. c a b \<le> 0) (insert_cmp c x ys)"
proof (induction ys)
  case (Cons y ys)
  show ?case
  proof (cases "c x y \<le> 0")
    case True
    with Cons.prems show ?thesis unfolding total_compare_def by (auto; blast)
  next
    case False
    then have "c y x \<le> 0" using Cons.prems(1) unfolding total_compare_def by blast
    with Cons False show ?thesis by simp
  qed
qed simp

lemma sort_cmp_sorted: "total_compare c \<Longrightarrow> sorted_wrt (\<lambda>a b. c a b \<le> 0) (sort_cmp c xs)"
  by (induction xs) (simp_all add: sort_cmp_def insert_cmp_sorted)

lemma sort_cmp_first:
  assumes "total_compare c" "sort_cmp c xs = y # ys"
  shows "y \<in> set xs \<and> (\<forall>x \<in> set xs. c y x \<le> 0)"
proof -
  have r: "c a a \<le> 0" for a using assms(1) unfolding total_compare_def by blast
  have "set xs = insert y (set ys)" using assms(2) set_sort_cmp [of c xs] by simp
  moreover have "sorted_wrt (\<lambda>a b. c a b \<le> 0) (y # ys)" using sort_cmp_sorted [OF assms(1), of xs] assms(2) by simp
  ultimately show ?thesis using r by auto
qed

lemma compare_events_total:
  assumes "total_compare (sl_compare env)"
  shows "total_compare (compare_events env)" "total_compare (\<lambda>a b. compare_events env (f a) (f b))"
  using assms unfolding total_compare_def compare_events_def by (auto split: if_splits)

lemma valid_publications_iff:
  "v \<in> set (valid_publications env clock publishers identities events) \<longleftrightarrow>
     authorised publishers identities v
     \<and> (\<exists>k < length events. validate_publication (sl_pub env) (events ! k) (clock k) = Inr v)"
proof -
  have c: "(case x of Inl r \<Rightarrow> None | Inr w \<Rightarrow> Some w) = Some v \<longleftrightarrow> x = Inr v"
    for x :: "rejection + validated_publication" and v
    by (cases x) simp_all
  have e: "set (enumerate 0 events) = (\<lambda>k. (k, events ! k)) ` {k. k < length events}"
    by (auto simp: in_set_enumerate_eq)
  show ?thesis
    unfolding valid_publications_def set_filter set_map_filter split_def e by (simp add: c) blast
qed

lemma truncate_with_servers [simp]: "validated_publication.truncate (with_servers p ss) = p"
  by (simp add: with_servers_def validated_publication.defs)

lemma select_identity_Some:
  assumes "total_compare (sl_compare env)" "select_identity env publishers vs ss i = Some p"
  shows "validated_publication.truncate p \<in> set vs \<and> cache_identity (vp_identity p) = i
    \<and> (\<forall>q \<in> set vs. cache_identity (vp_identity q) = i \<longrightarrow> compare_events env (vp_event p) (vp_event q) \<le> 0)"
proof -
  let ?c = "\<lambda>a b. compare_events env (vp_event a) (vp_event b)"
  obtain q qs where q: "sort_cmp ?c (filter (\<lambda>p. cache_identity (vp_identity p) = i) vs) = q # qs"
    using assms(2) by (auto simp: select_identity_def split: list.splits)
  then have p: "validated_publication.truncate p = q" "vp_identity p = vp_identity q" "vp_event p = vp_event q"
    using assms(2) by (auto simp: select_identity_def Let_def with_servers_def validated_publication.defs)
  from sort_cmp_first [OF compare_events_total(2) [OF assms(1)] q] show ?thesis
    unfolding p by auto
qed

lemma select_identity_None:
  "select_identity env publishers vs ss i = None \<longleftrightarrow> (\<forall>q \<in> set vs. cache_identity (vp_identity q) \<noteq> i)"
proof -
  let ?c = "\<lambda>a b. compare_events env (vp_event a) (vp_event b)"
  let ?f = "filter (\<lambda>p. cache_identity (vp_identity p) = i) vs"
  have "select_identity env publishers vs ss i = None \<longleftrightarrow> sort_cmp ?c ?f = []"
    by (auto simp: select_identity_def Let_def split: list.splits)
  also have "\<dots> \<longleftrightarrow> ?f = []" by (metis set_empty set_sort_cmp)
  finally show ?thesis by (simp add: filter_empty_conv)
qed

lemma map_filter_identities:
  assumes "\<And>i p. f i = Some p \<Longrightarrow> g p = i"
  shows "map g (List.map_filter f is) = filter (\<lambda>i. f i \<noteq> None) is"
  using assms by (induction "is") (auto split: option.splits)

text \<open>
  C16: The selection is exactly the newest authorised publication of each configured identity:
  the identities of the selection are the configured ones that have a valid publication in
  the store, in the configured order, and each publication selected passed every check, comes
  from an authorised publisher, and no other valid publication of its identity is newer.
\<close>

theorem selection_newest:
  assumes "total_compare (sl_compare env)"
  shows "map (\<lambda>p. cache_identity (vp_identity p))
        (selection_model env clock publishers identities order store) =
      filter (\<lambda>i. \<exists>k < length (sl_timeline env [17091, 37091] store). \<exists>v.
          validate_publication (sl_pub env) (sl_timeline env [17091, 37091] store ! k) (clock k) = Inr v
          \<and> authorised publishers identities v \<and> cache_identity (vp_identity v) = i) order
    \<and> (\<forall>p \<in> set (selection_model env clock publishers identities order store).
        authorised publishers identities (validated_publication.truncate p)
        \<and> (\<exists>k < length (sl_timeline env [17091, 37091] store).
             validate_publication (sl_pub env) (sl_timeline env [17091, 37091] store ! k) (clock k)
               = Inr (validated_publication.truncate p))
        \<and> (\<forall>k < length (sl_timeline env [17091, 37091] store). \<forall>v.
             validate_publication (sl_pub env) (sl_timeline env [17091, 37091] store ! k) (clock k) = Inr v
             \<and> authorised publishers identities v
             \<and> cache_identity (vp_identity v) = cache_identity (vp_identity p)
             \<longrightarrow> event_created (vp_event v) \<le> event_created (vp_event p)))"
proof -
  let ?events = "sl_timeline env [17091, 37091] store" and ?servers = "sl_timeline env [10063] store"
  let ?vs = "valid_publications env clock publishers identities ?events"
  let ?f = "select_identity env publishers ?vs ?servers"
  let ?r = "selection_model env clock publishers identities order store"
  have r: "?r = List.map_filter ?f order" by (simp add: selection_model_def)
  have "map (\<lambda>p. cache_identity (vp_identity p)) ?r = filter (\<lambda>i. ?f i \<noteq> None) order"
    unfolding r by (rule map_filter_identities) (use select_identity_Some [OF assms] in blast)
  also have "(\<lambda>i. ?f i \<noteq> None) = (\<lambda>i. \<exists>k < length ?events. \<exists>v.
      validate_publication (sl_pub env) (?events ! k) (clock k) = Inr v
      \<and> authorised publishers identities v \<and> cache_identity (vp_identity v) = i)"
    unfolding select_identity_None using valid_publications_iff [of _ env clock publishers identities ?events]
    by (intro ext) blast
  moreover have "authorised publishers identities (validated_publication.truncate p)
      \<and> (\<exists>k < length ?events. validate_publication (sl_pub env) (?events ! k) (clock k)
           = Inr (validated_publication.truncate p))
      \<and> (\<forall>v \<in> set ?vs. cache_identity (vp_identity v) = cache_identity (vp_identity p)
           \<longrightarrow> event_created (vp_event v) \<le> event_created (vp_event p))" if p: "p \<in> set ?r" for p
  proof -
    obtain i where "?f i = Some p" using p unfolding r by (auto simp: set_map_filter)
    note s = select_identity_Some [OF assms this]
    have "event_created b \<le> event_created a" if "compare_events env a b \<le> 0" for a b
      using that by (auto simp: compare_events_def split: if_splits)
    with s valid_publications_iff [of _ env clock publishers identities ?events] show ?thesis by blast
  qed
  ultimately show ?thesis
    using valid_publications_iff [of _ env clock publishers identities ?events] by (simp; blast)
qed

subsection \<open>A witness\<close>

definition sample_selection :: "raw_publication list sel_env" where
  "sample_selection = \<lparr>sl_pub = sample_env, sl_add = (\<lambda>e s. s @ [e]),
     sl_timeline = (\<lambda>ks s. filter (\<lambda>e. \<exists>k \<in> set ks. rp_kind e = V_Int k) s),
     sl_compare = (\<lambda>a b. if a < b then - 1 else if a = b then 0 else 1)\<rparr>"

lemma sample_selection_total: "total_compare (sl_compare sample_selection)"
  by (auto simp: total_compare_def sample_selection_def)

lemma selection_newest_witness:
  "map (\<lambda>p. cache_identity (vp_identity p))
     (selection_model sample_selection (\<lambda>_. 1000) [js ''ab'']
       [cache_identity (vp_identity sample_publication)]
       [js ''other'', cache_identity (vp_identity sample_publication)] [sample_raw])
   = [cache_identity (vp_identity sample_publication)]"
proof -
  let ?i = "cache_identity (vp_identity sample_publication)"
  have t: "sl_timeline sample_selection [17091, 37091] [sample_raw] = [sample_raw]"
    by (simp add: sample_selection_def sample_raw_def)
  have p: "sl_pub sample_selection = sample_env" by (simp add: sample_selection_def)
  have ev: "vp_event sample_publication = sample_raw" "rp_pubkey sample_raw = js ''ab''"
    by (simp_all add: sample_publication_def sample_raw_def)
  have n: "?i \<noteq> js ''other''"
    by (simp add: cache_identity_def kind_text_def sample_publication_def js_eval dec_digits.simps)
  have "map (\<lambda>p. cache_identity (vp_identity p))
      (selection_model sample_selection (\<lambda>_. 1000) [js ''ab''] [?i] [js ''other'', ?i] [sample_raw])
    = filter (\<lambda>i. \<exists>k < length [sample_raw]. \<exists>v.
        validate_publication sample_env ([sample_raw] ! k) 1000 = Inr v
        \<and> authorised [js ''ab''] [?i] v \<and> cache_identity (vp_identity v) = i) [js ''other'', ?i]"
    using conjunct1 [OF selection_newest [OF sample_selection_total, of "\<lambda>_. 1000" "[js ''ab'']" "[?i]"
        "[js ''other'', ?i]" "[sample_raw]"]] unfolding t p .
  also have "\<dots> = [?i]" using sample_validates ev n by (auto simp: authorised_def)
  finally show ?thesis .
qed

end
