(* ===== verification/Merged_Cache.thy ===== *)
theory Merged_Cache
  imports Reader Narinfo Selection "HOL-Library.Multiset" "HOL-Library.Sublist"
begin

section \<open>The merged cache (nix/merged_cache.ts)\<close>

text \<open>
  \<^verbatim>\<open>src/nix/merged_cache.ts\<close>: a narinfo is looked up in the tree of every selected
  publication in order; the first record found wins, and the signatures of the others are
  added to its text when all of them mean the same. Two registries remember for a while where
  a NAR path came from, one of publications and one of leased snapshots of the signer.
\<close>

subsection \<open>Decoding UTF-8 (TextDecoder, fatal)\<close>

definition cont :: "nat \<Rightarrow> bool" where
  "cont b \<longleftrightarrow> 0x80 \<le> b \<and> b < 0xC0"

fun utf8_scalars :: "nat list \<Rightarrow> nat list option" where
  "utf8_scalars [] = Some []"
| "utf8_scalars (a # r) =
     (if a < 0x80 then map_option (Cons a) (utf8_scalars r)
      else (case r of [] \<Rightarrow> None
        | b # s \<Rightarrow>
            if 0xC2 \<le> a \<and> a < 0xE0 \<and> cont b
            then map_option (Cons ((a - 0xC0) * 0x40 + (b - 0x80))) (utf8_scalars s)
            else (case s of [] \<Rightarrow> None
              | c # t \<Rightarrow>
                  if 0xE0 \<le> a \<and> a < 0xF0 \<and> cont b \<and> cont c
                     \<and> (a = 0xE0 \<longrightarrow> 0xA0 \<le> b) \<and> (a = 0xED \<longrightarrow> b < 0xA0)
                  then map_option (Cons ((a - 0xE0) * 0x1000 + (b - 0x80) * 0x40 + (c - 0x80)))
                         (utf8_scalars t)
                  else (case t of [] \<Rightarrow> None
                    | d # u \<Rightarrow>
                        if 0xF0 \<le> a \<and> a < 0xF5 \<and> cont b \<and> cont c \<and> cont d
                           \<and> (a = 0xF0 \<longrightarrow> 0x90 \<le> b) \<and> (a = 0xF4 \<longrightarrow> b < 0x90)
                        then map_option (Cons ((a - 0xF0) * 0x40000 + (b - 0x80) * 0x1000
                               + (c - 0x80) * 0x40 + (d - 0x80))) (utf8_scalars u)
                        else None))))"

text \<open>A byte order mark at the start is dropped.\<close>

definition text_decode :: "bytes \<Rightarrow> jstr option" where
  "text_decode bs =
     map_option (\<lambda>cs. concat (map utf16 (if cs \<noteq> [] \<and> hd cs = 0xFEFF then tl cs else cs)))
       (utf8_scalars (map unat bs))"

subsection \<open>Merging\<close>

datatype merge_error =
    MG_reader reader_error | MG_budget | MG_no_body | MG_utf8 | MG_narinfo narinfo_error

text \<open>\<open>boundedText\<close> over the pieces of a body and the error it ends with.\<close>

fun bounded_pieces :: "int \<Rightarrow> int \<Rightarrow> bytes list \<Rightarrow> bytes option" where
  "bounded_pieces limit acc [] = Some []"
| "bounded_pieces limit acc (p # ps) =
     (if int (length p) > limit - acc then None
      else map_option (append p) (bounded_pieces limit (acc + int (length p)) ps))"

definition bounded_text :: "int \<Rightarrow> bytes list \<times> reader_error option \<Rightarrow> merge_error + jstr" where
  "bounded_text limit body =
     (case bounded_pieces limit 0 (fst body) of None \<Rightarrow> Inl MG_budget
      | Some bs \<Rightarrow>
          (case snd body of Some e \<Rightarrow> Inl (MG_reader e)
           | None \<Rightarrow> (case text_decode bs of None \<Rightarrow> Inl MG_utf8 | Some s \<Rightarrow> Inr s)))"

text \<open>The body of a resolved path, read to its end.\<close>

definition read_body ::
  "'w reader_env \<Rightarrow> body \<Rightarrow> 'w rstate \<Rightarrow> (bytes list \<times> reader_error option) \<times> 'w rstate" where
  "read_body env b st =
     (case b of B_none \<Rightarrow> (([], None), st)
      | B_raw blob n \<Rightarrow> clean_pieces env n 0 (vb_pieces blob) st
      | B_chunks cs \<Rightarrow> file_stream env cs st)"

text \<open>One publication: the record of its tree, or why there is none.\<close>

definition publication_record ::
  "'w reader_env \<Rightarrow> jstr \<Rightarrow> int \<Rightarrow> selected_publication \<Rightarrow> budget \<times> 'w
    \<Rightarrow> (merge_error + narinfo) \<times> budget \<times> 'w"
where
  "publication_record env path limit p = (\<lambda>(b, w).
     (case resolve env (pr_hex (vp_root p)) path False b w of
        (Inl e, st) \<Rightarrow> (Inl (MG_reader e), rs_budget st, rs_world st)
      | (Inr r, st) \<Rightarrow>
          if rv_size r > limit then (Inl MG_budget, rs_budget st, rs_world st)
          else if rv_body r = B_none then (Inl MG_no_body, rs_budget st, rs_world st)
          else (case read_body env (rv_body r) st of
                  (body, st') \<Rightarrow>
                    (ebind (bounded_text limit body) (\<lambda>text. map_sum MG_narinfo id (parse_narinfo text)),
                     rs_budget st', rs_world st'))))"

text \<open>The loop over the selection; only a verified absence goes on to the next publication.\<close>

fun merge_found ::
  "(selected_publication \<Rightarrow> 'w reader_env) \<Rightarrow> jstr \<Rightarrow> int \<Rightarrow> selected_publication list \<Rightarrow> budget \<times> 'w
    \<Rightarrow> (merge_error + (selected_publication \<times> narinfo) list) \<times> budget \<times> 'w"
where
  "merge_found env path limit [] s = (Inr [], s)"
| "merge_found env path limit (p # ps) s =
     (case publication_record (env p) path limit p s of
        (Inl e, s') \<Rightarrow>
          if e = MG_reader RE_absent then merge_found env path limit ps s' else (Inl e, s')
      | (Inr n, s') \<Rightarrow>
          (case merge_found env path limit ps s' of
             (Inl e, s'') \<Rightarrow> (Inl e, s'') | (Inr fs, s'') \<Rightarrow> (Inr ((p, n) # fs), s'')))"

record narinfo_conflict =
  nc_store_path_hash :: jstr
  nc_winner :: jstr
  nc_winner_event :: jstr
  nc_loser :: jstr
  nc_loser_event :: jstr
  nc_fields :: "narinfo_field list"

record merged_result =
  mg_winner :: selected_publication
  mg_providers :: "selected_publication list"
  mg_record :: narinfo
  mg_text :: jstr

definition conflict_of ::
  "jstr \<Rightarrow> selected_publication \<times> narinfo \<Rightarrow> selected_publication \<times> narinfo \<Rightarrow> narinfo_conflict option" where
  "conflict_of hash a b =
     (let fields = differing_fields (snd a) (snd b) in
      if fields = [] then None
      else Some \<lparr>nc_store_path_hash = hash,
        nc_winner = cache_identity (vp_identity (fst a)), nc_winner_event = rp_id (vp_event (fst a)),
        nc_loser = cache_identity (vp_identity (fst b)), nc_loser_event = rp_id (vp_event (fst b)),
        nc_fields = sort_key field_text fields\<rparr>)"

definition merge_records ::
  "jstr \<Rightarrow> (selected_publication \<times> narinfo) list \<Rightarrow> merge_error + merged_result \<times> narinfo_conflict list" where
  "merge_records hash found =
     (case found of [] \<Rightarrow> Inl (MG_reader RE_absent)
      | a # others \<Rightarrow>
          let conflicts = List.map_filter (conflict_of hash a) others in
          Inr (\<lparr>mg_winner = fst a, mg_providers = map fst found, mg_record = snd a,
             mg_text = (if conflicts \<noteq> [] then ni_raw (snd a)
               else append_signatures (snd a) (map ns_raw (concat (map (ni_signatures \<circ> snd) others))))\<rparr>,
           conflicts))"

definition resolve_merged ::
  "(selected_publication \<Rightarrow> 'w reader_env) \<Rightarrow> selected_publication list \<Rightarrow> jstr \<Rightarrow> jstr \<Rightarrow> int
    \<Rightarrow> budget \<times> 'w \<Rightarrow> (merge_error + merged_result \<times> narinfo_conflict list) \<times> budget \<times> 'w"
where
  "resolve_merged env snapshot path hash limit s =
     (case merge_found env path limit snapshot s of
        (Inl e, s') \<Rightarrow> (Inl e, s') | (Inr found, s') \<Rightarrow> (merge_records hash found, s'))"

subsection \<open>Registries of NAR paths\<close>

definition nar_char :: "nat \<Rightarrow> bool" where
  "nar_char u \<longleftrightarrow> is_upper u \<or> is_lower u \<or> is_digit u \<or> u \<in> {46, 95, 43, 47, 45}"

definition normalized_nar_path :: "jstr \<Rightarrow> jstr option" where
  "normalized_nar_path path =
     (let n = (if starts_with [47] path then drop 1 path else path) in
      if starts_with (js ''nar/'') n \<and> 4 < length n \<and> list_all nar_char (drop 4 n)
         \<and> js ''..'' \<notin> set (split_on 47 n)
      then Some n else None)"

text \<open>
  An entry with its time of expiry; a map in insertion order. \<open>evict\<close> is the loop that makes
  room: it does not end (\<open>None\<close>) when no entry is left and there is still no room.
\<close>

type_synonym 'a routes = "(jstr, 'a \<times> int) jmap"

definition purge_routes :: "int \<Rightarrow> 'a routes \<Rightarrow> 'a routes \<times> 'a list" where
  "purge_routes now es = (filter (\<lambda>(k, v, at). now < at) es,
     map (\<lambda>(k, v, at). v) (filter (\<lambda>(k, v, at). at \<le> now) es))"

fun evict_routes :: "int \<Rightarrow> 'a routes \<Rightarrow> ('a routes \<times> 'a list) option" where
  "evict_routes limit [] = (if 0 \<ge> limit then None else Some ([], []))"
| "evict_routes limit ((k, v, at) # es) =
     (if int (length es) + 1 \<ge> limit
      then map_option (\<lambda>(kept, dropped). (kept, v # dropped)) (evict_routes limit es)
      else Some ((k, v, at) # es, []))"

definition delete_route :: "jstr \<Rightarrow> 'a routes \<Rightarrow> 'a routes \<times> 'a list" where
  "delete_route k es = (AList.delete k es, (case map_of es k of None \<Rightarrow> [] | Some (v, at) \<Rightarrow> [v]))"

text \<open>\<open>WinnerRouteRegistry\<close>: a positive number of entries and a positive time are required.\<close>

record winner_registry =
  wr_max :: int
  wr_ttl :: int
  wr_entries :: "selected_publication routes"

datatype registry_error = WR_max | WR_ttl | WR_route | WR_closed

definition new_winner_registry :: "int \<Rightarrow> int \<Rightarrow> registry_error + winner_registry" where
  "new_winner_registry limit ttl =
     (if \<not> safe_int limit \<or> limit \<le> 0 then Inl WR_max
      else if \<not> safe_int ttl \<or> ttl \<le> 0 then Inl WR_ttl
      else Inr \<lparr>wr_max = limit, wr_ttl = ttl, wr_entries = []\<rparr>)"

text \<open>The two readings of the clock of \<open>set\<close> are its arguments.\<close>

definition winner_set ::
  "int \<Rightarrow> int \<Rightarrow> jstr \<Rightarrow> selected_publication \<Rightarrow> winner_registry \<Rightarrow> (registry_error + winner_registry) option"
where
  "winner_set now now' path p r =
     (case normalized_nar_path path of None \<Rightarrow> Some (Inl WR_route)
      | Some key \<Rightarrow>
          map_option (\<lambda>(kept, dropped). Inr (r\<lparr>wr_entries := kept @ [(key, p, now' + wr_ttl r)]\<rparr>))
            (evict_routes (wr_max r) (AList.delete key (fst (purge_routes now (wr_entries r))))))"

definition winner_get :: "int \<Rightarrow> jstr \<Rightarrow> winner_registry \<Rightarrow> selected_publication option \<times> winner_registry" where
  "winner_get now path r =
     (case normalized_nar_path path of None \<Rightarrow> (None, r)
      | Some key \<Rightarrow>
          (case map_of (wr_entries r) key of
             Some (p, at) \<Rightarrow> if at \<le> now then (None, r\<lparr>wr_entries := AList.delete key (wr_entries r)\<rparr>)
                            else (Some p, r)
           | None \<Rightarrow> (None, r\<lparr>wr_entries := AList.delete key (wr_entries r)\<rparr>)))"

definition winner_close :: "winner_registry \<Rightarrow> winner_registry" where
  "winner_close r = r\<lparr>wr_entries := []\<rparr>"

text \<open>
  \<open>SignerRouteRegistry\<close>: its entries hold leases, which are released when an entry is
  dropped; \<open>sr_released\<close> is the log of these releases. \<open>sr_timer\<close> is the delay of the timer.
\<close>

record 'l signer_registry =
  sr_max :: int
  sr_ttl :: int
  sr_entries :: "'l routes"
  sr_closed :: bool
  sr_timer :: "int option"
  sr_released :: "'l list"

definition new_signer_registry :: "int \<Rightarrow> int \<Rightarrow> 'l signer_registry" where
  "new_signer_registry limit ttl = \<lparr>sr_max = limit, sr_ttl = ttl, sr_entries = [], sr_closed = False,
     sr_timer = None, sr_released = []\<rparr>"

definition arm_timer :: "int \<Rightarrow> 'l signer_registry \<Rightarrow> 'l signer_registry" where
  "arm_timer now r =
     (if sr_closed r \<or> sr_entries r = [] then r\<lparr>sr_timer := None\<rparr>
      else r\<lparr>sr_timer := Some (max 0 (Min ((\<lambda>(k, v, at). at) ` set (sr_entries r)) - now))\<rparr>)"

definition signer_purge :: "int \<Rightarrow> 'l signer_registry \<Rightarrow> 'l signer_registry" where
  "signer_purge now r =
     (case purge_routes now (sr_entries r) of
        (kept, dropped) \<Rightarrow> r\<lparr>sr_entries := kept, sr_released := sr_released r @ dropped\<rparr>)"

definition signer_delete :: "jstr \<Rightarrow> 'l signer_registry \<Rightarrow> 'l signer_registry" where
  "signer_delete key r =
     (case delete_route key (sr_entries r) of
        (kept, dropped) \<Rightarrow> r\<lparr>sr_entries := kept, sr_released := sr_released r @ dropped\<rparr>)"

definition signer_set ::
  "int \<Rightarrow> int \<Rightarrow> int \<Rightarrow> jstr \<Rightarrow> 'l \<Rightarrow> 'l signer_registry \<Rightarrow> (registry_error + 'l signer_registry) option"
where
  "signer_set now now' now'' path lease r =
     (if sr_closed r then Some (Inl WR_closed)
      else (case normalized_nar_path path of None \<Rightarrow> Some (Inl WR_route)
        | Some key \<Rightarrow>
            let r1 = signer_delete key (signer_purge now r) in
            map_option (\<lambda>(kept, dropped).
                Inr (arm_timer now'' (r1\<lparr>sr_entries := kept @ [(key, lease, now' + sr_ttl r)],
                  sr_released := sr_released r1 @ dropped\<rparr>)))
              (evict_routes (sr_max r) (sr_entries r1))))"

definition signer_take ::
  "int \<Rightarrow> int \<Rightarrow> jstr \<Rightarrow> 'l signer_registry \<Rightarrow> 'l option \<times> 'l signer_registry" where
  "signer_take now now' path r =
     (if sr_closed r then (None, r)
      else (case normalized_nar_path path of None \<Rightarrow> (None, r)
        | Some key \<Rightarrow>
            (case map_of (sr_entries r) key of
               Some (lease, at) \<Rightarrow>
                 if at \<le> now then (None, arm_timer now' (signer_delete key r))
                 else (Some lease, arm_timer now' (r\<lparr>sr_entries := AList.delete key (sr_entries r)\<rparr>))
             | None \<Rightarrow> (None, arm_timer now' (signer_delete key r)))))"

definition signer_tick :: "int \<Rightarrow> int \<Rightarrow> 'l signer_registry \<Rightarrow> 'l signer_registry" where
  "signer_tick now now' r = arm_timer now' (signer_purge now (r\<lparr>sr_timer := None\<rparr>))"

definition signer_close :: "'l signer_registry \<Rightarrow> 'l signer_registry" where
  "signer_close r =
     (if sr_closed r then r
      else r\<lparr>sr_closed := True, sr_timer := None, sr_entries := [],
             sr_released := sr_released r @ map (\<lambda>(k, v, at). v) (sr_entries r)\<rparr>)"

subsection \<open>The merged text\<close>

lemma map_sum_Inr: "map_sum f g x = Inr y \<longleftrightarrow> (\<exists>z. x = Inr z \<and> y = g z)"
  by (cases x) auto

lemma publication_record_parses:
  "publication_record env path limit p s = (Inr n, s') \<Longrightarrow> parse_narinfo (ni_raw n) = Inr n"
  by (cases s) (auto simp: publication_record_def ebind_Inr map_sum_Inr parsed_text
      split: prod.splits sum.splits if_splits)

text \<open>What one publication answers, in some state of budget and world.\<close>

definition gives_record :: "'w reader_env \<Rightarrow> jstr \<Rightarrow> int \<Rightarrow> selected_publication \<Rightarrow> narinfo \<Rightarrow> bool" where
  "gives_record env path limit p n \<longleftrightarrow> (\<exists>s s'. publication_record env path limit p s = (Inr n, s'))"

definition gives_absent :: "'w reader_env \<Rightarrow> jstr \<Rightarrow> int \<Rightarrow> selected_publication \<Rightarrow> bool" where
  "gives_absent env path limit p \<longleftrightarrow>
     (\<exists>s s'. publication_record env path limit p s = (Inl (MG_reader RE_absent), s'))"

lemma gives_record_parses: "gives_record env path limit p n \<Longrightarrow> parse_narinfo (ni_raw n) = Inr n"
  using publication_record_parses by (auto simp: gives_record_def)

lemma merge_found_records:
  "merge_found env path limit ps s = (Inr found, s') \<Longrightarrow>
     subseq (map fst found) ps \<and> (\<forall>(p, n) \<in> set found. gives_record (env p) path limit p n)
     \<and> (\<forall>p \<in> set ps. p \<in> fst ` set found \<or> gives_absent (env p) path limit p)"
proof (induction ps arbitrary: s found)
  case (Cons p ps)
  obtain r t where r: "publication_record (env p) path limit p s = (r, t)"
    by (cases "publication_record (env p) path limit p s")
  show ?case
  proof (cases r)
    case (Inl e)
    with Cons.prems r have e: "e = MG_reader RE_absent" "merge_found env path limit ps t = (Inr found, s')"
      by (auto split: if_splits)
    have "gives_absent (env p) path limit p" unfolding gives_absent_def using r Inl e(1) by blast
    with Cons.IH [OF e(2)] show ?thesis by auto
  next
    case (Inr n)
    with Cons.prems r obtain fs where fs: "merge_found env path limit ps t = (Inr fs, s')" "found = (p, n) # fs"
      by (auto split: prod.splits sum.splits)
    have "gives_record (env p) path limit p n" unfolding gives_record_def using r Inr by blast
    with Cons.IH [OF fs(1)] fs(2) show ?thesis by auto
  qed
qed simp

lemma no_conflict_same: "conflict_of hash a b = None \<longleftrightarrow> differing_fields (snd a) (snd b) = []"
  by (simp add: conflict_of_def Let_def)

text \<open>
  C14: A merged narinfo is the winner's record with exactly the signatures of the others: the
  providers are the publications of the selection that gave a record, in its order, every other
  one answered that the path is absent, and the winner is the first provider. When every other
  record has the same meaning as the winner's, the text served parses to the winner's record
  with the signatures of all others added in order; when one of them differs, in whatever
  position, the text parses to the winner's record with nothing added, and a conflict is reported.
\<close>

theorem merged_text_parses:
  assumes "resolve_merged env snapshot path hash limit s = (Inr (res, conflicts), s')"
  shows "\<exists>others. mg_providers res = mg_winner res # map fst others \<and> subseq (mg_providers res) snapshot
    \<and> (\<forall>(p, n) \<in> set ((mg_winner res, mg_record res) # others). gives_record (env p) path limit p n)
    \<and> (\<forall>p \<in> set snapshot. p \<in> set (mg_providers res) \<or> gives_absent (env p) path limit p)
    \<and> (conflicts = [] \<longleftrightarrow> (\<forall>(p, n) \<in> set others. differing_fields (mg_record res) n = []))
    \<and> parse_narinfo (mg_text res) = Inr ((mg_record res)\<lparr>ni_signatures := ni_signatures (mg_record res)
          @ (if conflicts = [] then concat (map (ni_signatures \<circ> snd) others) else []),
        ni_raw := mg_text res\<rparr>)"
proof -
  obtain found where f: "merge_found env path limit snapshot s = (Inr found, s')"
    and m: "merge_records hash found = Inr (res, conflicts)"
    using assms by (auto simp: resolve_merged_def split: prod.splits sum.splits)
  note recs = merge_found_records [OF f]
  obtain a others where found: "found = a # others"
    using m by (cases found) (auto simp: merge_records_def)
  let ?added = "concat (map (ni_signatures \<circ> snd) others)"
  have c: "conflicts = List.map_filter (conflict_of hash a) others"
    and res: "mg_winner res = fst a" "mg_providers res = map fst found" "mg_record res = snd a"
      "mg_text res = (if conflicts \<noteq> [] then ni_raw (snd a)
         else append_signatures (snd a) (map ns_raw ?added))"
    using m by (auto simp: merge_records_def found Let_def)
  have pa: "parse_narinfo (ni_raw (snd a)) = Inr (snd a)"
    using recs found by (cases a) (auto dest: gives_record_parses)
  have po: "\<forall>x \<in> set others. parse_narinfo (ni_raw (snd x)) = Inr (snd x)"
    using recs found by (fastforce dest: gives_record_parses)
  have none: "conflicts = [] \<longleftrightarrow> (\<forall>x \<in> set others. conflict_of hash a x = None)"
    unfolding c by (induction others) (auto split: option.splits)
  have same: "conflicts = [] \<longleftrightarrow> (\<forall>(p, n) \<in> set others. differing_fields (mg_record res) n = [])"
    unfolding none res(3) by (auto simp: no_conflict_same)
  have "parse_narinfo (mg_text res) = Inr ((mg_record res)\<lparr>ni_signatures := ni_signatures (mg_record res)
        @ (if conflicts = [] then ?added else []), ni_raw := mg_text res\<rparr>)"
  proof (cases "conflicts = []")
    case True
    have "\<forall>sig \<in> set ?added. \<exists>u m. parse_narinfo u = Inr m \<and> sig \<in> set (ni_signatures m)"
      using po by fastforce
    from appended_signatures_parse [OF pa this] True res show ?thesis by simp
  next
    case False
    then show ?thesis using res pa by simp
  qed
  then show ?thesis
    using res recs found same by (intro exI [of _ others]) (cases a, auto)
qed

subsection \<open>Leases\<close>

definition route_values :: "'a routes \<Rightarrow> 'a multiset" where
  "route_values es = mset (map (fst \<circ> snd) es)"

lemma purge_values:
  "purge_routes now es = (kept, dropped) \<Longrightarrow> route_values es = route_values kept + mset dropped"
  by (induction es arbitrary: kept dropped) (auto simp: purge_routes_def route_values_def)

lemma delete_values:
  "jmap_ok es \<Longrightarrow> delete_route k es = (kept, dropped) \<Longrightarrow> route_values es = route_values kept + mset dropped"
proof (induction es arbitrary: kept dropped)
  case (Cons x es)
  obtain j v at where x: "x = (j, v, at)" by (cases x) auto
  show ?case
  proof (cases "j = k")
    case True
    with Cons.prems(1) x have "AList.delete k es = es"
      by (force simp: jmap_ok_def AList.delete_eq intro!: filter_True)
    with Cons.prems True x show ?thesis by (auto simp: delete_route_def route_values_def)
  next
    case False
    with Cons.prems x have "jmap_ok es" by (simp add: jmap_ok_def)
    from Cons.IH [OF this, of "fst (delete_route k es)" "snd (delete_route k es)"] Cons.prems(2) False x
    show ?thesis by (auto simp: delete_route_def route_values_def)
  qed
qed (simp add: delete_route_def route_values_def)

lemma evict_values:
  "evict_routes limit es = Some (kept, dropped) \<Longrightarrow>
     route_values es = route_values kept + mset dropped \<and> int (length kept) < limit
     \<and> (\<exists>k. kept = drop k es)"
proof (induction es arbitrary: kept dropped)
  case (Cons x es)
  obtain j v at where x: "x = (j, v, at)" by (cases x) auto
  show ?case
  proof (cases "int (length es) + 1 \<ge> limit")
    case True
    with Cons.prems x obtain d where d: "evict_routes limit es = Some (kept, d)" "dropped = v # d" by auto
    from Cons.IH [OF d(1)] d(2) x show ?thesis
      by (auto simp: route_values_def intro: exI [of _ "Suc _"])
  next
    case False
    with Cons.prems x show ?thesis by (auto intro: exI [of _ 0])
  qed
qed (auto split: if_splits)

lemma evict_returns: "0 < limit \<Longrightarrow> evict_routes limit es \<noteq> None"
  by (induction es) auto

datatype 'l signer_call =
    SC_set int int int jstr 'l | SC_take int int jstr | SC_tick int int | SC_close

record 'l registry_run =
  rr_registry :: "'l signer_registry"
  rr_accepted :: "'l list"
  rr_taken :: "'l list"

definition signer_step :: "'l signer_call \<Rightarrow> 'l registry_run \<Rightarrow> 'l registry_run option" where
  "signer_step c s =
     (case c of
        SC_set a b d path lease \<Rightarrow>
          (case signer_set a b d path lease (rr_registry s) of
             None \<Rightarrow> None
           | Some (Inl e) \<Rightarrow> Some s
           | Some (Inr r) \<Rightarrow> Some (s\<lparr>rr_registry := r, rr_accepted := lease # rr_accepted s\<rparr>))
      | SC_take a b path \<Rightarrow>
          (case signer_take a b path (rr_registry s) of
             (None, r) \<Rightarrow> Some (s\<lparr>rr_registry := r\<rparr>)
           | (Some lease, r) \<Rightarrow> Some (s\<lparr>rr_registry := r, rr_taken := lease # rr_taken s\<rparr>))
      | SC_tick a b \<Rightarrow> Some (s\<lparr>rr_registry := signer_tick a b (rr_registry s)\<rparr>)
      | SC_close \<Rightarrow> Some (s\<lparr>rr_registry := signer_close (rr_registry s)\<rparr>))"

fun signer_run :: "'l signer_call list \<Rightarrow> 'l registry_run \<Rightarrow> 'l registry_run option" where
  "signer_run [] s = Some s"
| "signer_run (c # cs) s = Option.bind (signer_step c s) (signer_run cs)"

definition registry_ok :: "int \<Rightarrow> 'l registry_run \<Rightarrow> bool" where
  "registry_ok limit s \<longleftrightarrow>
     (let r = rr_registry s in
      sr_max r = limit \<and> jmap_ok (sr_entries r) \<and> int (length (sr_entries r)) \<le> limit
      \<and> (sr_closed r \<longrightarrow> sr_entries r = [])
      \<and> mset (rr_accepted s) = route_values (sr_entries r) + mset (sr_released r) + mset (rr_taken s))"

lemma arm_timer_simps [simp]:
  "sr_entries (arm_timer now r) = sr_entries r" "sr_released (arm_timer now r) = sr_released r"
  "sr_max (arm_timer now r) = sr_max r" "sr_closed (arm_timer now r) = sr_closed r"
  by (simp_all add: arm_timer_def)

lemma signer_purge_simps [simp]:
  "sr_max (signer_purge now r) = sr_max r" "sr_closed (signer_purge now r) = sr_closed r"
  "sr_max (signer_delete k r) = sr_max r" "sr_closed (signer_delete k r) = sr_closed r"
  by (simp_all add: signer_purge_def signer_delete_def split: prod.splits)

lemma signer_purge_values:
  "route_values (sr_entries (signer_purge now r)) + mset (sr_released (signer_purge now r))
     = route_values (sr_entries r) + mset (sr_released r)"
  "jmap_ok (sr_entries r) \<Longrightarrow> jmap_ok (sr_entries (signer_purge now r))"
  "length (sr_entries (signer_purge now r)) \<le> length (sr_entries r)"
proof -
  obtain kept dropped where p: "purge_routes now (sr_entries r) = (kept, dropped)" by fastforce
  then show "route_values (sr_entries (signer_purge now r)) + mset (sr_released (signer_purge now r))
     = route_values (sr_entries r) + mset (sr_released r)"
    using purge_values [OF p] by (simp add: signer_purge_def)
  have "kept = filter (\<lambda>(k, v, at). now < at) (sr_entries r)" using p by (simp add: purge_routes_def)
  then show "jmap_ok (sr_entries r) \<Longrightarrow> jmap_ok (sr_entries (signer_purge now r))"
    "length (sr_entries (signer_purge now r)) \<le> length (sr_entries r)"
    using p by (simp_all add: signer_purge_def jmap_ok_def distinct_map_filter)
qed

lemma signer_purge_empty [simp]: "sr_entries r = [] \<Longrightarrow> sr_entries (signer_purge now r) = []"
  by (simp add: signer_purge_def purge_routes_def)

lemma signer_delete_values:
  assumes "jmap_ok (sr_entries r)"
  shows "route_values (sr_entries (signer_delete k r)) + mset (sr_released (signer_delete k r))
     = route_values (sr_entries r) + mset (sr_released r)"
    "sr_entries (signer_delete k r) = AList.delete k (sr_entries r)"
proof -
  obtain kept dropped where p: "delete_route k (sr_entries r) = (kept, dropped)" by fastforce
  then show "route_values (sr_entries (signer_delete k r)) + mset (sr_released (signer_delete k r))
     = route_values (sr_entries r) + mset (sr_released r)"
    using delete_values [OF assms p] by (simp add: signer_delete_def)
  show "sr_entries (signer_delete k r) = AList.delete k (sr_entries r)"
    by (simp add: signer_delete_def delete_route_def)
qed

lemma length_delete: "length (AList.delete k es) \<le> length es"
  by (simp add: AList.delete_eq)

lemma set_ok:
  assumes "registry_ok limit s" "signer_set a b d path lease (rr_registry s) = Some (Inr r)"
  shows "registry_ok limit (s\<lparr>rr_registry := r, rr_accepted := lease # rr_accepted s\<rparr>)"
proof -
  let ?r = "rr_registry s"
  obtain key kept dropped where k: "normalized_nar_path path = Some key"
    and e: "evict_routes (sr_max ?r) (sr_entries (signer_delete key (signer_purge a ?r))) = Some (kept, dropped)"
    and r: "r = arm_timer d ((signer_delete key (signer_purge a ?r))\<lparr>
        sr_entries := kept @ [(key, lease, b + sr_ttl ?r)],
        sr_released := sr_released (signer_delete key (signer_purge a ?r)) @ dropped\<rparr>)"
    and opened: "\<not> sr_closed ?r"
    using assms(2) by (auto simp: signer_set_def Let_def split: if_splits option.splits)
  have ok: "jmap_ok (sr_entries (signer_purge a ?r))"
    using assms(1) by (intro signer_purge_values(2)) (simp add: registry_ok_def Let_def)
  note del = signer_delete_values [OF ok, of key]
  note ev = evict_values [OF e]
  obtain j where j: "kept = drop j (AList.delete key (sr_entries (signer_purge a ?r)))" using ev del(2) by auto
  have "jmap_ok (AList.delete key (sr_entries (signer_purge a ?r)))" using ok by simp
  then have "jmap_ok kept" unfolding j jmap_ok_def by (simp add: drop_map [symmetric])
  moreover have "key \<notin> fst ` set (AList.delete key es)" for es :: "'a routes"
    by (auto simp: AList.delete_eq)
  then have "key \<notin> fst ` set kept" unfolding j by (meson image_mono in_mono set_drop_subset)
  ultimately have "jmap_ok (kept @ [(key, lease, b + sr_ttl ?r)])" by (simp add: jmap_ok_def)
  moreover have "mset (lease # rr_accepted s) = route_values (kept @ [(key, lease, b + sr_ttl ?r)])
      + mset (sr_released (signer_delete key (signer_purge a ?r)) @ dropped) + mset (rr_taken s)"
  proof -
    let ?rel = "mset (sr_released (signer_delete key (signer_purge a ?r)))"
    have "route_values (sr_entries ?r) + mset (sr_released ?r) = route_values kept + mset dropped + ?rel"
      using ev del(1) signer_purge_values(1) [of a ?r] by simp
    moreover have "mset (lease # rr_accepted s)
        = {#lease#} + (route_values (sr_entries ?r) + mset (sr_released ?r)) + mset (rr_taken s)"
      using assms(1) by (simp add: registry_ok_def Let_def)
    ultimately show ?thesis by (simp add: route_values_def ac_simps)
  qed
  ultimately show ?thesis
    using assms(1) ev opened r by (simp add: registry_ok_def Let_def)
qed

lemma take_ok:
  assumes "registry_ok limit s" "signer_take a b path (rr_registry s) = (l, r)"
  shows "registry_ok limit (s\<lparr>rr_registry := r, rr_taken := (case l of None \<Rightarrow> rr_taken s | Some v \<Rightarrow> v # rr_taken s)\<rparr>)"
proof -
  let ?r = "rr_registry s"
  have ok: "jmap_ok (sr_entries ?r)" using assms(1) by (simp add: registry_ok_def Let_def)
  note del = signer_delete_values [OF ok]
  have len: "int (length (AList.delete k (sr_entries ?r))) \<le> limit" for k
    using assms(1) length_delete [of k "sr_entries ?r"] by (simp add: registry_ok_def Let_def)
  have kept: "registry_ok limit (s\<lparr>rr_registry := arm_timer b (signer_delete k ?r)\<rparr>)" for k
    using assms(1) del [of k] len [of k] by (simp add: registry_ok_def Let_def)
  have taken: "registry_ok limit (s\<lparr>rr_registry := arm_timer b (?r\<lparr>sr_entries := AList.delete k (sr_entries ?r)\<rparr>),
      rr_taken := v # rr_taken s\<rparr>)" if "map_of (sr_entries ?r) k = Some (v, at)" "\<not> sr_closed ?r" for k v at
    using assms(1) delete_values [OF ok, of k] that len [of k]
    by (simp add: registry_ok_def Let_def delete_route_def)
  show ?thesis
    using assms kept taken by (auto simp: signer_take_def split: if_splits option.splits)
qed

lemma signer_set_returns: "0 < sr_max r \<Longrightarrow> signer_set a b d path lease r \<noteq> None"
  using evict_returns [of "sr_max r"]
  by (auto simp: signer_set_def Let_def split: option.splits)

lemma step_ok:
  assumes "registry_ok limit s" "0 < limit"
  shows "\<exists>t. signer_step c s = Some t \<and> registry_ok limit t"
proof (cases c)
  case (SC_set a b d path lease)
  have "0 < sr_max (rr_registry s)" using assms by (simp add: registry_ok_def Let_def)
  then have "signer_set a b d path lease (rr_registry s) \<noteq> None" by (rule signer_set_returns)
  then obtain x where x: "signer_set a b d path lease (rr_registry s) = Some x" by blast
  show ?thesis
  proof (cases x)
    case (Inr r)
    with set_ok [OF assms(1)] x SC_set show ?thesis by (simp add: signer_step_def)
  qed (use x SC_set assms(1) in \<open>simp add: signer_step_def\<close>)
next
  case (SC_take a b path)
  obtain l r where "signer_take a b path (rr_registry s) = (l, r)" by fastforce
  with take_ok [OF assms(1) this] SC_take show ?thesis by (cases l) (simp_all add: signer_step_def)
next
  case (SC_tick a b)
  let ?r = "(rr_registry s)\<lparr>sr_timer := None\<rparr>"
  have "jmap_ok (sr_entries ?r)" using assms(1) by (simp add: registry_ok_def Let_def)
  then show ?thesis
    using assms(1) SC_tick signer_purge_values [where now = a and r = ?r]
    by (simp add: signer_step_def registry_ok_def Let_def signer_tick_def)
next
  case SC_close
  have v: "route_values es = mset (map (\<lambda>(k, v, at). v) es)" for es :: "'a routes"
    by (simp add: route_values_def comp_def split_def)
  have z: "route_values [] = {#}" by (simp add: route_values_def)
  show ?thesis
    using assms SC_close
    by (auto simp: signer_step_def registry_ok_def Let_def signer_close_def v z)
qed

text \<open>
  C15: No lease is lost or released twice: for a positive limit, every run of calls of the
  signer's registry returns, holds at most \<open>maxEntries\<close> leases, none after it is closed, and
  the leases it was given are exactly those it still holds, those it released and those that
  were taken from it.
\<close>

theorem leases_conserved:
  assumes "0 < limit"
  shows "\<exists>s. signer_run calls \<lparr>rr_registry = new_signer_registry limit ttl, rr_accepted = [], rr_taken = []\<rparr> = Some s
    \<and> int (length (sr_entries (rr_registry s))) \<le> limit
    \<and> (sr_closed (rr_registry s) \<longrightarrow> sr_entries (rr_registry s) = [])
    \<and> mset (rr_accepted s) = mset (map (fst \<circ> snd) (sr_entries (rr_registry s)))
        + mset (sr_released (rr_registry s)) + mset (rr_taken s)"
proof -
  have "registry_ok limit s \<Longrightarrow> \<exists>t. signer_run calls s = Some t \<and> registry_ok limit t" for s
  proof (induction calls arbitrary: s)
    case (Cons c cs)
    from step_ok [OF Cons.prems assms] obtain u where "signer_step c s = Some u" "registry_ok limit u" by blast
    with Cons.IH [of u] show ?case by simp
  qed simp
  moreover have "registry_ok limit \<lparr>rr_registry = new_signer_registry limit ttl, rr_accepted = [], rr_taken = []\<rparr>"
    using assms by (simp add: registry_ok_def new_signer_registry_def route_values_def)
  ultimately show ?thesis unfolding registry_ok_def route_values_def Let_def by blast
qed

subsection \<open>Witnesses\<close>

lemma leases_conserved_witness:
  "\<exists>s. signer_run [SC_set 0 0 0 (js ''nar/a'') (7 :: nat), SC_set 1 1 1 (js ''nar/b'') 8, SC_take 2 2 (js ''nar/b''), SC_close]
      \<lparr>rr_registry = new_signer_registry 1 10, rr_accepted = [], rr_taken = []\<rparr> = Some s
    \<and> mset (rr_accepted s) = mset (map (fst \<circ> snd) (sr_entries (rr_registry s)))
        + mset (sr_released (rr_registry s)) + mset (rr_taken s)"
  using leases_conserved [of 1 "[SC_set 0 0 0 (js ''nar/a'') (7 :: nat), SC_set 1 1 1 (js ''nar/b'') 8,
      SC_take 2 2 (js ''nar/b''), SC_close]" 10] by auto

lemma ascii_decode: "\<forall>u \<in> set s. u < 0x80 \<Longrightarrow> text_decode (utf8_bytes s) = Some s"
proof -
  assume a: "\<forall>u \<in> set s. u < 0x80"
  have sc: "scalars s = s" using a
    by (induction s rule: scalars.induct) (auto simp: high_surrogate_def low_surrogate_def)
  have "concat (map utf8_scalar s) = s" using a by (induction s) (auto simp: utf8_scalar_def)
  then have u: "utf8 s = s" using sc by (simp add: utf8_def)
  have "map unat (map (of_nat :: nat \<Rightarrow> byte) s) = s"
    using a by (induction s) (auto simp: unat_of_nat)
  moreover have "utf8_scalars s = Some s" using a by (induction s) auto
  moreover have "concat (map utf16 s) = s" using a by (induction s) (auto simp: utf16_def)
  moreover have "(if s \<noteq> [] \<and> hd s = 0xFEFF then tl s else s) = s" using a by (cases s) auto
  ultimately show ?thesis unfolding text_decode_def utf8_bytes_def u by (simp only: option.map)
qed

text \<open>One tree with the narinfo of path \<open>a\<close> as a raw blob.\<close>

definition sample_narinfo_bytes :: bytes where
  "sample_narinfo_bytes = utf8_bytes (sample_text [])"

definition sample_route :: jstr where
  "sample_route = replicate 32 97 @ js ''.narinfo''"

lemma sample_route_segments: "path_segments sample_route = [sample_route]"
  by (simp add: path_segments_def sample_route_def js_simps replicate_numeral)

definition sample_narinfo_root :: manifest where
  "sample_narinfo_root = \<lparr>m_type = M_Directory, m_links = [\<lparr>ml_hash = replicate 32 2, ml_key = None,
     ml_metadata = None, ml_name = Some sample_route, ml_size = int (length sample_narinfo_bytes), ml_type = L_Blob\<rparr>]\<rparr>"

definition sample_merge_reader :: "unit reader_env" where
  "sample_merge_reader = sample_reader\<lparr>
     re_limits := sample_traversal\<lparr>tl_max_decoded_bytes := 1000, tl_max_blob_transfer_bytes := 100000,
       tl_max_transferred_bytes := 100000, tl_max_output_bytes := 100000\<rparr>,
     re_mp_decode := (\<lambda>w. if w = [1] then Some (manifest_value sample_narinfo_root) else None),
     re_mp_encode := (\<lambda>v. if v = manifest_value sample_narinfo_root then Some [1] else None),
     re_fetch := (\<lambda>bl h s. if h = to_hex (replicate 32 9) then (Inr \<lparr>vb_pieces = [[1]], vb_size = 1\<rparr>, s)
       else (Inr \<lparr>vb_pieces = [sample_narinfo_bytes], vb_size = int (length sample_narinfo_bytes)\<rparr>, s))\<rparr>"

lemma sample_text_ascii: "\<forall>u \<in> set (sample_text []). u < 0x80"
  by (simp add: sample_text_def narinfo_text_def sample_narinfo_path_def sample_store_name_def js_simps
      dec_digits.simps)

lemma sample_text_length: "length (sample_text []) < 1000 \<and> 0 < length (sample_text [])"
  by (simp add: sample_text_def narinfo_text_def sample_narinfo_path_def sample_store_name_def js_simps
      dec_digits.simps)

lemma sample_bytes_length: "length sample_narinfo_bytes < 1000 \<and> 0 < length sample_narinfo_bytes"
proof -
  have "scalars s = s \<and> concat (map utf8_scalar s) = s" if "\<forall>u \<in> set s. u < 0x80" for s
    using that by (induction s rule: scalars.induct)
      (auto simp: high_surrogate_def low_surrogate_def utf8_scalar_def)
  from this [OF sample_text_ascii] show ?thesis
    using sample_text_length by (simp add: sample_narinfo_bytes_def utf8_bytes_def utf8_def)
qed

lemma sample_narinfo_wf: "wf_manifest sample_narinfo_root"
  using sample_bytes_length
  by (simp add: wf_manifest_def wf_kind_def wf_link_def sample_narinfo_root_def link_name_def
      safe_name_def sample_route_def js_eval max_safe_def)

lemma sample_narinfo_links:
  "m_type sample_narinfo_root = M_Directory"
  "m_links sample_narinfo_root = [\<lparr>ml_hash = replicate 32 2, ml_key = None,
     ml_metadata = None, ml_name = Some sample_route, ml_size = int (length sample_narinfo_bytes), ml_type = L_Blob\<rparr>]"
  by (simp_all add: sample_narinfo_root_def)

lemma sample_narinfo_decodes:
  "decode_validated_manifest (re_mp_decode sample_merge_reader) (re_mp_encode sample_merge_reader) [1] sample_limits
    = Inr \<lparr>vm_manifest = sample_narinfo_root, vm_decoded_bytes = decoded_cost (manifest_value sample_narinfo_root)\<rparr>"
  "decoded_cost (manifest_value sample_narinfo_root) \<le> 500"
proof -
  show c: "decoded_cost (manifest_value sample_narinfo_root) \<le> 500"
    by (simp add: manifest_value_def link_value_def opt_prop_def sample_narinfo_root_def sample_route_def
        js_eval utf8_def utf8_scalar_def high_surrogate_def low_surrogate_def)
  show "decode_validated_manifest (re_mp_decode sample_merge_reader) (re_mp_encode sample_merge_reader) [1] sample_limits
    = Inr \<lparr>vm_manifest = sample_narinfo_root, vm_decoded_bytes = decoded_cost (manifest_value sample_narinfo_root)\<rparr>"
    using c sample_narinfo_wf
    by (simp add: decode_validated_manifest_def sample_merge_reader_def sample_limits_def safe_int_def
        max_safe_def validate_manifest_manifest_value sample_narinfo_links)
qed

definition sample_selected :: selected_publication where
  "sample_selected = with_servers sample_publication []"

lemma sample_merge_simps:
  "re_limits sample_merge_reader = sample_traversal\<lparr>tl_max_decoded_bytes := 1000, tl_max_blob_transfer_bytes := 100000,
       tl_max_transferred_bytes := 100000, tl_max_output_bytes := 100000\<rparr>"
  "re_manifest_limits sample_merge_reader = sample_limits"
  "re_shared sample_merge_reader = None" "re_aborted sample_merge_reader w = False"
  "re_fetch sample_merge_reader bl (to_hex (replicate 32 9)) s = (Inr \<lparr>vb_pieces = [[1]], vb_size = 1\<rparr>, s)"
  "re_fetch sample_merge_reader bl (to_hex (replicate 32 2)) s
     = (Inr \<lparr>vb_pieces = [sample_narinfo_bytes], vb_size = int (length sample_narinfo_bytes)\<rparr>, s)"
  by (simp_all add: sample_merge_reader_def sample_reader_def replicate_eq_replicate)

lemma sample_merge_resolves:
  "\<exists>st. resolve sample_merge_reader (to_hex (replicate 32 9)) sample_route False sample_budget () =
    (Inr \<lparr>rv_hash = to_hex (replicate 32 2), rv_size = int (length sample_narinfo_bytes), rv_type = L_Blob,
        rv_body = B_raw \<lparr>vb_pieces = [sample_narinfo_bytes], vb_size = int (length sample_narinfo_bytes)\<rparr>
          (int (length sample_narinfo_bytes))\<rparr>, st)
      \<and> rb_output (rs_budget st) = 0 \<and> rb_clock (rs_budget st) = (\<lambda>_. 0)"
  using sample_narinfo_decodes sample_bytes_length
  by (simp add: reader_eval sample_route_segments sample_merge_simps sample_narinfo_links
      resolve_loop.simps [of _ _ _ "to_hex (replicate 32 9)"])

lemma sample_merge_record:
  "\<exists>n s'. parse_narinfo (sample_text []) = Inr n
    \<and> publication_record sample_merge_reader sample_route 5000 sample_selected (sample_budget, ()) = (Inr n, s')"
proof -
  obtain n where n: "parse_narinfo (sample_text []) = Inr n" using sample_parses [of "[]"] by auto
  obtain st where r: "resolve sample_merge_reader (to_hex (replicate 32 9)) sample_route False sample_budget () =
    (Inr \<lparr>rv_hash = to_hex (replicate 32 2), rv_size = int (length sample_narinfo_bytes), rv_type = L_Blob,
        rv_body = B_raw \<lparr>vb_pieces = [sample_narinfo_bytes], vb_size = int (length sample_narinfo_bytes)\<rparr>
          (int (length sample_narinfo_bytes))\<rparr>, st)"
    "rb_output (rs_budget st) = 0" "rb_clock (rs_budget st) = (\<lambda>_. 0)"
    using sample_merge_resolves by blast
  have root: "pr_hex (vp_root sample_selected) = to_hex (replicate 32 9)"
    by (simp add: sample_selected_def with_servers_def sample_publication_def)
  have c: "\<exists>t. clean_pieces sample_merge_reader (int (length sample_narinfo_bytes)) 0 [sample_narinfo_bytes] st
      = (([sample_narinfo_bytes], None), t)"
    using r(2,3) sample_bytes_length
    by (simp add: with_budget_def budget_op_defs live_def Let_def op_bind_def sample_merge_simps
        sample_traversal_def remaining_output_bytes_def safe_int_def max_safe_def)
  then obtain t where "clean_pieces sample_merge_reader (int (length sample_narinfo_bytes)) 0 [sample_narinfo_bytes] st
      = (([sample_narinfo_bytes], None), t)" by blast
  then have b: "read_body sample_merge_reader (B_raw \<lparr>vb_pieces = [sample_narinfo_bytes],
      vb_size = int (length sample_narinfo_bytes)\<rparr> (int (length sample_narinfo_bytes))) st
      = (([sample_narinfo_bytes], None), t)"
    by (simp add: read_body_def)
  have "bounded_text 5000 ([sample_narinfo_bytes], None) = Inr (sample_text [])"
    using sample_bytes_length ascii_decode [OF sample_text_ascii]
    by (simp add: bounded_text_def sample_narinfo_bytes_def)
  then show ?thesis
    using n r(1) b sample_bytes_length by (simp add: publication_record_def root)
qed

lemma merged_text_parses_witness:
  "\<exists>res conflicts s'. resolve_merged (\<lambda>p. sample_merge_reader) [sample_selected] sample_route (js ''h'') 5000
      (sample_budget, ()) = (Inr (res, conflicts), s')
    \<and> mg_providers res = [sample_selected] \<and> mg_winner res = sample_selected \<and> conflicts = []
    \<and> parse_narinfo (mg_text res) = Inr ((mg_record res)\<lparr>ni_raw := mg_text res\<rparr>)"
proof -
  obtain n s' where n: "publication_record sample_merge_reader sample_route 5000 sample_selected (sample_budget, ())
      = (Inr n, s')" using sample_merge_record by blast
  have "\<exists>res conflicts. resolve_merged (\<lambda>p. sample_merge_reader) [sample_selected] sample_route (js ''h'') 5000
      (sample_budget, ()) = (Inr (res, conflicts), s')"
    using n by (simp add: resolve_merged_def merge_records_def Let_def)
  then obtain res conflicts where r: "resolve_merged (\<lambda>p. sample_merge_reader) [sample_selected] sample_route (js ''h'') 5000
      (sample_budget, ()) = (Inr (res, conflicts), s')" by blast
  from merged_text_parses [OF r] obtain others where o: "mg_providers res = mg_winner res # map fst others"
      "subseq (mg_providers res) [sample_selected]"
      "conflicts = [] \<longleftrightarrow> (\<forall>(p, n) \<in> set others. differing_fields (mg_record res) n = [])"
      "parse_narinfo (mg_text res) = Inr ((mg_record res)\<lparr>ni_signatures := ni_signatures (mg_record res)
          @ (if conflicts = [] then concat (map (ni_signatures \<circ> snd) others) else []),
        ni_raw := mg_text res\<rparr>)"
    by blast
  from o(1,2) have "others = []" "mg_winner res = sample_selected"
    by (auto split: if_splits dest: list_emb_length)
  with o have c: "mg_providers res = [sample_selected]" "conflicts = []"
    "parse_narinfo (mg_text res) = Inr ((mg_record res)\<lparr>ni_raw := mg_text res\<rparr>)" by auto
  show ?thesis using r c \<open>mg_winner res = sample_selected\<close> by blast
qed

end
