(* ===== verification/Blob_Store.thy ===== *)
theory Blob_Store
  imports Tables
begin

section \<open>The blob store (persistence/blob_store.ts)\<close>

text \<open>
  \<^verbatim>\<open>src/persistence/blob_store.ts\<close> keeps blobs, named by their SHA-256, as files under one
  directory and their catalog, owners, reservations, tombstones and routes in SQLite. The
  directory is part of the state: the files under \<open>blobs\<close> (by prefix directory and name),
  under \<open>tmp\<close> and under \<open>quarantine\<close>. Outside the model are the SHA-256 and the texts that
  \<open>crypto.randomUUID\<close> gives, which are arguments; \<open>st_faults\<close> is what the coming removals of
  blob files do: each entry makes one removal throw an error other than \<open>NotFound\<close>, and
  without one a removal works. A clock reading is an argument of each operation.
\<close>

subsection \<open>The state\<close>

datatype blob_origin = O_write | O_remote | O_mixed

datatype blob_state = S_ready | S_deleting

record catalog_row =
  ca_hash :: jstr
  ca_size :: int
  ca_origin :: blob_origin
  ca_accessed :: int
  ca_state :: blob_state

record reservation_row =
  rv_token :: jstr
  rv_bytes :: int
  rv_created :: int

record tombstone_row =
  to_hash :: jstr
  to_retry_at :: int
  to_error :: jstr

record route_row =
  ro_route :: jstr
  ro_size :: int
  ro_count :: nat

record store =
  st_capacity :: int
  st_catalog :: "catalog_row list"
  st_owners :: "(jstr \<times> jstr) list"
  st_reservations :: "reservation_row list"
  st_tombstones :: "tombstone_row list"
  st_routes :: "route_row list"
  st_components :: "(jstr \<times> route_component) list"
  st_leases :: "(jstr, nat) jmap"
  st_closed :: bool
  st_files :: "(jstr \<times> jstr, bytes) jmap"
  st_tmp :: "(jstr, bytes) jmap"
  st_quarantined :: "(jstr, bytes) jmap"
  st_faults :: "jstr option list"

datatype blob_error = BE_hash | BE_reservation | BE_capacity | BE_exceeds | BE_mismatch
  | BE_size_changed | BE_identity_changed | BE_catalog_identity | BE_source | BE_temp | BE_not_found
  | BE_foreign_key | BE_unique | BE_limit | BE_route_conflict | BE_ownership | BE_closed
  | BE_leases_open | BE_lease_released | BE_options

type_synonym 'a store_op = "(store, blob_error, 'a) op"

subsection \<open>Reading the catalog\<close>

definition max_blob_capacity :: int where
  "max_blob_capacity = 16 * 1024 * 1024 * 1024"

text \<open>\<open>pathFor\<close>, without the root: the prefix directory and the name.\<close>

definition path_for :: "jstr \<Rightarrow> blob_error + jstr \<times> jstr" where
  "path_for h = (if is_hash h then Inr (take 2 h, h) else Inl BE_hash)"

definition is_ready :: "catalog_row \<Rightarrow> bool" where
  "is_ready r \<longleftrightarrow> ca_state r = S_ready"

definition catalog_of :: "jstr \<Rightarrow> store \<Rightarrow> catalog_row option" where
  "catalog_of h s = row ca_hash h (st_catalog s)"

definition ready_row :: "jstr \<Rightarrow> store \<Rightarrow> catalog_row option" where
  "ready_row h s = find (\<lambda>r. ca_hash r = h \<and> is_ready r) (st_catalog s)"

definition ready_bytes :: "store \<Rightarrow> int" where
  "ready_bytes s = sum_list (map ca_size (filter is_ready (st_catalog s)))"

definition reserved_bytes :: "store \<Rightarrow> int" where
  "reserved_bytes s = sum_list (map rv_bytes (st_reservations s))"

record blob_usage =
  bu_ready :: int
  bu_reserved :: int
  bu_capacity :: int

definition usage :: "store \<Rightarrow> blob_usage" where
  "usage s = \<lparr>bu_ready = ready_bytes s, bu_reserved = reserved_bytes s, bu_capacity = st_capacity s\<rparr>"

record blob_health =
  bh_ok :: bool
  bh_usage :: blob_usage
  bh_tombstones :: nat

definition store_health :: "store \<Rightarrow> blob_health" where
  "store_health s = \<lparr>bh_ok = (length (st_tombstones s) = 0), bh_usage = usage s,
     bh_tombstones = length (st_tombstones s)\<rparr>"

definition has_blob :: "jstr \<Rightarrow> store \<Rightarrow> blob_error + bool" where
  "has_blob h s = (if is_hash h then Inr (ready_row h s \<noteq> None) else Inl BE_hash)"

definition owned :: "jstr \<Rightarrow> store \<Rightarrow> bool" where
  "owned h s \<longleftrightarrow> list_ex (\<lambda>(o', x). x = h) (st_owners s)"

definition leased :: "jstr \<Rightarrow> store \<Rightarrow> bool" where
  "leased h s \<longleftrightarrow> map_of (st_leases s) h \<noteq> None"

record inventory_entry =
  ie_hash :: jstr
  ie_size :: int
  ie_origin :: blob_origin
  ie_accessed :: int
  ie_owners :: nat

text \<open>\<open>inventory\<close>: the ready rows by hash, at most \<open>limit\<close> of them.\<close>

definition inventory_rows :: "int \<Rightarrow> store \<Rightarrow> inventory_entry list" where
  "inventory_rows limit s = take (nat limit)
     (map (\<lambda>r. \<lparr>ie_hash = ca_hash r, ie_size = ca_size r, ie_origin = ca_origin r,
                ie_accessed = ca_accessed r,
                ie_owners = length (filter (\<lambda>(o', x). x = ca_hash r) (st_owners s))\<rparr>)
       (sort_key ca_hash (filter is_ready (st_catalog s))))"

definition inventory :: "int \<Rightarrow> store \<Rightarrow> blob_error + inventory_entry list" where
  "inventory limit s = (if \<not> safe_int limit \<or> limit < 0 then Inl BE_limit else Inr (inventory_rows limit s))"

definition default_inventory :: int where
  "default_inventory = 10000"

definition entry_of :: "jstr \<Rightarrow> store \<Rightarrow> inventory_entry option" where
  "entry_of h s = find (\<lambda>e. ie_hash e = h) (inventory_rows default_inventory s)"

definition route_components :: "jstr \<Rightarrow> store \<Rightarrow> route_component list" where
  "route_components route s =
     sort_key rc_index (map snd (filter (\<lambda>(r, c). r = route) (st_components s)))"

subsection \<open>Removing blobs\<close>

text \<open>
  \<open>DELETE FROM blob_store_catalog WHERE hash=?\<close>: the owners of the row go with it
  (\<open>ON DELETE CASCADE\<close>), a route component that references it makes the statement throw.
\<close>

definition delete_catalog :: "jstr \<Rightarrow> store \<Rightarrow> blob_error + store" where
  "delete_catalog h s =
     (if has_key ca_hash h (st_catalog s) \<and> list_ex (\<lambda>(r, c). rc_hash c = h) (st_components s)
      then Inl BE_foreign_key
      else Inr (s\<lparr>st_catalog := delete_where (\<lambda>r. ca_hash r = h) (st_catalog s),
                  st_owners := (if has_key ca_hash h (st_catalog s)
                    then delete_where (\<lambda>(o', x). x = h) (st_owners s) else st_owners s)\<rparr>))"

definition set_deleting :: "jstr \<Rightarrow> store \<Rightarrow> store" where
  "set_deleting h s = s\<lparr>st_catalog :=
     update_where (\<lambda>r. ca_hash r = h) (\<lambda>r. r\<lparr>ca_state := S_deleting\<rparr>) (st_catalog s)\<rparr>"

definition add_tombstone :: "int \<Rightarrow> jstr \<Rightarrow> jstr \<Rightarrow> store \<Rightarrow> store" where
  "add_tombstone now h text s = s\<lparr>st_tombstones :=
     insert_replace to_hash \<lparr>to_hash = h, to_retry_at = now, to_error = text\<rparr> (st_tombstones s)\<rparr>"

datatype removal = R_removed | R_missing | R_failed jstr

definition remove_file :: "jstr \<times> jstr \<Rightarrow> store \<Rightarrow> removal \<times> store" where
  "remove_file path s =
     (case st_faults s of Some text # fs \<Rightarrow> (R_failed text, s\<lparr>st_faults := fs\<rparr>)
      | fs \<Rightarrow> if map_of (st_files s) path = None then (R_missing, s\<lparr>st_faults := drop 1 fs\<rparr>)
              else (R_removed, s\<lparr>st_files := AList.delete path (st_files s), st_faults := drop 1 fs\<rparr>))"

definition foreign_key_text :: jstr where
  "foreign_key_text = js ''Error: FOREIGN KEY constraint failed''"

text \<open>\<open>#delete\<close>. An invalid hash throws inside the \<open>try\<close>; every hash of the catalog is valid.\<close>

definition delete_blob :: "int \<Rightarrow> jstr \<Rightarrow> unit store_op" where
  "delete_blob now h s =
     (let s1 = set_deleting h s in
      case path_for h of
        Inl e \<Rightarrow> (Inr (), add_tombstone now h (js ''TypeError: invalid lowercase SHA-256 hash'') s1)
      | Inr path \<Rightarrow>
          (case remove_file path s1 of
             (R_removed, s2) \<Rightarrow>
               (case delete_catalog h s2 of
                  Inl e \<Rightarrow> (Inr (), add_tombstone now h foreign_key_text s2)
                | Inr s3 \<Rightarrow> (Inr (), s3\<lparr>st_tombstones :=
                    delete_where (\<lambda>t. to_hash t = h) (st_tombstones s3)\<rparr>))
           | (R_missing, s2) \<Rightarrow>
               (case delete_catalog h s2 of Inl e \<Rightarrow> (Inl e, s2) | Inr s3 \<Rightarrow> (Inr (), s3))
           | (R_failed text, s2) \<Rightarrow> (Inr (), add_tombstone now h text s2)))"

text \<open>\<open>#deleteIfUnownedWrite\<close> and \<open>#sweepWrites\<close>.\<close>

definition delete_if_unowned_write :: "int \<Rightarrow> jstr \<Rightarrow> unit store_op" where
  "delete_if_unowned_write now h s =
     (if leased h s then (Inr (), s)
      else (case catalog_of h s of
        None \<Rightarrow> (Inr (), s)
      | Some r \<Rightarrow> if \<not> owned h s \<and> ca_origin r = O_write then delete_blob now h s else (Inr (), s)))"

fun for_each :: "('a \<Rightarrow> unit store_op) \<Rightarrow> 'a list \<Rightarrow> unit store_op" where
  "for_each f [] s = (Inr (), s)"
| "for_each f (x # xs) s = (case f x s of (Inl e, s') \<Rightarrow> (Inl e, s') | (Inr u, s') \<Rightarrow> for_each f xs s')"

definition sweep_writes :: "int \<Rightarrow> unit store_op" where
  "sweep_writes now s =
     for_each (delete_if_unowned_write now) (map ie_hash (inventory_rows default_inventory s)) s"

text \<open>\<open>#makeSpace\<close>: unowned blobs that were fetched, the least recently used first.\<close>

definition has_room :: "int \<Rightarrow> store \<Rightarrow> bool" where
  "has_room required s \<longleftrightarrow> ready_bytes s + reserved_bytes s + required \<le> st_capacity s"

definition eviction_candidates :: "store \<Rightarrow> jstr list" where
  "eviction_candidates s = map ca_hash (sort_key ca_accessed (sort_key ca_hash
     (filter (\<lambda>r. is_ready r \<and> ca_origin r \<in> {O_remote, O_mixed} \<and> \<not> owned (ca_hash r) s)
        (st_catalog s))))"

fun evict :: "int \<Rightarrow> int \<Rightarrow> jstr list \<Rightarrow> unit store_op" where
  "evict now required [] s = (Inr (), s)"
| "evict now required (h # hs) s =
     (if leased h s then evict now required hs s
      else (case delete_blob now h s of
          (Inl e, s') \<Rightarrow> (Inl e, s')
        | (Inr u, s') \<Rightarrow> if has_room required s' then (Inr (), s') else evict now required hs s'))"

definition make_space :: "int \<Rightarrow> int \<Rightarrow> unit store_op" where
  "make_space now required s =
     (if has_room required s then (Inr (), s) else evict now required (eviction_candidates s) s)"

subsection \<open>Reservations\<close>

text \<open>
  \<open>ROLLBACK\<close> restores the tables; the files, the removals that already failed and the leases
  are not part of the database.
\<close>

definition rollback :: "store \<Rightarrow> store \<Rightarrow> store" where
  "rollback s s' = s\<lparr>st_files := st_files s', st_tmp := st_tmp s', st_quarantined := st_quarantined s',
     st_faults := st_faults s'\<rparr>"

record reservation =
  re_token :: jstr
  re_bytes :: int

definition reserve :: "int \<Rightarrow> jstr \<Rightarrow> int \<Rightarrow> reservation store_op" where
  "reserve now token n s =
     (if st_closed s then (Inl BE_closed, s)
      else if \<not> safe_int n \<or> n < 0 \<or> n > st_capacity s then (Inl BE_reservation, s)
      else (case make_space now n s of
          (Inl e, s') \<Rightarrow> (Inl e, rollback s s')
        | (Inr u, s') \<Rightarrow>
            if \<not> has_room n s' then (Inl BE_capacity, rollback s s')
            else (case insert_row rv_token \<lparr>rv_token = token, rv_bytes = n, rv_created = now\<rparr>
                         (st_reservations s') of
                None \<Rightarrow> (Inl BE_unique, rollback s s')
              | Some rs \<Rightarrow> (Inr \<lparr>re_token = token, re_bytes = n\<rparr>, s'\<lparr>st_reservations := rs\<rparr>))))"

definition release_reservation :: "jstr \<Rightarrow> store \<Rightarrow> store" where
  "release_reservation token s =
     (if st_closed s then s
      else s\<lparr>st_reservations := delete_where (\<lambda>r. rv_token r = token) (st_reservations s)\<rparr>)"

subsection \<open>Admission\<close>

record admission =
  ad_origin :: blob_origin
  ad_owner :: "jstr option"
  ad_expected :: "jstr option"

text \<open>An optional text that is absent or empty is false.\<close>

definition given :: "jstr option \<Rightarrow> jstr option" where
  "given x = (case x of Some [] \<Rightarrow> None | _ \<Rightarrow> x)"

definition add_owner :: "jstr \<Rightarrow> jstr \<Rightarrow> store \<Rightarrow> store" where
  "add_owner owner h s = s\<lparr>st_owners := insert_ignore (\<lambda>x. x) (owner, h) (st_owners s)\<rparr>"

definition upsert_blob :: "int \<Rightarrow> jstr \<Rightarrow> int \<Rightarrow> blob_origin \<Rightarrow> store \<Rightarrow> store" where
  "upsert_blob now h n origin s = s\<lparr>st_catalog :=
     (if has_key ca_hash h (st_catalog s)
      then update_where (\<lambda>r. ca_hash r = h)
             (\<lambda>r. r\<lparr>ca_origin := origin, ca_accessed := now, ca_state := S_ready\<rparr>) (st_catalog s)
      else st_catalog s @ [\<lparr>ca_hash = h, ca_size = n, ca_origin = origin, ca_accessed = now,
                            ca_state = S_ready\<rparr>])\<rparr>"

text \<open>\<open>linkSync\<close>: an existing file is kept.\<close>

definition link_temp :: "jstr \<Rightarrow> jstr \<times> jstr \<Rightarrow> store \<Rightarrow> store option" where
  "link_temp temp path s =
     (case map_of (st_tmp s) temp of None \<Rightarrow> None
      | Some bs \<Rightarrow> Some (if map_of (st_files s) path = None
          then s\<lparr>st_files := AList.update path bs (st_files s)\<rparr> else s))"

definition promote ::
  "int \<Rightarrow> jstr \<Rightarrow> jstr \<Rightarrow> int \<Rightarrow> blob_origin \<Rightarrow> jstr option \<Rightarrow> reservation \<Rightarrow> inventory_entry option store_op"
where
  "promote now temp h n origin owner r s =
     (case path_for h of Inl e \<Rightarrow> (Inl e, s)
      | Inr path \<Rightarrow>
        (case link_temp temp path s of None \<Rightarrow> (Inl BE_temp, s)
         | Some s1 \<Rightarrow>
           (let existing = catalog_of h s1;
                merged = (case existing of Some c \<Rightarrow> if ca_origin c \<noteq> origin then O_mixed else origin
                          | None \<Rightarrow> origin) in
            if (case existing of Some c \<Rightarrow> ca_size c \<noteq> n | None \<Rightarrow> False)
            then (Inl BE_catalog_identity, s1)
            else
              (let s2 = upsert_blob now h n merged s1;
                   s3 = (case given owner of None \<Rightarrow> s2 | Some own \<Rightarrow> add_owner own h s2);
                   s4 = s3\<lparr>st_reservations :=
                          delete_where (\<lambda>x. rv_token x = re_token r) (st_reservations s3),
                        st_tmp := AList.delete temp (st_tmp s3)\<rparr> in
               (Inr (entry_of h s4), s4)))))"

text \<open>
  The source of an admission: its pieces, and whether reading it fails after them. What was
  written is in the temporary file when reading stops.
\<close>

record blob_source =
  bs_pieces :: "bytes list"
  bs_fails :: bool

fun read_pieces :: "int \<Rightarrow> bool \<Rightarrow> bytes list \<Rightarrow> bytes \<Rightarrow> (blob_error option) \<times> bytes" where
  "read_pieces limit fails [] acc = (if fails then Some BE_source else None, acc)"
| "read_pieces limit fails (p # ps) acc =
     (if int (length acc + length p) > limit then (Some BE_exceeds, acc)
      else read_pieces limit fails ps (acc @ p))"

definition admit_temp :: "reservation \<Rightarrow> jstr" where
  "admit_temp r = js ''admit-'' @ re_token r"

text \<open>
  \<open>admit\<close> awaits the source between its reservation and its promotion: \<open>reserve\<close> is its first
  step and \<open>admit_finish\<close>, from the last piece on, its second. The \<open>finally\<close> block removes
  the temporary file and releases the reservation whatever happened.
\<close>

definition admit_finally :: "reservation \<Rightarrow> store \<Rightarrow> store" where
  "admit_finally r s = release_reservation (re_token r)
     (s\<lparr>st_tmp := AList.delete (admit_temp r) (st_tmp s)\<rparr>)"

definition admit_body ::
  "(bytes \<Rightarrow> bytes) \<Rightarrow> int \<Rightarrow> blob_source \<Rightarrow> admission \<Rightarrow> reservation \<Rightarrow> inventory_entry option store_op" where
  "admit_body sha now source opts r s =
     (if map_of (st_tmp s) (admit_temp r) \<noteq> None then (Inl BE_temp, s)
      else (case read_pieces (re_bytes r) (bs_fails source) (bs_pieces source) [] of
        (failure, content) \<Rightarrow>
          (let s1 = s\<lparr>st_tmp := AList.update (admit_temp r) content (st_tmp s)\<rparr>;
               h = to_hex (sha content) in
           case failure of Some e \<Rightarrow> (Inl e, s1)
           | None \<Rightarrow>
               if (case given (ad_expected opts) of None \<Rightarrow> False | Some x \<Rightarrow> x \<noteq> h)
               then (Inl BE_mismatch, s1)
               else promote now (admit_temp r) h (int (length content)) (ad_origin opts)
                      (ad_owner opts) r s1)))"

definition admit_finish ::
  "(bytes \<Rightarrow> bytes) \<Rightarrow> int \<Rightarrow> blob_source \<Rightarrow> admission \<Rightarrow> reservation \<Rightarrow> inventory_entry option store_op" where
  "admit_finish sha now source opts r s =
     (case admit_body sha now source opts r s of (result, s') \<Rightarrow> (result, admit_finally r s'))"

text \<open>
  \<open>admitVerifiedFile\<close> reads a file once to check it and then copies it: \<open>checked\<close> is what the
  reading gave and \<open>copied\<close> what the copy finds.
\<close>

definition import_temp :: "reservation \<Rightarrow> jstr" where
  "import_temp r = js ''import-'' @ re_token r"

definition import_begin :: "int \<Rightarrow> jstr \<Rightarrow> jstr \<Rightarrow> int \<Rightarrow> reservation store_op" where
  "import_begin now token expected n s =
     (if \<not> is_hash expected then (Inl BE_hash, s) else reserve now token n s)"

fun read_verified :: "int \<Rightarrow> bool \<Rightarrow> bytes list \<Rightarrow> bytes \<Rightarrow> blob_error + bytes" where
  "read_verified limit fails [] acc = (if fails then Inl BE_source else Inr acc)"
| "read_verified limit fails (p # ps) acc =
     (if int (length acc + length p) > limit then Inl BE_size_changed
      else read_verified limit fails ps (acc @ p))"

definition import_body ::
  "(bytes \<Rightarrow> bytes) \<Rightarrow> int \<Rightarrow> blob_source \<Rightarrow> bytes \<Rightarrow> jstr \<Rightarrow> int \<Rightarrow> blob_origin \<Rightarrow> jstr option
   \<Rightarrow> reservation \<Rightarrow> inventory_entry option store_op" where
  "import_body sha now checked copied expected n origin owner r s =
     (case read_verified n (bs_fails checked) (bs_pieces checked) [] of
        Inl e \<Rightarrow> (Inl e, s)
      | Inr content \<Rightarrow>
          if int (length content) \<noteq> n \<or> to_hex (sha content) \<noteq> expected
          then (Inl BE_identity_changed, s)
          else promote now (import_temp r) expected n origin owner r
                 (s\<lparr>st_tmp := AList.update (import_temp r) copied (st_tmp s)\<rparr>))"

definition import_finish ::
  "(bytes \<Rightarrow> bytes) \<Rightarrow> int \<Rightarrow> blob_source \<Rightarrow> bytes \<Rightarrow> jstr \<Rightarrow> int \<Rightarrow> blob_origin \<Rightarrow> jstr option
   \<Rightarrow> reservation \<Rightarrow> inventory_entry option store_op" where
  "import_finish sha now checked copied expected n origin owner r s =
     (case import_body sha now checked copied expected n origin owner r s of
        (result, s') \<Rightarrow> (result, release_reservation (re_token r) s'))"

subsection \<open>Leases\<close>

record lease =
  le_hash :: jstr
  le_size :: int
  le_path :: "jstr \<times> jstr"

definition lookup :: "int \<Rightarrow> jstr \<Rightarrow> lease option store_op" where
  "lookup now h s =
     (case path_for h of Inl e \<Rightarrow> (Inl e, s)
      | Inr path \<Rightarrow>
        (case ready_row h s of None \<Rightarrow> (Inr None, s)
         | Some r \<Rightarrow>
           if map_of (st_files s) path = None then (Inr None, s)
           else (Inr (Some \<lparr>le_hash = h, le_size = ca_size r, le_path = path\<rparr>),
                 s\<lparr>st_leases := AList.update h
                       (1 + (case map_of (st_leases s) h of None \<Rightarrow> 0 | Some n \<Rightarrow> n)) (st_leases s),
                   st_catalog := update_where (\<lambda>r. ca_hash r = h)
                       (\<lambda>r. r\<lparr>ca_accessed := now\<rparr>) (st_catalog s)\<rparr>)))"

definition release_lease :: "int \<Rightarrow> jstr \<Rightarrow> unit store_op" where
  "release_lease now h s =
     (let n = (case map_of (st_leases s) h of None \<Rightarrow> 1 | Some m \<Rightarrow> m) - 1 in
      delete_if_unowned_write now h
        (s\<lparr>st_leases := (if n > 0 then AList.update h n (st_leases s) else AList.delete h (st_leases s))\<rparr>))"

text \<open>A \<open>BlobLease\<close> and a \<open>BlobReservation\<close>: without a store once released.\<close>

datatype 'a handle = Live 'a | Released

definition lease_open :: "lease handle \<Rightarrow> store \<Rightarrow> blob_error + bytes" where
  "lease_open l s =
     (case l of Released \<Rightarrow> Inl BE_lease_released
      | Live x \<Rightarrow> (case map_of (st_files s) (le_path x) of None \<Rightarrow> Inl BE_not_found | Some bs \<Rightarrow> Inr bs))"

definition lease_release :: "int \<Rightarrow> lease handle \<Rightarrow> store \<Rightarrow> (blob_error + unit) \<times> lease handle \<times> store" where
  "lease_release now l s =
     (case l of Released \<Rightarrow> (Inr (), Released, s)
      | Live x \<Rightarrow> (case release_lease now (le_hash x) s of
          (Inl e, s') \<Rightarrow> (Inl e, l, s') | (Inr u, s') \<Rightarrow> (Inr (), Released, s')))"

definition reservation_release :: "reservation handle \<Rightarrow> store \<Rightarrow> reservation handle \<times> store" where
  "reservation_release r s =
     (case r of Released \<Rightarrow> (Released, s)
      | Live x \<Rightarrow> (Released, release_reservation (re_token x) s))"

subsection \<open>Owners\<close>

definition acquire_owner :: "jstr \<Rightarrow> jstr \<Rightarrow> unit store_op" where
  "acquire_owner owner h s =
     (if \<not> is_hash h then (Inl BE_hash, s)
      else if ready_row h s = None then (Inl BE_not_found, s)
      else (Inr (), add_owner owner h s))"

fun transfer_hashes :: "jstr \<Rightarrow> jstr \<Rightarrow> jstr list \<Rightarrow> (jstr \<times> jstr) list \<Rightarrow> blob_error + (jstr \<times> jstr) list"
where
  "transfer_hashes source target [] t = Inr t"
| "transfer_hashes source target (h # hs) t =
     (if \<not> is_hash h then Inl BE_hash
      else transfer_hashes source target hs
        (delete_where (\<lambda>x. x = (source, h))
          (if (source, h) \<in> set t then insert_ignore (\<lambda>x. x) (target, h) t else t)))"

definition transfer_all :: "jstr \<Rightarrow> jstr \<Rightarrow> (jstr \<times> jstr) list \<Rightarrow> (jstr \<times> jstr) list" where
  "transfer_all source target t =
     delete_where (\<lambda>x. fst x = source)
       (insert_rows_ignore (\<lambda>x. x)
          (map (\<lambda>x. (target, snd x)) (filter (\<lambda>x. fst x = source) t)) t)"

definition transfer_owner :: "int \<Rightarrow> jstr \<Rightarrow> jstr \<Rightarrow> jstr list option \<Rightarrow> unit store_op" where
  "transfer_owner now source target hashes s =
     (case (case hashes of None \<Rightarrow> Inr (transfer_all source target (st_owners s))
            | Some hs \<Rightarrow> transfer_hashes source target hs (st_owners s)) of
        Inl e \<Rightarrow> (Inl e, s)
      | Inr t \<Rightarrow> sweep_writes now (s\<lparr>st_owners := t\<rparr>))"

definition release_owner :: "int \<Rightarrow> jstr \<Rightarrow> jstr option \<Rightarrow> unit store_op" where
  "release_owner now owner hash s =
     (case given hash of
        Some h \<Rightarrow>
          if \<not> is_hash h then (Inl BE_hash, s)
          else delete_if_unowned_write now h
                 (s\<lparr>st_owners := delete_where (\<lambda>x. x = (owner, h)) (st_owners s)\<rparr>)
      | None \<Rightarrow>
          for_each (delete_if_unowned_write now)
            (map snd (filter (\<lambda>x. fst x = owner) (st_owners s)))
            (s\<lparr>st_owners := delete_where (\<lambda>x. fst x = owner) (st_owners s)\<rparr>))"

subsection \<open>Routes\<close>

definition route_owner :: "jstr \<Rightarrow> jstr" where
  "route_owner route = js ''route:'' @ route"

definition component_key :: "jstr \<times> route_component \<Rightarrow> jstr \<times> int" where
  "component_key x = (fst x, rc_index (snd x))"

fun commit_components :: "jstr \<Rightarrow> jstr \<Rightarrow> route_component list \<Rightarrow> store \<Rightarrow> blob_error + store" where
  "commit_components route upload [] s = Inr s"
| "commit_components route upload (c # cs) s =
     (if \<not> is_hash (rc_hash c) then Inl BE_hash
      else if (upload, rc_hash c) \<notin> set (st_owners s) then Inl BE_ownership
      else (case insert_row component_key (route, c) (st_components s) of
          None \<Rightarrow> Inl BE_unique
        | Some t \<Rightarrow> commit_components route upload cs
            (add_owner (route_owner route) (rc_hash c) (s\<lparr>st_components := t\<rparr>))))"

definition commit_route :: "int \<Rightarrow> jstr \<Rightarrow> int \<Rightarrow> route_component list \<Rightarrow> jstr \<Rightarrow> unit store_op" where
  "commit_route now route n cs upload s =
     (if st_closed s then (Inl BE_closed, s)
      else
       (let existing = route_components route s in
        if existing \<noteq> [] then
          (if length existing \<noteq> length cs
              \<or> \<not> list_all2 (\<lambda>a b. rc_hash a = rc_hash b \<and> rc_size a = rc_size b) existing cs
           then (Inl BE_route_conflict, s)
           else release_owner now upload None s)
        else (case commit_components route upload cs s of
            Inl e \<Rightarrow> (Inl e, s)
          | Inr s1 \<Rightarrow>
             (case insert_row ro_route \<lparr>ro_route = route, ro_size = n, ro_count = length cs\<rparr> (st_routes s1) of
                None \<Rightarrow> (Inl BE_unique, s)
              | Some t \<Rightarrow> (Inr (), s1\<lparr>st_routes := t,
                  st_owners := delete_where (\<lambda>x. fst x = upload) (st_owners s1)\<rparr>)))))"

subsection \<open>Reconciling the catalog with the directory at startup\<close>

text \<open>\<open>#quarantine\<close> and \<open>#quarantinePath\<close>; \<open>uuid path\<close> is the identifier drawn for a file.\<close>

definition move_away :: "jstr \<times> jstr \<Rightarrow> jstr \<Rightarrow> store \<Rightarrow> store" where
  "move_away path name s =
     (case map_of (st_files s) path of None \<Rightarrow> s
      | Some bs \<Rightarrow> s\<lparr>st_files := AList.delete path (st_files s),
                     st_quarantined := AList.update name bs (st_quarantined s)\<rparr>)"

definition quarantine_path :: "(jstr \<times> jstr \<Rightarrow> jstr) \<Rightarrow> jstr \<times> jstr \<Rightarrow> store \<Rightarrow> store" where
  "quarantine_path uuid path s = move_away path (js ''orphan-'' @ uuid path) s"

definition quarantine_blob :: "int \<Rightarrow> jstr \<Rightarrow> unit store_op" where
  "quarantine_blob now h s =
     (let s1 = (case path_for h of Inl e \<Rightarrow> s
          | Inr path \<Rightarrow> move_away path (h @ js ''-'' @ dec_digits (nat now)) s) in
      case delete_catalog h s1 of Inl e \<Rightarrow> (Inl e, s1) | Inr s2 \<Rightarrow> (Inr (), s2))"

definition reconcile_row :: "int \<Rightarrow> catalog_row \<Rightarrow> unit store_op" where
  "reconcile_row now r s =
     (case path_for (ca_hash r) of Inl e \<Rightarrow> (Inl e, s)
      | Inr path \<Rightarrow>
        (case map_of (st_files s) path of
           None \<Rightarrow> (case delete_catalog (ca_hash r) s of Inl e \<Rightarrow> (Inl e, s) | Inr s' \<Rightarrow> (Inr (), s'))
         | Some bs \<Rightarrow>
             if int (length bs) \<noteq> ca_size r then quarantine_blob now (ca_hash r) s
             else if ca_state r = S_deleting then delete_blob now (ca_hash r) s
             else (Inr (), s)))"

text \<open>\<open>#hashFileSync\<close>.\<close>

definition hash_file :: "(bytes \<Rightarrow> bytes) \<Rightarrow> bytes \<Rightarrow> jstr \<times> int" where
  "hash_file sha bs = (to_hex (sha bs), int (length bs))"

definition hex_prefix :: "jstr \<Rightarrow> bool" where
  "hex_prefix p \<longleftrightarrow> length p = 2 \<and> list_all is_lower_hex p"

definition reconcile_file ::
  "(bytes \<Rightarrow> bytes) \<Rightarrow> (jstr \<times> jstr \<Rightarrow> jstr) \<Rightarrow> int \<Rightarrow> jstr \<times> jstr \<Rightarrow> unit store_op" where
  "reconcile_file sha uuid now path s =
     (let (prefix, name) = path in
      if \<not> is_hash name \<or> take 2 name \<noteq> prefix then (Inr (), quarantine_path uuid path s)
      else if ready_row name s \<noteq> None then (Inr (), s)
      else (case map_of (st_files s) path of None \<Rightarrow> (Inl BE_not_found, s)
        | Some bs \<Rightarrow>
           (let (h, n) = hash_file sha bs in
            if h \<noteq> name then (Inr (), quarantine_path uuid path s)
            else (case insert_row ca_hash \<lparr>ca_hash = h, ca_size = n, ca_origin = O_remote,
                         ca_accessed = now, ca_state = S_ready\<rparr> (st_catalog s) of
                None \<Rightarrow> (Inl BE_unique, s)
              | Some t \<Rightarrow> (Inr (), s\<lparr>st_catalog := t\<rparr>)))))"

definition directory_listing :: "store \<Rightarrow> (jstr \<times> jstr) list" where
  "directory_listing s =
     concat (map (\<lambda>p. filter (\<lambda>path. fst path = p) (map fst (st_files s)))
       (filter hex_prefix (uniq (map (fst \<circ> fst) (st_files s)))))"

definition reconcile ::
  "(bytes \<Rightarrow> bytes) \<Rightarrow> (jstr \<times> jstr \<Rightarrow> jstr) \<Rightarrow> int \<Rightarrow> unit store_op" where
  "reconcile sha uuid now s =
     (let s0 = s\<lparr>st_reservations := [], st_tmp := []\<rparr> in
      case for_each (reconcile_row now) (st_catalog s0) s0 of (Inl e, s1) \<Rightarrow> (Inl e, s1)
      | (Inr u, s1) \<Rightarrow>
        (case for_each (delete_blob now) (map to_hash (sort_key to_hash (st_tombstones s1))) s1 of
           (Inl e, s2) \<Rightarrow> (Inl e, s2)
         | (Inr u, s2) \<Rightarrow> for_each (reconcile_file sha uuid now) (directory_listing s2) s2))"

text \<open>The constructor over the tables and files of an earlier run.\<close>

definition open_store ::
  "(bytes \<Rightarrow> bytes) \<Rightarrow> (jstr \<times> jstr \<Rightarrow> jstr) \<Rightarrow> int \<Rightarrow> int option \<Rightarrow> store \<Rightarrow> blob_error + store" where
  "open_store sha uuid now capacity disk =
     (let c = (case capacity of None \<Rightarrow> max_blob_capacity | Some c \<Rightarrow> c) in
      if \<not> safe_int c \<or> c \<le> 0 then Inl BE_options
      else (case reconcile sha uuid now
              (disk\<lparr>st_capacity := c, st_leases := [], st_closed := False\<rparr>) of
          (Inl e, s) \<Rightarrow> Inl e | (Inr u, s) \<Rightarrow> Inr s))"

definition close_store :: "unit store_op" where
  "close_store s =
     (if st_closed s then (Inr (), s)
      else if st_leases s \<noteq> [] then (Inl BE_leases_open, s)
      else (Inr (), s\<lparr>st_closed := True\<rparr>))"

end
