(* ===== verification/Blob_Proofs.thy ===== *)
theory Blob_Proofs
  imports Blob_Store
begin

section \<open>What the blob store keeps\<close>

text \<open>
  The calls on a \<open>BlobStore\<close> of \<^verbatim>\<open>src/persistence/blob_store.ts\<close> as a step relation over the
  store and the reservations and leases that callers hold, its invariant, and what follows:
  the capacity is never exceeded, leased blobs can be read with the content their name
  promises, owned and leased blobs are never evicted; then what startup makes of the store.
\<close>

subsection \<open>The invariant\<close>

definition tables_ok :: "store \<Rightarrow> bool" where
  "tables_ok s \<longleftrightarrow> pk ca_hash (st_catalog s) \<and> pk rv_token (st_reservations s)
     \<and> (\<forall>r \<in> set (st_catalog s). 0 \<le> ca_size r \<and> is_hash (ca_hash r))
     \<and> (\<forall>r \<in> set (st_reservations s). 0 \<le> rv_bytes r)
     \<and> (\<forall>x \<in> set (st_owners s). catalog_of (snd x) s \<noteq> None)
     \<and> (\<forall>x \<in> set (st_components s). catalog_of (rc_hash (snd x)) s \<noteq> None)"

definition within_capacity :: "store \<Rightarrow> bool" where
  "within_capacity s \<longleftrightarrow> ready_bytes s + reserved_bytes s \<le> st_capacity s"

definition file_of :: "jstr \<Rightarrow> store \<Rightarrow> bytes option" where
  "file_of h s = map_of (st_files s) (take 2 h, h)"

definition content_ok :: "(bytes \<Rightarrow> bytes) \<Rightarrow> store \<Rightarrow> bool" where
  "content_ok sha s \<longleftrightarrow> (\<forall>h bs. file_of h s = Some bs \<longrightarrow> to_hex (sha bs) = h)"

definition protected :: "jstr \<Rightarrow> store \<Rightarrow> bool" where
  "protected h s \<longleftrightarrow> owned h s \<or> leased h s"

text \<open>
  What removing unprotected blobs may do, whether or not the tables are rolled back later.
\<close>

definition shrinks :: "store \<Rightarrow> store \<Rightarrow> bool" where
  "shrinks s s' \<longleftrightarrow>
     st_capacity s' = st_capacity s \<and> st_owners s' = st_owners s
     \<and> st_reservations s' = st_reservations s \<and> st_components s' = st_components s
     \<and> st_routes s' = st_routes s \<and> st_leases s' = st_leases s \<and> st_closed s' = st_closed s
     \<and> st_tmp s' = st_tmp s
     \<and> (\<forall>r' \<in> set (st_catalog s'). \<exists>r \<in> set (st_catalog s). ca_hash r' = ca_hash r \<and> ca_size r' = ca_size r)
     \<and> pk ca_hash (st_catalog s')
     \<and> ready_bytes s' \<le> ready_bytes s
     \<and> (\<forall>h. protected h s \<longrightarrow> catalog_of h s' = catalog_of h s \<and> file_of h s' = file_of h s)
     \<and> (\<forall>h. file_of h s' = file_of h s \<or> file_of h s' = None)
     \<and> (\<forall>x \<in> set (st_components s). catalog_of (rc_hash (snd x)) s' \<noteq> None)"

lemma shrinks_refl: "tables_ok s \<Longrightarrow> shrinks s s"
  by (auto simp: shrinks_def tables_ok_def)

lemma owned_iff: "owned h s \<longleftrightarrow> h \<in> snd ` set (st_owners s)"
  by (force simp: owned_def list_ex_iff)

lemma protected_cong:
  "st_owners s' = st_owners s \<Longrightarrow> st_leases s' = st_leases s \<Longrightarrow> protected h s' = protected h s"
  by (simp add: protected_def owned_def leased_def)

lemma shrinks_protected: "shrinks s s' \<Longrightarrow> protected h s' = protected h s"
  by (rule protected_cong) (simp_all add: shrinks_def)

lemma shrinks_fields:
  assumes "shrinks s s'"
  shows "st_capacity s' = st_capacity s" "st_owners s' = st_owners s"
    "st_reservations s' = st_reservations s" "st_components s' = st_components s"
    "st_routes s' = st_routes s" "st_leases s' = st_leases s" "st_closed s' = st_closed s"
    "st_tmp s' = st_tmp s" "pk ca_hash (st_catalog s')" "ready_bytes s' \<le> ready_bytes s"
  using assms by (simp_all add: shrinks_def)

lemma shrinks_rows:
  "shrinks s s' \<Longrightarrow> r' \<in> set (st_catalog s') \<Longrightarrow>
    \<exists>r \<in> set (st_catalog s). ca_hash r' = ca_hash r \<and> ca_size r' = ca_size r"
  by (simp add: shrinks_def)

lemma shrinks_same:
  "shrinks s s' \<Longrightarrow> protected h s \<Longrightarrow> catalog_of h s' = catalog_of h s \<and> file_of h s' = file_of h s"
  by (simp add: shrinks_def)

lemma shrinks_files: "shrinks s s' \<Longrightarrow> file_of h s' = file_of h s \<or> file_of h s' = None"
  by (simp add: shrinks_def)

lemma shrinks_components:
  "shrinks s s' \<Longrightarrow> x \<in> set (st_components s) \<Longrightarrow> catalog_of (rc_hash (snd x)) s' \<noteq> None"
  by (simp add: shrinks_def)

lemma shrinks_trans:
  assumes ab: "shrinks a b" and bc: "shrinks b c"
  shows "shrinks a c"
proof -
  have rows: "\<exists>r \<in> set (st_catalog a). ca_hash r' = ca_hash r \<and> ca_size r' = ca_size r"
    if r: "r' \<in> set (st_catalog c)" for r'
  proof -
    obtain q where q: "q \<in> set (st_catalog b)" "ca_hash r' = ca_hash q" "ca_size r' = ca_size q"
      using shrinks_rows [OF bc r] by blast
    then show ?thesis using shrinks_rows [OF ab q(1)] by simp
  qed
  have same: "catalog_of h c = catalog_of h a \<and> file_of h c = file_of h a" if h: "protected h a" for h
    using shrinks_same [OF ab h] shrinks_same [OF bc, of h] h shrinks_protected [OF ab] by simp
  have files: "file_of h c = file_of h a \<or> file_of h c = None" for h
    using shrinks_files [OF ab, of h] shrinks_files [OF bc, of h] by auto
  have comps: "catalog_of (rc_hash (snd x)) c \<noteq> None" if "x \<in> set (st_components a)" for x
    using that shrinks_components [OF bc] shrinks_fields [OF ab] by simp
  have bytes: "ready_bytes c \<le> ready_bytes a"
    using shrinks_fields(10) [OF ab] shrinks_fields(10) [OF bc] by linarith
  show ?thesis unfolding shrinks_def
    using rows same files comps bytes
    by (simp add: shrinks_fields(1-8) [OF ab] shrinks_fields(1-9) [OF bc])
qed

lemma has_key_catalog: "has_key ca_hash h (st_catalog s) \<longleftrightarrow> catalog_of h s \<noteq> None"
  by (simp add: catalog_of_def has_key_row)

lemma tables_shrink:
  assumes "tables_ok s" "shrinks s s'"
  shows "tables_ok s'"
proof -
  have "catalog_of (snd x) s' \<noteq> None" if x: "x \<in> set (st_owners s)" for x
  proof -
    have "protected (snd x) s" using x by (auto simp: protected_def owned_iff)
    then show ?thesis using shrinks_same [OF assms(2)] x assms(1) by (simp add: tables_ok_def)
  qed
  moreover have "0 \<le> ca_size r \<and> is_hash (ca_hash r)" if r: "r \<in> set (st_catalog s')" for r
    using shrinks_rows [OF assms(2) r] assms(1) by (auto simp: tables_ok_def)
  ultimately show ?thesis using assms(1) shrinks_components [OF assms(2)]
    by (simp add: tables_ok_def shrinks_fields [OF assms(2)])
qed

lemma capacity_shrink: "within_capacity s \<Longrightarrow> shrinks s s' \<Longrightarrow> within_capacity s'"
  by (auto simp: within_capacity_def shrinks_def reserved_bytes_def)

lemma content_shrink: "content_ok sha s \<Longrightarrow> shrinks s s' \<Longrightarrow> content_ok sha s'"
  unfolding content_ok_def shrinks_def by (metis option.distinct(1))

subsection \<open>Removing one blob\<close>

lemma ready_bytes_filter_le:
  assumes "\<forall>r \<in> set t. 0 \<le> ca_size r"
  shows "sum_list (map ca_size (filter is_ready (filter P t))) \<le> sum_list (map ca_size (filter is_ready t))"
  using assms by (induction t) auto

lemma ready_bytes_deleting_le:
  assumes "\<forall>r \<in> set t. 0 \<le> ca_size r"
  shows "sum_list (map ca_size (filter is_ready
      (map (\<lambda>r. if ca_hash r = h then r\<lparr>ca_state := S_deleting\<rparr> else r) t)))
    \<le> sum_list (map ca_size (filter is_ready t))"
  using assms by (induction t) (auto simp: is_ready_def)

lemma catalog_of_deleting:
  "catalog_of k (set_deleting h s) =
    (if k = h then map_option (\<lambda>r. r\<lparr>ca_state := S_deleting\<rparr>) (catalog_of k s) else catalog_of k s)"
  by (simp add: catalog_of_def set_deleting_def row_update_where)

lemma file_of_deleting: "file_of k (set_deleting h s) = file_of k s"
  by (simp add: file_of_def set_deleting_def)

lemma shrinks_deleting:
  assumes "tables_ok s" "\<not> protected h s"
  shows "shrinks s (set_deleting h s)"
proof -
  have "pk ca_hash (st_catalog (set_deleting h s))"
    using assms by (auto simp: set_deleting_def tables_ok_def intro: pk_update_where)
  moreover have "ready_bytes (set_deleting h s) \<le> ready_bytes s"
    using assms ready_bytes_deleting_le
    by (auto simp: ready_bytes_def set_deleting_def update_where_def tables_ok_def)
  moreover have "\<forall>r' \<in> set (st_catalog (set_deleting h s)). \<exists>r \<in> set (st_catalog s).
      ca_hash r' = ca_hash r \<and> ca_size r' = ca_size r"
    by (auto simp: set_deleting_def set_update_where)
  ultimately show ?thesis using assms
    by (auto simp: shrinks_def catalog_of_deleting file_of_deleting tables_ok_def)
       (simp_all add: set_deleting_def)
qed

lemma delete_catalog_shrinks:
  assumes "tables_ok s" "\<not> protected h s" "delete_catalog h s = Inr s'"
  shows "shrinks s s'"
proof -
  let ?c = "delete_where (\<lambda>r. ca_hash r = h) (st_catalog s)"
  have o': "delete_where (\<lambda>(o', x). x = h) (st_owners s) = st_owners s"
    using assms(2) by (auto simp: delete_where_def protected_def owned_def list_ex_iff filter_id_conv)
  then have s': "s' = s\<lparr>st_catalog := ?c\<rparr>"
    and fk: "catalog_of h s = None \<or> \<not> list_ex (\<lambda>(r, c). rc_hash c = h) (st_components s)"
    using assms(3) by (auto simp: delete_catalog_def has_key_catalog split: if_splits)
  have pks: "pk ca_hash ?c"
    using assms by (auto simp: tables_ok_def intro: inv_intros)
  have bytes: "ready_bytes s' \<le> ready_bytes s"
    using assms ready_bytes_filter_le
    by (auto simp: ready_bytes_def s' delete_where_def tables_ok_def)
  have cat: "catalog_of k s' = (if k = h then None else catalog_of k s)" for k
    by (simp add: catalog_of_def s' row_delete_where)
  have comps: "\<forall>x \<in> set (st_components s). catalog_of (rc_hash (snd x)) s' \<noteq> None"
    using fk assms(1) by (auto simp: cat tables_ok_def list_ex_iff)
  have rows: "\<forall>r' \<in> set (st_catalog s'). \<exists>r \<in> set (st_catalog s). ca_hash r' = ca_hash r \<and> ca_size r' = ca_size r"
    by (auto simp: s')
  have same: "\<forall>k. protected k s \<longrightarrow> catalog_of k s' = catalog_of k s \<and> file_of k s' = file_of k s"
    using assms(2) by (auto simp: cat) (simp add: s' file_of_def)
  show ?thesis unfolding shrinks_def
    using pks bytes comps rows same by (simp add: s' file_of_def)
qed

lemma shrinks_faults: "shrinks s s' \<Longrightarrow> shrinks s (s'\<lparr>st_faults := fs\<rparr>)"
  by (simp add: shrinks_def catalog_of_def file_of_def ready_bytes_def)

lemma shrinks_tombstones: "shrinks s s' \<Longrightarrow> shrinks s (s'\<lparr>st_tombstones := ts\<rparr>)"
  by (simp add: shrinks_def catalog_of_def file_of_def ready_bytes_def)

lemma shrinks_file:
  assumes "tables_ok s" "\<not> protected h s"
  shows "shrinks s (s\<lparr>st_files := AList.delete (take 2 h, h) (st_files s)\<rparr>)"
proof -
  have "map_of (AList.delete (take 2 h, h) (st_files s)) (take 2 k, k) =
      (if k = h then None else map_of (st_files s) (take 2 k, k))" for k
    by (auto simp: delete_conv)
  then show ?thesis using assms
    by (auto simp: shrinks_def tables_ok_def file_of_def catalog_of_def ready_bytes_def)
qed

lemma remove_file_cases:
  obtains (removed) fs where "remove_file p s =
      (R_removed, s\<lparr>st_files := AList.delete p (st_files s), st_faults := fs\<rparr>)" "map_of (st_files s) p \<noteq> None"
  | (missing) fs where "remove_file p s = (R_missing, s\<lparr>st_faults := fs\<rparr>)" "map_of (st_files s) p = None"
  | (failed) msg fs where "remove_file p s = (R_failed msg, s\<lparr>st_faults := fs\<rparr>)"
proof (cases "\<exists>msg fs. st_faults s = Some msg # fs")
  case True
  then show ?thesis using failed by (auto simp: remove_file_def)
next
  case False
  then have form: "remove_file p s = (if map_of (st_files s) p = None
      then (R_missing, s\<lparr>st_faults := drop 1 (st_faults s)\<rparr>)
      else (R_removed, s\<lparr>st_files := AList.delete p (st_files s), st_faults := drop 1 (st_faults s)\<rparr>))"
    by (auto simp: remove_file_def split: list.split option.split)
  show ?thesis
  proof (cases "map_of (st_files s) p = None")
    case True
    then show ?thesis using missing [of "drop 1 (st_faults s)"] form by simp
  next
    case False
    then show ?thesis using removed [of "drop 1 (st_faults s)"] form by simp
  qed
qed

lemma delete_blob_shrinks:
  assumes "tables_ok s" "\<not> protected h s"
  shows "shrinks s (snd (delete_blob now h s))"
proof -
  let ?s1 = "set_deleting h s"
  have s1: "shrinks s ?s1" by (rule shrinks_deleting [OF assms])
  have ok1: "tables_ok ?s1" by (rule tables_shrink [OF assms(1) s1])
  have up1: "\<not> protected h ?s1" using assms(2) shrinks_protected [OF s1] by simp
  show ?thesis
  proof (cases "path_for h")
    case (Inl e)
    then show ?thesis
      using s1 by (simp add: delete_blob_def Let_def add_tombstone_def shrinks_tombstones)
  next
    case (Inr path)
    then have path: "path = (take 2 h, h)" by (simp add: path_for_def split: if_splits)
    show ?thesis
    proof (cases rule: remove_file_cases [of path ?s1])
      case (removed fs)
      let ?s2 = "?s1\<lparr>st_files := AList.delete path (st_files ?s1), st_faults := fs\<rparr>"
      have s2: "shrinks s ?s2"
        using shrinks_trans [OF s1 shrinks_faults [OF shrinks_file [OF ok1 up1]], of fs] path by simp
      have ok2: "tables_ok ?s2" by (rule tables_shrink [OF assms(1) s2])
      have up2: "\<not> protected h ?s2" using assms(2) shrinks_protected [OF s2] by simp
      show ?thesis
      proof (cases "delete_catalog h ?s2")
        case (Inl e)
        then show ?thesis using s2 removed Inr
          by (simp add: delete_blob_def Let_def add_tombstone_def shrinks_tombstones)
      next
        case cat: (Inr s3)
        have "shrinks s s3"
          using shrinks_trans [OF s2 delete_catalog_shrinks [OF ok2 up2 cat]] .
        then show ?thesis using removed Inr cat
          by (simp add: delete_blob_def Let_def shrinks_tombstones)
      qed
    next
      case (missing fs)
      let ?s2 = "?s1\<lparr>st_faults := fs\<rparr>"
      have s2: "shrinks s ?s2" by (rule shrinks_faults [OF s1])
      have ok2: "tables_ok ?s2" by (rule tables_shrink [OF assms(1) s2])
      have up2: "\<not> protected h ?s2" using assms(2) shrinks_protected [OF s2] by simp
      show ?thesis
      proof (cases "delete_catalog h ?s2")
        case (Inl e)
        then show ?thesis using s2 missing Inr by (simp add: delete_blob_def Let_def)
      next
        case cat: (Inr s3)
        then show ?thesis using shrinks_trans [OF s2 delete_catalog_shrinks [OF ok2 up2 cat]] missing Inr
          by (simp add: delete_blob_def Let_def)
      qed
    next
      case (failed msg fs)
      then show ?thesis using Inr shrinks_tombstones [OF shrinks_faults [OF s1]]
        by (simp add: delete_blob_def Let_def add_tombstone_def)
    qed
  qed
qed

lemma delete_if_unowned_write_shrinks:
  "tables_ok s \<Longrightarrow> shrinks s (snd (delete_if_unowned_write now h s))"
  using delete_blob_shrinks [of s h now]
  by (auto simp: delete_if_unowned_write_def shrinks_refl protected_def split: option.split)

lemma for_each_shrinks:
  assumes "\<And>x t. tables_ok t \<Longrightarrow> shrinks t (snd (f x t))" "tables_ok s"
  shows "shrinks s (snd (for_each f xs s))"
  using assms(2)
proof (induction xs arbitrary: s)
  case (Cons x xs)
  have s: "shrinks s (snd (f x s))" by (rule assms(1) [OF Cons.prems])
  show ?case
  proof (cases "f x s")
    case (Pair r s')
    then show ?thesis
      using s Cons.IH [OF tables_shrink [OF Cons.prems s]] shrinks_trans [OF s]
      by (cases r) simp_all
  qed
qed (simp add: shrinks_refl)

lemma sweep_writes_shrinks: "tables_ok s \<Longrightarrow> shrinks s (snd (sweep_writes now s))"
  unfolding sweep_writes_def by (rule for_each_shrinks [OF delete_if_unowned_write_shrinks])

lemma evict_shrinks:
  assumes "tables_ok s" "\<forall>h \<in> set hs. \<not> owned h s"
  shows "shrinks s (snd (evict now n hs s))"
  using assms
proof (induction hs arbitrary: s)
  case (Cons h hs)
  show ?case
  proof (cases "leased h s")
    case True
    then show ?thesis using Cons by simp
  next
    case False
    let ?d = "delete_blob now h s"
    have s: "shrinks s (snd ?d)"
      using Cons.prems False by (intro delete_blob_shrinks) (simp_all add: protected_def)
    have "\<forall>k \<in> set hs. \<not> owned k (snd ?d)"
      using Cons.prems shrinks_fields(2) [OF s] by (simp add: owned_iff)
    then have "shrinks s (snd (evict now n hs (snd ?d)))"
      using Cons.IH [OF tables_shrink [OF Cons.prems(1) s]] shrinks_trans [OF s] by blast
    then show ?thesis using False s
      by (cases ?d) (auto split: sum.split)
  qed
qed (simp add: shrinks_refl)

lemma make_space_shrinks: "tables_ok s \<Longrightarrow> shrinks s (snd (make_space now n s))"
proof -
  assume ok: "tables_ok s"
  have "\<forall>h \<in> set (eviction_candidates s). \<not> owned h s"
    by (auto simp: eviction_candidates_def)
  then show ?thesis using ok by (auto simp: make_space_def shrinks_refl intro: evict_shrinks)
qed

lemma rollback_shrinks:
  assumes "tables_ok s" "shrinks s s'"
  shows "shrinks s (rollback s s')"
  unfolding shrinks_def
  using assms(1) shrinks_same [OF assms(2)] shrinks_files [OF assms(2)] shrinks_fields(8) [OF assms(2)]
  by (auto simp: rollback_def tables_ok_def catalog_of_def file_of_def ready_bytes_def
      protected_def owned_def leased_def)

subsection \<open>Every operation\<close>

definition store_ok :: "(bytes \<Rightarrow> bytes) \<Rightarrow> store \<Rightarrow> bool" where
  "store_ok sha s \<longleftrightarrow> tables_ok s \<and> within_capacity s \<and> content_ok sha s"

lemma store_ok_shrink: "store_ok sha s \<Longrightarrow> shrinks s s' \<Longrightarrow> store_ok sha s'"
  using tables_shrink capacity_shrink content_shrink by (auto simp: store_ok_def)

text \<open>What is owned or leased afterwards was not taken away.\<close>

definition preserves :: "store \<Rightarrow> store \<Rightarrow> bool" where
  "preserves s s' \<longleftrightarrow> (\<forall>h. protected h s' \<longrightarrow>
     (file_of h s \<noteq> None \<longrightarrow> file_of h s' = file_of h s)
     \<and> (\<forall>r. catalog_of h s = Some r \<and> is_ready r \<longrightarrow>
          (\<exists>r'. catalog_of h s' = Some r' \<and> is_ready r' \<and> ca_size r' = ca_size r)))"

lemma shrinks_preserves: "shrinks s s' \<Longrightarrow> preserves s s'"
  unfolding preserves_def using shrinks_protected shrinks_same by fastforce

lemma preserves_same:
  "st_catalog s' = st_catalog s \<Longrightarrow> st_files s' = st_files s \<Longrightarrow> preserves s s'"
  by (simp add: preserves_def catalog_of_def file_of_def)

lemma preserves_from:
  "preserves m s' \<Longrightarrow> st_catalog m = st_catalog s \<Longrightarrow> st_files m = st_files s \<Longrightarrow> preserves s s'"
  by (simp add: preserves_def catalog_of_def file_of_def)

lemma preserves_to:
  "preserves s m \<Longrightarrow> st_catalog s' = st_catalog m \<Longrightarrow> st_files s' = st_files m \<Longrightarrow>
    st_owners s' = st_owners m \<Longrightarrow> st_leases s' = st_leases m \<Longrightarrow> preserves s s'"
  by (simp add: preserves_def catalog_of_def file_of_def protected_def owned_def leased_def)

definition safe_change :: "(bytes \<Rightarrow> bytes) \<Rightarrow> store \<Rightarrow> store \<Rightarrow> bool" where
  "safe_change sha s s' \<longleftrightarrow> store_ok sha s' \<and> preserves s s' \<and> st_leases s' = st_leases s
     \<and> st_reservations s' = st_reservations s"

lemma safe_change_shrinks: "store_ok sha s \<Longrightarrow> shrinks s s' \<Longrightarrow> safe_change sha s s'"
  using store_ok_shrink shrinks_preserves shrinks_fields [of s s'] by (auto simp: safe_change_def)

lemma safe_change_refl: "store_ok sha s \<Longrightarrow> safe_change sha s s"
  by (simp add: safe_change_def preserves_same)

text \<open>The owners and routes may change as the foreign keys allow before blobs are removed.\<close>

lemma store_ok_owners:
  assumes "store_ok sha s" "\<forall>x \<in> set t. catalog_of (snd x) s \<noteq> None"
  shows "store_ok sha (s\<lparr>st_owners := t\<rparr>)"
  using assms by (auto simp: store_ok_def tables_ok_def within_capacity_def content_ok_def
      catalog_of_def file_of_def ready_bytes_def reserved_bytes_def)

lemma safe_change_owners:
  assumes "store_ok sha s" "\<forall>x \<in> set t. catalog_of (snd x) s \<noteq> None" "shrinks (s\<lparr>st_owners := t\<rparr>) s'"
  shows "safe_change sha s s'"
proof -
  have "safe_change sha (s\<lparr>st_owners := t\<rparr>) s'"
    by (rule safe_change_shrinks [OF store_ok_owners [OF assms(1,2)] assms(3)])
  then show ?thesis using preserves_from [of "s\<lparr>st_owners := t\<rparr>" s' s] by (simp add: safe_change_def)
qed

lemma owners_in_catalog: "store_ok sha s \<Longrightarrow> x \<in> set (st_owners s) \<Longrightarrow> catalog_of (snd x) s \<noteq> None"
  by (simp add: store_ok_def tables_ok_def)

lemma ready_in_catalog: "ready_row h s \<noteq> None \<Longrightarrow> catalog_of h s \<noteq> None"
  by (auto simp: ready_row_def catalog_of_def row_None_iff find_Some_iff)

lemma tables_ok_owned: "store_ok sha s \<Longrightarrow> \<forall>x \<in> set t. catalog_of (snd x) s \<noteq> None \<Longrightarrow>
    tables_ok (s\<lparr>st_owners := t\<rparr>)"
  using store_ok_owners by (auto simp: store_ok_def)

lemma acquire_owner_safe:
  assumes "store_ok sha s"
  shows "safe_change sha s (snd (acquire_owner owner h s))"
proof (cases "is_hash h \<and> ready_row h s \<noteq> None")
  case True
  let ?t = "insert_ignore (\<lambda>x. x) (owner, h) (st_owners s)"
  have t: "\<forall>x \<in> set ?t. catalog_of (snd x) s \<noteq> None"
    using owners_in_catalog [OF assms] ready_in_catalog True by (auto simp: insert_ignore_cases)
  show ?thesis
    using safe_change_owners [OF assms t shrinks_refl [OF tables_ok_owned [OF assms t]]] True
    by (auto simp: acquire_owner_def add_owner_def)
qed (use assms in \<open>auto simp: acquire_owner_def safe_change_refl\<close>)

lemma transfer_hashes_owners:
  "transfer_hashes source target hs t = Inr t' \<Longrightarrow> x \<in> set t' \<Longrightarrow> snd x \<in> snd ` set t"
proof (induction hs arbitrary: t)
  case (Cons h hs)
  have "snd x \<in> snd ` set (if (source, h) \<in> set t then insert_ignore (\<lambda>x. x) (target, h) t else t)"
    using Cons.IH Cons.prems by (fastforce split: if_splits)
  moreover have "h \<in> snd ` set t" if "(source, h) \<in> set t" using that by (rule image_eqI [rotated]) simp
  ultimately show ?case by (auto simp: insert_ignore_cases split: if_splits)
qed auto

lemma transfer_all_owners: "x \<in> set (transfer_all source target t) \<Longrightarrow> snd x \<in> snd ` set t"
  using set_insert_rows_ignore_id [of "map (\<lambda>x. (target, snd x)) (filter (\<lambda>x. fst x = source) t)" t]
  by (force simp: transfer_all_def id_def)

lemma transfer_owner_safe:
  assumes "store_ok sha s"
  shows "safe_change sha s (snd (transfer_owner now source target hashes s))"
proof -
  let ?t = "case hashes of None \<Rightarrow> Inr (transfer_all source target (st_owners s))
            | Some hs \<Rightarrow> transfer_hashes source target hs (st_owners s)"
  show ?thesis
  proof (cases ?t)
    case (Inl e)
    then show ?thesis using assms by (simp add: transfer_owner_def safe_change_refl)
  next
    case (Inr t)
    have "snd x \<in> snd ` set (st_owners s)" if "x \<in> set t" for x
      using Inr that by (cases hashes) (auto dest: transfer_hashes_owners transfer_all_owners)
    then have t: "\<forall>x \<in> set t. catalog_of (snd x) s \<noteq> None"
      using owners_in_catalog [OF assms] by fastforce
    show ?thesis
      using safe_change_owners [OF assms t sweep_writes_shrinks [OF tables_ok_owned [OF assms t]]] Inr
      by (simp add: transfer_owner_def)
  qed
qed

lemma release_owner_safe:
  assumes "store_ok sha s"
  shows "safe_change sha s (snd (release_owner now owner hash s))"
proof (cases "given hash")
  case None
  have t: "\<forall>x \<in> set (delete_where (\<lambda>x. fst x = owner) (st_owners s)). catalog_of (snd x) s \<noteq> None"
    using owners_in_catalog [OF assms] by auto
  show ?thesis
    using safe_change_owners [OF assms t for_each_shrinks [OF delete_if_unowned_write_shrinks
          tables_ok_owned [OF assms t]]] None by (simp add: release_owner_def)
next
  case (Some h)
  have t: "\<forall>x \<in> set (delete_where (\<lambda>x. x = (owner, h)) (st_owners s)). catalog_of (snd x) s \<noteq> None"
    using owners_in_catalog [OF assms] by auto
  show ?thesis
    using safe_change_owners [OF assms t delete_if_unowned_write_shrinks
          [OF tables_ok_owned [OF assms t]]] Some assms by (simp add: release_owner_def safe_change_refl)
qed

lemma commit_components_ok:
  assumes "commit_components route upload cs s = Inr s'" "store_ok sha s"
  shows "store_ok sha s' \<and> st_catalog s' = st_catalog s \<and> st_files s' = st_files s
    \<and> st_leases s' = st_leases s \<and> st_reservations s' = st_reservations s"
  using assms
proof (induction cs arbitrary: s)
  case (Cons c cs)
  let ?h = "rc_hash c"
  obtain t where t: "insert_row component_key (route, c) (st_components s) = Some t"
    and own: "(upload, ?h) \<in> set (st_owners s)"
    and rest: "commit_components route upload cs
      (add_owner (route_owner route) ?h (s\<lparr>st_components := t\<rparr>)) = Inr s'"
    using Cons.prems(1) by (auto split: if_splits option.splits)
  have cat: "catalog_of ?h s \<noteq> None" using owners_in_catalog [OF Cons.prems(2) own] by simp
  have "store_ok sha (add_owner (route_owner route) ?h (s\<lparr>st_components := t\<rparr>))"
    using Cons.prems(2) cat t
    by (auto simp: store_ok_def tables_ok_def within_capacity_def content_ok_def add_owner_def
        catalog_of_def file_of_def ready_bytes_def reserved_bytes_def insert_ignore_cases
        insert_row_Some)
  then show ?case using Cons.IH [OF rest] by (simp add: add_owner_def)
qed simp

lemma commit_route_safe:
  assumes "store_ok sha s"
  shows "safe_change sha s (snd (commit_route now route n cs upload s))"
proof (cases "commit_components route upload cs s")
  case (Inl e)
  then show ?thesis using assms release_owner_safe [OF assms]
    by (auto simp: commit_route_def Let_def safe_change_refl)
next
  case (Inr s1)
  note ok = commit_components_ok [OF Inr assms]
  have "safe_change sha s (s1\<lparr>st_routes := t,
      st_owners := delete_where (\<lambda>x. fst x = upload) (st_owners s1)\<rparr>)" for t
  proof -
    have "store_ok sha (s1\<lparr>st_owners := delete_where (\<lambda>x. fst x = upload) (st_owners s1)\<rparr>)"
      using ok owners_in_catalog [of sha s1] by (intro store_ok_owners) auto
    then have "store_ok sha (s1\<lparr>st_routes := t,
        st_owners := delete_where (\<lambda>x. fst x = upload) (st_owners s1)\<rparr>)"
      by (simp add: store_ok_def tables_ok_def within_capacity_def content_ok_def
          catalog_of_def file_of_def ready_bytes_def reserved_bytes_def)
    then show ?thesis using ok by (simp add: safe_change_def preserves_same)
  qed
  then show ?thesis using Inr assms release_owner_safe [OF assms]
    by (auto simp: commit_route_def Let_def safe_change_refl split: option.split)
qed

lemma sum_filter_le:
  "(\<And>x. x \<in> set xs \<Longrightarrow> 0 \<le> f x) \<Longrightarrow>
    sum_list (map f (filter P xs)) \<le> (sum_list (map f xs) :: int)"
  by (induction xs) (auto simp: add_increasing)

lemma release_reservation_safe:
  assumes "store_ok sha s"
  shows "store_ok sha (release_reservation token s)" "preserves s (release_reservation token s)"
    "st_leases (release_reservation token s) = st_leases s"
proof -
  have "sum_list (map rv_bytes (filter (\<lambda>r. rv_token r \<noteq> token) (st_reservations s)))
      \<le> sum_list (map rv_bytes (st_reservations s))"
    using assms by (intro sum_filter_le) (auto simp: store_ok_def tables_ok_def)
  then show "store_ok sha (release_reservation token s)"
    using assms by (auto simp: release_reservation_def store_ok_def tables_ok_def within_capacity_def
        content_ok_def catalog_of_def file_of_def ready_bytes_def reserved_bytes_def delete_where_def
        pk_def distinct_map_filter)
qed (simp_all add: release_reservation_def preserves_same)

lemma reserve_safe:
  assumes "store_ok sha s"
  shows "store_ok sha (snd (reserve now token n s))" "preserves s (snd (reserve now token n s))"
    "st_leases (snd (reserve now token n s)) = st_leases s"
    "fst (reserve now token n s) = Inr r \<Longrightarrow> re_token r = token \<and> re_bytes r = n \<and> 0 \<le> n
       \<and> token \<notin> rv_token ` set (st_reservations s)
       \<and> st_reservations (snd (reserve now token n s)) =
           st_reservations s @ [\<lparr>rv_token = token, rv_bytes = n, rv_created = now\<rparr>]"
    "fst (reserve now token n s) = Inl e \<Longrightarrow>
       st_reservations (snd (reserve now token n s)) = st_reservations s"
proof -
  let ?m = "make_space now n s"
  let ?row = "\<lparr>rv_token = token, rv_bytes = n, rv_created = now\<rparr>"
  have ok: "tables_ok s" using assms by (simp add: store_ok_def)
  have m: "shrinks s (snd ?m)" by (rule make_space_shrinks [OF ok])
  have undone: "shrinks s (rollback s (snd ?m))" by (rule rollback_shrinks [OF ok m])
  consider (none) e where "reserve now token n s = (Inl e, s)"
    | (undone) e where "reserve now token n s = (Inl e, rollback s (snd ?m))"
    | (fits) "reserve now token n s = (Inr \<lparr>re_token = token, re_bytes = n\<rparr>,
          (snd ?m)\<lparr>st_reservations := st_reservations s @ [?row]\<rparr>)"
        "has_room n (snd ?m)" "token \<notin> rv_token ` set (st_reservations s)" "0 \<le> n"
    using shrinks_fields(3) [OF m]
    by (cases ?m) (force simp: reserve_def insert_row_Some insert_row_def has_key_iff
        split: if_splits sum.splits)
  then have "store_ok sha (snd (reserve now token n s)) \<and> preserves s (snd (reserve now token n s))
    \<and> st_leases (snd (reserve now token n s)) = st_leases s
    \<and> (\<forall>r. fst (reserve now token n s) = Inr r \<longrightarrow> re_token r = token \<and> re_bytes r = n \<and> 0 \<le> n
       \<and> token \<notin> rv_token ` set (st_reservations s)
       \<and> st_reservations (snd (reserve now token n s)) = st_reservations s @ [?row])
    \<and> (\<forall>e. fst (reserve now token n s) = Inl e \<longrightarrow>
       st_reservations (snd (reserve now token n s)) = st_reservations s)"
  proof cases
    case none
    then show ?thesis using assms by (simp add: preserves_same)
  next
    case undone
    then show ?thesis using safe_change_shrinks [OF assms \<open>shrinks s (rollback s (snd ?m))\<close>]
      by (simp add: safe_change_def)
  next
    case fits
    let ?s = "(snd ?m)\<lparr>st_reservations := st_reservations s @ [?row]\<rparr>"
    have "store_ok sha ?s"
      using store_ok_shrink [OF assms m] fits shrinks_fields(3) [OF m]
      by (auto simp: store_ok_def tables_ok_def within_capacity_def content_ok_def has_room_def
          catalog_of_def file_of_def ready_bytes_def reserved_bytes_def pk_def)
    moreover have "preserves s ?s"
      by (rule preserves_to [OF shrinks_preserves [OF m]]) simp_all
    ultimately show ?thesis using fits shrinks_fields(6) [OF m] by simp
  qed
  then show "store_ok sha (snd (reserve now token n s))" "preserves s (snd (reserve now token n s))"
    "st_leases (snd (reserve now token n s)) = st_leases s"
    "fst (reserve now token n s) = Inr r \<Longrightarrow> re_token r = token \<and> re_bytes r = n \<and> 0 \<le> n
       \<and> token \<notin> rv_token ` set (st_reservations s)
       \<and> st_reservations (snd (reserve now token n s)) = st_reservations s @ [?row]"
    "fst (reserve now token n s) = Inl e \<Longrightarrow>
       st_reservations (snd (reserve now token n s)) = st_reservations s"
    by blast+
qed

subsection \<open>Admissions and leases\<close>

lemma pk_Cons: "pk key (x # t) \<longleftrightarrow> (\<forall>y \<in> set t. key y \<noteq> key x) \<and> pk key t"
  unfolding pk_def by (simp add: image_iff) metis

lemma ready_bytes_upsert:
  assumes "pk ca_hash t" "row ca_hash h t = Some c" "\<And>r. ca_size (f r) = ca_size r"
    "\<And>r. is_ready (f r)" "0 \<le> ca_size c"
  shows "sum_list (map ca_size (filter is_ready (update_where (\<lambda>r. ca_hash r = h) f t)))
    \<le> sum_list (map ca_size (filter is_ready t)) + ca_size c"
  using assms(1,2)
proof (induction t)
  case (Cons x t)
  show ?case
  proof (cases "ca_hash x = h")
    case True
    then have "update_where (\<lambda>r. ca_hash r = h) f t = t"
    proof -
      have "\<forall>y \<in> set t. ca_hash y \<noteq> h" using Cons.prems(1) True by (simp add: pk_Cons)
      then show ?thesis by (simp add: update_where_def map_idI)
    qed
    moreover have "c = x" using True Cons.prems(2) by (simp add: row_def)
    ultimately show ?thesis using True assms(3-5) by (simp add: update_where_def)
  next
    case False
    then show ?thesis using Cons by (simp add: update_where_def row_def pk_def)
  qed
qed (simp add: row_def)

lemma reserved_bytes_delete:
  assumes "pk rv_token t" "x \<in> set t"
  shows "sum_list (map rv_bytes (filter (\<lambda>y. rv_token y \<noteq> rv_token x) t))
    = sum_list (map rv_bytes t) - rv_bytes x"
  using assms
proof (induction t)
  case (Cons y t)
  show ?case
  proof (cases "y = x")
    case True
    then have "filter (\<lambda>y. rv_token y \<noteq> rv_token x) t = t"
    proof -
      have "\<forall>z \<in> set t. rv_token z \<noteq> rv_token x" using Cons.prems(1) True by (simp add: pk_Cons)
      then show ?thesis by simp
    qed
    then show ?thesis using True by simp
  next
    case False
    then have "x \<in> set t" "rv_token y \<noteq> rv_token x" using Cons.prems by (auto simp: pk_def)
    then show ?thesis using Cons by (simp add: pk_def)
  qed
qed simp

definition holds :: "reservation \<Rightarrow> store \<Rightarrow> bool" where
  "holds r s \<longleftrightarrow> (\<exists>x \<in> set (st_reservations s). rv_token x = re_token r \<and> rv_bytes x = re_bytes r)"

lemma link_temp_safe:
  assumes "store_ok sha s" "map_of (st_tmp s) temp = Some bs" "to_hex (sha bs) = h"
    "link_temp temp (take 2 h, h) s = Some s1"
  shows "store_ok sha s1 \<and> preserves s s1 \<and> st_leases s1 = st_leases s \<and> st_reservations s1 = st_reservations s
    \<and> st_catalog s1 = st_catalog s \<and> st_owners s1 = st_owners s \<and> (\<forall>k. file_of k s \<noteq> None \<longrightarrow> file_of k s1 = file_of k s)"
proof -
  have form: "s1 = (if file_of h s = None
      then s\<lparr>st_files := AList.update (take 2 h, h) bs (st_files s)\<rparr> else s)"
    using assms(2,4) by (simp add: link_temp_def file_of_def split: if_splits)
  have files: "file_of k s1 = (if k = h \<and> file_of h s = None then Some bs else file_of k s)" for k
    by (auto simp: form file_of_def map_of_update)
  have "content_ok sha s1" using assms(1,3) by (auto simp: content_ok_def files store_ok_def)
  moreover have "tables_ok s1 \<and> within_capacity s1"
    using assms(1) by (auto simp: form store_ok_def tables_ok_def within_capacity_def catalog_of_def
        ready_bytes_def reserved_bytes_def)
  ultimately show ?thesis
    by (auto simp: store_ok_def preserves_def files) (simp_all add: form catalog_of_def)
qed

lemma promoted_tables:
  fixes now :: int and origin :: blob_origin and own :: "jstr option" and tmp :: "(jstr, bytes) jmap"
    and h :: jstr and r :: reservation and n :: int and s :: store
  assumes ok: "store_ok sha s" and r: "holds r s" and n: "0 \<le> n" "n \<le> re_bytes r" and h: "is_hash h"
    and existing: "case catalog_of h s of Some c \<Rightarrow> ca_size c = n | None \<Rightarrow> True"
  defines "s2 \<equiv> upsert_blob now h n origin s"
  defines "s3 \<equiv> (case own of None \<Rightarrow> s2 | Some x \<Rightarrow> add_owner x h s2)"
  defines "s4 \<equiv> s3\<lparr>st_reservations := delete_where (\<lambda>x. rv_token x = re_token r) (st_reservations s3),
     st_tmp := tmp\<rparr>"
  shows "store_ok sha s4" "preserves s s4" "st_leases s4 = st_leases s"
    "st_reservations s4 = delete_where (\<lambda>x. rv_token x = re_token r) (st_reservations s)"
proof -
  let ?f = "\<lambda>r. r\<lparr>ca_origin := origin, ca_accessed := now, ca_state := S_ready\<rparr>"
  let ?new = "\<lparr>ca_hash = h, ca_size = n, ca_origin = origin, ca_accessed = now, ca_state = S_ready\<rparr>"
  note ok' = ok [unfolded store_ok_def tables_ok_def]
  have cat4: "st_catalog s4 = (if catalog_of h s \<noteq> None
      then update_where (\<lambda>r. ca_hash r = h) ?f (st_catalog s) else st_catalog s @ [?new])"
    by (simp add: s4_def s3_def s2_def upsert_blob_def add_owner_def has_key_catalog split: option.split)
  have rest: "st_capacity s4 = st_capacity s" "st_components s4 = st_components s"
    "st_files s4 = st_files s" "st_leases s4 = st_leases s"
    "st_reservations s4 = delete_where (\<lambda>x. rv_token x = re_token r) (st_reservations s)"
    "set (st_owners s4) \<subseteq> insert (the own, h) (set (st_owners s))"
    by (auto simp: s4_def s3_def s2_def upsert_blob_def add_owner_def insert_ignore_cases split: option.split)
  have of: "catalog_of k s4 = (if k = h then Some (case catalog_of h s of None \<Rightarrow> ?new | Some c \<Rightarrow> ?f c)
      else catalog_of k s)" for k
    by (auto simp: catalog_of_def cat4 row_append row_update_where split: option.split)
  have pk4: "pk ca_hash (st_catalog s4)"
    using ok' by (auto simp: cat4 pk_def catalog_of_def row_None_iff intro!: pk_update_where [unfolded pk_def])
  have rows: "\<forall>r \<in> set (st_catalog s4). 0 \<le> ca_size r \<and> is_hash (ca_hash r)"
    using ok' n h by (auto simp: cat4 set_update_where)
  have ready: "ready_bytes s4 \<le> ready_bytes s + n"
  proof (cases "catalog_of h s")
    case None
    then show ?thesis by (simp add: ready_bytes_def cat4 is_ready_def)
  next
    case (Some c)
    then show ?thesis
      using ready_bytes_upsert [of "st_catalog s" h c ?f] ok' existing n
      by (simp add: ready_bytes_def cat4 catalog_of_def is_ready_def)
  qed
  have reserved: "reserved_bytes s4 = reserved_bytes s - re_bytes r"
  proof -
    obtain x where x: "x \<in> set (st_reservations s)" "rv_token x = re_token r" "rv_bytes x = re_bytes r"
      using r by (auto simp: holds_def)
    then show ?thesis using reserved_bytes_delete [of "st_reservations s" x] ok'
      by (simp add: reserved_bytes_def rest delete_where_def)
  qed
  have "tables_ok s4"
    using ok' pk4 rows rest(6) unfolding tables_ok_def
    by (auto simp: of rest(2,5) pk_delete_where split: option.split)
  moreover have "within_capacity s4"
    using ready reserved n ok by (simp add: within_capacity_def store_ok_def rest)
  moreover have "content_ok sha s4"
    using ok by (simp add: store_ok_def content_ok_def file_of_def rest)
  ultimately show "store_ok sha s4" by (simp add: store_ok_def)
  show "preserves s s4"
    unfolding preserves_def of using existing
    by (auto simp: file_of_def rest is_ready_def)
qed (simp_all add: s4_def s3_def s2_def upsert_blob_def add_owner_def split: option.split)

lemma promote_safe:
  fixes now :: int and origin :: blob_origin and owner :: "jstr option" and s :: store
  assumes ok: "store_ok sha s" and r: "holds r s" and n: "0 \<le> n" "n \<le> re_bytes r"
    and temp: "map_of (st_tmp s) temp = Some bs" "to_hex (sha bs) = h"
  defines "s' \<equiv> snd (promote now temp h n origin owner r s)"
  shows "store_ok sha s' \<and> preserves s s' \<and> st_leases s' = st_leases s
    \<and> (st_reservations s' = st_reservations s
       \<or> st_reservations s' = delete_where (\<lambda>x. rv_token x = re_token r) (st_reservations s))"
proof (cases "path_for h")
  case (Inl e)
  then show ?thesis using ok by (simp add: s'_def promote_def preserves_same)
next
  case (Inr path)
  then have path: "path = (take 2 h, h)" "is_hash h" by (simp_all add: path_for_def split: if_splits)
  obtain s1 where s1: "link_temp temp (take 2 h, h) s = Some s1"
    using temp by (simp add: link_temp_def)
  note l = link_temp_safe [OF ok temp s1]
  show ?thesis
  proof (cases "case catalog_of h s1 of Some c \<Rightarrow> ca_size c \<noteq> n | None \<Rightarrow> False")
    case True
    then show ?thesis using l Inr path s1 by (simp add: s'_def promote_def Let_def)
  next
    case False
    then have same: "case catalog_of h s1 of Some c \<Rightarrow> ca_size c = n | None \<Rightarrow> True"
      by (auto split: option.splits)
    have r1: "holds r s1" using r l by (simp add: holds_def)
    define origin' where "origin' = (case catalog_of h s1 of Some c \<Rightarrow> if ca_origin c \<noteq> origin
        then O_mixed else origin | None \<Rightarrow> origin)"
    define s3 where "s3 = (case given owner of None \<Rightarrow> upsert_blob now h n origin' s1
        | Some x \<Rightarrow> add_owner x h (upsert_blob now h n origin' s1))"
    define s4 where "s4 = s3\<lparr>st_reservations := delete_where (\<lambda>x. rv_token x = re_token r) (st_reservations s3),
        st_tmp := AList.delete temp (st_tmp s3)\<rparr>"
    note t = promoted_tables [OF l [THEN conjunct1] r1 n path(2) same,
        where now = now and origin = origin' and own = "given owner" and tmp = "AList.delete temp (st_tmp s3)",
        folded s3_def, folded s4_def]
    have s': "s' = s4"
      unfolding s'_def promote_def Let_def s4_def s3_def origin'_def
      using False Inr path s1 by simp
    have "preserves s s4"
      unfolding preserves_def
    proof (intro allI impI conjI)
      fix k assume "protected k s4"
      then show "file_of k s \<noteq> None \<Longrightarrow> file_of k s4 = file_of k s"
        using t(2) l unfolding preserves_def by metis
      show "\<exists>r'. catalog_of k s4 = Some r' \<and> is_ready r' \<and> ca_size r' = ca_size q"
        if "catalog_of k s = Some q \<and> is_ready q" for q
        using that t(2) l \<open>protected k s4\<close> unfolding preserves_def catalog_of_def by metis
    qed
    then show ?thesis using t l by (simp add: s')
  qed
qed

text \<open>Changes of the temporary files alone.\<close>

lemma store_ok_tmp: "store_ok sha (s\<lparr>st_tmp := t\<rparr>) = store_ok sha s"
  by (simp add: store_ok_def tables_ok_def within_capacity_def content_ok_def catalog_of_def
      file_of_def ready_bytes_def reserved_bytes_def)

lemma protected_tmp: "protected h (s\<lparr>st_tmp := t\<rparr>) = protected h s"
  by (rule protected_cong) simp_all

lemma preserves_tmp: "preserves (s\<lparr>st_tmp := t\<rparr>) s' = preserves s s'"
  "preserves s (s'\<lparr>st_tmp := t\<rparr>) = preserves s s'"
  by (simp_all add: preserves_def catalog_of_def file_of_def protected_tmp)

lemma preserves_release: "preserves s m \<Longrightarrow> preserves s (release_reservation token m)"
  by (erule preserves_to) (simp_all add: release_reservation_def)

definition keeps_others :: "reservation \<Rightarrow> store \<Rightarrow> store \<Rightarrow> bool" where
  "keeps_others r s s' \<longleftrightarrow> (\<forall>x \<in> set (st_reservations s). rv_token x \<noteq> re_token r \<longrightarrow> x \<in> set (st_reservations s'))
     \<and> set (st_reservations s') \<subseteq> set (st_reservations s)"

lemma released_safe:
  fixes t :: "(jstr, bytes) jmap"
  assumes "store_ok sha m \<and> preserves s m \<and> st_leases m = st_leases s
    \<and> (st_reservations m = st_reservations s
       \<or> st_reservations m = delete_where (\<lambda>x. rv_token x = re_token r) (st_reservations s))"
  defines "s' \<equiv> release_reservation (re_token r) (m\<lparr>st_tmp := t\<rparr>)"
  shows "store_ok sha s'" "preserves s s'" "st_leases s' = st_leases s" "keeps_others r s s'"
proof -
  let ?m = "m\<lparr>st_tmp := t\<rparr>"
  have ok: "store_ok sha ?m" using assms(1) by (simp add: store_ok_tmp)
  show "store_ok sha s'" unfolding s'_def by (rule release_reservation_safe(1) [OF ok])
  show "preserves s s'" unfolding s'_def using assms(1) by (intro preserves_release) (simp add: preserves_tmp)
  show "st_leases s' = st_leases s"
    unfolding s'_def using assms(1) release_reservation_safe(3) [OF ok, of "re_token r"] by simp
  have "st_reservations s' = (if st_closed m then st_reservations m
      else delete_where (\<lambda>x. rv_token x = re_token r) (st_reservations m))"
    by (simp add: s'_def release_reservation_def)
  then show "keeps_others r s s'" using assms(1) by (auto simp: keeps_others_def)
qed

lemma read_pieces_bound:
  "read_pieces limit fails ps acc = (None, content) \<Longrightarrow> int (length acc) \<le> limit \<Longrightarrow>
    int (length content) \<le> limit"
  by (induction ps arbitrary: acc) (auto split: if_splits)

lemma admit_finish_safe:
  fixes now :: int and source :: blob_source and opts :: admission and s :: store
  assumes ok: "store_ok sha s" and r: "holds r s" "0 \<le> re_bytes r"
  defines "s' \<equiv> snd (admit_finish sha now source opts r s)"
  shows "store_ok sha s'" "preserves s s'" "st_leases s' = st_leases s" "keeps_others r s s'"
proof -
  define m where "m = snd (admit_body sha now source opts r s)"
  have s': "s' = release_reservation (re_token r) (m\<lparr>st_tmp := AList.delete (admit_temp r) (st_tmp m)\<rparr>)"
    by (simp add: s'_def m_def admit_finish_def admit_finally_def split: prod.split)
  obtain failure content where read: "read_pieces (re_bytes r) (bs_fails source) (bs_pieces source) []
      = (failure, content)" by (metis prod.exhaust)
  let ?s1 = "s\<lparr>st_tmp := AList.update (admit_temp r) content (st_tmp s)\<rparr>"
  let ?h = "to_hex (sha content)"
  have ok1: "store_ok sha ?s1" using ok by (simp add: store_ok_tmp)
  have "store_ok sha m \<and> preserves s m \<and> st_leases m = st_leases s
    \<and> (st_reservations m = st_reservations s
       \<or> st_reservations m = delete_where (\<lambda>x. rv_token x = re_token r) (st_reservations s))"
  proof (cases "map_of (st_tmp s) (admit_temp r) = None \<and> failure = None
      \<and> \<not> (case given (ad_expected opts) of None \<Rightarrow> False | Some x \<Rightarrow> x \<noteq> ?h)")
    case True
    have hold: "holds r ?s1" using r by (simp add: holds_def)
    have fits: "int (length content) \<le> re_bytes r"
      using read True r(2) read_pieces_bound by fastforce
    have m: "m = snd (promote now (admit_temp r) ?h (int (length content)) (ad_origin opts)
        (ad_owner opts) r ?s1)"
      using True read by (simp add: m_def admit_body_def Let_def)
    have "map_of (st_tmp ?s1) (admit_temp r) = Some content" by (simp add: map_of_update)
    note p = promote_safe [OF ok1 hold _ fits this refl, where now = now and origin = "ad_origin opts"
        and owner = "ad_owner opts", folded m]
    then show ?thesis by (simp add: preserves_tmp)
  next
    case False
    have "m = s \<or> m = ?s1"
    proof (cases "map_of (st_tmp s) (admit_temp r)")
      case (Some bs)
      then show ?thesis by (simp add: m_def admit_body_def)
    next
      case None
      then show ?thesis using False read by (cases failure) (simp_all add: m_def admit_body_def Let_def)
    qed
    moreover have "preserves s s" "preserves s ?s1" by (rule preserves_same; simp)+
    ultimately show ?thesis using ok ok1 by auto
  qed
  then show "store_ok sha s'" "preserves s s'" "st_leases s' = st_leases s" "keeps_others r s s'"
    unfolding s' by (rule released_safe)+
qed

lemma read_verified_content:
  "read_verified limit fails ps acc = Inr content \<Longrightarrow> content = acc @ concat ps"
proof (induction ps arbitrary: acc)
  case (Cons p ps)
  then show ?case using Cons.IH [of "acc @ p"] by (simp split: if_splits)
qed (simp split: if_splits)

lemma import_finish_safe:
  fixes now :: int and checked :: blob_source and expected :: jstr and origin :: blob_origin
    and owner :: "jstr option" and s :: store
  assumes ok: "store_ok sha s" and r: "holds r s" "0 \<le> re_bytes r"
  defines "s' \<equiv> snd (import_finish sha now checked (concat (bs_pieces checked)) expected (re_bytes r)
    origin owner r s)"
  shows "store_ok sha s'" "preserves s s'" "st_leases s' = st_leases s" "keeps_others r s s'"
proof -
  let ?c = "concat (bs_pieces checked)"
  let ?s1 = "s\<lparr>st_tmp := AList.update (import_temp r) ?c (st_tmp s)\<rparr>"
  define m where "m = snd (import_body sha now checked ?c expected (re_bytes r) origin owner r s)"
  have s': "s' = release_reservation (re_token r) (m\<lparr>st_tmp := st_tmp m\<rparr>)"
    by (simp add: s'_def m_def import_finish_def split: prod.split)
  have "store_ok sha m \<and> preserves s m \<and> st_leases m = st_leases s
    \<and> (st_reservations m = st_reservations s
       \<or> st_reservations m = delete_where (\<lambda>x. rv_token x = re_token r) (st_reservations s))"
  proof (cases "read_verified (re_bytes r) (bs_fails checked) (bs_pieces checked) []")
    case (Inl e)
    then show ?thesis using ok by (simp add: m_def import_body_def preserves_same)
  next
    case (Inr content)
    then have c: "content = ?c" using read_verified_content by fastforce
    show ?thesis
    proof (cases "int (length ?c) \<noteq> re_bytes r \<or> to_hex (sha ?c) \<noteq> expected")
      case True
      then show ?thesis using ok Inr c by (simp add: m_def import_body_def preserves_same)
    next
      case False
      have m: "m = snd (promote now (import_temp r) expected (re_bytes r) origin owner r ?s1)"
        using False Inr c by (simp add: m_def import_body_def)
      have "store_ok sha ?s1" using ok by (simp add: store_ok_tmp)
      moreover have "holds r ?s1" using r by (simp add: holds_def)
      moreover have "map_of (st_tmp ?s1) (import_temp r) = Some ?c" by (simp add: map_of_update)
      ultimately have "store_ok sha m \<and> preserves ?s1 m \<and> st_leases m = st_leases ?s1
        \<and> (st_reservations m = st_reservations ?s1
          \<or> st_reservations m = delete_where (\<lambda>x. rv_token x = re_token r) (st_reservations ?s1))"
      proof -
        have "to_hex (sha ?c) = expected" using False by blast
        then show ?thesis unfolding m
          by (rule promote_safe [OF \<open>store_ok sha ?s1\<close> \<open>holds r ?s1\<close> r(2) order.refl
                \<open>map_of (st_tmp ?s1) (import_temp r) = Some ?c\<close>])
      qed
      then show ?thesis by (simp add: preserves_tmp)
    qed
  qed
  then show "store_ok sha s'" "preserves s s'" "st_leases s' = st_leases s" "keeps_others r s s'"
    unfolding s' by (rule released_safe)+
qed

text \<open>Leases.\<close>

definition lease_count :: "jstr \<Rightarrow> store \<Rightarrow> nat" where
  "lease_count h s = (case map_of (st_leases s) h of None \<Rightarrow> 0 | Some n \<Rightarrow> n)"

definition leases_positive :: "store \<Rightarrow> bool" where
  "leases_positive s \<longleftrightarrow> (\<forall>h. map_of (st_leases s) h \<noteq> Some 0)"

lemma leased_count: "leases_positive s \<Longrightarrow> leased h s \<longleftrightarrow> 0 < lease_count h s"
  unfolding leases_positive_def leased_def lease_count_def
  by (cases "map_of (st_leases s) h") (auto simp: gr0_conv_Suc, metis not0_implies_Suc)

lemma store_ok_leases: "store_ok sha (s\<lparr>st_leases := t\<rparr>) = store_ok sha s"
  by (simp add: store_ok_def tables_ok_def within_capacity_def content_ok_def catalog_of_def
      file_of_def ready_bytes_def reserved_bytes_def)

lemma lookup_safe:
  assumes ok: "store_ok sha s" and l: "lookup now h s = (Inr (Some l), s')"
  shows "store_ok sha s'" "preserves s s'" "st_reservations s' = st_reservations s"
    "le_hash l = h" "le_path l = (take 2 h, h)" "file_of h s' \<noteq> None" "file_of k s' = file_of k s"
    "lease_count k s' = (if k = h then 1 else 0) + lease_count k s"
    "leases_positive s \<Longrightarrow> leases_positive s'"
proof -
  let ?f = "\<lambda>r. r\<lparr>ca_accessed := now\<rparr>"
  let ?n = "1 + lease_count h s"
  obtain r where h: "is_hash h" and r: "ready_row h s = Some r" and kept: "file_of h s \<noteq> None"
    and lease: "l = \<lparr>le_hash = h, le_size = ca_size r, le_path = (take 2 h, h)\<rparr>"
    and s': "s' = s\<lparr>st_leases := AList.update h ?n (st_leases s),
       st_catalog := update_where (\<lambda>r. ca_hash r = h) ?f (st_catalog s)\<rparr>"
    using l by (auto simp: lookup_def path_for_def file_of_def lease_count_def
        split: if_splits option.splits)
  have cat: "catalog_of j s' = (if j = h then map_option ?f (catalog_of j s) else catalog_of j s)" for j
    by (simp add: s' catalog_of_def row_update_where)
  have ready: "sum_list (map ca_size (filter is_ready (update_where (\<lambda>r. ca_hash r = h) ?f t)))
      = sum_list (map ca_size (filter is_ready t))" for t
    by (induction t) (simp_all add: update_where_def is_ready_def)
  have "pk ca_hash (update_where (\<lambda>r. ca_hash r = h) ?f (st_catalog s))"
    using ok by (intro pk_update_where) (simp_all add: store_ok_def tables_ok_def)
  then have "tables_ok s'"
    using ok unfolding store_ok_def tables_ok_def cat
    by (auto simp: s' set_update_where)
  then show "store_ok sha s'"
    using ok by (simp add: store_ok_def within_capacity_def content_ok_def file_of_def s'
        ready_bytes_def reserved_bytes_def ready)
  show "preserves s s'" by (auto simp: preserves_def cat is_ready_def) (simp_all add: s' file_of_def)
  show "lease_count k s' = (if k = h then 1 else 0) + lease_count k s"
    by (simp add: s' lease_count_def map_of_update)
  show "leases_positive s \<Longrightarrow> leases_positive s'"
    by (simp add: s' leases_positive_def map_of_update)
qed (use l in \<open>auto simp: lookup_def path_for_def file_of_def split: if_splits option.splits\<close>)

lemma delete_blob_returns:
  assumes "file_of h s \<noteq> None"
  shows "fst (delete_blob now h s) = Inr ()"
proof (cases "path_for h")
  case (Inr path)
  then have path: "path = (take 2 h, h)" by (simp add: path_for_def split: if_splits)
  then have "map_of (st_files (set_deleting h s)) path \<noteq> None"
    using assms by (simp add: file_of_def set_deleting_def)
  then show ?thesis
    by (cases rule: remove_file_cases [of path "set_deleting h s"])
       (simp_all add: delete_blob_def Let_def Inr split: sum.split)
qed (simp add: delete_blob_def Let_def)

lemma delete_if_unowned_write_returns:
  "file_of h s \<noteq> None \<Longrightarrow> fst (delete_if_unowned_write now h s) = Inr ()"
  by (auto simp: delete_if_unowned_write_def delete_blob_returns split: option.split)

lemma release_lease_safe:
  fixes now :: int and h :: jstr and s :: store
  assumes ok: "store_ok sha s" and held: "file_of h s \<noteq> None" "0 < lease_count h s" "leases_positive s"
  defines "s' \<equiv> snd (release_lease now h s)"
  shows "fst (release_lease now h s) = Inr ()" "store_ok sha s'" "preserves s s'"
    "st_reservations s' = st_reservations s"
    "lease_count k s' = lease_count k s - (if k = h then 1 else 0)" "leases_positive s'"
    "protected j s' \<Longrightarrow> file_of j s \<noteq> None \<Longrightarrow> file_of j s' = file_of j s"
proof -
  let ?n = "lease_count h s - 1"
  let ?m = "s\<lparr>st_leases := (if ?n > 0 then AList.update h ?n (st_leases s) else AList.delete h (st_leases s))\<rparr>"
  have form: "release_lease now h s = delete_if_unowned_write now h ?m"
    using held(2) by (auto simp: release_lease_def Let_def lease_count_def split: option.splits)
  have okm: "store_ok sha ?m" using ok store_ok_leases by blast
  have shr: "shrinks ?m s'"
    unfolding s'_def form using okm by (intro delete_if_unowned_write_shrinks) (simp add: store_ok_def)
  have kept: "file_of h ?m \<noteq> None" using held(1) by (simp add: file_of_def)
  show "fst (release_lease now h s) = Inr ()"
    unfolding form by (rule delete_if_unowned_write_returns [OF kept])
  show "store_ok sha s'" by (rule store_ok_shrink [OF okm shr])
  show "preserves s s'"
    by (rule preserves_from [OF shrinks_preserves [OF shr]]) simp_all
  then show "protected j s' \<Longrightarrow> file_of j s \<noteq> None \<Longrightarrow> file_of j s' = file_of j s"
    by (simp add: preserves_def)
  show "st_reservations s' = st_reservations s" using shrinks_fields(3) [OF shr] by simp
  have l: "st_leases s' = st_leases ?m" using shrinks_fields(6) [OF shr] .
  show "lease_count k s' = lease_count k s - (if k = h then 1 else 0)"
    using held(2) by (auto simp: lease_count_def l map_of_update delete_conv split: option.splits)
  show "leases_positive s'"
    using held(3) by (auto simp: leases_positive_def l map_of_update delete_conv)
qed

subsection \<open>The calls as steps\<close>

text \<open>
  A state of the system is the store with the reservations and the leases that its callers
  hold. Each step is one call from its start, or from the end of its only wait, to its end:
  \<open>reserve\<close> is also the first part of \<open>admit\<close> and of \<open>admitVerifiedFile\<close>, whose second parts
  are steps of their own, so that other calls run in between. A file given to
  \<open>admitVerifiedFile\<close> does not change between the check and the copy.
\<close>

record store_system =
  sy_store :: store
  sy_pending :: "reservation list"
  sy_leases :: "lease list"

inductive store_step :: "(bytes \<Rightarrow> bytes) \<Rightarrow> store_system \<Rightarrow> store_system \<Rightarrow> bool" for sha where
  step_reserve: "reserve now token n (sy_store S) = (Inr r, s') \<Longrightarrow>
    store_step sha S (S\<lparr>sy_store := s', sy_pending := r # sy_pending S\<rparr>)"
| step_refused: "reserve now token n (sy_store S) = (Inl e, s') \<Longrightarrow>
    store_step sha S (S\<lparr>sy_store := s'\<rparr>)"
| step_release: "r \<in> set (sy_pending S) \<Longrightarrow>
    reservation_release (Live r) (sy_store S) = (handle, s') \<Longrightarrow>
    store_step sha S (S\<lparr>sy_store := s', sy_pending := remove1 r (sy_pending S)\<rparr>)"
| step_admit: "r \<in> set (sy_pending S) \<Longrightarrow>
    admit_finish sha now source opts r (sy_store S) = (result, s') \<Longrightarrow>
    store_step sha S (S\<lparr>sy_store := s', sy_pending := remove1 r (sy_pending S)\<rparr>)"
| step_import: "r \<in> set (sy_pending S) \<Longrightarrow>
    import_finish sha now checked (concat (bs_pieces checked)) expected (re_bytes r) origin owner r
      (sy_store S) = (result, s') \<Longrightarrow>
    store_step sha S (S\<lparr>sy_store := s', sy_pending := remove1 r (sy_pending S)\<rparr>)"
| step_lookup: "lookup now h (sy_store S) = (Inr (Some l), s') \<Longrightarrow>
    store_step sha S (S\<lparr>sy_store := s', sy_leases := l # sy_leases S\<rparr>)"
| step_lease_release: "l \<in> set (sy_leases S) \<Longrightarrow>
    lease_release now (Live l) (sy_store S) = (Inr u, Released, s') \<Longrightarrow>
    store_step sha S (S\<lparr>sy_store := s', sy_leases := remove1 l (sy_leases S)\<rparr>)"
| step_lease_throws: "l \<in> set (sy_leases S) \<Longrightarrow>
    lease_release now (Live l) (sy_store S) = (Inl e, handle, s') \<Longrightarrow>
    store_step sha S (S\<lparr>sy_store := s'\<rparr>)"
| step_acquire: "acquire_owner owner h (sy_store S) = (result, s') \<Longrightarrow>
    store_step sha S (S\<lparr>sy_store := s'\<rparr>)"
| step_transfer: "transfer_owner now source target hashes (sy_store S) = (result, s') \<Longrightarrow>
    store_step sha S (S\<lparr>sy_store := s'\<rparr>)"
| step_release_owner: "release_owner now owner hash (sy_store S) = (result, s') \<Longrightarrow>
    store_step sha S (S\<lparr>sy_store := s'\<rparr>)"
| step_route: "commit_route now route n cs upload (sy_store S) = (result, s') \<Longrightarrow>
    store_step sha S (S\<lparr>sy_store := s'\<rparr>)"
| step_close: "close_store (sy_store S) = (result, s') \<Longrightarrow>
    store_step sha S (S\<lparr>sy_store := s'\<rparr>)"

inductive reachable_store :: "(bytes \<Rightarrow> bytes) \<Rightarrow> store_system \<Rightarrow> store_system \<Rightarrow> bool" for sha S where
  reach_start: "reachable_store sha S S"
| reach_step: "reachable_store sha S T \<Longrightarrow> store_step sha T U \<Longrightarrow> reachable_store sha S U"

definition system_ok :: "(bytes \<Rightarrow> bytes) \<Rightarrow> store_system \<Rightarrow> bool" where
  "system_ok sha S \<longleftrightarrow> store_ok sha (sy_store S)
     \<and> (\<forall>r \<in> set (sy_pending S). holds r (sy_store S) \<and> 0 \<le> re_bytes r)
     \<and> distinct (map re_token (sy_pending S))
     \<and> leases_positive (sy_store S)
     \<and> (\<forall>h. lease_count h (sy_store S) = length (filter (\<lambda>l. le_hash l = h) (sy_leases S)))
     \<and> (\<forall>l \<in> set (sy_leases S). le_path l = (take 2 (le_hash l), le_hash l)
          \<and> file_of (le_hash l) (sy_store S) \<noteq> None)"

definition safe_step :: "(bytes \<Rightarrow> bytes) \<Rightarrow> store_system \<Rightarrow> store_system \<Rightarrow> bool" where
  "safe_step sha S T \<longleftrightarrow> system_ok sha T \<and> preserves (sy_store S) (sy_store T)"

lemma system_ok_leased:
  assumes "system_ok sha S" "l \<in> set (sy_leases S)"
  shows "leased (le_hash l) (sy_store S)" "0 < lease_count (le_hash l) (sy_store S)"
proof -
  have "l \<in> set (filter (\<lambda>x. le_hash x = le_hash l) (sy_leases S))" using assms(2) by simp
  then have "length (filter (\<lambda>x. le_hash x = le_hash l) (sy_leases S)) \<noteq> 0"
    by (metis length_0_conv list.set(1) empty_iff)
  then show "0 < lease_count (le_hash l) (sy_store S)" using assms(1) by (simp add: system_ok_def)
  then show "leased (le_hash l) (sy_store S)" using assms(1) leased_count by (simp add: system_ok_def)
qed

text \<open>A step that changes neither the leases nor the reservations that are held.\<close>

lemma safe_change_step:
  assumes ok: "system_ok sha S" and "safe_change sha (sy_store S) s'"
  shows "safe_step sha S (S\<lparr>sy_store := s'\<rparr>)"
proof -
  note c = assms(2) [unfolded safe_change_def]
  have files: "file_of (le_hash l) s' \<noteq> None" if l: "l \<in> set (sy_leases S)" for l
  proof -
    have "leased (le_hash l) s'" using system_ok_leased(1) [OF ok l] c by (simp add: leased_def)
    then show ?thesis using ok l c by (simp add: system_ok_def preserves_def protected_def)
  qed
  show ?thesis using ok c files
    by (simp add: safe_step_def system_ok_def holds_def lease_count_def leases_positive_def)
qed

text \<open>A step that ends a reservation.\<close>

lemma pending_step:
  assumes ok: "system_ok sha S" and r: "r \<in> set (sy_pending S)"
    and s': "store_ok sha s'" "preserves (sy_store S) s'" "st_leases s' = st_leases (sy_store S)"
      "keeps_others r (sy_store S) s'"
  shows "safe_step sha S (S\<lparr>sy_store := s', sy_pending := remove1 r (sy_pending S)\<rparr>)"
proof -
  have files: "file_of (le_hash l) s' \<noteq> None" if l: "l \<in> set (sy_leases S)" for l
  proof -
    have "leased (le_hash l) s'" using system_ok_leased(1) [OF ok l] s'(3) by (simp add: leased_def)
    then show ?thesis using ok l s'(2) by (simp add: system_ok_def preserves_def protected_def)
  qed
  have d: "distinct (map re_token (sy_pending S))" using ok by (simp add: system_ok_def)
  have others: "holds q s' \<and> 0 \<le> re_bytes q" if q: "q \<in> set (remove1 r (sy_pending S))" for q
  proof -
    have dis: "distinct (sy_pending S)" using d by (simp add: distinct_map)
    then have "q \<in> set (sy_pending S)" "q \<noteq> r" using q by auto
    then have "re_token q \<noteq> re_token r" using d r by (auto simp: distinct_map inj_on_def)
    then show ?thesis using ok \<open>q \<in> set (sy_pending S)\<close> s'(4)
      unfolding system_ok_def holds_def keeps_others_def by metis
  qed
  have "distinct (map re_token (remove1 r (sy_pending S)))"
    using d by (auto simp: distinct_map intro: inj_on_subset dest: notin_set_remove1)
  then show ?thesis using ok s' files others
    by (simp add: safe_step_def system_ok_def lease_count_def leases_positive_def)
qed

lemma step_safe:
  assumes "store_step sha S T" "system_ok sha S"
  shows "safe_step sha S T"
  using assms
proof (induction rule: store_step.induct)
  case (step_reserve now token n S r s')
  then have ok: "store_ok sha (sy_store S)" by (simp add: system_ok_def)
  note f = reserve_safe [OF ok, where now = now and token = token and n = n, unfolded step_reserve.hyps, simplified]
  have files: "file_of (le_hash l) s' \<noteq> None" if l: "l \<in> set (sy_leases S)" for l
  proof -
    have "leased (le_hash l) s'" using system_ok_leased(1) [OF step_reserve.prems l] f(3) by (simp add: leased_def)
    then show ?thesis using step_reserve.prems l f(2)
      by (auto simp: system_ok_def preserves_def protected_def)
  qed
  have "re_token r \<notin> re_token ` set (sy_pending S)"
  proof
    assume "re_token r \<in> re_token ` set (sy_pending S)"
    then obtain q where "q \<in> set (sy_pending S)" "re_token q = re_token r" by (metis imageE)
    then have "re_token r \<in> rv_token ` set (st_reservations (sy_store S))"
      using step_reserve.prems unfolding system_ok_def holds_def by (metis imageI)
    then show False using f(4) [of r] by simp
  qed
  then show ?case using step_reserve.prems f files
    by (auto simp: safe_step_def system_ok_def holds_def lease_count_def leases_positive_def)
next
  case (step_refused now token n S e s')
  then have ok: "store_ok sha (sy_store S)" by (simp add: system_ok_def)
  note f = reserve_safe [OF ok, where now = now and token = token and n = n, unfolded step_refused.hyps, simplified]
  have "safe_change sha (sy_store S) s'" using f by (simp add: safe_change_def)
  then show ?case using safe_change_step step_refused.prems by blast
next
  case (step_release r S handle s')
  then have ok: "store_ok sha (sy_store S)" and s': "s' = release_reservation (re_token r) (sy_store S)"
    by (simp_all add: system_ok_def reservation_release_def)
  have "keeps_others r (sy_store S) s'"
    by (auto simp: s' keeps_others_def release_reservation_def)
  then show ?case
    using pending_step [OF step_release.prems step_release.hyps(1)] release_reservation_safe [OF ok, of "re_token r"] s'
    by simp
next
  case (step_admit r S now source opts result s')
  then have "store_ok sha (sy_store S)" "holds r (sy_store S)" "0 \<le> re_bytes r"
    by (auto simp: system_ok_def)
  note f = admit_finish_safe [OF this, where now = now and source = source and opts = opts, unfolded step_admit.hyps(2), simplified]
  show ?case by (rule pending_step [OF step_admit.prems step_admit.hyps(1) f])
next
  case (step_import r S now checked expected origin owner result s')
  then have "store_ok sha (sy_store S)" "holds r (sy_store S)" "0 \<le> re_bytes r"
    by (auto simp: system_ok_def)
  note f = import_finish_safe [OF this, where now = now and checked = checked and expected = expected and origin = origin and owner = owner,
      unfolded step_import.hyps(2), simplified]
  show ?case by (rule pending_step [OF step_import.prems step_import.hyps(1) f])
next
  case (step_lookup now h S l s')
  then have ok: "store_ok sha (sy_store S)" by (simp add: system_ok_def)
  note f = lookup_safe [OF ok step_lookup.hyps]
  show ?case using step_lookup.prems f
    by (auto simp: safe_step_def system_ok_def holds_def)
next
  case (step_lease_release l S now u s')
  then have ok: "store_ok sha (sy_store S)" by (simp add: system_ok_def)
  let ?h = "le_hash l"
  have held: "file_of ?h (sy_store S) \<noteq> None" "0 < lease_count ?h (sy_store S)" "leases_positive (sy_store S)"
    using step_lease_release.prems step_lease_release.hyps(1) system_ok_leased
    by (auto simp: system_ok_def)
  note f = release_lease_safe [OF ok held, where now = now]
  have s': "s' = snd (release_lease now ?h (sy_store S))"
    using step_lease_release.hyps(2) by (auto simp: lease_release_def split: prod.splits sum.splits)
  have count: "lease_count k s' = length (filter (\<lambda>x. le_hash x = k) (remove1 l (sy_leases S)))" for k
    using f(5) [of k] step_lease_release.prems step_lease_release.hyps(1)
    by (auto simp: s' system_ok_def length_remove1 filter_remove1)
  have files: "file_of (le_hash x) s' \<noteq> None" if x: "x \<in> set (remove1 l (sy_leases S))" for x
  proof -
    have "x \<in> set (filter (\<lambda>y. le_hash y = le_hash x) (remove1 l (sy_leases S)))" using x by simp
    then have "0 < lease_count (le_hash x) s'" unfolding count by (metis length_pos_if_in_set)
    then have "protected (le_hash x) s'" using leased_count f(6) by (simp add: s' protected_def)
    moreover have "file_of (le_hash x) (sy_store S) \<noteq> None"
      using step_lease_release.prems notin_set_remove1 x by (fastforce simp: system_ok_def)
    ultimately show ?thesis using f(7) by (simp add: s')
  qed
  show ?case using step_lease_release.prems f(1-4,6) count files
    by (auto simp: safe_step_def system_ok_def holds_def s' dest: notin_set_remove1)
next
  case (step_lease_throws l S now e handle s')
  then have ok: "store_ok sha (sy_store S)" by (simp add: system_ok_def)
  have held: "file_of (le_hash l) (sy_store S) \<noteq> None" "0 < lease_count (le_hash l) (sy_store S)"
    "leases_positive (sy_store S)"
    using step_lease_throws.prems step_lease_throws.hyps(1) system_ok_leased by (auto simp: system_ok_def)
  show ?case using release_lease_safe(1) [OF ok held, where now = now] step_lease_throws.hyps(2)
    by (auto simp: lease_release_def split: prod.splits sum.splits)
next
  case (step_acquire owner h S result s')
  then show ?case using acquire_owner_safe [of sha "sy_store S" owner h] safe_change_step
    by (simp add: system_ok_def)
next
  case (step_transfer now source target hashes S result s')
  then show ?case using transfer_owner_safe [of sha "sy_store S" now source target hashes] safe_change_step
    by (simp add: system_ok_def)
next
  case (step_release_owner now owner hash S result s')
  then show ?case using release_owner_safe [of sha "sy_store S" now owner hash] safe_change_step
    by (simp add: system_ok_def)
next
  case (step_route now route n cs upload S result s')
  then show ?case using commit_route_safe [of sha "sy_store S" now route n cs upload] safe_change_step
    by (simp add: system_ok_def)
next
  case (step_close S result s')
  have "store_ok sha (s\<lparr>st_closed := True\<rparr>) = store_ok sha s" for s
    by (simp add: store_ok_def tables_ok_def within_capacity_def content_ok_def catalog_of_def
      file_of_def ready_bytes_def reserved_bytes_def)
  then have "safe_change sha (sy_store S) s'"
    using step_close by (auto simp: close_store_def safe_change_def system_ok_def preserves_same split: if_splits)
  then show ?case using safe_change_step step_close.prems by blast
qed

lemma reachable_ok: "reachable_store sha S T \<Longrightarrow> system_ok sha S \<Longrightarrow> system_ok sha T"
  by (induction rule: reachable_store.induct) (auto dest: step_safe simp: safe_step_def)

subsection \<open>What the store guarantees\<close>

text \<open>A new store: nothing in the tables or in the directory.\<close>

definition empty_disk :: "jstr option list \<Rightarrow> store" where
  "empty_disk faults = \<lparr>st_capacity = 0, st_catalog = [], st_owners = [], st_reservations = [],
     st_tombstones = [], st_routes = [], st_components = [], st_leases = [], st_closed = False,
     st_files = [], st_tmp = [], st_quarantined = [], st_faults = faults\<rparr>"

definition start_of :: "store \<Rightarrow> store_system" where
  "start_of s = \<lparr>sy_store = s, sy_pending = [], sy_leases = []\<rparr>"

lemma open_empty:
  "open_store sha uuid now capacity (empty_disk faults) = Inr s \<Longrightarrow>
    \<exists>c > 0. s = (empty_disk faults)\<lparr>st_capacity := c\<rparr>"
  by (auto simp: open_store_def Let_def reconcile_def empty_disk_def directory_listing_def uniq_def
      split: if_splits)

lemma empty_ok: "c > 0 \<Longrightarrow> system_ok sha (start_of ((empty_disk faults)\<lparr>st_capacity := c\<rparr>))"
  by (simp add: system_ok_def start_of_def empty_disk_def store_ok_def tables_ok_def
      within_capacity_def content_ok_def file_of_def ready_bytes_def reserved_bytes_def
      leases_positive_def lease_count_def)

lemma opened_ok:
  assumes "open_store sha uuid now capacity (empty_disk faults) = Inr s" "reachable_store sha (start_of s) T"
  shows "system_ok sha T"
  using open_empty [OF assms(1)] empty_ok reachable_ok [OF assms(2)] by blast

text \<open>
  C17: The capacity is never exceeded: from a new store, whatever calls are made in whatever
  order and however the removals of files fail, the bytes of the ready blobs and the bytes
  reserved for admissions under way never sum to more than the capacity.
\<close>

theorem store_within_capacity:
  assumes "open_store sha uuid now capacity (empty_disk faults) = Inr s"
    and "reachable_store sha (start_of s) T"
  shows "bu_ready (usage (sy_store T)) + bu_reserved (usage (sy_store T)) \<le> bu_capacity (usage (sy_store T))"
  using opened_ok [OF assms]
  by (simp add: system_ok_def store_ok_def within_capacity_def usage_def)

text \<open>
  C18: A lease holds: in every reachable state each lease that a caller holds can be opened and
  gives bytes whose SHA-256 is the hash that was looked up, whatever was evicted, released or
  rolled back since, and the store refuses to close.
\<close>

theorem leased_blob_reads:
  assumes "open_store sha uuid now capacity (empty_disk faults) = Inr s"
    and "reachable_store sha (start_of s) T" and l: "l \<in> set (sy_leases T)"
  shows "(\<exists>bs. lease_open (Live l) (sy_store T) = Inr bs \<and> to_hex (sha bs) = le_hash l)
    \<and> (st_closed (sy_store T) \<or> fst (close_store (sy_store T)) = Inl BE_leases_open)"
proof -
  have ok: "system_ok sha T" by (rule opened_ok [OF assms(1,2)])
  have path: "le_path l = (take 2 (le_hash l), le_hash l)" "file_of (le_hash l) (sy_store T) \<noteq> None"
    using ok l by (simp_all add: system_ok_def)
  then obtain bs where bs: "file_of (le_hash l) (sy_store T) = Some bs" by blast
  then have "to_hex (sha bs) = le_hash l"
    using ok by (simp add: system_ok_def store_ok_def content_ok_def)
  moreover have "st_leases (sy_store T) \<noteq> []"
    using system_ok_leased(1) [OF ok l] by (auto simp: leased_def)
  ultimately show ?thesis using bs path by (simp add: lease_open_def file_of_def close_store_def)
qed

text \<open>
  What is owned or leased stays: no call removes the file or the catalog row of a ready
  blob that is still owned or leased when the call has ended, also when the call throws.
\<close>

theorem protected_blobs_stay:
  assumes "open_store sha uuid now capacity (empty_disk faults) = Inr s"
    and "reachable_store sha (start_of s) T" and "store_step sha T U"
    and "owned h (sy_store U) \<or> leased h (sy_store U)"
    and "catalog_of h (sy_store T) = Some r" and "ca_state r = S_ready"
    and "file_of h (sy_store T) = Some bs"
  shows "\<exists>r'. catalog_of h (sy_store U) = Some r' \<and> ca_state r' = S_ready \<and> ca_size r' = ca_size r
    \<and> file_of h (sy_store U) = Some bs"
  using step_safe [OF assms(3) opened_ok [OF assms(1,2)]] assms(4-7)
  by (auto simp: safe_step_def preserves_def protected_def is_ready_def)

subsection \<open>A run of the store\<close>

definition sample_digest :: "bytes \<Rightarrow> bytes" where
  "sample_digest bs = replicate 32 7"

definition sample_hash :: jstr where
  "sample_hash = to_hex (replicate 32 7)"

lemma sample_hash_ok [simp]: "is_hash sample_hash" "to_hex (sample_digest bs) = sample_hash"
  by (simp_all add: sample_hash_def sample_digest_def is_hash_to_hex)

definition sample_open :: store where
  "sample_open = (empty_disk [])\<lparr>st_capacity := 8\<rparr>"

definition sample_reservation :: reservation where
  "sample_reservation = \<lparr>re_token = js ''t'', re_bytes = 5\<rparr>"

definition sample_admitted :: store where
  "sample_admitted = sample_open\<lparr>st_catalog := [\<lparr>ca_hash = sample_hash, ca_size = 3,
       ca_origin = O_write, ca_accessed = 2, ca_state = S_ready\<rparr>],
     st_files := [((take 2 sample_hash, sample_hash), [1, 2, 3])]\<rparr>"

definition sample_lease :: lease where
  "sample_lease = \<lparr>le_hash = sample_hash, le_size = 3, le_path = (take 2 sample_hash, sample_hash)\<rparr>"

definition sample_leased :: store where
  "sample_leased = sample_admitted\<lparr>st_leases := [(sample_hash, 1)],
     st_catalog := [\<lparr>ca_hash = sample_hash, ca_size = 3, ca_origin = O_write, ca_accessed = 3,
       ca_state = S_ready\<rparr>]\<rparr>"

lemma sample_opens: "open_store sample_digest (\<lambda>p. []) 0 (Some 8) (empty_disk []) = Inr sample_open"
  by (simp add: open_store_def reconcile_def empty_disk_def directory_listing_def uniq_def
      sample_open_def safe_int_def max_safe_def)

lemma sample_reserves: "reserve 1 (js ''t'') 5 sample_open =
    (Inr sample_reservation, sample_open\<lparr>st_reservations := [\<lparr>rv_token = js ''t'', rv_bytes = 5, rv_created = 1\<rparr>]\<rparr>)"
  by (simp add: reserve_def sample_open_def empty_disk_def safe_int_def max_safe_def make_space_def
      has_room_def ready_bytes_def reserved_bytes_def insert_row_def has_key_def sample_reservation_def)

lemma sample_admits:
  "admit_finish sample_digest 2 \<lparr>bs_pieces = [[1], [2, 3]], bs_fails = False\<rparr>
     \<lparr>ad_origin = O_write, ad_owner = None, ad_expected = None\<rparr> sample_reservation
     (sample_open\<lparr>st_reservations := [\<lparr>rv_token = js ''t'', rv_bytes = 5, rv_created = 1\<rparr>]\<rparr>)
   = (Inr (Some \<lparr>ie_hash = sample_hash, ie_size = 3, ie_origin = O_write, ie_accessed = 2, ie_owners = 0\<rparr>),
      sample_admitted)"
  by (simp add: admit_finish_def admit_body_def admit_finally_def sample_reservation_def sample_open_def
      empty_disk_def given_def promote_def path_for_def link_temp_def catalog_of_def row_def
      upsert_blob_def has_key_def delete_where_def entry_of_def inventory_rows_def
      default_inventory_def is_ready_def release_reservation_def sample_admitted_def Let_def
      sort_key_def)

lemma sample_looks_up: "lookup 3 sample_hash sample_admitted = (Inr (Some sample_lease), sample_leased)"
  by (simp add: lookup_def path_for_def ready_row_def is_ready_def sample_admitted_def sample_open_def
      empty_disk_def sample_lease_def sample_leased_def update_where_def)

lemma sample_admitted_reached:
  "reachable_store sample_digest (start_of sample_open) (start_of sample_admitted)"
proof -
  let ?s = "sample_open\<lparr>st_reservations := [\<lparr>rv_token = js ''t'', rv_bytes = 5, rv_created = 1\<rparr>]\<rparr>"
  let ?S = "\<lparr>sy_store = ?s, sy_pending = [sample_reservation], sy_leases = []\<rparr>"
  have "store_step sample_digest (start_of sample_open) ?S"
    using step_reserve [of 1 "js ''t''" 5 "start_of sample_open"] sample_reserves
    by (simp add: start_of_def)
  moreover have "store_step sample_digest ?S (start_of sample_admitted)"
    using step_admit [of sample_reservation ?S sample_digest 2 "\<lparr>bs_pieces = [[1], [2, 3]], bs_fails = False\<rparr>"
        "\<lparr>ad_origin = O_write, ad_owner = None, ad_expected = None\<rparr>"] sample_admits
    by (simp add: start_of_def)
  ultimately show ?thesis by (meson reach_start reach_step)
qed

lemma sample_leased_step:
  "store_step sample_digest (start_of sample_admitted)
     ((start_of sample_admitted)\<lparr>sy_store := sample_leased, sy_leases := [sample_lease]\<rparr>)"
  using step_lookup [of 3 sample_hash "start_of sample_admitted"] sample_looks_up
  by (simp add: start_of_def)

theorem store_within_capacity_witness:
  "bu_ready (usage sample_admitted) = 3
   \<and> bu_ready (usage sample_admitted) + bu_reserved (usage sample_admitted) \<le> bu_capacity (usage sample_admitted)"
  using store_within_capacity [OF sample_opens sample_admitted_reached]
  by (simp add: start_of_def) (simp add: usage_def ready_bytes_def sample_admitted_def is_ready_def)

theorem leased_blob_reads_witness:
  "\<exists>bs. lease_open (Live sample_lease) sample_leased = Inr bs \<and> to_hex (sample_digest bs) = sample_hash"
proof -
  let ?T = "(start_of sample_admitted)\<lparr>sy_store := sample_leased, sy_leases := [sample_lease]\<rparr>"
  have "reachable_store sample_digest (start_of sample_open) ?T"
    using reach_step [OF sample_admitted_reached sample_leased_step] .
  from leased_blob_reads [OF sample_opens this, of sample_lease] show ?thesis
    by (simp add: sample_lease_def)
qed

theorem protected_blobs_stay_witness:
  "\<exists>r. catalog_of sample_hash sample_leased = Some r \<and> ca_state r = S_ready \<and> ca_size r = 3
    \<and> file_of sample_hash sample_leased = Some [1, 2, 3]"
  using protected_blobs_stay [OF sample_opens sample_admitted_reached sample_leased_step,
      of sample_hash "\<lparr>ca_hash = sample_hash, ca_size = 3, ca_origin = O_write, ca_accessed = 2,
        ca_state = S_ready\<rparr>" "[1, 2, 3]"]
  by (simp add: start_of_def leased_def sample_leased_def sample_admitted_def catalog_of_def row_def
      file_of_def)

end
