(* ===== verification/Blob_Startup.thy ===== *)
theory Blob_Startup
  imports Blob_Proofs
begin

section \<open>Where the blob store loses blobs\<close>

text \<open>
  Two behaviours of \<^verbatim>\<open>src/persistence/blob_store.ts\<close> around removed files: a reservation that
  fails rolls the catalog back but not the files it removed, and the startup removes every
  blob with a tombstone, also one that was admitted again since.
\<close>

subsection \<open>Removing without failures\<close>

lemma file_of_delete:
  "map_of (AList.delete (take 2 h, h) m) (take 2 k, k) = (if k = h then None else map_of m (take 2 k, k))"
  by (auto simp: delete_conv)

text \<open>Without faults and routes a removal takes the file and the row.\<close>

lemma delete_blob_clean:
  assumes "st_faults s = []" "st_components s = []" "is_hash h"
  shows "fst (delete_blob now h s) = Inr ()"
    "file_of k (snd (delete_blob now h s)) = (if k = h then None else file_of k s)"
    "catalog_of k (snd (delete_blob now h s)) = (if k = h then None else catalog_of k s)"
    "st_faults (snd (delete_blob now h s)) = []" "st_components (snd (delete_blob now h s)) = []"
proof -
  let ?s1 = "set_deleting h s"
  let ?p = "(take 2 h, h)"
  have path: "path_for h = Inr ?p" using assms(3) by (simp add: path_for_def)
  have c1: "st_components ?s1 = []" "st_faults ?s1 = []" "st_files ?s1 = st_files s"
    using assms by (simp_all add: set_deleting_def)
  have cat: "row ca_hash k (delete_where (\<lambda>r. ca_hash r = h) (st_catalog ?s1))
      = (if k = h then None else row ca_hash k (st_catalog s))" for k
    using catalog_of_deleting [of k h s] by (simp add: row_delete_where catalog_of_def)
  have "fst (delete_blob now h s) = Inr ()
    \<and> file_of k (snd (delete_blob now h s)) = (if k = h then None else file_of k s)
    \<and> catalog_of k (snd (delete_blob now h s)) = (if k = h then None else catalog_of k s)
    \<and> st_faults (snd (delete_blob now h s)) = [] \<and> st_components (snd (delete_blob now h s)) = []" for k
  proof (cases "map_of (st_files s) ?p")
    case None
    then show ?thesis
      by (simp add: delete_blob_def Let_def path remove_file_def c1 delete_catalog_def catalog_of_def
          file_of_def cat)
  next
    case (Some bs)
    then show ?thesis
      by (simp add: delete_blob_def Let_def path remove_file_def c1 delete_catalog_def catalog_of_def
          file_of_def cat file_of_delete)
  qed
  then show "fst (delete_blob now h s) = Inr ()"
    "file_of k (snd (delete_blob now h s)) = (if k = h then None else file_of k s)"
    "catalog_of k (snd (delete_blob now h s)) = (if k = h then None else catalog_of k s)"
    "st_faults (snd (delete_blob now h s)) = []" "st_components (snd (delete_blob now h s)) = []"
    by blast+
qed

subsection \<open>A reservation that fails\<close>

lemma blob_evict_returns:
  "st_faults s = [] \<Longrightarrow> st_components s = [] \<Longrightarrow> \<forall>h \<in> set hs. is_hash h \<Longrightarrow>
    fst (evict now n hs s) = Inr ()"
proof (induction hs arbitrary: s)
  case (Cons h hs)
  note d = delete_blob_clean [OF Cons.prems(1,2), where h = h and now = now]
  show ?case using Cons d(1,4,5) by (cases "delete_blob now h s") auto
qed simp

lemma evict_exhausts:
  assumes "st_faults s = []" "st_components s = []" "\<forall>h \<in> set hs. is_hash h"
    "evict now n hs s = (r, s')" "\<not> has_room n s'" "h \<in> set hs" "\<not> leased h s" "tables_ok s"
    "\<forall>h \<in> set hs. \<not> owned h s"
  shows "r = Inr () \<and> file_of h s' = None"
  using assms
proof (induction hs arbitrary: s)
  case (Cons k hs)
  show ?case
  proof (cases "leased k s")
    case True
    then show ?thesis using Cons by auto
  next
    case False
    let ?d = "snd (delete_blob now k s)"
    note c = delete_blob_clean [OF Cons.prems(1,2), where h = k and now = now]
    have shr: "shrinks s ?d"
      using Cons.prems False by (intro delete_blob_shrinks) (simp_all add: protected_def)
    have kh: "is_hash k" using Cons.prems by simp
    have next': "evict now n (k # hs) s = (if has_room n ?d then (Inr (), ?d) else evict now n hs ?d)"
      using False c(1) [OF kh] by (cases "delete_blob now k s") auto
    have more': "evict now n hs ?d = (r, s')" "\<not> has_room n ?d"
      using Cons.prems(4,5) next' by (auto split: if_splits)
    have facts: "st_faults ?d = []" "st_components ?d = []" "tables_ok ?d" "\<not> leased h ?d"
      "\<forall>h \<in> set hs. \<not> owned h ?d"
      using c kh tables_shrink [OF Cons.prems(8) shr] shrinks_fields(2,6) [OF shr] Cons.prems
      by (simp_all add: leased_def owned_iff)
    have unowned: "\<not> owned x ?d" if "x \<in> set hs" for x using facts(5) that by blast
    show ?thesis
    proof (cases "h \<in> set hs")
      case True
      then show ?thesis using Cons.IH facts more' Cons.prems by simp
    next
      case False
      then have "h = k" using Cons.prems(6) by simp
      then have gone: "file_of h ?d = None" using c(2) kh by simp
      have "shrinks ?d (snd (evict now n hs ?d))"
        using facts by (intro evict_shrinks) simp_all
      then have "file_of h s' = None" using more'(1) gone shrinks_files [of ?d s' h] by simp
      moreover have "r = Inr ()"
        using blob_evict_returns [of ?d hs now n] facts Cons.prems(3) more'(1) by simp
      ultimately show ?thesis by simp
    qed
  qed
qed simp

text \<open>
  C19: A reservation that fails loses blobs without forgetting them: when \<open>reserve\<close> throws for
  want of capacity, no removal of a file failed and no staged route refers to blobs, then every
  unowned fetched blob that nobody leases has lost its file, because it was removed on the way,
  but the transaction is rolled back, so \<open>has\<close> still answers yes and the usage still counts it,
  while \<open>lookup\<close> finds nothing. (A leased blob is passed over and keeps its file.)
\<close>

theorem failed_reserve_loses_files:
  assumes "tables_ok s" "st_faults s = []" "st_components s = []"
    and "reserve now token n s = (Inl BE_capacity, s')"
    and "h \<in> set (eviction_candidates s)" "\<not> leased h s"
  shows "file_of h s' = None \<and> has_blob h s' = Inr True \<and> bu_ready (usage s') = bu_ready (usage s)
    \<and> lookup later h s' = (Inr None, s')"
proof -
  have hashes: "\<forall>k \<in> set (eviction_candidates s). is_hash k \<and> \<not> owned k s"
    using assms(1) by (auto simp: eviction_candidates_def tables_ok_def)
  then have "fst (make_space now n s) = Inr ()"
    using blob_evict_returns [OF assms(2,3)] by (simp add: make_space_def)
  then obtain m where m: "make_space now n s = (Inr (), m)" by (metis prod.collapse)
  have s': "s' = rollback s m" and no_room: "\<not> has_room n m"
    using assms(4) m by (auto simp: reserve_def split: if_splits option.splits)
  have "make_space now n s = evict now n (eviction_candidates s) s"
    using no_room m by (auto simp: make_space_def split: if_splits)
  then have "evict now n (eviction_candidates s) s = (Inr (), m)" using m by simp
  then have gone: "file_of h m = None"
    using evict_exhausts [OF assms(2,3), of "eviction_candidates s" now n] hashes no_room assms(1,5,6)
    by blast
  obtain r where r: "r \<in> set (st_catalog s)" "ca_hash r = h" "is_ready r"
    using assms(5) by (auto simp: eviction_candidates_def)
  have "ready_row h s' \<noteq> None"
    using r by (auto simp: ready_row_def s' rollback_def find_None_iff)
  moreover have "file_of h s' = None" using gone by (simp add: s' rollback_def file_of_def)
  moreover have "ready_bytes s' = ready_bytes s" by (simp add: s' rollback_def ready_bytes_def)
  ultimately show ?thesis using hashes assms(5)
    by (auto simp: has_blob_def usage_def lookup_def path_for_def file_of_def split: option.split)
qed

subsection \<open>Startup\<close>

definition tombstoned :: "jstr \<Rightarrow> store \<Rightarrow> bool" where
  "tombstoned h s \<longleftrightarrow> h \<in> to_hash ` set (st_tombstones s)"

definition erased :: "jstr \<Rightarrow> store \<Rightarrow> bool" where
  "erased h s \<longleftrightarrow> file_of h s = None \<and> catalog_of h s = None"

definition quiet :: "store \<Rightarrow> bool" where
  "quiet s \<longleftrightarrow> st_faults s = [] \<and> st_components s = []"

lemma delete_blob_invalid:
  "\<not> is_hash k \<Longrightarrow> delete_blob now k s = (Inr (),
     add_tombstone now k (js ''TypeError: invalid lowercase SHA-256 hash'') (set_deleting k s))"
  by (simp add: delete_blob_def Let_def path_for_def)

lemma delete_blob_tombstones:
  assumes "quiet s" "tombstoned h s"
  shows "tombstoned h (snd (delete_blob now k s)) \<or> h = k"
proof (cases "is_hash k")
  case True
  then have path: "path_for k = Inr (take 2 k, k)" by (simp add: path_for_def)
  show ?thesis using assms
    by (auto simp: delete_blob_def Let_def path remove_file_def set_deleting_def delete_catalog_def quiet_def
        tombstoned_def split: option.split)
next
  case False
  then show ?thesis using assms(2)
    by (auto simp: delete_blob_invalid add_tombstone_def set_deleting_def tombstoned_def insert_replace_def)
qed

lemma delete_blob_erases:
  assumes "quiet s"
  shows "quiet (snd (delete_blob now k s))" "erased h s \<Longrightarrow> erased h (snd (delete_blob now k s))"
    "is_hash h \<Longrightarrow> h = k \<Longrightarrow> erased h (snd (delete_blob now k s))"
    "fst (delete_blob now k s) = Inr ()"
proof -
  have q: "st_faults s = []" "st_components s = []" using assms(1) by (simp_all add: quiet_def)
  note c = delete_blob_clean [OF q, where now = now and h = k]
  show "quiet (snd (delete_blob now k s))"
    using c(4,5) q by (cases "is_hash k") (simp_all add: quiet_def delete_blob_invalid add_tombstone_def set_deleting_def)
  show "fst (delete_blob now k s) = Inr ()"
    using c(1) by (cases "is_hash k") (simp_all add: delete_blob_invalid)
  show "is_hash h \<Longrightarrow> h = k \<Longrightarrow> erased h (snd (delete_blob now k s))"
    using c(2,3) by (simp add: erased_def)
  show "erased h (snd (delete_blob now k s))" if "erased h s"
  proof (cases "is_hash k")
    case True
    then show ?thesis using c(2,3) that by (simp add: erased_def)
  next
    case False
    then show ?thesis using that catalog_of_deleting [of h k s] file_of_deleting [of h k s]
      by (cases "h = k") (simp_all add: delete_blob_invalid add_tombstone_def erased_def catalog_of_def file_of_def)
  qed
qed

lemma delete_blobs_erase:
  "quiet s \<Longrightarrow> is_hash h \<Longrightarrow> erased h s \<or> h \<in> set ks \<Longrightarrow>
    for_each (delete_blob now) ks s = (Inr u, s') \<Longrightarrow> erased h s'"
proof (induction ks arbitrary: s)
  case (Cons k ks)
  note d = delete_blob_erases [OF Cons.prems(1), where now = now and k = k]
  obtain t where t: "delete_blob now k s = (Inr (), t)" using d(4) by (metis prod.collapse)
  have "erased h t \<or> h \<in> set ks" using Cons.prems(2,3) d(2,3) t by auto
  then show ?case using Cons.IH [of t] Cons.prems(2,4) d(1) t by simp
qed simp

lemma delete_catalog_quiet:
  "quiet s \<Longrightarrow> \<exists>s'. delete_catalog k s = Inr s' \<and> quiet s' \<and> st_tombstones s' = st_tombstones s
    \<and> st_files s' = st_files s \<and> catalog_of j s' = (if j = k then None else catalog_of j s)"
  by (simp add: delete_catalog_def quiet_def catalog_of_def row_delete_where)

lemma move_away_files:
  "map_of (st_files (move_away p name s)) q = None \<or>
    map_of (st_files (move_away p name s)) q = map_of (st_files s) q"
  "st_catalog (move_away p name s) = st_catalog s" "quiet s \<Longrightarrow> quiet (move_away p name s)"
  "st_tombstones (move_away p name s) = st_tombstones s"
  by (auto simp: move_away_def quiet_def delete_conv split: option.split)

lemma erased_mono:
  "erased h s \<Longrightarrow> (\<And>q. map_of (st_files s') q = None \<or> map_of (st_files s') q = map_of (st_files s) q) \<Longrightarrow>
    catalog_of h s' = None \<or> catalog_of h s' = catalog_of h s \<Longrightarrow> erased h s'"
  unfolding erased_def file_of_def by metis

definition doomed :: "jstr \<Rightarrow> store \<Rightarrow> bool" where
  "doomed h s \<longleftrightarrow> quiet s \<and> (tombstoned h s \<or> erased h s)"

lemma doomed_drop:
  assumes "doomed h t" "delete_catalog k t = Inr t'"
  shows "doomed h t'"
proof -
  have q: "quiet t" using assms(1) by (simp add: doomed_def)
  have "quiet t' \<and> st_tombstones t' = st_tombstones t \<and> st_files t' = st_files t
    \<and> catalog_of h t' = (if h = k then None else catalog_of h t)"
    using delete_catalog_quiet [OF q, of k h] assms(2) by simp
  then show ?thesis using assms(1) by (auto simp: doomed_def tombstoned_def erased_def file_of_def)
qed

lemma doomed_move:
  assumes "doomed h s"
  shows "doomed h (move_away path name s)"
proof -
  have "erased h s \<Longrightarrow> erased h (move_away path name s)"
    by (erule erased_mono) (rule move_away_files(1), simp add: catalog_of_def move_away_files(2))
  then show ?thesis using assms move_away_files(3,4)
    by (auto simp: doomed_def tombstoned_def)
qed

lemma doomed_delete: "doomed h s \<Longrightarrow> is_hash h \<Longrightarrow> doomed h (snd (delete_blob now k s))"
  unfolding doomed_def
  using delete_blob_erases(1) [of s now k] delete_blob_erases(2) [of s h now k]
    delete_blob_erases(3) [of s h k now] delete_blob_tombstones [of s h now k] by blast

lemma reconcile_row_keeps:
  assumes "doomed h s" "is_hash h" "reconcile_row now r s = (Inr u, s')"
  shows "doomed h s'"
proof (cases "path_for (ca_hash r)")
  case (Inl e)
  then show ?thesis using assms(3) by (simp add: reconcile_row_def)
next
  case (Inr path)
  let ?k = "ca_hash r"
  show ?thesis
  proof (cases "map_of (st_files s) path")
    case None
    then have "delete_catalog ?k s = Inr s'"
      using assms(3) Inr by (simp add: reconcile_row_def split: sum.splits)
    then show ?thesis by (rule doomed_drop [OF assms(1)])
  next
    case (Some bs)
    then have "reconcile_row now r s = (if int (length bs) \<noteq> ca_size r then quarantine_blob now ?k s
        else if ca_state r = S_deleting then delete_blob now ?k s else (Inr (), s))"
      using Inr by (simp add: reconcile_row_def)
    then consider (quarantined) "quarantine_blob now ?k s = (Inr u, s')"
      | (deleted) "delete_blob now ?k s = (Inr u, s')" | (kept) "s' = s"
      using assms(3) by (simp split: if_splits)
    then show ?thesis
    proof cases
      case quarantined
      let ?m = "move_away path (?k @ js ''-'' @ dec_digits (nat now)) s"
      have "delete_catalog ?k ?m = Inr s'"
        using quarantined Inr by (simp add: quarantine_blob_def Let_def split: sum.splits)
      then show ?thesis by (rule doomed_drop [OF doomed_move [OF assms(1)]])
    next
      case deleted
      then show ?thesis using doomed_delete [OF assms(1,2), of now ?k] by simp
    qed (use assms(1) in simp)
  qed
qed

lemma for_each_inv:
  assumes "for_each f xs s = (Inr u, s')" "I s"
    and "\<And>x t u t'. x \<in> set xs \<Longrightarrow> I t \<Longrightarrow> f x t = (Inr u, t') \<Longrightarrow> I t'"
  shows "I s'"
  using assms
proof (induction xs arbitrary: s)
  case (Cons x xs)
  obtain v t where t: "f x s = (Inr v, t)" "for_each f xs t = (Inr u, s')"
    using Cons.prems(1) by (auto split: prod.splits sum.splits)
  show ?case
    by (rule Cons.IH [OF t(2)]) (use Cons.prems t(1) in \<open>auto intro: Cons.prems(3)\<close>)
qed simp

lemma reconcile_file_erased:
  assumes "erased h s" "reconcile_file sha uuid now path s = (Inr u, s')"
  shows "erased h s'"
proof -
  obtain prefix name where p: "path = (prefix, name)" by (cases path)
  have moved: "erased h (quarantine_path uuid path s)"
    unfolding quarantine_path_def
    by (rule erased_mono [OF assms(1) move_away_files(1)]) (simp add: catalog_of_def move_away_files(2))
  show ?thesis
  proof (cases "\<not> is_hash name \<or> take 2 name \<noteq> prefix \<or> ready_row name s \<noteq> None")
    case True
    then show ?thesis using assms moved by (auto simp: reconcile_file_def p split: if_splits)
  next
    case False
    then obtain bs where bs: "map_of (st_files s) path = Some bs"
      using assms(2) by (auto simp: reconcile_file_def p split: option.splits if_splits)
    then have "name \<noteq> h" using assms(1) False by (auto simp: erased_def file_of_def p)
    then show ?thesis using assms bs False moved
      by (auto simp: reconcile_file_def p hash_file_def Let_def insert_row_Some erased_def
          catalog_of_def row_append file_of_def split: option.splits if_splits)
  qed
qed

text \<open>
  Startup removes every blob that has a tombstone: after a removal failed, the hash keeps
  its tombstone also when the blob is admitted again and owned, and the next \<open>reconcile\<close>
  removes its file and its row, whoever owns it.
\<close>

theorem startup_erases_tombstoned:
  assumes "reconcile sha uuid now s = (Inr u, s')" "h \<in> to_hash ` set (st_tombstones s)" "is_hash h"
    and "st_faults s = []" "st_components s = []"
  shows "file_of h s' = None \<and> catalog_of h s' = None"
proof -
  let ?s0 = "s\<lparr>st_reservations := [], st_tmp := []\<rparr>"
  obtain s1 where s1: "for_each (reconcile_row now) (st_catalog ?s0) ?s0 = (Inr (), s1)"
    using assms(1) by (auto simp: reconcile_def Let_def split: prod.splits sum.splits)
  obtain s2 where s2: "for_each (delete_blob now) (map to_hash (sort_key to_hash (st_tombstones s1))) s1 = (Inr (), s2)"
    and s': "for_each (reconcile_file sha uuid now) (directory_listing s2) s2 = (Inr u, s')"
    using assms(1) s1 by (auto simp: reconcile_def Let_def split: prod.splits sum.splits)
  have one: "doomed h s1"
  proof (rule for_each_inv [where I = "doomed h", OF s1])
    show "doomed h ?s0" using assms by (simp add: doomed_def quiet_def tombstoned_def)
  qed (use reconcile_row_keeps assms(3) in blast)
  have two: "erased h s2"
    by (rule delete_blobs_erase [OF _ assms(3) _ s2]) (use one in \<open>auto simp: doomed_def tombstoned_def\<close>)
  have "erased h s'"
    by (rule for_each_inv [where I = "erased h", OF s' two]) (rule reconcile_file_erased)
  then show ?thesis by (simp add: erased_def)
qed

subsection \<open>Runs in which blobs are lost\<close>

definition sample_full :: store where
  "sample_full = sample_open\<lparr>st_catalog := [\<lparr>ca_hash = sample_hash, ca_size = 3, ca_origin = O_remote,
       ca_accessed = 2, ca_state = S_ready\<rparr>],
     st_files := [((take 2 sample_hash, sample_hash), [1, 2, 3])],
     st_reservations := [\<lparr>rv_token = js ''r'', rv_bytes = 5, rv_created = 1\<rparr>]\<rparr>"

lemma sample_full_refuses:
  "reserve 4 (js ''t'') 6 sample_full = (Inl BE_capacity, sample_full\<lparr>st_files := []\<rparr>)"
  by (simp add: reserve_def sample_full_def sample_open_def empty_disk_def safe_int_def max_safe_def
      make_space_def has_room_def ready_bytes_def reserved_bytes_def is_ready_def
      eviction_candidates_def owned_def leased_def delete_blob_def Let_def path_for_def set_deleting_def
      update_where_def remove_file_def delete_catalog_def has_key_def delete_where_def rollback_def
      sort_key_def)

theorem failed_reserve_loses_files_witness:
  "has_blob sample_hash (sample_full\<lparr>st_files := []\<rparr>) = Inr True
   \<and> lookup 5 sample_hash (sample_full\<lparr>st_files := []\<rparr>) = (Inr None, sample_full\<lparr>st_files := []\<rparr>)"
proof -
  have "tables_ok sample_full" "st_faults sample_full = []" "st_components sample_full = []"
    "sample_hash \<in> set (eviction_candidates sample_full)" "\<not> leased sample_hash sample_full"
    by (simp_all add: sample_full_def sample_open_def empty_disk_def tables_ok_def pk_def
        eviction_candidates_def is_ready_def owned_def leased_def sort_key_def)
  from failed_reserve_loses_files [OF this(1-3) sample_full_refuses this(4,5)] show ?thesis by simp
qed

text \<open>
  An upload is released while the removal of its file fails, the same blob is uploaded again
  under a new owner, and the process starts again.
\<close>

definition sample_upload :: store where
  "sample_upload = sample_admitted\<lparr>st_owners := [(js ''a'', sample_hash)], st_faults := [Some (js ''busy'')]\<rparr>"

definition sample_failed_removal :: store where
  "sample_failed_removal = snd (release_owner 3 (js ''a'') None sample_upload)"

definition sample_again :: store where
  "sample_again = snd (admit_finish sample_digest 5 \<lparr>bs_pieces = [[1, 2, 3]], bs_fails = False\<rparr>
     \<lparr>ad_origin = O_write, ad_owner = Some (js ''b''), ad_expected = None\<rparr> sample_reservation
     (snd (reserve 4 (js ''t'') 5 sample_failed_removal)))"

lemma sample_failed_removal_eq: "sample_failed_removal = sample_upload\<lparr>
    st_catalog := [\<lparr>ca_hash = sample_hash, ca_size = 3, ca_origin = O_write, ca_accessed = 2,
      ca_state = S_deleting\<rparr>], st_owners := [], st_faults := [],
    st_tombstones := [\<lparr>to_hash = sample_hash, to_retry_at = 3, to_error = js ''busy''\<rparr>]\<rparr>"
  by (simp add: sample_failed_removal_def release_owner_def given_def sample_upload_def sample_admitted_def
      sample_open_def empty_disk_def delete_if_unowned_write_def leased_def owned_def catalog_of_def row_def
      delete_blob_def Let_def path_for_def set_deleting_def update_where_def remove_file_def
      add_tombstone_def insert_replace_def delete_where_def)

lemma given_js: "given (Some (js (c # s))) = Some (js (c # s))"
  by (simp add: given_def js_simps)

lemma sample_again_eq: "sample_again = sample_upload\<lparr>
    st_catalog := [\<lparr>ca_hash = sample_hash, ca_size = 3, ca_origin = O_write, ca_accessed = 5,
      ca_state = S_ready\<rparr>], st_owners := [(js ''b'', sample_hash)], st_faults := [],
    st_tombstones := [\<lparr>to_hash = sample_hash, to_retry_at = 3, to_error = js ''busy''\<rparr>]\<rparr>"
  by (simp add: sample_again_def sample_failed_removal_eq reserve_def sample_upload_def sample_admitted_def
      sample_open_def empty_disk_def safe_int_def max_safe_def make_space_def has_room_def
      ready_bytes_def reserved_bytes_def is_ready_def insert_row_def has_key_def
      admit_finish_def admit_body_def admit_finally_def sample_reservation_def given_js promote_def
      path_for_def link_temp_def catalog_of_def row_def upsert_blob_def delete_where_def given_def [of None]
      release_reservation_def Let_def update_where_def add_owner_def insert_ignore_def)

lemma sample_again_reconciles:
  "\<exists>s. reconcile sample_digest (\<lambda>p. []) 6 sample_again = (Inr (), s)"
  by (simp add: reconcile_def sample_again_eq sample_upload_def sample_admitted_def sample_open_def
      empty_disk_def Let_def reconcile_row_def path_for_def delete_blob_def set_deleting_def
      update_where_def remove_file_def delete_catalog_def has_key_def delete_where_def
      directory_listing_def uniq_def)

theorem startup_erases_tombstoned_witness:
  "\<exists>s. ready_row sample_hash sample_again \<noteq> None \<and> owned sample_hash sample_again
     \<and> reconcile sample_digest (\<lambda>p. []) 6 sample_again = (Inr (), s)
     \<and> file_of sample_hash s = None \<and> catalog_of sample_hash s = None"
proof -
  obtain s where s: "reconcile sample_digest (\<lambda>p. []) 6 sample_again = (Inr (), s)"
    using sample_again_reconciles by blast
  have "sample_hash \<in> to_hash ` set (st_tombstones sample_again)" "st_faults sample_again = []"
    "st_components sample_again = []" "ready_row sample_hash sample_again \<noteq> None"
    "owned sample_hash sample_again"
    by (simp_all add: sample_again_eq sample_upload_def sample_admitted_def sample_open_def
        empty_disk_def ready_row_def is_ready_def owned_def)
  with startup_erases_tombstoned [OF s] show ?thesis using s by simp
qed

end
