(* ===== verification/Write_State.thy ===== *)
theory Write_State
  imports Blob_Store Publication Narinfo Writer
begin

section \<open>The state of the write repository (persistence/write_repository.ts)\<close>

text \<open>
  \<^verbatim>\<open>src/persistence/write_repository.ts\<close> keeps, in one SQLite database that it shares with
  the blob store, everything a writable cache has not finished: staged routes, the overlay
  generations made of them, the batches frozen from an overlay, the candidate trees built from
  batches, and the sagas that publish them. This theory holds the tables, the binding of the
  database to one identity, and the runs of the hashtree writer; the theories on staging,
  overlays and publications hold the rest. A JSON column is the value that was stringified.
  The clock and random identifiers are arguments, and \<open>removes path\<close> tells whether removing a
  file works or finds no file.
\<close>

subsection \<open>The tables\<close>

record staged_row =
  sb_route :: jstr
  sb_digest :: jstr
  sb_size :: int
  sb_path :: jstr

record narinfo_row =
  sn_hash :: jstr
  sn_route :: jstr
  sn_nar_route :: jstr
  sn_bytes :: int

record overlay_row =
  oe_generation :: int
  oe_blob :: staged_row

record run_row =
  ru_owner :: jstr
  ru_index :: jstr
  ru_session :: jstr

record clock_row =
  ck_next :: int
  ck_active :: "int option"
  ck_generation :: "int option"
  ck_opened :: "int option"
  ck_dirty :: "int option"
  ck_base :: "jstr option"

datatype batch_status = B_building | B_failed | B_pending

record batch_row =
  pb_id :: int
  pb_token :: int
  pb_generation :: int
  pb_base :: "jstr option"
  pb_status :: batch_status

record batch_entry =
  be_batch :: int
  be_generation :: int
  be_blob :: staged_row

record pending_candidate =
  pc_batch :: int
  pc_generation :: int
  pc_root :: jstr
  pc_nhash :: jstr
  pc_blobs :: int
  pc_bytes :: int

record stored_blob =
  in_batch :: int
  in_hash :: jstr
  in_size :: int
  in_path :: jstr

record saga =
  sg_batch :: int
  sg_candidate :: pending_candidate
  sg_destinations :: "jstr list"
  sg_complete :: "jstr option"
  sg_template :: "jsval option"
  sg_signed :: "raw_publication option"
  sg_acknowledged :: "jstr option"
  sg_committed :: bool
  sg_admitted :: bool

datatype work_kind = W_replica | W_relay

datatype work_status = W_pending | W_claimed | W_retry | W_complete | W_exhausted

datatype work_code = C_ok | C_unavailable | C_timeout | C_rejected | C_attempt_limit

record endpoint_work =
  ew_batch :: int
  ew_kind :: work_kind
  ew_target :: jstr
  ew_status :: work_status
  ew_attempts :: int
  ew_next :: int
  ew_code :: work_code

record write_limits =
  wl_body :: int
  wl_aggregate :: int

text \<open>
  The tables in the order the constructor creates them, then the blob store when one was
  opened, the files below the staging root, and what the object keeps in memory.
  \<open>wr_sequence\<close> is the last identifier \<open>AUTOINCREMENT\<close> gave.
\<close>

record write_state =
  wr_staged :: "staged_row list"
  wr_reservations :: "(jstr \<times> int) list"
  wr_narinfos :: "narinfo_row list"
  wr_references :: "(jstr \<times> jstr) list"
  wr_generation :: "int option"
  wr_overlay :: "overlay_row list"
  wr_overlay_paths :: "(int \<times> jstr) list"
  wr_identity :: "jstr option"
  wr_content :: "candidate_blob list"
  wr_owners :: "(jstr \<times> jstr) list"
  wr_runs :: "run_row list"
  wr_cleanup :: "(jstr \<times> jstr) list"
  wr_clock :: "clock_row option"
  wr_batches :: "batch_row list"
  wr_sequence :: int
  wr_entries :: "batch_entry list"
  wr_pending :: "pending_candidate option"
  wr_pending_blobs :: "stored_blob list"
  wr_sagas :: "saga list"
  wr_saga_blobs :: "stored_blob list"
  wr_proofs :: "(int \<times> jstr \<times> jstr) list"
  wr_history :: "(saga \<times> int) list"
  wr_work :: "endpoint_work list"
  wr_store :: "store option"
  wr_tmp :: "(jstr, bytes) jmap"
  wr_files :: "(jstr, bytes) jmap"
  wr_healthy :: bool
  wr_leases :: "(int, nat) jmap"
  wr_admitted :: int
  wr_session :: jstr
  wr_active :: bool
  wr_changes :: "jstr list"

datatype write_error = WR_identity_form | WR_identity_mismatch | WR_run_form | WR_unique
  | WR_run_dead | WR_blob_changed | WR_blob blob_error | WR_visited | WR_narinfo_gone | WR_blob_gone
  | WR_route_gone | WR_batch_changed | WR_entries | WR_not_owned | WR_incomplete_ownership
  | WR_proof_server | WR_proof_hash | WR_not_complete | WR_unproven | WR_event_differs
  | WR_event_immutable | WR_unsigned | WR_unacknowledged | WR_uncommitted | WR_claim_lost
  | WR_body_ceiling | WR_aggregate | WR_reservation | WR_conflict | WR_source | WR_file
  | WR_no_component | WR_no_state

type_synonym 'a write_op = "(write_state, write_error, 'a) op"

text \<open>A call of the blob store that may be there (\<open>this.#blobStore?.f()\<close>).\<close>

definition on_store :: "'a store_op \<Rightarrow> 'a option write_op" where
  "on_store f s =
     (case wr_store s of None \<Rightarrow> (Inr None, s)
      | Some b \<Rightarrow> (case f b of
          (Inl e, b') \<Rightarrow> (Inl (WR_blob e), s\<lparr>wr_store := Some b'\<rparr>)
        | (Inr x, b') \<Rightarrow> (Inr (Some x), s\<lparr>wr_store := Some b'\<rparr>)))"

definition announce :: "jstr \<Rightarrow> write_state \<Rightarrow> write_state" where
  "announce x s = s\<lparr>wr_changes := wr_changes s @ [x]\<rparr>"

subsection \<open>The identity of the database\<close>

definition line_terminator :: "nat \<Rightarrow> bool" where
  "line_terminator u \<longleftrightarrow> u = 10 \<or> u = 13 \<or> u = 0x2028 \<or> u = 0x2029"

text \<open>\<open>/^(17091|37091):([0-9a-f]{64}):(.*)$/\<close> and the checks of the identifier.\<close>

definition writable_identifier :: "jstr \<Rightarrow> bool" where
  "writable_identifier i \<longleftrightarrow> length (utf8 i) > 0 \<and> length (utf8 i) \<le> 64 \<and> 58 \<notin> set i
     \<and> \<not> list_ex (\<lambda>u. is_space u \<or> u < 32 \<or> u = 127) i"

definition canonical_writable_identity :: "jstr \<Rightarrow> bool" where
  "canonical_writable_identity s =
     (let kind = take 6 s; key = take 64 (drop 6 s); identifier = drop 71 s in
      (kind = js ''17091:'' \<or> kind = js ''37091:'')
      \<and> length key = 64 \<and> list_all is_lower_hex key \<and> take 1 (drop 70 s) = js '':''
      \<and> \<not> list_ex line_terminator identifier
      \<and> (if kind = js ''17091:'' then identifier = [] else writable_identifier identifier))"

text \<open>\<open>IDENTITY_BEARING_TABLES\<close>: some row in one of them.\<close>

definition bears_identity :: "write_state \<Rightarrow> bool" where
  "bears_identity s \<longleftrightarrow>
     wr_staged s \<noteq> [] \<or> wr_reservations s \<noteq> [] \<or> wr_narinfos s \<noteq> [] \<or> wr_references s \<noteq> []
     \<or> wr_overlay s \<noteq> [] \<or> wr_overlay_paths s \<noteq> [] \<or> wr_content s \<noteq> [] \<or> wr_owners s \<noteq> []
     \<or> wr_runs s \<noteq> [] \<or> wr_cleanup s \<noteq> [] \<or> wr_batches s \<noteq> [] \<or> wr_entries s \<noteq> []
     \<or> wr_pending s \<noteq> None \<or> wr_pending_blobs s \<noteq> [] \<or> wr_sagas s \<noteq> [] \<or> wr_saga_blobs s \<noteq> []
     \<or> wr_proofs s \<noteq> [] \<or> wr_history s \<noteq> [] \<or> wr_work s \<noteq> []"

definition nondefault_state :: "write_state \<Rightarrow> bool" where
  "nondefault_state s \<longleftrightarrow>
     (case wr_generation s of None \<Rightarrow> False | Some g \<Rightarrow> g \<noteq> 0)
     \<or> (case wr_clock s of None \<Rightarrow> False
        | Some c \<Rightarrow> ck_next c \<noteq> 1 \<or> ck_active c \<noteq> None \<or> ck_generation c \<noteq> None
            \<or> ck_opened c \<noteq> None \<or> ck_dirty c \<noteq> None \<or> ck_base c \<noteq> None)"

text \<open>\<open>#stagingHasContent\<close>.\<close>

definition staging_has_content :: "write_state \<Rightarrow> bool" where
  "staging_has_content s \<longleftrightarrow> wr_tmp s \<noteq> [] \<or> wr_files s \<noteq> []"

subsection \<open>Writer runs\<close>

text \<open>The inventory file of a run is removed only under the name that the writer gives it.\<close>

definition inventory_name :: "jstr \<Rightarrow> bool" where
  "inventory_name path =
     (let name = (case last_index_of 47 path of None \<Rightarrow> path | Some i \<Rightarrow> drop (Suc i) path) in
      length name = 53 \<and> take 10 name = js ''inventory-''
      \<and> list_all (\<lambda>u. is_lower_hex u \<or> u = 45) (take 36 (drop 10 name))
      \<and> drop 46 name = js ''.sqlite'')"

definition retry_cleanup :: "(jstr \<Rightarrow> bool) \<Rightarrow> write_state \<Rightarrow> write_state" where
  "retry_cleanup removes s = s\<lparr>wr_cleanup :=
     delete_where (\<lambda>(owner, path). inventory_name path
        \<and> removes path \<and> removes (path @ js ''-wal'') \<and> removes (path @ js ''-shm''))
       (wr_cleanup s)\<rparr>"

definition sweep_content :: "(jstr \<Rightarrow> bool) \<Rightarrow> write_state \<Rightarrow> write_state" where
  "sweep_content removes s = s\<lparr>wr_content :=
     delete_where (\<lambda>b. \<not> list_ex (\<lambda>(owner, h). h = cb_hash b) (wr_owners s) \<and> removes (cb_path b))
       (wr_content s)\<rparr>"

definition end_run :: "jstr \<Rightarrow> jstr \<Rightarrow> write_state \<Rightarrow> write_state" where
  "end_run owner index s =
     s\<lparr>wr_owners := delete_where (\<lambda>x. fst x = owner) (wr_owners s),
       wr_cleanup := insert_replace fst (owner, index) (wr_cleanup s),
       wr_runs := delete_where (\<lambda>r. ru_owner r = owner) (wr_runs s)\<rparr>"

definition reconcile_runs :: "(jstr \<Rightarrow> bool) \<Rightarrow> write_state \<Rightarrow> write_state" where
  "reconcile_runs removes s =
     sweep_content removes (retry_cleanup removes
       (fold (\<lambda>r. end_run (ru_owner r) (ru_index r))
         (filter (\<lambda>r. ru_session r \<noteq> wr_session s) (wr_runs s)) s))"

text \<open>\<open>#activate\<close>, once per process.\<close>

definition activate :: "(jstr \<Rightarrow> bool) \<Rightarrow> write_state \<Rightarrow> write_state" where
  "activate removes s =
     (if wr_active s then s
      else reconcile_runs removes
        (s\<lparr>wr_generation := Some (case wr_generation s of None \<Rightarrow> 0 | Some g \<Rightarrow> g),
           wr_clock := Some (case wr_clock s of
               None \<Rightarrow> \<lparr>ck_next = 1, ck_active = None, ck_generation = None, ck_opened = None,
                        ck_dirty = None, ck_base = None\<rparr>
             | Some c \<Rightarrow> c),
           wr_work := update_where (\<lambda>w. ew_status w = W_claimed) (\<lambda>w. w\<lparr>ew_status := W_retry\<rparr>) (wr_work s),
           wr_batches := update_where (\<lambda>b. pb_status b = B_building) (\<lambda>b. b\<lparr>pb_status := B_failed\<rparr>)
             (wr_batches s),
           wr_reservations := [], wr_tmp := [], wr_active := True\<rparr>))"

definition bind_identity :: "(jstr \<Rightarrow> bool) \<Rightarrow> jstr \<Rightarrow> unit write_op" where
  "bind_identity removes identity s =
     (if \<not> canonical_writable_identity identity then (Inl WR_identity_form, s)
      else (case wr_identity s of
          Some owner \<Rightarrow>
            if owner \<noteq> identity then (Inl WR_identity_mismatch, s) else (Inr (), activate removes s)
        | None \<Rightarrow>
            if bears_identity s \<or> nondefault_state s \<or> staging_has_content s
            then (Inl WR_identity_mismatch, s)
            else (Inr (), activate removes (s\<lparr>wr_identity := Some identity\<rparr>))))"

definition start_run :: "jstr \<Rightarrow> jstr \<Rightarrow> unit write_op" where
  "start_run run index s =
     (if \<not> starts_with (js ''run:'') run then (Inl WR_run_form, s)
      else (case insert_row ru_owner \<lparr>ru_owner = run, ru_index = index, ru_session = wr_session s\<rparr>
                   (wr_runs s) of
          None \<Rightarrow> (Inl WR_unique, s)
        | Some t \<Rightarrow> (Inr (), s\<lparr>wr_runs := t\<rparr>)))"

definition record_writer_blob :: "jstr \<Rightarrow> candidate_blob \<Rightarrow> unit write_op" where
  "record_writer_blob run blob s =
     (case wr_store s of
        Some b \<Rightarrow> (case on_store (acquire_owner run (cb_hash blob)) s of
            (Inl e, s') \<Rightarrow> (Inl e, s') | (Inr x, s') \<Rightarrow> (Inr (), s'))
      | None \<Rightarrow>
          if \<not> has_key ru_owner run (wr_runs s) then (Inl WR_run_dead, s)
          else
            (let content = insert_ignore cb_hash blob (wr_content s) in
             case row cb_hash (cb_hash blob) content of
               None \<Rightarrow> (Inl WR_blob_changed, s)
             | Some stored \<Rightarrow>
                 if cb_size stored \<noteq> cb_size blob \<or> cb_path stored \<noteq> cb_path blob
                 then (Inl WR_blob_changed, s)
                 else (Inr (), s\<lparr>wr_content := content,
                        wr_owners := insert_ignore (\<lambda>x. x) (run, cb_hash blob) (wr_owners s)\<rparr>)))"

definition release_run :: "(jstr \<Rightarrow> bool) \<Rightarrow> int \<Rightarrow> jstr \<Rightarrow> unit write_op" where
  "release_run removes now run s =
     (case on_store (release_owner now run None) s of
        (Inl e, s1) \<Rightarrow> (Inl e, s1)
      | (Inr x, s1) \<Rightarrow>
          (Inr (), sweep_content removes (retry_cleanup removes
            (case row ru_owner run (wr_runs s1) of
               None \<Rightarrow> s1\<lparr>wr_owners := delete_where (\<lambda>x. fst x = run) (wr_owners s1)\<rparr>
             | Some r \<Rightarrow> end_run run (ru_index r) s1))))"

subsection \<open>The blob store of the repository\<close>

text \<open>\<open>openBlobStore\<close>: the store is opened once; \<open>disk\<close> is what its tables and directory hold.\<close>

definition open_blobs ::
  "(bytes \<Rightarrow> bytes) \<Rightarrow> (jstr \<times> jstr \<Rightarrow> jstr) \<Rightarrow> int \<Rightarrow> int option \<Rightarrow> store \<Rightarrow> unit write_op" where
  "open_blobs sha uuid now capacity disk s =
     (case wr_store s of Some b \<Rightarrow> (Inr (), s)
      | None \<Rightarrow> (case open_store sha uuid now capacity disk of
          Inl e \<Rightarrow> (Inl (WR_blob e), s) | Inr b \<Rightarrow> (Inr (), s\<lparr>wr_store := Some b\<rparr>)))"

definition blob_lease :: "int \<Rightarrow> jstr \<Rightarrow> lease option write_op" where
  "blob_lease now h s =
     (case on_store (lookup now h) s of
        (Inl e, s') \<Rightarrow> (Inl e, s')
      | (Inr x, s') \<Rightarrow> (Inr (case x of None \<Rightarrow> None | Some l \<Rightarrow> l), s'))"

definition close_repository :: "unit write_op" where
  "close_repository s =
     (case on_store close_store s of (Inl e, s') \<Rightarrow> (Inl e, s') | (Inr x, s') \<Rightarrow> (Inr (), s'))"

text \<open>A repository before anything was written, bound to no identity.\<close>

definition empty_repository :: write_state where
  "empty_repository = \<lparr>wr_staged = [], wr_reservations = [], wr_narinfos = [], wr_references = [],
     wr_generation = None, wr_overlay = [], wr_overlay_paths = [], wr_identity = None, wr_content = [],
     wr_owners = [], wr_runs = [], wr_cleanup = [], wr_clock = None, wr_batches = [], wr_sequence = 0,
     wr_entries = [], wr_pending = None, wr_pending_blobs = [], wr_sagas = [], wr_saga_blobs = [],
     wr_proofs = [], wr_history = [], wr_work = [], wr_store = None, wr_tmp = [], wr_files = [],
     wr_healthy = True, wr_leases = [], wr_admitted = 0, wr_session = [], wr_active = False,
     wr_changes = []\<rparr>"

end
