(* ===== verification/Write_Staging.thy ===== *)
theory Write_Staging
  imports Write_State
begin

section \<open>Staging (persistence/write_repository.ts)\<close>

text \<open>
  What an uploader puts is staged under its route: the bytes of a small body as one file named
  by its digest, a NAR as chunks in the blob store, a narinfo also as a row with its
  references. Paths are relative to the staging root and to the root of the blob store.
\<close>

subsection \<open>Staged routes and narinfos\<close>

record staged_blob =
  sd_row :: staged_row
  sd_idempotent :: bool

definition lookup_route :: "jstr \<Rightarrow> write_state \<Rightarrow> staged_blob option" where
  "lookup_route route s =
     map_option (\<lambda>r. \<lparr>sd_row = r, sd_idempotent = True\<rparr>) (row sb_route route (wr_staged s))"

text \<open>
  \<open>INSERT OR REPLACE INTO staged_narinfos\<close> replaces the rows that have the same store path
  hash or the same route.
\<close>

definition record_narinfo :: "jstr \<Rightarrow> narinfo \<Rightarrow> write_state \<Rightarrow> write_state" where
  "record_narinfo route n s =
     (let h = slice 11 43 (ni_store_path n);
          refs = sort (uniq (map (take 32) (ni_references n))) in
      announce h (s\<lparr>
        wr_narinfos := filter (\<lambda>r. sn_hash r \<noteq> h \<and> sn_route r \<noteq> route) (wr_narinfos s)
          @ [\<lparr>sn_hash = h, sn_route = route, sn_nar_route = ni_url n,
              sn_bytes = int (length (utf8 (ni_raw n)))\<rparr>],
        wr_references := filter (\<lambda>x. fst x \<noteq> h) (wr_references s) @ map (Pair h) refs\<rparr>))"

record staged_narinfo =
  si_hash :: jstr
  si_route :: jstr
  si_nar_route :: jstr
  si_references :: "jstr list"
  si_bytes :: int

text \<open>
  \<open>WITH RECURSIVE affected\<close>: the hash and everything that refers to it, directly or not. A
  round adds the referrers that are not there yet; there are no more of them than rows.
\<close>

function referrers :: "(jstr \<times> jstr) list \<Rightarrow> jstr list \<Rightarrow> jstr list" where
  "referrers refs found =
     (let new = uniq (filter (\<lambda>h. h \<notin> set found) (map fst (filter (\<lambda>x. snd x \<in> set found) refs))) in
      if new = [] then found else referrers refs (found @ new))"
  by pat_completeness auto
termination
proof (relation "measure (\<lambda>(refs, found). card (set (map fst refs) - set found))")
  fix refs :: "(jstr \<times> jstr) list" and found new :: "jstr list"
  assume new: "new = uniq (filter (\<lambda>h. h \<notin> set found) (map fst (filter (\<lambda>x. snd x \<in> set found) refs)))"
    and some: "new \<noteq> []"
  obtain h where "h \<in> set new" using some by (meson ex_in_conv set_empty)
  then have h: "h \<in> set (map fst refs)" "h \<notin> set found" "h \<in> set new" by (auto simp: new)
  have "set (map fst refs) - set (found @ new) \<subset> set (map fst refs) - set found"
    using h by auto
  then show "((refs, found @ new), (refs, found)) \<in> measure (\<lambda>(refs, found). card (set (map fst refs) - set found))"
    by (simp add: psubset_card_mono)
qed auto

declare referrers.simps [simp del]

definition seed_of :: "jstr \<Rightarrow> write_state \<Rightarrow> jstr option" where
  "seed_of changed s =
     (case (if starts_with (js ''nar/'') changed
            then map_option sn_hash (find (\<lambda>r. sn_nar_route r = changed) (wr_narinfos s))
            else Some (take 32 changed)) of
        Some [] \<Rightarrow> None | x \<Rightarrow> x)"

definition staged_narinfo_of :: "write_state \<Rightarrow> narinfo_row \<Rightarrow> staged_narinfo" where
  "staged_narinfo_of s r = \<lparr>si_hash = sn_hash r, si_route = sn_route r, si_nar_route = sn_nar_route r,
     si_references = sort (map snd (filter (\<lambda>x. fst x = sn_hash r) (wr_references s))),
     si_bytes = sn_bytes r\<rparr>"

definition affected_candidates :: "jstr \<Rightarrow> nat \<Rightarrow> write_state \<Rightarrow> write_error + staged_narinfo list" where
  "affected_candidates changed max_visited s =
     (case seed_of changed s of None \<Rightarrow> Inr []
      | Some seed \<Rightarrow>
         (let affected = referrers (wr_references s) [seed];
              rows = take (max_visited + 1)
                (sort_key sn_hash (filter (\<lambda>r. sn_hash r \<in> set affected) (wr_narinfos s))) in
          if length rows > max_visited then Inl WR_visited
          else Inr (map (staged_narinfo_of s) rows)))"

definition staged_hashes :: "nat \<Rightarrow> write_state \<Rightarrow> write_error + jstr list" where
  "staged_hashes max_visited s =
     (let rows = take (max_visited + 1) (sort (map sn_hash (wr_narinfos s))) in
      if length rows > max_visited then Inl WR_visited else Inr rows)"

subsection \<open>Room for staged bodies\<close>

definition staged_bytes :: "write_state \<Rightarrow> int" where
  "staged_bytes s = sum_list (map (\<lambda>d. Max (set (map sb_size (filter (\<lambda>r. sb_digest r = d) (wr_staged s)))))
     (uniq (map sb_digest (wr_staged s))))"

definition reserve_body :: "write_limits \<Rightarrow> jstr \<Rightarrow> unit write_op" where
  "reserve_body limits token s =
     (if staged_bytes s + sum_list (map snd (wr_reservations s)) + wl_body limits > wl_aggregate limits
      then (Inl WR_reservation, s)
      else (case insert_row fst (token, wl_body limits) (wr_reservations s) of
          None \<Rightarrow> (Inl WR_unique, s) | Some t \<Rightarrow> (Inr (), s\<lparr>wr_reservations := t\<rparr>)))"

definition release_body :: "jstr \<Rightarrow> write_state \<Rightarrow> write_state" where
  "release_body token s = s\<lparr>wr_reservations := delete_where (\<lambda>r. fst r = token) (wr_reservations s)\<rparr>"

subsection \<open>A body that is not a NAR\<close>

text \<open>
  \<open>stage\<close> waits for the body and for its file: it is \<open>stage_begin\<close>, then \<open>stage_body\<close> when the
  body has been read, and \<open>stage_commit\<close> when the file has been linked. A failed read is a
  body that throws or a signal that aborts.
\<close>

definition staging_path :: "jstr \<Rightarrow> jstr" where
  "staging_path digest = js ''blobs/'' @ digest"

definition stage_begin :: "write_limits \<Rightarrow> jstr \<Rightarrow> unit write_op" where
  "stage_begin limits token s =
     (case reserve_body limits token s of
        (Inl e, s') \<Rightarrow> (Inl e, s')
      | (Inr x, s') \<Rightarrow> (Inr (), s'\<lparr>wr_tmp := AList.update token [] (wr_tmp s')\<rparr>))"

definition drop_temp :: "jstr \<Rightarrow> write_state \<Rightarrow> write_state" where
  "drop_temp token s = s\<lparr>wr_tmp := AList.delete token (wr_tmp s)\<rparr>"

text \<open>The \<open>catch\<close> block: none of the errors modelled is a missing file or permission.\<close>

definition stage_failed :: "jstr \<Rightarrow> write_state \<Rightarrow> write_state" where
  "stage_failed token s =
     release_body token (drop_temp token (s\<lparr>wr_healthy := True\<rparr>))"

fun stage_pieces :: "int \<Rightarrow> bool \<Rightarrow> bytes list \<Rightarrow> bytes \<Rightarrow> write_error + bytes" where
  "stage_pieces limit fails [] acc = (if fails then Inl WR_source else Inr acc)"
| "stage_pieces limit fails (p # ps) acc =
     (if int (length acc + length p) > limit then Inl WR_body_ceiling
      else stage_pieces limit fails ps (acc @ p))"

datatype staged = Staged staged_blob | Linked jstr int

definition stage_body ::
  "(bytes \<Rightarrow> bytes) \<Rightarrow> write_limits \<Rightarrow> int option \<Rightarrow> jstr \<Rightarrow> jstr \<Rightarrow> blob_source \<Rightarrow> staged write_op" where
  "stage_body sha limits ceiling token route source s =
     (case stage_pieces (min (case ceiling of None \<Rightarrow> wl_body limits | Some c \<Rightarrow> c) (wl_body limits))
            (bs_fails source) (bs_pieces source) [] of
        Inl e \<Rightarrow> (Inl e, stage_failed token s)
      | Inr content \<Rightarrow>
         (let digest = to_hex (sha content); n = int (length content) in
          case lookup_route route s of
            Some existing \<Rightarrow>
              if sb_digest (sd_row existing) = digest \<and> sb_size (sd_row existing) = n
              then (Inr (Staged existing), release_body token (drop_temp token s))
              else (Inl WR_conflict, stage_failed token s)
          | None \<Rightarrow> (Inr (Linked digest n), drop_temp token
              (if map_of (wr_files s) (staging_path digest) = None
               then s\<lparr>wr_files := AList.update (staging_path digest) content (wr_files s)\<rparr> else s))))"

definition stage_commit :: "write_limits \<Rightarrow> jstr \<Rightarrow> jstr \<Rightarrow> jstr \<Rightarrow> int \<Rightarrow> staged_blob write_op" where
  "stage_commit limits token route digest n s =
     (let r = \<lparr>sb_route = route, sb_digest = digest, sb_size = n, sb_path = staging_path digest\<rparr> in
      if staged_bytes s + n > wl_aggregate limits then (Inl WR_aggregate, stage_failed token s)
      else (case insert_row sb_route r (wr_staged s) of
          None \<Rightarrow> (Inl WR_unique, stage_failed token s)
        | Some t \<Rightarrow> (Inr \<lparr>sd_row = r, sd_idempotent = False\<rparr>,
            announce route (release_body token (s\<lparr>wr_staged := t\<rparr>)))))"

subsection \<open>A NAR\<close>

definition admit_now ::
  "(bytes \<Rightarrow> bytes) \<Rightarrow> int \<Rightarrow> jstr \<Rightarrow> blob_source \<Rightarrow> admission \<Rightarrow> int \<Rightarrow> inventory_entry option store_op" where
  "admit_now sha now token source opts n s =
     (case reserve now token n s of (Inl e, s') \<Rightarrow> (Inl e, s')
      | (Inr r, s') \<Rightarrow> admit_finish sha now source opts r s')"

text \<open>
  The upload under way: the bytes not flushed yet, all bytes so far, the components, and the
  blob store. \<open>tokens\<close> are the identifiers of the coming admissions.
\<close>

record nar_upload =
  nu_buffer :: bytes
  nu_content :: bytes
  nu_components :: "route_component list"
  nu_tokens :: "jstr list"
  nu_store :: store

definition nar_flush ::
  "(bytes \<Rightarrow> bytes) \<Rightarrow> int \<Rightarrow> jstr \<Rightarrow> nar_upload \<Rightarrow> (write_error option) \<times> nar_upload" where
  "nar_flush sha now owner u =
     (if nu_buffer u = [] then (None, u)
      else
       (case admit_now sha now (hd (nu_tokens u @ [[]])) \<lparr>bs_pieces = [nu_buffer u], bs_fails = False\<rparr>
               \<lparr>ad_origin = O_write, ad_owner = Some owner, ad_expected = None\<rparr>
               (int (length (nu_buffer u))) (nu_store u) of
          (Inl e, b) \<Rightarrow> (Some (if e = BE_capacity then WR_reservation else WR_blob e),
            u\<lparr>nu_store := b, nu_buffer := [], nu_tokens := tl (nu_tokens u)\<rparr>)
        | (Inr None, b) \<Rightarrow> (Some WR_no_component,
            u\<lparr>nu_store := b, nu_buffer := [], nu_tokens := tl (nu_tokens u)\<rparr>)
        | (Inr (Some entry), b) \<Rightarrow> (None,
            u\<lparr>nu_store := b, nu_buffer := [], nu_tokens := tl (nu_tokens u),
              nu_components := nu_components u @ [\<lparr>rc_index = int (length (nu_components u)),
                rc_hash = ie_hash entry, rc_size = int (length (nu_buffer u))\<rparr>]\<rparr>)))"

text \<open>One piece of the body; the buffer is never full between the rounds.\<close>

function nar_piece ::
  "(bytes \<Rightarrow> bytes) \<Rightarrow> int \<Rightarrow> jstr \<Rightarrow> int \<Rightarrow> bytes \<Rightarrow> nar_upload \<Rightarrow> (write_error option) \<times> nar_upload" where
  "nar_piece sha now owner limit piece u =
     (let room = file_chunk_bytes - length (nu_buffer u); part = take room piece in
      if piece = [] \<or> room = 0 then (None, u)
      else if int (length (nu_content u) + length part) > limit
      then (Some WR_body_ceiling, u\<lparr>nu_buffer := nu_buffer u @ part\<rparr>)
      else
        (let u1 = u\<lparr>nu_buffer := nu_buffer u @ part, nu_content := nu_content u @ part\<rparr> in
         case (if length (nu_buffer u1) = file_chunk_bytes then nar_flush sha now owner u1 else (None, u1)) of
           (Some e, u2) \<Rightarrow> (Some e, u2)
         | (None, u2) \<Rightarrow> nar_piece sha now owner limit (drop room piece) u2))"
  by pat_completeness auto
termination
proof (relation "measure (\<lambda>(sha, now, owner, limit, piece, u). length piece)")
  fix sha :: "bytes \<Rightarrow> bytes" and now limit :: int and owner :: jstr and piece :: bytes
    and u u2 :: nar_upload and room x
  assume "room = file_chunk_bytes - length (nu_buffer u)" and "\<not> (piece = [] \<or> room = 0)"
  then have "length (drop room piece) < length piece" by (cases piece) auto
  then show "((sha, now, owner, limit, drop room piece, u2), (sha, now, owner, limit, piece, u))
      \<in> measure (\<lambda>(sha, now, owner, limit, piece, u). length piece)"
    by simp
qed auto

declare nar_piece.simps [simp del]

fun nar_pieces ::
  "(bytes \<Rightarrow> bytes) \<Rightarrow> int \<Rightarrow> jstr \<Rightarrow> int \<Rightarrow> bool \<Rightarrow> bytes list \<Rightarrow> nar_upload \<Rightarrow> (write_error option) \<times> nar_upload"
where
  "nar_pieces sha now owner limit fails [] u =
     (if fails then (Some WR_source, u) else nar_flush sha now owner u)"
| "nar_pieces sha now owner limit fails (p # ps) u =
     (case nar_piece sha now owner limit p u of
        (Some e, u') \<Rightarrow> (Some e, u') | (None, u') \<Rightarrow> nar_pieces sha now owner limit fails ps u')"

definition store_path_of :: "jstr \<Rightarrow> jstr" where
  "store_path_of h = js ''blobs/'' @ take 2 h @ js ''/'' @ h"

text \<open>From the last piece on: the existing route, the commit of the components, the row.\<close>

definition nar_commit ::
  "(bytes \<Rightarrow> bytes) \<Rightarrow> int \<Rightarrow> jstr \<Rightarrow> jstr \<Rightarrow> nar_upload \<Rightarrow> staged_blob write_op" where
  "nar_commit sha now owner route u s =
     (let digest = to_hex (sha (nu_content u)); n = int (length (nu_content u)) in
      case lookup_route route s of
        Some existing \<Rightarrow>
          if sb_digest (sd_row existing) \<noteq> digest \<or> sb_size (sd_row existing) \<noteq> n
          then (Inl WR_conflict, s)
          else (case on_store (release_owner now owner None) s of
              (Inl e, s') \<Rightarrow> (Inl e, s') | (Inr x, s') \<Rightarrow> (Inr existing, s'))
      | None \<Rightarrow>
         (case on_store (commit_route now route n (nu_components u) owner) s of
            (Inl (WR_blob BE_route_conflict), s') \<Rightarrow> (Inl WR_conflict, s')
          | (Inl e, s') \<Rightarrow> (Inl e, s')
          | (Inr x, s') \<Rightarrow>
             (case nu_components u of
                [] \<Rightarrow> (Inl WR_no_component, s')
              | c # cs \<Rightarrow>
                 (let r = \<lparr>sb_route = route, sb_digest = digest, sb_size = n,
                           sb_path = store_path_of (rc_hash c)\<rparr> in
                  case insert_row sb_route r (wr_staged s') of
                    None \<Rightarrow> (Inl WR_unique, s')
                  | Some t \<Rightarrow> (Inr \<lparr>sd_row = r, sd_idempotent = False\<rparr>,
                      announce route (s'\<lparr>wr_staged := t\<rparr>))))))"

text \<open>
  \<open>#stageNarComponents\<close>: \<open>b\<close> is the blob store, opened below the staging root when the
  repository has none yet. Its waits are between the admissions; here nothing runs between.
\<close>

definition stage_nar ::
  "(bytes \<Rightarrow> bytes) \<Rightarrow> write_limits \<Rightarrow> int option \<Rightarrow> int \<Rightarrow> jstr list \<Rightarrow> jstr \<Rightarrow> jstr \<Rightarrow> blob_source \<Rightarrow> store
   \<Rightarrow> staged_blob write_op" where
  "stage_nar sha limits ceiling now tokens uuid route source b s =
     (let owner = js ''upload:'' @ uuid;
          store0 = (case wr_store s of None \<Rightarrow> b | Some x \<Rightarrow> x);
          limit = min (case ceiling of None \<Rightarrow> wl_body limits | Some c \<Rightarrow> c) (wl_body limits) in
      case nar_pieces sha now owner limit (bs_fails source) (bs_pieces source)
             \<lparr>nu_buffer = [], nu_content = [], nu_components = [], nu_tokens = tokens, nu_store = store0\<rparr> of
        (failure, u) \<Rightarrow>
          (let s1 = s\<lparr>wr_store := Some (nu_store u)\<rparr> in
           case (case failure of Some e \<Rightarrow> (Inl e, s1) | None \<Rightarrow> nar_commit sha now owner route u s1) of
             (Inr x, s2) \<Rightarrow> (Inr x, s2)
           | (Inl e, s2) \<Rightarrow>
              (case on_store (release_owner now owner None) s2 of
                 (Inl e', s3) \<Rightarrow> (Inl e', s3) | (Inr y, s3) \<Rightarrow> (Inl e, s3))))"

text \<open>\<open>discard\<close>: the file goes when no other route has its digest.\<close>

definition remove_staged :: "jstr \<Rightarrow> write_state \<Rightarrow> write_state" where
  "remove_staged path s = s\<lparr>wr_files := AList.delete path (wr_files s),
     wr_store := map_option (\<lambda>b. b\<lparr>st_files :=
       filter (\<lambda>(p, c). store_path_of (snd p) \<noteq> path) (st_files b)\<rparr>) (wr_store s)\<rparr>"

definition discard :: "jstr \<Rightarrow> write_state \<Rightarrow> write_state" where
  "discard route s =
     (case row sb_route route (wr_staged s) of None \<Rightarrow> s
      | Some existing \<Rightarrow>
         (let s1 = s\<lparr>wr_staged := delete_where (\<lambda>r. sb_route r = route) (wr_staged s)\<rparr> in
          if has_key sb_digest (sb_digest existing) (wr_staged s1) then s1
          else remove_staged (sb_path existing) s1))"

end
