(* ===== verification/Write_Overlay.thy ===== *)
theory Write_Overlay
  imports Write_Staging
begin

section \<open>Overlay generations and eligibility (persistence/write_repository.ts, write/)\<close>

text \<open>
  An overlay generation is an immutable set of staged routes that are served in front of the
  published tree. \<^verbatim>\<open>src/write/eligibility.ts\<close> decides which staged store paths enter the next
  generation, \<^verbatim>\<open>src/write/overlay.ts\<close> serves one generation, and the generations that nobody
  needs are pruned when a publication has been admitted.
\<close>

subsection \<open>Generations\<close>

definition overlay_key :: "overlay_row \<Rightarrow> int \<times> jstr" where
  "overlay_key r = (oe_generation r, sb_route (oe_blob r))"

definition generation_rows :: "int \<Rightarrow> write_state \<Rightarrow> overlay_row list" where
  "generation_rows g s = filter (\<lambda>r. oe_generation r = g) (wr_overlay s)"

definition generation_paths :: "int \<Rightarrow> write_state \<Rightarrow> jstr list" where
  "generation_paths g s = map snd (filter (\<lambda>x. fst x = g) (wr_overlay_paths s))"

text \<open>\<open>overlayEntries\<close>, with the components that the blob store knows for a route.\<close>

record overlay_entry =
  oy_blob :: staged_row
  oy_components :: "route_component list"

definition overlay_entries :: "int \<Rightarrow> write_state \<Rightarrow> overlay_entry list" where
  "overlay_entries g s = map (\<lambda>r. \<lparr>oy_blob = oe_blob r,
       oy_components = (case wr_store s of None \<Rightarrow> []
         | Some b \<Rightarrow> route_components (sb_route (oe_blob r)) b)\<rparr>)
     (sort_key (\<lambda>r. sb_route (oe_blob r)) (generation_rows g s))"

text \<open>\<open>INSERT INTO overlay_entries SELECT\<close>: the next generation begins as a copy.\<close>

definition copy_generation :: "int \<Rightarrow> int \<Rightarrow> write_state \<Rightarrow> write_error + write_state" where
  "copy_generation previous g s =
     (case insert_rows overlay_key
        (map (\<lambda>r. r\<lparr>oe_generation := g\<rparr>) (generation_rows previous s)) (wr_overlay s) of
        None \<Rightarrow> Inl WR_unique
      | Some entries \<Rightarrow>
         (case insert_rows (\<lambda>x. x) (map (Pair g) (generation_paths previous s)) (wr_overlay_paths s) of
            None \<Rightarrow> Inl WR_unique
          | Some paths \<Rightarrow> Inr (s\<lparr>wr_overlay := entries, wr_overlay_paths := paths\<rparr>)))"

definition put_overlay :: "int \<Rightarrow> staged_row \<Rightarrow> write_state \<Rightarrow> write_state" where
  "put_overlay g b s = s\<lparr>wr_overlay :=
     insert_replace overlay_key \<lparr>oe_generation = g, oe_blob = b\<rparr> (wr_overlay s)\<rparr>"

definition overlay_route :: "write_error \<Rightarrow> int \<Rightarrow> jstr \<Rightarrow> write_state \<Rightarrow> write_error + write_state" where
  "overlay_route e g route s =
     (case row sb_route route (wr_staged s) of None \<Rightarrow> Inl e | Some b \<Rightarrow> Inr (put_overlay g b s))"

definition overlay_path :: "int \<Rightarrow> jstr \<Rightarrow> write_state \<Rightarrow> write_error + write_state" where
  "overlay_path g h s =
     (case row sn_hash h (wr_narinfos s) of None \<Rightarrow> Inl WR_narinfo_gone
      | Some n \<Rightarrow>
         ebind (fold_err (overlay_route WR_blob_gone g) [sn_route n, sn_nar_route n] s)
           (\<lambda>s'. Inr (s'\<lparr>wr_overlay_paths := insert_ignore (\<lambda>x. x) (g, h) (wr_overlay_paths s')\<rparr>)))"

definition commit_overlay :: "jstr list \<Rightarrow> int write_op" where
  "commit_overlay hashes s =
     (case wr_generation s of None \<Rightarrow> (Inl WR_no_state, s)
      | Some previous \<Rightarrow>
         if hashes = [] then (Inr previous, s)
         else
          (let g = previous + 1 in
           case ebind (copy_generation previous g s) (fold_err (overlay_path g) (sort (uniq hashes))) of
             Inl e \<Rightarrow> (Inl e, s)
           | Inr s' \<Rightarrow> (Inr g, s'\<lparr>wr_generation := Some g\<rparr>)))"

definition commit_overlay_routes :: "jstr list \<Rightarrow> int write_op" where
  "commit_overlay_routes routes s =
     (case wr_generation s of None \<Rightarrow> (Inl WR_no_state, s)
      | Some previous \<Rightarrow>
         (let g = previous + 1 in
          case ebind (copy_generation previous g s)
                 (fold_err (overlay_route WR_route_gone g) (sort (uniq routes))) of
            Inl e \<Rightarrow> (Inl e, s)
          | Inr s' \<Rightarrow> (Inr g, s'\<lparr>wr_generation := Some g\<rparr>)))"

subsection \<open>Pruning\<close>

definition settled :: "work_status \<Rightarrow> bool" where
  "settled w \<longleftrightarrow> w = W_complete \<or> w = W_exhausted"

definition releasable :: "write_state \<Rightarrow> int list" where
  "releasable s = map (\<lambda>(g, at). sg_batch g)
     (filter (\<lambda>(g, at). \<not> list_ex (\<lambda>w. ew_batch w = sg_batch g \<and> \<not> settled (ew_status w)) (wr_work s))
       (wr_history s))"

definition prunable :: "write_state \<Rightarrow> int list" where
  "prunable s = filter (\<lambda>g. Some g \<noteq> wr_generation s \<and> map_of (wr_leases s) g = None)
     (uniq (filter (\<lambda>g. g < wr_admitted s) (map oe_generation (wr_overlay s))))"

definition drop_generation :: "int \<Rightarrow> write_state \<Rightarrow> write_state" where
  "drop_generation g s = s\<lparr>wr_overlay := delete_where (\<lambda>r. oe_generation r = g) (wr_overlay s),
     wr_overlay_paths := delete_where (\<lambda>x. fst x = g) (wr_overlay_paths s)\<rparr>"

definition drop_batch :: "int \<Rightarrow> write_state \<Rightarrow> write_state" where
  "drop_batch i s = s\<lparr>wr_proofs := delete_where (\<lambda>x. fst x = i) (wr_proofs s),
     wr_work := delete_where (\<lambda>w. ew_batch w = i) (wr_work s),
     wr_saga_blobs := delete_where (\<lambda>b. in_batch b = i) (wr_saga_blobs s),
     wr_entries := delete_where (\<lambda>b. be_batch b = i) (wr_entries s),
     wr_batches := delete_where (\<lambda>b. pb_id b = i) (wr_batches s)\<rparr>"

definition batch_owner :: "string \<Rightarrow> int \<Rightarrow> jstr" where
  "batch_owner kind i = js kind @ dec_digits (nat i)"

fun release_batches :: "int \<Rightarrow> int list \<Rightarrow> unit write_op" where
  "release_batches now [] s = (Inr (), s)"
| "release_batches now (i # is') s =
     (case wr_store s of
        None \<Rightarrow> release_batches now is'
          (s\<lparr>wr_owners := delete_where (\<lambda>x. fst x = batch_owner ''batch:'' i) (wr_owners s)\<rparr>)
      | Some b \<Rightarrow> (case on_store (release_owner now (batch_owner ''saga:'' i) None) s of
          (Inl e, s') \<Rightarrow> (Inl e, s') | (Inr x, s') \<Rightarrow> release_batches now is' s'))"

definition prune_admitted :: "(jstr \<Rightarrow> bool) \<Rightarrow> int \<Rightarrow> unit write_op" where
  "prune_admitted removes now s =
     (if wr_admitted s = 0 then (Inr (), s)
      else
       (let batches = releasable s;
            s1 = fold drop_batch batches (fold drop_generation (prunable s) s) in
        case release_batches now batches s1 of
          (Inl e, s2) \<Rightarrow> (Inl e, s2) | (Inr u, s2) \<Rightarrow> (Inr (), sweep_content removes s2)))"

text \<open>\<open>acquireGeneration\<close> and the function it returns, which counts once.\<close>

definition acquire_generation :: "int \<Rightarrow> write_state \<Rightarrow> int handle \<times> write_state" where
  "acquire_generation g s = (Live g, s\<lparr>wr_leases := AList.update g
     (1 + (case map_of (wr_leases s) g of None \<Rightarrow> 0 | Some n \<Rightarrow> n)) (wr_leases s)\<rparr>)"

definition release_generation ::
  "(jstr \<Rightarrow> bool) \<Rightarrow> int \<Rightarrow> int handle \<Rightarrow> write_state \<Rightarrow> (write_error + unit) \<times> int handle \<times> write_state"
where
  "release_generation removes now l s =
     (case l of Released \<Rightarrow> (Inr (), Released, s)
      | Live g \<Rightarrow>
         (let n = (case map_of (wr_leases s) g of None \<Rightarrow> 1 | Some m \<Rightarrow> m) - 1 in
          case prune_admitted removes now (s\<lparr>wr_leases :=
            (if n > 0 then AList.update g n (wr_leases s) else AList.delete g (wr_leases s))\<rparr>) of
            (r, s') \<Rightarrow> (r, Released, s')))"

subsection \<open>Serving a generation (write/overlay.ts)\<close>

record overlay_snapshot =
  os_generation :: int
  os_entries :: "(jstr, overlay_entry) jmap"
  os_paths :: "jstr list"

definition load_generation :: "int \<Rightarrow> write_state \<Rightarrow> overlay_snapshot" where
  "load_generation g s = \<lparr>os_generation = g,
     os_entries = map (\<lambda>e. (sb_route (oy_blob e), e)) (overlay_entries g s),
     os_paths = generation_paths g s\<rparr>"

definition refresh_overlay :: "write_state \<Rightarrow> write_error + overlay_snapshot" where
  "refresh_overlay s =
     (case wr_generation s of None \<Rightarrow> Inl WR_no_state | Some g \<Rightarrow> Inr (load_generation g s))"

definition acquire_snapshot ::
  "int option \<Rightarrow> overlay_snapshot \<Rightarrow> write_state \<Rightarrow> overlay_snapshot \<times> int handle \<times> write_state" where
  "acquire_snapshot generation current s =
     (let g = (case generation of None \<Rightarrow> os_generation current | Some g \<Rightarrow> g);
          snapshot = (if g = os_generation current then current else load_generation g s) in
      case acquire_generation (os_generation snapshot) s of (l, s') \<Rightarrow> (snapshot, l, s'))"

datatype overlay_error = OV_absent jstr | OV_component | OV_write write_error | OV_file

record overlay_head =
  oh_hash :: jstr
  oh_size :: int

datatype overlay_body = OB_leases "lease list" | OB_file bytes

text \<open>The leases of the components; a component that is missing leaves the earlier ones held.\<close>

fun lease_components :: "int \<Rightarrow> route_component list \<Rightarrow> lease list \<Rightarrow> write_state
   \<Rightarrow> (overlay_error + lease list) \<times> write_state" where
  "lease_components now [] acc s = (Inr acc, s)"
| "lease_components now (c # cs) acc s =
     (case blob_lease now (rc_hash c) s of
        (Inl e, s') \<Rightarrow> (Inl (OV_write e), s')
      | (Inr None, s') \<Rightarrow> (Inl OV_component, s')
      | (Inr (Some l), s') \<Rightarrow> lease_components now cs (acc @ [l]) s')"

definition resolve_head :: "overlay_snapshot \<Rightarrow> jstr \<Rightarrow> overlay_error + overlay_head" where
  "resolve_head snapshot route =
     (case map_of (os_entries snapshot) route of None \<Rightarrow> Inl (OV_absent route)
      | Some e \<Rightarrow> Inr \<lparr>oh_hash = sb_digest (oy_blob e), oh_size = sb_size (oy_blob e)\<rparr>)"

definition resolve_get :: "int \<Rightarrow> overlay_snapshot \<Rightarrow> jstr \<Rightarrow> write_state
   \<Rightarrow> (overlay_error + overlay_head \<times> overlay_body) \<times> write_state" where
  "resolve_get now snapshot route s =
     (case map_of (os_entries snapshot) route of None \<Rightarrow> (Inl (OV_absent route), s)
      | Some e \<Rightarrow>
         (let head = \<lparr>oh_hash = sb_digest (oy_blob e), oh_size = sb_size (oy_blob e)\<rparr> in
          if oy_components e \<noteq> [] then
            (case lease_components now (oy_components e) [] s of
               (Inl x, s') \<Rightarrow> (Inl x, s') | (Inr ls, s') \<Rightarrow> (Inr (head, OB_leases ls), s'))
          else (case map_of (wr_files s) (sb_path (oy_blob e)) of
              None \<Rightarrow> (Inl OV_file, s) | Some bs \<Rightarrow> (Inr (head, OB_file bs), s))))"

text \<open>The bytes of the body, and the release of its leases at its end or when it is cancelled.\<close>

definition body_bytes :: "overlay_body \<Rightarrow> write_state \<Rightarrow> blob_error + bytes" where
  "body_bytes body s =
     (case body of OB_file bs \<Rightarrow> Inr bs
      | OB_leases ls \<Rightarrow>
         (case wr_store s of None \<Rightarrow> Inl BE_lease_released
          | Some b \<Rightarrow> map_sum (\<lambda>e. e) concat (map_err (\<lambda>l. lease_open (Live l) b) ls)))"

fun release_leases :: "int \<Rightarrow> lease list \<Rightarrow> unit write_op" where
  "release_leases now [] s = (Inr (), s)"
| "release_leases now (l # ls) s =
     (case on_store (release_lease now (le_hash l)) s of
        (Inl e, s') \<Rightarrow> (Inl e, s') | (Inr x, s') \<Rightarrow> release_leases now ls s')"

subsection \<open>Eligibility (write/eligibility.ts)\<close>

record eligibility_options =
  eo_visited :: nat
  eo_metadata :: int
  eo_lower :: "jstr \<Rightarrow> bool"

definition closed_under :: "(jstr \<Rightarrow> bool) \<Rightarrow> jstr list \<Rightarrow> jstr list \<Rightarrow> staged_narinfo \<Rightarrow> bool" where
  "closed_under lower committed admitted c \<longleftrightarrow>
     list_all (\<lambda>r. r = si_hash c \<or> r \<in> set committed \<or> r \<in> set admitted \<or> lower r) (si_references c)"

definition admissible ::
  "(jstr \<Rightarrow> bool) \<Rightarrow> (jstr \<Rightarrow> bool) \<Rightarrow> jstr list \<Rightarrow> jstr list \<Rightarrow> staged_narinfo \<Rightarrow> bool" where
  "admissible staged lower committed admitted c \<longleftrightarrow>
     \<not> (si_hash c \<in> set committed \<or> si_hash c \<in> set admitted)
     \<and> staged (si_nar_route c) \<and> closed_under lower committed admitted c"

text \<open>One round over the candidates; what it admits counts for the candidates after it.\<close>

fun admit_round ::
  "(jstr \<Rightarrow> bool) \<Rightarrow> (jstr \<Rightarrow> bool) \<Rightarrow> jstr list \<Rightarrow> staged_narinfo list \<Rightarrow> jstr list \<Rightarrow> jstr list" where
  "admit_round staged lower committed [] admitted = admitted"
| "admit_round staged lower committed (c # cs) admitted =
     admit_round staged lower committed cs
       (if admissible staged lower committed admitted c then admitted @ [si_hash c] else admitted)"

lemma admit_round_grows: "\<exists>new. admit_round staged lower committed cs admitted = admitted @ new
    \<and> set new \<subseteq> si_hash ` set cs \<and> set new \<inter> set admitted = {}"
proof (induction cs arbitrary: admitted)
  case (Cons c cs)
  show ?case
  proof (cases "admissible staged lower committed admitted c")
    case True
    then have "si_hash c \<notin> set admitted" by (simp add: admissible_def)
    moreover obtain new where "admit_round staged lower committed cs (admitted @ [si_hash c])
        = (admitted @ [si_hash c]) @ new" "set new \<subseteq> si_hash ` set cs"
      "set new \<inter> set (admitted @ [si_hash c]) = {}"
      using Cons.IH by blast
    ultimately show ?thesis using True by (intro exI [of _ "si_hash c # new"]) auto
  next
    case False
    obtain new where "admit_round staged lower committed cs admitted = admitted @ new"
      "set new \<subseteq> si_hash ` set cs" "set new \<inter> set admitted = {}"
      using Cons.IH by blast
    then show ?thesis using False by auto
  qed
qed simp

text \<open>\<open>while (progressed)\<close>: rounds until one admits nothing.\<close>

function admit_rounds ::
  "(jstr \<Rightarrow> bool) \<Rightarrow> (jstr \<Rightarrow> bool) \<Rightarrow> jstr list \<Rightarrow> staged_narinfo list \<Rightarrow> jstr list \<Rightarrow> jstr list" where
  "admit_rounds staged lower committed cs admitted =
     (let admitted' = admit_round staged lower committed cs admitted in
      if admitted' = admitted then admitted else admit_rounds staged lower committed cs admitted')"
  by pat_completeness auto
termination
proof (relation "measure (\<lambda>(staged, lower, committed, cs, admitted). card (si_hash ` set cs - set admitted))")
  fix staged lower :: "jstr \<Rightarrow> bool" and committed admitted x :: "jstr list" and cs :: "staged_narinfo list"
  assume x: "x = admit_round staged lower committed cs admitted" and ne: "x \<noteq> admitted"
  obtain new where new: "x = admitted @ new" "set new \<subseteq> si_hash ` set cs" "set new \<inter> set admitted = {}"
    using admit_round_grows x by blast
  then obtain h where "h \<in> set new" using ne by (cases new) auto
  then have "si_hash ` set cs - set x \<subset> si_hash ` set cs - set admitted"
    using new by auto
  then show "((staged, lower, committed, cs, x), (staged, lower, committed, cs, admitted))
      \<in> measure (\<lambda>(staged, lower, committed, cs, admitted). card (si_hash ` set cs - set admitted))"
    by (simp add: psubset_card_mono)
qed auto

declare admit_rounds.simps [simp del]

fun metadata_exceeds :: "int \<Rightarrow> int \<Rightarrow> staged_narinfo list \<Rightarrow> bool" where
  "metadata_exceeds limit acc [] = False"
| "metadata_exceeds limit acc (c # cs) =
     (acc + si_bytes c > limit \<or> metadata_exceeds limit (acc + si_bytes c) cs)"

datatype eligibility_error = EL_write write_error | EL_metadata

text \<open>\<open>#recompute\<close>: whether it committed a generation, and the overlay's new snapshot.\<close>

definition recompute ::
  "eligibility_options \<Rightarrow> jstr \<Rightarrow> overlay_snapshot \<Rightarrow> write_state
   \<Rightarrow> (eligibility_error + bool) \<times> overlay_snapshot \<times> write_state" where
  "recompute opts changed ov s =
     (case affected_candidates changed (eo_visited opts) s of
        Inl e \<Rightarrow> (Inl (EL_write e), ov, s)
      | Inr cs \<Rightarrow>
         if metadata_exceeds (eo_metadata opts) 0 cs then (Inl EL_metadata, ov, s)
         else (case wr_generation s of None \<Rightarrow> (Inl (EL_write WR_no_state), ov, s)
           | Some g \<Rightarrow>
              (let admitted = admit_rounds (\<lambda>r. has_key sb_route r (wr_staged s)) (eo_lower opts)
                     (generation_paths g s) cs [] in
               if admitted = [] then (Inr False, ov, s)
               else (case commit_overlay admitted s of
                   (Inl e, s') \<Rightarrow> (Inl (EL_write e), ov, s')
                 | (Inr n, s') \<Rightarrow> (case refresh_overlay s' of
                     Inl e \<Rightarrow> (Inl (EL_write e), ov, s') | Inr ov' \<Rightarrow> (Inr True, ov', s'))))))"

text \<open>
  \<open>reconcile\<close> over the staged hashes; the log holds the generations given to \<open>onCommitted\<close>.
  A failure ends it.
\<close>

fun reconcile_hashes ::
  "eligibility_options \<Rightarrow> jstr list \<Rightarrow> bool \<Rightarrow> overlay_snapshot \<Rightarrow> int list \<Rightarrow> write_state
   \<Rightarrow> (eligibility_error + bool) \<times> overlay_snapshot \<times> int list \<times> write_state" where
  "reconcile_hashes opts [] changed ov told s = (Inr changed, ov, told, s)"
| "reconcile_hashes opts (h # hs) changed ov told s =
     (case recompute opts h ov s of
        (Inl e, ov', s') \<Rightarrow> (Inl e, ov', told, s')
      | (Inr c, ov', s') \<Rightarrow> reconcile_hashes opts hs (changed \<or> c) ov'
          (if c then told @ (case wr_generation s' of None \<Rightarrow> [] | Some g \<Rightarrow> [g]) else told) s')"

definition reconcile_eligibility ::
  "eligibility_options \<Rightarrow> overlay_snapshot \<Rightarrow> write_state
   \<Rightarrow> (eligibility_error + bool) \<times> overlay_snapshot \<times> int list \<times> write_state" where
  "reconcile_eligibility opts ov s =
     (case staged_hashes (eo_visited opts) s of
        Inl e \<Rightarrow> (Inl (EL_write e), ov, [], s)
      | Inr hs \<Rightarrow> reconcile_hashes opts hs False ov [] s)"

end
