(* ===== verification/Write_Publication.thy ===== *)
theory Write_Publication
  imports Write_Overlay Utf8_Order
begin

section \<open>Batches and sagas (persistence/write_repository.ts)\<close>

text \<open>
  Changes of the overlay open a window; when it closes, the overlay generation is frozen as a
  batch, the batch is built into a candidate tree, and the candidate is published by a saga
  that records every step: a server that has all blobs, the signed event, a relay that took
  it, the commit and the admission. The work at each endpoint has a row of its own.
\<close>

subsection \<open>The window and its batch\<close>

record opened_window =
  ow_token :: int
  ow_opened :: int
  ow_dirty :: int

definition mark_dirty :: "int \<Rightarrow> int \<Rightarrow> jstr option \<Rightarrow> opened_window write_op" where
  "mark_dirty generation now base s =
     (case wr_clock s of None \<Rightarrow> (Inl WR_no_state, s)
      | Some c \<Rightarrow>
         (let token = (case ck_active c of Some t \<Rightarrow> t | None \<Rightarrow> ck_next c);
              opened = (case ck_opened c of Some t \<Rightarrow> t | None \<Rightarrow> now) in
          (Inr \<lparr>ow_token = token, ow_opened = opened, ow_dirty = now\<rparr>,
           s\<lparr>wr_clock := Some \<lparr>ck_next = (if ck_active c = None then token + 1 else ck_next c),
               ck_active = Some token,
               ck_generation = Some (max generation (case ck_generation c of Some g \<Rightarrow> g | None \<Rightarrow> 0)),
               ck_opened = Some opened, ck_dirty = Some now, ck_base = base\<rparr>\<rparr>)))"

record publication_window =
  pw_token :: int
  pw_generation :: int
  pw_opened :: int
  pw_dirty :: int
  pw_base :: "jstr option"

definition active_window :: "write_state \<Rightarrow> write_error + publication_window option" where
  "active_window s =
     (case wr_clock s of None \<Rightarrow> Inl WR_no_state
      | Some c \<Rightarrow>
         (case (ck_active c, ck_generation c, ck_opened c, ck_dirty c) of
            (Some t, Some g, Some opened, Some dirty) \<Rightarrow>
              Inr (Some \<lparr>pw_token = t, pw_generation = g, pw_opened = opened, pw_dirty = dirty,
                pw_base = given (ck_base c)\<rparr>)
          | _ \<Rightarrow> Inr None))"

record frozen_batch =
  fb_id :: int
  fb_token :: int
  fb_generation :: int
  fb_base :: "jstr option"
  fb_count :: nat

definition entry_count :: "int \<Rightarrow> write_state \<Rightarrow> nat" where
  "entry_count i s = length (filter (\<lambda>b. be_batch b = i) (wr_entries s))"

definition entry_key :: "batch_entry \<Rightarrow> int \<times> jstr" where
  "entry_key b = (be_batch b, sb_route (be_blob b))"

text \<open>\<open>AUTOINCREMENT\<close>: the next identifier is above every one ever given.\<close>

definition claim_batch :: "int \<Rightarrow> frozen_batch option write_op" where
  "claim_batch token s =
     (case wr_clock s of None \<Rightarrow> (Inl WR_no_state, s)
      | Some c \<Rightarrow>
         (case ck_generation c of None \<Rightarrow> (Inr None, s)
          | Some g \<Rightarrow>
             if ck_active c \<noteq> Some token then (Inr None, s)
             else
              (let i = wr_sequence s + 1 in
               case insert_row pb_token \<lparr>pb_id = i, pb_token = token, pb_generation = g,
                      pb_base = ck_base c, pb_status = B_building\<rparr> (wr_batches s) of
                 None \<Rightarrow> (Inl WR_unique, s)
               | Some batches \<Rightarrow>
                  (case insert_rows entry_key
                     (map (\<lambda>r. \<lparr>be_batch = i, be_generation = g, be_blob = oe_blob r\<rparr>) (generation_rows g s))
                     (wr_entries s) of
                     None \<Rightarrow> (Inl WR_unique, s)
                   | Some entries \<Rightarrow>
                      (let s' = s\<lparr>wr_batches := batches, wr_sequence := i, wr_entries := entries,
                           wr_clock := Some (c\<lparr>ck_active := None, ck_generation := None, ck_opened := None,
                             ck_dirty := None, ck_base := None\<rparr>)\<rparr> in
                       (Inr (Some \<lparr>fb_id = i, fb_token = token, fb_generation = g,
                          fb_base = given (ck_base c), fb_count = entry_count i s'\<rparr>), s'))))))"

text \<open>
  \<open>publicationBatchFiles\<close>: the files of a batch in the order of their UTF-8 routes, each with
  its path or its components. The rows before the ceiling was exceeded were handed out.
\<close>

record batch_file =
  bf_route :: jstr
  bf_path :: "jstr option"
  bf_size :: int
  bf_components :: "route_component list"

definition batch_file_of :: "write_state \<Rightarrow> batch_entry \<Rightarrow> batch_file" where
  "batch_file_of s b =
     (let r = be_blob b;
          cs = (case wr_store s of None \<Rightarrow> [] | Some st \<Rightarrow> route_components (sb_route r) st) in
      \<lparr>bf_route = sb_route r, bf_path = (if cs = [] then Some (sb_path r) else None),
        bf_size = sb_size r, bf_components = cs\<rparr>)"

definition batch_files :: "frozen_batch \<Rightarrow> nat \<Rightarrow> write_state \<Rightarrow> (write_error option) \<times> batch_file list" where
  "batch_files batch max_entries s =
     (case row pb_id (fb_id batch) (wr_batches s) of None \<Rightarrow> (Some WR_batch_changed, [])
      | Some b \<Rightarrow>
         if pb_token b \<noteq> fb_token batch \<or> pb_generation b \<noteq> fb_generation batch
            \<or> pb_status b \<notin> {B_building, B_failed}
         then (Some WR_batch_changed, [])
         else
          (let files = map (batch_file_of s) (sort_key (\<lambda>e. utf8 (sb_route (be_blob e)))
                 (filter (\<lambda>e. be_batch e = fb_id batch) (wr_entries s))) in
           (if length files > max_entries then Some WR_entries else None, take max_entries files)))"

definition failed_batches :: "write_state \<Rightarrow> frozen_batch list" where
  "failed_batches s = map (\<lambda>b. \<lparr>fb_id = pb_id b, fb_token = pb_token b, fb_generation = pb_generation b,
       fb_base = given (pb_base b), fb_count = entry_count (pb_id b) s\<rparr>)
     (sort_key pb_id (filter (\<lambda>b. pb_status b = B_failed) (wr_batches s)))"

definition mark_batch_failed :: "int \<Rightarrow> write_state \<Rightarrow> write_state" where
  "mark_batch_failed i s = s\<lparr>wr_batches :=
     update_where (\<lambda>b. pb_id b = i) (\<lambda>b. b\<lparr>pb_status := B_failed\<rparr>) (wr_batches s)\<rparr>"

definition batches :: "write_state \<Rightarrow> batch_row list" where
  "batches s = sort_key pb_id (wr_batches s)"

subsection \<open>The pending candidate\<close>

definition inventory_key :: "stored_blob \<Rightarrow> int \<times> jstr" where
  "inventory_key b = (in_batch b, in_hash b)"

definition run_owns :: "jstr \<Rightarrow> candidate_blob \<Rightarrow> write_state \<Rightarrow> bool" where
  "run_owns run c s =
     (case wr_store s of
        Some b \<Rightarrow> (run, cb_hash c) \<in> set (st_owners b)
          \<and> (case catalog_of (cb_hash c) b of None \<Rightarrow> False | Some r \<Rightarrow> ca_size r = cb_size c)
      | None \<Rightarrow> (run, cb_hash c) \<in> set (wr_owners s)
          \<and> (case row cb_hash (cb_hash c) (wr_content s) of None \<Rightarrow> False
             | Some r \<Rightarrow> cb_size r = cb_size c \<and> cb_path r = cb_path c))"

definition add_pending :: "int \<Rightarrow> jstr option \<Rightarrow> candidate_blob \<Rightarrow> write_state \<Rightarrow> write_error + write_state" where
  "add_pending i run c s =
     (if (case run of None \<Rightarrow> False | Some r \<Rightarrow> \<not> run_owns r c s) then Inl WR_not_owned
      else (case insert_row inventory_key \<lparr>in_batch = i, in_hash = cb_hash c, in_size = cb_size c,
              in_path = cb_path c\<rparr> (wr_pending_blobs s) of
          None \<Rightarrow> Inl WR_unique | Some t \<Rightarrow> Inr (s\<lparr>wr_pending_blobs := t\<rparr>)))"

text \<open>\<open>INSERT OR IGNORE ... SELECT ?,hash FROM owners WHERE owner=?\<close>.\<close>

definition copy_owner :: "jstr \<Rightarrow> jstr \<Rightarrow> (jstr \<times> jstr) list \<Rightarrow> (jstr \<times> jstr) list" where
  "copy_owner source target t = insert_rows_ignore (\<lambda>x. x)
     (map (\<lambda>x. (target, snd x)) (filter (\<lambda>x. fst x = source) t)) t"

definition owners_of :: "write_state \<Rightarrow> (jstr \<times> jstr) list" where
  "owners_of s = (case wr_store s of None \<Rightarrow> wr_owners s | Some b \<Rightarrow> st_owners b)"

definition set_owners :: "(jstr \<times> jstr) list \<Rightarrow> write_state \<Rightarrow> write_state" where
  "set_owners t s = (case wr_store s of None \<Rightarrow> s\<lparr>wr_owners := t\<rparr>
     | Some b \<Rightarrow> s\<lparr>wr_store := Some (b\<lparr>st_owners := t\<rparr>)\<rparr>)"

definition own_pending :: "int \<Rightarrow> jstr option \<Rightarrow> int \<Rightarrow> write_state \<Rightarrow> write_error + write_state" where
  "own_pending i run n s =
     (case given run of None \<Rightarrow> Inr s
      | Some r \<Rightarrow>
         (let t = copy_owner r (batch_owner ''batch:'' i) (owners_of s) in
          if int (length (filter (\<lambda>x. fst x = batch_owner ''batch:'' i) t)) \<noteq> n
          then Inl WR_incomplete_ownership else Inr (set_owners t s)))"

definition release_superseded :: "(jstr \<Rightarrow> bool) \<Rightarrow> int \<Rightarrow> int option \<Rightarrow> int \<Rightarrow> unit write_op" where
  "release_superseded removes now superseded i s =
     (case superseded of None \<Rightarrow> (Inr (), s)
      | Some old \<Rightarrow>
         if old = i then (Inr (), s)
         else (case wr_store s of
             None \<Rightarrow> (Inr (), sweep_content removes (s\<lparr>wr_owners :=
                 delete_where (\<lambda>x. fst x = batch_owner ''batch:'' old) (wr_owners s)\<rparr>))
           | Some b \<Rightarrow> (case on_store (release_owner now (batch_owner ''batch:'' old) None) s of
               (Inl e, s') \<Rightarrow> (Inl e, s') | (Inr x, s') \<Rightarrow> (Inr (), sweep_content removes s'))))"

definition record_pending ::
  "(jstr \<Rightarrow> bool) \<Rightarrow> int \<Rightarrow> frozen_batch \<Rightarrow> pending_candidate \<Rightarrow> candidate_blob list \<Rightarrow> jstr option
   \<Rightarrow> unit write_op" where
  "record_pending removes now batch c blobs run s =
     (let i = fb_id batch; superseded = map_option pc_batch (wr_pending s) in
      case ebind (fold_err (add_pending i (given run)) blobs (s\<lparr>wr_pending_blobs := []\<rparr>))
             (own_pending i run (pc_blobs c)) of
        Inl e \<Rightarrow> (Inl e, s)
      | Inr s1 \<Rightarrow>
         release_superseded removes now superseded i
           (s1\<lparr>wr_pending := Some (c\<lparr>pc_batch := i, pc_generation := fb_generation batch\<rparr>),
               wr_batches := update_where (\<lambda>b. pb_id b = i \<and> pb_status b \<in> {B_building, B_failed})
                 (\<lambda>b. b\<lparr>pb_status := B_pending\<rparr>) (wr_batches s1)\<rparr>))"

definition inventory_of :: "stored_blob list \<Rightarrow> candidate_blob list" where
  "inventory_of rows = map (\<lambda>b. \<lparr>cb_hash = in_hash b, cb_size = in_size b, cb_path = in_path b\<rparr>)
     (sort_key in_hash rows)"

definition pending_inventory :: "write_state \<Rightarrow> candidate_blob list" where
  "pending_inventory s = inventory_of (wr_pending_blobs s)"

definition publication_inventory :: "int \<Rightarrow> write_state \<Rightarrow> candidate_blob list" where
  "publication_inventory i s = inventory_of (filter (\<lambda>b. in_batch b = i) (wr_saga_blobs s))"

subsection \<open>The saga\<close>

text \<open>\<open>publicationSaga\<close>: the row with the least batch.\<close>

definition current_saga :: "write_state \<Rightarrow> saga option" where
  "current_saga s = (case sort_key sg_batch (wr_sagas s) of [] \<Rightarrow> None | g # gs \<Rightarrow> Some g)"

definition saga_history :: "write_state \<Rightarrow> saga list" where
  "saga_history s = sort_key sg_batch (map fst (wr_history s))"

definition saga_by_batch :: "int \<Rightarrow> write_state \<Rightarrow> saga option" where
  "saga_by_batch i s =
     (case current_saga s of
        Some g \<Rightarrow> if sg_batch g = i then Some g else find (\<lambda>h. sg_batch h = i) (saga_history s)
      | None \<Rightarrow> find (\<lambda>h. sg_batch h = i) (saga_history s))"

definition update_saga :: "int \<Rightarrow> (saga \<Rightarrow> saga) \<Rightarrow> write_state \<Rightarrow> write_state" where
  "update_saga i f s = s\<lparr>wr_sagas := update_where (\<lambda>g. sg_batch g = i) f (wr_sagas s)\<rparr>"

text \<open>
  The first part of \<open>claimPublication\<close>: a server that an earlier publication of the same root
  proved complete serves the current saga too.
\<close>

definition prior_complete :: "saga \<Rightarrow> write_state \<Rightarrow> jstr option" where
  "prior_complete current s =
     (case find (\<lambda>g. sg_committed g \<and> sg_admitted g \<and> given (sg_complete g) \<noteq> None
              \<and> pc_root (sg_candidate g) = pc_root (sg_candidate current)
              \<and> the (sg_complete g) \<in> set (sg_destinations current))
        (rev (saga_history s)) of
        None \<Rightarrow> None | Some g \<Rightarrow> given (sg_complete g))"

definition reuse_complete :: "write_state \<Rightarrow> write_state" where
  "reuse_complete s =
     (case current_saga s of None \<Rightarrow> s
      | Some g \<Rightarrow>
         if given (sg_complete g) \<noteq> None \<or> sg_signed g \<noteq> None then s
         else (case prior_complete g s of None \<Rightarrow> s
           | Some server \<Rightarrow>
              (update_saga (sg_batch g)
                 (\<lambda>h. if sg_complete h = None \<and> sg_signed h = None then h\<lparr>sg_complete := Some server\<rparr> else h) s)
              \<lparr>wr_work := update_where (\<lambda>w. ew_batch w = sg_batch g \<and> ew_kind w = W_replica)
                 (\<lambda>w. w\<lparr>ew_status := (if ew_target w = server then W_complete else W_exhausted),
                        ew_code := (if ew_target w = server then C_ok else C_unavailable)\<rparr>) (wr_work s)\<rparr>))"

definition archive_saga :: "int \<Rightarrow> saga \<Rightarrow> write_state \<Rightarrow> write_state" where
  "archive_saga now g s =
     s\<lparr>wr_history := insert_replace (\<lambda>x. sg_batch (fst x)) (g, now) (wr_history s),
       wr_work := delete_where (\<lambda>w. ew_batch w = sg_batch g) (wr_work s),
       wr_sagas := delete_where (\<lambda>h. sg_batch h = sg_batch g) (wr_sagas s)\<rparr>"

definition new_saga :: "pending_candidate \<Rightarrow> jstr list \<Rightarrow> saga" where
  "new_saga c destinations = \<lparr>sg_batch = pc_batch c, sg_candidate = c, sg_destinations = destinations,
     sg_complete = None, sg_template = None, sg_signed = None, sg_acknowledged = None,
     sg_committed = False, sg_admitted = False\<rparr>"

definition open_saga :: "pending_candidate \<Rightarrow> jstr list \<Rightarrow> write_state \<Rightarrow> write_error + write_state" where
  "open_saga c destinations s =
     (case insert_row sg_batch (new_saga c destinations) (wr_sagas s) of None \<Rightarrow> Inl WR_unique
      | Some sagas \<Rightarrow>
         (case insert_rows inventory_key (filter (\<lambda>b. in_batch b = pc_batch c) (wr_pending_blobs s))
                 (wr_saga_blobs s) of
            None \<Rightarrow> Inl WR_unique
          | Some blobs \<Rightarrow>
             (let s1 = s\<lparr>wr_sagas := sagas, wr_saga_blobs := blobs, wr_pending := None,
                         wr_pending_blobs := [],
                         wr_store := map_option (\<lambda>b. b\<lparr>st_owners :=
                           delete_where (\<lambda>x. fst x = batch_owner ''batch:'' (pc_batch c))
                             (copy_owner (batch_owner ''batch:'' (pc_batch c))
                               (batch_owner ''saga:'' (pc_batch c)) (st_owners b))\<rparr>) (wr_store s)\<rparr> in
              Inr s1)))"

definition supersedes :: "pending_candidate \<Rightarrow> saga \<Rightarrow> bool" where
  "supersedes c g \<longleftrightarrow> pc_generation c > pc_generation (sg_candidate g)"

definition claim_publication :: "int \<Rightarrow> jstr list \<Rightarrow> saga option write_op" where
  "claim_publication now destinations s0 =
     (let s = reuse_complete s0; current = current_saga s in
      if (case current of None \<Rightarrow> False
          | Some g \<Rightarrow> (case wr_pending s of None \<Rightarrow> True
              | Some c \<Rightarrow> (\<not> sg_admitted g \<and> \<not> (sg_signed g = None \<and> supersedes c g)) \<or> \<not> supersedes c g))
      then (Inr current, s)
      else (case wr_pending s of None \<Rightarrow> (Inr None, s)
        | Some c \<Rightarrow>
           if destinations = [] then (Inr None, s)
           else
            (let s1 = (case current of
                   Some g \<Rightarrow> if (sg_admitted g \<or> sg_signed g = None) \<and> supersedes c g
                             then archive_saga now g s else s
                 | None \<Rightarrow> s) in
             if (case current of None \<Rightarrow> True | Some g \<Rightarrow> sg_admitted g \<or> sg_signed g = None)
             then (case open_saga c destinations s1 of Inl e \<Rightarrow> (Inl e, s)
                 | Inr s2 \<Rightarrow> (Inr (current_saga s2), s2))
             else (Inr (current_saga s1), s1))))"

subsection \<open>Work at endpoints\<close>

definition work_key :: "endpoint_work \<Rightarrow> int \<times> work_kind \<times> jstr" where
  "work_key w = (ew_batch w, ew_kind w, ew_target w)"

definition new_work :: "int \<Rightarrow> work_kind \<Rightarrow> int \<Rightarrow> jstr \<Rightarrow> endpoint_work" where
  "new_work i kind now target = \<lparr>ew_batch = i, ew_kind = kind, ew_target = target,
     ew_status = W_pending, ew_attempts = 0, ew_next = now, ew_code = C_unavailable\<rparr>"

definition ensure_work :: "int \<Rightarrow> work_kind \<Rightarrow> jstr list \<Rightarrow> int \<Rightarrow> write_state \<Rightarrow> write_state" where
  "ensure_work i kind targets now s =
     (let t = insert_rows_ignore work_key (map (new_work i kind now) targets) (wr_work s) in
      if t = wr_work s then s else announce (js ''publication-work'') (s\<lparr>wr_work := t\<rparr>))"

text \<open>\<open>ORDER BY next_attempt_at,batch_id,kind,target\<close>; the texts of the kinds are ordered.\<close>

definition kind_rank :: "work_kind \<Rightarrow> nat" where
  "kind_rank k = (case k of W_relay \<Rightarrow> 0 | W_replica \<Rightarrow> 1)"

definition ordered_work :: "endpoint_work list \<Rightarrow> endpoint_work list" where
  "ordered_work ws = sort_key ew_next (sort_key ew_batch
     (sort_key (\<lambda>w. kind_rank (ew_kind w)) (sort_key (\<lambda>w. utf8 (ew_target w)) ws)))"

definition endpoint_works :: "write_state \<Rightarrow> endpoint_work list" where
  "endpoint_works s = ordered_work (wr_work s)"

definition claimable :: "endpoint_work \<Rightarrow> bool" where
  "claimable w \<longleftrightarrow> ew_status w = W_pending \<or> ew_status w = W_retry"

definition next_due :: "write_state \<Rightarrow> endpoint_work option" where
  "next_due s = find (\<lambda>w. claimable w \<and> ew_kind w = W_relay
      \<and> Some (ew_batch w) = map_option sg_batch (current_saga s)) (endpoint_works s)"

definition claim_rows :: "endpoint_work list \<Rightarrow> write_state \<Rightarrow> write_state" where
  "claim_rows ws s = s\<lparr>wr_work :=
     update_where (\<lambda>w. work_key w \<in> work_key ` set ws \<and> claimable w) (\<lambda>w. w\<lparr>ew_status := W_claimed\<rparr>)
       (wr_work s)\<rparr>"

definition claim_due :: "int \<Rightarrow> nat \<Rightarrow> write_state \<Rightarrow> endpoint_work list \<times> write_state" where
  "claim_due now limit s =
     (let due = take limit (ordered_work (filter (\<lambda>w. Some (ew_batch w) = map_option sg_batch (current_saga s)
            \<and> ew_kind w = W_relay \<and> claimable w \<and> ew_next w \<le> now) (wr_work s))) in
      (map (\<lambda>w. w\<lparr>ew_status := W_claimed\<rparr>) due, claim_rows due s))"

definition claim_work :: "int \<Rightarrow> work_kind \<Rightarrow> jstr \<Rightarrow> int \<Rightarrow> write_state \<Rightarrow> endpoint_work option \<times> write_state" where
  "claim_work i kind target now s =
     (case row work_key (i, kind, target) (wr_work s) of None \<Rightarrow> (None, s)
      | Some w \<Rightarrow> if claimable w \<and> ew_next w \<le> now
                  then (Some (w\<lparr>ew_status := W_claimed\<rparr>), claim_rows [w] s) else (None, s))"

definition restore_claimed :: "int \<Rightarrow> write_state \<Rightarrow> write_state" where
  "restore_claimed now s = announce (js ''publication-work'') (s\<lparr>wr_work :=
     update_where (\<lambda>w. ew_status w = W_claimed)
       (\<lambda>w. w\<lparr>ew_status := W_retry, ew_next := now, ew_code := C_unavailable\<rparr>) (wr_work s)\<rparr>)"

record endpoint_outcome =
  eu_ok :: bool
  eu_next :: int
  eu_code :: work_code
  eu_exhausted :: bool

definition record_outcome :: "endpoint_work \<Rightarrow> endpoint_outcome \<Rightarrow> unit write_op" where
  "record_outcome w u s =
     (case row work_key (work_key w) (wr_work s) of None \<Rightarrow> (Inl WR_claim_lost, s)
      | Some x \<Rightarrow>
         if ew_status x \<noteq> W_claimed then (Inl WR_claim_lost, s)
         else (Inr (), announce (js ''publication-work'') (s\<lparr>wr_work :=
           update_where (\<lambda>y. work_key y = work_key w)
             (\<lambda>y. y\<lparr>ew_status := (if eu_ok u then W_complete else if eu_exhausted u then W_exhausted else W_retry),
                    ew_attempts := ew_attempts y + 1, ew_next := eu_next u, ew_code := eu_code u\<rparr>)
             (wr_work s)\<rparr>)))"

subsection \<open>The steps of a saga\<close>

definition record_proof :: "int \<Rightarrow> jstr \<Rightarrow> jstr \<Rightarrow> unit write_op" where
  "record_proof i server h s =
     (case saga_by_batch i s of None \<Rightarrow> (Inl WR_proof_server, s)
      | Some g \<Rightarrow>
         if sg_batch g \<noteq> i \<or> server \<notin> set (sg_destinations g) then (Inl WR_proof_server, s)
         else if \<not> has_key inventory_key (i, h) (wr_saga_blobs s) then (Inl WR_proof_hash, s)
         else (Inr (), s\<lparr>wr_proofs := insert_ignore (\<lambda>x. x) (i, server, h) (wr_proofs s)\<rparr>))"

definition server_complete :: "int \<Rightarrow> jstr \<Rightarrow> write_state \<Rightarrow> bool" where
  "server_complete i server s =
     (let total' = length (filter (\<lambda>b. in_batch b = i) (wr_saga_blobs s));
          proven = length (filter (\<lambda>(b, t, h). b = i \<and> t = server) (wr_proofs s)) in
      total' > 0 \<and> total' = proven)"

definition set_complete :: "jstr \<Rightarrow> saga \<Rightarrow> saga" where
  "set_complete server g = g\<lparr>sg_complete := (case sg_complete g of None \<Rightarrow> Some server | Some x \<Rightarrow> Some x)\<rparr>"

definition record_complete :: "int \<Rightarrow> jstr \<Rightarrow> unit write_op" where
  "record_complete i server s =
     (if \<not> server_complete i server s then (Inl WR_not_complete, s)
      else if map_option sg_batch (current_saga s) = Some i
      then (Inr (), update_saga i (set_complete server) s)
      else (Inr (), s\<lparr>wr_history := map (\<lambda>(g, at). (if sg_batch g = i then set_complete server g else g, at))
                        (wr_history s)\<rparr>))"

record event_template =
  et_kind :: jsval
  et_created :: jsval
  et_tags :: jsval
  et_content :: jstr

definition template_value :: "event_template \<Rightarrow> jsval" where
  "template_value t = V_Obj [(js ''kind'', et_kind t), (js ''created_at'', et_created t),
     (js ''tags'', et_tags t), (js ''content'', V_Str (et_content t))]"

definition created_of :: "raw_publication \<Rightarrow> int" where
  "created_of e = (case rp_created_at e of V_Int n \<Rightarrow> n | _ \<Rightarrow> 0)"

definition matches_template :: "pub_env \<Rightarrow> event_template \<Rightarrow> raw_publication \<Rightarrow> bool" where
  "matches_template env t e \<longleftrightarrow> rp_kind e = et_kind t \<and> rp_created_at e = et_created t
     \<and> rp_content e = et_content t \<and> rp_tags e = et_tags t \<and> pe_verify env e = Some True
     \<and> (case validate_publication env e (created_of e) of Inl x \<Rightarrow> False | Inr p \<Rightarrow> True)"

definition record_signed :: "pub_env \<Rightarrow> int \<Rightarrow> event_template \<Rightarrow> raw_publication \<Rightarrow> unit write_op" where
  "record_signed env i t e s =
     (case current_saga s of None \<Rightarrow> (Inl WR_unproven, s)
      | Some g \<Rightarrow>
         if given (sg_complete g) = None then (Inl WR_unproven, s)
         else if \<not> matches_template env t e then (Inl WR_event_differs, s)
         else if (case sg_signed g of None \<Rightarrow> False | Some x \<Rightarrow> x \<noteq> e) then (Inl WR_event_immutable, s)
         else (Inr (), update_saga i (\<lambda>h. h\<lparr>
             sg_template := (case sg_template h of None \<Rightarrow> Some (template_value t) | Some x \<Rightarrow> Some x),
             sg_signed := (case sg_signed h of None \<Rightarrow> Some e | Some x \<Rightarrow> Some x)\<rparr>) s))"

definition record_acknowledgement :: "int \<Rightarrow> jstr \<Rightarrow> unit write_op" where
  "record_acknowledgement i relay s =
     (case current_saga s of None \<Rightarrow> (Inl WR_unsigned, s)
      | Some g \<Rightarrow>
         if sg_signed g = None then (Inl WR_unsigned, s)
         else (Inr (), update_saga i (\<lambda>h. h\<lparr>sg_acknowledged :=
             (case sg_acknowledged h of None \<Rightarrow> Some relay | Some x \<Rightarrow> Some x)\<rparr>) s))"

definition commit_publication :: "int \<Rightarrow> unit write_op" where
  "commit_publication i s =
     (case current_saga s of None \<Rightarrow> (Inl WR_unacknowledged, s)
      | Some g \<Rightarrow>
         if given (sg_acknowledged g) = None then (Inl WR_unacknowledged, s)
         else (Inr (), update_saga i (\<lambda>h. h\<lparr>sg_committed := True\<rparr>) s))"

definition mark_admitted :: "(jstr \<Rightarrow> bool) \<Rightarrow> int \<Rightarrow> int \<Rightarrow> unit write_op" where
  "mark_admitted removes now i s =
     (case current_saga s of None \<Rightarrow> (Inl WR_uncommitted, s)
      | Some g \<Rightarrow>
         if \<not> sg_committed g then (Inl WR_uncommitted, s)
         else prune_admitted removes now
           ((update_saga i (\<lambda>h. h\<lparr>sg_admitted := True\<rparr>) s)
             \<lparr>wr_admitted := max (wr_admitted s) (pc_generation (sg_candidate g))\<rparr>))"

subsection \<open>Refreshing a publication before it expires\<close>

text \<open>The expiration of the signed event: the second field of the first such tag.\<close>

definition event_expiration :: "raw_publication \<Rightarrow> jstr option" where
  "event_expiration e =
     (case the_array (rp_tags e) of None \<Rightarrow> None
      | Some tags \<Rightarrow>
         (case find (\<lambda>t. case the_array t of Some (V_Str n # r) \<Rightarrow> n = js ''expiration'' | _ \<Rightarrow> False) tags of
            None \<Rightarrow> None
          | Some t \<Rightarrow> (case the_array t of Some (n # V_Str v # r) \<Rightarrow> given (Some v) | _ \<Rightarrow> None)))"

text \<open>
  \<open>beginPublicationRefresh\<close>: the saga goes to the history and a copy of it, not signed yet,
  takes the next batch number of the sagas. \<open>number\<close> is the value of a numeric text; an
  expiration is a decimal number, as publications are validated before they are recorded.
\<close>

definition next_batch :: "write_state \<Rightarrow> int" where
  "next_batch s = Max (set (map sg_batch (wr_sagas s) @ map (\<lambda>x. sg_batch (fst x)) (wr_history s))) + 1"

definition begin_refresh :: "int \<Rightarrow> int \<Rightarrow> bool write_op" where
  "begin_refresh now lead s =
     (case current_saga s of None \<Rightarrow> (Inr False, s)
      | Some g \<Rightarrow>
         (case Option.bind (sg_signed g) event_expiration of None \<Rightarrow> (Inr False, s)
          | Some expires \<Rightarrow>
             if \<not> sg_committed g \<or> \<not> sg_admitted g \<or> int (dec_value expires) > now + lead
             then (Inr False, s)
             else
              (let i = sg_batch g; j = next_batch s;
                   moved = \<lparr>sg_batch = j, sg_candidate = (sg_candidate g)\<lparr>pc_batch := j\<rparr>,
                     sg_destinations = sg_destinations g, sg_complete = given (sg_complete g),
                     sg_template = None, sg_signed = None, sg_acknowledged = None,
                     sg_committed = False, sg_admitted = False\<rparr> in
               case insert_rows inventory_key (map (\<lambda>b. b\<lparr>in_batch := j\<rparr>)
                      (filter (\<lambda>b. in_batch b = i) (wr_saga_blobs s))) (wr_saga_blobs s) of
                 None \<Rightarrow> (Inl WR_unique, s)
               | Some blobs \<Rightarrow>
                (case insert_row sg_batch moved (wr_sagas s) of
                   None \<Rightarrow> (Inl WR_unique, s)
                 | Some sagas \<Rightarrow>
                  (case insert_rows (\<lambda>x. x) (map (\<lambda>x. (j, snd x)) (filter (\<lambda>x. fst x = i) (wr_proofs s)))
                          (wr_proofs s) of
                     None \<Rightarrow> (Inl WR_unique, s)
                   | Some proofs \<Rightarrow>
                    (case insert_rows work_key (map (\<lambda>w. w\<lparr>ew_batch := j\<rparr>)
                            (filter (\<lambda>w. ew_batch w = i \<and> ew_kind w = W_replica) (wr_work s))) (wr_work s) of
                       None \<Rightarrow> (Inl WR_unique, s)
                     | Some work \<Rightarrow>
                        (Inr True, announce (js ''publication-refresh'') (s\<lparr>
                           wr_history := insert_ignore (\<lambda>x. sg_batch (fst x)) (g, now) (wr_history s),
                           wr_saga_blobs := delete_where (\<lambda>b. in_batch b = i) blobs,
                           wr_sagas := delete_where (\<lambda>h. sg_batch h = i) sagas,
                           wr_proofs := delete_where (\<lambda>x. fst x = i) proofs,
                           wr_work := delete_where (\<lambda>w. ew_batch w = i) work,
                           wr_store := map_option (\<lambda>b. b\<lparr>st_owners := copy_owner
                             (batch_owner ''saga:'' i) (batch_owner ''saga:'' j) (st_owners b)\<rparr>)
                             (wr_store s)\<rparr>))))))))"

end
