(* ===== verification/Write_Eligibility.thy ===== *)
theory Write_Eligibility
  imports Write_Overlay
begin

section \<open>What becomes eligible\<close>

text \<open>
  The candidates of \<^verbatim>\<open>src/write/eligibility.ts\<close> against their specification: the candidates are
  the staged narinfos that refer to the changed one, directly or not, and the loop admits
  exactly those whose references are served or become eligible themselves. An overlay whose
  store paths are closed under references stays so.
\<close>

subsection \<open>The candidates\<close>

lemma referrers_sound:
  "h \<in> set (referrers refs found) \<Longrightarrow> \<exists>x \<in> set found. (h, x) \<in> (set refs)\<^sup>*"
proof (induction refs found rule: referrers.induct)
  case (1 refs found)
  define new where "new = uniq (filter (\<lambda>h. h \<notin> set found) (map fst (filter (\<lambda>x. snd x \<in> set found) refs)))"
  show ?case
  proof (cases "new = []")
    case True
    then have "h \<in> set found"
      using 1(2) unfolding referrers.simps [of refs found] Let_def new_def [symmetric] by simp
    then show ?thesis by blast
  next
    case False
    then have "h \<in> set (referrers refs (found @ new))"
      using 1(2) unfolding referrers.simps [of refs found] Let_def new_def [symmetric] by simp
    then obtain x where x: "x \<in> set (found @ new)" "(h, x) \<in> (set refs)\<^sup>*"
      using 1(1) [OF new_def False] by blast
    show ?thesis
    proof (cases "x \<in> set found")
      case False
      then have "\<exists>y \<in> set found. (x, y) \<in> set refs" using x(1) by (auto simp: new_def)
      then show ?thesis using x(2) by (meson rtrancl.rtrancl_into_rtrancl)
    qed (use x(2) in blast)
  qed
qed

lemma referrers_closed:
  "set found \<subseteq> set (referrers refs found)
   \<and> (\<forall>(s, r) \<in> set refs. r \<in> set (referrers refs found) \<longrightarrow> s \<in> set (referrers refs found))"
proof (induction refs found rule: referrers.induct)
  case (1 refs found)
  define new where "new = uniq (filter (\<lambda>h. h \<notin> set found) (map fst (filter (\<lambda>x. snd x \<in> set found) refs)))"
  show ?case
  proof (cases "new = []")
    case True
    have "s \<in> set found" if "(s, r) \<in> set refs" "r \<in> set found" for s r
    proof (rule ccontr)
      assume "s \<notin> set found"
      then have "s \<in> set new" using that by (force simp: new_def)
      then show False using True by simp
    qed
    then have "\<forall>(s, r) \<in> set refs. r \<in> set found \<longrightarrow> s \<in> set found" by blast
    then show ?thesis
      using True unfolding referrers.simps [of refs found] Let_def new_def [symmetric] by simp
  next
    case False
    then have "referrers refs found = referrers refs (found @ new)"
      unfolding referrers.simps [of refs found] Let_def new_def [symmetric] by simp
    then show ?thesis using 1(1) [OF new_def False] by auto
  qed
qed

lemma referrers_iff: "h \<in> set (referrers refs [seed]) \<longleftrightarrow> (h, seed) \<in> (set refs)\<^sup>*"
proof
  assume "(h, seed) \<in> (set refs)\<^sup>*"
  then show "h \<in> set (referrers refs [seed])"
    using referrers_closed [of "[seed]" refs] by (induction rule: converse_rtrancl_induct) auto
qed (use referrers_sound [of h refs "[seed]"] in auto)

lemma affected_candidates_iff:
  assumes "affected_candidates changed n s = Inr cs" "seed_of changed s = Some seed"
  shows "set cs = staged_narinfo_of s ` {r \<in> set (wr_narinfos s). (sn_hash r, seed) \<in> (set (wr_references s))\<^sup>*}"
proof -
  let ?rows = "sort_key sn_hash (filter (\<lambda>r. sn_hash r \<in> set (referrers (wr_references s) [seed])) (wr_narinfos s))"
  have "length (take (n + 1) ?rows) \<le> n" and cs: "cs = map (staged_narinfo_of s) (take (n + 1) ?rows)"
    using assms by (auto simp: affected_candidates_def Let_def split: if_splits)
  then have "take (n + 1) ?rows = ?rows" by simp
  then show ?thesis by (simp add: cs referrers_iff)
qed

subsection \<open>The loop\<close>

inductive eligible ::
  "(jstr \<Rightarrow> bool) \<Rightarrow> (jstr \<Rightarrow> bool) \<Rightarrow> jstr list \<Rightarrow> staged_narinfo list \<Rightarrow> jstr \<Rightarrow> bool"
  for staged lower committed cs where
  eligibleI: "c \<in> set cs \<Longrightarrow> si_hash c \<notin> set committed \<Longrightarrow> staged (si_nar_route c) \<Longrightarrow>
    (\<And>r. r \<in> set (si_references c) \<Longrightarrow> r \<noteq> si_hash c \<Longrightarrow> r \<notin> set committed \<Longrightarrow> \<not> lower r \<Longrightarrow>
       eligible staged lower committed cs r) \<Longrightarrow>
    eligible staged lower committed cs (si_hash c)"

lemma admit_round_sound:
  assumes "set ds \<subseteq> set cs" "\<forall>h \<in> set admitted. eligible staged lower committed cs h"
    "h \<in> set (admit_round staged lower committed ds admitted)"
  shows "eligible staged lower committed cs h"
  using assms
proof (induction ds arbitrary: admitted)
  case (Cons d ds)
  show ?case
  proof (cases "admissible staged lower committed admitted d")
    case True
    then have "eligible staged lower committed cs (si_hash d)"
      using Cons.prems(1,2) by (intro eligibleI) (auto simp: admissible_def closed_under_def list_all_iff)
    then show ?thesis using Cons.IH [of "admitted @ [si_hash d]"] Cons.prems True by simp
  qed (use Cons in simp)
qed simp

lemma admit_rounds_sound:
  "\<forall>h \<in> set admitted. eligible staged lower committed cs h \<Longrightarrow>
    h \<in> set (admit_rounds staged lower committed cs admitted) \<Longrightarrow> eligible staged lower committed cs h"
proof (induction staged lower committed cs admitted rule: admit_rounds.induct)
  case (1 staged lower committed cs admitted)
  let ?x = "admit_round staged lower committed cs admitted"
  show ?case
  proof (cases "?x = admitted")
    case True
    then show ?thesis using 1(2,3) by (subst (asm) admit_rounds.simps) (simp add: Let_def)
  next
    case False
    then have "h \<in> set (admit_rounds staged lower committed cs ?x)"
      using 1(3) by (subst (asm) admit_rounds.simps) (simp add: Let_def)
    then show ?thesis using 1(1) [OF refl False] admit_round_sound [OF order.refl 1(2)] by blast
  qed
qed

lemma admit_round_fixed:
  assumes "admit_round staged lower committed cs admitted = admitted" "c \<in> set cs"
  shows "\<not> admissible staged lower committed admitted c"
  using assms
proof (induction cs)
  case (Cons d cs)
  have no: "\<not> admissible staged lower committed admitted d"
  proof
    assume "admissible staged lower committed admitted d"
    then obtain new where "admit_round staged lower committed (d # cs) admitted = (admitted @ [si_hash d]) @ new"
      using admit_round_grows [of staged lower committed cs "admitted @ [si_hash d]"] by auto
    then show False using Cons.prems(1) by simp
  qed
  then show ?case using Cons by auto
qed simp

lemma admit_rounds_fixed:
  "admit_round staged lower committed cs (admit_rounds staged lower committed cs admitted)
    = admit_rounds staged lower committed cs admitted"
proof (induction staged lower committed cs admitted rule: admit_rounds.induct)
  case (1 staged lower committed cs admitted)
  show ?case
  proof (cases "admit_round staged lower committed cs admitted = admitted")
    case True
    then show ?thesis by (simp add: admit_rounds.simps [of _ _ _ _ admitted])
  next
    case False
    then show ?thesis using 1 [OF refl False]
      by (simp add: admit_rounds.simps [of staged lower committed cs admitted] Let_def)
  qed
qed

lemma eligible_admitted:
  "eligible staged lower committed cs h \<Longrightarrow> h \<in> set (admit_rounds staged lower committed cs [])"
proof (induction rule: eligible.induct)
  case (eligibleI c)
  let ?a = "admit_rounds staged lower committed cs []"
  have "closed_under lower committed ?a c"
    using eligibleI.IH by (auto simp: closed_under_def list_all_iff)
  moreover have "\<not> admissible staged lower committed ?a c"
    by (rule admit_round_fixed [OF admit_rounds_fixed eligibleI(1)])
  ultimately show ?case using eligibleI(2,3) by (simp add: admissible_def)
qed

text \<open>
  C20: Eligibility is what it should be: whatever changed, the candidates are exactly the
  staged narinfos from which the changed hash can be reached along references, and the loop
  admits exactly the hashes that the inductive rule makes eligible, that is, those of
  candidates whose NAR is staged and whose references, apart from themselves, are committed,
  served below, or eligible.
\<close>

theorem eligibility_exact:
  assumes "affected_candidates changed n s = Inr cs" "seed_of changed s = Some seed"
  shows "set cs = staged_narinfo_of s ` {r \<in> set (wr_narinfos s). (sn_hash r, seed) \<in> (set (wr_references s))\<^sup>*}
    \<and> set (admit_rounds staged lower committed cs []) = {h. eligible staged lower committed cs h}"
proof (rule conjI [OF affected_candidates_iff [OF assms]])
  show "set (admit_rounds staged lower committed cs []) = {h. eligible staged lower committed cs h}"
    using eligible_admitted admit_rounds_sound [of "[]" staged lower committed cs] by auto
qed

lemma admit_round_distinct:
  "distinct admitted \<Longrightarrow> distinct (admit_round staged lower committed cs admitted)"
proof (induction cs arbitrary: admitted)
  case (Cons c cs)
  then show ?case by (simp add: admissible_def)
qed simp

lemma rounds_count:
  assumes "distinct admitted" "set admitted \<subseteq> si_hash ` set cs" "length cs \<le> length admitted + k"
  shows "(admit_round staged lower committed cs ^^ k) admitted = admit_rounds staged lower committed cs admitted"
  using assms
proof (induction k arbitrary: admitted)
  case 0
  let ?x = "admit_round staged lower committed cs admitted"
  obtain new where new: "?x = admitted @ new" "set new \<subseteq> si_hash ` set cs"
    using admit_round_grows by blast
  have "distinct ?x" by (rule admit_round_distinct [OF 0(1)])
  then have "length ?x = card (set ?x)" by (simp add: distinct_card)
  also have "\<dots> \<le> card (si_hash ` set cs)" using new 0(2) by (intro card_mono) auto
  also have "\<dots> \<le> length cs" by (metis card_image_le card_length finite_set le_trans)
  finally have "length admitted + length new \<le> length cs" using new(1) by simp
  then have "length new = 0" using 0(3) by linarith
  then have "?x = admitted" using new(1) by simp
  then show ?case by (simp add: admit_rounds.simps [of _ _ _ _ admitted])
next
  case (Suc k)
  let ?x = "admit_round staged lower committed cs admitted"
  show ?case
  proof (cases "?x = admitted")
    case True
    then have "(admit_round staged lower committed cs ^^ n) admitted = admitted" for n
      by (induction n) simp_all
    then show ?thesis using True by (simp add: admit_rounds.simps [of _ _ _ _ admitted])
  next
    case False
    obtain new where new: "?x = admitted @ new" "set new \<subseteq> si_hash ` set cs"
      using admit_round_grows by blast
    then have "new \<noteq> []" using False by auto
    then have enough: "length cs \<le> length ?x + k" using Suc.prems(3) new(1) by (cases new) auto
    have "(admit_round staged lower committed cs ^^ k) ?x = admit_rounds staged lower committed cs ?x"
    proof (rule Suc.IH)
      show "distinct ?x" by (rule admit_round_distinct [OF Suc.prems(1)])
      show "set ?x \<subseteq> si_hash ` set cs" using new Suc.prems(2) by simp
      show "length cs \<le> length ?x + k" by (rule enough)
    qed
    then show ?thesis
      using False by (simp add: funpow_swap1 admit_rounds.simps [of staged lower committed cs admitted] Let_def)
  qed
qed

text \<open>
  C21: The loop ends soon: after as many rounds as there are candidates, one more round admits
  nothing, and what it has then is the result.
\<close>

theorem eligibility_terminates:
  "(admit_round staged lower committed cs ^^ length cs) [] = admit_rounds staged lower committed cs []
   \<and> admit_round staged lower committed cs (admit_rounds staged lower committed cs [])
     = admit_rounds staged lower committed cs []"
  using rounds_count [of "[]" cs "length cs"] admit_rounds_fixed by simp

subsection \<open>The overlay\<close>

definition path_refs :: "jstr \<Rightarrow> write_state \<Rightarrow> jstr set" where
  "path_refs h s = snd ` {x \<in> set (wr_references s). fst x = h}"

definition entry_in :: "int \<Rightarrow> jstr \<Rightarrow> write_state \<Rightarrow> bool" where
  "entry_in g route s \<longleftrightarrow> (g, route) \<in> overlay_key ` set (wr_overlay s)"

definition path_served :: "int \<Rightarrow> jstr \<Rightarrow> write_state \<Rightarrow> bool" where
  "path_served g h s \<longleftrightarrow> (\<exists>n \<in> set (wr_narinfos s). sn_hash n = h
     \<and> entry_in g (sn_route n) s \<and> entry_in g (sn_nar_route n) s)"

text \<open>
  An overlay is sound: no generation is above the current one, and every store path of the
  current one has its narinfo and its NAR among the entries, and its references among the
  store paths or below.
\<close>

definition overlay_sound :: "(jstr \<Rightarrow> bool) \<Rightarrow> write_state \<Rightarrow> bool" where
  "overlay_sound lower s \<longleftrightarrow> (\<exists>g. wr_generation s = Some g
     \<and> (\<forall>r \<in> set (wr_overlay s). oe_generation r \<le> g) \<and> (\<forall>x \<in> set (wr_overlay_paths s). fst x \<le> g)
     \<and> (\<forall>h \<in> set (generation_paths g s). path_served g h s
          \<and> (\<forall>r \<in> path_refs h s. r = h \<or> r \<in> set (generation_paths g s) \<or> lower r)))"

text \<open>What every step of a commit of generation \<open>g\<close> leaves as it is.\<close>

definition other_generations :: "int \<Rightarrow> write_state \<Rightarrow> write_state \<Rightarrow> bool" where
  "other_generations g s s' \<longleftrightarrow>
     (\<forall>g'. g' \<noteq> g \<longrightarrow> generation_rows g' s' = generation_rows g' s \<and> generation_paths g' s' = generation_paths g' s)
     \<and> wr_narinfos s' = wr_narinfos s \<and> wr_references s' = wr_references s \<and> wr_staged s' = wr_staged s
     \<and> (\<forall>r \<in> set (wr_overlay s'). r \<in> set (wr_overlay s) \<or> oe_generation r = g)
     \<and> (\<forall>x \<in> set (wr_overlay_paths s'). x \<in> set (wr_overlay_paths s) \<or> fst x = g)"

lemma other_generations_refl: "other_generations g s s"
  by (simp add: other_generations_def)

lemma other_generations_trans:
  "other_generations g a b \<Longrightarrow> other_generations g b c \<Longrightarrow> other_generations g a c"
  unfolding other_generations_def by (simp, blast)

lemma put_overlay_others: "other_generations g s (put_overlay g b s)"
  by (auto simp: other_generations_def put_overlay_def generation_rows_def generation_paths_def
      insert_replace_def overlay_key_def filter_empty_conv intro!: filter_cong)

lemma put_overlay_entries:
  "entry_in g route s \<Longrightarrow> entry_in g route (put_overlay g b s)" "entry_in g (sb_route b) (put_overlay g b s)"
  by (auto simp: entry_in_def put_overlay_def insert_replace_def overlay_key_def image_iff)

lemma overlay_route_step:
  assumes "overlay_route e g route s = Inr s'"
  shows "other_generations g s s'" "entry_in g route s'" "entry_in g x s \<Longrightarrow> entry_in g x s'"
    "generation_paths g s' = generation_paths g s"
proof -
  obtain b where b: "row sb_route route (wr_staged s) = Some b" "s' = put_overlay g b s"
    using assms by (auto simp: overlay_route_def split: option.splits)
  then have "sb_route b = route" using row_SomeD by fastforce
  then show "other_generations g s s'" "entry_in g route s'" "entry_in g x s \<Longrightarrow> entry_in g x s'"
    "generation_paths g s' = generation_paths g s"
    using put_overlay_others put_overlay_entries b
    by (auto simp: put_overlay_def generation_paths_def)
qed

lemma in_generation_paths: "h \<in> set (generation_paths g s) \<longleftrightarrow> (g, h) \<in> set (wr_overlay_paths s)"
  by (force simp: generation_paths_def)

lemma path_served_mono:
  "path_served g h s \<Longrightarrow> wr_narinfos s' = wr_narinfos s \<Longrightarrow>
    (\<And>x. entry_in g x s \<Longrightarrow> entry_in g x s') \<Longrightarrow> path_served g h s'"
  by (auto simp: path_served_def)

lemma overlay_path_step:
  assumes "overlay_path g h s = Inr s'"
  shows "other_generations g s s' \<and> set (generation_paths g s') = insert h (set (generation_paths g s))
    \<and> path_served g h s' \<and> (\<forall>x. entry_in g x s \<longrightarrow> entry_in g x s')"
proof -
  obtain n s1 s2 where n: "row sn_hash h (wr_narinfos s) = Some n"
    and s1: "overlay_route WR_blob_gone g (sn_route n) s = Inr s1"
    and s2: "overlay_route WR_blob_gone g (sn_nar_route n) s1 = Inr s2"
    and s': "s' = s2\<lparr>wr_overlay_paths := insert_ignore (\<lambda>x. x) (g, h) (wr_overlay_paths s2)\<rparr>"
    using assms by (auto simp: overlay_path_def ebind_Inr split: option.splits sum.splits)
  note a = overlay_route_step [OF s1]
  note b = overlay_route_step [OF s2]
  have o': "other_generations g s s2" by (rule other_generations_trans [OF a(1) b(1)])
  have others: "other_generations g s s'"
    using o' by (auto simp: other_generations_def s' generation_rows_def generation_paths_def
        insert_ignore_def insert_ignore_cases)
  have entries: "entry_in g x s' = entry_in g x s2" for x by (simp add: s' entry_in_def)
  have nh: "n \<in> set (wr_narinfos s)" "sn_hash n = h" using n row_SomeD by fastforce+
  have "wr_narinfos s' = wr_narinfos s" using others by (simp add: other_generations_def)
  then have "path_served g h s'"
    using nh a(2) b(2,3) by (auto simp: path_served_def entries)
  moreover have "set (generation_paths g s') = insert h (set (generation_paths g s))"
  proof -
    have "generation_paths g s2 = generation_paths g s" using a(4) b(4) by simp
    moreover have "k \<in> set (generation_paths g s') \<longleftrightarrow> k = h \<or> k \<in> set (generation_paths g s2)" for k
      by (auto simp: in_generation_paths s' insert_ignore_cases)
    ultimately show ?thesis by auto
  qed
  ultimately show ?thesis using others a(3) b(3) by (simp add: entries)
qed

lemma overlay_paths_fold:
  assumes "fold_err (overlay_path g) hs s = Inr s'"
  shows "other_generations g s s' \<and> set (generation_paths g s') = set hs \<union> set (generation_paths g s)
    \<and> (\<forall>h \<in> set hs. path_served g h s') \<and> (\<forall>x. entry_in g x s \<longrightarrow> entry_in g x s')"
  using assms
proof (induction hs arbitrary: s)
  case Nil
  then show ?case by (simp add: other_generations_refl)
next
  case (Cons h hs)
  obtain t where t: "overlay_path g h s = Inr t" "fold_err (overlay_path g) hs t = Inr s'"
    using Cons.prems by (auto split: sum.splits)
  note a = overlay_path_step [OF t(1)]
  note b = Cons.IH [OF t(2)]
  have "wr_narinfos s' = wr_narinfos t" using b by (simp add: other_generations_def)
  then have "path_served g h s'" using a b path_served_mono [of g h t s'] by blast
  then show ?case using a b other_generations_trans [of g s t s'] by auto
qed

lemma copy_generation_step:
  assumes "copy_generation p g s = Inr s'" "p \<noteq> g"
    "\<forall>r \<in> set (wr_overlay s). oe_generation r \<noteq> g" "\<forall>x \<in> set (wr_overlay_paths s). fst x \<noteq> g"
  shows "other_generations g s s'" "generation_paths g s' = generation_paths p s"
    "entry_in p x s \<Longrightarrow> entry_in g x s'"
proof -
  have s': "s' = s\<lparr>wr_overlay := wr_overlay s @ map (\<lambda>r. r\<lparr>oe_generation := g\<rparr>) (generation_rows p s),
      wr_overlay_paths := wr_overlay_paths s @ map (Pair g) (generation_paths p s)\<rparr>"
    using assms(1) by (auto simp: copy_generation_def dest: insert_rows_append split: option.splits)
  have none: "filter (\<lambda>r. oe_generation r = g) (wr_overlay s) = []"
    "filter (\<lambda>x. fst x = g) (wr_overlay_paths s) = []"
    using assms(3,4) by (auto simp: filter_empty_conv)
  have "filter (\<lambda>r. oe_generation r = g') (map (\<lambda>r. r\<lparr>oe_generation := g\<rparr>) rs) = []" if "g' \<noteq> g" for g' rs
    using that by (induction rs) auto
  moreover have "filter (\<lambda>x. fst x = g') (map (Pair g) hs) = []" if "g' \<noteq> g" for g' and hs :: "jstr list"
    using that by (induction hs) auto
  ultimately show "other_generations g s s'"
    by (auto simp: other_generations_def s' generation_rows_def generation_paths_def)
  have "filter (\<lambda>x. fst x = g) (map (Pair g) hs) = map (Pair g) hs" for hs :: "jstr list"
    by (induction hs) auto
  then show "generation_paths g s' = generation_paths p s"
    using none(2) by (simp add: s' generation_paths_def o_def)
  show "entry_in g x s'" if e: "entry_in p x s"
  proof -
    obtain r where r: "r \<in> set (wr_overlay s)" "oe_generation r = p" "sb_route (oe_blob r) = x"
      using e by (auto simp: entry_in_def overlay_key_def)
    then have "r\<lparr>oe_generation := g\<rparr> \<in> set (wr_overlay s')"
      by (simp add: s' generation_rows_def)
    moreover have "overlay_key (r\<lparr>oe_generation := g\<rparr>) = (g, x)" using r(3) by (simp add: overlay_key_def)
    ultimately show ?thesis unfolding entry_in_def by (metis imageI)
  qed
qed

lemma commit_overlay_step:
  assumes "commit_overlay hs s = (Inr n, s')" "hs \<noteq> []" "overlay_sound lower s" "wr_generation s = Some g"
  shows "n = g + 1 \<and> wr_generation s' = Some n \<and> other_generations n s s'
    \<and> set (generation_paths n s') = set hs \<union> set (generation_paths g s)
    \<and> (\<forall>h \<in> set (generation_paths n s'). path_served n h s')"
proof -
  obtain s1 s2 where s1: "copy_generation g (g + 1) s = Inr s1"
    and s2: "fold_err (overlay_path (g + 1)) (sort (uniq hs)) s1 = Inr s2"
    and s': "s' = s2\<lparr>wr_generation := Some (g + 1)\<rparr>" and n: "n = g + 1"
  proof (cases "ebind (copy_generation g (g + 1) s) (fold_err (overlay_path (g + 1)) (sort (uniq hs)))")
    case (Inl e)
    then show ?thesis using assms(1,2,4) by (simp add: commit_overlay_def Let_def)
  next
    case (Inr s2)
    then have "g + 1 = n \<and> s2\<lparr>wr_generation := Some (g + 1)\<rparr> = s'"
      using assms(1,2,4) by (auto simp: commit_overlay_def Let_def)
    moreover obtain s1 where "copy_generation g (g + 1) s = Inr s1"
      "fold_err (overlay_path (g + 1)) (sort (uniq hs)) s1 = Inr s2"
      using Inr by (auto simp: ebind_Inr)
    ultimately show ?thesis using that by metis
  qed
  have fresh: "\<forall>r \<in> set (wr_overlay s). oe_generation r \<noteq> n" "\<forall>x \<in> set (wr_overlay_paths s). fst x \<noteq> n"
    using assms(3,4) unfolding overlay_sound_def n by fastforce+
  note a = copy_generation_step [OF s1 [folded n] _ fresh]
  note b = overlay_paths_fold [OF s2 [folded n]]
  have ne: "g \<noteq> n" by (simp add: n)
  have "path_served n h s2" if h: "h \<in> set (generation_paths g s)" for h
  proof -
    have "path_served g h s" using assms(3,4) h by (auto simp: overlay_sound_def)
    moreover have "wr_narinfos s2 = wr_narinfos s" using a(1) [OF ne] b by (simp add: other_generations_def)
    ultimately show ?thesis using a(3) [OF ne] b by (auto simp: path_served_def)
  qed
  then have served: "\<forall>h \<in> set (generation_paths n s2). path_served n h s2"
    using a(2) [OF ne] b by (metis Un_iff)
  have upd: "path_served n h s' = path_served n h s2" "generation_paths g' s' = generation_paths g' s2"
    "generation_rows g' s' = generation_rows g' s2" for h g'
    by (simp_all add: s' path_served_def entry_in_def generation_paths_def generation_rows_def)
  have "other_generations n s s2" using other_generations_trans [OF a(1) [OF ne]] b by blast
  then have "other_generations n s s'" unfolding other_generations_def upd by (simp add: s')
  moreover have "set (generation_paths n s') = set hs \<union> set (generation_paths g s)"
    using a(2) [OF ne] b unfolding upd by simp
  moreover have "\<forall>h \<in> set (generation_paths n s'). path_served n h s'"
    using served unfolding upd .
  moreover have "wr_generation s' = Some n" by (simp add: s' n)
  ultimately show ?thesis using n by blast
qed

text \<open>
  C22: Generations are immutable and closed: \<open>recompute\<close>, whether it commits, finds nothing or
  throws, leaves the entries and store paths of every older generation as they are, and when
  every store path of the current generation had its narinfo and NAR in the overlay and its
  references in the overlay or below, the same holds afterwards.
\<close>

theorem recompute_keeps_overlay:
  assumes "overlay_sound (eo_lower opts) s" "recompute opts changed ov s = (r, ov', s')"
  shows "overlay_sound (eo_lower opts) s'
    \<and> (\<forall>g. (\<exists>c. wr_generation s = Some c \<and> g \<le> c) \<longrightarrow>
         generation_rows g s' = generation_rows g s \<and> generation_paths g s' = generation_paths g s)"
proof -
  let ?lower = "eo_lower opts"
  let ?staged = "\<lambda>x. has_key sb_route x (wr_staged s)"
  obtain g where g: "wr_generation s = Some g" using assms(1) by (auto simp: overlay_sound_def)
  show ?thesis
  proof (cases "s' = s")
    case True
    then show ?thesis using assms(1) by simp
  next
    case False
    obtain cs where cs: "affected_candidates changed (eo_visited opts) s = Inr cs"
      using assms(2) False by (cases "affected_candidates changed (eo_visited opts) s") (auto simp: recompute_def)
    let ?a = "admit_rounds ?staged ?lower (generation_paths g s) cs []"
    have some: "?a \<noteq> []" and commit: "snd (commit_overlay ?a s) = s'"
      using assms(2) False cs g
      by (auto simp: recompute_def Let_def split: if_splits prod.splits sum.splits)
    have "fst (commit_overlay ?a s) \<noteq> Inl e" for e
      using commit False by (auto simp: commit_overlay_def Let_def split: option.splits sum.splits if_splits)
    then obtain n where n: "commit_overlay ?a s = (Inr n, s')"
      using commit by (cases "commit_overlay ?a s") (auto split: sum.split, metis sum.exhaust)
    note c = commit_overlay_step [OF n some assms(1) g]
    have closed: "r = h \<or> r \<in> set (generation_paths n s') \<or> ?lower r"
      if h: "h \<in> set (generation_paths n s')" and r: "r \<in> path_refs h s" for h r
    proof (cases "h \<in> set (generation_paths g s)")
      case True
      have "\<forall>h \<in> set (generation_paths g s). \<forall>r \<in> path_refs h s.
          r = h \<or> r \<in> set (generation_paths g s) \<or> ?lower r"
        using assms(1) g by (auto simp: overlay_sound_def)
      then show ?thesis using True r c by blast
    next
      case False
      then have "h \<in> set ?a" using h c by blast
      then have "eligible ?staged ?lower (generation_paths g s) cs h"
        using admit_rounds_sound [of "[]" ?staged ?lower "generation_paths g s" cs h] by simp
      then obtain d where d: "d \<in> set cs" "si_hash d = h"
        "\<And>r. r \<in> set (si_references d) \<Longrightarrow> r \<noteq> h \<Longrightarrow> r \<notin> set (generation_paths g s) \<Longrightarrow> \<not> ?lower r
          \<Longrightarrow> eligible ?staged ?lower (generation_paths g s) cs r"
        by (cases rule: eligible.cases) auto
      obtain m where "d = staged_narinfo_of s m"
        using cs d(1) by (auto simp: affected_candidates_def Let_def split: option.splits if_splits)
      then have "r \<in> set (si_references d)"
        using r d(2) by (auto simp: staged_narinfo_of_def path_refs_def)
      then show ?thesis using d(3) c eligible_admitted by blast
    qed
    have refs: "path_refs h s' = path_refs h s" for h
      using c by (simp add: path_refs_def other_generations_def)
    have "overlay_sound ?lower s'"
      unfolding overlay_sound_def
    proof (intro exI [of _ n] conjI)
      show "\<forall>r \<in> set (wr_overlay s'). oe_generation r \<le> n" "\<forall>x \<in> set (wr_overlay_paths s'). fst x \<le> n"
        using c assms(1) g by (force simp: other_generations_def overlay_sound_def)+
    qed (use c closed refs in auto)
    moreover have "generation_rows k s' = generation_rows k s \<and> generation_paths k s' = generation_paths k s"
      if "k \<le> g" for k using that c by (simp add: other_generations_def)
    ultimately show ?thesis using g by auto
  qed
qed

subsection \<open>Two store paths that become eligible together\<close>

definition sample_staging :: write_state where
  "sample_staging = empty_repository\<lparr>
     wr_generation := Some 0,
     wr_staged := [\<lparr>sb_route = js ''a.narinfo'', sb_digest = js ''1'', sb_size = 1, sb_path = js ''1''\<rparr>,
       \<lparr>sb_route = js ''nar/a'', sb_digest = js ''2'', sb_size = 1, sb_path = js ''2''\<rparr>,
       \<lparr>sb_route = js ''b.narinfo'', sb_digest = js ''3'', sb_size = 1, sb_path = js ''3''\<rparr>,
       \<lparr>sb_route = js ''nar/b'', sb_digest = js ''4'', sb_size = 1, sb_path = js ''4''\<rparr>],
     wr_narinfos := [\<lparr>sn_hash = js ''a'', sn_route = js ''a.narinfo'', sn_nar_route = js ''nar/a'', sn_bytes = 2\<rparr>,
       \<lparr>sn_hash = js ''b'', sn_route = js ''b.narinfo'', sn_nar_route = js ''nar/b'', sn_bytes = 2\<rparr>],
     wr_references := [(js ''a'', js ''b''), (js ''b'', js ''b'')]\<rparr>"

definition sample_eligibility :: eligibility_options where
  "sample_eligibility = \<lparr>eo_visited = 5, eo_metadata = 100, eo_lower = (\<lambda>h. False)\<rparr>"

definition sample_candidates :: "staged_narinfo list" where
  "sample_candidates =
     [\<lparr>si_hash = js ''a'', si_route = js ''a.narinfo'', si_nar_route = js ''nar/a'',
        si_references = [js ''b''], si_bytes = 2\<rparr>,
      \<lparr>si_hash = js ''b'', si_route = js ''b.narinfo'', si_nar_route = js ''nar/b'',
        si_references = [js ''b''], si_bytes = 2\<rparr>]"

lemma sample_seed: "seed_of (js ''b'') sample_staging = Some (js ''b'')"
  by (simp add: seed_of_def starts_with_def js_simps)

lemma sample_referrers: "referrers [(js ''a'', js ''b''), (js ''b'', js ''b'')] [js ''b''] = [js ''b'', js ''a'']"
  by (simp add: referrers.simps uniq_def)

lemma sample_rows:
  "wr_references sample_staging = [(js ''a'', js ''b''), (js ''b'', js ''b'')]"
  "wr_narinfos sample_staging =
     [\<lparr>sn_hash = js ''a'', sn_route = js ''a.narinfo'', sn_nar_route = js ''nar/a'', sn_bytes = 2\<rparr>,
      \<lparr>sn_hash = js ''b'', sn_route = js ''b.narinfo'', sn_nar_route = js ''nar/b'', sn_bytes = 2\<rparr>]"
  by (simp_all add: sample_staging_def)

lemma sample_affected: "affected_candidates (js ''b'') 5 sample_staging = Inr sample_candidates"
proof -
  have "\<not> js ''b'' \<le> js ''a''" by (simp add: not_le js_simps)
  then show ?thesis
    by (simp add: affected_candidates_def sample_seed sample_rows
        sample_referrers sort_key_def staged_narinfo_of_def sample_candidates_def)
qed

lemma sample_admitted_rounds:
  "admit_rounds (\<lambda>x. has_key sb_route x (wr_staged sample_staging)) (\<lambda>h. False) [] sample_candidates []
    = [js ''b'', js ''a'']"
proof -
  have "has_key sb_route (js ''nar/a'') (wr_staged sample_staging)"
    "has_key sb_route (js ''nar/b'') (wr_staged sample_staging)"
    by (simp_all add: sample_staging_def has_key_def)
  then show ?thesis
    by (simp add: admit_rounds.simps sample_candidates_def admissible_def closed_under_def)
qed

theorem eligibility_exact_witness:
  "set (admit_rounds (\<lambda>r. True) (\<lambda>h. False) [] sample_candidates [])
    = {h. eligible (\<lambda>r. True) (\<lambda>h. False) [] sample_candidates h}"
  using eligibility_exact [OF sample_affected sample_seed] by blast

lemma sample_commits: "\<exists>s. commit_overlay [js ''b'', js ''a''] sample_staging = (Inr 1, s) \<and> wr_generation s = Some 1"
proof -
  have "\<not> js ''b'' \<le> js ''a''" by (simp add: not_le js_simps)
  then show ?thesis
    by (simp add: commit_overlay_def sample_staging_def empty_repository_def copy_generation_def
        generation_rows_def generation_paths_def uniq_def overlay_path_def overlay_route_def row_def
        put_overlay_def)
qed

theorem recompute_keeps_overlay_witness:
  "\<exists>ov s. recompute sample_eligibility (js ''b'') (load_generation 0 sample_staging) sample_staging
      = (Inr True, ov, s) \<and> overlay_sound (\<lambda>h. False) s"
proof -
  obtain s where s: "commit_overlay [js ''b'', js ''a''] sample_staging = (Inr 1, s)" "wr_generation s = Some 1"
    using sample_commits by blast
  have "wr_generation sample_staging = Some 0" "generation_paths 0 sample_staging = []"
    by (simp_all add: sample_staging_def empty_repository_def generation_paths_def)
  then have r: "recompute sample_eligibility (js ''b'') (load_generation 0 sample_staging) sample_staging
      = (Inr True, load_generation 1 s, s)"
    using s sample_affected sample_admitted_rounds
    by (simp add: recompute_def sample_eligibility_def refresh_overlay_def)
       (simp add: sample_candidates_def)
  have "overlay_sound (eo_lower sample_eligibility) sample_staging"
    by (simp add: overlay_sound_def sample_staging_def empty_repository_def generation_paths_def)
  from recompute_keeps_overlay [OF this r] show ?thesis
    using r by (simp add: sample_eligibility_def)
qed

end
