(* ===== verification/Write_Sagas.thy ===== *)
theory Write_Sagas
  imports Write_Publication
begin

section \<open>The order of a publication saga\<close>

text \<open>
  Every call of the write repository is one step on its state, here the relation
  \<open>write_step\<close>. A saga records what has been done for one publication, in an order that must
  not be broken by any interleaving of the calls: first a server has all its blobs, then the
  event is signed, a relay acknowledges it, it is committed, and it is admitted. The first
  part shows which calls leave the sagas alone, the second what the others do to them, and
  the third what follows for the reachable states.
\<close>

named_theorems saga_frame
named_theorems saga_spared

definition sagas_kept :: "write_state \<Rightarrow> write_state \<Rightarrow> bool" where
  "sagas_kept s s' \<longleftrightarrow> wr_sagas s' = wr_sagas s \<and> wr_history s' = wr_history s"

lemma sagas_kept_refl [simp]: "sagas_kept s s"
  by (simp add: sagas_kept_def)

lemma sagas_kept_trans: "sagas_kept a b \<Longrightarrow> sagas_kept b c \<Longrightarrow> sagas_kept a c"
  by (simp add: sagas_kept_def)

text \<open>Sagas of the result of a call.\<close>

definition spares :: "(write_state \<Rightarrow> 'a \<times> write_state) \<Rightarrow> bool" where
  "spares f \<longleftrightarrow> (\<forall>s. sagas_kept s (snd (f s)))"

lemma sparesD: "spares f \<Longrightarrow> f s = (r, s') \<Longrightarrow> sagas_kept s s'"
  by (metis spares_def snd_conv)

subsection \<open>Calls that leave the sagas alone\<close>

lemma spares_on_store [saga_spared]: "spares (on_store f)"
  by (auto simp: spares_def on_store_def sagas_kept_def split: option.split prod.split sum.split)

lemma sweep_content_sagas [saga_frame]: "sagas_kept s (sweep_content removes s)"
  by (simp add: sagas_kept_def sweep_content_def)

lemma retry_cleanup_sagas [saga_frame]: "sagas_kept s (retry_cleanup removes s)"
  by (simp add: sagas_kept_def retry_cleanup_def)

lemma end_run_sagas [saga_frame]: "sagas_kept s (end_run owner index s)"
  by (simp add: sagas_kept_def end_run_def)

lemma fold_sagas: "(\<And>x s. sagas_kept s (f x s)) \<Longrightarrow> sagas_kept s (fold f xs s)"
  by (induction xs arbitrary: s) (auto intro: sagas_kept_trans)

lemma fold_err_sagas: "(\<And>x s t. f x s = Inr t \<Longrightarrow> sagas_kept s t) \<Longrightarrow> fold_err f xs s = Inr t \<Longrightarrow> sagas_kept s t"
proof (induction xs arbitrary: s)
  case (Cons x xs)
  then show ?case by (auto split: sum.splits) (blast intro: sagas_kept_trans)
qed simp

lemma reconcile_runs_sagas [saga_frame]: "sagas_kept s (reconcile_runs removes s)"
  unfolding reconcile_runs_def
  by (intro sagas_kept_trans [OF _ sweep_content_sagas] sagas_kept_trans [OF _ retry_cleanup_sagas]
      fold_sagas end_run_sagas)

lemma activate_sagas [saga_frame]: "sagas_kept s (activate removes s)"
proof (cases "wr_active s")
  case False
  show ?thesis
    unfolding activate_def if_not_P [OF False]
    by (rule sagas_kept_trans [OF _ reconcile_runs_sagas]) (simp add: sagas_kept_def)
qed (simp add: activate_def)

lemma spares_bind_identity [saga_spared]: "spares (bind_identity removes identity)"
proof -
  have "sagas_kept s (activate removes (s\<lparr>wr_identity := i\<rparr>))" for s i
    by (rule sagas_kept_trans [OF _ activate_sagas]) (simp add: sagas_kept_def)
  then show ?thesis
    by (simp add: spares_def bind_identity_def activate_sagas split: option.split)
qed

lemma spares_start_run [saga_spared]: "spares (start_run run index)"
  by (simp add: spares_def start_run_def sagas_kept_def split: option.split)

lemma spares_store_call:
  assumes "spares g" "\<And>e t. sagas_kept t (snd (l e t))" "\<And>x t. sagas_kept t (snd (k x t))"
  shows "spares (\<lambda>s. case g s of (Inl e, t) \<Rightarrow> l e t | (Inr x, t) \<Rightarrow> k x t)"
  unfolding spares_def
proof
  fix s
  obtain r t where g: "g s = (r, t)" by (cases "g s")
  then have "sagas_kept s t" using assms(1) by (blast dest: sparesD)
  then show "sagas_kept s (snd (case g s of (Inl e, t) \<Rightarrow> l e t | (Inr x, t) \<Rightarrow> k x t))"
    using assms(2,3) by (auto simp: g split: sum.split intro: sagas_kept_trans)
qed

lemma spares_record_writer_blob [saga_spared]: "spares (record_writer_blob run blob)"
proof -
  have "spares (\<lambda>s. case on_store (acquire_owner run (cb_hash blob)) s of
      (Inl e, s') \<Rightarrow> (Inl e, s') | (Inr x, s') \<Rightarrow> (Inr (), s'))"
    by (intro spares_store_call [OF spares_on_store]) simp_all
  then show ?thesis
    by (simp add: spares_def record_writer_blob_def Let_def sagas_kept_def split: option.split)
qed

lemma spares_release_run [saga_spared]: "spares (release_run removes now run)"
proof -
  have "sagas_kept t (snd (Inr () :: write_error + unit, sweep_content removes (retry_cleanup removes
      (case row ru_owner run (wr_runs t) of
         None \<Rightarrow> t\<lparr>wr_owners := delete_where (\<lambda>x. fst x = run) (wr_owners t)\<rparr>
       | Some r \<Rightarrow> end_run run (ru_index r) t))))" for t
    unfolding snd_conv
    by (intro sagas_kept_trans [OF _ sweep_content_sagas] sagas_kept_trans [OF _ retry_cleanup_sagas])
      (simp add: end_run_sagas split: option.split, simp add: sagas_kept_def)
  then show ?thesis
    unfolding release_run_def by (intro spares_store_call [OF spares_on_store]) simp_all
qed

lemma spares_open_blobs [saga_spared]: "spares (open_blobs sha uuid now capacity disk)"
  by (simp add: spares_def open_blobs_def sagas_kept_def split: option.split sum.split)

lemma spares_blob_lease [saga_spared]: "spares (blob_lease now h)"
  unfolding blob_lease_def by (intro spares_store_call [OF spares_on_store]) simp_all

lemma spares_close_repository [saga_spared]: "spares close_repository"
  unfolding close_repository_def by (intro spares_store_call [OF spares_on_store]) simp_all

lemma record_narinfo_sagas [saga_frame]: "sagas_kept s (record_narinfo route n s)"
  by (simp add: record_narinfo_def Let_def announce_def sagas_kept_def)

lemma spares_stage_begin [saga_spared]: "spares (stage_begin limits token)"
  by (simp add: spares_def stage_begin_def reserve_body_def sagas_kept_def split: option.split)

lemma spares_stage_body [saga_spared]: "spares (stage_body sha limits ceiling token route source)"
  by (simp add: spares_def stage_body_def stage_failed_def release_body_def drop_temp_def sagas_kept_def
      Let_def split: option.split sum.split)

lemma spares_stage_commit [saga_spared]: "spares (stage_commit limits token route digest n)"
  by (simp add: spares_def stage_commit_def stage_failed_def release_body_def drop_temp_def announce_def
      sagas_kept_def Let_def split: option.split)

lemma spares_nar_commit: "spares (nar_commit sha now owner route u)"
proof -
  have release: "spares (\<lambda>s. case on_store (release_owner now owner None) s of
      (Inl e, s') \<Rightarrow> (Inl e, s') | (Inr x, s') \<Rightarrow> (Inr b, s'))" for b :: staged_blob
    by (intro spares_store_call [OF spares_on_store]) simp_all
  have put: "sagas_kept t (announce route (t\<lparr>wr_staged := rows\<rparr>))" for t rows
    by (simp add: sagas_kept_def announce_def)
  show ?thesis
    unfolding spares_def
  proof
    fix s
    obtain r t where c: "on_store (commit_route now route (int (length (nu_content u))) (nu_components u) owner) s
        = (r, t)" by (rule prod.exhaust)
    then have t: "sagas_kept s t" by (rule sparesD [OF spares_on_store])
    have "snd (nar_commit sha now owner route u s) = t
        \<or> (\<exists>rows. snd (nar_commit sha now owner route u s) = announce route (t\<lparr>wr_staged := rows\<rparr>))"
      if none: "lookup_route route s = None"
    proof (cases r)
      case (Inl e)
      have "snd (nar_commit sha now owner route u s) = t"
        unfolding nar_commit_def Let_def none option.case c Inl prod.case sum.case
        by (cases e; simp split: blob_error.split)
      then show ?thesis by simp
    next
      case (Inr x)
      show ?thesis
        unfolding nar_commit_def Let_def none option.case c Inr prod.case sum.case
        by (auto split: list.split option.split)
    qed
    moreover have "sagas_kept s (snd (nar_commit sha now owner route u s))" if "lookup_route route s = Some b" for b
      using release [of b] that by (simp add: nar_commit_def Let_def spares_def)
    ultimately show "sagas_kept s (snd (nar_commit sha now owner route u s))"
      using t put sagas_kept_trans by (cases "lookup_route route s") metis+
  qed
qed

lemma spares_stage_nar [saga_spared]:
  "spares (stage_nar sha limits ceiling now tokens uuid route source b)"
  unfolding spares_def
proof
  fix s :: write_state
  let ?owner = "js ''upload:'' @ uuid"
  obtain failure u where n: "nar_pieces sha now ?owner
      (min (case ceiling of None \<Rightarrow> wl_body limits | Some c \<Rightarrow> c) (wl_body limits)) (bs_fails source)
      (bs_pieces source) \<lparr>nu_buffer = [], nu_content = [], nu_components = [], nu_tokens = tokens,
        nu_store = (case wr_store s of None \<Rightarrow> b | Some x \<Rightarrow> x)\<rparr> = (failure, u)" by fastforce
  let ?s1 = "s\<lparr>wr_store := Some (nu_store u)\<rparr>"
  obtain r s2 where r: "(case failure of Some e \<Rightarrow> (Inl e, ?s1) | None \<Rightarrow> nar_commit sha now ?owner route u ?s1)
      = (r, s2)" by fastforce
  have "sagas_kept ?s1 s2"
    using r by (auto split: option.splits dest: sparesD [OF spares_nar_commit])
  then have s2: "sagas_kept s s2" by (simp add: sagas_kept_def)
  have "sagas_kept s2 (snd (on_store (release_owner now ?owner None) s2))"
    using spares_on_store by (auto simp: spares_def)
  then show "sagas_kept s (snd (stage_nar sha limits ceiling now tokens uuid route source b s))"
    using s2 by (auto simp: stage_nar_def Let_def n r split: sum.split prod.split intro: sagas_kept_trans)
qed

lemma discard_sagas [saga_frame]: "sagas_kept s (discard route s)"
  by (simp add: discard_def remove_staged_def Let_def sagas_kept_def split: option.split)

lemma overlay_path_sagas: "overlay_path g h s = Inr t \<Longrightarrow> sagas_kept s t"
  by (auto simp: overlay_path_def overlay_route_def put_overlay_def sagas_kept_def ebind_Inr
      split: option.splits sum.splits)

lemma overlay_route_sagas: "overlay_route e g h s = Inr t \<Longrightarrow> sagas_kept s t"
  by (auto simp: overlay_route_def put_overlay_def sagas_kept_def split: option.splits)

lemma copy_generation_sagas: "copy_generation previous g s = Inr t \<Longrightarrow> sagas_kept s t"
  by (auto simp: copy_generation_def sagas_kept_def split: option.splits)

lemma spares_generation:
  assumes step: "\<And>x s t. f x s = Inr t \<Longrightarrow> sagas_kept s t"
    and result: "ebind (copy_generation p g s) (fold_err f xs) = Inr t"
  shows "sagas_kept s (t\<lparr>wr_generation := n\<rparr>)"
proof -
  obtain u where u: "sagas_kept s u" "fold_err f xs u = Inr t"
    using result by (auto simp: ebind_Inr dest: copy_generation_sagas)
  have "sagas_kept u t" by (rule fold_err_sagas [OF step u(2)])
  with u(1) have "sagas_kept s t" by (rule sagas_kept_trans)
  then show ?thesis by (simp add: sagas_kept_def)
qed

lemma spares_commit_overlay [saga_spared]: "spares (commit_overlay hashes)"
  by (auto simp: spares_def commit_overlay_def Let_def split: option.split sum.split
      intro: spares_generation overlay_path_sagas)

lemma spares_commit_overlay_routes [saga_spared]: "spares (commit_overlay_routes routes)"
  by (auto simp: spares_def commit_overlay_routes_def Let_def split: option.split sum.split
      intro: spares_generation overlay_route_sagas)

lemma drop_batch_sagas: "sagas_kept s (drop_batch i s)"
  by (simp add: drop_batch_def sagas_kept_def)

lemma drop_generation_sagas: "sagas_kept s (drop_generation g s)"
  by (simp add: drop_generation_def sagas_kept_def)

lemma spares_release_batches: "spares (release_batches now is')"
proof -
  have "sagas_kept s (snd (release_batches now is' s))" for s
  proof (induction is' arbitrary: s)
    case (Cons i is')
    show ?case
    proof (cases "wr_store s")
      case None
      have "sagas_kept s (s\<lparr>wr_owners := x\<rparr>)" for x by (simp add: sagas_kept_def)
      then show ?thesis by (simp add: None sagas_kept_trans [OF _ Cons.IH])
    next
      case (Some b)
      obtain r t where c: "on_store (release_owner now (batch_owner ''saga:'' i) None) s = (r, t)"
        by (rule prod.exhaust)
      have "sagas_kept s t" by (rule sparesD [OF spares_on_store c])
      then show ?thesis using sagas_kept_trans [OF _ Cons.IH] by (simp add: Some c split: sum.split)
    qed
  qed simp
  then show ?thesis by (simp add: spares_def)
qed

lemma spares_prune_admitted [saga_spared]: "spares (prune_admitted removes now)"
  unfolding spares_def
proof
  fix s
  define s0 where "s0 = fold drop_generation (prunable s) s"
  define s1 where "s1 = fold drop_batch (releasable s) s0"
  have "sagas_kept s s0" unfolding s0_def by (rule fold_sagas) (rule drop_generation_sagas)
  moreover have "sagas_kept s0 s1" unfolding s1_def by (rule fold_sagas) (rule drop_batch_sagas)
  ultimately have s1: "sagas_kept s s1" by (rule sagas_kept_trans)
  obtain r t where c: "release_batches now (releasable s) s1 = (r, t)" by (rule prod.exhaust)
  have "sagas_kept s1 t" by (rule sparesD [OF spares_release_batches c])
  with s1 have "sagas_kept s t" by (rule sagas_kept_trans)
  moreover have "sagas_kept s (sweep_content removes t)"
    using \<open>sagas_kept s t\<close> by (rule sagas_kept_trans [OF _ sweep_content_sagas])
  ultimately show "sagas_kept s (snd (prune_admitted removes now s))"
    unfolding prune_admitted_def Let_def s0_def [symmetric] s1_def [symmetric] c prod.case by (simp split: sum.split)
qed

lemma acquire_generation_sagas [saga_frame]: "sagas_kept s (snd (acquire_generation g s))"
  by (simp add: acquire_generation_def sagas_kept_def)

lemma release_generation_sagas [saga_frame]: "sagas_kept s (snd (snd (release_generation removes now l s)))"
proof (cases l)
  case (Live g)
  let ?s1 = "s\<lparr>wr_leases :=
    (let n = (case map_of (wr_leases s) g of None \<Rightarrow> 1 | Some m \<Rightarrow> m) - 1 in
     if n > 0 then AList.update g n (wr_leases s) else AList.delete g (wr_leases s))\<rparr>"
  obtain r t where c: "prune_admitted removes now ?s1 = (r, t)" by (rule prod.exhaust)
  have "sagas_kept ?s1 t" by (rule sparesD [OF spares_prune_admitted c])
  then have "sagas_kept s t" by (simp add: sagas_kept_def)
  moreover have "snd (snd (release_generation removes now l s)) = t"
    using c by (simp only: release_generation_def Live Let_def handle.case prod.case snd_conv)
  ultimately show ?thesis by simp
qed (simp add: release_generation_def)

lemma recompute_sagas [saga_frame]: "recompute opts changed ov s = (r, ov', s') \<Longrightarrow> sagas_kept s s'"
  by (auto simp: recompute_def Let_def split: sum.splits option.splits if_splits prod.splits
      dest: sparesD [OF spares_commit_overlay])

lemma spares_mark_dirty [saga_spared]: "spares (mark_dirty generation now base)"
  by (simp add: spares_def mark_dirty_def Let_def sagas_kept_def split: option.split)

lemma spares_claim_batch [saga_spared]: "spares (claim_batch token)"
  by (simp add: spares_def claim_batch_def Let_def sagas_kept_def split: option.split)

lemma mark_batch_failed_sagas [saga_frame]: "sagas_kept s (mark_batch_failed i s)"
  by (simp add: mark_batch_failed_def sagas_kept_def)

lemma add_pending_sagas: "add_pending i run c s = Inr t \<Longrightarrow> sagas_kept s t"
  by (auto simp: add_pending_def sagas_kept_def split: if_splits option.splits)

lemma own_pending_sagas: "own_pending i run n s = Inr t \<Longrightarrow> sagas_kept s t"
  by (auto simp: own_pending_def set_owners_def Let_def sagas_kept_def split: if_splits option.splits)

lemma spares_release_superseded: "spares (release_superseded removes now superseded i)"
  unfolding spares_def
proof
  fix s
  have sweep: "sagas_kept t (sweep_content removes (t\<lparr>wr_owners := x\<rparr>))" for t x
    by (simp add: sagas_kept_def sweep_content_def)
  have "spares (\<lambda>s. case on_store (release_owner now (batch_owner ''batch:'' old) None) s of
      (Inl e, s') \<Rightarrow> (Inl e, s') | (Inr x, s') \<Rightarrow> (Inr (), sweep_content removes s'))" for old
    by (intro spares_store_call [OF spares_on_store]) (simp_all add: sweep_content_sagas)
  then have "sagas_kept s (snd (case on_store (release_owner now (batch_owner ''batch:'' old) None) s of
      (Inl e, s') \<Rightarrow> (Inl e, s') | (Inr x, s') \<Rightarrow> (Inr (), sweep_content removes s')))" for old
    by (simp add: spares_def)
  then show "sagas_kept s (snd (release_superseded removes now superseded i s))"
    by (simp add: release_superseded_def sweep split: option.split)
qed

lemma spares_record_pending [saga_spared]: "spares (record_pending removes now batch c blobs run)"
  unfolding spares_def
proof
  fix s
  let ?i = "fb_id batch"
  have first: "sagas_kept s t"
    if result: "ebind (fold_err (add_pending ?i (given run)) blobs (s\<lparr>wr_pending_blobs := []\<rparr>))
          (own_pending ?i run (pc_blobs c)) = Inr t" for t
  proof -
    obtain u where u: "fold_err (add_pending ?i (given run)) blobs (s\<lparr>wr_pending_blobs := []\<rparr>) = Inr u"
      "sagas_kept u t" using result unfolding ebind_Inr by (auto dest: own_pending_sagas)
    have "sagas_kept (s\<lparr>wr_pending_blobs := []\<rparr>) u" by (rule fold_err_sagas [OF add_pending_sagas u(1)])
    then have "sagas_kept (s\<lparr>wr_pending_blobs := []\<rparr>) t" using u(2) by (rule sagas_kept_trans)
    then show ?thesis by (simp add: sagas_kept_def)
  qed
  have update: "sagas_kept s (t\<lparr>wr_pending := p, wr_batches := b\<rparr>)" if "sagas_kept s t" for t p b
    using that by (simp add: sagas_kept_def)
  have release: "sagas_kept s (snd (release_superseded removes now old ?i t))" if "sagas_kept s t" for old t
    using that spares_release_superseded [of removes now old ?i] unfolding spares_def
    by (blast intro: sagas_kept_trans)
  show "sagas_kept s (snd (record_pending removes now batch c blobs run s))"
    using first by (auto simp: record_pending_def Let_def split: sum.split intro!: release update)
qed

lemma ensure_work_sagas [saga_frame]: "sagas_kept s (ensure_work i kind targets now s)"
  by (simp add: ensure_work_def Let_def announce_def sagas_kept_def)

lemma claim_due_sagas [saga_frame]: "sagas_kept s (snd (claim_due now limit s))"
  by (simp add: claim_due_def Let_def claim_rows_def sagas_kept_def)

lemma claim_work_sagas [saga_frame]: "sagas_kept s (snd (claim_work i kind target now s))"
  by (simp add: claim_work_def claim_rows_def sagas_kept_def split: option.split)

lemma restore_claimed_sagas [saga_frame]: "sagas_kept s (restore_claimed now s)"
  by (simp add: restore_claimed_def announce_def sagas_kept_def)

lemma spares_record_outcome [saga_spared]: "spares (record_outcome w u)"
  by (simp add: spares_def record_outcome_def announce_def sagas_kept_def split: option.split)

lemma spares_record_proof [saga_spared]: "spares (record_proof i server h)"
  by (simp add: spares_def record_proof_def sagas_kept_def split: option.split)

subsection \<open>What the other calls do to a saga\<close>

lemma given_None [simp]: "given None = None"
  by (simp add: given_def)

lemma given_idem [simp]: "given (given x) = given x"
  by (simp add: given_def split: option.split list.split)

definition saga_ordered :: "saga \<Rightarrow> bool" where
  "saga_ordered g \<longleftrightarrow> pc_batch (sg_candidate g) = sg_batch g
     \<and> (sg_admitted g \<longrightarrow> sg_committed g) \<and> (sg_committed g \<longrightarrow> given (sg_acknowledged g) \<noteq> None)
     \<and> (sg_acknowledged g \<noteq> None \<longrightarrow> sg_signed g \<noteq> None)
     \<and> (sg_signed g \<noteq> None \<longrightarrow> given (sg_complete g) \<noteq> None)
     \<and> (sg_template g = None \<longleftrightarrow> sg_signed g = None)"

definition extends :: "'a option \<Rightarrow> 'a option \<Rightarrow> bool" where
  "extends x y \<longleftrightarrow> x = None \<or> y = x"

lemma extends_refl [simp]: "extends x x" "extends None y"
  by (simp_all add: extends_def)

lemma extends_trans: "extends x y \<Longrightarrow> extends y z \<Longrightarrow> extends x z"
  by (auto simp: extends_def)

text \<open>What was recorded of a saga stays as it was recorded.\<close>

definition saga_grows :: "saga \<Rightarrow> saga \<Rightarrow> bool" where
  "saga_grows g g' \<longleftrightarrow> sg_batch g' = sg_batch g \<and> sg_candidate g' = sg_candidate g
     \<and> sg_destinations g' = sg_destinations g
     \<and> extends (sg_complete g) (sg_complete g') \<and> extends (sg_template g) (sg_template g')
     \<and> extends (sg_signed g) (sg_signed g') \<and> extends (sg_acknowledged g) (sg_acknowledged g')
     \<and> (sg_committed g \<longrightarrow> sg_committed g') \<and> (sg_admitted g \<longrightarrow> sg_admitted g')"

lemma saga_grows_refl [simp]: "saga_grows g g"
  by (simp add: saga_grows_def)

lemma saga_grows_trans: "saga_grows a b \<Longrightarrow> saga_grows b c \<Longrightarrow> saga_grows a c"
  unfolding saga_grows_def by (auto intro: extends_trans)

definition saga_inv :: "write_state \<Rightarrow> bool" where
  "saga_inv s \<longleftrightarrow> length (wr_sagas s) \<le> 1 \<and> (\<forall>g \<in> set (wr_sagas s). saga_ordered g)
     \<and> (\<forall>x \<in> set (wr_history s). saga_ordered (fst x))"

lemma saga_inv_kept: "sagas_kept s s' \<Longrightarrow> saga_inv s \<Longrightarrow> saga_inv s'"
  by (simp add: saga_inv_def sagas_kept_def)

lemma current_saga_simps [simp]:
  "wr_sagas s = [] \<Longrightarrow> current_saga s = None" "wr_sagas s = [g] \<Longrightarrow> current_saga s = Some g"
  by (simp_all add: current_saga_def)

lemma saga_inv_cases:
  assumes "saga_inv s"
  obtains (none) "wr_sagas s = []" | (one) g where "wr_sagas s = [g]" "saga_ordered g"
  using assms by (cases "wr_sagas s") (auto simp: saga_inv_def)

lemma current_saga_Some: "saga_inv s \<Longrightarrow> current_saga s = Some g \<longleftrightarrow> wr_sagas s = [g]"
  by (erule saga_inv_cases) auto

lemma update_saga_simps [simp]:
  "wr_history (update_saga i f s) = wr_history s"
  "wr_sagas s = [g] \<Longrightarrow> wr_sagas (update_saga i f s) = [if sg_batch g = i then f g else g]"
  by (simp_all add: update_saga_def update_where_def)

text \<open>
  One step of a saga: nothing, a recorded fact, or the end of its turn, when it is admitted or
  not signed and goes to the history or is copied with a new number. \<open>es\<close> are the events
  that the step may record as signed.
\<close>

definition signed_by_step :: "raw_publication set \<Rightarrow> saga \<Rightarrow> saga \<Rightarrow> bool" where
  "signed_by_step es g g' \<longleftrightarrow> sg_signed g' = sg_signed g \<or> (\<exists>e \<in> es. sg_signed g' = Some e)"

lemma signed_by_step_same [simp]: "sg_signed g' = sg_signed g \<Longrightarrow> signed_by_step es g g'"
  by (simp add: signed_by_step_def)

inductive saga_move :: "raw_publication set \<Rightarrow> write_state \<Rightarrow> write_state \<Rightarrow> bool" where
  kept: "sagas_kept s s' \<Longrightarrow> saga_move es s s'"
| fact: "wr_sagas s = [g] \<Longrightarrow> wr_sagas s' = [g'] \<Longrightarrow> wr_history s' = wr_history s
    \<Longrightarrow> saga_grows g g' \<Longrightarrow> (saga_ordered g \<Longrightarrow> saga_ordered g') \<Longrightarrow> signed_by_step es g g'
    \<Longrightarrow> saga_move es s s'"
| past: "wr_sagas s' = wr_sagas s \<Longrightarrow> wr_history s' = map (\<lambda>(g, at). (f g, at)) (wr_history s)
    \<Longrightarrow> (\<And>g. saga_ordered g \<Longrightarrow> saga_ordered (f g)) \<Longrightarrow> (\<And>g. saga_grows g (f g) \<and> sg_signed (f g) = sg_signed g)
    \<Longrightarrow> saga_move es s s'"
| first: "wr_sagas s = [] \<Longrightarrow> wr_sagas s' = [g'] \<Longrightarrow> wr_history s' = wr_history s
    \<Longrightarrow> saga_ordered g' \<Longrightarrow> sg_signed g' = None \<Longrightarrow> saga_move es s s'"
| turn: "wr_sagas s = [g] \<Longrightarrow> wr_sagas s' = [g'] \<Longrightarrow> saga_grows g h
    \<Longrightarrow> (saga_ordered g \<Longrightarrow> saga_ordered h) \<Longrightarrow> (saga_ordered g \<Longrightarrow> saga_ordered g')
    \<Longrightarrow> sg_admitted g \<or> sg_signed g = None \<Longrightarrow> sg_signed h = sg_signed g \<Longrightarrow> sg_signed g' = None
    \<Longrightarrow> set (wr_history s') \<subseteq> insert (h, now) (set (wr_history s)) \<Longrightarrow> saga_move es s s'"

lemma saga_move_inv: "saga_move es s s' \<Longrightarrow> saga_inv s \<Longrightarrow> saga_inv s'"
  by (induction rule: saga_move.induct) (auto simp: saga_inv_def sagas_kept_def)

lemma saga_move_signed:
  assumes "saga_move es s s'" "wr_sagas s = [g]" "sg_signed g \<noteq> None" "\<not> sg_admitted g"
  shows "\<exists>g'. wr_sagas s' = [g'] \<and> saga_grows g g'"
  using assms by (cases rule: saga_move.cases) (auto simp: sagas_kept_def)

lemma saga_grows_update:
  "(sg_batch g = i \<Longrightarrow> saga_grows g (f g)) \<Longrightarrow> saga_grows g (if sg_batch g = i then f g else g)"
  by simp

lemma record_complete_move:
  assumes "saga_inv s" "record_complete i server s = (r, s')"
  shows "saga_move es s s'"
proof (cases "server_complete i server s \<and> map_option sg_batch (current_saga s) = Some i")
  case True
  then obtain g where g: "wr_sagas s = [g]" "sg_batch g = i"
    using assms(1) by (auto elim: saga_inv_cases)
  have "s' = update_saga i (set_complete server) s"
    using assms(2) True by (simp add: record_complete_def)
  then show ?thesis
    using g by (intro fact [of s g _ "set_complete server g"])
      (auto simp: set_complete_def saga_grows_def saga_ordered_def split: option.splits)
next
  case False
  then have "sagas_kept s s' \<or> (wr_sagas s' = wr_sagas s \<and> wr_history s'
      = map (\<lambda>(g, at). ((\<lambda>g. if sg_batch g = i then set_complete server g else g) g, at)) (wr_history s))"
    using assms(2) by (auto simp: record_complete_def sagas_kept_def split: if_splits)
  then show ?thesis
    by (rule disjE) (rule kept, assumption, erule conjE, rule past, assumption+,
      auto simp: set_complete_def saga_ordered_def saga_grows_def extends_def split: option.splits)
qed

lemma record_signed_move:
  assumes "saga_inv s" "record_signed env i t e s = (r, s')" "e \<in> es"
  shows "saga_move es s s'"
  using assms(1)
proof (cases rule: saga_inv_cases)
  case none
  then show ?thesis using assms(2) by (simp add: record_signed_def kept)
next
  case (one g)
  let ?f = "\<lambda>h. h\<lparr>sg_template := (case sg_template h of None \<Rightarrow> Some (template_value t) | Some x \<Rightarrow> Some x),
             sg_signed := (case sg_signed h of None \<Rightarrow> Some e | Some x \<Rightarrow> Some x)\<rparr>"
  have grows: "saga_grows g (?f g)"
    by (simp add: saga_grows_def extends_def split: option.split)
  consider "s' = s" | "s' = update_saga i ?f s" "given (sg_complete g) \<noteq> None"
    using assms(2) one by (auto simp: record_signed_def split: if_splits)
  then show ?thesis
  proof cases
    case 2
    then show ?thesis
      using one grows assms(3) by (intro fact [of s g _ "if sg_batch g = i then ?f g else g"])
        (auto simp: saga_ordered_def signed_by_step_def split: option.split)
  qed (simp add: kept)
qed

lemma record_acknowledgement_move:
  assumes "saga_inv s" "record_acknowledgement i relay s = (r, s')"
  shows "saga_move es s s'"
  using assms(1)
proof (cases rule: saga_inv_cases)
  case none
  then show ?thesis using assms(2) by (simp add: record_acknowledgement_def kept)
next
  case (one g)
  let ?f = "\<lambda>h. h\<lparr>sg_acknowledged := (case sg_acknowledged h of None \<Rightarrow> Some relay | Some x \<Rightarrow> Some x)\<rparr>"
  have grows: "saga_grows g (?f g)"
    by (simp add: saga_grows_def extends_def split: option.split)
  consider "s' = s" | "s' = update_saga i ?f s" "sg_signed g \<noteq> None"
    using assms(2) one by (auto simp: record_acknowledgement_def split: if_splits)
  then show ?thesis
  proof cases
    case 2
    then show ?thesis
      using one grows by (intro fact [of s g _ "if sg_batch g = i then ?f g else g"])
        (auto simp: saga_ordered_def split: option.split)
  qed (simp add: kept)
qed

lemma commit_publication_move:
  assumes "saga_inv s" "commit_publication i s = (r, s')"
  shows "saga_move es s s'"
  using assms(1)
proof (cases rule: saga_inv_cases)
  case none
  then show ?thesis using assms(2) by (simp add: commit_publication_def kept)
next
  case (one g)
  consider "s' = s" | "s' = update_saga i (\<lambda>h. h\<lparr>sg_committed := True\<rparr>) s" "given (sg_acknowledged g) \<noteq> None"
    using assms(2) one by (auto simp: commit_publication_def split: if_splits)
  then show ?thesis
  proof cases
    case 2
    then show ?thesis
      using one by (intro fact [of s g _ "if sg_batch g = i then g\<lparr>sg_committed := True\<rparr> else g"])
        (auto simp: saga_grows_def saga_ordered_def)
  qed (simp add: kept)
qed

lemma mark_admitted_move:
  assumes "saga_inv s" "mark_admitted removes now i s = (r, s')"
  shows "saga_move es s s'"
  using assms(1)
proof (cases rule: saga_inv_cases)
  case none
  then show ?thesis using assms(2) by (simp add: mark_admitted_def kept)
next
  case (one g)
  let ?g = "if sg_batch g = i then g\<lparr>sg_admitted := True\<rparr> else g"
  let ?s = "(update_saga i (\<lambda>h. h\<lparr>sg_admitted := True\<rparr>) s)
      \<lparr>wr_admitted := max (wr_admitted s) (pc_generation (sg_candidate g))\<rparr>"
  show ?thesis
  proof (cases "sg_committed g")
    case True
    then have p: "prune_admitted removes now ?s = (r, s')"
      using assms(2) one by (simp add: mark_admitted_def)
    have "sagas_kept ?s s'" by (rule sparesD [OF spares_prune_admitted p])
    then show ?thesis
      using one True by (intro fact [of s g _ ?g]) (auto simp: sagas_kept_def saga_grows_def saga_ordered_def)
  next
    case False
    then show ?thesis using assms(2) one by (simp add: mark_admitted_def kept)
  qed
qed

lemma reuse_complete_move:
  assumes "saga_inv s"
  shows "wr_sagas (reuse_complete s) = [] \<and> wr_sagas s = [] \<or> (\<exists>g g'. wr_sagas s = [g]
    \<and> wr_sagas (reuse_complete s) = [g'] \<and> saga_grows g g' \<and> (saga_ordered g \<longrightarrow> saga_ordered g')
    \<and> sg_signed g' = sg_signed g \<and> sg_admitted g' = sg_admitted g)"
    "wr_history (reuse_complete s) = wr_history s" "wr_pending (reuse_complete s) = wr_pending s"
proof -
  show "wr_history (reuse_complete s) = wr_history s" "wr_pending (reuse_complete s) = wr_pending s"
    by (simp_all add: reuse_complete_def update_saga_def split: option.split)
  show "wr_sagas (reuse_complete s) = [] \<and> wr_sagas s = [] \<or> (\<exists>g g'. wr_sagas s = [g]
    \<and> wr_sagas (reuse_complete s) = [g'] \<and> saga_grows g g' \<and> (saga_ordered g \<longrightarrow> saga_ordered g')
    \<and> sg_signed g' = sg_signed g \<and> sg_admitted g' = sg_admitted g)"
    using assms
  proof (cases rule: saga_inv_cases)
    case (one g)
    then show ?thesis
      by (auto simp: reuse_complete_def update_saga_def update_where_def saga_grows_def saga_ordered_def
          split: option.split)
  qed (simp add: reuse_complete_def)
qed

lemma open_saga_sagas:
  "open_saga c destinations s = Inr t \<Longrightarrow> wr_sagas t = wr_sagas s @ [new_saga c destinations] \<and> wr_history t = wr_history s"
  by (auto simp: open_saga_def Let_def insert_row_Some split: option.splits)

lemma new_saga_ordered: "saga_ordered (new_saga c destinations)" "sg_signed (new_saga c destinations) = None"
  by (simp_all add: new_saga_def saga_ordered_def)

lemma archive_saga_sagas:
  "wr_sagas s = [g] \<Longrightarrow> wr_sagas (archive_saga now g s) = []"
  "set (wr_history (archive_saga now g s)) \<subseteq> insert (g, now) (set (wr_history s))"
  by (auto simp: archive_saga_def delete_where_def insert_replace_def)

lemma claim_publication_move:
  assumes "saga_inv s" "claim_publication now destinations s = (r, s')"
  shows "saga_move es s s'"
proof -
  define t where "t = reuse_complete s"
  note t = reuse_complete_move [OF assms(1), folded t_def]
  have first': "saga_move es s t"
    using t by (auto intro: kept fact simp: sagas_kept_def)
  then have t_inv: "saga_inv t" using assms(1) by (rule saga_move_inv)
  show ?thesis
  proof (cases "wr_pending t")
    case None
    then have "s' = t"
      using assms(2) by (auto simp: claim_publication_def Let_def t_def [symmetric] split: option.splits)
    then show ?thesis using first' by simp
  next
    case (Some c)
    show ?thesis
      using t_inv
    proof (cases rule: saga_inv_cases)
      case none
      then have s: "wr_sagas s = []" using t by auto
      consider "s' = t" | u where "open_saga c destinations t = Inr u" "s' = u"
        using assms(2) none Some
        by (auto simp: claim_publication_def Let_def t_def [symmetric] split: if_splits sum.splits)
      then show ?thesis
      proof cases
        case 2
        then show ?thesis
          using s t none by (intro first) (auto simp: new_saga_ordered dest: open_saga_sagas)
      qed (use first' in simp)
    next
      case (one h)
      then obtain g where g: "wr_sagas s = [g]" "saga_grows g h" "saga_ordered g \<longrightarrow> saga_ordered h"
          "sg_signed h = sg_signed g" "sg_admitted h = sg_admitted g"
        using t by auto
      let ?u = "archive_saga now h t"
      consider "s' = t" | u where "open_saga c destinations ?u = Inr u" "s' = u" "sg_admitted h \<or> sg_signed h = None"
        using assms(2) one Some
        by (auto simp: claim_publication_def Let_def t_def [symmetric] split: if_splits sum.splits)
      then show ?thesis
      proof cases
        case (2 u)
        note o = open_saga_sagas [OF 2(1)] archive_saga_sagas(1) [OF one(1), of now] archive_saga_sagas(2) [of now h t]
        show ?thesis
          using g 2 o t by (intro turn [of s g s' "new_saga c destinations" h now])
            (auto simp: new_saga_ordered)
      qed (use first' in simp)
    qed
  qed
qed

lemma begin_refresh_True:
  assumes "begin_refresh now lead s = (Inr True, s')"
  obtains g sagas where "current_saga s = Some g" "sg_committed g" "sg_admitted g"
    "insert_row sg_batch \<lparr>sg_batch = next_batch s, sg_candidate = (sg_candidate g)\<lparr>pc_batch := next_batch s\<rparr>,
       sg_destinations = sg_destinations g, sg_complete = given (sg_complete g), sg_template = None,
       sg_signed = None, sg_acknowledged = None, sg_committed = False, sg_admitted = False\<rparr> (wr_sagas s)
     = Some sagas"
    "wr_sagas s' = delete_where (\<lambda>h. sg_batch h = sg_batch g) sagas"
    "wr_history s' = insert_ignore (\<lambda>x. sg_batch (fst x)) (g, now) (wr_history s)"
    "wr_sequence s' = wr_sequence s" "wr_clock s' = wr_clock s" "wr_pending s' = wr_pending s"
  using assms by (auto simp: begin_refresh_def Let_def announce_def split: option.splits if_splits)

lemma begin_refresh_move:
  assumes "saga_inv s" "begin_refresh now lead s = (r, s')"
  shows "saga_move es s s'"
proof (cases "r = Inr True")
  case True
  obtain g sagas where g: "current_saga s = Some g" "sg_admitted g"
    and inserted: "insert_row sg_batch \<lparr>sg_batch = next_batch s,
       sg_candidate = (sg_candidate g)\<lparr>pc_batch := next_batch s\<rparr>,
       sg_destinations = sg_destinations g, sg_complete = given (sg_complete g), sg_template = None,
       sg_signed = None, sg_acknowledged = None, sg_committed = False, sg_admitted = False\<rparr> (wr_sagas s)
     = Some sagas"
    and s': "wr_sagas s' = delete_where (\<lambda>h. sg_batch h = sg_batch g) sagas"
      "wr_history s' = insert_ignore (\<lambda>x. sg_batch (fst x)) (g, now) (wr_history s)"
    using assms(2) unfolding True by (rule begin_refresh_True)
  have "wr_sagas s = [g]" using assms(1) g(1) by (simp add: current_saga_Some)
  moreover have "set (wr_history s') \<subseteq> insert (g, now) (set (wr_history s))"
    by (auto simp: s' insert_ignore_def)
  ultimately show ?thesis
    using g(2) inserted s'(1) by (auto simp: insert_row_Some delete_where_def saga_ordered_def intro!: turn)
next
  case False
  have "s' = s"
    using assms(2) False
    by (auto simp: begin_refresh_def Let_def split: option.splits if_splits)
  then show ?thesis by (simp add: kept)
qed

subsection \<open>Every call is a step\<close>

inductive write_step :: "write_state \<Rightarrow> write_state \<Rightarrow> bool" where
  bind: "bind_identity removes identity s = (r, s') \<Longrightarrow> write_step s s'"
| restart: "write_step s (s\<lparr>wr_active := False, wr_leases := [], wr_admitted := 0, wr_healthy := True,
    wr_session := session, wr_changes := [], wr_store := None\<rparr>)"
| start: "start_run run index s = (r, s') \<Longrightarrow> write_step s s'"
| record_blob: "record_writer_blob run blob s = (r, s') \<Longrightarrow> write_step s s'"
| release_run: "release_run removes now run s = (r, s') \<Longrightarrow> write_step s s'"
| open_blobs: "open_blobs sha uuid now capacity disk s = (r, s') \<Longrightarrow> write_step s s'"
| lease: "blob_lease now h s = (l, s') \<Longrightarrow> write_step s s'"
| store: "on_store (f :: unit store_op) s = (u, s') \<Longrightarrow> write_step s s'"
| close: "close_repository s = (r, s') \<Longrightarrow> write_step s s'"
| narinfo: "write_step s (record_narinfo route n s)"
| stage_begin: "stage_begin limits token s = (r, s') \<Longrightarrow> write_step s s'"
| stage_body: "stage_body sha limits ceiling token route source s = (r, s') \<Longrightarrow> write_step s s'"
| stage_commit: "stage_commit limits token route digest n s = (r, s') \<Longrightarrow> write_step s s'"
| stage_nar: "stage_nar sha limits ceiling now tokens uuid route source b s = (r, s') \<Longrightarrow> write_step s s'"
| discard: "write_step s (discard route s)"
| overlay: "commit_overlay hashes s = (r, s') \<Longrightarrow> write_step s s'"
| routes: "commit_overlay_routes routes s = (r, s') \<Longrightarrow> write_step s s'"
| acquire: "write_step s (snd (acquire_generation g s))"
| release: "write_step s (snd (snd (release_generation removes now l s)))"
| dirty: "mark_dirty generation now base s = (r, s') \<Longrightarrow> write_step s s'"
| claim_batch: "claim_batch token s = (r, s') \<Longrightarrow> write_step s s'"
| batch_failed: "write_step s (mark_batch_failed i s)"
| pending: "record_pending removes now batch c blobs run s = (r, s') \<Longrightarrow> write_step s s'"
| claim: "claim_publication now destinations s = (r, s') \<Longrightarrow> write_step s s'"
| work: "write_step s (ensure_work i kind targets now s)"
| due: "write_step s (snd (claim_due now limit s))"
| claim_work: "write_step s (snd (claim_work i kind target now s))"
| restore: "write_step s (restore_claimed now s)"
| outcome: "record_outcome w u s = (r, s') \<Longrightarrow> write_step s s'"
| proven: "record_proof i server h s = (r, s') \<Longrightarrow> write_step s s'"
| complete: "record_complete i server s = (r, s') \<Longrightarrow> write_step s s'"
| sign: "record_signed env i t e s = (r, s') \<Longrightarrow> write_step s s'"
| acknowledge: "record_acknowledgement i relay s = (r, s') \<Longrightarrow> write_step s s'"
| commit: "commit_publication i s = (r, s') \<Longrightarrow> write_step s s'"
| admit: "mark_admitted removes now i s = (r, s') \<Longrightarrow> write_step s s'"
| refresh: "begin_refresh now lead s = (r, s') \<Longrightarrow> write_step s s'"

lemma write_step_move:
  assumes "write_step s s'" "saga_inv s"
  shows "saga_move UNIV s s'"
proof -
  have restart: "sagas_kept s (s\<lparr>wr_active := False, wr_leases := [], wr_admitted := 0, wr_healthy := True,
      wr_session := session, wr_changes := [], wr_store := None\<rparr>)" for s session
    by (simp add: sagas_kept_def)
  have "sagas_kept s s' \<or> saga_move UNIV s s'"
    using assms
    by (cases rule: write_step.cases)
      (blast intro: restart saga_frame record_complete_move record_signed_move record_acknowledgement_move
        commit_publication_move mark_admitted_move claim_publication_move begin_refresh_move
        dest: saga_spared [THEN sparesD])+
  then show ?thesis by (auto intro: kept)
qed

inductive write_reachable :: "write_state \<Rightarrow> bool" where
  new: "write_reachable (empty_repository\<lparr>wr_session := session\<rparr>)"
| more: "write_reachable s \<Longrightarrow> write_step s s' \<Longrightarrow> write_reachable s'"

lemma saga_inv_new: "saga_inv (empty_repository\<lparr>wr_session := session\<rparr>)"
  by (simp add: saga_inv_def empty_repository_def)

text \<open>
  C23: The order of a publication: whatever calls were made, in whatever order, with whatever
  batch numbers, and with restarts between them, at most one saga is active, and of every saga,
  active or in the history, what is recorded is in order: it is admitted only when committed,
  committed only when a relay acknowledged the event, acknowledged only when the event was
  signed, and signed only when a server was proven to have all blobs.
\<close>

theorem sagas_in_order:
  "write_reachable s \<Longrightarrow> length (wr_sagas s) \<le> 1
    \<and> (\<forall>g \<in> set (wr_sagas s) \<union> fst ` set (wr_history s). saga_ordered g)"
proof -
  assume "write_reachable s"
  then have "saga_inv s"
    by (induction rule: write_reachable.induct) (auto intro: saga_inv_new saga_move_inv write_step_move)
  then show ?thesis by (auto simp: saga_inv_def)
qed

text \<open>
  A signed event is neither replaced nor given up: as long as the publication of a signed
  event has not been admitted, every call leaves it the active saga, and everything recorded of
  it, the event first of all, stays as it was recorded.
\<close>

theorem signed_until_admitted:
  assumes "saga_inv s" "write_step s s'" "current_saga s = Some g" "sg_signed g = Some e" "\<not> sg_admitted g"
  shows "\<exists>g'. current_saga s' = Some g' \<and> saga_grows g g' \<and> sg_signed g' = Some e"
proof -
  have "wr_sagas s = [g]" using assms(1,3) by (simp add: current_saga_Some)
  then obtain g' where "wr_sagas s' = [g']" "saga_grows g g'"
    using saga_move_signed [OF write_step_move [OF assms(2,1)]] assms(4,5) by blast
  then show ?thesis using assms(4) by (auto simp: saga_grows_def extends_def)
qed

subsection \<open>The batch number of a refresh\<close>

lemma insert_rows_None:
  assumes "r \<in> set rs" "key r \<in> key ` set t"
  shows "insert_rows key rs t = None"
proof -
  have "False" if "insert_rows key rs t = Some t'" for t'
    using that assms by (induction rs arbitrary: t) (fastforce simp: insert_row_Some split: option.splits)+
  then show ?thesis by (cases "insert_rows key rs t") auto
qed

lemma next_batch_bound:
  assumes "current_saga s = Some g" "saga_inv s" "\<forall>x \<in> set (wr_history s). sg_batch (fst x) \<le> sg_batch g"
  shows "next_batch s = sg_batch g + 1"
proof -
  have "wr_sagas s = [g]" using assms by (simp add: current_saga_Some)
  then show ?thesis
    using assms(3) by (auto simp: next_batch_def intro!: Max_eqI)
qed

text \<open>What \<open>recordPending\<close> leaves in the tables that \<open>claimPublication\<close> reads.\<close>

definition blobs_kept :: "write_state \<Rightarrow> write_state \<Rightarrow> bool" where
  "blobs_kept s s' \<longleftrightarrow> wr_saga_blobs s' = wr_saga_blobs s \<and> wr_pending_blobs s' = wr_pending_blobs s
     \<and> wr_pending s' = wr_pending s"

lemma on_store_blobs: "blobs_kept s (snd (on_store f s))"
  by (auto simp: on_store_def blobs_kept_def split: option.split prod.split sum.split)

lemma release_superseded_blobs: "release_superseded removes now superseded i s = (r, s') \<Longrightarrow> blobs_kept s s'"
  using on_store_blobs [of s "release_owner now (batch_owner ''batch:'' (the superseded)) None"]
  by (auto simp: release_superseded_def blobs_kept_def sweep_content_def split: option.splits if_splits prod.splits sum.splits)

lemma add_pending_rows:
  "fold_err (add_pending i run) blobs s = Inr t \<Longrightarrow> wr_saga_blobs t = wr_saga_blobs s
    \<and> (\<forall>b \<in> set blobs. (i, cb_hash b) \<in> inventory_key ` set (wr_pending_blobs t))
    \<and> set (wr_pending_blobs s) \<subseteq> set (wr_pending_blobs t)"
proof (induction blobs arbitrary: s)
  case (Cons b blobs)
  obtain u where u: "add_pending i run b s = Inr u" "fold_err (add_pending i run) blobs u = Inr t"
    using Cons.prems by (auto split: sum.splits)
  have "wr_saga_blobs u = wr_saga_blobs s" "set (wr_pending_blobs s) \<subseteq> set (wr_pending_blobs u)"
    "(i, cb_hash b) \<in> inventory_key ` set (wr_pending_blobs u)"
    using u(1) by (auto simp: add_pending_def insert_row_Some inventory_key_def split: if_splits option.splits)
  then show ?case using Cons.IH [OF u(2)] by auto
qed simp

lemma record_pending_rows:
  assumes "record_pending removes now batch c blobs run s = (Inr (), s')"
  shows "wr_saga_blobs s' = wr_saga_blobs s" "wr_pending s' = Some (c\<lparr>pc_batch := fb_id batch,
      pc_generation := fb_generation batch\<rparr>)"
    "\<forall>b \<in> set blobs. (fb_id batch, cb_hash b) \<in> inventory_key ` set (wr_pending_blobs s')"
proof -
  obtain t u where t: "fold_err (add_pending (fb_id batch) (given run)) blobs (s\<lparr>wr_pending_blobs := []\<rparr>) = Inr t"
    and u: "own_pending (fb_id batch) run (pc_blobs c) t = Inr u"
    and r: "release_superseded removes now (map_option pc_batch (wr_pending s)) (fb_id batch)
      (u\<lparr>wr_pending := Some (c\<lparr>pc_batch := fb_id batch, pc_generation := fb_generation batch\<rparr>),
         wr_batches := update_where (\<lambda>b. pb_id b = fb_id batch \<and> pb_status b \<in> {B_building, B_failed})
           (\<lambda>b. b\<lparr>pb_status := B_pending\<rparr>) (wr_batches u)\<rparr>) = (Inr (), s')"
    using assms by (auto simp: record_pending_def Let_def ebind_Inr split: sum.splits)
  have "wr_saga_blobs u = wr_saga_blobs t \<and> wr_pending_blobs u = wr_pending_blobs t"
    using u by (auto simp: own_pending_def set_owners_def Let_def split: option.splits if_splits)
  with release_superseded_blobs [OF r] add_pending_rows [OF t]
  show "wr_saga_blobs s' = wr_saga_blobs s" "wr_pending s' = Some (c\<lparr>pc_batch := fb_id batch,
      pc_generation := fb_generation batch\<rparr>)"
    "\<forall>b \<in> set blobs. (fb_id batch, cb_hash b) \<in> inventory_key ` set (wr_pending_blobs s')"
    by (simp_all add: blobs_kept_def)
qed

lemma claim_publication_collides:
  assumes "wr_sagas s = [g]" "sg_signed g = None" "given (sg_complete g) \<noteq> None" "wr_pending s = Some c"
    "supersedes c g" "destinations \<noteq> []" "b \<in> set (wr_pending_blobs s)" "in_batch b = pc_batch c"
    "inventory_key b \<in> inventory_key ` set (wr_saga_blobs s)"
  shows "claim_publication now destinations s = (Inl WR_unique, s)"
proof -
  have "reuse_complete s = s" using assms(1,3) by (simp add: reuse_complete_def)
  moreover have "insert_rows inventory_key (filter (\<lambda>b. in_batch b = pc_batch c) (wr_pending_blobs s))
      (wr_saga_blobs s) = None"
    by (rule insert_rows_None [of b]) (use assms in auto)
  moreover have "current_saga s = Some g" using assms(1) by simp
  ultimately show ?thesis
    using assms(2,4,5,6)
    by (simp add: claim_publication_def Let_def open_saga_def archive_saga_def split: option.split)
qed

text \<open>
  C24: A refresh takes a number that the next batch will get too, when the publication that is
  refreshed came from the last batch (its number is the \<open>AUTOINCREMENT\<close> sequence, and none of
  the history is greater): \<open>beginPublicationRefresh\<close> gives its copy the number that the next call
  of \<open>claimBatch\<close> gives to the next batch. If then this batch of a newer generation is recorded
  with a blob that the published tree has too, and nothing else happened between these calls,
  \<open>claimPublication\<close> fails at the primary key of \<open>publication_saga_blobs\<close> and leaves the
  repository as it was.
\<close>

theorem refresh_number_collides:
  assumes inv: "saga_inv s" and g: "current_saga s = Some g"
    and numbers: "wr_sequence s = sg_batch g" "\<forall>x \<in> set (wr_history s). sg_batch (fst x) \<le> sg_batch g"
    and refresh: "begin_refresh now lead s = (Inr True, s1)"
    and claim: "claim_batch token s1 = (Inr (Some fb), s2)"
    and pending: "record_pending removes now' fb c blobs run s2 = (Inr (), s3)"
    and newer: "fb_generation fb > pc_generation (sg_candidate g)"
    and shared: "b \<in> set blobs" "(sg_batch g, cb_hash b) \<in> inventory_key ` set (wr_saga_blobs s)"
    and "destinations \<noteq> []"
  shows "claim_publication now'' destinations s3 = (Inl WR_unique, s3)"
proof -
  let ?j = "sg_batch g + 1"
  have one: "wr_sagas s = [g]" using inv g by (simp add: current_saga_Some)
  have j: "next_batch s = ?j" using next_batch_bound [OF g inv numbers(2)] .
  obtain g1 where g1: "wr_sagas s1 = [g1]" "sg_signed g1 = None" "sg_complete g1 = given (sg_complete g)"
      "pc_generation (sg_candidate g1) = pc_generation (sg_candidate g)"
    and s1: "wr_sequence s1 = wr_sequence s" "(?j, cb_hash b) \<in> inventory_key ` set (wr_saga_blobs s1)"
    and g2: "sg_committed g"
  proof -
    obtain blobs' where s1: "insert_rows inventory_key (map (\<lambda>b. b\<lparr>in_batch := ?j\<rparr>)
        (filter (\<lambda>b. in_batch b = sg_batch g) (wr_saga_blobs s))) (wr_saga_blobs s) = Some blobs'"
      "wr_saga_blobs s1 = delete_where (\<lambda>b. in_batch b = sg_batch g) blobs'"
      "wr_sequence s1 = wr_sequence s"
      "wr_sagas s1 = [\<lparr>sg_batch = ?j, sg_candidate = (sg_candidate g)\<lparr>pc_batch := ?j\<rparr>,
         sg_destinations = sg_destinations g, sg_complete = given (sg_complete g), sg_template = None,
         sg_signed = None, sg_acknowledged = None, sg_committed = False, sg_admitted = False\<rparr>]"
      "sg_committed g"
      using refresh g one j
      by (auto simp: begin_refresh_def Let_def announce_def insert_row_Some delete_where_def
          split: option.splits if_splits)
    obtain x where x: "x \<in> set (wr_saga_blobs s)" "in_batch x = sg_batch g" "in_hash x = cb_hash b"
      using shared(2) by (auto simp: inventory_key_def)
    have "x\<lparr>in_batch := ?j\<rparr> \<in> set (wr_saga_blobs s1)"
      using x insert_rows_append [OF s1(1)] by (auto simp: s1(2))
    then have "(?j, cb_hash b) \<in> inventory_key ` set (wr_saga_blobs s1)"
      using x by (force simp: inventory_key_def)
    then show ?thesis using s1 that by simp
  qed
  have s2: "fb_id fb = ?j" "wr_sagas s2 = wr_sagas s1" "wr_saga_blobs s2 = wr_saga_blobs s1"
    using claim numbers(1) s1(1) by (auto simp: claim_batch_def Let_def split: option.splits if_splits)
  note s3 = record_pending_rows [OF pending]
  have "sagas_kept s2 s3" by (rule sparesD [OF spares_record_pending pending])
  then have sagas: "wr_sagas s3 = [g1]" by (simp add: sagas_kept_def s2 g1)
  have "saga_ordered g" using inv one by (simp add: saga_inv_def)
  then have complete: "given (sg_complete g1) \<noteq> None" using g2 g1(3) by (auto simp: saga_ordered_def)
  obtain d where "d \<in> set (wr_pending_blobs s3)" "in_batch d = ?j" "in_hash d = cb_hash b"
    using s3(3) shared(1) s2(1) by (auto simp: inventory_key_def)
  then show ?thesis
    using claim_publication_collides [OF sagas g1(2) complete s3(2), of destinations d now''] s1(2) newer assms(11)
    by (simp add: supersedes_def s2 s3(1) inventory_key_def g1(4))
qed

subsection \<open>A publication that is signed, and one that is refreshed\<close>

definition sample_event :: raw_publication where
  "sample_event = \<lparr>rp_id = [], rp_pubkey = [], rp_created_at = V_Int 1, rp_kind = V_Int 17091,
     rp_tags = V_Arr [V_Arr [V_Str (js ''expiration''), V_Str (js ''5'')]], rp_content = [], rp_sig = []\<rparr>"

definition sample_pending :: "int \<Rightarrow> pending_candidate" where
  "sample_pending n = \<lparr>pc_batch = n, pc_generation = n, pc_root = js ''r'', pc_nhash = js ''n'',
     pc_blobs = 1, pc_bytes = 1\<rparr>"

definition sample_saga :: "bool \<Rightarrow> saga" where
  "sample_saga done = \<lparr>sg_batch = 1, sg_candidate = sample_pending 1, sg_destinations = [js ''s''],
     sg_complete = Some (js ''s''), sg_template = Some V_Null, sg_signed = Some sample_event,
     sg_acknowledged = Some (js ''r''), sg_committed = done, sg_admitted = done\<rparr>"

definition sample_publishing :: "bool \<Rightarrow> write_state" where
  "sample_publishing done = empty_repository\<lparr>wr_sagas := [sample_saga done],
     wr_saga_blobs := [\<lparr>in_batch = 1, in_hash = js ''h'', in_size = 1, in_path = js ''h''\<rparr>],
     wr_sequence := 1,
     wr_clock := Some \<lparr>ck_next = 3, ck_active = Some 2, ck_generation = Some 2, ck_opened = Some 0,
       ck_dirty = Some 0, ck_base = None\<rparr>\<rparr>"

lemma sample_inv: "saga_inv (sample_publishing done)"
  by (simp add: saga_inv_def saga_ordered_def sample_publishing_def sample_saga_def empty_repository_def
      sample_pending_def given_def js_simps)

lemma sample_current: "current_saga (sample_publishing done) = Some (sample_saga done)"
  by (simp add: sample_publishing_def)

theorem sagas_in_order_witness:
  "\<exists>s. write_reachable s \<and> length (wr_sagas s) = 1 \<and> (\<forall>g \<in> set (wr_sagas s) \<union> fst ` set (wr_history s). saga_ordered g)"
proof -
  let ?s0 = "empty_repository\<lparr>wr_session := []\<rparr>"
  let ?batch = "\<lparr>fb_id = 1, fb_token = 1, fb_generation = 1, fb_base = None, fb_count = 0\<rparr>"
  obtain s1 where s1: "record_pending (\<lambda>p. True) 0 ?batch (sample_pending 1) [] None ?s0 = (Inr (), s1)"
    "wr_pending s1 = Some (sample_pending 1)" "wr_sagas s1 = []" "wr_pending_blobs s1 = []"
    by (simp add: record_pending_def Let_def own_pending_def release_superseded_def empty_repository_def
        sample_pending_def)
  obtain s2 where s2: "claim_publication 0 [js ''s''] s1 = (Inr (Some (new_saga (sample_pending 1) [js ''s''])), s2)"
    "wr_sagas s2 = [new_saga (sample_pending 1) [js ''s'']]"
    using s1 by (simp add: claim_publication_def Let_def reuse_complete_def open_saga_def insert_row_def has_key_def)
  have "write_reachable s2"
    by (rule write_reachable.more [OF write_reachable.more [OF write_reachable.new]])
      (rule write_step.pending [OF s1(1)], rule write_step.claim [OF s2(1)])
  then show ?thesis using sagas_in_order [of s2] s2(2) by auto
qed

theorem signed_until_admitted_witness:
  "\<exists>s' g'. write_step (sample_publishing False) s' \<and> current_saga s' = Some g'
    \<and> sg_committed g' \<and> sg_signed g' = Some sample_event"
proof -
  obtain s' where s': "commit_publication 1 (sample_publishing False) = (Inr (), s')"
    "wr_sagas s' = [(sample_saga False)\<lparr>sg_committed := True\<rparr>]"
    by (simp add: commit_publication_def sample_current, simp add: sample_publishing_def sample_saga_def
        given_def js_simps)
  have "write_step (sample_publishing False) s'" by (rule write_step.commit [OF s'(1)])
  with signed_until_admitted [OF sample_inv this sample_current, of sample_event] s'(2)
  show ?thesis by (auto simp: sample_saga_def)
qed

lemma sample_expiration: "event_expiration sample_event = Some (js ''5'')"
  by (simp add: event_expiration_def sample_event_def given_def js_simps)

theorem refresh_number_collides_witness:
  "\<exists>s1 s2 s3 fb. begin_refresh 0 5 (sample_publishing True) = (Inr True, s1)
    \<and> claim_batch 2 s1 = (Inr (Some fb), s2)
    \<and> record_pending (\<lambda>p. True) 0 fb (sample_pending 2)
        [\<lparr>cb_hash = js ''h'', cb_size = 1, cb_path = js ''h''\<rparr>] None s2 = (Inr (), s3)
    \<and> claim_publication 0 [js ''s''] s3 = (Inl WR_unique, s3)"
proof -
  let ?s = "sample_publishing True"
  have rows: "wr_sagas ?s = [sample_saga True]" "wr_history ?s = []" "wr_proofs ?s = []" "wr_work ?s = []"
    "wr_saga_blobs ?s = [\<lparr>in_batch = 1, in_hash = js ''h'', in_size = 1, in_path = js ''h''\<rparr>]"
    "wr_store ?s = None" "wr_batches ?s = []" "wr_entries ?s = []" "wr_sequence ?s = 1" "wr_pending ?s = None"
    "wr_overlay ?s = []"
    "wr_clock ?s = Some \<lparr>ck_next = 3, ck_active = Some 2, ck_generation = Some 2, ck_opened = Some 0,
       ck_dirty = Some 0, ck_base = None\<rparr>"
    by (simp_all add: sample_publishing_def empty_repository_def)
  have saga: "sg_signed (sample_saga True) = Some sample_event" "sg_committed (sample_saga True)"
    "sg_admitted (sample_saga True)" "sg_batch (sample_saga True) = 1"
    "sg_candidate (sample_saga True) = sample_pending 1"
    by (simp_all add: sample_saga_def)
  have five: "dec_value (js ''5'') = 5" by (simp add: dec_value_def js_simps)
  obtain s1 where s1: "begin_refresh 0 5 ?s = (Inr True, s1)" "wr_clock s1 = wr_clock ?s"
    "wr_batches s1 = []" "wr_entries s1 = []" "wr_overlay s1 = []" "wr_pending s1 = None" "wr_sequence s1 = 1"
    "wr_store s1 = None"
    by (simp add: begin_refresh_def Let_def sample_current saga sample_expiration five rows insert_row_def has_key_def
        inventory_key_def next_batch_def announce_def)
  let ?fb = "\<lparr>fb_id = 2, fb_token = 2, fb_generation = 2, fb_base = None, fb_count = 0\<rparr>"
  obtain s2 where s2: "claim_batch 2 s1 = (Inr (Some ?fb), s2)" "wr_pending s2 = None" "wr_store s2 = None"
    by (simp add: claim_batch_def Let_def s1 rows insert_row_def has_key_def generation_rows_def entry_count_def)
  obtain s3 where s3: "record_pending (\<lambda>p. True) 0 ?fb (sample_pending 2)
        [\<lparr>cb_hash = js ''h'', cb_size = 1, cb_path = js ''h''\<rparr>] None s2 = (Inr (), s3)"
    by (simp add: record_pending_def Let_def add_pending_def own_pending_def release_superseded_def s2
        insert_row_def has_key_def)
  have "claim_publication 0 [js ''s''] s3 = (Inl WR_unique, s3)"
    by (rule refresh_number_collides [OF sample_inv sample_current _ _ s1(1) s2(1) s3,
          where b = "\<lparr>cb_hash = js ''h'', cb_size = 1, cb_path = js ''h''\<rparr>"])
      (simp_all add: rows saga sample_pending_def inventory_key_def)
  then show ?thesis using s1(1) s2(1) s3 by blast
qed

end
