(* ===== verification/Addresses.thy ===== *)
theory Addresses
  imports Prelude
begin

unbundle bit_operations_syntax

section \<open>IP addresses and the forbidden ranges (network/safe_fetcher.ts)\<close>

text \<open>
  The daemon fetches from servers that others name, so it must not be led to an address of its
  own network. \<^verbatim>\<open>src/network/safe_fetcher.ts\<close> reads the addresses that a resolver returns and
  compares them with prefixes bit by bit. The theory models the two parsers and the comparison
  and shows what they amount to: a test of numeric ranges.
\<close>

subsection \<open>Text of addresses\<close>

text \<open>\<open>/^(\d{1,3})\.(\d{1,3})\.(\d{1,3})\.(\d{1,3})$/\<close>, then each part up to 255 and without a leading zero.\<close>

definition ipv4_parts :: "jstr \<Rightarrow> nat list option" where
  "ipv4_parts address =
     (let ws = split_on 46 address in
      if length ws = 4 \<and> list_all (\<lambda>w. 1 \<le> length w \<and> length w \<le> 3 \<and> list_all is_digit w) ws
         \<and> list_all (\<lambda>w. dec_value w \<le> 255 \<and> (w = js ''0'' \<or> \<not> starts_with (js ''0'') w)) ws
      then Some (map dec_value ws) else None)"

text \<open>\<open>toLowerCase\<close>; no letter outside ASCII becomes a hexadecimal digit, a dot or a colon.\<close>

definition lower_ascii :: "jstr \<Rightarrow> jstr" where
  "lower_ascii s = map (\<lambda>u. if is_upper u then u + 32 else u) s"

text \<open>\<open>toString(16)\<close> of a natural number and \<open>Number.parseInt(s, 16)\<close> of hexadecimal digits.\<close>

fun hex_text :: "nat \<Rightarrow> jstr" where
  "hex_text n = (if n < 16 then [hex_digit n] else hex_text (n div 16) @ [hex_digit (n mod 16)])"

declare hex_text.simps [simp del]

definition hex_digit_value :: "nat \<Rightarrow> nat" where
  "hex_digit_value u = (if is_digit u then u - 48 else if is_upper u then u - 55 else u - 87)"

definition hex_value :: "jstr \<Rightarrow> nat" where
  "hex_value s = foldl (\<lambda>n u. 16 * n + hex_digit_value u) 0 s"

text \<open>\<open>split("::")\<close>, scanning from the left.\<close>

fun split_double :: "jstr \<Rightarrow> jstr list" where
  "split_double [] = [[]]"
| "split_double [u] = [[u]]"
| "split_double (u # v # s) =
     (if u = 58 \<and> v = 58 then [] # split_double s
      else case split_double (v # s) of [] \<Rightarrow> [[u]] | w # ws \<Rightarrow> (u # w) # ws)"

text \<open>The dotted tail of an address as two groups.\<close>

definition undotted :: "jstr \<Rightarrow> jstr option" where
  "undotted address =
     (if 46 \<in> set address then
        (case last_index_of 58 address of None \<Rightarrow> None
         | Some i \<Rightarrow>
            (case ipv4_parts (drop (Suc i) address) of None \<Rightarrow> None
             | Some d \<Rightarrow> Some (take i address @ [58] @ hex_text (push_bit 8 (d ! 0) OR d ! 1)
                 @ [58] @ hex_text (push_bit 8 (d ! 2) OR d ! 3))))
      else Some address)"

definition parse_half :: "jstr \<Rightarrow> nat list option" where
  "parse_half s =
     (if s = [] then Some []
      else
        (let ws = split_on 58 s in
         if list_ex (\<lambda>w. \<not> (1 \<le> length w \<and> length w \<le> 4 \<and> list_all is_lower_hex w)) ws then None
         else Some (map hex_value ws)))"

definition group_bytes :: "nat \<Rightarrow> bytes" where
  "group_bytes w = [of_nat (drop_bit 8 w), of_nat (w AND 0xff)]"

definition ipv6_groups :: "jstr \<Rightarrow> nat list option" where
  "ipv6_groups address =
     (let halves = split_double address in
      if length halves > 2 then None
      else
       (case (parse_half (halves ! 0), parse_half (if length halves = 2 then halves ! 1 else [])) of
          (Some l, Some r) \<Rightarrow>
            (let missing = 8 - int (length l) - int (length r) in
             if length halves = 1 \<and> missing \<noteq> 0 \<or> length halves = 2 \<and> missing < 1 then None
             else (let ws = l @ replicate (nat missing) 0 @ r in
                   if length ws \<noteq> 8 then None else Some ws))
        | _ \<Rightarrow> None))"

definition parse_ipv6 :: "jstr \<Rightarrow> bytes option" where
  "parse_ipv6 address =
     (if 37 \<in> set address \<or> 91 \<in> set address \<or> 93 \<in> set address then None
      else (case undotted (lower_ascii address) of None \<Rightarrow> None
        | Some s \<Rightarrow> map_option (\<lambda>ws. concat (map group_bytes ws)) (ipv6_groups s)))"

subsection \<open>Prefixes\<close>

definition bit_at :: "bytes \<Rightarrow> nat \<Rightarrow> bool" where
  "bit_at bs k \<longleftrightarrow> bit (bs ! (k div 8)) (7 - k mod 8)"

definition in_cidr :: "bytes \<Rightarrow> bytes \<Rightarrow> nat \<Rightarrow> bool" where
  "in_cidr bs prefix bits \<longleftrightarrow> list_all (\<lambda>k. bit_at bs k = bit_at prefix k) [0..<bits]"

definition v4_forbidden :: "(bytes \<times> nat) list" where
  "v4_forbidden =
     [([0, 0, 0, 0], 8), ([10, 0, 0, 0], 8), ([100, 64, 0, 0], 10), ([127, 0, 0, 0], 8),
      ([169, 254, 0, 0], 16), ([172, 16, 0, 0], 12), ([192, 0, 0, 0], 24), ([192, 0, 2, 0], 24),
      ([192, 168, 0, 0], 16), ([198, 18, 0, 0], 15), ([198, 51, 100, 0], 24), ([203, 0, 113, 0], 24),
      ([224, 0, 0, 0], 4), ([240, 0, 0, 0], 4)]"

definition v6_forbidden :: "(jstr \<times> nat) list" where
  "v6_forbidden =
     [(js ''::'', 128), (js ''::1'', 128), (js ''64:ff9b:1::'', 48), (js ''100::'', 64),
      (js ''2001::'', 23), (js ''2001:db8::'', 32), (js ''fc00::'', 7), (js ''fe80::'', 10),
      (js ''ff00::'', 8)]"

definition is_forbidden_address :: "jstr \<Rightarrow> bool" where
  "is_forbidden_address address =
     (case ipv4_parts address of
        Some v4 \<Rightarrow> list_ex (\<lambda>(prefix, bits). in_cidr (map of_nat v4) prefix bits) v4_forbidden
      | None \<Rightarrow>
         (case parse_ipv6 address of None \<Rightarrow> True
          | Some v6 \<Rightarrow>
              if list_all (\<lambda>b. b = 0) (take 10 v6) \<and> v6 ! 10 = 0xff \<and> v6 ! 11 = 0xff
              then list_ex (\<lambda>(prefix, bits). in_cidr (drop 12 v6) prefix bits) v4_forbidden
              else list_ex (\<lambda>(prefix, bits). in_cidr v6 (the (parse_ipv6 prefix)) bits) v6_forbidden))"

subsection \<open>A prefix is a range of numbers\<close>

definition addr_value :: "bytes \<Rightarrow> nat" where
  "addr_value bs = foldl (\<lambda>n b. 256 * n + unat b) 0 bs"

lemma addr_value_simps [simp]: "addr_value [] = 0" "addr_value (bs @ [b]) = 256 * addr_value bs + unat b"
  by (simp_all add: addr_value_def)

lemma bit_addr_value:
  "k < 8 * length bs \<Longrightarrow> bit (addr_value bs) (8 * length bs - 1 - k) = bit_at bs k"
proof (induction bs arbitrary: k rule: rev_induct)
  case (snoc b bs)
  have v: "addr_value (bs @ [b]) = push_bit 8 (addr_value bs) + unat b"
    by (simp add: push_bit_eq_mult)
  have "bit (push_bit 8 m + unat b) n = (if n < 8 then bit b n else bit m (n - 8))" for m n :: nat
  proof -
    have "push_bit 8 m + unat b = push_bit 8 m OR unat b"
    proof (rule disjunctive_add)
      fix i
      show "\<not> bit (push_bit 8 m) i \<or> \<not> bit (unat b) i"
        using bit_imp_le_length [of b i] by (auto simp: bit_push_bit_iff bit_unsigned_iff)
    qed
    then show ?thesis
      using bit_imp_le_length [of b n] by (auto simp: bit_simps)
  qed
  then have bits: "bit (addr_value (bs @ [b])) n = (if n < 8 then bit b n else bit (addr_value bs) (n - 8))" for n
    by (simp only: v)
  show ?case
  proof (cases "k < 8 * length bs")
    case True
    then have "k div 8 < length bs" by simp
    then have "bit_at (bs @ [b]) k = bit_at bs k" by (simp add: bit_at_def nth_append)
    moreover have "8 * length (bs @ [b]) - 1 - k - 8 = 8 * length bs - 1 - k"
      "\<not> 8 * length (bs @ [b]) - 1 - k < 8" using True by simp_all
    ultimately show ?thesis using snoc.IH [OF True] by (simp only: bits if_False)
  next
    case False
    then have "k div 8 = length bs" using snoc.prems by simp
    moreover from this have "k mod 8 = k - 8 * length bs"
      by (metis minus_mult_div_eq_mod)
    moreover from this have "8 * length (bs @ [b]) - 1 - k = 7 - k mod 8" "8 * length (bs @ [b]) - 1 - k < 8"
      using False snoc.prems by simp_all
    ultimately show ?thesis by (simp only: bits if_True bit_at_def nth_append_length)
  qed
qed simp

lemma addr_value_bound: "addr_value bs < 2 ^ (8 * length bs)"
proof (induction bs rule: rev_induct)
  case (snoc b bs)
  then have "addr_value bs + 1 \<le> 2 ^ (8 * length bs)" by simp
  then have "256 * (addr_value bs + 1) \<le> 256 * 2 ^ (8 * length bs)" by (rule mult_le_mono2)
  then show ?case using unat_byte_less [of b] by (simp add: power_add del: unat_byte_less)
qed simp

lemma high_bits_eq:
  fixes v w :: nat
  assumes "v < 2 ^ n" "w < 2 ^ n" "m \<le> n"
  shows "v div 2 ^ (n - m) = w div 2 ^ (n - m) \<longleftrightarrow> (\<forall>k < m. bit v (n - 1 - k) = bit w (n - 1 - k))"
proof
  assume eq: "v div 2 ^ (n - m) = w div 2 ^ (n - m)"
  show "\<forall>k < m. bit v (n - 1 - k) = bit w (n - 1 - k)"
  proof (intro allI impI)
    fix k assume "k < m"
    then have "n - 1 - k = (m - 1 - k) + (n - m)" using assms(3) by simp
    moreover have "bit (drop_bit (n - m) v) (m - 1 - k) = bit (drop_bit (n - m) w) (m - 1 - k)"
      using eq by (simp add: drop_bit_eq_div)
    ultimately show "bit v (n - 1 - k) = bit w (n - 1 - k)"
      by (simp add: bit_drop_bit_eq add.commute)
  qed
next
  assume bits: "\<forall>k < m. bit v (n - 1 - k) = bit w (n - 1 - k)"
  have "drop_bit (n - m) v = drop_bit (n - m) w"
  proof (rule bit_eqI)
    fix i
    show "bit (drop_bit (n - m) v) i = bit (drop_bit (n - m) w) i"
    proof (cases "i < m")
      case True
      then have "n - 1 - (m - 1 - i) = n - m + i" "m - 1 - i < m" using assms(3) by simp_all
      then show ?thesis using bits by (metis bit_drop_bit_eq o_apply)
    next
      case False
      then have "n \<le> n - m + i" using assms(3) by simp
      then have "2 ^ n \<le> (2 :: nat) ^ (n - m + i)" by simp
      then have "v < 2 ^ (n - m + i)" "w < 2 ^ (n - m + i)" using assms(1,2) by linarith+
      then show ?thesis by (simp add: bit_drop_bit_eq bit_iff_odd)
    qed
  qed
  then show "v div 2 ^ (n - m) = w div 2 ^ (n - m)" by (simp add: drop_bit_eq_div)
qed

lemma in_cidr_iff:
  assumes "length bs = n" "length p = n" "bits \<le> 8 * n"
  shows "in_cidr bs p bits \<longleftrightarrow> addr_value bs div 2 ^ (8 * n - bits) = addr_value p div 2 ^ (8 * n - bits)"
proof -
  have "bit (addr_value bs) (8 * n - 1 - k) = bit_at bs k" "bit (addr_value p) (8 * n - 1 - k) = bit_at p k"
    if "k < bits" for k using bit_addr_value [of k bs] bit_addr_value [of k p] that assms by simp_all
  then show ?thesis
    using high_bits_eq [of "addr_value bs" "8 * n" "addr_value p" bits] addr_value_bound [of bs] addr_value_bound [of p] assms
    by (simp add: in_cidr_def list_all_iff Ball_def atLeast0LessThan)
qed

lemma div_range: "v div 2 ^ m = (q :: nat) \<longleftrightarrow> q * 2 ^ m \<le> v \<and> v < (q + 1) * 2 ^ m"
proof
  assume "v div 2 ^ m = q"
  then have "v = q * 2 ^ m + v mod 2 ^ m" using div_mult_mod_eq [of v "2 ^ m"] by simp
  moreover have "v mod 2 ^ m < 2 ^ m" by simp
  ultimately show "q * 2 ^ m \<le> v \<and> v < (q + 1) * 2 ^ m" by (simp only: distrib_right mult_1_left) linarith
next
  assume "q * 2 ^ m \<le> v \<and> v < (q + 1) * 2 ^ m"
  then show "v div 2 ^ m = q" by (intro div_nat_eqI) (simp_all add: mult.commute)
qed

text \<open>The forbidden addresses as ranges of numbers.\<close>

definition in_ranges :: "(nat \<times> nat) list \<Rightarrow> nat \<Rightarrow> bool" where
  "in_ranges rs v \<longleftrightarrow> (\<exists>(lo, hi) \<in> set rs. lo \<le> v \<and> v \<le> hi)"

definition v4_ranges :: "(nat \<times> nat) list" where
  "v4_ranges =
     [(0x00000000, 0x00FFFFFF), (0x0A000000, 0x0AFFFFFF), (0x64400000, 0x647FFFFF),
      (0x7F000000, 0x7FFFFFFF), (0xA9FE0000, 0xA9FEFFFF), (0xAC100000, 0xAC1FFFFF),
      (0xC0000000, 0xC00000FF), (0xC0000200, 0xC00002FF), (0xC0A80000, 0xC0A8FFFF),
      (0xC6120000, 0xC613FFFF), (0xC6336400, 0xC63364FF), (0xCB007100, 0xCB0071FF),
      (0xE0000000, 0xEFFFFFFF), (0xF0000000, 0xFFFFFFFF)]"

definition v6_ranges :: "(nat \<times> nat) list" where
  "v6_ranges =
     [(0, 0), (1, 1),
      (0x0064FF9B000100000000000000000000, 0x0064FF9B0001FFFFFFFFFFFFFFFFFFFF),
      (0x01000000000000000000000000000000, 0x0100000000000000FFFFFFFFFFFFFFFF),
      (0x20010000000000000000000000000000, 0x200101FFFFFFFFFFFFFFFFFFFFFFFFFF),
      (0x20010DB8000000000000000000000000, 0x20010DB8FFFFFFFFFFFFFFFFFFFFFFFF),
      (0xFC000000000000000000000000000000, 0xFDFFFFFFFFFFFFFFFFFFFFFFFFFFFFFF),
      (0xFE800000000000000000000000000000, 0xFEBFFFFFFFFFFFFFFFFFFFFFFFFFFFFF),
      (0xFF000000000000000000000000000000, 0xFFFFFFFFFFFFFFFFFFFFFFFFFFFFFFFF)]"

lemma prefix_range:
  assumes "length bs = n" "length p = n" "bits \<le> 8 * n"
    "addr_value p div 2 ^ (8 * n - bits) * 2 ^ (8 * n - bits) = lo" "lo + 2 ^ (8 * n - bits) = hi + 1"
  shows "in_cidr bs p bits \<longleftrightarrow> lo \<le> addr_value bs \<and> addr_value bs \<le> hi"
proof -
  let ?q = "addr_value p div 2 ^ (8 * n - bits)"
  have "?q * 2 ^ (8 * n - bits) = lo" "(?q + 1) * 2 ^ (8 * n - bits) = hi + 1"
    using assms(4,5) by (simp_all add: algebra_simps)
  then show ?thesis by (simp only: in_cidr_iff [OF assms(1-3)] div_range) auto
qed

definition ranges_of :: "nat \<Rightarrow> (bytes \<times> nat) list \<Rightarrow> (nat \<times> nat) list \<Rightarrow> bool" where
  "ranges_of n cidrs ranges \<longleftrightarrow> list_all2 (\<lambda>(p, bits) (lo, hi). length p = n \<and> bits \<le> 8 * n
     \<and> addr_value p div 2 ^ (8 * n - bits) * 2 ^ (8 * n - bits) = lo \<and> lo + 2 ^ (8 * n - bits) = hi + 1)
     cidrs ranges"

lemma ranges_of_iff:
  assumes "ranges_of n cidrs ranges" "length bs = n"
  shows "list_ex (\<lambda>(prefix, bits). in_cidr bs prefix bits) cidrs \<longleftrightarrow> in_ranges ranges (addr_value bs)"
  using assms(1) unfolding ranges_of_def
proof (induction rule: list_all2_induct)
  case (Cons c cs r rs)
  obtain p bits lo hi where c: "c = (p, bits)" "r = (lo, hi)" by (cases c, cases r)
  have "in_cidr bs p bits \<longleftrightarrow> lo \<le> addr_value bs \<and> addr_value bs \<le> hi"
    by (rule prefix_range [OF assms(2)]) (use Cons.hyps c in auto)
  then show ?case using Cons.IH by (auto simp: c in_ranges_def)
qed (simp add: in_ranges_def)

lemma v4_ranges_of: "ranges_of 4 v4_forbidden v4_ranges"
  by (simp add: ranges_of_def v4_forbidden_def v4_ranges_def addr_value_def)

text \<open>The texts of the IPv6 prefixes.\<close>

definition v6_cidrs :: "(bytes \<times> nat) list" where
  "v6_cidrs =
     [([0, 0, 0, 0, 0, 0, 0, 0, 0, 0, 0, 0, 0, 0, 0, 0], 128),
      ([0, 0, 0, 0, 0, 0, 0, 0, 0, 0, 0, 0, 0, 0, 0, 1], 128),
      ([0, 0x64, 0xff, 0x9b, 0, 1, 0, 0, 0, 0, 0, 0, 0, 0, 0, 0], 48),
      ([1, 0, 0, 0, 0, 0, 0, 0, 0, 0, 0, 0, 0, 0, 0, 0], 64),
      ([0x20, 1, 0, 0, 0, 0, 0, 0, 0, 0, 0, 0, 0, 0, 0, 0], 23),
      ([0x20, 1, 0xd, 0xb8, 0, 0, 0, 0, 0, 0, 0, 0, 0, 0, 0, 0], 32),
      ([0xfc, 0, 0, 0, 0, 0, 0, 0, 0, 0, 0, 0, 0, 0, 0, 0], 7),
      ([0xfe, 0x80, 0, 0, 0, 0, 0, 0, 0, 0, 0, 0, 0, 0, 0, 0], 10),
      ([0xff, 0, 0, 0, 0, 0, 0, 0, 0, 0, 0, 0, 0, 0, 0, 0], 8)]"

lemmas parse_eval = parse_ipv6_def undotted_def lower_ascii_def ipv6_groups_def parse_half_def group_bytes_def
  hex_value_def hex_digit_value_def char_classes js_simps replicate_numeral

lemma v6_parsed: "map (\<lambda>(p, bits). (the (parse_ipv6 p), bits)) v6_forbidden = v6_cidrs"
  unfolding v6_forbidden_def v6_cidrs_def list.map prod.case by (simp add: parse_eval)

lemma v6_ranges_of: "ranges_of 16 v6_cidrs v6_ranges"
  by (simp add: ranges_of_def v6_cidrs_def v6_ranges_def addr_value_def)

lemma ipv6_groups_length: "ipv6_groups s = Some ws \<Longrightarrow> length ws = 8"
  by (auto simp: ipv6_groups_def Let_def split: if_splits option.splits)

lemma length_group_bytes: "length (concat (map group_bytes ws)) = 2 * length ws"
  by (induction ws) (simp_all add: group_bytes_def)

lemma parse_ipv6_length: "parse_ipv6 s = Some bs \<Longrightarrow> length bs = 16"
  by (auto simp: parse_ipv6_def length_group_bytes dest!: ipv6_groups_length
      split: if_splits option.splits)

lemma addr_value_append: "addr_value (as @ bs) = 256 ^ length bs * addr_value as + addr_value bs"
proof (induction bs rule: rev_induct)
  case (snoc b bs)
  have "addr_value (as @ bs @ [b]) = 256 * addr_value (as @ bs) + unat b"
    using addr_value_simps(2) [of "as @ bs" b] by simp
  then show ?case by (simp add: snoc.IH algebra_simps)
qed simp

lemma addr_value_inject: "length as = length bs \<Longrightarrow> addr_value as = addr_value bs \<longleftrightarrow> as = bs"
proof (induction as arbitrary: bs rule: rev_induct)
  case (snoc a as)
  then obtain cs c where bs: "bs = cs @ [c]" "length cs = length as" by (cases bs rule: rev_cases) auto
  have step: "x = y \<and> m = n" if "256 * x + m = 256 * y + n" "m < 256" "n < 256" for x y m n :: nat
  proof -
    have "(256 * x + m) div 256 = x" "(256 * y + n) div 256 = y" using that by simp_all
    then show ?thesis using that(1) by simp
  qed
  have "256 * addr_value as + unat a = 256 * addr_value cs + unat c \<longleftrightarrow> addr_value as = addr_value cs \<and> unat a = unat c"
    using step [of "addr_value as" "unat a" "addr_value cs" "unat c"] by auto
  then show ?case using snoc.IH [of cs] bs by (auto simp: word_unat_eq_iff)
qed simp

text \<open>An IPv4 address in an IPv6 address: the first 96 bits have the value \<open>0xFFFF\<close>.\<close>

lemma mapped_iff:
  assumes "length v6 = 16"
  shows "list_all (\<lambda>b. b = 0) (take 10 v6) \<and> v6 ! 10 = 0xff \<and> v6 ! 11 = 0xff \<longleftrightarrow> addr_value v6 div 2 ^ 32 = 0xFFFF"
    "addr_value (drop 12 v6) = addr_value v6 mod 2 ^ 32"
proof -
  have split: "v6 = take 12 v6 @ drop 12 v6" "length (drop 12 v6) = 4" using assms by simp_all
  have "addr_value v6 = 256 ^ length (drop 12 v6) * addr_value (take 12 v6) + addr_value (drop 12 v6)"
    using addr_value_append [of "take 12 v6" "drop 12 v6"] by simp
  then have v: "addr_value v6 = 2 ^ 32 * addr_value (take 12 v6) + addr_value (drop 12 v6)" by (simp add: assms)
  have less: "addr_value (drop 12 v6) < 2 ^ 32" using addr_value_bound [of "drop 12 v6"] assms by simp
  show "addr_value (drop 12 v6) = addr_value v6 mod 2 ^ 32" unfolding v using less by simp
  have high: "addr_value v6 div 2 ^ 32 = addr_value (take 12 v6)" unfolding v using less by simp
  have prefix: "addr_value (take 12 v6) = 0xFFFF \<longleftrightarrow> take 12 v6 = replicate 10 0 @ [0xff, 0xff]"
    using addr_value_inject [of "take 12 v6" "replicate 10 0 @ [0xff, 0xff]"] assms
    by (simp add: addr_value_def replicate_numeral)
  have "take 12 v6 = take 10 v6 @ [v6 ! 10, v6 ! 11]"
    using take_Suc_conv_app_nth [of 10 v6] take_Suc_conv_app_nth [of 11 v6] assms by simp
  moreover have "list_all (\<lambda>b. b = 0) (take 10 v6) \<longleftrightarrow> take 10 v6 = replicate 10 0"
    using assms by (auto simp: list_all_iff replicate_eqI)
  ultimately show "list_all (\<lambda>b. b = 0) (take 10 v6) \<and> v6 ! 10 = 0xff \<and> v6 ! 11 = 0xff
      \<longleftrightarrow> addr_value v6 div 2 ^ 32 = 0xFFFF"
    unfolding high prefix by auto
qed

text \<open>
  C25: What is forbidden, as ranges of numbers: the bit-by-bit comparison with the prefixes
  forbids a text exactly when it is no address, or an IPv4 address in one of the ranges
  \<open>v4_ranges\<close>, or an IPv6 address that maps such an IPv4 address or lies in one of the
  ranges \<open>v6_ranges\<close>.
\<close>

theorem forbidden_ranges:
  "is_forbidden_address s \<longleftrightarrow>
    (case ipv4_parts s of
       Some ps \<Rightarrow> in_ranges v4_ranges (addr_value (map of_nat ps))
     | None \<Rightarrow>
        (case parse_ipv6 s of None \<Rightarrow> True
         | Some bs \<Rightarrow>
             if addr_value bs div 2 ^ 32 = 0xFFFF then in_ranges v4_ranges (addr_value bs mod 2 ^ 32)
             else in_ranges v6_ranges (addr_value bs)))"
proof (cases "ipv4_parts s")
  case (Some ps)
  then have "length (map of_nat ps :: bytes) = 4"
    by (auto simp: ipv4_parts_def Let_def split: if_splits)
  then show ?thesis
    using ranges_of_iff [OF v4_ranges_of] Some by (simp add: is_forbidden_address_def)
next
  case None
  show ?thesis
  proof (cases "parse_ipv6 s")
    case (Some bs)
    have n: "length bs = 16" by (rule parse_ipv6_length [OF Some])
    have v6: "list_ex (\<lambda>(prefix, bits). in_cidr bs (the (parse_ipv6 prefix)) bits) v6_forbidden
        \<longleftrightarrow> in_ranges v6_ranges (addr_value bs)"
      using ranges_of_iff [OF v6_ranges_of n] unfolding v6_parsed [symmetric]
      by (simp add: list_ex_iff split_def)
    have v4: "list_ex (\<lambda>(prefix, bits). in_cidr (drop 12 bs) prefix bits) v4_forbidden
        \<longleftrightarrow> in_ranges v4_ranges (addr_value bs mod 2 ^ 32)"
      using ranges_of_iff [OF v4_ranges_of, of "drop 12 bs"] n mapped_iff(2) [OF n] by simp
    show ?thesis
      by (simp only: is_forbidden_address_def None Some option.case v4 v6 mapped_iff(1) [OF n])
  qed (simp add: is_forbidden_address_def None)
qed

end
