(* ===== verification/Safe_Fetcher.thy ===== *)
theory Safe_Fetcher
  imports Addresses Tables
begin

section \<open>Fetching from servers that others name (network/safe_fetcher.ts)\<close>

text \<open>
  \<^verbatim>\<open>src/network/safe_fetcher.ts\<close> approves a target before it connects, connects to the very
  address it approved, and reads the HTTP/1.1 response itself. The parser of URLs and the
  resolver are parameters of the model; a connection is the sequence of what its reads find.
\<close>

subsection \<open>URLs and headers\<close>

text \<open>The components of a URL as the standard has them; \<open>query\<close> and \<open>fragment\<close> may be absent.\<close>

record url =
  ur_protocol :: jstr
  ur_username :: jstr
  ur_password :: jstr
  ur_hostname :: jstr
  ur_port :: jstr
  ur_path :: jstr
  ur_query :: "jstr option"
  ur_fragment :: "jstr option"

definition is_http :: "url \<Rightarrow> bool" where
  "is_http u \<longleftrightarrow> ur_protocol u = js ''http:'' \<or> ur_protocol u = js ''https:''"

definition url_host :: "url \<Rightarrow> jstr" where
  "url_host u = ur_hostname u @ (if ur_port u = [] then [] else js '':'' @ ur_port u)"

definition url_origin :: "url \<Rightarrow> jstr" where
  "url_origin u = (if is_http u then ur_protocol u @ js ''//'' @ url_host u else js ''null'')"

definition url_search :: "url \<Rightarrow> jstr" where
  "url_search u = (case ur_query u of None \<Rightarrow> [] | Some q \<Rightarrow> if q = [] then [] else js ''?'' @ q)"

text \<open>
  A \<open>Headers\<close> object is the list of what was appended, names in lower case. \<open>append\<close> throws
  on a name that is no token and on a value that is no byte string or holds NUL, CR or LF.
\<close>

type_synonym headers = "(jstr \<times> jstr) list"

definition token_char :: "nat \<Rightarrow> bool" where
  "token_char u \<longleftrightarrow> is_digit u \<or> is_lower u \<or> is_upper u
     \<or> u \<in> {33, 35, 36, 37, 38, 39, 42, 43, 45, 46, 94, 95, 96, 124, 126}"

definition is_token :: "jstr \<Rightarrow> bool" where
  "is_token s \<longleftrightarrow> s \<noteq> [] \<and> list_all token_char s"

definition header_value :: "jstr \<Rightarrow> bool" where
  "header_value s \<longleftrightarrow> list_all (\<lambda>u. u < 256 \<and> u \<noteq> 0 \<and> u \<noteq> 10 \<and> u \<noteq> 13) s"

definition header_append :: "jstr \<Rightarrow> jstr \<Rightarrow> headers \<Rightarrow> headers option" where
  "header_append n v hs =
     (if is_token n \<and> header_value v then Some (hs @ [(lower_ascii n, v)]) else None)"

definition header_get :: "jstr \<Rightarrow> headers \<Rightarrow> jstr option" where
  "header_get n hs =
     (case filter (\<lambda>h. fst h = n) hs of [] \<Rightarrow> None | xs \<Rightarrow> Some (join_with (js '', '') (map snd xs)))"

text \<open>The entries in the order of their names, repeated names joined.\<close>

definition header_entries :: "headers \<Rightarrow> (jstr \<times> jstr) list" where
  "header_entries hs = map (\<lambda>n. (n, the (header_get n hs))) (sort (uniq (map fst hs)))"

subsection \<open>Approving a target\<close>

datatype source_trust = T_publisher | T_configured

datatype net_error = NF_protocol | NF_userinfo | NF_origin | NF_resolver | NF_no_address
  | NF_forbidden | NF_connect | NF_eof_headers | NF_deadline | NF_headers_size | NF_status
  | NF_header | NF_framing_both | NF_length_twice | NF_coding | NF_length_form | NF_length_large
  | NF_eof | NF_idle | NF_line | NF_chunk_size | NF_trailers | NF_trailer | NF_trailer_field
  | NF_delimiter | NF_no_location | NF_upload_redirect | NF_url | NF_redirects | NF_limits

record approved_target =
  at_url :: url
  at_hostname :: jstr
  at_address :: jstr
  at_port :: nat

text \<open>\<open>defaultResolver\<close>; \<open>dns\<close> is what the two lookups give, none for a failed one.\<close>

definition default_resolver :: "(jstr \<Rightarrow> jstr list) \<Rightarrow> jstr \<Rightarrow> jstr list" where
  "default_resolver dns hostname =
     (if ipv4_parts hostname \<noteq> None \<or> 58 \<in> set hostname then [hostname] else dns hostname)"

definition default_port :: "url \<Rightarrow> nat" where
  "default_port u = (if ur_protocol u = js ''https:'' then 443 else 80)"

definition approve ::
  "(jstr \<Rightarrow> net_error + jstr list) \<Rightarrow> jstr list \<Rightarrow> url \<Rightarrow> source_trust \<Rightarrow> net_error + approved_target" where
  "approve resolver configured u trust =
     (if \<not> is_http u then Inl NF_protocol
      else if ur_username u \<noteq> [] \<or> ur_password u \<noteq> [] then Inl NF_userinfo
      else
       (let local = trust = T_configured \<and> url_origin u \<in> set configured in
        if trust = T_configured \<and> \<not> local then Inl NF_origin
        else (case resolver (ur_hostname u) of Inl e \<Rightarrow> Inl e
          | Inr found \<Rightarrow>
             (case uniq found of [] \<Rightarrow> Inl NF_no_address
              | a # as \<Rightarrow>
                 if \<not> local \<and> list_ex is_forbidden_address (a # as) then Inl NF_forbidden
                 else Inr \<lparr>at_url = u, at_hostname = ur_hostname u, at_address = a,
                   at_port = (if ur_port u = [] then default_port u else dec_value (ur_port u))\<rparr>))))"

subsection \<open>Text of a response\<close>

text \<open>
  \<open>TextDecoder\<close> without \<open>fatal\<close>: an invalid sequence becomes U+FFFD, and the byte that broke
  it is read again. The state is how many bytes are missing, the value so far, and the bounds
  of the next byte.
\<close>

definition utf8_lead :: "nat \<Rightarrow> nat list \<times> nat \<times> nat \<times> nat \<times> nat" where
  "utf8_lead b =
     (if b < 0x80 then ([b], 0, 0, 0x80, 0xBF)
      else if 0xC2 \<le> b \<and> b \<le> 0xDF then ([], 1, b - 0xC0, 0x80, 0xBF)
      else if 0xE0 \<le> b \<and> b \<le> 0xEF
        then ([], 2, b - 0xE0, if b = 0xE0 then 0xA0 else 0x80, if b = 0xED then 0x9F else 0xBF)
      else if 0xF0 \<le> b \<and> b \<le> 0xF4
        then ([], 3, b - 0xF0, if b = 0xF0 then 0x90 else 0x80, if b = 0xF4 then 0x8F else 0xBF)
      else ([0xFFFD], 0, 0, 0x80, 0xBF))"

fun lossy_scalars :: "nat \<Rightarrow> nat \<Rightarrow> nat \<Rightarrow> nat \<Rightarrow> nat list \<Rightarrow> nat list" where
  "lossy_scalars need cp lo hi [] = (if need > 0 then [0xFFFD] else [])"
| "lossy_scalars need cp lo hi (b # bs) =
     (if need = 0 \<or> b < lo \<or> hi < b
      then (case utf8_lead b of (done, need', cp', lo', hi') \<Rightarrow>
              (if need > 0 then [0xFFFD] else []) @ done @ lossy_scalars need' cp' lo' hi' bs)
      else if need = 1 then (cp * 64 + (b - 0x80)) # lossy_scalars 0 0 0x80 0xBF bs
      else lossy_scalars (need - 1) (cp * 64 + (b - 0x80)) 0x80 0xBF bs)"

definition lossy_decode :: "bytes \<Rightarrow> jstr" where
  "lossy_decode bs =
     (let cs = lossy_scalars 0 0 0x80 0xBF (map unat bs) in
      concat (map utf16 (if cs \<noteq> [] \<and> hd cs = 0xFEFF then tl cs else cs)))"

text \<open>\<open>split("\r\n")\<close>.\<close>

fun split_crlf :: "jstr \<Rightarrow> jstr list" where
  "split_crlf [] = [[]]"
| "split_crlf [u] = [[u]]"
| "split_crlf (u # v # s) =
     (if u = 13 \<and> v = 10 then [] # split_crlf s
      else case split_crlf (v # s) of [] \<Rightarrow> [[u]] | w # ws \<Rightarrow> (u # w) # ws)"

subsection \<open>A connection\<close>

text \<open>
  What the reads of a connection find: bytes, or nothing until a deadline passes; at the end
  of the list the peer has closed. A read takes at most the length of its buffer.
\<close>

datatype conn_event = CE_data bytes | CE_stall

datatype conn_result = CR_data bytes | CR_stall | CR_end

fun conn_read :: "nat \<Rightarrow> conn_event list \<Rightarrow> conn_result \<times> conn_event list" where
  "conn_read n [] = (CR_end, [])"
| "conn_read n (CE_stall # es) = (CR_stall, es)"
| "conn_read n (CE_data bs # es) =
     (CR_data (take n bs), if length bs > n then CE_data (drop n bs) # es else es)"

definition conn_size :: "conn_event list \<Rightarrow> nat" where
  "conn_size es = sum_list (map (\<lambda>e. case e of CE_data bs \<Rightarrow> 2 * length bs + 1 | CE_stall \<Rightarrow> 1) es)"

lemma conn_size_simps [simp]: "conn_size [] = 0" "conn_size (CE_data bs # es) = 2 * length bs + 1 + conn_size es"
  "conn_size (CE_stall # es) = 1 + conn_size es"
  by (simp_all add: conn_size_def)

lemma conn_read_size: "conn_read n es = (CR_data bs, es') \<Longrightarrow> n > 0 \<Longrightarrow> length bs + conn_size es' < conn_size es"
  by (induction n es rule: conn_read.induct) (auto split: if_splits)

subsection \<open>The headers of a response\<close>

text \<open>The blank line, searched where the new bytes may have completed it.\<close>

definition blank_at :: "bytes \<Rightarrow> nat \<Rightarrow> bool" where
  "blank_at bs i \<longleftrightarrow> i + 3 < length bs \<and> bs ! i = 13 \<and> bs ! (i + 1) = 10 \<and> bs ! (i + 2) = 13 \<and> bs ! (i + 3) = 10"

definition find_blank :: "nat \<Rightarrow> bytes \<Rightarrow> nat option" where
  "find_blank new bs = find (blank_at bs) [length bs - new - 3 ..< length bs - 3]"

function read_headers ::
  "bytes \<Rightarrow> conn_event list \<Rightarrow> (net_error + bytes \<times> bytes) \<times> conn_event list" where
  "read_headers acc es =
     (if length acc > 65536 then (Inl NF_headers_size, es)
      else (case conn_read 4096 es of
          (CR_end, es') \<Rightarrow> (Inl NF_eof_headers, es')
        | (CR_stall, es') \<Rightarrow> (Inl NF_deadline, es')
        | (CR_data bs, es') \<Rightarrow>
           (case find_blank (length bs) (acc @ bs) of
              Some i \<Rightarrow> (Inr (take i (acc @ bs), drop (i + 4) (acc @ bs)), es')
            | None \<Rightarrow> read_headers (acc @ bs) es')))"
  by pat_completeness auto
termination
proof (relation "measure (\<lambda>(acc, es). conn_size es)")
  fix acc bs :: bytes and es es' :: "conn_event list" and r x
  assume "(r, es') = conn_read 4096 es" "r = CR_data bs"
  then have "conn_read 4096 es = (CR_data bs, es')" by simp
  from conn_read_size [OF this]
  show "((acc @ bs, es'), (acc, es)) \<in> measure (\<lambda>(acc, es). conn_size es)"
    by simp
qed auto

declare read_headers.simps [simp del]

text \<open>\<open>/^HTTP\/1\.[01] (\d{3})(?: |$)/\<close>.\<close>

definition status_of :: "jstr \<Rightarrow> nat option" where
  "status_of line =
     (if (starts_with (js ''HTTP/1.0 '') line \<or> starts_with (js ''HTTP/1.1 '') line)
         \<and> length line \<ge> 12 \<and> list_all is_digit (slice 9 12 line)
         \<and> (length line = 12 \<or> line ! 12 = 32)
      then Some (dec_value (slice 9 12 line)) else None)"

fun parse_headers :: "jstr list \<Rightarrow> headers \<Rightarrow> net_error + headers" where
  "parse_headers [] hs = Inr hs"
| "parse_headers (l # ls) hs =
     (case index_of (js '':'') l of None \<Rightarrow> Inl NF_header
      | Some 0 \<Rightarrow> Inl NF_header
      | Some i \<Rightarrow>
         (case header_append (trim (take i l)) (trim (drop (Suc i) l)) hs of
            None \<Rightarrow> Inl NF_header | Some hs' \<Rightarrow> parse_headers ls hs'))"

text \<open>\<open>/^content-length\s*:/i\<close>.\<close>

definition length_line :: "jstr \<Rightarrow> bool" where
  "length_line l \<longleftrightarrow> lower_ascii (take 14 l) = js ''content-length''
     \<and> starts_with (js '':'') (dropWhile is_space (drop 14 l))"

definition raw_lengths :: "jstr list \<Rightarrow> jstr list" where
  "raw_lengths ls = map (\<lambda>l. trim (drop (Suc (the (index_of (js '':'') l))) l)) (filter length_line ls)"

datatype framing = F_length int | F_chunked

definition length_form :: "jstr \<Rightarrow> bool" where
  "length_form s \<longleftrightarrow> s = js ''0'' \<or> s \<noteq> [] \<and> list_all is_digit s \<and> hd s \<noteq> 48"

definition framing_of :: "jstr list \<Rightarrow> headers \<Rightarrow> net_error + framing" where
  "framing_of ls hs =
     (let raw = raw_lengths ls; transfer = header_get (js ''transfer-encoding'') hs in
      if transfer \<noteq> None \<and> raw \<noteq> [] then Inl NF_framing_both
      else if length raw > 1 \<or> list_ex (\<lambda>v. 44 \<in> set v) raw then Inl NF_length_twice
      else (case transfer of
          Some t \<Rightarrow>
            (let codings = map (lower_ascii \<circ> trim) (split_on 44 t) in
             if codings \<noteq> [js ''chunked''] then Inl NF_coding else Inr F_chunked)
        | None \<Rightarrow>
            (case raw of [v] \<Rightarrow>
                if \<not> length_form v then Inl NF_length_form
                else if \<not> safe_int (int (dec_value v)) then Inl NF_length_large
                else Inr (F_length (int (dec_value v)))
             | _ \<Rightarrow> Inl NF_length_form)))"

subsection \<open>The body of a response\<close>

record body_state =
  bd_rest :: bytes
  bd_emitted :: int
  bd_chunk :: int
  bd_done :: bool
  bd_closed :: bool
  bd_conn :: "conn_event list"

definition read_more :: "body_state \<Rightarrow> net_error option \<times> body_state" where
  "read_more b =
     (case conn_read 65536 (bd_conn b) of
        (CR_end, es) \<Rightarrow> (Some NF_eof, b\<lparr>bd_conn := es\<rparr>)
      | (CR_stall, es) \<Rightarrow> (Some NF_idle, b\<lparr>bd_conn := es\<rparr>)
      | (CR_data bs, es) \<Rightarrow> (None, b\<lparr>bd_rest := bd_rest b @ bs, bd_conn := es\<rparr>))"

definition body_size :: "body_state \<Rightarrow> nat" where
  "body_size b = length (bd_rest b) + conn_size (bd_conn b)"

lemma read_more_size: "read_more b = (None, b') \<Longrightarrow> body_size b' < body_size b"
  using conn_read_size [of 65536 "bd_conn b"]
  by (auto simp: read_more_def body_size_def split: prod.splits conn_result.splits)

text \<open>The first CRLF of the bytes at hand.\<close>

fun crlf_at :: "bytes \<Rightarrow> nat option" where
  "crlf_at (a # b # bs) = (if a = 13 \<and> b = 10 then Some 0 else map_option Suc (crlf_at (b # bs)))"
| "crlf_at bs = None"

function take_line :: "nat \<Rightarrow> body_state \<Rightarrow> (net_error + jstr) \<times> body_state" where
  "take_line ceiling b =
     (case crlf_at (bd_rest b) of
        Some i \<Rightarrow>
          if i > ceiling then (Inl NF_line, b)
          else (Inr (lossy_decode (take i (bd_rest b))), b\<lparr>bd_rest := drop (i + 2) (bd_rest b)\<rparr>)
      | None \<Rightarrow>
          if length (bd_rest b) > ceiling then (Inl NF_line, b)
          else (case read_more b of (Some e, b') \<Rightarrow> (Inl e, b') | (None, b') \<Rightarrow> take_line ceiling b'))"
  by pat_completeness auto
termination
  by (relation "measure (\<lambda>(ceiling, b). body_size b)") (auto dest: read_more_size [OF sym])

declare take_line.simps [simp del]

text \<open>The size of a chunk: what stands before the first semicolon.\<close>

definition is_hex :: "nat \<Rightarrow> bool" where
  "is_hex u \<longleftrightarrow> is_digit u \<or> (97 \<le> u \<and> u \<le> 102) \<or> (65 \<le> u \<and> u \<le> 70)"

definition chunk_size_of :: "jstr \<Rightarrow> int option" where
  "chunk_size_of line =
     (let token = hd (split_on 59 line) in
      if token \<noteq> [] \<and> list_all is_hex token \<and> safe_int (int (hex_value token))
      then Some (int (hex_value token)) else None)"

text \<open>
  \<open>/^[!#$%&'*+.^_`|~0-9A-Za-z-]+:[\t\x20-\x7e]*$/\<close> and the fields that a trailer must not
  hold.
\<close>

definition trailer_form :: "jstr \<Rightarrow> bool" where
  "trailer_form l \<longleftrightarrow>
     (case index_of (js '':'') l of None \<Rightarrow> False
      | Some i \<Rightarrow> is_token (take i l) \<and> list_all (\<lambda>u. u = 9 \<or> (32 \<le> u \<and> u \<le> 126)) (drop (Suc i) l))"

definition trailer_forbidden :: "jstr \<Rightarrow> bool" where
  "trailer_forbidden l \<longleftrightarrow> list_ex (\<lambda>n. starts_with (n @ js '':'') (lower_ascii l))
     [js ''content-length'', js ''transfer-encoding'', js ''host'', js ''trailer'']"

function read_trailers :: "nat \<Rightarrow> body_state \<Rightarrow> net_error option \<times> body_state" where
  "read_trailers seen b =
     (case take_line 8192 b of
        (Inl e, b') \<Rightarrow> (Some e, b')
      | (Inr l, b') \<Rightarrow>
          if seen + length l + 2 > 32768 then (Some NF_trailers, b')
          else if l = [] then (None, b')
          else if \<not> trailer_form l then (Some NF_trailer, b')
          else if trailer_forbidden l then (Some NF_trailer_field, b')
          else read_trailers (seen + length l + 2) b')"
  by pat_completeness auto
termination
  by (relation "measure (\<lambda>(seen, b). 32769 - seen)") auto

declare read_trailers.simps [simp del]

datatype pull_result = PL_chunk bytes | PL_end | PL_fail net_error

text \<open>\<open>close\<close> and then the error or the end of the stream.\<close>

definition body_end :: "pull_result \<Rightarrow> body_state \<Rightarrow> pull_result \<times> body_state" where
  "body_end r b = (r, b\<lparr>bd_closed := True\<rparr>)"

text \<open>\<open>while (remainder.length < n) await readMore()\<close>.\<close>

function read_until :: "nat \<Rightarrow> body_state \<Rightarrow> net_error option \<times> body_state" where
  "read_until n b =
     (if length (bd_rest b) \<ge> n then (None, b)
      else (case read_more b of (Some e, b') \<Rightarrow> (Some e, b') | (None, b') \<Rightarrow> read_until n b'))"
  by pat_completeness auto
termination
  by (relation "measure (\<lambda>(n, b). body_size b)") (auto dest: read_more_size [OF sym])

declare read_until.simps [simp del]

definition fill_once :: "body_state \<Rightarrow> net_error option \<times> body_state" where
  "fill_once b = (if bd_rest b = [] then read_more b else (None, b))"

definition pull_length :: "int \<Rightarrow> body_state \<Rightarrow> pull_result \<times> body_state" where
  "pull_length n b =
     (if bd_emitted b \<ge> n then body_end PL_end b
      else (case fill_once b of
          (Some e, b') \<Rightarrow> body_end (PL_fail e) b'
        | (None, b') \<Rightarrow>
           (let allowed = nat (min (int (length (bd_rest b'))) (n - bd_emitted b')) in
            (PL_chunk (take allowed (bd_rest b')),
             b'\<lparr>bd_rest := drop allowed (bd_rest b'), bd_emitted := bd_emitted b' + int allowed\<rparr>))))"

text \<open>The bytes of a chunk that are at hand, and its CRLF when they are its last.\<close>

definition pull_chunk :: "body_state \<Rightarrow> pull_result \<times> body_state" where
  "pull_chunk b =
     (case fill_once b of
        (Some e, b1) \<Rightarrow> body_end (PL_fail e) b1
      | (None, b1) \<Rightarrow>
         (let allowed = nat (min (int (length (bd_rest b1))) (bd_chunk b1));
              chunk = take allowed (bd_rest b1);
              b2 = b1\<lparr>bd_rest := drop allowed (bd_rest b1), bd_chunk := bd_chunk b1 - int allowed\<rparr> in
          if bd_chunk b2 \<noteq> 0 then (PL_chunk chunk, b2)
          else (case read_until 2 b2 of
              (Some e, b3) \<Rightarrow> body_end (PL_fail e) b3
            | (None, b3) \<Rightarrow>
                if bd_rest b3 ! 0 \<noteq> 13 \<or> bd_rest b3 ! 1 \<noteq> 10 then body_end (PL_fail NF_delimiter) b3
                else (PL_chunk chunk, b3\<lparr>bd_rest := drop 2 (bd_rest b3)\<rparr>))))"

definition pull_chunked :: "body_state \<Rightarrow> pull_result \<times> body_state" where
  "pull_chunked b =
     (if bd_done b then body_end PL_end b
      else if bd_chunk b \<noteq> 0 then pull_chunk b
      else (case take_line 4096 b of
          (Inl e, b1) \<Rightarrow> body_end (PL_fail e) b1
        | (Inr line, b1) \<Rightarrow>
           (case chunk_size_of line of None \<Rightarrow> body_end (PL_fail NF_chunk_size) b1
            | Some n \<Rightarrow>
               if n \<noteq> 0 then pull_chunk (b1\<lparr>bd_chunk := n\<rparr>)
               else (case read_trailers 0 (b1\<lparr>bd_chunk := 0\<rparr>) of
                   (Some e, b2) \<Rightarrow> body_end (PL_fail e) b2
                 | (None, b2) \<Rightarrow> body_end PL_end (b2\<lparr>bd_done := True\<rparr>)))))"

text \<open>One \<open>pull\<close> of the body; \<open>aborted\<close> is whether the signal of the request is.\<close>

definition pull :: "bool \<Rightarrow> framing \<Rightarrow> body_state \<Rightarrow> pull_result \<times> body_state" where
  "pull aborted framing b =
     (if aborted then body_end (PL_fail NF_deadline) b
      else (case framing of F_length n \<Rightarrow> pull_length n b | F_chunked \<Rightarrow> pull_chunked b))"

text \<open>
  A body read to its end: its bytes, and the error that ended it. Every pull that gives bytes
  shortens what is left, so that \<open>body_size\<close> many pulls and one more are enough.
\<close>

fun drain :: "nat \<Rightarrow> framing \<Rightarrow> body_state \<Rightarrow> (bytes \<times> net_error option) option" where
  "drain 0 framing b = None"
| "drain (Suc n) framing b =
     (case pull False framing b of
        (PL_end, b') \<Rightarrow> Some ([], None)
      | (PL_fail e, b') \<Rightarrow> Some ([], Some e)
      | (PL_chunk c, b') \<Rightarrow> map_option (\<lambda>(bs, e). (c @ bs, e)) (drain n framing b'))"

subsection \<open>One request over a pinned connection\<close>

datatype http_method = M_GET | M_HEAD | M_PUT

fun method_text :: "http_method \<Rightarrow> jstr" where
  "method_text M_GET = js ''GET''"
| "method_text M_HEAD = js ''HEAD''"
| "method_text M_PUT = js ''PUT''"

definition crlf :: jstr where
  "crlf = [13, 10]"

definition host_text :: "approved_target \<Rightarrow> jstr" where
  "host_text t = (if at_port t = default_port (at_url t) then at_hostname t
     else at_hostname t @ js '':'' @ dec_digits (at_port t))"

definition request_headers :: "headers \<Rightarrow> (jstr \<times> jstr) list" where
  "request_headers hs =
     (let kept = filter (\<lambda>h. fst h \<noteq> js ''host'' \<and> fst h \<noteq> js ''connection'') hs in
      header_entries (if header_get (js ''accept'') kept = None then kept @ [(js ''accept'', js ''*/*'')] else kept))"

definition request_text :: "approved_target \<Rightarrow> http_method \<Rightarrow> headers \<Rightarrow> jstr" where
  "request_text t m hs =
     (let path = ur_path (at_url t) @ url_search (at_url t) in
      method_text m @ js '' '' @ (if path = [] then js ''/'' else path) @ js '' HTTP/1.1'' @ crlf
      @ js ''Host: '' @ host_text t @ crlf
      @ concat (map (\<lambda>(n, v). n @ js '': '' @ v @ crlf) (request_headers hs))
      @ js ''Connection: close'' @ crlf @ crlf)"

text \<open>What is written to the connection: the request and then the pieces of the body.\<close>

definition request_bytes :: "approved_target \<Rightarrow> http_method \<Rightarrow> headers \<Rightarrow> bytes list \<Rightarrow> bytes" where
  "request_bytes t m hs body = utf8_bytes (request_text t m hs) @ concat body"

record pinned_response =
  pr_status :: nat
  pr_headers :: headers
  pr_framing :: framing
  pr_body :: "body_state option"
  pr_peer :: jstr

definition pinned_response_of ::
  "approved_target \<Rightarrow> http_method \<Rightarrow> conn_event list \<Rightarrow> net_error + pinned_response" where
  "pinned_response_of t m es =
     (case read_headers [] es of (Inl e, es') \<Rightarrow> Inl e
      | (Inr (head, rest), es') \<Rightarrow>
         (let ls = split_crlf (lossy_decode head) in
          case status_of (hd ls) of None \<Rightarrow> Inl NF_status
          | Some status \<Rightarrow>
             (case parse_headers (tl ls) [] of Inl e \<Rightarrow> Inl e
              | Inr hs \<Rightarrow>
                 (case framing_of (tl ls) hs of Inl e \<Rightarrow> Inl e
                  | Inr framing \<Rightarrow> Inr \<lparr>pr_status = status, pr_headers = hs, pr_framing = framing,
                      pr_body = (if m = M_HEAD then None
                        else Some \<lparr>bd_rest = rest, bd_emitted = 0, bd_chunk = 0, bd_done = False,
                               bd_closed = False, bd_conn = es'\<rparr>),
                      pr_peer = at_address t\<rparr>))))"

text \<open>
  \<open>network\<close> is the outside: the connection to an address and port after the bytes were
  written, or none when the connection or its TLS handshake failed.
\<close>

type_synonym network = "jstr \<Rightarrow> nat \<Rightarrow> bytes \<Rightarrow> conn_event list option"

definition pinned_fetch ::
  "network \<Rightarrow> approved_target \<Rightarrow> http_method \<Rightarrow> headers \<Rightarrow> bytes list \<Rightarrow> net_error + pinned_response" where
  "pinned_fetch network t m hs body =
     (case network (at_address t) (at_port t) (request_bytes t m hs body) of
        None \<Rightarrow> Inl NF_connect
      | Some es \<Rightarrow> pinned_response_of t m es)"

subsection \<open>Redirects\<close>

record fetch_limits =
  fl_redirects :: int
  fl_connect :: int
  fl_total :: int
  fl_idle :: "int option"

definition limits_ok :: "fetch_limits \<Rightarrow> bool" where
  "limits_ok l \<longleftrightarrow> 0 \<le> fl_redirects l \<and> fl_redirects l \<le> 8
     \<and> \<not> (fl_connect l \<le> 0 \<or> fl_total l < fl_connect l
           \<or> (case fl_idle l of None \<Rightarrow> False | Some n \<Rightarrow> n \<le> 0))"

text \<open>
  The parameters of a fetcher: \<open>new URL(text, base)\<close>, the answers of the resolver at each
  hop, the network at each hop, and the configured origins.
\<close>

record fetch_env =
  fe_parse :: "jstr \<Rightarrow> url option \<Rightarrow> url option"
  fe_resolver :: "nat \<Rightarrow> jstr \<Rightarrow> net_error + jstr list"
  fe_network :: "nat \<Rightarrow> network"
  fe_origins :: "jstr list"

text \<open>The constructor of the policy: the origins of the configured URLs.\<close>

definition configured_origins :: "(jstr \<Rightarrow> url option \<Rightarrow> url option) \<Rightarrow> jstr list \<Rightarrow> net_error + jstr list" where
  "configured_origins parse configured =
     map_err (\<lambda>v. case parse v None of None \<Rightarrow> Inl NF_url | Some u \<Rightarrow> Inr (url_origin u)) configured"

record fetch_init =
  fi_method :: http_method
  fi_headers :: headers
  fi_body :: "bytes list"

definition redirect_status :: "nat \<Rightarrow> bool" where
  "redirect_status n \<longleftrightarrow> n \<in> {301, 302, 303, 307, 308}"

text \<open>The loop over the hops, with the targets that were connected to.\<close>

fun follow ::
  "fetch_env \<Rightarrow> source_trust \<Rightarrow> fetch_init \<Rightarrow> nat \<Rightarrow> nat \<Rightarrow> url \<Rightarrow> approved_target list
   \<Rightarrow> (net_error + pinned_response) \<times> approved_target list" where
  "follow env trust init hop 0 u seen = (Inl NF_redirects, seen)"
| "follow env trust init hop (Suc n) u seen =
     (case approve (fe_resolver env hop) (fe_origins env) u trust of
        Inl e \<Rightarrow> (Inl e, seen)
      | Inr t \<Rightarrow>
         (let seen' = seen @ [t] in
          case pinned_fetch (fe_network env hop) t (fi_method init) (fi_headers init) (fi_body init) of
            Inl e \<Rightarrow> (Inl e, seen')
          | Inr r \<Rightarrow>
              if \<not> redirect_status (pr_status r) then (Inr r, seen')
              else (case header_get (js ''location'') (pr_headers r) of
                  None \<Rightarrow> (Inl NF_no_location, seen')
                | Some l \<Rightarrow>
                    if l = [] then (Inl NF_no_location, seen')
                    else if fi_method init \<noteq> M_GET then (Inl NF_upload_redirect, seen')
                    else (case fe_parse env l (Some u) of
                        None \<Rightarrow> (Inl NF_url, seen')
                      | Some v \<Rightarrow> follow env trust init (Suc hop) n v seen'))))"

definition fetch_request ::
  "fetch_env \<Rightarrow> fetch_limits \<Rightarrow> jstr \<Rightarrow> source_trust \<Rightarrow> fetch_init
   \<Rightarrow> (net_error + pinned_response) \<times> approved_target list" where
  "fetch_request env limits input trust init =
     (if \<not> limits_ok limits then (Inl NF_limits, [])
      else (case fe_parse env input None of None \<Rightarrow> (Inl NF_url, [])
        | Some u \<Rightarrow> follow env trust init 0 (nat (fl_redirects limits) + 1) u []))"

definition fetch_get ::
  "fetch_env \<Rightarrow> fetch_limits \<Rightarrow> jstr \<Rightarrow> source_trust \<Rightarrow> (net_error + pinned_response) \<times> approved_target list" where
  "fetch_get env limits input trust =
     fetch_request env limits input trust \<lparr>fi_method = M_GET, fi_headers = [], fi_body = []\<rparr>"

end
