(* ===== verification/Fetcher_Proofs.thy ===== *)
theory Fetcher_Proofs
  imports Safe_Fetcher
begin

section \<open>What a fetch connects to, and what it reads\<close>

text \<open>
  The first part shows that every target of a request was approved, whatever redirects the
  servers send and however the resolver changes its answers; the second that the bytes of a
  body do not depend on how the network splits them.
\<close>

subsection \<open>Targets\<close>

definition target_ok :: "fetch_env \<Rightarrow> source_trust \<Rightarrow> nat \<Rightarrow> approved_target \<Rightarrow> bool" where
  "target_ok env trust hop t \<longleftrightarrow> is_http (at_url t) \<and> ur_username (at_url t) = [] \<and> ur_password (at_url t) = []
     \<and> (trust = T_configured \<longrightarrow> url_origin (at_url t) \<in> set (fe_origins env))
     \<and> (\<exists>as. fe_resolver env hop (ur_hostname (at_url t)) = Inr as \<and> at_address t \<in> set as
          \<and> (trust = T_publisher \<longrightarrow> (\<forall>a \<in> set as. \<not> is_forbidden_address a)))"

lemma approve_ok:
  "approve (fe_resolver env hop) (fe_origins env) u trust = Inr t \<Longrightarrow> target_ok env trust hop t"
proof -
  assume ok: "approve (fe_resolver env hop) (fe_origins env) u trust = Inr t"
  then obtain found a as where f: "fe_resolver env hop (ur_hostname u) = Inr found" "uniq found = a # as"
    by (auto simp: approve_def Let_def split: if_splits sum.splits list.splits)
  have t: "at_url t = u" "at_address t = a" "is_http u" "ur_username u = []" "ur_password u = []"
    "trust = T_configured \<longrightarrow> url_origin u \<in> set (fe_origins env)"
    "trust = T_publisher \<longrightarrow> \<not> list_ex is_forbidden_address (a # as)"
    using ok f by (auto simp: approve_def Let_def split: if_splits)
  have "set found = set (a # as)" using f(2) by (metis set_uniq)
  then show ?thesis using t f(1) by (auto simp: target_ok_def list_ex_iff)
qed

lemma follow_targets:
  "follow env trust init hop n u seen = (r, targets) \<Longrightarrow>
    \<exists>new. targets = seen @ new \<and> length new \<le> n \<and> (fi_method init \<noteq> M_GET \<longrightarrow> length new \<le> 1)
      \<and> (\<forall>i < length new. target_ok env trust (hop + i) (new ! i))"
proof (induction env trust init hop n u seen rule: follow.induct)
  case (2 env trust init hop n u seen)
  show ?case
  proof (cases "approve (fe_resolver env hop) (fe_origins env) u trust")
    case (Inr t)
    have ok: "target_ok env trust hop t" by (rule approve_ok [OF Inr])
    show ?thesis
    proof (cases "targets = seen @ [t]")
      case True
      then show ?thesis using ok by (intro exI [of _ "[t]"]) simp
    next
      case False
      then obtain resp l v where "pinned_fetch (fe_network env hop) t (fi_method init) (fi_headers init) (fi_body init) = Inr resp"
        "redirect_status (pr_status resp)" "header_get (js ''location'') (pr_headers resp) = Some l" "l \<noteq> []"
        "fi_method init = M_GET" "fe_parse env l (Some u) = Some v"
        and rec: "follow env trust init (Suc hop) n v (seen @ [t]) = (r, targets)"
        using "2.prems" Inr by (auto simp: Let_def split: sum.splits if_splits option.splits)
      then obtain new where new: "targets = (seen @ [t]) @ new" "length new \<le> n"
        "\<forall>i < length new. target_ok env trust (Suc hop + i) (new ! i)"
        using "2.IH" [OF Inr refl, of resp l v] by auto
      have "target_ok env trust (hop + i) ((t # new) ! i)" if "i < length (t # new)" for i
        using that new(3) ok by (cases i) auto
      then show ?thesis using new \<open>fi_method init = M_GET\<close> by (intro exI [of _ "t # new"]) simp
    qed
  qed (use "2.prems" in simp)
qed simp

text \<open>
  C26: A fetch never leaves what was approved for it. Whatever the servers answer and the
  resolver says at each hop, a request connects to at most nine targets, to one when it is not a
  GET, and each of them is an HTTP(S) URL without user information whose address is one of the
  answers for its host name at that very hop: with publisher trust all of these answers are
  outside the forbidden ranges, with configured trust the origin is a configured one.
\<close>

theorem fetch_targets_approved:
  assumes "fetch_request env limits input trust init = (r, targets)"
  shows "length targets \<le> 9 \<and> (fi_method init \<noteq> M_GET \<longrightarrow> length targets \<le> 1)
    \<and> (\<forall>i < length targets. target_ok env trust i (targets ! i))"
proof (cases "limits_ok limits \<and> fe_parse env input None \<noteq> None")
  case True
  then obtain u where "follow env trust init 0 (nat (fl_redirects limits) + 1) u [] = (r, targets)"
    using assms by (auto simp: fetch_request_def)
  from follow_targets [OF this] have "length targets \<le> nat (fl_redirects limits) + 1"
    "fi_method init \<noteq> M_GET \<longrightarrow> length targets \<le> 1" "\<forall>i < length targets. target_ok env trust i (targets ! i)"
    by auto
  moreover have "nat (fl_redirects limits) \<le> 8" using True by (auto simp: limits_ok_def)
  ultimately show ?thesis by auto
next
  case False
  then have "targets = []" using assms by (auto simp: fetch_request_def split: if_splits option.splits)
  then show ?thesis by simp
qed

subsection \<open>Bytes of a connection that does not stall\<close>

definition conn_bytes :: "conn_event list \<Rightarrow> bytes" where
  "conn_bytes es = concat (map (\<lambda>e. case e of CE_data bs \<Rightarrow> bs | CE_stall \<Rightarrow> []) es)"

lemma conn_bytes_simps [simp]: "conn_bytes [] = []" "conn_bytes (CE_data bs # es) = bs @ conn_bytes es"
  by (simp_all add: conn_bytes_def)

definition flows :: "body_state \<Rightarrow> bool" where
  "flows b \<longleftrightarrow> CE_stall \<notin> set (bd_conn b)"

definition stream :: "body_state \<Rightarrow> bytes" where
  "stream b = bd_rest b @ conn_bytes (bd_conn b)"

text \<open>Reading changes only what is at hand.\<close>

definition same_place :: "body_state \<Rightarrow> body_state \<Rightarrow> bool" where
  "same_place b b' \<longleftrightarrow> bd_emitted b' = bd_emitted b \<and> bd_chunk b' = bd_chunk b \<and> bd_done b' = bd_done b"

lemma same_place_trans: "same_place a b \<Longrightarrow> same_place b c \<Longrightarrow> same_place a c"
  by (simp add: same_place_def)

lemma read_more_flows:
  assumes "flows b" "bd_conn b \<noteq> []"
  obtains b' where "read_more b = (None, b')" "flows b'" "stream b' = stream b" "same_place b b'"
    "body_size b' < body_size b"
proof -
  obtain e es where e: "bd_conn b = e # es" using assms(2) by (cases "bd_conn b") auto
  then obtain bs where c: "bd_conn b = CE_data bs # es" "CE_stall \<notin> set es"
    using assms(1) by (cases e) (auto simp: flows_def)
  let ?b = "b\<lparr>bd_rest := bd_rest b @ take 65536 bs,
    bd_conn := (if length bs > 65536 then CE_data (drop 65536 bs) # es else es)\<rparr>"
  have "read_more b = (None, ?b)" by (simp add: read_more_def c)
  moreover have "flows ?b" using c by (simp add: flows_def)
  moreover have "stream ?b = stream b" by (simp add: stream_def c)
  moreover have "same_place b ?b" by (simp add: same_place_def)
  ultimately show ?thesis using that read_more_size by blast
qed

lemma crlf_at_take:
  "13 \<notin> set l \<Longrightarrow> crlf_at (take k (l @ 13 # 10 # t)) = (if k \<ge> length l + 2 then Some (length l) else None)"
proof (induction l arbitrary: k)
  case Nil
  show ?case by (cases k; cases "k - 1") auto
next
  case (Cons a l)
  show ?case
  proof (cases k)
    case (Suc j)
    show ?thesis
    proof (cases "take j (l @ 13 # 10 # t)")
      case Nil
      then have "j = 0" unfolding take_eq_Nil by simp
      then show ?thesis using Suc by simp
    next
      case (Cons b bs)
      then show ?thesis using Suc Cons.IH [of j] \<open>13 \<notin> set (a # l)\<close> by (auto split: if_splits)
    qed
  qed simp
qed

lemma take_line_flows:
  assumes "flows b" "stream b = l @ 13 # 10 # t" "13 \<notin> set l" "length l < ceiling"
  shows "\<exists>b'. take_line ceiling b = (Inr (lossy_decode l), b') \<and> flows b' \<and> stream b' = t \<and> same_place b b'
    \<and> body_size b' < body_size b"
  using assms
proof (induction ceiling b rule: take_line.induct)
  case (1 ceiling b)
  have rest: "bd_rest b = take (length (bd_rest b)) (l @ 13 # 10 # t)"
    using "1.prems"(2) by (metis append_eq_conv_conj stream_def)
  show ?case
  proof (cases "length (bd_rest b) \<ge> length l + 2")
    case True
    then have "crlf_at (bd_rest b) = Some (length l)"
      using crlf_at_take [OF "1.prems"(3), of "length (bd_rest b)" t] rest by simp
    moreover define j where "j = length (bd_rest b) - length l - 2"
    then have "length (bd_rest b) = length l + Suc (Suc j)" using True by simp
    then have r: "bd_rest b = l @ 13 # 10 # take j t" using rest by simp
    moreover have "take j t @ conn_bytes (bd_conn b) = t"
      using "1.prems"(2) by (simp add: stream_def r)
    ultimately show ?thesis
      using "1.prems"(1,4) True
      by (subst take_line.simps) (simp add: flows_def stream_def same_place_def body_size_def)
  next
    case False
    then have none: "crlf_at (bd_rest b) = None"
      using crlf_at_take [OF "1.prems"(3), of "length (bd_rest b)" t] rest by simp
    have "bd_conn b \<noteq> []"
    proof
      assume "bd_conn b = []"
      then have "bd_rest b = l @ 13 # 10 # t" using "1.prems"(2) by (simp add: stream_def)
      then show False using False by simp
    qed
    then obtain b1 where b1: "read_more b = (None, b1)" "flows b1" "stream b1 = stream b" "same_place b b1"
      "body_size b1 < body_size b" using read_more_flows [OF "1.prems"(1)] by blast
    have room: "\<not> length (bd_rest b) > ceiling" using False "1.prems"(4) by simp
    obtain b2 where b2: "take_line ceiling b1 = (Inr (lossy_decode l), b2)" "flows b2" "stream b2 = t"
      "same_place b1 b2" "body_size b2 < body_size b1"
      using "1.IH" [OF none room b1(1) [symmetric] refl b1(2)] b1(3) "1.prems" by auto
    have "take_line ceiling b = take_line ceiling b1"
      by (subst take_line.simps) (simp add: none room b1(1))
    then show ?thesis using b1 b2 same_place_trans by (intro exI [of _ b2]) auto
  qed
qed

subsection \<open>Text of the chunk sizes\<close>

lemma lossy_ascii: "\<forall>b \<in> set bs. b < 0x80 \<Longrightarrow> lossy_decode bs = map unat bs"
proof -
  assume a: "\<forall>b \<in> set bs. b < 0x80"
  then have a': "\<forall>u \<in> set (map unat bs). u < 0x80"
    by (auto simp: word_less_nat_alt)
  have "lossy_scalars 0 cp 0x80 0xBF us = us" if "\<forall>u \<in> set us. u < 0x80" for us cp
    using that by (induction us arbitrary: cp) (auto simp: utf8_lead_def)
  then have "lossy_scalars 0 0 0x80 0xBF (map unat bs) = map unat bs" using a' by blast
  moreover have "concat (map utf16 us) = us" if "\<forall>u \<in> set us. u < 0x80" for us
    using that by (induction us) (auto simp: utf16_def)
  moreover have "(if us \<noteq> [] \<and> hd us = 0xFEFF then tl us else us) = us" if "\<forall>u \<in> set us. u < 0x80" for us :: "nat list"
    using that by (cases us) auto
  ultimately show ?thesis using a' by (simp only: lossy_decode_def Let_def)
qed

lemma hex_text_hex: "list_all is_hex (hex_text n)"
proof (induction n rule: hex_text.induct)
  case (1 n)
  have digit: "is_hex (hex_digit d)" if "d < 16" for d
    using that by (auto simp: is_hex_def hex_digit_def is_digit_def)
  show ?case using 1 digit [of n] digit [of "n mod 16"] by (simp add: hex_text.simps [of n])
qed

lemma hex_value_text [simp]: "hex_value (hex_text n) = n"
proof (induction n rule: hex_text.induct)
  case (1 n)
  have digit: "hex_digit_value (hex_digit d) = d" if "d < 16" for d
    using that by (auto simp: hex_digit_def hex_digit_value_def is_digit_def is_upper_def)
  show ?case
  proof (cases "n < 16")
    case True
    then show ?thesis using digit [of n] by (simp add: hex_text.simps [of n] hex_value_def)
  next
    case False
    have "hex_value (hex_text (n div 16) @ [hex_digit (n mod 16)])
        = 16 * hex_value (hex_text (n div 16)) + hex_digit_value (hex_digit (n mod 16))"
      by (simp add: hex_value_def)
    then show ?thesis using 1 [OF False] False digit [of "n mod 16"] by (simp add: hex_text.simps [of n])
  qed
qed

lemma hex_text_length: "n < 16 ^ Suc k \<Longrightarrow> length (hex_text n) \<le> Suc k"
proof (induction k arbitrary: n)
  case (Suc k)
  have "n div 16 < 16 ^ Suc k" using Suc.prems by (simp add: less_mult_imp_div_less)
  then have "length (hex_text (n div 16)) \<le> Suc k" by (rule Suc.IH)
  then show ?case by (subst hex_text.simps) simp
qed (simp add: hex_text.simps)

definition hex_line :: "nat \<Rightarrow> bytes" where
  "hex_line n = map of_nat (hex_text n)"

lemma hex_line:
  assumes "int n \<le> max_safe"
  shows "13 \<notin> set (hex_line n)" "length (hex_line n) < 4096" "chunk_size_of (lossy_decode (hex_line n)) = Some (int n)"
proof -
  have units: "u < 103 \<and> u \<noteq> 13 \<and> u \<noteq> 59" if "u \<in> set (hex_text n)" for u
    using hex_text_hex [of n] that by (auto simp: list_all_iff is_hex_def is_digit_def)
  have un: "unat (of_nat u :: byte) = u" if "u \<in> set (hex_text n)" for u
    using units [OF that] by (simp add: unat_of_nat)
  then have round: "map unat (hex_line n) = hex_text n"
    by (simp add: hex_line_def map_idI)
  have small: "\<forall>b \<in> set (hex_line n). b < 0x80"
    using units un by (fastforce simp: hex_line_def word_less_nat_alt)
  have decoded: "lossy_decode (hex_line n) = hex_text n"
    by (simp only: lossy_ascii [OF small] round)
  show "13 \<notin> set (hex_line n)"
  proof
    assume "13 \<in> set (hex_line n)"
    then have "unat (13 :: byte) \<in> set (map unat (hex_line n))" by (metis image_eqI list.set_map)
    then show False using units [of 13] round by auto
  qed
  have "n < 16 ^ Suc 13" using assms by (simp add: max_safe_def)
  from hex_text_length [OF this] show "length (hex_line n) < 4096" by (simp add: hex_line_def)
  have "split_on 59 (hex_text n) = [hex_text n]"
    using units by (intro split_on_plain) blast
  moreover have "hex_text n \<noteq> []" by (subst hex_text.simps) simp
  ultimately show "chunk_size_of (lossy_decode (hex_line n)) = Some (int n)"
    using hex_text_hex [of n] assms by (simp add: decoded chunk_size_of_def safe_int_def max_safe_def)
qed

subsection \<open>One pull of a chunked body\<close>

lemma read_until_flows:
  assumes "flows b" "length (stream b) \<ge> n"
  shows "\<exists>b'. read_until n b = (None, b') \<and> flows b' \<and> stream b' = stream b \<and> same_place b b'
    \<and> length (bd_rest b') \<ge> n \<and> body_size b' \<le> body_size b"
  using assms
proof (induction n b rule: read_until.induct)
  case (1 n b)
  show ?case
  proof (cases "length (bd_rest b) \<ge> n")
    case True
    then show ?thesis using 1(2) by (subst read_until.simps) (simp add: same_place_def)
  next
    case False
    then have "bd_conn b \<noteq> []" using 1(3) by (auto simp: stream_def)
    then obtain b1 where b1: "read_more b = (None, b1)" "flows b1" "stream b1 = stream b" "same_place b b1"
      "body_size b1 < body_size b" using read_more_flows [OF 1(2)] by blast
    then obtain b2 where "read_until n b1 = (None, b2)" "flows b2" "stream b2 = stream b1" "same_place b1 b2"
      "length (bd_rest b2) \<ge> n" "body_size b2 \<le> body_size b1"
      using 1(1) [OF False b1(1) [symmetric] refl b1(2)] 1(3) by auto
    moreover have "read_until n b = read_until n b1"
      by (subst read_until.simps) (simp add: False b1(1))
    ultimately show ?thesis using b1 same_place_trans by (intro exI [of _ b2]) auto
  qed
qed

lemma fill_once_flows:
  assumes "flows b" "stream b \<noteq> []"
  shows "\<exists>b'. fill_once b = (None, b') \<and> flows b' \<and> stream b' = stream b \<and> same_place b b'
    \<and> body_size b' \<le> body_size b \<and> (bd_rest b' = [] \<longrightarrow> body_size b' < body_size b)"
proof (cases "bd_rest b = []")
  case True
  then have "bd_conn b \<noteq> []" using assms(2) by (auto simp: stream_def)
  then show ?thesis using read_more_flows [OF assms(1)] True by (metis fill_once_def less_imp_le)
next
  case False
  then show ?thesis using assms(1) by (simp add: fill_once_def same_place_def)
qed

lemma pull_chunk_flows:
  assumes "flows b" "stream b = c @ 13 # 10 # t" "bd_chunk b = int (length c)" "c \<noteq> []"
  shows "\<exists>d c' b'. pull_chunk b = (PL_chunk d, b') \<and> c = d @ c' \<and> flows b' \<and> bd_chunk b' = int (length c')
    \<and> stream b' = (if c' = [] then t else c' @ 13 # 10 # t) \<and> bd_done b' = bd_done b \<and> body_size b' < body_size b"
proof -
  obtain b1 where b1: "fill_once b = (None, b1)" "flows b1" "stream b1 = stream b" "same_place b b1"
    "body_size b1 \<le> body_size b" "bd_rest b1 = [] \<longrightarrow> body_size b1 < body_size b"
    using fill_once_flows [OF assms(1)] assms(2) by auto
  define k where "k = min (length (bd_rest b1)) (length c)"
  have kle: "k \<le> length c" "k \<le> length (bd_rest b1)" by (simp_all add: k_def)
  let ?b2 = "b1\<lparr>bd_rest := drop k (bd_rest b1), bd_chunk := int (length c) - int k\<rparr>"
  have chunk1: "bd_chunk b1 = int (length c)" using b1(4) assms(3) by (simp add: same_place_def)
  have allowed: "nat (min (int (length (bd_rest b1))) (bd_chunk b1)) = k"
    by (simp add: chunk1 k_def)
  have rest: "bd_rest b1 = take (length (bd_rest b1)) (c @ 13 # 10 # t)"
    using b1(3) assms(2) by (metis append_eq_conv_conj stream_def)
  have part: "take k (bd_rest b1) = take k c"
    using kle by (subst rest) (simp add: min_def)
  have s2: "stream ?b2 = drop k c @ 13 # 10 # t"
  proof -
    have "stream ?b2 = drop k (stream b1)" using kle(2) by (simp add: stream_def)
    then show ?thesis using b1(3) assms(2) kle by simp
  qed
  have f2: "flows ?b2" using b1(2) by (simp add: flows_def)
  have size2: "body_size ?b2 < body_size b"
  proof (cases "bd_rest b1 = []")
    case False
    then have "k > 0" "k \<le> length (bd_rest b1)" using assms(4) by (simp_all add: k_def)
    moreover have "body_size ?b2 = length (bd_rest b1) - k + conn_size (bd_conn b1)" by (simp add: body_size_def)
    moreover have "length (bd_rest b1) + conn_size (bd_conn b1) \<le> body_size b" using b1(5) by (simp add: body_size_def)
    ultimately show ?thesis by linarith
  qed (use b1(6) in \<open>simp add: body_size_def\<close>)
  have pc: "pull_chunk b = (if bd_chunk ?b2 \<noteq> 0 then (PL_chunk (take k c), ?b2)
      else (case read_until 2 ?b2 of (Some e, b3) \<Rightarrow> body_end (PL_fail e) b3
        | (None, b3) \<Rightarrow> if bd_rest b3 ! 0 \<noteq> 13 \<or> bd_rest b3 ! 1 \<noteq> 10 then body_end (PL_fail NF_delimiter) b3
            else (PL_chunk (take k c), b3\<lparr>bd_rest := drop 2 (bd_rest b3)\<rparr>)))"
    by (simp only: pull_chunk_def b1(1) prod.case option.case Let_def allowed part) (simp add: chunk1)
  show ?thesis
  proof (cases "bd_chunk ?b2 = 0")
    case False
    then have "drop k c \<noteq> []" using kle by simp
    then show ?thesis
      using pc False s2 f2 size2 b1(4)
      by (intro exI [of _ "take k c"] exI [of _ "drop k c"] exI [of _ ?b2]) (simp add: same_place_def)
  next
    case True
    then have all: "k = length c" using kle by simp
    then have s2': "stream ?b2 = 13 # 10 # t" using s2 by simp
    obtain b3 where b3: "read_until 2 ?b2 = (None, b3)" "flows b3" "stream b3 = stream ?b2" "same_place ?b2 b3"
      "length (bd_rest b3) \<ge> 2" "body_size b3 \<le> body_size ?b2"
      using read_until_flows [OF f2, of 2] s2' by auto
    obtain u v r where r: "bd_rest b3 = u # v # r"
      using b3(5) by (cases "bd_rest b3"; cases "tl (bd_rest b3)") auto
    then have uv: "u = 13" "v = 10" "r @ conn_bytes (bd_conn b3) = t"
      using b3(3) s2' by (simp_all add: stream_def)
    let ?b4 = "b3\<lparr>bd_rest := drop 2 (bd_rest b3)\<rparr>"
    have "pull_chunk b = (PL_chunk c, ?b4)"
      using pc True b3(1) r uv all by simp
    moreover have "stream ?b4 = t" using r uv by (simp add: stream_def)
    moreover have "body_size ?b4 < body_size b" using b3(6) size2 by (simp add: body_size_def)
    moreover have "bd_chunk ?b4 = 0" "bd_done ?b4 = bd_done b" using b3(4) True b1(4) by (simp_all add: same_place_def)
    moreover have "flows ?b4" using b3(2) by (simp add: flows_def)
    ultimately show ?thesis by (intro exI [of _ c] exI [of _ "[]"] exI [of _ ?b4]) simp
  qed
qed

text \<open>A body as a server sends it in chunks.\<close>

definition chunk_bytes :: "bytes \<Rightarrow> bytes" where
  "chunk_bytes c = hex_line (length c) @ [13, 10] @ c @ [13, 10]"

definition chunked_bytes :: "bytes list \<Rightarrow> bytes" where
  "chunked_bytes cs = concat (map chunk_bytes cs) @ hex_line 0 @ [13, 10, 13, 10]"

definition chunk_ok :: "bytes \<Rightarrow> bool" where
  "chunk_ok c \<longleftrightarrow> c \<noteq> [] \<and> int (length c) \<le> max_safe"

lemma pull_next_chunk:
  assumes "flows b" "bd_chunk b = 0" "\<not> bd_done b" "chunk_ok c" "stream b = chunk_bytes c @ t"
  shows "\<exists>d c' b'. pull_chunked b = (PL_chunk d, b') \<and> c = d @ c' \<and> flows b' \<and> bd_chunk b' = int (length c')
    \<and> stream b' = (if c' = [] then t else c' @ 13 # 10 # t) \<and> \<not> bd_done b' \<and> body_size b' < body_size b"
proof -
  have n: "int (length c) \<le> max_safe" "c \<noteq> []" using assms(4) by (simp_all add: chunk_ok_def)
  have s: "stream b = hex_line (length c) @ 13 # 10 # (c @ 13 # 10 # t)"
    by (simp add: assms(5) chunk_bytes_def)
  obtain b1 where b1: "take_line 4096 b = (Inr (lossy_decode (hex_line (length c))), b1)" "flows b1"
    "stream b1 = c @ 13 # 10 # t" "same_place b b1" "body_size b1 < body_size b"
    using take_line_flows [OF assms(1) s hex_line(1,2) [OF n(1)]] by blast
  let ?b2 = "b1\<lparr>bd_chunk := int (length c)\<rparr>"
  have "pull_chunked b = pull_chunk ?b2"
    using assms(2,3) b1(1) n(2) by (simp add: pull_chunked_def hex_line(3) [OF n(1)])
  moreover have "flows ?b2" "stream ?b2 = c @ 13 # 10 # t" "bd_chunk ?b2 = int (length c)"
    "\<not> bd_done ?b2" "body_size ?b2 < body_size b"
    using b1 assms(3) by (simp_all add: flows_def stream_def same_place_def body_size_def)
  moreover from this obtain d c' b' where "pull_chunk ?b2 = (PL_chunk d, b')" "c = d @ c'" "flows b'"
    "bd_chunk b' = int (length c')" "stream b' = (if c' = [] then t else c' @ 13 # 10 # t)"
    "bd_done b' = bd_done ?b2" "body_size b' < body_size ?b2"
    using pull_chunk_flows [of ?b2 c t] n(2) by blast
  ultimately show ?thesis by (intro exI [of _ d] exI [of _ c'] exI [of _ b']) simp
qed

lemma pull_last_chunk:
  assumes "flows b" "bd_chunk b = 0" "\<not> bd_done b" "stream b = hex_line 0 @ [13, 10, 13, 10] @ t"
  shows "\<exists>b'. pull_chunked b = (PL_end, b')"
proof -
  have z: "int 0 \<le> max_safe" by (simp add: max_safe_def)
  have s: "stream b = hex_line 0 @ 13 # 10 # (13 # 10 # t)" by (simp add: assms(4))
  obtain b1 where b1: "take_line 4096 b = (Inr (lossy_decode (hex_line 0)), b1)" "flows b1"
    "stream b1 = 13 # 10 # t" "same_place b b1"
    using take_line_flows [OF assms(1) s hex_line(1,2) [OF z]] by blast
  let ?b2 = "b1\<lparr>bd_chunk := 0\<rparr>"
  have "flows ?b2" "stream ?b2 = [] @ 13 # 10 # t" using b1 by (simp_all add: flows_def stream_def)
  from take_line_flows [OF this, of 8192]
  obtain b3 where b3: "take_line 8192 ?b2 = (Inr (lossy_decode []), b3)" by auto
  have "lossy_decode [] = []" by (simp add: lossy_decode_def)
  then have "read_trailers 0 ?b2 = (None, b3)" by (subst read_trailers.simps) (simp add: b3)
  then show ?thesis
    using assms(2,3) b1(1) hex_line(3) [OF z] by (simp add: pull_chunked_def body_end_def)
qed

lemma drain_chunked:
  assumes "\<forall>c \<in> set cs. chunk_ok c" "flows b" "\<not> bd_done b" "bd_chunk b = int (length c)"
    "stream b = (if c = [] then [] else c @ [13, 10]) @ chunked_bytes cs @ t" "body_size b < n"
  shows "drain n F_chunked b = Some (c @ concat cs, None)"
  using assms
proof (induction n arbitrary: b c cs)
  case (Suc n)
  have next': "drain (Suc n) F_chunked b = Some (d @ c' @ concat cs', None)"
    if "pull_chunked b = (PL_chunk d, b')" "\<forall>c \<in> set cs'. chunk_ok c" "flows b'" "bd_chunk b' = int (length c')"
      "stream b' = (if c' = [] then chunked_bytes cs' @ t else c' @ 13 # 10 # chunked_bytes cs' @ t)"
      "\<not> bd_done b'" "body_size b' < body_size b" for d c' cs' b'
  proof -
    have "drain n F_chunked b' = Some (c' @ concat cs', None)"
      by (rule Suc.IH) (use that Suc.prems(6) in auto)
    then show ?thesis using that(1) by (simp add: pull_def)
  qed
  show ?case
  proof (cases "c = []")
    case False
    then have s: "stream b = c @ 13 # 10 # (chunked_bytes cs @ t)" using Suc.prems(5) by simp
    obtain d c' b' where p: "pull_chunk b = (PL_chunk d, b')" "c = d @ c'" "flows b'" "bd_chunk b' = int (length c')"
      "stream b' = (if c' = [] then chunked_bytes cs @ t else c' @ 13 # 10 # chunked_bytes cs @ t)"
      "bd_done b' = bd_done b" "body_size b' < body_size b"
      using pull_chunk_flows [OF Suc.prems(2) s Suc.prems(4) False] by auto
    have "pull_chunked b = (PL_chunk d, b')"
      using p(1) Suc.prems(3,4) False by (simp add: pull_chunked_def)
    from next' [OF this Suc.prems(1) p(3-5)] p(2,6,7) Suc.prems(3) show ?thesis by simp
  next
    case True
    show ?thesis
    proof (cases cs)
      case Nil
      then obtain b' where "pull_chunked b = (PL_end, b')"
        using pull_last_chunk [of b t] Suc.prems True by (auto simp: chunked_bytes_def)
      then show ?thesis using True Nil by (simp add: pull_def)
    next
      case (Cons x xs)
      have s: "stream b = chunk_bytes x @ (chunked_bytes xs @ t)"
        using Suc.prems(5) True Cons by (simp add: chunked_bytes_def)
      obtain d c' b' where p: "pull_chunked b = (PL_chunk d, b')" "x = d @ c'" "flows b'" "bd_chunk b' = int (length c')"
        "stream b' = (if c' = [] then chunked_bytes xs @ t else c' @ 13 # 10 # chunked_bytes xs @ t)"
        "\<not> bd_done b'" "body_size b' < body_size b"
        using pull_next_chunk [OF Suc.prems(2) _ Suc.prems(3) _ s] Suc.prems(1,4) True Cons by auto
      from next' [OF p(1) _ p(3-7)] Suc.prems(1) p(2) True Cons show ?thesis by simp
    qed
  qed
qed simp

text \<open>
  C27: A chunked body is read as it was sent: for every list of chunks, whatever follows them
  and however the network splits the bytes between the headers' remainder and the later reads,
  reading the body to its end gives the bytes of all chunks and no error.
\<close>

theorem chunked_body_roundtrip:
  assumes "\<forall>c \<in> set cs. chunk_ok c" "CE_stall \<notin> set es" "rest @ conn_bytes es = chunked_bytes cs @ surplus"
  shows "drain (length rest + conn_size es + 1) F_chunked
      \<lparr>bd_rest = rest, bd_emitted = 0, bd_chunk = 0, bd_done = False, bd_closed = False, bd_conn = es\<rparr>
    = Some (concat cs, None)"
  by (rule drain_chunked [where c = "[]", simplified])
    (use assms in \<open>simp_all add: flows_def stream_def body_size_def\<close>)

subsection \<open>A request that is redirected, and a body in two chunks\<close>

definition sample_url :: "string \<Rightarrow> url" where
  "sample_url path = \<lparr>ur_protocol = js ''http:'', ur_username = [], ur_password = [], ur_hostname = js ''h'',
     ur_port = [], ur_path = js path, ur_query = None, ur_fragment = None\<rparr>"

definition sample_fetch_env :: fetch_env where
  "sample_fetch_env = \<lparr>fe_parse = (\<lambda>s base. if s = js ''u'' then Some (sample_url ''/'') else None),
     fe_resolver = (\<lambda>hop h. Inr [js ''9.9.9.9'']), fe_network = (\<lambda>hop a p bs. None), fe_origins = []\<rparr>"

definition sample_fetch_limits :: fetch_limits where
  "sample_fetch_limits = \<lparr>fl_redirects = 3, fl_connect = 1, fl_total = 1, fl_idle = None\<rparr>"

lemma sample_allowed: "\<not> is_forbidden_address (js ''9.9.9.9'')"
proof -
  have "ipv4_parts (js ''9.9.9.9'') = Some [9, 9, 9, 9]"
    by (simp add: ipv4_parts_def js_simps is_digit_def dec_value_def starts_with_def)
  then show ?thesis
    by (simp add: forbidden_ranges in_ranges_def v4_ranges_def addr_value_def)
qed

theorem fetch_targets_approved_witness:
  "\<exists>t. fetch_request sample_fetch_env sample_fetch_limits (js ''u'') T_publisher \<lparr>fi_method = M_GET, fi_headers = [], fi_body = []\<rparr>
      = (Inl NF_connect, [t]) \<and> target_ok sample_fetch_env T_publisher 0 t"
proof -
  have "is_http (sample_url ''/'')" by (simp add: is_http_def sample_url_def)
  then have "fetch_request sample_fetch_env sample_fetch_limits (js ''u'') T_publisher \<lparr>fi_method = M_GET, fi_headers = [], fi_body = []\<rparr>
    = (Inl NF_connect, [\<lparr>at_url = sample_url ''/'', at_hostname = js ''h'', at_address = js ''9.9.9.9'', at_port = 80\<rparr>])"
    by (simp add: fetch_request_def sample_fetch_limits_def limits_ok_def sample_fetch_env_def numeral_eq_Suc approve_def
        uniq_def sample_allowed pinned_fetch_def Let_def)
      (simp add: sample_url_def default_port_def)
  with fetch_targets_approved [OF this] show ?thesis by auto
qed

theorem chunked_body_roundtrip_witness:
  "drain 20 F_chunked
     \<lparr>bd_rest = [50, 13, 10, 1, 2, 13, 10], bd_emitted = 0, bd_chunk = 0, bd_done = False, bd_closed = False,
      bd_conn = [CE_data [48, 13], CE_data [10, 13, 10]]\<rparr>
    = Some ([1, 2], None)"
proof -
  have "hex_line (Suc (Suc 0)) = [50]" "hex_line 0 = [48]"
    by (simp_all add: hex_line_def hex_text.simps hex_digit_def)
  then show ?thesis
    using chunked_body_roundtrip [of "[[1, 2]]" "[CE_data [48, 13], CE_data [10, 13, 10]]"
        "[50, 13, 10, 1, 2, 13, 10]" "[]"]
    by (simp add: chunk_ok_def max_safe_def chunked_bytes_def chunk_bytes_def)
qed

end
