(* ===== verification/Coordinator.thy ===== *)
theory Coordinator
  imports Write_Publication Selection
begin

unbundle bit_operations_syntax

section \<open>Publishing a candidate (write/publication_coordinator.ts)\<close>

text \<open>
  The coordinator drives the saga: it claims the pending candidate, brings its blobs to a server,
  has the event signed, gives it to the relays, commits, and has the selector admit it. A tick is
  a chain of synchronous segments with waits between them: the phase says what is waited for
  and what the code holds in its variables, an event is an answer (none when it throws, is
  rejected or times out) or a call of the object, and \<open>advance\<close> runs one segment. While
  it waits, others may change the repository. Diagnostics are left out. The clock is read once per
  segment.
\<close>

datatype coordinator_error = CO_write write_error | CO_no_saga | CO_closed | CO_aborted
  | CO_authorize | CO_prepare | CO_prove | CO_sign | CO_template | CO_invalid rejection | CO_relays
  | CO_not_admitted

subsection \<open>The state\<close>

text \<open>A worker that waits for the proof of the first entry of \<open>wk_left\<close> at its server.\<close>

record worker =
  wk_server :: jstr
  wk_left :: "candidate_blob list"
  wk_ok :: bool

datatype slot = SL_done | SL_rejected coordinator_error | SL_asking worker

record replication =
  rn_queue :: "jstr list"
  rn_slots :: "slot list"
  rn_completed :: bool

record event_task =
  tk_saga :: saga
  tk_relays :: "jstr list"

datatype phase = PH_idle
  | PH_authorizing
  | PH_preparing event_task "candidate_blob list" "jstr list"
  | PH_replicating event_task "candidate_blob list" "jstr list" replication
  | PH_signing event_task event_template
  | PH_relaying event_task
  | PH_repair_authorizing
  | PH_repairing

text \<open>
  \<open>co_repairs\<close> are the relays asked by repairs, with the tick that asked; \<open>co_waiting\<close> counts
  the ticks in the queue; \<open>co_failures\<close> and \<open>co_sent\<close> log the ticks that were
  rejected and what was handed to relays.
\<close>

record 's coordinator =
  co_repo :: write_state
  co_selector :: "'s sel_state"
  co_phase :: phase
  co_closed :: bool
  co_subscribed :: bool
  co_cancelled :: bool
  co_tick :: nat
  co_waiting :: nat
  co_timer :: "int option"
  co_repairs :: "(nat \<times> endpoint_work \<times> raw_publication) list"
  co_failures :: "coordinator_error list"
  co_sent :: "(saga \<times> raw_publication \<times> jstr list) list"

type_synonym ('s, 'a) co_op = "('s coordinator, coordinator_error, 'a) op"

definition from_repo :: "'a write_op \<Rightarrow> ('s, 'a) co_op" where
  "from_repo m c = (case m (co_repo c) of (Inl e, s) \<Rightarrow> (Inl (CO_write e), c\<lparr>co_repo := s\<rparr>)
     | (Inr x, s) \<Rightarrow> (Inr x, c\<lparr>co_repo := s\<rparr>))"

definition on_repo :: "(write_state \<Rightarrow> write_state) \<Rightarrow> ('s, unit) co_op" where
  "on_repo f c = (Inr (), c\<lparr>co_repo := f (co_repo c)\<rparr>)"

definition reading :: "(write_state \<Rightarrow> 'a) \<Rightarrow> ('s, 'a) co_op" where
  "reading f c = (Inr (f (co_repo c)), c)"

text \<open>\<open>publicationSaga()!\<close>.\<close>

definition the_saga :: "('s, saga) co_op" where
  "the_saga c = (case current_saga (co_repo c) of None \<Rightarrow> (Inl CO_no_saga, c) | Some g \<Rightarrow> (Inr g, c))"

definition throw_if_closed :: "('s, unit) co_op" where
  "throw_if_closed c = (if co_closed c then (Inl CO_closed, c) else (Inr (), c))"

definition catching :: "('s, 'a) co_op \<Rightarrow> (coordinator_error \<Rightarrow> ('s, 'a) co_op) \<Rightarrow> ('s, 'a) co_op" where
  "catching m h c = (case m c of (Inl e, d) \<Rightarrow> h e d | (Inr x, d) \<Rightarrow> (Inr x, d))"

fun each_op :: "('a \<Rightarrow> ('s, unit) co_op) \<Rightarrow> 'a list \<Rightarrow> ('s, unit) co_op" where
  "each_op f [] = op_return ()"
| "each_op f (x # xs) = op_bind (f x) (\<lambda>u. each_op f xs)"

subsection \<open>What it is given\<close>

record retry_options =
  rt_base :: int
  rt_max :: int
  rt_attempts :: int
  rt_concurrency :: nat
  rt_jitter :: "work_kind \<Rightarrow> jstr \<Rightarrow> int"

text \<open>\<open>cp_prepare\<close>: the authorization of replicas is prepared before the upload.\<close>

record 's co_options =
  cp_env :: "'s sel_env"
  cp_retry :: retry_options
  cp_kind :: int
  cp_pubkey :: jstr
  cp_identifier :: jstr
  cp_keys :: "jstr list"
  cp_lifetime :: int
  cp_lead :: "int option"
  cp_prepare :: bool
  cp_removes :: "jstr \<Rightarrow> bool"

text \<open>The clocks and what the database of the selector does in a segment.\<close>

record moment =
  mo_now :: int
  mo_commit :: bool
  mo_clock :: "nat \<Rightarrow> int"

subsection \<open>Attempts at endpoints\<close>

text \<open>The jitter: an FNV hash of the target in 32-bit arithmetic.\<close>

definition fnv_hash :: "jstr \<Rightarrow> 32 word" where
  "fnv_hash target = fold (\<lambda>b h. (h XOR of_nat b) * 16777619) (utf8 target) 2166136261"

definition default_retry :: retry_options where
  "default_retry = \<lparr>rt_base = 30, rt_max = 3600, rt_attempts = 8, rt_concurrency = 2,
     rt_jitter = (\<lambda>kind target. int (unat (fnv_hash target) mod 11))\<rparr>"

definition backoff :: "retry_options \<Rightarrow> int \<Rightarrow> int" where
  "backoff rt attempt = min (rt_max rt) (rt_base rt * 2 ^ nat (max 0 (attempt - 1)))"

text \<open>\<open>#outcome\<close>: a replica has one attempt, a relay as many as the limit.\<close>

definition outcome :: "retry_options \<Rightarrow> int \<Rightarrow> endpoint_work \<Rightarrow> bool \<Rightarrow> work_code \<Rightarrow> unit write_op" where
  "outcome rt now w ok code =
     (let attempt = ew_attempts w + 1;
          exhausted = \<not> ok \<and> (ew_kind w = W_replica \<or> attempt \<ge> rt_attempts rt) in
      record_outcome w \<lparr>eu_ok = ok, eu_next = now + backoff rt attempt + rt_jitter rt (ew_kind w) (ew_target w),
        eu_code = (if exhausted then C_attempt_limit else code), eu_exhausted = exhausted\<rparr>)"

definition record_initial :: "retry_options \<Rightarrow> int \<Rightarrow> int \<Rightarrow> work_kind \<Rightarrow> jstr \<Rightarrow> bool \<Rightarrow> unit write_op" where
  "record_initial rt now i kind target ok s =
     (case find (\<lambda>w. work_key w = (i, kind, target) \<and> (ew_status w = W_pending \<or> ew_status w = W_claimed))
             (endpoint_works s) of
        None \<Rightarrow> (Inr (), s)
      | Some w \<Rightarrow>
          if ew_status w = W_claimed then outcome rt now w ok (if ok then C_ok else C_unavailable) s
          else (case claim_work i kind target now s of
              (None, s') \<Rightarrow> (Inr (), s')
            | (Some c, s') \<Rightarrow> outcome rt now c ok (if ok then C_ok else C_unavailable) s'))"

text \<open>The progress that is reported (operations/status.ts).\<close>

record endpoint_progress =
  pg_total :: nat
  pg_succeeded :: nat
  pg_failed :: nat
  pg_retries :: int
  pg_exhausted :: nat

definition summarize_work :: "endpoint_work list \<Rightarrow> work_kind \<Rightarrow> endpoint_progress" where
  "summarize_work ws kind =
     (let sel = filter (\<lambda>w. ew_kind w = kind) ws in
      \<lparr>pg_total = length sel, pg_succeeded = length (filter (\<lambda>w. ew_status w = W_complete) sel),
       pg_failed = length (filter (\<lambda>w. ew_attempts w > 0 \<and> ew_status w \<noteq> W_complete) sel),
       pg_retries = sum_list (map (\<lambda>w. max 0 (ew_attempts w - 1)) sel),
       pg_exhausted = length (filter (\<lambda>w. ew_status w = W_exhausted) sel)\<rparr>)"

definition fully_published :: "int \<Rightarrow> write_state \<Rightarrow> bool" where
  "fully_published i s =
     (let ws = filter (\<lambda>w. ew_batch w = i) (endpoint_works s);
          replicas = summarize_work ws W_replica; relays = summarize_work ws W_relay in
      pg_total replicas > 0 \<and> pg_total relays > 0 \<and> pg_succeeded replicas = pg_total replicas
      \<and> pg_succeeded relays = pg_total relays)"

subsection \<open>Replication\<close>

text \<open>
  A worker takes the next server and asks it for every entry. What it does between two questions
  returns what it then waits for, or none when its loop goes on with the next server, and whether a
  server was proven complete, which makes every worker stop.
\<close>

text \<open>The \<open>catch\<close> block: a server that failed is recorded, unless the coordinator was closed.\<close>

definition give_up ::
  "'s co_options \<Rightarrow> int \<Rightarrow> int \<Rightarrow> jstr \<Rightarrow> coordinator_error \<Rightarrow> 's coordinator \<Rightarrow> slot option \<times> 's coordinator" where
  "give_up o' now i server e c =
     (if co_closed c then (Some (SL_rejected e), c)
      else (case from_repo (record_initial (cp_retry o') now i W_replica server False) c of
          (Inl x, d) \<Rightarrow> (Some (SL_rejected x), d)
        | (Inr u, d) \<Rightarrow> (None, d)))"

text \<open>All entries were tried: the server may be complete.\<close>

definition conclude ::
  "'s co_options \<Rightarrow> int \<Rightarrow> int \<Rightarrow> worker \<Rightarrow> bool \<Rightarrow> 's coordinator \<Rightarrow> slot option \<times> bool \<times> 's coordinator" where
  "conclude o' now i w completed c =
     (let server = wk_server w; proven = wk_ok w \<and> server_complete i server (co_repo c) in
      case op_bind (if proven then from_repo (record_complete i server) else op_return ())
             (\<lambda>u. from_repo (record_initial (cp_retry o') now i W_replica server proven)) c of
        (Inl e, d) \<Rightarrow> (case give_up o' now i server e d of (x, d') \<Rightarrow> (x, completed, d'))
      | (Inr u, d) \<Rightarrow> (None, completed \<or> proven, d))"

definition proceed ::
  "'s co_options \<Rightarrow> int \<Rightarrow> int \<Rightarrow> worker \<Rightarrow> bool \<Rightarrow> 's coordinator \<Rightarrow> slot option \<times> bool \<times> 's coordinator" where
  "proceed o' now i w completed c =
     (if wk_left w = [] then conclude o' now i w completed c
      else if completed \<or> co_cancelled c \<or> co_closed c
      then (case give_up o' now i (wk_server w) CO_aborted c of (x, d) \<Rightarrow> (x, completed, d))
      else (Some (SL_asking w), completed, c))"

fun take_server ::
  "'s co_options \<Rightarrow> int \<Rightarrow> int \<Rightarrow> candidate_blob list \<Rightarrow> jstr list \<Rightarrow> bool \<Rightarrow> 's coordinator
   \<Rightarrow> slot \<times> jstr list \<times> bool \<times> 's coordinator" where
  "take_server o' now i entries [] completed c = (SL_done, [], completed, c)"
| "take_server o' now i entries (server # queue) completed c =
     (if completed then (SL_done, server # queue, completed, c)
      else if server = [] then (SL_done, queue, completed, c)
      else (case proceed o' now i \<lparr>wk_server = server, wk_left = entries, wk_ok = True\<rparr> completed c of
          (Some x, completed', d) \<Rightarrow> (x, queue, completed', d)
        | (None, completed', d) \<Rightarrow> take_server o' now i entries queue completed' d))"

definition fill_slot ::
  "'s co_options \<Rightarrow> int \<Rightarrow> int \<Rightarrow> candidate_blob list \<Rightarrow> nat \<Rightarrow> replication \<times> 's coordinator
   \<Rightarrow> replication \<times> 's coordinator" where
  "fill_slot o' now i entries k = (\<lambda>(r, c).
     (case take_server o' now i entries (rn_queue r) (rn_completed r) c of (x, queue, completed, d) \<Rightarrow>
        (\<lparr>rn_queue = queue, rn_slots = (rn_slots r)[k := x], rn_completed = completed\<rparr>, d)))"

definition start_replication ::
  "'s co_options \<Rightarrow> int \<Rightarrow> int \<Rightarrow> candidate_blob list \<Rightarrow> jstr list \<Rightarrow> 's coordinator \<Rightarrow> replication \<times> 's coordinator" where
  "start_replication o' now i entries servers c =
     (let n = min (length servers) (rt_concurrency (cp_retry o')) in
      fold (fill_slot o' now i entries) [0..<n]
        (\<lparr>rn_queue = servers, rn_slots = replicate n SL_done, rn_completed = False\<rparr>, c))"

text \<open>The answer to worker \<open>k\<close>; none when the upload threw.\<close>

definition proof_answered ::
  "'s co_options \<Rightarrow> int \<Rightarrow> int \<Rightarrow> candidate_blob list \<Rightarrow> nat \<Rightarrow> worker \<Rightarrow> bool option \<Rightarrow> replication
   \<Rightarrow> 's coordinator \<Rightarrow> replication \<times> 's coordinator" where
  "proof_answered o' now i entries k w answer r c =
     (let server = wk_server w;
          (x, completed, d) = (case answer of
            None \<Rightarrow> (case give_up o' now i server CO_prove c of (x, d) \<Rightarrow> (x, rn_completed r, d))
          | Some ok \<Rightarrow>
             (case (if ok then from_repo (record_proof i server (cb_hash (hd (wk_left w)))) c else (Inr (), c)) of
                (Inl e, d) \<Rightarrow> (case give_up o' now i server e d of (x, d') \<Rightarrow> (x, rn_completed r, d'))
              | (Inr u, d) \<Rightarrow> proceed o' now i (w\<lparr>wk_left := tl (wk_left w), wk_ok := wk_ok w \<and> ok\<rparr>)
                  (rn_completed r) d)) in
      case x of
        Some y \<Rightarrow> (r\<lparr>rn_slots := (rn_slots r)[k := y], rn_completed := completed\<rparr>, d)
      | None \<Rightarrow> fill_slot o' now i entries k (r\<lparr>rn_completed := completed\<rparr>, d))"

definition workers_settled :: "replication \<Rightarrow> bool" where
  "workers_settled r \<longleftrightarrow> \<not> list_ex (\<lambda>x. case x of SL_asking w \<Rightarrow> True | _ \<Rightarrow> False) (rn_slots r)"

definition first_rejected :: "replication \<Rightarrow> coordinator_error option" where
  "first_rejected r = (case List.map_filter (\<lambda>x. case x of SL_rejected e \<Rightarrow> Some e | _ \<Rightarrow> None) (rn_slots r) of
     [] \<Rightarrow> None | e # es \<Rightarrow> Some e)"

subsection \<open>The event\<close>

definition refresh_lead :: "'s co_options \<Rightarrow> int" where
  "refresh_lead o' = (case cp_lead o' of Some l \<Rightarrow> l
     | None \<Rightarrow> min 86400 (max 60 (cp_lifetime o' div 10)))"

definition str_tag :: "jstr \<Rightarrow> jstr \<Rightarrow> jsval" where
  "str_tag name v = V_Arr [V_Str name, V_Str v]"

definition publication_tags :: "'s co_options \<Rightarrow> int \<Rightarrow> saga \<Rightarrow> jsval" where
  "publication_tags o' now g = V_Arr ((if cp_kind o' = 37091 then [str_tag (js ''d'') (cp_identifier o')] else [])
        @ [str_tag (js ''htree'') (js ''htree://'' @ pc_nhash (sg_candidate g))]
        @ map (str_tag (js ''blossom'')) (sg_destinations g)
        @ map (str_tag (js ''nixSigKey'')) (cp_keys o')
        @ [str_tag (js ''expiration'') (dec_digits (nat (now + cp_lifetime o')))])"

text \<open>
  The time of the event is later than that of every event in the history. A recorded event has
  an integer there, since it was validated.
\<close>

definition publication_template :: "'s co_options \<Rightarrow> int \<Rightarrow> saga \<Rightarrow> write_state \<Rightarrow> event_template" where
  "publication_template o' now g s =
     \<lparr>et_kind = V_Int (cp_kind o'),
      et_created = V_Int (fold max (map (\<lambda>h. (case sg_signed h of None \<Rightarrow> -1 | Some e \<Rightarrow> created_of e) + 1)
        (saga_history s)) now),
      et_tags = publication_tags o' now g,
      et_content = []\<rparr>"

definition exact_template :: "pub_env \<Rightarrow> raw_publication \<Rightarrow> event_template \<Rightarrow> jstr \<Rightarrow> bool" where
  "exact_template env e t pubkey \<longleftrightarrow> rp_pubkey e = pubkey \<and> rp_kind e = et_kind t
     \<and> rp_created_at e = et_created t \<and> rp_content e = et_content t \<and> rp_tags e = et_tags t
     \<and> pe_verify env e = Some True"

subsection \<open>The segments of a tick\<close>

text \<open>Repairs: relays that are due are asked again, in parallel; \<open>claim_due\<close> gives no replicas.\<close>

definition repair_one :: "'s co_options \<Rightarrow> int \<Rightarrow> endpoint_work \<Rightarrow> ('s, unit) co_op" where
  "repair_one o' now w c =
     (let failed = from_repo (outcome (cp_retry o') now w False C_unavailable) in
      case saga_by_batch (ew_batch w) (co_repo c) of None \<Rightarrow> failed c
      | Some g \<Rightarrow>
         (case sg_signed g of None \<Rightarrow> failed c
          | Some e \<Rightarrow> if \<not> sg_committed g then failed c
             else (Inr (), c\<lparr>co_repairs := co_repairs c @ [(co_tick c, w, e)],
                             co_sent := co_sent c @ [(g, e, [ew_target w])]\<rparr>)))"

definition repairs_done :: "'s coordinator \<Rightarrow> bool" where
  "repairs_done c \<longleftrightarrow> \<not> list_ex (\<lambda>(t, w, e). t = co_tick c) (co_repairs c)"

definition run_repairs :: "'s co_options \<Rightarrow> moment \<Rightarrow> ('s, phase) co_op" where
  "run_repairs o' m =
     op_bind throw_if_closed (\<lambda>u c.
       (case claim_due (mo_now m) (rt_concurrency (cp_retry o')) (co_repo c) of (due, s) \<Rightarrow>
          op_bind (each_op (repair_one o' (mo_now m)) due)
            (\<lambda>u d. (Inr (if repairs_done d then PH_idle else PH_repairing), d)) (c\<lparr>co_repo := s\<rparr>)))"

definition selected_now :: "raw_publication \<Rightarrow> 's sel_state \<Rightarrow> bool" where
  "selected_now e sel = (case sl_current sel of None \<Rightarrow> False
     | Some ps \<Rightarrow> list_ex (\<lambda>p. rp_id (vp_event p) = rp_id e) ps)"

definition admit :: "'s co_options \<Rightarrow> moment \<Rightarrow> raw_publication \<Rightarrow> ('s, unit) co_op" where
  "admit o' m e c =
     (let d = (if selected_now e (co_selector c) then c
               else c\<lparr>co_selector := refresh_selection (cp_env o') (mo_now m) (mo_clock m)
                 (accept_event (cp_env o') (mo_commit m) (mo_now m) e (co_selector c))\<rparr>) in
      (if selected_now e (co_selector d) then Inr () else Inl CO_not_admitted, d))"

definition the_event :: "saga \<Rightarrow> ('s, raw_publication) co_op" where
  "the_event g c = (case sg_signed g of None \<Rightarrow> (Inl CO_no_saga, c) | Some e \<Rightarrow> (Inr e, c))"

definition run_commit :: "'s co_options \<Rightarrow> moment \<Rightarrow> saga \<Rightarrow> ('s, phase) co_op" where
  "run_commit o' m g0 =
     op_bind (if sg_committed g0 then op_return g0
              else op_bind (from_repo (commit_publication (sg_batch g0))) (\<lambda>u. the_saga)) (\<lambda>g.
     op_bind (if sg_admitted g then op_return ()
              else op_bind (the_event g) (\<lambda>e. op_bind (admit o' m e) (\<lambda>u.
                from_repo (mark_admitted (cp_removes o') (mo_now m) (sg_batch g))))) (\<lambda>u.
     op_return PH_repair_authorizing))"

definition run_relays :: "'s co_options \<Rightarrow> moment \<Rightarrow> event_task \<Rightarrow> ('s, phase) co_op" where
  "run_relays o' m tk =
     (let g = tk_saga tk in
      op_bind (on_repo (ensure_work (sg_batch g) W_relay (tk_relays tk) (mo_now m))) (\<lambda>u.
        if given (sg_acknowledged g) = None
        then op_bind (the_event g) (\<lambda>e c.
          (Inr (PH_relaying tk), c\<lparr>co_sent := co_sent c @ [(g, e, tk_relays tk)]\<rparr>))
        else run_commit o' m g))"

definition run_sign :: "'s co_options \<Rightarrow> moment \<Rightarrow> event_task \<Rightarrow> ('s, phase) co_op" where
  "run_sign o' m tk =
     (if sg_signed (tk_saga tk) = None
      then (\<lambda>c. (Inr (PH_signing tk (publication_template o' (mo_now m) (tk_saga tk) (co_repo c))), c))
      else run_relays o' m tk)"

text \<open>What follows when every worker has stopped.\<close>

definition replicas_failed ::
  "'s co_options \<Rightarrow> moment \<Rightarrow> event_task \<Rightarrow> jstr list \<Rightarrow> coordinator_error \<Rightarrow> ('s, phase) co_op" where
  "replicas_failed o' m tk servers e =
     op_bind (each_op (\<lambda>server. from_repo (record_initial (cp_retry o') (mo_now m) (sg_batch (tk_saga tk))
         W_replica server False)) servers) (\<lambda>u. op_throw e)"

definition after_replication ::
  "'s co_options \<Rightarrow> moment \<Rightarrow> event_task \<Rightarrow> candidate_blob list \<Rightarrow> jstr list \<Rightarrow> replication \<Rightarrow> ('s, phase) co_op" where
  "after_replication o' m tk entries servers r c =
     (if \<not> workers_settled r then (Inr (PH_replicating tk entries servers r), c)
      else if co_closed c then replicas_failed o' m tk servers CO_closed c
      else (case first_rejected r of Some e \<Rightarrow> replicas_failed o' m tk servers e c
        | None \<Rightarrow> op_bind the_saga (\<lambda>g.
            if given (sg_complete g) = None then op_return PH_idle
            else run_sign o' m (tk\<lparr>tk_saga := g\<rparr>)) c))"

definition run_replicas ::
  "'s co_options \<Rightarrow> moment \<Rightarrow> event_task \<Rightarrow> candidate_blob list \<Rightarrow> jstr list \<Rightarrow> ('s, phase) co_op" where
  "run_replicas o' m tk entries servers c =
     (case start_replication o' (mo_now m) (sg_batch (tk_saga tk)) entries servers c of
        (r, d) \<Rightarrow> after_replication o' m tk entries servers r d)"

definition pending_replicas :: "int \<Rightarrow> write_state \<Rightarrow> jstr list" where
  "pending_replicas i s = map ew_target (filter (\<lambda>w. ew_batch w = i \<and> ew_kind w = W_replica
     \<and> ew_status w = W_pending) (endpoint_works s))"

text \<open>From the authorization of the daemon to the first wait.\<close>

definition run_claim :: "'s co_options \<Rightarrow> moment \<Rightarrow> jstr list \<Rightarrow> jstr list \<Rightarrow> ('s, phase) co_op" where
  "run_claim o' m servers relays =
     op_bind throw_if_closed (\<lambda>u.
     op_bind (from_repo (begin_refresh (mo_now m) (refresh_lead o'))) (\<lambda>u.
     op_bind (from_repo (claim_publication (mo_now m) servers)) (\<lambda>found.
     (case found of None \<Rightarrow> op_return PH_idle
      | Some g \<Rightarrow>
         op_bind (reading (publication_inventory (sg_batch g))) (\<lambda>entries.
         op_bind (on_repo (ensure_work (sg_batch g) W_replica (sg_destinations g) (mo_now m))) (\<lambda>u.
           let tk = \<lparr>tk_saga = g, tk_relays = relays\<rparr> in
           if given (sg_complete g) \<noteq> None then run_sign o' m tk
           else (\<lambda>c. (let targets = pending_replicas (sg_batch g) (co_repo c);
                          d = c\<lparr>co_cancelled := False\<rparr> in
             if targets = [] then (Inr PH_idle, d)
             else if cp_prepare o' then (Inr (PH_preparing tk entries targets), d)
             else run_replicas o' m tk entries targets d))))))))"

text \<open>The answers.\<close>

definition prepared ::
  "'s co_options \<Rightarrow> moment \<Rightarrow> event_task \<Rightarrow> candidate_blob list \<Rightarrow> jstr list \<Rightarrow> bool \<Rightarrow> ('s, phase) co_op" where
  "prepared o' m tk entries servers ok c =
     (if ok \<and> \<not> co_closed c \<and> \<not> co_cancelled c then run_replicas o' m tk entries servers c
      else replicas_failed o' m tk servers CO_prepare c)"

definition proved ::
  "'s co_options \<Rightarrow> moment \<Rightarrow> event_task \<Rightarrow> candidate_blob list \<Rightarrow> jstr list \<Rightarrow> replication \<Rightarrow> nat
   \<Rightarrow> bool option \<Rightarrow> ('s, phase) co_op" where
  "proved o' m tk entries servers r k answer c =
     (if k < length (rn_slots r)
      then (case rn_slots r ! k of
          SL_asking w \<Rightarrow> (case proof_answered o' (mo_now m) (sg_batch (tk_saga tk)) entries k w answer r c of
              (r', d) \<Rightarrow> after_replication o' m tk entries servers r' d)
        | _ \<Rightarrow> (Inr (PH_replicating tk entries servers r), c))
      else (Inr (PH_replicating tk entries servers r), c))"

definition signed_by ::
  "'s co_options \<Rightarrow> moment \<Rightarrow> event_task \<Rightarrow> event_template \<Rightarrow> raw_publication option \<Rightarrow> ('s, phase) co_op" where
  "signed_by o' m tk t answer =
     op_bind throw_if_closed (\<lambda>u.
     (case answer of None \<Rightarrow> op_throw CO_sign
      | Some e \<Rightarrow>
         if \<not> exact_template (sl_pub (cp_env o')) e t (cp_pubkey o') then op_throw CO_template
         else (case validate_publication (sl_pub (cp_env o')) e (mo_now m) of
             Inl x \<Rightarrow> op_throw (CO_invalid x)
           | Inr v \<Rightarrow>
               op_bind (from_repo (record_signed (sl_pub (cp_env o')) (sg_batch (tk_saga tk)) t e)) (\<lambda>u.
               op_bind the_saga (\<lambda>g. run_relays o' m (tk\<lparr>tk_saga := g\<rparr>))))))"

definition relay_ok :: "(jstr \<times> bool) list \<Rightarrow> jstr \<Rightarrow> bool" where
  "relay_ok outcomes relay \<longleftrightarrow> list_ex (\<lambda>(r, ok). r = relay \<and> ok) outcomes"

definition relayed ::
  "'s co_options \<Rightarrow> moment \<Rightarrow> event_task \<Rightarrow> (jstr \<times> bool) list option \<Rightarrow> ('s, phase) co_op" where
  "relayed o' m tk answer =
     op_bind throw_if_closed (\<lambda>u.
     (case answer of None \<Rightarrow> op_throw CO_relays
      | Some outcomes \<Rightarrow>
         op_bind (reading current_saga) (\<lambda>now_saga.
           let i = sg_batch (tk_saga tk) in
           if map_option sg_batch now_saga \<noteq> Some i then op_return PH_idle
           else op_bind (each_op (\<lambda>relay. from_repo (record_initial (cp_retry o') (mo_now m) i W_relay relay
                  (relay_ok outcomes relay))) (tk_relays tk)) (\<lambda>u.
             (case find (\<lambda>(r, ok). ok \<and> r \<in> set (tk_relays tk)) outcomes of
                None \<Rightarrow> op_return PH_idle
              | Some (r, ok) \<Rightarrow> op_bind (from_repo (record_acknowledgement i r)) (\<lambda>u.
                  op_bind the_saga (\<lambda>g. run_commit o' m g)))))))"

definition repaired ::
  "'s co_options \<Rightarrow> moment \<Rightarrow> endpoint_work \<Rightarrow> (jstr \<times> bool) list option \<Rightarrow> ('s, unit) co_op" where
  "repaired o' m w answer =
     op_bind throw_if_closed (\<lambda>u.
     (case answer of None \<Rightarrow> op_throw CO_relays
      | Some outcomes \<Rightarrow> from_repo (outcome (cp_retry o') (mo_now m) w (relay_ok outcomes (ew_target w)) C_rejected)))"

subsection \<open>Ticks, the timer and closing\<close>

definition schedule_delay :: "int \<Rightarrow> write_state \<Rightarrow> int" where
  "schedule_delay now s = (case next_due s of None \<Rightarrow> 1000 | Some w \<Rightarrow> max 0 (ew_next w - now) * 1000)"

definition schedule :: "int \<Rightarrow> int option \<Rightarrow> 's coordinator \<Rightarrow> 's coordinator" where
  "schedule now delay c =
     (if co_closed c then c
      else c\<lparr>co_timer := Some (case delay of Some d \<Rightarrow> d | None \<Rightarrow> schedule_delay now (co_repo c))\<rparr>)"

text \<open>A tick that is asked for while another runs waits for its end.\<close>

definition begin_tick :: "'s coordinator \<Rightarrow> 's coordinator" where
  "begin_tick c = (if co_closed c then c\<lparr>co_failures := co_failures c @ [CO_closed]\<rparr>
     else c\<lparr>co_phase := PH_authorizing, co_tick := co_tick c + 1\<rparr>)"

definition tick :: "'s coordinator \<Rightarrow> 's coordinator" where
  "tick c = (if co_phase c = PH_idle then begin_tick c else c\<lparr>co_waiting := co_waiting c + 1\<rparr>)"

definition end_tick :: "int \<Rightarrow> 's coordinator \<Rightarrow> 's coordinator" where
  "end_tick now c =
     (let d = schedule now None (c\<lparr>co_phase := PH_idle\<rparr>) in
      if co_waiting d = 0 then d
      else if co_closed d then d\<lparr>co_waiting := 0, co_failures := co_failures d @ replicate (co_waiting d) CO_closed\<rparr>
      else begin_tick (d\<lparr>co_waiting := co_waiting d - 1\<rparr>))"

text \<open>What a segment leaves: the phase, or the end of the tick. Announced changes set the timer.\<close>

definition heed_changes :: "int \<Rightarrow> write_state \<Rightarrow> 's coordinator \<Rightarrow> 's coordinator" where
  "heed_changes now before c =
     (if co_subscribed c \<and> length (wr_changes (co_repo c)) > length (wr_changes before)
      then schedule now (Some 0) c else c)"

definition settle :: "int \<Rightarrow> ('s, phase) co_op \<Rightarrow> 's coordinator \<Rightarrow> 's coordinator" where
  "settle now seg c =
     (case seg c of
        (Inl e, d) \<Rightarrow> end_tick now ((heed_changes now (co_repo c) d)\<lparr>co_failures := co_failures d @ [e]\<rparr>)
      | (Inr ph, d) \<Rightarrow>
          (let d' = heed_changes now (co_repo c) d in
           if ph = PH_idle then end_tick now d' else d'\<lparr>co_phase := ph\<rparr>))"

definition start_coordinator :: "int \<Rightarrow> 's coordinator \<Rightarrow> 's coordinator" where
  "start_coordinator now c =
     (if co_closed c \<or> co_subscribed c then c else schedule now (Some 0) (c\<lparr>co_subscribed := True\<rparr>))"

definition cancel_upload :: "'s coordinator \<Rightarrow> bool \<times> 's coordinator" where
  "cancel_upload c =
     (let uploads = (case co_phase c of PH_preparing a b d \<Rightarrow> True | PH_replicating a b d e \<Rightarrow> True | _ \<Rightarrow> False) in
      if \<not> uploads \<or> co_cancelled c then (False, c) else (True, c\<lparr>co_cancelled := True\<rparr>))"

definition close_coordinator :: "int \<Rightarrow> 's coordinator \<Rightarrow> 's coordinator" where
  "close_coordinator now c =
     (if co_closed c then c
      else c\<lparr>co_closed := True, co_cancelled := True, co_subscribed := False, co_timer := None,
             co_repo := restore_claimed now (co_repo c)\<rparr>)"

text \<open>The answer to a repair: the first that fails ends the tick, the last that is there too.\<close>

definition repair_answered ::
  "'s co_options \<Rightarrow> moment \<Rightarrow> nat \<Rightarrow> (jstr \<times> bool) list option \<Rightarrow> 's coordinator \<Rightarrow> 's coordinator" where
  "repair_answered o' m k answer c =
     (case co_repairs c ! k of (t, w, e) \<Rightarrow>
        (let c' = c\<lparr>co_repairs := take k (co_repairs c) @ drop (Suc k) (co_repairs c)\<rparr> in
         if t = co_tick c \<and> co_phase c = PH_repairing
         then settle (mo_now m) (op_bind (repaired o' m w answer)
           (\<lambda>u d. (Inr (if repairs_done d then PH_idle else PH_repairing), d))) c'
         else (case repaired o' m w answer c' of (r, d) \<Rightarrow> heed_changes (mo_now m) (co_repo c) d)))"

datatype co_event = EV_start | EV_timer | EV_cancel | EV_close
  | EV_authorized bool "jstr list" "jstr list"
  | EV_prepared bool
  | EV_proved nat "bool option"
  | EV_signed "raw_publication option"
  | EV_relayed "(jstr \<times> bool) list option"
  | EV_repaired nat "(jstr \<times> bool) list option"

fun advance :: "'s co_options \<Rightarrow> moment \<Rightarrow> co_event \<Rightarrow> 's coordinator \<Rightarrow> 's coordinator" where
  "advance o' m EV_start c = start_coordinator (mo_now m) c"
| "advance o' m EV_timer c = (if co_timer c = None then c else tick (c\<lparr>co_timer := None\<rparr>))"
| "advance o' m EV_cancel c = snd (cancel_upload c)"
| "advance o' m EV_close c = close_coordinator (mo_now m) c"
| "advance o' m (EV_authorized ok servers relays) c =
     (case co_phase c of
        PH_authorizing \<Rightarrow> settle (mo_now m) (if ok then run_claim o' m servers relays else op_throw CO_authorize) c
      | PH_repair_authorizing \<Rightarrow> settle (mo_now m) (if ok then run_repairs o' m else op_throw CO_authorize) c
      | _ \<Rightarrow> c)"
| "advance o' m (EV_prepared ok) c =
     (case co_phase c of PH_preparing tk entries servers \<Rightarrow> settle (mo_now m) (prepared o' m tk entries servers ok) c
      | _ \<Rightarrow> c)"
| "advance o' m (EV_proved k answer) c =
     (case co_phase c of
        PH_replicating tk entries servers r \<Rightarrow> settle (mo_now m) (proved o' m tk entries servers r k answer) c
      | _ \<Rightarrow> c)"
| "advance o' m (EV_signed answer) c =
     (case co_phase c of PH_signing tk t \<Rightarrow> settle (mo_now m) (signed_by o' m tk t answer) c | _ \<Rightarrow> c)"
| "advance o' m (EV_relayed answer) c =
     (case co_phase c of PH_relaying tk \<Rightarrow> settle (mo_now m) (relayed o' m tk answer) c | _ \<Rightarrow> c)"
| "advance o' m (EV_repaired k answer) c =
     (if k < length (co_repairs c) then repair_answered o' m k answer c else c)"

end
