(* ===== verification/Coordinator_Proofs.thy ===== *)
theory Coordinator_Proofs
  imports Coordinator Write_Sagas
begin

section \<open>What the coordinator publishes\<close>

text \<open>
  The coordinator beside everything else that uses the repository and the selector: the steps
  \<open>co_step\<close> are its own segments, in any order of events, and changes by others, which
  leave the sagas alone (\<open>saga_spared\<close>, \<open>saga_frame\<close>). The invariant \<open>core\<close> says that
  a signed event announces the candidate of its saga; rules for the composition of segments
  carry it through the code.
\<close>

subsection \<open>Announced sagas\<close>

definition announces :: "'s co_options \<Rightarrow> saga \<Rightarrow> raw_publication \<Rightarrow> bool" where
  "announces o' g e \<longleftrightarrow> rp_pubkey e = cp_pubkey o' \<and> rp_kind e = V_Int (cp_kind o')
     \<and> pe_verify (sl_pub (cp_env o')) e = Some True \<and> (\<exists>now. rp_tags e = publication_tags o' now g)
     \<and> (\<exists>now v. validate_publication (sl_pub (cp_env o')) e now = Inr v)"

definition signed_ok :: "'s co_options \<Rightarrow> saga \<Rightarrow> bool" where
  "signed_ok o' g \<longleftrightarrow> (\<forall>e. sg_signed g = Some e \<longrightarrow> announces o' g e)"

definition repo_ok :: "'s co_options \<Rightarrow> write_state \<Rightarrow> bool" where
  "repo_ok o' s \<longleftrightarrow> saga_inv s \<and> (\<forall>g \<in> set (wr_sagas s). signed_ok o' g)
     \<and> (\<forall>x \<in> set (wr_history s). signed_ok o' (fst x))"

lemma announces_grows: "saga_grows g g' \<Longrightarrow> announces o' g' e \<longleftrightarrow> announces o' g e"
  by (simp add: announces_def publication_tags_def saga_grows_def)

lemma signed_ok_grows: "saga_grows g g' \<Longrightarrow> sg_signed g' = sg_signed g \<Longrightarrow> signed_ok o' g \<Longrightarrow> signed_ok o' g'"
  by (simp add: signed_ok_def announces_grows)

lemma repo_ok_kept: "sagas_kept s s' \<Longrightarrow> repo_ok o' s \<Longrightarrow> repo_ok o' s'"
  by (simp add: repo_ok_def sagas_kept_def saga_inv_def)

lemma repo_ok_move:
  assumes "saga_move es s s'" "repo_ok o' s" "\<And>e g. e \<in> es \<Longrightarrow> g \<in> set (wr_sagas s) \<Longrightarrow> announces o' g e"
  shows "repo_ok o' s'"
proof -
  have inv: "saga_inv s'" using assms(1,2) by (auto simp: repo_ok_def intro: saga_move_inv)
  have "(\<forall>g \<in> set (wr_sagas s'). signed_ok o' g) \<and> (\<forall>x \<in> set (wr_history s'). signed_ok o' (fst x))"
    using assms
  proof (cases rule: saga_move.cases)
    case (fact g g')
    then have "signed_ok o' g'"
      using assms(2,3) by (auto simp: signed_by_step_def repo_ok_def signed_ok_def announces_grows)
    then show ?thesis using fact assms(2) by (simp add: repo_ok_def)
  next
    case (past f)
    have "signed_ok o' (f g)" if "signed_ok o' g" for g using past(4) [of g] that by (blast intro: signed_ok_grows)
    then show ?thesis using past(1,2) assms(2) by (auto simp: repo_ok_def)
  next
    case (turn g g' h now)
    have "signed_ok o' h" using turn assms(2) by (auto simp: repo_ok_def intro: signed_ok_grows)
    then have "\<forall>x \<in> insert (h, now) (set (wr_history s)). signed_ok o' (fst x)"
      using assms(2) by (simp add: repo_ok_def)
    then have "\<forall>x \<in> set (wr_history s'). signed_ok o' (fst x)" using turn(9) by (meson subsetD)
    moreover have "signed_ok o' g'" using turn(8) by (simp add: signed_ok_def)
    ultimately show ?thesis using turn(2) by simp
  qed (auto simp: repo_ok_def sagas_kept_def signed_ok_def)
  then show ?thesis using inv by (simp add: repo_ok_def)
qed

lemma find_in_set: "find P xs = Some x \<Longrightarrow> x \<in> set xs"
  by (auto simp: find_Some_iff)

lemma current_saga_in: "current_saga s = Some g \<Longrightarrow> g \<in> set (wr_sagas s)"
  using set_sort [of sg_batch "wr_sagas s"] by (auto simp del: set_sort simp: current_saga_def split: list.splits)

lemma saga_by_batch_in:
  assumes "saga_by_batch i s = Some g"
  shows "g \<in> set (wr_sagas s) \<union> fst ` set (wr_history s)"
proof -
  have "current_saga s = Some g \<or> g \<in> set (saga_history s)"
    using assms by (auto simp: saga_by_batch_def split: option.splits if_splits dest!: find_in_set)
  then show ?thesis by (auto simp: saga_history_def dest: current_saga_in)
qed

lemma repo_ok_saga_by_batch: "repo_ok o' s \<Longrightarrow> saga_by_batch i s = Some g \<Longrightarrow> signed_ok o' g \<and> saga_ordered g"
  by (drule saga_by_batch_in) (auto simp: repo_ok_def saga_inv_def)

lemma repo_ok_current: "repo_ok o' s \<Longrightarrow> current_saga s = Some g \<Longrightarrow> signed_ok o' g \<and> saga_ordered g"
  using repo_ok_saga_by_batch [of o' s "sg_batch g" g] by (simp add: saga_by_batch_def)

subsection \<open>Rules for segments\<close>

definition sent_ok :: "'s co_options \<Rightarrow> 's coordinator \<Rightarrow> bool" where
  "sent_ok o' c \<longleftrightarrow> (\<forall>(g, e, relays) \<in> set (co_sent c).
     sg_signed g = Some e \<and> announces o' g e \<and> given (sg_complete g) \<noteq> None)"

definition core :: "'s co_options \<Rightarrow> 's coordinator \<Rightarrow> bool" where
  "core o' c \<longleftrightarrow> repo_ok o' (co_repo c) \<and> sent_ok o' c"

lemma core_cong: "co_repo d = co_repo c \<Longrightarrow> co_sent d = co_sent c \<Longrightarrow> core o' d = core o' c"
  by (simp add: core_def sent_ok_def)

lemma core_fields [simp]:
  "core o' (c\<lparr>co_selector := x1\<rparr>) = core o' c" "core o' (c\<lparr>co_phase := x2\<rparr>) = core o' c"
  "core o' (c\<lparr>co_closed := x3\<rparr>) = core o' c" "core o' (c\<lparr>co_subscribed := x3\<rparr>) = core o' c"
  "core o' (c\<lparr>co_cancelled := x3\<rparr>) = core o' c" "core o' (c\<lparr>co_tick := n\<rparr>) = core o' c"
  "core o' (c\<lparr>co_waiting := n\<rparr>) = core o' c" "core o' (c\<lparr>co_timer := x4\<rparr>) = core o' c"
  "core o' (c\<lparr>co_repairs := x5\<rparr>) = core o' c" "core o' (c\<lparr>co_failures := x6\<rparr>) = core o' c"
  by (rule core_cong; simp)+

lemma core_kept: "sagas_kept (co_repo c) s \<Longrightarrow> core o' c \<Longrightarrow> core o' (c\<lparr>co_repo := s\<rparr>)"
  by (auto simp: core_def sent_ok_def intro: repo_ok_kept)

lemma core_move: "saga_move {} (co_repo c) s \<Longrightarrow> core o' c \<Longrightarrow> core o' (c\<lparr>co_repo := s\<rparr>)"
  by (auto simp: core_def sent_ok_def intro: repo_ok_move)

definition valid ::
  "'s co_options \<Rightarrow> ('s coordinator \<Rightarrow> bool) \<Rightarrow> ('s, 'a) co_op \<Rightarrow> ('a \<Rightarrow> 's coordinator \<Rightarrow> bool) \<Rightarrow> bool" where
  "valid o' P m Q \<longleftrightarrow> (\<forall>c. core o' c \<longrightarrow> P c \<longrightarrow> core o' (snd (m c))
     \<and> (\<forall>x. fst (m c) = Inr x \<longrightarrow> Q x (snd (m c))))"

lemma validI: "(\<And>c. core o' c \<Longrightarrow> P c \<Longrightarrow> core o' (snd (m c)) \<and> (\<forall>x. fst (m c) = Inr x \<longrightarrow> Q x (snd (m c))))
    \<Longrightarrow> valid o' P m Q"
  by (simp add: valid_def)

lemma validD: "valid o' P m Q \<Longrightarrow> core o' c \<Longrightarrow> P c \<Longrightarrow> m c = (r, d) \<Longrightarrow> core o' d \<and> (\<forall>x. r = Inr x \<longrightarrow> Q x d)"
  by (metis valid_def fst_conv snd_conv)

lemma valid_bind: "valid o' P m R \<Longrightarrow> (\<And>x. valid o' (R x) (f x) Q) \<Longrightarrow> valid o' P (op_bind m f) Q"
  by (fastforce simp: valid_def op_bind_def split: prod.splits sum.splits)

lemma valid_weaken: "valid o' P m Q \<Longrightarrow> (\<And>c. P' c \<Longrightarrow> P c) \<Longrightarrow> (\<And>x c. Q x c \<Longrightarrow> Q' x c) \<Longrightarrow> valid o' P' m Q'"
  by (simp add: valid_def)

lemma valid_return: "(\<And>c. P c \<Longrightarrow> Q x c) \<Longrightarrow> valid o' P (op_return x) Q"
  by (simp add: valid_def op_return_def)

lemma valid_throw: "valid o' P (op_throw e) Q"
  by (simp add: valid_def op_throw_def)

lemma valid_any: "valid o' (\<lambda>c. True) m (\<lambda>x c. True) \<Longrightarrow> valid o' P m (\<lambda>x c. True)"
  by (rule valid_weaken) auto

lemma valid_each: "(\<And>x. valid o' P (f x) (\<lambda>u. P)) \<Longrightarrow> valid o' P (each_op f xs) (\<lambda>u. P)"
  by (induction xs) (auto intro: valid_return valid_bind)

lemma valid_moves:
  assumes "\<And>s r s'. repo_ok o' s \<Longrightarrow> m s = (r, s') \<Longrightarrow> saga_move {} s s'"
  shows "valid o' P (from_repo m) (\<lambda>x c. True)"
proof (rule validI)
  fix c assume "core o' c" "P c"
  moreover obtain r s where m: "m (co_repo c) = (r, s)" by fastforce
  ultimately have "saga_move {} (co_repo c) s" using assms by (auto simp: core_def)
  then show "core o' (snd (from_repo m c)) \<and> (\<forall>x. fst (from_repo m c) = Inr x \<longrightarrow> True)"
    using \<open>core o' c\<close> m by (auto simp: from_repo_def core_move split: sum.split)
qed

lemma repo_ok_inv: "repo_ok o' s \<Longrightarrow> saga_inv s"
  by (simp add: repo_ok_def)

lemmas moves = begin_refresh_move claim_publication_move record_complete_move record_acknowledgement_move
  commit_publication_move mark_admitted_move

lemma valid_frame:
  assumes "spares m" "\<And>c s. sagas_kept (co_repo c) s \<Longrightarrow> P c \<Longrightarrow> P (c\<lparr>co_repo := s\<rparr>)"
  shows "valid o' P (from_repo m) (\<lambda>x. P)"
proof (rule validI)
  fix c assume c: "core o' c" "P c"
  obtain r s where m: "m (co_repo c) = (r, s)" by fastforce
  then have "sagas_kept (co_repo c) s" using sparesD [OF assms(1)] by blast
  then show "core o' (snd (from_repo m c)) \<and> (\<forall>x. fst (from_repo m c) = Inr x \<longrightarrow> P (snd (from_repo m c)))"
    using c m assms(2) by (auto simp: from_repo_def core_kept split: sum.split)
qed

lemma valid_on_repo:
  assumes "\<And>s. sagas_kept s (f s)" "\<And>c s. sagas_kept (co_repo c) s \<Longrightarrow> P c \<Longrightarrow> P (c\<lparr>co_repo := s\<rparr>)"
  shows "valid o' P (on_repo f) (\<lambda>x. P)"
  using assms by (auto simp: valid_def on_repo_def core_kept)

lemma valid_reading: "valid o' P (reading f) (\<lambda>x. P)"
  by (simp add: valid_def reading_def)

lemma valid_closed: "valid o' P throw_if_closed (\<lambda>x. P)"
  by (simp add: valid_def throw_if_closed_def)

text \<open>The saga a segment works on is the one the repository has.\<close>

definition works_on :: "saga \<Rightarrow> 's coordinator \<Rightarrow> bool" where
  "works_on g c \<longleftrightarrow> current_saga (co_repo c) = Some g"

lemma works_on_kept: "sagas_kept (co_repo c) s \<Longrightarrow> works_on g c \<Longrightarrow> works_on g (c\<lparr>co_repo := s\<rparr>)"
  by (simp add: works_on_def current_saga_def sagas_kept_def)

lemma works_on_cong: "sagas_kept (co_repo c) (co_repo d) \<Longrightarrow> works_on g d \<longleftrightarrow> works_on g c"
  by (simp add: works_on_def current_saga_def sagas_kept_def)

lemma valid_the_saga: "valid o' P the_saga works_on"
  by (simp add: valid_def the_saga_def works_on_def split: option.split)

lemma valid_outcome: "spares (outcome rt now w ok code)"
  using spares_record_outcome by (simp add: spares_def outcome_def Let_def)

lemma spares_record_initial: "spares (record_initial rt now i kind target ok)"
proof (unfold spares_def, rule allI)
  fix s
  have o': "sagas_kept t (snd (outcome rt now w ok code t))" for t w code
    using valid_outcome by (simp add: spares_def)
  show "sagas_kept s (snd (record_initial rt now i kind target ok s))"
  proof (cases "find (\<lambda>w. work_key w = (i, kind, target) \<and> (ew_status w = W_pending \<or> ew_status w = W_claimed))
             (endpoint_works s)")
    case (Some w)
    show ?thesis
    proof (cases "ew_status w = W_claimed")
      case False
      obtain x t where c: "claim_work i kind target now s = (x, t)" by fastforce
      then have "sagas_kept s t" using claim_work_sagas [of s i kind target now] by simp
      then show ?thesis
        using Some False c o' [of t] by (auto simp: record_initial_def intro: sagas_kept_trans split: option.split)
    qed (simp add: record_initial_def Some o')
  qed (simp add: record_initial_def)
qed

lemma valid_record_initial: "valid o' (works_on g) (from_repo (record_initial rt now i kind target ok)) (\<lambda>x. works_on g)"
  by (rule valid_frame [OF spares_record_initial]) (rule works_on_kept)

lemma valid_record_initial': "valid o' (\<lambda>c. True) (from_repo (record_initial rt now i kind target ok)) (\<lambda>x c. True)"
  by (rule valid_frame [OF spares_record_initial]) simp

subsection \<open>Replication\<close>

lemma core_give_up:
  assumes "core o' c" "give_up o' now i server e c = (x, d)"
  shows "core o' d"
proof -
  obtain r t where q: "from_repo (record_initial (cp_retry o') now i W_replica server False) c = (r, t)" by fastforce
  have "core o' t" using validD [OF valid_record_initial' assms(1) _ q] by simp
  then show ?thesis using assms q by (auto simp: give_up_def split: if_splits sum.splits)
qed

lemma core_conclude:
  assumes "core o' c" "conclude o' now i w completed c = (x, b, d)"
  shows "core o' d"
proof -
  let ?proven = "wk_ok w \<and> server_complete i (wk_server w) (co_repo c)"
  let ?m = "op_bind (if ?proven then from_repo (record_complete i (wk_server w)) else op_return ())
             (\<lambda>u. from_repo (record_initial (cp_retry o') now i W_replica (wk_server w) ?proven))"
  obtain r t where q: "?m c = (r, t)" by fastforce
  have "valid o' (\<lambda>c. True) ?m (\<lambda>x c. True)"
    by (rule valid_bind [where R = "\<lambda>x c. True"])
      (auto intro!: valid_moves valid_return valid_record_initial' record_complete_move repo_ok_inv)
  from validD [OF this assms(1) TrueI q] have "core o' t" by simp
  then show ?thesis
    using assms(2) q by (auto simp: conclude_def Let_def split: sum.splits prod.splits dest: core_give_up)
qed

lemma core_proceed: "core o' c \<Longrightarrow> proceed o' now i w completed c = (x, b, d) \<Longrightarrow> core o' d"
  by (auto simp: proceed_def split: if_splits prod.splits dest: core_conclude core_give_up)

lemma core_take_server:
  "core o' c \<Longrightarrow> take_server o' now i entries queue completed c = (x, q, b, d) \<Longrightarrow> core o' d"
proof (induction o' now i entries queue completed c rule: take_server.induct)
  case (2 o' now i entries server queue completed c)
  then show ?case
    by (auto split: if_splits prod.splits option.splits dest: core_proceed)
qed simp

lemma core_fill_slot: "core o' c \<Longrightarrow> fill_slot o' now i entries k (r, c) = (r', d) \<Longrightarrow> core o' d"
  by (auto simp: fill_slot_def split: prod.splits dest: core_take_server)

lemma core_fill_slots: "core o' c \<Longrightarrow> fold (fill_slot o' now i entries) ks (r, c) = (r', d) \<Longrightarrow> core o' d"
proof (induction ks arbitrary: r c)
  case (Cons k ks)
  then show ?case
    by (cases "fill_slot o' now i entries k (r, c)") (auto dest: core_fill_slot)
qed simp

lemma core_start_replication: "core o' c \<Longrightarrow> start_replication o' now i entries servers c = (r, d) \<Longrightarrow> core o' d"
  by (simp add: start_replication_def Let_def core_fill_slots)

lemma core_proof_answered:
  assumes "core o' c" "proof_answered o' now i entries k w answer r c = (r', d)"
  shows "core o' d"
proof -
  have rec: "core o' t" if "from_repo (record_proof i server h) c = (x, t)" for server h x t
    using validD [OF valid_frame [OF spares_record_proof, where P = "\<lambda>c. True"] assms(1) _ that] by simp
  show ?thesis
    using assms
    by (auto simp: proof_answered_def Let_def split: option.splits prod.splits sum.splits if_splits
        dest!: rec; meson core_give_up core_proceed core_fill_slot)
qed

subsection \<open>The segments\<close>

text \<open>While the signer is asked, the saga is the one of the template.\<close>

definition phase_ok :: "'s co_options \<Rightarrow> phase \<Rightarrow> 's coordinator \<Rightarrow> bool" where
  "phase_ok o' ph c \<longleftrightarrow> (case ph of
     PH_signing tk t \<Rightarrow> works_on (tk_saga tk) c \<and> et_kind t = V_Int (cp_kind o')
       \<and> (\<exists>now. et_tags t = publication_tags o' now (tk_saga tk))
   | _ \<Rightarrow> True)"

lemma phase_ok_simps [simp]:
  "phase_ok o' PH_idle c" "phase_ok o' PH_authorizing c" "phase_ok o' PH_repair_authorizing c"
  "phase_ok o' PH_repairing c" "phase_ok o' (PH_relaying tk) c" "phase_ok o' (PH_preparing tk entries servers) c"
  "phase_ok o' (PH_replicating tk entries servers r) c"
  by (simp_all add: phase_ok_def)

lemma phase_ok_cong:
  "sagas_kept (co_repo c) (co_repo d) \<Longrightarrow> phase_ok o' ph d \<longleftrightarrow> phase_ok o' ph c"
  by (cases ph) (simp_all add: phase_ok_def works_on_cong)

lemma valid_the_event:
  "valid o' (works_on g) (the_event g) (\<lambda>e c. works_on g c \<and> sg_signed g = Some e)"
  by (simp add: valid_def the_event_def split: option.split)

lemma core_send:
  assumes "core o' c" "signed_ok o' g" "saga_ordered g" "sg_signed g = Some e"
  shows "core o' (c\<lparr>co_sent := co_sent c @ [(g, e, relays)]\<rparr>)"
  using assms by (auto simp: core_def sent_ok_def signed_ok_def saga_ordered_def)

lemma valid_repair_one: "valid o' (\<lambda>c. True) (repair_one o' now w) (\<lambda>x c. True)"
proof (rule validI)
  fix c assume c: "core o' c"
  have failed: "core o' (snd (from_repo (outcome (cp_retry o') now w False C_unavailable) c))"
    using valid_frame [OF valid_outcome [of "cp_retry o'" now w False C_unavailable],
        where P = "\<lambda>c. True" and o' = o'] c by (simp add: valid_def)
  have "core o' (d\<lparr>co_sent := co_sent c @ [(g, e, relays)]\<rparr>)"
    if "saga_by_batch i (co_repo c) = Some g" "sg_signed g = Some e" "d = c\<lparr>co_repairs := rs\<rparr>" for g e relays d rs i
  proof -
    have "signed_ok o' g \<and> saga_ordered g"
      using repo_ok_saga_by_batch [OF _ that(1), of o'] c by (simp add: core_def)
    then show ?thesis
      using core_send [of o' d g e relays] that c by (simp add: core_def sent_ok_def)
  qed
  then show "core o' (snd (repair_one o' now w c)) \<and> (\<forall>x. fst (repair_one o' now w c) = Inr x \<longrightarrow> True)"
    using failed c by (auto simp: repair_one_def Let_def split: option.split)
qed

lemma valid_run_repairs: "valid o' P (run_repairs o' m) (phase_ok o')"
proof -
  have "valid o' (\<lambda>c. True) (\<lambda>c. case claim_due (mo_now m) (rt_concurrency (cp_retry o')) (co_repo c) of (due, s) \<Rightarrow>
      op_bind (each_op (repair_one o' (mo_now m)) due)
        (\<lambda>u d. (Inr (if repairs_done d then PH_idle else PH_repairing), d)) (c\<lparr>co_repo := s\<rparr>)) (phase_ok o')"
    (is "valid o' _ ?f _")
  proof (rule validI)
    fix c assume c: "core o' c"
    obtain due s where d: "claim_due (mo_now m) (rt_concurrency (cp_retry o')) (co_repo c) = (due, s)" by fastforce
    have k: "core o' (c\<lparr>co_repo := s\<rparr>)"
      using c claim_due_sagas [of "co_repo c" "mo_now m" "rt_concurrency (cp_retry o')"] d by (simp add: core_kept)
    have "valid o' (\<lambda>c. True) (op_bind (each_op (repair_one o' (mo_now m)) due)
        (\<lambda>u d. (Inr (if repairs_done d then PH_idle else PH_repairing), d))) (phase_ok o')"
      by (rule valid_bind [OF valid_each [OF valid_repair_one]]) (simp add: valid_def)
    then show "core o' (snd (?f c)) \<and> (\<forall>x. fst (?f c) = Inr x \<longrightarrow> phase_ok o' x (snd (?f c)))"
      using k d by (simp add: valid_def)
  qed
  then have "valid o' (\<lambda>c. True) (run_repairs o' m) (phase_ok o')"
    unfolding run_repairs_def by (rule valid_bind [OF valid_closed])
  then show ?thesis by (rule valid_weaken) simp_all
qed

lemma valid_admit: "valid o' P (admit o' m e) (\<lambda>u c. True)"
  by (simp add: valid_def admit_def Let_def)

lemma valid_bind_any:
  "valid o' (\<lambda>c. True) m (\<lambda>x c. True) \<Longrightarrow> (\<And>x. valid o' (\<lambda>c. True) (f x) Q) \<Longrightarrow> valid o' (\<lambda>c. True) (op_bind m f) Q"
  by (rule valid_bind)

lemma valid_if: "valid o' P m Q \<Longrightarrow> valid o' P n Q \<Longrightarrow> valid o' P (if b then m else n) Q"
  by simp

lemma valid_run_commit: "valid o' P (run_commit o' m g) (phase_ok o')"
proof -
  have commit: "valid o' (\<lambda>c. True) (from_repo (commit_publication i)) (\<lambda>x c. True)" for i
    by (rule valid_moves) (rule commit_publication_move [OF repo_ok_inv])
  have mark: "valid o' (\<lambda>c. True) (from_repo (mark_admitted removes now i)) (\<lambda>x c. True)" for removes now i
    by (rule valid_moves) (rule mark_admitted_move [OF repo_ok_inv])
  have reread: "valid o' (\<lambda>c. True) the_saga (\<lambda>x c. True)"
    by (rule valid_weaken [OF valid_the_saga]) simp_all
  have event: "valid o' (\<lambda>c. True) (the_event g) (\<lambda>x c. True)" for g
    by (simp add: valid_def the_event_def split: option.split)
  have "valid o' (\<lambda>c. True) (run_commit o' m g) (phase_ok o')"
    unfolding run_commit_def
    by (intro valid_bind_any valid_if commit mark reread event valid_admit valid_return) simp_all
  then show ?thesis by (rule valid_weaken) simp_all
qed

lemma valid_run_relays: "valid o' (works_on (tk_saga tk)) (run_relays o' m tk) (phase_ok o')"
proof -
  let ?g = "tk_saga tk"
  have send: "valid o' (\<lambda>c. works_on ?g c \<and> sg_signed ?g = Some e)
      (\<lambda>c. (Inr (PH_relaying tk), c\<lparr>co_sent := co_sent c @ [(?g, e, tk_relays tk)]\<rparr>)) (phase_ok o')" for e
  proof (rule validI)
    fix c assume c: "core o' c" "works_on ?g c \<and> sg_signed ?g = Some e"
    then have "signed_ok o' ?g \<and> saga_ordered ?g"
      using repo_ok_current [of o' "co_repo c" ?g] by (simp add: core_def works_on_def)
    then show "core o' (snd (Inr (PH_relaying tk), c\<lparr>co_sent := co_sent c @ [(?g, e, tk_relays tk)]\<rparr>)) \<and>
        (\<forall>x. fst (Inr (PH_relaying tk), c\<lparr>co_sent := co_sent c @ [(?g, e, tk_relays tk)]\<rparr>) = Inr x \<longrightarrow>
          phase_ok o' x (snd (Inr (PH_relaying tk), c\<lparr>co_sent := co_sent c @ [(?g, e, tk_relays tk)]\<rparr>)))"
      using c core_send [of o' c ?g e "tk_relays tk"] by simp
  qed
  have asked: "valid o' (works_on ?g) (if given (sg_acknowledged ?g) = None
      then op_bind (the_event ?g) (\<lambda>e c. (Inr (PH_relaying tk), c\<lparr>co_sent := co_sent c @ [(?g, e, tk_relays tk)]\<rparr>))
      else run_commit o' m ?g) (phase_ok o')"
    by (intro valid_if valid_bind [OF valid_the_event send] valid_run_commit)
  show ?thesis
    unfolding run_relays_def Let_def
    by (rule valid_bind [OF valid_on_repo asked]) (rule ensure_work_sagas works_on_kept, assumption?)+
qed

lemma valid_run_sign: "valid o' (works_on (tk_saga tk)) (run_sign o' m tk) (phase_ok o')"
proof (cases "sg_signed (tk_saga tk) = None")
  case True
  then show ?thesis
    by (auto simp: run_sign_def valid_def phase_ok_def publication_template_def intro!: exI [of _ "mo_now m"])
next
  case False
  then show ?thesis using valid_run_relays [of o' tk m] by (auto simp: run_sign_def)
qed

lemma valid_replicas_failed: "valid o' P (replicas_failed o' m tk servers e) Q"
proof -
  have "valid o' (\<lambda>c. True) (replicas_failed o' m tk servers e) Q"
    unfolding replicas_failed_def
    by (rule valid_bind [OF valid_each]) (rule valid_record_initial' valid_throw)+
  then show ?thesis by (rule valid_weaken) simp_all
qed

lemma valid_after_replication: "valid o' P (after_replication o' m tk entries servers r) (phase_ok o')"
proof (rule validI)
  fix c assume c: "core o' c"
  have found: "valid o' (\<lambda>c. True) (op_bind the_saga (\<lambda>g. if given (sg_complete g) = None then op_return PH_idle
      else run_sign o' m (tk\<lparr>tk_saga := g\<rparr>))) (phase_ok o')"
  proof (rule valid_bind [OF valid_the_saga])
    fix g
    show "valid o' (works_on g) (if given (sg_complete g) = None then op_return PH_idle
        else run_sign o' m (tk\<lparr>tk_saga := g\<rparr>)) (phase_ok o')"
      using valid_run_sign [of o' "tk\<lparr>tk_saga := g\<rparr>" m] by (simp add: valid_return)
  qed
  note f = valid_replicas_failed [of o' "\<lambda>c. True" m tk servers _ "phase_ok o'"]
  show "core o' (snd (after_replication o' m tk entries servers r c)) \<and>
     (\<forall>x. fst (after_replication o' m tk entries servers r c) = Inr x
        \<longrightarrow> phase_ok o' x (snd (after_replication o' m tk entries servers r c)))"
    using c found f by (simp add: after_replication_def valid_def split: option.split)
qed

lemma valid_run_replicas: "valid o' P (run_replicas o' m tk entries servers) (phase_ok o')"
proof (rule validI)
  fix c assume c: "core o' c"
  obtain r d where s: "start_replication o' (mo_now m) (sg_batch (tk_saga tk)) entries servers c = (r, d)" by fastforce
  then have "core o' d" using c by (rule core_start_replication [rotated])
  then show "core o' (snd (run_replicas o' m tk entries servers c)) \<and>
     (\<forall>x. fst (run_replicas o' m tk entries servers c) = Inr x
       \<longrightarrow> phase_ok o' x (snd (run_replicas o' m tk entries servers c)))"
    using valid_after_replication [of o' "\<lambda>c. True" m tk entries servers r] s
    by (simp add: run_replicas_def valid_def)
qed

lemma claim_publication_current:
  "claim_publication now destinations s = (Inr (Some g), s') \<Longrightarrow> current_saga s' = Some g"
  by (auto simp: claim_publication_def Let_def split: if_splits option.splits sum.splits)

lemma valid_claim:
  "valid o' (\<lambda>c. True) (from_repo (claim_publication now servers)) (\<lambda>x c. \<forall>g. x = Some g \<longrightarrow> works_on g c)"
proof (rule validI)
  fix c assume c: "core o' c"
  obtain r s where m: "claim_publication now servers (co_repo c) = (r, s)" by fastforce
  have "saga_move {} (co_repo c) s"
    using c m by (auto simp: core_def intro: claim_publication_move repo_ok_inv)
  then show "core o' (snd (from_repo (claim_publication now servers) c)) \<and>
     (\<forall>x. fst (from_repo (claim_publication now servers) c) = Inr x
       \<longrightarrow> (\<forall>g. x = Some g \<longrightarrow> works_on g (snd (from_repo (claim_publication now servers) c))))"
    using c m by (auto simp: from_repo_def core_move works_on_def split: sum.split dest: claim_publication_current)
qed

lemma valid_run_claim: "valid o' P (run_claim o' m servers relays) (phase_ok o')"
proof -
  have replicas: "valid o' (works_on g) (\<lambda>c. (let targets = pending_replicas (sg_batch g) (co_repo c);
       d = c\<lparr>co_cancelled := False\<rparr> in
       if targets = [] then (Inr PH_idle, d)
       else if cp_prepare o' then (Inr (PH_preparing tk entries targets), d)
       else run_replicas o' m tk entries targets d)) (phase_ok o')" for g tk entries
    using valid_run_replicas [of o' "\<lambda>c. True" m tk entries] by (simp add: valid_def Let_def)
  have claimed: "valid o' (\<lambda>c. \<forall>g. found = Some g \<longrightarrow> works_on g c) (case found of None \<Rightarrow> op_return PH_idle
      | Some g \<Rightarrow>
         op_bind (reading (publication_inventory (sg_batch g))) (\<lambda>entries.
         op_bind (on_repo (ensure_work (sg_batch g) W_replica (sg_destinations g) (mo_now m))) (\<lambda>u.
           let tk = \<lparr>tk_saga = g, tk_relays = relays\<rparr> in
           if given (sg_complete g) \<noteq> None then run_sign o' m tk
           else (\<lambda>c. (let targets = pending_replicas (sg_batch g) (co_repo c);
                          d = c\<lparr>co_cancelled := False\<rparr> in
             if targets = [] then (Inr PH_idle, d)
             else if cp_prepare o' then (Inr (PH_preparing tk entries targets), d)
             else run_replicas o' m tk entries targets d))))) (phase_ok o')" for found
  proof (cases found)
    case (Some g)
    let ?tk = "\<lparr>tk_saga = g, tk_relays = relays\<rparr>"
    have "valid o' (works_on g) (op_bind (reading (publication_inventory (sg_batch g))) (\<lambda>entries.
         op_bind (on_repo (ensure_work (sg_batch g) W_replica (sg_destinations g) (mo_now m))) (\<lambda>u.
           if given (sg_complete g) \<noteq> None then run_sign o' m ?tk
           else (\<lambda>c. (let targets = pending_replicas (sg_batch g) (co_repo c);
                          d = c\<lparr>co_cancelled := False\<rparr> in
             if targets = [] then (Inr PH_idle, d)
             else if cp_prepare o' then (Inr (PH_preparing ?tk entries targets), d)
             else run_replicas o' m ?tk entries targets d))))) (phase_ok o')"
      using valid_run_sign [of o' ?tk m]
      by (intro valid_bind [OF valid_reading] valid_bind [OF valid_on_repo] valid_if replicas)
        (auto intro: ensure_work_sagas works_on_kept)
    then show ?thesis by (simp add: Some Let_def)
  qed (simp add: valid_return)
  have refresh: "valid o' (\<lambda>c. True) (from_repo (begin_refresh now lead)) (\<lambda>x c. True)" for now lead
    by (rule valid_moves) (rule begin_refresh_move [OF repo_ok_inv])
  have "valid o' (\<lambda>c. True) (run_claim o' m servers relays) (phase_ok o')"
    unfolding run_claim_def
    by (intro valid_bind_any [OF valid_closed] valid_bind_any [OF refresh] valid_bind [OF valid_claim claimed])
  then show ?thesis by (rule valid_weaken) simp_all
qed

lemma valid_prepared: "valid o' P (prepared o' m tk entries servers ok) (phase_ok o')"
  using valid_run_replicas [of o' P m tk entries servers] valid_replicas_failed [of o' P m tk servers CO_prepare "phase_ok o'"]
  by (simp add: valid_def prepared_def)

lemma valid_proved: "valid o' P (proved o' m tk entries servers r k answer) (phase_ok o')"
proof (rule validI)
  fix c assume c: "core o' c"
  have answered: "core o' (snd (after_replication o' m tk entries servers r' d))
      \<and> (\<forall>x. fst (after_replication o' m tk entries servers r' d) = Inr x
        \<longrightarrow> phase_ok o' x (snd (after_replication o' m tk entries servers r' d)))"
    if "proof_answered o' (mo_now m) (sg_batch (tk_saga tk)) entries k w answer r c = (r', d)" for w r' d
    using valid_after_replication [of o' "\<lambda>c. True" m tk entries servers r'] core_proof_answered [OF c that]
    by (simp add: valid_def)
  show "core o' (snd (proved o' m tk entries servers r k answer c)) \<and>
     (\<forall>x. fst (proved o' m tk entries servers r k answer c) = Inr x
       \<longrightarrow> phase_ok o' x (snd (proved o' m tk entries servers r k answer c)))"
    using c answered by (simp add: proved_def split: slot.split prod.split)
qed

text \<open>Only here an event is recorded as signed: it is exactly the template of the saga.\<close>

lemma valid_signed_by: "valid o' (phase_ok o' (PH_signing tk t)) (signed_by o' m tk t answer) (phase_ok o')"
proof -
  let ?g = "tk_saga tk" and ?env = "sl_pub (cp_env o')"
  have recorded: "valid o' (phase_ok o' (PH_signing tk t)) (from_repo (record_signed ?env i t e)) (\<lambda>x c. True)"
    if e: "exact_template ?env e t (cp_pubkey o')" "validate_publication ?env e now = Inr v" for e now v i
  proof (rule validI)
    fix c assume c: "core o' c" "phase_ok o' (PH_signing tk t) c"
    obtain r s where q: "record_signed ?env i t e (co_repo c) = (r, s)" by fastforce
    have inv: "repo_ok o' (co_repo c)" using c(1) by (simp add: core_def)
    have "announces o' ?g e"
      using c(2) e by (auto simp: announces_def exact_template_def phase_ok_def)
    moreover have "wr_sagas (co_repo c) = [?g]"
      using c(2) inv by (simp add: phase_ok_def works_on_def current_saga_Some repo_ok_def)
    moreover have "saga_move {e} (co_repo c) s"
      by (rule record_signed_move [OF repo_ok_inv [OF inv] q]) simp
    ultimately have "repo_ok o' s" using inv by (auto intro: repo_ok_move)
    then show "core o' (snd (from_repo (record_signed ?env i t e) c))
        \<and> (\<forall>x. fst (from_repo (record_signed ?env i t e) c) = Inr x \<longrightarrow> True)"
      using c(1) q by (auto simp: from_repo_def core_def sent_ok_def split: sum.split)
  qed
  have go: "valid o' (works_on g) (run_relays o' m (tk\<lparr>tk_saga := g\<rparr>)) (phase_ok o')" for g
    using valid_run_relays [of o' "tk\<lparr>tk_saga := g\<rparr>" m] by simp
  have "valid o' (phase_ok o' (PH_signing tk t)) (case answer of None \<Rightarrow> op_throw CO_sign
      | Some e \<Rightarrow>
         if \<not> exact_template ?env e t (cp_pubkey o') then op_throw CO_template
         else (case validate_publication ?env e (mo_now m) of
             Inl x \<Rightarrow> op_throw (CO_invalid x)
           | Inr v \<Rightarrow>
               op_bind (from_repo (record_signed ?env (sg_batch ?g) t e)) (\<lambda>u.
               op_bind the_saga (\<lambda>g. run_relays o' m (tk\<lparr>tk_saga := g\<rparr>))))) (phase_ok o')"
    using valid_bind [OF recorded valid_bind [OF valid_the_saga go]]
    by (auto simp: valid_throw split: option.split sum.split)
  then show ?thesis unfolding signed_by_def by (rule valid_bind [OF valid_closed])
qed

lemma valid_relayed: "valid o' P (relayed o' m tk answer) (phase_ok o')"
proof -
  have ack: "valid o' (\<lambda>c. True) (from_repo (record_acknowledgement i relay)) (\<lambda>x c. True)" for i relay
    by (rule valid_moves) (rule record_acknowledgement_move [OF repo_ok_inv])
  have reread: "valid o' (\<lambda>c. True) the_saga (\<lambda>x c. True)"
    by (rule valid_weaken [OF valid_the_saga]) simp_all
  have acknowledged: "valid o' (\<lambda>c. True) (case found of None \<Rightarrow> op_return PH_idle
      | Some (r, ok) \<Rightarrow> op_bind (from_repo (record_acknowledgement i r)) (\<lambda>u.
          op_bind the_saga (\<lambda>g. run_commit o' m g))) (phase_ok o')" for found :: "(jstr \<times> bool) option" and i
  proof (cases found)
    case (Some x)
    obtain r ok where "x = (r, ok)" by fastforce
    moreover have "valid o' (\<lambda>c. True) (op_bind (from_repo (record_acknowledgement i r)) (\<lambda>u.
          op_bind the_saga (\<lambda>g. run_commit o' m g))) (phase_ok o')"
      by (intro valid_bind_any [OF ack] valid_bind_any [OF reread] valid_run_commit)
    ultimately show ?thesis by (simp add: Some)
  qed (simp add: valid_return)
  have "valid o' (\<lambda>c. True) (relayed o' m tk answer) (phase_ok o')"
  proof (cases answer)
    case None
    then show ?thesis unfolding relayed_def by (auto intro: valid_bind_any [OF valid_closed] valid_throw)
  next
    case (Some outcomes)
    show ?thesis
      unfolding relayed_def Some option.case Let_def
      by (intro valid_bind_any [OF valid_closed] valid_bind_any [OF valid_reading] valid_if valid_return
          valid_bind_any [OF valid_each [OF valid_record_initial']] acknowledged) simp
  qed
  then show ?thesis by (rule valid_weaken) simp_all
qed

lemma repaired_kept:
  "repaired o' m w answer c = (r, d) \<Longrightarrow> sagas_kept (co_repo c) (co_repo d) \<and> co_sent d = co_sent c \<and> co_phase d = co_phase c"
  using valid_outcome [of "cp_retry o'" "mo_now m" w]
  by (auto simp: repaired_def op_bind_def throw_if_closed_def op_throw_def from_repo_def spares_def
      split: if_splits option.splits prod.splits sum.splits)
    (metis snd_conv)+

subsection \<open>Events, and what others do\<close>

definition co_inv :: "'s co_options \<Rightarrow> 's coordinator \<Rightarrow> bool" where
  "co_inv o' c \<longleftrightarrow> core o' c \<and> phase_ok o' (co_phase c) c"

lemma co_inv_phase: "core o' c \<Longrightarrow> phase_ok o' ph d \<Longrightarrow> co_repo d = co_repo c \<Longrightarrow> co_inv o' (c\<lparr>co_phase := ph\<rparr>)"
  using phase_ok_cong [of d "c\<lparr>co_phase := ph\<rparr>" o' ph] by (simp add: co_inv_def)

lemma phase_ok_fields [simp]:
  "phase_ok o' ph (c\<lparr>co_phase := x2\<rparr>) = phase_ok o' ph c" "phase_ok o' ph (c\<lparr>co_closed := x3\<rparr>) = phase_ok o' ph c"
  "phase_ok o' ph (c\<lparr>co_subscribed := x3\<rparr>) = phase_ok o' ph c" "phase_ok o' ph (c\<lparr>co_cancelled := x3\<rparr>) = phase_ok o' ph c"
  "phase_ok o' ph (c\<lparr>co_waiting := n\<rparr>) = phase_ok o' ph c" "phase_ok o' ph (c\<lparr>co_timer := x4\<rparr>) = phase_ok o' ph c"
  "phase_ok o' ph (c\<lparr>co_repairs := x5\<rparr>) = phase_ok o' ph c" "phase_ok o' ph (c\<lparr>co_selector := x1\<rparr>) = phase_ok o' ph c"
  by (rule phase_ok_cong, simp)+

lemma core_schedule [simp]: "core o' (schedule now delay c) = core o' c"
  by (simp add: schedule_def)

lemma phase_schedule [simp]:
  "phase_ok o' ph (schedule now delay c) = phase_ok o' ph c" "co_phase (schedule now delay c) = co_phase c"
  by (simp_all add: schedule_def)

lemma core_heed [simp]: "core o' (heed_changes now s c) = core o' c"
  by (simp add: heed_changes_def)

lemma phase_heed [simp]:
  "phase_ok o' ph (heed_changes now s c) = phase_ok o' ph c" "co_phase (heed_changes now s c) = co_phase c"
  by (simp_all add: heed_changes_def)

lemma co_inv_begin_tick: "core o' c \<Longrightarrow> co_phase c = PH_idle \<Longrightarrow> co_inv o' (begin_tick c)"
  by (simp add: begin_tick_def co_inv_def)

lemma co_inv_end_tick: "core o' c \<Longrightarrow> co_inv o' (end_tick now c)"
  by (simp add: end_tick_def Let_def co_inv_def co_inv_begin_tick [unfolded co_inv_def])

lemma co_inv_settle:
  assumes "valid o' P seg (phase_ok o')" "core o' c" "P c"
  shows "co_inv o' (settle now seg c)"
proof -
  obtain r d where q: "seg c = (r, d)" by fastforce
  show ?thesis
    using validD [OF assms q] q
    by (auto simp: settle_def Let_def co_inv_def intro!: co_inv_end_tick [unfolded co_inv_def] split: sum.split)
qed

lemma co_inv_kept: "sagas_kept (co_repo c) s \<Longrightarrow> co_inv o' c \<Longrightarrow> co_inv o' (c\<lparr>co_repo := s\<rparr>)"
  using phase_ok_cong [of c "c\<lparr>co_repo := s\<rparr>" o' "co_phase c"] by (simp add: co_inv_def core_kept)

lemma co_inv_repair_answered:
  assumes "co_inv o' c"
  shows "co_inv o' (repair_answered o' m k answer c)"
proof -
  obtain t w e where k: "co_repairs c ! k = (t, w, e)" by (cases "co_repairs c ! k") auto
  let ?c = "c\<lparr>co_repairs := take k (co_repairs c) @ drop (Suc k) (co_repairs c)\<rparr>"
  obtain r d where q: "repaired o' m w answer ?c = (r, d)" by fastforce
  have d: "sagas_kept (co_repo c) (co_repo d)" "co_sent d = co_sent c" "co_phase d = co_phase c"
    using repaired_kept [OF q] by simp_all
  then have core: "core o' d"
    using assms by (auto simp: co_inv_def core_def sent_ok_def intro: repo_ok_kept)
  have "co_inv o' d" using assms d core phase_ok_cong [OF d(1)] by (simp add: co_inv_def)
  moreover have "valid o' (\<lambda>c'. c' = ?c) (op_bind (repaired o' m w answer)
      (\<lambda>u d. (Inr (if repairs_done d then PH_idle else PH_repairing), d))) (phase_ok o')"
    using core q by (auto simp: valid_def op_bind_def split: sum.split)
  then have "co_inv o' (settle (mo_now m) (op_bind (repaired o' m w answer)
      (\<lambda>u d. (Inr (if repairs_done d then PH_idle else PH_repairing), d))) ?c)"
    by (rule co_inv_settle) (use assms in \<open>simp_all add: co_inv_def\<close>)
  ultimately show ?thesis
    using q by (simp add: repair_answered_def k Let_def) (simp add: co_inv_def)
qed

lemma co_inv_advance: "co_inv o' c \<Longrightarrow> co_inv o' (advance o' m ev c)"
proof (induction o' m ev c rule: advance.induct)
  case (1 o' m c)
  then show ?case by (simp add: start_coordinator_def co_inv_def)
next
  case (2 o' m c)
  then show ?case by (simp add: tick_def co_inv_def co_inv_begin_tick [unfolded co_inv_def])
next
  case (3 o' m c)
  then show ?case by (simp add: cancel_upload_def Let_def co_inv_def)
next
  case (4 o' m c)
  let ?d = "c\<lparr>co_closed := True, co_cancelled := True, co_subscribed := False, co_timer := None\<rparr>"
  have "co_inv o' ?d" using 4 by (simp add: co_inv_def)
  then have "co_inv o' (?d\<lparr>co_repo := restore_claimed (mo_now m) (co_repo c)\<rparr>)"
    by (rule co_inv_kept [rotated]) (simp add: restore_claimed_sagas)
  then show ?case using 4 by (simp add: close_coordinator_def)
next
  case (5 o' m ok servers relays c)
  have "valid o' (\<lambda>c. True) (if ok then run_claim o' m servers relays else op_throw CO_authorize) (phase_ok o')"
    "valid o' (\<lambda>c. True) (if ok then run_repairs o' m else op_throw CO_authorize) (phase_ok o')"
    by (intro valid_if valid_run_claim valid_run_repairs valid_throw)+
  from this [THEN co_inv_settle] 5 show ?case
    by (cases "co_phase c") (simp_all add: co_inv_def)
next
  case (6 o' m ok c)
  then show ?case
    by (cases "co_phase c") (simp_all add: co_inv_settle [OF valid_prepared [where P = "\<lambda>c. True"]],
      simp_all add: co_inv_def co_inv_settle [unfolded co_inv_def, OF valid_prepared [where P = "\<lambda>c. True"]])
next
  case (7 o' m k answer c)
  then show ?case
    by (cases "co_phase c") (simp_all add: co_inv_def co_inv_settle [unfolded co_inv_def, OF valid_proved [where P = "\<lambda>c. True"]])
next
  case (8 o' m answer c)
  show ?case
  proof (cases "co_phase c")
    case (PH_signing tk t)
    then show ?thesis
      using 8 co_inv_settle [OF valid_signed_by [of o' tk t m answer], of c "mo_now m"] by (simp add: co_inv_def)
  qed (use 8 in simp_all)
next
  case (9 o' m answer c)
  then show ?case
    by (cases "co_phase c") (simp_all add: co_inv_def co_inv_settle [unfolded co_inv_def, OF valid_relayed [where P = "\<lambda>c. True"]])
next
  case (10 o' m k answer c)
  then show ?case by (simp add: co_inv_repair_answered)
qed

text \<open>
  The states that a coordinator started on \<open>c\<close> goes through. Others may do to the repository
  what leaves the sagas alone, and anything to the selector.
\<close>

inductive co_run :: "'s co_options \<Rightarrow> 's coordinator \<Rightarrow> 's coordinator \<Rightarrow> bool" where
  none: "co_run o' c c"
| event: "co_run o' c d \<Longrightarrow> co_run o' c (advance o' m ev d)"
| repository: "co_run o' c d \<Longrightarrow> sagas_kept (co_repo d) s \<Longrightarrow> co_run o' c (d\<lparr>co_repo := s\<rparr>)"
| selector: "co_run o' c d \<Longrightarrow> co_run o' c (d\<lparr>co_selector := sel\<rparr>)"

definition fresh_coordinator :: "write_state \<Rightarrow> 's sel_state \<Rightarrow> 's coordinator" where
  "fresh_coordinator s sel = \<lparr>co_repo = s, co_selector = sel, co_phase = PH_idle, co_closed = False,
     co_subscribed = False, co_cancelled = False, co_tick = 0, co_waiting = 0, co_timer = None,
     co_repairs = [], co_failures = [], co_sent = []\<rparr>"

text \<open>
  C28: What is handed to relays: whatever the servers, the signer and the relays answer, in
  whatever order, and whatever others do meanwhile, each event that the coordinator hands to a relay is the
  signed event of a saga, carries the key, the kind and exactly the tags of that saga's candidate
  root and servers, was verified and found valid, and the saga records a server as complete.
  The repository it starts on may hold unfinished sagas, if those signed satisfy the same.
\<close>

theorem sent_events_announce:
  assumes "repo_ok o' s" "co_run o' (fresh_coordinator s sel) c" "(g, e, relays) \<in> set (co_sent c)"
  shows "sg_signed g = Some e \<and> announces o' g e \<and> given (sg_complete g) \<noteq> None"
proof -
  have "co_inv o' (fresh_coordinator s sel)"
    using assms(1) by (simp add: co_inv_def core_def sent_ok_def fresh_coordinator_def)
  with assms(2) have "co_inv o' c"
    by (induction o' "fresh_coordinator s sel" c rule: co_run.induct)
      (simp_all add: co_inv_advance co_inv_kept, simp add: co_inv_def)
  then show ?thesis using assms(3) by (auto simp: co_inv_def core_def sent_ok_def)
qed

subsection \<open>A publication that is resumed\<close>

definition sample_options :: "raw_publication list co_options" where
  "sample_options = \<lparr>cp_env = sample_selection, cp_retry = default_retry, cp_kind = 37091, cp_pubkey = js ''ab'',
     cp_identifier = js ''main'', cp_keys = [js ''k:'' @ btoa (replicate 32 7)], cp_lifetime = 1100, cp_lead = None,
     cp_prepare = False, cp_removes = (\<lambda>path. True)\<rparr>"

definition sample_moment :: moment where
  "sample_moment = \<lparr>mo_now = 900, mo_commit = True, mo_clock = (\<lambda>i. 900)\<rparr>"

definition resumed_saga :: saga where
  "resumed_saga = \<lparr>sg_batch = 1, sg_candidate = (sample_pending 1)\<lparr>pc_nhash := toy_string (replicate 32 9)\<rparr>,
     sg_destinations = [], sg_complete = Some (js ''s''), sg_template = None, sg_signed = None,
     sg_acknowledged = None, sg_committed = False, sg_admitted = False\<rparr>"

definition resumed_repository :: write_state where
  "resumed_repository = empty_repository\<lparr>wr_sagas := [resumed_saga]\<rparr>"

lemma sample_options_fields:
  "sl_pub (cp_env sample_options) = sample_env" "cp_kind sample_options = 37091" "cp_pubkey sample_options = js ''ab''"
  "cp_prepare sample_options = False"
  by (simp_all add: sample_options_def sample_selection_def)

lemma sample_validates_900: "\<exists>v. validate_publication sample_env sample_raw 900 = Inr v"
proof -
  have "expiration 900 sample_tags = Inr (Some 2000)"
    by (simp add: expiration_def sample_tags_def tag_is_def canonical_decimal_def js_eval
        dec_value_def safe_int_def max_safe_def is_digit_def)
  then show ?thesis
    using sample_raw_tags sample_name sample_root sample_keys
    by (simp add: validate_publication_def safe_integer_def safe_int_def max_safe_def Let_def
        sample_env_def [THEN arg_cong [where f = pe_verify]] sample_raw_def)
qed

lemma sample_tags_published: "rp_tags sample_raw = publication_tags sample_options 900 resumed_saga"
  by (simp add: sample_raw_def publication_tags_def sample_options_def resumed_saga_def str_tag_def
      js_eval dec_digits.simps)

lemma resumed_ok: "repo_ok sample_options resumed_repository"
  by (simp add: repo_ok_def saga_inv_def saga_ordered_def signed_ok_def resumed_repository_def resumed_saga_def
      empty_repository_def sample_pending_def given_def js_simps)

lemma resumed_fields:
  "wr_sagas resumed_repository = [resumed_saga]" "wr_pending resumed_repository = None"
  "current_saga resumed_repository = Some resumed_saga" "wr_work resumed_repository = []"
  "saga_history resumed_repository = []"
  by (simp_all add: resumed_repository_def empty_repository_def saga_history_def)

lemma resumed_saga_fields:
  "given (sg_complete resumed_saga) = Some (js ''s'')" "sg_signed resumed_saga = None"
  "sg_batch resumed_saga = 1" "sg_destinations resumed_saga = []" "given (sg_acknowledged resumed_saga) = None"
  by (simp_all add: resumed_saga_def given_def js_simps)

theorem sent_events_announce_witness:
  "\<forall>sel. \<exists>c g. co_run sample_options (fresh_coordinator resumed_repository sel) c
    \<and> (g, sample_raw, [js ''r'']) \<in> set (co_sent c) \<and> announces sample_options g sample_raw"
proof
  fix sel
  let ?o = sample_options and ?m = sample_moment and ?s = resumed_repository
  let ?t = "publication_template ?o 900 resumed_saga ?s" and ?tk = "\<lparr>tk_saga = resumed_saga, tk_relays = [js ''r'']\<rparr>"
  define c1 where "c1 = advance ?o ?m EV_timer (advance ?o ?m EV_start (fresh_coordinator ?s sel))"
  have c1: "co_phase c1 = PH_authorizing" "co_repo c1 = ?s" "\<not> co_closed c1" "co_subscribed c1" "co_sent c1 = []"
    by (simp_all add: c1_def fresh_coordinator_def start_coordinator_def schedule_def tick_def begin_tick_def)
  define c2 where "c2 = advance ?o ?m (EV_authorized True [] [js ''r'']) c1"
  have claim: "begin_refresh 900 lead ?s = (Inr False, ?s)"
    "claim_publication 900 [] ?s = (Inr (Some resumed_saga), ?s)" "ensure_work 1 W_replica [] 900 ?s = ?s" for lead
    by (simp_all add: begin_refresh_def claim_publication_def reuse_complete_def ensure_work_def insert_rows_ignore_def Let_def
        resumed_fields resumed_saga_fields)
  have same: "c1\<lparr>co_repo := ?s\<rparr> = c1" using c1 by simp
  have "run_claim ?o ?m [] [js ''r''] c1 = (Inr (PH_signing ?tk ?t), c1)"
    by (simp add: run_claim_def op_bind_def throw_if_closed_def from_repo_def reading_def on_repo_def c1 claim same
        sample_moment_def resumed_saga_fields run_sign_def)
  then have c2: "co_phase c2 = PH_signing ?tk ?t" "co_repo c2 = ?s" "\<not> co_closed c2" "co_sent c2 = []"
    by (simp_all add: c2_def c1 settle_def heed_changes_def Let_def)
  define c3 where "c3 = advance ?o ?m (EV_signed (Some sample_raw)) c2"
  have exact: "exact_template sample_env sample_raw ?t (js ''ab'')"
    using sample_tags_published
    by (simp add: exact_template_def publication_template_def resumed_fields sample_options_fields sample_raw_def
        sample_env_def)
  have created: "created_of sample_raw = 900" by (simp add: created_of_def sample_raw_def)
  have fits: "matches_template sample_env ?t sample_raw"
    using exact sample_validates_900 created by (auto simp: matches_template_def exact_template_def)
  let ?g = "resumed_saga\<lparr>sg_template := Some (template_value ?t), sg_signed := Some sample_raw\<rparr>"
  define s3 where "s3 = ?s\<lparr>wr_sagas := [?g]\<rparr>"
  have "record_signed sample_env 1 ?t sample_raw ?s = (Inr (), s3)"
    using fits by (simp add: record_signed_def resumed_fields resumed_saga_fields update_saga_def update_where_def s3_def,
        simp add: resumed_saga_def)
  moreover obtain v where "validate_publication sample_env sample_raw 900 = Inr v" using sample_validates_900 by blast
  ultimately have "signed_by ?o ?m ?tk ?t (Some sample_raw) c2
      = run_relays ?o ?m (?tk\<lparr>tk_saga := ?g\<rparr>) (c2\<lparr>co_repo := s3\<rparr>)"
    using c2 exact by (simp add: signed_by_def op_bind_def throw_if_closed_def from_repo_def the_saga_def
        sample_options_fields sample_moment_def resumed_saga_fields s3_def)
  then have "co_sent c3 = [(?g, sample_raw, [js ''r''])]"
    by (simp add: c3_def c2 settle_def run_relays_def op_bind_def on_repo_def Let_def the_event_def
        resumed_saga_fields heed_changes_def schedule_def)
  moreover have "co_run ?o (fresh_coordinator ?s sel) c3"
    unfolding c1_def c2_def c3_def by (intro co_run.event co_run.none)
  ultimately show "\<exists>c g. co_run ?o (fresh_coordinator ?s sel) c
    \<and> (g, sample_raw, [js ''r'']) \<in> set (co_sent c) \<and> announces ?o g sample_raw"
    using sent_events_announce [OF resumed_ok, of sel c3 ?g sample_raw "[js ''r'']"] by auto
qed

subsection \<open>Relays that refuse\<close>

text \<open>
  A signed event that no relay has taken: every relay was asked once, and the time of one
  of them has come again.
\<close>

definition refused :: "moment \<Rightarrow> event_task \<Rightarrow> 's coordinator \<Rightarrow> bool" where
  "refused m tk c \<longleftrightarrow> (let g = tk_saga tk; s = co_repo c in
     co_phase c = PH_relaying tk \<and> \<not> co_closed c \<and> co_waiting c = 0
     \<and> current_saga s = Some g \<and> given (sg_complete g) \<noteq> None \<and> sg_signed g \<noteq> None
     \<and> given (sg_acknowledged g) = None \<and> \<not> sg_committed g \<and> \<not> sg_admitted g
     \<and> (\<forall>d \<in> set (sg_destinations g). has_key work_key (sg_batch g, W_replica, d) (wr_work s))
     \<and> (\<forall>r \<in> set (tk_relays tk). has_key work_key (sg_batch g, W_relay, r) (wr_work s))
     \<and> (\<forall>w \<in> set (wr_work s). ew_batch w = sg_batch g \<and> ew_kind w = W_relay \<longrightarrow> ew_status w = W_retry)
     \<and> (case next_due s of None \<Rightarrow> False | Some w \<Rightarrow> ew_next w \<le> mo_now m))"

lemma set_endpoint_works [simp]: "set (endpoint_works s) = set (wr_work s)"
  by (simp add: endpoint_works_def ordered_work_def)

lemma record_initial_refused:
  assumes "\<forall>w \<in> set (wr_work s). ew_batch w = i \<and> ew_kind w = W_relay \<longrightarrow> ew_status w = W_retry"
  shows "record_initial rt now i W_relay relay ok s = (Inr (), s)"
proof -
  have "find (\<lambda>w. work_key w = (i, W_relay, relay) \<and> (ew_status w = W_pending \<or> ew_status w = W_claimed))
      (endpoint_works s) = None"
    using assms by (auto simp: find_None_iff work_key_def)
  then show ?thesis by (simp add: record_initial_def)
qed

lemma each_record_refused:
  assumes "\<forall>w \<in> set (wr_work (co_repo c)). ew_batch w = i \<and> ew_kind w = W_relay \<longrightarrow> ew_status w = W_retry"
  shows "each_op (\<lambda>relay. from_repo (record_initial rt now i W_relay relay (ok relay))) relays c = (Inr (), c)"
  using assms by (induction relays) (simp_all add: op_return_def op_bind_def from_repo_def record_initial_refused)

lemma ensure_work_present:
  assumes "\<forall>x \<in> set targets. has_key work_key (i, kind, x) (wr_work s)"
  shows "ensure_work i kind targets now s = s"
proof -
  have "insert_rows_ignore work_key (map (new_work i kind now) targets) (wr_work s) = wr_work s"
    using assms
    by (induction targets) (simp_all add: insert_rows_ignore_def insert_ignore_def new_work_def work_key_def)
  then show ?thesis by (simp add: ensure_work_def)
qed

definition refusal :: "event_task \<Rightarrow> (jstr \<times> bool) list" where
  "refusal tk = map (\<lambda>r. (r, False)) (tk_relays tk)"

lemma find_refusal: "find (\<lambda>(r, ok). ok \<and> r \<in> A) (refusal tk) = None"
  by (auto simp: find_None_iff refusal_def)

text \<open>The refusal changes nothing and the timer is set to now.\<close>

lemma refused_again:
  assumes "refused m tk c"
  shows "advance o' m (EV_relayed (Some (refusal tk))) c = c\<lparr>co_phase := PH_idle, co_timer := Some 0\<rparr>"
proof -
  note c = assms [unfolded refused_def Let_def]
  have seg: "relayed o' m tk (Some (refusal tk)) c = (Inr PH_idle, c)"
    using c by (simp add: relayed_def op_bind_def throw_if_closed_def reading_def Let_def each_record_refused
        find_refusal op_return_def)
  obtain w where "next_due (co_repo c) = Some w" "ew_next w \<le> mo_now m"
    using c by (auto split: option.splits)
  then show ?thesis
    using c seg by (simp add: settle_def heed_changes_def end_tick_def schedule_def schedule_delay_def)
qed

lemma refused_tick:
  assumes "refused m tk c"
  shows "advance o' m EV_timer (c\<lparr>co_phase := PH_idle, co_timer := Some 0\<rparr>)
    = c\<lparr>co_phase := PH_authorizing, co_timer := None, co_tick := co_tick c + 1\<rparr>"
  using assms by (simp add: refused_def Let_def tick_def begin_tick_def)

lemma refused_claim:
  assumes "refused m tk c" "sg_signed (tk_saga tk) = Some e"
  shows "run_claim o' m servers (tk_relays tk) (c\<lparr>co_phase := ph, co_timer := x, co_tick := n\<rparr>)
    = (Inr (PH_relaying tk), c\<lparr>co_phase := ph, co_timer := x, co_tick := n,
        co_sent := co_sent c @ [(tk_saga tk, e, tk_relays tk)]\<rparr>)"
proof -
  let ?g = "tk_saga tk" and ?s = "co_repo c"
  note c = assms(1) [unfolded refused_def Let_def]
  have "begin_refresh now lead ?s = (Inr False, ?s)" for now lead
    using c by (simp add: begin_refresh_def split: option.split)
  moreover have "reuse_complete ?s = ?s" using c by (simp add: reuse_complete_def)
  then have "claim_publication (mo_now m) servers ?s = (Inr (Some ?g), ?s)"
    using c by (auto simp: claim_publication_def Let_def split: option.split)
  moreover have "ensure_work (sg_batch ?g) W_replica (sg_destinations ?g) now ?s = ?s"
    "ensure_work (sg_batch ?g) W_relay (tk_relays tk) now ?s = ?s" for now
    using c by (simp_all add: ensure_work_present)
  moreover have "\<lparr>tk_saga = ?g, tk_relays = tk_relays tk\<rparr> = tk" by simp
  ultimately show ?thesis
    using c assms(2)
    by (simp add: run_claim_def op_bind_def throw_if_closed_def from_repo_def reading_def on_repo_def run_sign_def
        run_relays_def the_event_def Let_def)
qed

lemma refused_cycle:
  assumes "refused m tk c" "sg_signed (tk_saga tk) = Some e"
  shows "fold (advance o' m) [EV_relayed (Some (refusal tk)), EV_timer, EV_authorized True servers (tk_relays tk)] c
    = c\<lparr>co_timer := None, co_tick := co_tick c + 1, co_sent := co_sent c @ [(tk_saga tk, e, tk_relays tk)]\<rparr>"
proof -
  let ?d = "c\<lparr>co_phase := PH_authorizing, co_timer := None, co_tick := co_tick c + 1\<rparr>"
  have ph: "co_phase c = PH_relaying tk" using assms(1) by (simp add: refused_def Let_def)
  have "advance o' m (EV_authorized True servers (tk_relays tk)) ?d
    = c\<lparr>co_timer := None, co_tick := co_tick c + 1, co_sent := co_sent c @ [(tk_saga tk, e, tk_relays tk)]\<rparr>"
    using ph refused_claim [OF assms] by (simp add: settle_def heed_changes_def)
  then show ?thesis
    by (simp only: fold_simps refused_again [OF assms(1)] refused_tick [OF assms(1)])
qed

text \<open>
  C29: The backoff is lost before the first acknowledgement: when every relay has refused the
  event once and the time of one of them has come, the coordinator asks all the relays again and
  again, as often as they refuse: after each refusal its timer is set to a delay of 0, and neither
  the attempts nor the times of the rows change, so that neither the limit of the attempts nor the
  growing delay ever has an effect.
\<close>

theorem refused_relays_spin:
  assumes "refused m tk c"
  shows "\<exists>c'. fold (advance o' m) (concat (replicate n
        [EV_relayed (Some (refusal tk)), EV_timer, EV_authorized True servers (tk_relays tk)])) c = c'
    \<and> co_repo c' = co_repo c \<and> co_phase c' = PH_relaying tk
    \<and> co_timer (advance o' m (EV_relayed (Some (refusal tk))) c') = Some 0
    \<and> (\<exists>e. sg_signed (tk_saga tk) = Some e
        \<and> co_sent c' = co_sent c @ replicate n (tk_saga tk, e, tk_relays tk))"
  using assms
proof (induction n arbitrary: c)
  case 0
  then show ?case using refused_again [OF 0, of o'] by (auto simp: refused_def Let_def)
next
  case (Suc n)
  obtain e where e: "sg_signed (tk_saga tk) = Some e" using Suc.prems by (auto simp: refused_def Let_def)
  define d where "d = c\<lparr>co_timer := None, co_tick := co_tick c + 1, co_sent := co_sent c @ [(tk_saga tk, e, tk_relays tk)]\<rparr>"
  have "refused m tk d" using Suc.prems by (simp add: d_def refused_def)
  note ih = Suc.IH [OF this]
  have "fold (advance o' m) (concat (replicate (Suc n)
        [EV_relayed (Some (refusal tk)), EV_timer, EV_authorized True servers (tk_relays tk)])) c
    = fold (advance o' m) (concat (replicate n
        [EV_relayed (Some (refusal tk)), EV_timer, EV_authorized True servers (tk_relays tk)])) d"
    unfolding d_def refused_cycle [OF Suc.prems e, of o' servers, symmetric] by simp
  moreover have "co_repo d = co_repo c" "co_sent d = co_sent c @ [(tk_saga tk, e, tk_relays tk)]" by (simp_all add: d_def)
  ultimately show ?case using ih e by (simp del: advance.simps add: replicate_append_same [symmetric])
qed

definition refused_work :: endpoint_work where
  "refused_work = \<lparr>ew_batch = 1, ew_kind = W_relay, ew_target = js ''r'', ew_status = W_retry, ew_attempts = 1,
     ew_next = 40, ew_code = C_unavailable\<rparr>"

definition refused_coordinator :: "raw_publication list sel_state \<Rightarrow> event_task \<Rightarrow> raw_publication list coordinator" where
  "refused_coordinator sel tk = (fresh_coordinator
     (resumed_repository\<lparr>wr_sagas := [tk_saga tk], wr_work := [refused_work]\<rparr>) sel)\<lparr>co_phase := PH_relaying tk\<rparr>"

theorem refused_relays_spin_witness:
  "\<forall>sel. \<exists>c c'. length (co_sent c) = 0 \<and> length (co_sent c') = 1000 \<and> co_repo c' = co_repo c
    \<and> fold (advance sample_options \<lparr>mo_now = 40, mo_commit = True, mo_clock = (\<lambda>i. 40)\<rparr>)
        (concat (replicate 1000 [EV_relayed (Some [(js ''r'', False)]), EV_timer, EV_authorized True [js ''s''] [js ''r'']])) c = c'"
proof
  fix sel
  let ?g = "resumed_saga\<lparr>sg_signed := Some sample_raw\<rparr>" and ?m = "\<lparr>mo_now = 40, mo_commit = True, mo_clock = (\<lambda>i. 40)\<rparr>"
  let ?tk = "\<lparr>tk_saga = ?g, tk_relays = [js ''r'']\<rparr>"
  let ?c = "refused_coordinator sel ?tk"
  have "refused ?m ?tk ?c"
    by (simp add: refused_def Let_def refused_coordinator_def fresh_coordinator_def resumed_saga_def given_def js_simps
        resumed_repository_def refused_work_def has_key_def work_key_def next_due_def endpoint_works_def
        ordered_work_def claimable_def)
  note spin = refused_relays_spin [OF this, of sample_options 1000 "[js ''s'']"]
  have r: "refusal ?tk = [(js ''r'', False)]" by (simp add: refusal_def)
  have sent: "co_sent ?c = []" by (simp add: refused_coordinator_def fresh_coordinator_def)
  obtain c' e where "co_repo c' = co_repo ?c" "co_sent c' = replicate 1000 (?g, e, [js ''r''])"
    "fold (advance sample_options ?m) (concat (replicate 1000
        [EV_relayed (Some [(js ''r'', False)]), EV_timer, EV_authorized True [js ''s''] [js ''r'']])) ?c = c'"
    using spin unfolding r sent append_Nil by auto
  then show "\<exists>c c'. length (co_sent c) = 0 \<and> length (co_sent c') = 1000 \<and> co_repo c' = co_repo c
    \<and> fold (advance sample_options ?m)
        (concat (replicate 1000 [EV_relayed (Some [(js ''r'', False)]), EV_timer, EV_authorized True [js ''s''] [js ''r'']])) c = c'"
    using sent by (intro exI [of _ ?c] exI [of _ c'] conjI) (simp_all only: length_replicate list.size)
qed

end
