(* ===== verification/Js_Number.thy ===== *)
theory Js_Number
  imports Prelude "HOL-Library.Log_Nat"
begin

section \<open>Numbers of the language\<close>

text \<open>
  The Number of a text, \<open>Number(s)\<close>, as the configuration uses it: the value of the
  literal, rounded to a double. A finite double is the rational that it is; the sign of zero
  is not kept, since nothing here sees it.
\<close>

datatype number = NU_nan | NU_inf bool | NU_fin rat

text \<open>The nearest double, ties to even; from \<open>2 ^ 1024 - 2 ^ 970\<close> on it is infinite.\<close>

definition pow2 :: "int \<Rightarrow> rat" where
  "pow2 e = (if e \<ge> 0 then 2 ^ nat e else 1 / 2 ^ nat (- e))"

definition round_even :: "rat \<Rightarrow> int" where
  "round_even q = (let f = \<lfloor>q\<rfloor>; r = q - of_int f in
     if r < 1 / 2 \<or> (r = 1 / 2 \<and> even f) then f else f + 1)"

definition log2_floor :: "rat \<Rightarrow> int" where
  "log2_floor q = (case quotient_of q of (n, d) \<Rightarrow>
     (let k = int (floorlog 2 (nat n)) - int (floorlog 2 (nat d)) in if pow2 k \<le> q then k else k - 1))"

definition to_double :: "rat \<Rightarrow> number" where
  "to_double q =
     (if q < 0 then NU_nan
      else if q \<le> 9007199254740992 \<and> q = of_int \<lfloor>q\<rfloor> then NU_fin q
      else (let e = max (- 1074) (log2_floor q - 52); v = of_int (round_even (q / pow2 e)) * pow2 e in
        if v \<ge> 2 ^ 1024 then NU_inf False else NU_fin v))"

fun negate :: "number \<Rightarrow> number" where
  "negate NU_nan = NU_nan"
| "negate (NU_inf b) = NU_inf (\<not> b)"
| "negate (NU_fin q) = NU_fin (- q)"

text \<open>A double by its pattern.\<close>

definition number_of_pattern :: "64 word \<Rightarrow> number" where
  "number_of_pattern w =
     (let e = uint (take_bit 11 (drop_bit 52 w)); m = uint (take_bit 52 w);
          v = (if e = 2047 then (if m = 0 then NU_inf False else NU_nan)
               else if e = 0 then NU_fin (of_int m * pow2 (- 1074))
               else NU_fin (of_int (m + 2 ^ 52) * pow2 (e - 1075))) in
      if bit w 63 then negate v else v)"

text \<open>The literals.\<close>

definition radix_digit :: "nat \<Rightarrow> nat option" where
  "radix_digit u = (if is_digit u then Some (u - 48) else if is_lower u then Some (u - 87)
     else if is_upper u then Some (u - 55) else None)"

definition radix_value :: "nat \<Rightarrow> jstr \<Rightarrow> nat option" where
  "radix_value r s =
     (if s = [] then None
      else foldl (\<lambda>acc u. case (acc, radix_digit u) of (Some n, Some d) \<Rightarrow> if d < r then Some (r * n + d) else None
          | _ \<Rightarrow> None) (Some 0) s)"

definition exponent_part :: "jstr \<Rightarrow> int option" where
  "exponent_part s =
     (case s of [] \<Rightarrow> Some 0
      | u # r \<Rightarrow>
         if u \<noteq> 101 \<and> u \<noteq> 69 then None
         else
          (let (neg, ds) = (case r of [] \<Rightarrow> (False, r)
              | v # r' \<Rightarrow> if v = 45 then (True, r') else if v = 43 then (False, r') else (False, r)) in
           if ds = [] \<or> \<not> list_all is_digit ds then None
           else Some (if neg then - int (dec_value ds) else int (dec_value ds))))"

definition pow10 :: "int \<Rightarrow> rat" where
  "pow10 e = (if e \<ge> 0 then 10 ^ nat e else 1 / 10 ^ nat (- e))"

definition decimal_literal :: "jstr \<Rightarrow> number option" where
  "decimal_literal s =
     (if s = js ''Infinity'' then Some (NU_inf False)
      else
       (let whole = takeWhile is_digit s; r = dropWhile is_digit s;
            (frac, r') = (case r of [] \<Rightarrow> ([], r)
              | u # t \<Rightarrow> if u = 46 then (takeWhile is_digit t, dropWhile is_digit t) else ([], r)) in
        if whole = [] \<and> frac = [] then None
        else map_option (\<lambda>e. to_double (of_nat (dec_value (whole @ frac)) * pow10 (e - int (length frac))))
          (exponent_part r')))"

definition signed_literal :: "jstr \<Rightarrow> number option" where
  "signed_literal s =
     (case s of [] \<Rightarrow> None
      | u # r \<Rightarrow> if u = 45 then map_option negate (decimal_literal r)
                 else if u = 43 then decimal_literal r else decimal_literal s)"

definition js_number :: "jstr \<Rightarrow> number" where
  "js_number t =
     (let s = trim t; prefix = take 2 s; ds = drop 2 s; radix = (\<lambda>r.
          case radix_value r ds of None \<Rightarrow> NU_nan | Some n \<Rightarrow> to_double (of_nat n)) in
      if s = [] then NU_fin 0
      else if prefix = js ''0x'' \<or> prefix = js ''0X'' then radix 16
      else if prefix = js ''0o'' \<or> prefix = js ''0O'' then radix 8
      else if prefix = js ''0b'' \<or> prefix = js ''0B'' then radix 2
      else (case signed_literal s of None \<Rightarrow> NU_nan | Some v \<Rightarrow> v))"

text \<open>\<open>Number.isSafeInteger\<close>, \<open>Number.isFinite\<close> and \<open><\<close>.\<close>

definition safe_value :: "number \<Rightarrow> int option" where
  "safe_value v = (case v of NU_fin q \<Rightarrow> if q = of_int \<lfloor>q\<rfloor> \<and> safe_int \<lfloor>q\<rfloor> then Some \<lfloor>q\<rfloor> else None | _ \<Rightarrow> None)"

definition finite_less :: "number \<Rightarrow> number \<Rightarrow> bool" where
  "finite_less a b = (case (a, b) of (NU_fin x, NU_fin y) \<Rightarrow> x < y | _ \<Rightarrow> False)"

text \<open>A plain decimal below the limit is read as it is written.\<close>

lemma safe_value_fin [simp]: "safe_value (NU_fin (of_int n)) = (if safe_int n then Some n else None)"
  by (simp add: safe_value_def)

lemma to_double_small: "n \<le> 9007199254740992 \<Longrightarrow> to_double (of_nat n) = NU_fin (of_nat n)"
proof -
  assume n: "n \<le> 9007199254740992"
  have "(of_nat n :: rat) \<le> of_nat 9007199254740992" using n by (rule of_nat_mono)
  then show ?thesis by (simp add: to_double_def)
qed

lemma decimal_literal_digits:
  assumes "s \<noteq> []" "list_all is_digit s" "dec_value s \<le> 9007199254740992"
  shows "decimal_literal s = Some (NU_fin (of_nat (dec_value s)))"
proof -
  have "s \<noteq> js ''Infinity''"
    using assms(2) by (auto simp: js_simps is_digit_def)
  moreover have parts: "takeWhile is_digit s = s" "dropWhile is_digit s = []"
    using assms(2) by (simp_all add: list_all_iff)
  ultimately show ?thesis
    using assms(1,3) by (simp add: parts decimal_literal_def exponent_part_def pow10_def to_double_small Let_def)
qed

lemma trim_plain:
  assumes "s \<noteq> []" "\<not> is_space (hd s)" "\<not> is_space (List.last s)"
  shows "trim s = s"
proof -
  have "dropWhile is_space s = s" using assms(1,2) by (cases s) auto
  moreover have "dropWhile is_space (rev s) = rev s" using assms(1,3) by (cases s rule: rev_cases) auto
  ultimately show ?thesis by (simp add: trim_def)
qed

lemma js_number_digits:
  assumes "s \<noteq> []" "list_all is_digit s" "dec_value s \<le> 9007199254740992"
  shows "js_number s = NU_fin (of_nat (dec_value s))"
proof -
  have d: "is_digit u" if "u \<in> set s" for u using assms(2) that by (simp add: list_all_iff)
  have "trim s = s"
    using assms(1) d [of "hd s"] d [of "List.last s"] by (intro trim_plain) (auto simp: is_digit_def is_space_def)
  moreover have "take 2 s \<noteq> [48, x]" if "\<not> is_digit x" for x
  proof
    assume "take 2 s = [48, x]"
    then have "x \<in> set (take 2 s)" by simp
    then show False using d [of x] that by (auto dest: in_set_takeD)
  qed
  moreover have "signed_literal s = decimal_literal s"
    using assms(1) d [of "hd s"] by (cases s) (auto simp: signed_literal_def is_digit_def)
  ultimately show ?thesis
    using assms decimal_literal_digits [OF assms]
    by (simp add: js_number_def Let_def js_simps is_digit_def)
qed

end
