(* ===== verification/Config.thy ===== *)
theory Config
  imports Js_Number Safe_Fetcher Base64 Write_State
begin

section \<open>The configuration (config/config.ts)\<close>

text \<open>
  \<^verbatim>\<open>src/config/config.ts\<close> turns a raw configuration, an object of JSON values, into a
  validated one or into all its diagnostics. A section of the code is a function that returns the
  diagnostics it adds and a value, or none where it throws a \<open>TypeError\<close> (a text method on
  a value that is no text); the sections are composed by \<open>also_then\<close>. The texts of the messages
  are left out. The parsers of URLs, of NIP-19, of bech32 and of nbunksec are parameters.
\<close>

datatype diag_code = DG_required | DG_invalid | DG_range

record diagnostic =
  dg_field :: jstr
  dg_code :: diag_code

definition diag :: "diag_code \<Rightarrow> string \<Rightarrow> diagnostic" where
  "diag code field = \<lparr>dg_field = js field, dg_code = code\<rparr>"

definition diag_at :: "diag_code \<Rightarrow> string \<Rightarrow> nat \<Rightarrow> diagnostic" where
  "diag_at code field i = \<lparr>dg_field = js field @ js ''['' @ dec_digits i @ js '']'', dg_code = code\<rparr>"

type_synonym 'a checked = "(diagnostic list \<times> 'a) option"

definition also_then :: "'a checked \<Rightarrow> ('a \<Rightarrow> 'b checked) \<Rightarrow> 'b checked" where
  "also_then m f = (case m of None \<Rightarrow> None
     | Some (ds, x) \<Rightarrow> (case f x of None \<Rightarrow> None | Some (es, y) \<Rightarrow> Some (ds @ es, y)))"

definition fine :: "'a \<Rightarrow> 'a checked" where
  "fine x = Some ([], x)"

definition complain :: "bool \<Rightarrow> diagnostic \<Rightarrow> unit checked" where
  "complain bad d = Some (if bad then [d] else [], ())"

text \<open>Nothing was complained of: every part went well.\<close>

lemma also_then_fine: "also_then m f = Some ([], y) \<longleftrightarrow> (\<exists>x. m = Some ([], x) \<and> f x = Some ([], y))"
  by (auto simp: also_then_def split: option.splits prod.splits)

lemma fine_fine [simp]: "fine x = Some ([], y) \<longleftrightarrow> y = x"
  by (auto simp: fine_def)

lemma complain_fine [simp]: "complain bad d = Some ([], u) \<longleftrightarrow> \<not> bad"
  by (simp add: complain_def)

subsection \<open>What it is given\<close>

datatype nip19 = N19_npub jstr | N19_naddr int jstr jstr | N19_other

record config_env =
  ce_url :: "jsval \<Rightarrow> url option"
  ce_nip19 :: "jstr \<Rightarrow> nip19 option"
  ce_bech32 :: "jstr \<Rightarrow> (jstr \<times> bytes) option"
  ce_nbunksec :: "jstr \<Rightarrow> bool"

datatype signer_override = SO_nsec jstr | SO_ncryptsec jstr | SO_nbunksec jstr

datatype native_text = TN_text jstr | TN_number number

definition number_of_text :: "native_text \<Rightarrow> number" where
  "number_of_text t = (case t of TN_text s \<Rightarrow> js_number s | TN_number v \<Rightarrow> v)"

datatype list_input = LI_text jstr | LI_items "jstr list"

record raw_config =
  rc_host :: "jstr option"
  rc_port :: "native_text option"
  rc_caches :: "list_input option"
  rc_relays :: "list_input option"
  rc_bootstrap :: "list_input option"
  rc_servers :: "list_input option"
  rc_database :: "jstr option"
  rc_writable :: "jsval option"
  rc_limits :: "(jstr \<times> native_text) list"

subsection \<open>What it returns\<close>

record config_identity =
  ci_kind :: int
  ci_pubkey :: jstr
  ci_identifier :: jstr

record writable_identity =
  wi_kind :: int
  wi_identifier :: jstr

datatype config_signer = SG_local jstr | SG_nip46 jstr | SG_ncryptsec jstr | SG_nsec jstr | SG_nbunksec jstr

datatype write_intent = WI_disabled | WI_signer writable_identity config_signer

record writable_config =
  wc_identity :: writable_identity
  wc_signer :: config_signer
  wc_directory :: jstr
  wc_body :: int
  wc_aggregate :: int
  wc_keys :: "jstr list"
  wc_lifetime :: int
  wc_quiet :: int
  wc_relay :: "url option"
  wc_concurrency :: int
  wc_attempts :: int

record config =
  cf_host :: jstr
  cf_port :: int
  cf_publishers :: "jstr list"
  cf_relays :: "url list"
  cf_bootstrap :: "url list"
  cf_servers :: "url list"
  cf_database :: jstr
  cf_identities :: "jstr list"
  cf_intent :: write_intent
  cf_writable :: "writable_config option"
  cf_limits :: "(jstr \<times> int) list"

text \<open>\<open>LIMIT_SPECS\<close>: default and ceiling.\<close>

definition limit_specs :: "(jstr \<times> int \<times> int) list" where
  "limit_specs =
     [(js ''manifestWireBytes'', 4 * 1024 * 1024, 32 * 1024 * 1024),
      (js ''decodedMetadataBytes'', 1024 * 1024, 8 * 1024 * 1024),
      (js ''blobTransferBytes'', 256 * 1024 * 1024, 4 * 1024 * 1024 * 1024),
      (js ''requestTransferBytes'', 1024 * 1024 * 1024, 8 * 1024 * 1024 * 1024),
      (js ''requestOutputBytes'', 1024 * 1024 * 1024, 8 * 1024 * 1024 * 1024),
      (js ''traversalDepth'', 32, 128),
      (js ''linksPerNode'', 174, 1024),
      (js ''uniqueManifestNodes'', 2048, 16384),
      (js ''totalDecodedManifestBytes'', 64 * 1024 * 1024, 512 * 1024 * 1024),
      (js ''sourceAttempts'', 10, 32),
      (js ''maxRedirects'', 3, 8),
      (js ''connectTimeoutMs'', 5000, 30000),
      (js ''idleTimeoutMs'', 30000, 300000),
      (js ''totalTimeoutMs'', 300000, 1800000),
      (js ''concurrentFetches'', 8, 64),
      (js ''manifestCacheEntries'', 1024, 16384),
      (js ''manifestCacheBytes'', 64 * 1024 * 1024, 512 * 1024 * 1024)]"

subsection \<open>Native types (normalizeRawConfig)\<close>

text \<open>\<open>isPlainObject\<close>, and \<open>String\<close> followed by \<open>Number\<close> on any value.\<close>

fun the_props :: "jsval \<Rightarrow> props option" where
  "the_props (V_Obj ps) = Some ps"
| "the_props (V_Inst ps) = Some ps"
| "the_props _ = None"

fun native_number :: "jsval \<Rightarrow> number option" where
  "native_number (V_Int n) = Some (NU_fin (of_int n))"
| "native_number (V_Float w) = Some (number_of_pattern w)"
| "native_number _ = None"

definition text_or_number :: "jsval \<Rightarrow> native_text option" where
  "text_or_number v = (case v of V_Str s \<Rightarrow> Some (TN_text s) | _ \<Rightarrow> map_option TN_number (native_number v))"

definition string_field :: "string \<Rightarrow> props \<Rightarrow> jstr option checked" where
  "string_field f raw = (case map_of raw (js f) of None \<Rightarrow> fine None
     | Some v \<Rightarrow> (case the_string v of None \<Rightarrow> Some ([diag DG_invalid f], None) | Some s \<Rightarrow> fine (Some s)))"

definition number_field :: "string \<Rightarrow> props \<Rightarrow> native_text option checked" where
  "number_field f raw = (case map_of raw (js f) of None \<Rightarrow> fine None
     | Some v \<Rightarrow> (case text_or_number v of None \<Rightarrow> Some ([diag DG_invalid f], None) | Some t \<Rightarrow> fine (Some t)))"

definition list_field :: "string \<Rightarrow> props \<Rightarrow> list_input option checked" where
  "list_field f raw = (case map_of raw (js f) of None \<Rightarrow> fine None
     | Some v \<Rightarrow> (case v of V_Str s \<Rightarrow> fine (Some (LI_text s))
        | _ \<Rightarrow> (case Option.bind (the_array v) (\<lambda>vs. all_some (map the_string vs)) of
             None \<Rightarrow> Some ([diag DG_invalid f], None) | Some items \<Rightarrow> fine (Some (LI_items items)))))"

fun limit_inputs :: "(jstr \<times> int \<times> int) list \<Rightarrow> props \<Rightarrow> (jstr \<times> native_text) list checked" where
  "limit_inputs [] ps = fine []"
| "limit_inputs ((key, spec) # specs) ps =
     also_then (case map_of ps key of None \<Rightarrow> fine []
       | Some v \<Rightarrow> (case text_or_number v of
           None \<Rightarrow> Some ([\<lparr>dg_field = js ''limits.'' @ key, dg_code = DG_invalid\<rparr>], [])
         | Some t \<Rightarrow> fine [(key, t)]))
       (\<lambda>xs. also_then (limit_inputs specs ps) (\<lambda>ys. fine (xs @ ys)))"

definition limits_field :: "props \<Rightarrow> (jstr \<times> native_text) list checked" where
  "limits_field raw = (case map_of raw (js ''limits'') of None \<Rightarrow> fine []
     | Some v \<Rightarrow> (case the_props v of None \<Rightarrow> Some ([diag DG_invalid ''limits''], [])
         | Some ps \<Rightarrow> limit_inputs limit_specs ps))"

definition writable_field :: "props \<Rightarrow> jsval option checked" where
  "writable_field raw = (case map_of raw (js ''writable'') of None \<Rightarrow> fine None
     | Some v \<Rightarrow> (if the_props v = None then Some ([diag DG_invalid ''writable''], None) else fine (Some v)))"

definition normalize_raw :: "props \<Rightarrow> raw_config checked" where
  "normalize_raw raw =
     also_then (string_field ''bindHost'' raw) (\<lambda>host.
     also_then (string_field ''databasePath'' raw) (\<lambda>database.
     also_then (number_field ''bindPort'' raw) (\<lambda>port.
     also_then (list_field ''caches'' raw) (\<lambda>caches.
     also_then (list_field ''extraRelays'' raw) (\<lambda>relays.
     also_then (list_field ''bootstrapRelays'' raw) (\<lambda>bootstrap.
     also_then (list_field ''extraServers'' raw) (\<lambda>servers.
     also_then (limits_field raw) (\<lambda>limits.
     also_then (writable_field raw) (\<lambda>writable.
     fine \<lparr>rc_host = host, rc_port = port, rc_caches = caches, rc_relays = relays, rc_bootstrap = bootstrap,
       rc_servers = servers, rc_database = database, rc_writable = writable, rc_limits = limits\<rparr>)))))))))"

definition list_values :: "list_input option \<Rightarrow> jstr list" where
  "list_values x = filter (\<lambda>s. s \<noteq> []) (map trim (case x of None \<Rightarrow> []
     | Some (LI_text s) \<Rightarrow> split_on 44 s | Some (LI_items ss) \<Rightarrow> ss))"

subsection \<open>Identities\<close>

definition valid_cache_identifier :: "jstr \<Rightarrow> bool" where
  "valid_cache_identifier i \<longleftrightarrow> length (utf8 i) > 0 \<and> length (utf8 i) \<le> 64 \<and> 58 \<notin> set i
     \<and> \<not> list_ex (\<lambda>u. is_space u \<or> u < 32 \<or> u = 127) i"

text \<open>\<open>/^(17091|37091):([0-9a-f]{64}):(.*)$/\<close>; none when a diagnostic is added.\<close>

definition identity_match :: "jstr \<Rightarrow> config_identity option" where
  "identity_match s =
     (let kind = take 6 s; key = take 64 (drop 6 s); identifier = drop 71 s in
      if (kind = js ''17091:'' \<or> kind = js ''37091:'') \<and> length key = 64 \<and> list_all is_lower_hex key
         \<and> take 1 (drop 70 s) = js '':'' \<and> \<not> list_ex line_terminator identifier
      then Some \<lparr>ci_kind = (if kind = js ''17091:'' then 17091 else 37091), ci_pubkey = key, ci_identifier = identifier\<rparr>
      else None)"

definition parse_cache_identity :: "jstr \<Rightarrow> config_identity option" where
  "parse_cache_identity s =
     (case identity_match s of None \<Rightarrow> None
      | Some x \<Rightarrow> if (ci_kind x = 17091 \<and> ci_identifier x \<noteq> [])
                    \<or> (ci_kind x = 37091 \<and> \<not> valid_cache_identifier (ci_identifier x))
                  then None else Some x)"

definition root_identity :: "jstr \<Rightarrow> config_identity" where
  "root_identity key = \<lparr>ci_kind = 17091, ci_pubkey = key, ci_identifier = []\<rparr>"

definition parse_read_identity :: "config_env \<Rightarrow> jstr \<Rightarrow> config_identity option" where
  "parse_read_identity env s =
     (if length s = 64 \<and> list_all is_lower_hex s then Some (root_identity s)
      else if starts_with (js ''npub1'') s \<or> starts_with (js ''naddr1'') s
      then (case ce_nip19 env s of None \<Rightarrow> None
        | Some (N19_npub key) \<Rightarrow> Some (root_identity key)
        | Some (N19_naddr kind key identifier) \<Rightarrow>
            if kind = 37091 then parse_cache_identity (js ''37091:'' @ key @ js '':'' @ identifier) else None
        | Some N19_other \<Rightarrow> None)
      else parse_cache_identity s)"

definition format_identity :: "config_identity \<Rightarrow> jstr" where
  "format_identity x = dec_digits (nat (ci_kind x)) @ js '':'' @ ci_pubkey x @ js '':'' @ ci_identifier x"

definition identity_step ::
  "config_env \<Rightarrow> nat \<times> jstr \<Rightarrow> diagnostic list \<times> config_identity list \<Rightarrow> diagnostic list \<times> config_identity list" where
  "identity_step env = (\<lambda>(i, s) (ds, ids).
     (case parse_read_identity env s of
        None \<Rightarrow> (ds @ [diag_at DG_invalid ''caches'' i], ids)
      | Some x \<Rightarrow> ((if format_identity x \<in> format_identity ` set ids then ds @ [diag_at DG_invalid ''caches'' i] else ds),
          ids @ [x])))"

definition identities_section :: "config_env \<Rightarrow> jstr list \<Rightarrow> config_identity list checked" where
  "identities_section env ss =
     also_then (complain (length ss > 32) (diag DG_range ''caches''))
       (\<lambda>u. Some (fold (identity_step env) (enumerate 0 ss) ([], [])))"

subsection \<open>URLs\<close>

definition url_href :: "url \<Rightarrow> jstr" where
  "url_href u = ur_protocol u @ js ''//''
     @ (if ur_username u = [] \<and> ur_password u = [] then []
        else ur_username u @ (if ur_password u = [] then [] else js '':'' @ ur_password u) @ js ''@'')
     @ url_host u @ ur_path u
     @ (case ur_query u of None \<Rightarrow> [] | Some q \<Rightarrow> js ''?'' @ q)
     @ (case ur_fragment u of None \<Rightarrow> [] | Some f \<Rightarrow> js ''#'' @ f)"

definition anonymous :: "url \<Rightarrow> bool" where
  "anonymous u \<longleftrightarrow> ur_username u = [] \<and> ur_password u = []"

definition is_ws :: "url \<Rightarrow> bool" where
  "is_ws u \<longleftrightarrow> ur_protocol u = js ''ws:'' \<or> ur_protocol u = js ''wss:''"

definition relay_step ::
  "config_env \<Rightarrow> string \<Rightarrow> nat \<times> jstr \<Rightarrow> diagnostic list \<times> url list \<Rightarrow> diagnostic list \<times> url list" where
  "relay_step env field = (\<lambda>(i, s) (ds, urls).
     (case ce_url env (V_Str s) of
        None \<Rightarrow> (ds @ [diag_at DG_invalid field i], urls)
      | Some u \<Rightarrow> if \<not> is_ws u \<or> \<not> anonymous u \<or> url_href u \<in> url_href ` set urls
                  then (ds @ [diag_at DG_invalid field i], urls) else (ds, urls @ [u])))"

definition relays_section :: "config_env \<Rightarrow> string \<Rightarrow> jstr list \<Rightarrow> url list checked" where
  "relays_section env field ss =
     also_then (complain (length ss > 32) (diag DG_range field))
       (\<lambda>u. Some (fold (relay_step env field) (enumerate 0 ss) ([], [])))"

definition default_bootstrap :: "jstr list" where
  "default_bootstrap = [js ''wss://purplepag.es/'', js ''wss://index.hzrd149.com/'']"

definition bootstrap_section :: "config_env \<Rightarrow> list_input option \<Rightarrow> url list checked" where
  "bootstrap_section env x =
     also_then (relays_section env ''bootstrapRelays'' (if x = None then default_bootstrap else list_values x)) (\<lambda>urls.
     also_then (complain (urls = []) (diag DG_required ''bootstrapRelays'')) (\<lambda>u. fine urls))"

text \<open>\<open>parseUrl\<close>, the path without the slashes at its end, and the URL without the last slash.\<close>

definition parse_url :: "config_env \<Rightarrow> jstr \<Rightarrow> url option" where
  "parse_url env s = (case ce_url env (V_Str s) of None \<Rightarrow> None
     | Some u \<Rightarrow> if \<not> is_http u \<or> \<not> anonymous u then None else Some u)"

definition strip_slashes :: "jstr \<Rightarrow> jstr" where
  "strip_slashes s = rev (dropWhile (\<lambda>u. u = 47) (rev s))"

definition trim_path :: "url \<Rightarrow> url" where
  "trim_path u = u\<lparr>ur_path := (if strip_slashes (ur_path u) = [] then js ''/'' else strip_slashes (ur_path u))\<rparr>"

definition server_key :: "url \<Rightarrow> jstr" where
  "server_key u = (if ends_with (js ''/'') (url_href u) then butlast (url_href u) else url_href u)"

definition server_step ::
  "config_env \<Rightarrow> nat \<times> jstr \<Rightarrow> diagnostic list \<times> url list \<Rightarrow> diagnostic list \<times> url list" where
  "server_step env = (\<lambda>(i, s) (ds, urls).
     (let bad = (ds @ [diag_at DG_invalid ''extraServers'' i], urls) in
      case parse_url env s of None \<Rightarrow> bad
      | Some u \<Rightarrow>
          if url_search u \<noteq> [] \<or> (case ur_fragment u of None \<Rightarrow> False | Some f \<Rightarrow> f \<noteq> []) then bad
          else (let v = trim_path u in
            if server_key v \<in> server_key ` set urls then bad else (ds, urls @ [v]))))"

definition servers_section :: "config_env \<Rightarrow> jstr list \<Rightarrow> url list checked" where
  "servers_section env ss =
     also_then (complain (length ss > 32) (diag DG_range ''extraServers''))
       (\<lambda>u. Some (fold (server_step env) (enumerate 0 ss) ([], [])))"

subsection \<open>Texts, paths and numbers\<close>

text \<open>\<open>value?.trim()\<close>: an absent value and null give undefined; what is no text throws.\<close>

definition trimmed :: "jsval option \<Rightarrow> jstr option checked" where
  "trimmed v = (case v of None \<Rightarrow> fine None | Some V_Null \<Rightarrow> fine None | Some (V_Str s) \<Rightarrow> fine (Some (trim s))
     | Some x \<Rightarrow> None)"

definition owner_path :: "string \<Rightarrow> jsval option \<Rightarrow> jstr option checked" where
  "owner_path field v =
     also_then (trimmed v) (\<lambda>x. case given x of
        None \<Rightarrow> Some ([diag DG_required field], None)
      | Some p \<Rightarrow> if \<not> starts_with (js ''/'') p \<or> 0 \<in> set p then Some ([diag DG_invalid field], None) else fine (Some p))"

text \<open>\<open>Number(String(v))\<close> of a JSON value: an array is its only element, as text.\<close>

fun number_of_value :: "jsval \<Rightarrow> number" where
  "number_of_value (V_Int n) = NU_fin (of_int n)"
| "number_of_value (V_Float w) = number_of_pattern w"
| "number_of_value (V_Str s) = js_number s"
| "number_of_value (V_Arr []) = NU_fin 0"
| "number_of_value (V_Arr [V_Null]) = NU_fin 0"
| "number_of_value (V_Arr [v]) = number_of_value v"
| "number_of_value _ = NU_nan"

definition bounded_positive :: "string \<Rightarrow> int \<Rightarrow> int option \<Rightarrow> jsval option \<Rightarrow> int checked" where
  "bounded_positive field fallback highest v =
     (case safe_value (case v of None \<Rightarrow> NU_fin (of_int fallback) | Some x \<Rightarrow> number_of_value x) of
        Some n \<Rightarrow> if n \<le> 0 \<or> (case highest of None \<Rightarrow> False | Some c \<Rightarrow> n > c)
                  then Some ([diag DG_range field], fallback) else fine n
      | None \<Rightarrow> Some ([diag DG_range field], fallback))"

definition port_section :: "native_text option \<Rightarrow> int checked" where
  "port_section p =
     (let t = (case p of None \<Rightarrow> TN_text [] | Some (TN_text s) \<Rightarrow> TN_text (trim s) | Some x \<Rightarrow> x) in
      case safe_value (number_of_text (if t = TN_text [] then TN_text (js ''8787'') else t)) of
        Some n \<Rightarrow> if n < 1 \<or> n > 65535 then Some ([diag DG_range ''bindPort''], n) else fine n
      | None \<Rightarrow> Some ([diag DG_range ''bindPort''], 0))"

definition limit_number :: "(jstr \<times> native_text) list \<Rightarrow> jstr \<times> int \<times> int \<Rightarrow> number" where
  "limit_number given' = (\<lambda>(key, dflt, highest).
     (case map_of given' key of None \<Rightarrow> NU_fin (of_int dflt) | Some t \<Rightarrow> number_of_text t))"

fun checked_limits :: "(jstr \<times> native_text) list \<Rightarrow> (jstr \<times> int \<times> int) list \<Rightarrow> (jstr \<times> int) list checked" where
  "checked_limits xs [] = fine []"
| "checked_limits xs ((key, dflt, highest) # specs) =
     also_then (case safe_value (limit_number xs (key, dflt, highest)) of
         Some n \<Rightarrow> Some (if n \<le> 0 \<or> n > highest then [\<lparr>dg_field = js ''limits.'' @ key, dg_code = DG_range\<rparr>] else [], (key, n))
       | None \<Rightarrow> Some ([\<lparr>dg_field = js ''limits.'' @ key, dg_code = DG_range\<rparr>], (key, 0)))
       (\<lambda>x. also_then (checked_limits xs specs) (\<lambda>ys. fine (x # ys)))"

definition limits_section :: "(jstr \<times> native_text) list \<Rightarrow> (jstr \<times> int) list checked" where
  "limits_section xs =
     also_then (checked_limits xs limit_specs) (\<lambda>ls.
     also_then (complain (finite_less (limit_number xs (js ''totalTimeoutMs'', 300000, 1800000))
         (limit_number xs (js ''connectTimeoutMs'', 5000, 30000))) (diag DG_range ''limits.totalTimeoutMs''))
       (\<lambda>u. fine ls))"

subsection \<open>The writable cache\<close>

text \<open>\<open>object?.key\<close>; none is undefined.\<close>

definition field_of :: "jsval option \<Rightarrow> string \<Rightarrow> jsval option" where
  "field_of v key = Option.bind (Option.bind v the_props) (\<lambda>ps. map_of ps (js key))"

definition writable_enabled :: "jsval option \<Rightarrow> bool" where
  "writable_enabled w \<longleftrightarrow> field_of w ''enabled'' \<in> {Some (V_Bool True), Some (V_Str (js ''true''))}"

definition enabled_section :: "jsval option \<Rightarrow> unit checked" where
  "enabled_section w = complain (field_of w ''enabled'' \<notin> {None, Some (V_Bool True), Some (V_Bool False),
     Some (V_Str (js ''true'')), Some (V_Str (js ''false''))}) (diag DG_invalid ''writable.enabled'')"

definition identity_section :: "jsval option \<Rightarrow> writable_identity option checked" where
  "identity_section w =
     also_then (if writable_enabled w then trimmed (field_of w ''type'') else fine None) (\<lambda>kind.
     also_then (complain (writable_enabled w \<and> kind \<noteq> Some (js ''root'') \<and> kind \<noteq> Some (js ''named''))
       (diag DG_invalid ''writable.type'')) (\<lambda>u.
     also_then (trimmed (field_of w ''name'')) (\<lambda>name.
       if writable_enabled w \<and> kind = Some (js ''root'')
       then also_then (complain (field_of w ''name'' \<noteq> None) (diag DG_invalid ''writable.name''))
              (\<lambda>u. fine (Some \<lparr>wi_kind = 17091, wi_identifier = []\<rparr>))
       else if writable_enabled w \<and> kind = Some (js ''named'')
       then (case given name of
           Some n \<Rightarrow> if valid_cache_identifier n then fine (Some \<lparr>wi_kind = 37091, wi_identifier = n\<rparr>)
                     else Some ([diag DG_invalid ''writable.name''], None)
         | None \<Rightarrow> Some ([diag DG_invalid ''writable.name''], None))
       else fine None)))"

definition valid_ncryptsec :: "config_env \<Rightarrow> jstr \<Rightarrow> bool" where
  "valid_ncryptsec env s \<longleftrightarrow> length s \<le> 4096 \<and> starts_with (js ''ncryptsec1'') s
     \<and> (case ce_bech32 env s of None \<Rightarrow> False | Some (prefix, b) \<Rightarrow> prefix = js ''ncryptsec'' \<and> length b = 91
          \<and> b ! 0 = 2 \<and> b ! 1 \<ge> 16 \<and> b ! 1 \<le> 22 \<and> b ! 42 \<le> 2)"

definition valid_nbunksec :: "config_env \<Rightarrow> jstr \<Rightarrow> bool" where
  "valid_nbunksec env s \<longleftrightarrow> length s \<le> 8192 \<and> starts_with (js ''nbunksec1'') s \<and> ce_nbunksec env s"

definition override_type :: "signer_override \<Rightarrow> jstr" where
  "override_type x = (case x of SO_nsec s \<Rightarrow> js ''nsec'' | SO_ncryptsec s \<Rightarrow> js ''ncryptsec'' | SO_nbunksec s \<Rightarrow> js ''nbunksec'')"

text \<open>A secret in the file: it is checked where its mode is chosen, and refused elsewhere.\<close>

definition secret_section ::
  "(jstr \<Rightarrow> bool) \<Rightarrow> string \<Rightarrow> jstr \<Rightarrow> bool \<Rightarrow> jsval option \<Rightarrow> jstr option \<Rightarrow> jstr option checked" where
  "secret_section valid' key mode in_file w mode' =
     (let s = field_of w ''signer''; field = diag DG_invalid (''writable.signer.'' @ key) in
      if \<not> in_file then fine None
      else if mode' = Some mode
      then also_then (trimmed (field_of s key)) (\<lambda>x.
           also_then (complain (case given x of None \<Rightarrow> True | Some t \<Rightarrow> \<not> valid' t) field) (\<lambda>u.
           also_then (complain (field_of s ''path'' \<noteq> None) (diag DG_invalid ''writable.signer.path'')) (\<lambda>u. fine (given x))))
      else also_then (complain (field_of s key \<noteq> None) field) (\<lambda>u. fine None))"

definition signer_section :: "config_env \<Rightarrow> signer_override option \<Rightarrow> jsval option \<Rightarrow> config_signer option checked" where
  "signer_section env override w =
     (let enabled = writable_enabled w; s = field_of w ''signer''; in_file = (enabled \<and> override = None) in
      also_then (complain (override \<noteq> None \<and> \<not> enabled) (diag DG_invalid ''--signer'')) (\<lambda>u.
      also_then (if \<not> enabled then fine None
        else (case override of Some x \<Rightarrow> fine (Some (override_type x)) | None \<Rightarrow> trimmed (field_of s ''type''))) (\<lambda>mode.
      also_then (complain (in_file \<and> mode \<notin> {Some (js ''local''), Some (js ''nip46''), Some (js ''ncryptsec''),
        Some (js ''nbunksec'')}) (diag DG_invalid ''writable.signer.type'')) (\<lambda>u.
      also_then (if in_file \<and> (mode = Some (js ''local'') \<or> mode = Some (js ''nip46''))
        then owner_path ''writable.signer.path'' (field_of s ''path'') else fine None) (\<lambda>path.
      also_then (secret_section (valid_ncryptsec env) ''ncryptsec'' (js ''ncryptsec'') in_file w mode) (\<lambda>ncryptsec.
      also_then (secret_section (valid_nbunksec env) ''nbunksec'' (js ''nbunksec'') in_file w mode) (\<lambda>nbunksec.
        fine (case override of
            Some (SO_nsec x) \<Rightarrow> Some (SG_nsec x)
          | Some (SO_ncryptsec x) \<Rightarrow> Some (SG_ncryptsec x)
          | Some (SO_nbunksec x) \<Rightarrow> Some (SG_nbunksec x)
          | None \<Rightarrow>
             (if mode = Some (js ''nbunksec'') then map_option SG_nbunksec nbunksec
              else if mode = Some (js ''ncryptsec'') then map_option SG_ncryptsec ncryptsec
              else if mode = Some (js ''local'') then map_option SG_local path
              else if mode = Some (js ''nip46'') then map_option SG_nip46 path else None)))))))))"

text \<open>\<open>listValues\<close> of a value of any type.\<close>

definition list_values_of :: "jsval option \<Rightarrow> jstr list checked" where
  "list_values_of v = (case v of None \<Rightarrow> fine [] | Some V_Null \<Rightarrow> fine []
     | Some (V_Str s) \<Rightarrow> fine (list_values (Some (LI_text s)))
     | Some (V_Arr vs) \<Rightarrow> map_option (\<lambda>ss. ([], list_values (Some (LI_items ss)))) (all_some (map the_string vs))
     | Some x \<Rightarrow> None)"

text \<open>\<open>name:base64\<close> of 32 bytes.\<close>

definition canonical_nix_key :: "jstr \<Rightarrow> bool" where
  "canonical_nix_key key =
     (case index_of [58] key of None \<Rightarrow> False
      | Some i \<Rightarrow> i > 0 \<and> (let encoded = drop (i + 1) key in
          case atob encoded of None \<Rightarrow> False | Some b \<Rightarrow> length b = 32 \<and> btoa b = encoded))"

definition key_diags :: "jstr list \<Rightarrow> diagnostic list" where
  "key_diags keys = concat (map (\<lambda>(i, key).
     if \<not> canonical_nix_key key \<or> key \<in> set (take i keys)
     then [diag_at DG_invalid ''writable.publication.nixSigKeys'' i] else []) (enumerate 0 keys))"

definition keys_section :: "jsval option \<Rightarrow> jstr list checked" where
  "keys_section v =
     also_then (list_values_of v) (\<lambda>keys.
     also_then (complain (length keys > 32) (diag DG_range ''writable.publication.nixSigKeys'')) (\<lambda>u.
       Some (key_diags keys, keys)))"

definition truthy :: "jsval \<Rightarrow> bool" where
  "truthy v \<longleftrightarrow> v \<notin> {V_Null, V_Bool False, V_Int 0, V_Str []}
     \<and> (case v of V_Float w \<Rightarrow> number_of_pattern w \<noteq> NU_nan | _ \<Rightarrow> True)"

definition local_relay_section :: "config_env \<Rightarrow> jsval option \<Rightarrow> url option checked" where
  "local_relay_section env v =
     (case v of None \<Rightarrow> fine None
      | Some x \<Rightarrow>
         if \<not> truthy x then fine None
         else (case ce_url env x of
             None \<Rightarrow> Some ([diag DG_invalid ''writable.publication.localRelayUrl''], None)
           | Some u \<Rightarrow> if \<not> is_ws u \<or> \<not> anonymous u
                       then Some ([diag DG_invalid ''writable.publication.localRelayUrl''], None) else fine (Some u)))"

definition writable_section ::
  "config_env \<Rightarrow> signer_override option \<Rightarrow> jsval option \<Rightarrow> writable_config option checked" where
  "writable_section env override w =
     (let enabled = writable_enabled w; staging = field_of w ''staging''; publication = field_of w ''publication'';
          if_enabled = (\<lambda>v. if enabled then v else None) in
      also_then (enabled_section w) (\<lambda>u.
      also_then (identity_section w) (\<lambda>identity.
      also_then (signer_section env override w) (\<lambda>signer.
      also_then (if enabled then owner_path ''writable.staging.directory'' (field_of staging ''directory'') else fine None) (\<lambda>directory.
      also_then (bounded_positive ''writable.staging.bodyBytes'' (1024 * 1024 * 1024) None
        (if_enabled (field_of staging ''bodyBytes''))) (\<lambda>body.
      also_then (bounded_positive ''writable.staging.aggregateBytes'' (8 * 1024 * 1024 * 1024) None
        (if_enabled (field_of staging ''aggregateBytes''))) (\<lambda>aggregate.
      also_then (keys_section (if_enabled (field_of publication ''nixSigKeys''))) (\<lambda>keys.
      also_then (bounded_positive ''writable.publication.lifetimeSeconds'' 2592000 (Some 31536000)
        (if_enabled (field_of publication ''lifetimeSeconds''))) (\<lambda>lifetime.
      also_then (bounded_positive ''writable.publication.quietSeconds'' 5 (Some 60)
        (if_enabled (field_of publication ''quietSeconds''))) (\<lambda>quiet.
      also_then (bounded_positive ''writable.publication.concurrency'' 2 (Some 64)
        (if_enabled (field_of publication ''concurrency''))) (\<lambda>concurrency.
      also_then (bounded_positive ''writable.publication.maxAttempts'' 8 (Some 32)
        (if_enabled (field_of publication ''maxAttempts''))) (\<lambda>attempts.
      also_then (local_relay_section env (if_enabled (field_of publication ''localRelayUrl''))) (\<lambda>relay.
      also_then (complain (aggregate < body) (diag DG_range ''writable.staging.aggregateBytes'')) (\<lambda>u.
        fine (if enabled
          then Some \<lparr>wc_identity = the identity, wc_signer = the signer, wc_directory = the directory,
            wc_body = body, wc_aggregate = aggregate, wc_keys = keys, wc_lifetime = lifetime, wc_quiet = quiet,
            wc_relay = relay, wc_concurrency = concurrency, wc_attempts = attempts\<rparr>
          else None)))))))))))))))"

subsection \<open>parseConfig\<close>

definition intent_of :: "writable_config option \<Rightarrow> write_intent" where
  "intent_of w = (case w of None \<Rightarrow> WI_disabled | Some c \<Rightarrow> WI_signer (wc_identity c) (wc_signer c))"

definition config_sections :: "config_env \<Rightarrow> signer_override option \<Rightarrow> props \<Rightarrow> config checked" where
  "config_sections env override input =
     also_then (normalize_raw input) (\<lambda>raw.
     also_then (port_section (rc_port raw)) (\<lambda>port.
     also_then (identities_section env (list_values (rc_caches raw))) (\<lambda>ids.
     also_then (relays_section env ''extraRelays'' (list_values (rc_relays raw))) (\<lambda>relays.
     also_then (bootstrap_section env (rc_bootstrap raw)) (\<lambda>bootstrap.
     also_then (servers_section env (list_values (rc_servers raw))) (\<lambda>servers.
     also_then (owner_path ''databasePath'' (map_option V_Str (rc_database raw))) (\<lambda>database.
     also_then (writable_section env override (rc_writable raw)) (\<lambda>writable.
     also_then (limits_section (rc_limits raw)) (\<lambda>limits.
       fine \<lparr>cf_host = (case given (map_option trim (rc_host raw)) of None \<Rightarrow> js ''127.0.0.1'' | Some h \<Rightarrow> h),
         cf_port = port, cf_publishers = uniq (map ci_pubkey ids), cf_relays = relays, cf_bootstrap = bootstrap,
         cf_servers = servers, cf_database = the database, cf_identities = map format_identity ids,
         cf_intent = intent_of writable, cf_writable = writable, cf_limits = limits\<rparr>)))))))))"

text \<open>None where it throws.\<close>

definition parse_config :: "config_env \<Rightarrow> signer_override option \<Rightarrow> props \<Rightarrow> (diagnostic list + config) option" where
  "parse_config env override input =
     map_option (\<lambda>(ds, c). if ds \<noteq> [] then Inl ds else Inr c) (config_sections env override input)"

end
