(* ===== verification/Config_Proofs.thy ===== *)
theory Config_Proofs
  imports Config
begin

section \<open>What a validated configuration is\<close>

text \<open>
  \<open>config_ok\<close> is the type that the rest of the program relies on: the ranges, the counts and
  the forms of everything in a configuration. The first part says what each section means when it
  has no diagnostics.
\<close>

definition absolute_path :: "jstr \<Rightarrow> bool" where
  "absolute_path p \<longleftrightarrow> starts_with (js ''/'') p \<and> 0 \<notin> set p"

definition relay_urls_ok :: "url list \<Rightarrow> bool" where
  "relay_urls_ok us \<longleftrightarrow> length us \<le> 32 \<and> distinct (map url_href us) \<and> (\<forall>u \<in> set us. is_ws u \<and> anonymous u)"

definition server_urls_ok :: "url list \<Rightarrow> bool" where
  "server_urls_ok us \<longleftrightarrow> length us \<le> 32 \<and> distinct (map server_key us)
     \<and> (\<forall>u \<in> set us. is_http u \<and> anonymous u \<and> url_search u = [] \<and> ur_path u \<noteq> [])"

definition signer_ok :: "config_env \<Rightarrow> signer_override option \<Rightarrow> config_signer \<Rightarrow> bool" where
  "signer_ok env override x \<longleftrightarrow> (case x of
     SG_local p \<Rightarrow> override = None \<and> absolute_path p
   | SG_nip46 p \<Rightarrow> override = None \<and> absolute_path p
   | SG_ncryptsec s \<Rightarrow> override = Some (SO_ncryptsec s) \<or> (override = None \<and> valid_ncryptsec env s)
   | SG_nbunksec s \<Rightarrow> override = Some (SO_nbunksec s) \<or> (override = None \<and> valid_nbunksec env s)
   | SG_nsec s \<Rightarrow> override = Some (SO_nsec s))"

definition writable_ok :: "config_env \<Rightarrow> signer_override option \<Rightarrow> writable_config \<Rightarrow> bool" where
  "writable_ok env override c \<longleftrightarrow>
     (wc_identity c = \<lparr>wi_kind = 17091, wi_identifier = []\<rparr>
       \<or> wi_kind (wc_identity c) = 37091 \<and> valid_cache_identifier (wi_identifier (wc_identity c)))
     \<and> signer_ok env override (wc_signer c) \<and> absolute_path (wc_directory c)
     \<and> 0 < wc_body c \<and> wc_body c \<le> wc_aggregate c \<and> safe_int (wc_aggregate c)
     \<and> length (wc_keys c) \<le> 32 \<and> distinct (wc_keys c) \<and> (\<forall>k \<in> set (wc_keys c). canonical_nix_key k)
     \<and> 0 < wc_lifetime c \<and> wc_lifetime c \<le> 31536000 \<and> 0 < wc_quiet c \<and> wc_quiet c \<le> 60
     \<and> 0 < wc_concurrency c \<and> wc_concurrency c \<le> 64 \<and> 0 < wc_attempts c \<and> wc_attempts c \<le> 32
     \<and> (case wc_relay c of None \<Rightarrow> True | Some u \<Rightarrow> is_ws u \<and> anonymous u)"

definition limit_of :: "config \<Rightarrow> string \<Rightarrow> int" where
  "limit_of c key = the (map_of (cf_limits c) (js key))"

definition config_ok :: "config_env \<Rightarrow> signer_override option \<Rightarrow> config \<Rightarrow> bool" where
  "config_ok env override c \<longleftrightarrow>
     cf_host c \<noteq> [] \<and> 1 \<le> cf_port c \<and> cf_port c \<le> 65535
     \<and> length (cf_identities c) \<le> 32 \<and> distinct (cf_identities c)
     \<and> (\<forall>i \<in> set (cf_identities c). canonical_writable_identity i)
     \<and> distinct (cf_publishers c) \<and> set (cf_publishers c) = (\<lambda>i. take 64 (drop 6 i)) ` set (cf_identities c)
     \<and> relay_urls_ok (cf_relays c) \<and> relay_urls_ok (cf_bootstrap c) \<and> cf_bootstrap c \<noteq> []
     \<and> server_urls_ok (cf_servers c) \<and> absolute_path (cf_database c)
     \<and> map fst (cf_limits c) = map fst limit_specs
     \<and> (\<forall>(key, n) \<in> set (cf_limits c). \<exists>d h. (key, d, h) \<in> set limit_specs \<and> 0 < n \<and> n \<le> h)
     \<and> limit_of c ''connectTimeoutMs'' \<le> limit_of c ''totalTimeoutMs''
     \<and> cf_intent c = intent_of (cf_writable c)
     \<and> (case cf_writable c of None \<Rightarrow> override = None | Some w \<Rightarrow> writable_ok env override w)"

subsection \<open>Sections without diagnostics\<close>

lemma also_then_Some: "also_then m f = Some ([], y) \<Longrightarrow> (\<And>x. m = Some ([], x) \<Longrightarrow> f x = Some ([], y) \<Longrightarrow> P) \<Longrightarrow> P"
  by (auto simp: also_then_fine)

text \<open>A loop that only adds diagnostics.\<close>

lemma fold_clean:
  assumes "\<And>x ds a ds' a'. step x (ds, a) = (ds', a') \<Longrightarrow> ds' = [] \<Longrightarrow> ds = [] \<and> (I a \<longrightarrow> I a')"
    and "fold step xs ([], a) = ([], r)" "I a"
  shows "I r"
proof -
  have "fst (fold step xs s) = [] \<Longrightarrow> fst s = [] \<and> (I (snd s) \<longrightarrow> I (snd (fold step xs s)))" for s
  proof (induction xs arbitrary: s)
    case (Cons x xs)
    obtain ds a ds' a' where s: "s = (ds, a)" "step x s = (ds', a')" by (metis surj_pair)
    have "fst (step x s) = [] \<and> (I (snd (step x s)) \<longrightarrow> I (snd (fold step xs (step x s))))"
      using Cons.IH [of "step x s"] Cons.prems by simp
    then show ?case using assms(1) [of x ds a ds' a'] s by auto
  qed simp
  from this [of "([], a)"] assms(2,3) show ?thesis by simp
qed

lemma fold_length:
  assumes "\<And>x ds a. length (snd (step x (ds, a))) \<le> Suc (length a)" "fold step xs s = (es, r)"
  shows "length r \<le> length (snd s) + length xs"
proof -
  have "length (snd (fold step xs s)) \<le> length (snd s) + length xs"
  proof (induction xs arbitrary: s)
    case (Cons x xs)
    show ?case using Cons.IH [of "step x s"] assms(1) [of x "fst s" "snd s"] by simp
  qed simp
  then show ?thesis using assms(2) by simp
qed

subsection \<open>Identities\<close>

definition npub_ok :: "config_env \<Rightarrow> bool" where
  "npub_ok env \<longleftrightarrow> (\<forall>s key. ce_nip19 env s = Some (N19_npub key) \<longrightarrow> length key = 64 \<and> list_all is_lower_hex key)"

definition identity_ok :: "config_identity \<Rightarrow> bool" where
  "identity_ok x \<longleftrightarrow> length (ci_pubkey x) = 64 \<and> list_all is_lower_hex (ci_pubkey x)
     \<and> (ci_kind x = 17091 \<and> ci_identifier x = [] \<or> ci_kind x = 37091 \<and> valid_cache_identifier (ci_identifier x))"

lemma parse_cache_identity_ok: "parse_cache_identity s = Some x \<Longrightarrow> identity_ok x"
  by (auto simp: parse_cache_identity_def identity_match_def identity_ok_def Let_def split: option.splits if_splits)

lemma root_identity_ok: "length key = 64 \<Longrightarrow> list_all is_lower_hex key \<Longrightarrow> identity_ok (root_identity key)"
  by (simp add: identity_ok_def root_identity_def)

lemma parse_read_identity_ok:
  assumes "npub_ok env" "parse_read_identity env s = Some x"
  shows "identity_ok x"
proof (cases "length s = 64 \<and> list_all is_lower_hex s")
  case True
  then show ?thesis using assms(2) root_identity_ok [of s] by (simp add: parse_read_identity_def)
next
  case no: False
  show ?thesis
  proof (cases "starts_with (js ''npub1'') s \<or> starts_with (js ''naddr1'') s")
    case True
    then obtain n where n: "ce_nip19 env s = Some n"
      using assms(2) no unfolding parse_read_identity_def by (auto split: option.splits)
    show ?thesis
      using assms True no n root_identity_ok
      by (cases n) (auto simp: parse_read_identity_def npub_ok_def split: if_splits dest: parse_cache_identity_ok)
  next
    case False
    then show ?thesis using assms(2) no by (auto simp: parse_read_identity_def dest: parse_cache_identity_ok)
  qed
qed

lemma line_terminator_space: "line_terminator u \<Longrightarrow> is_space u"
  by (auto simp: line_terminator_def is_space_def)

lemma valid_identifier_writable: "valid_cache_identifier i \<longleftrightarrow> writable_identifier i"
  by (simp add: valid_cache_identifier_def writable_identifier_def)

lemma kind_digits: "dec_digits 17091 @ js '':'' = js ''17091:''" "dec_digits 37091 @ js '':'' = js ''37091:''"
  by (simp_all add: dec_digits.simps js_simps)

lemma format_identity_parts:
  assumes "identity_ok x"
  shows "canonical_writable_identity (format_identity x)" "take 64 (drop 6 (format_identity x)) = ci_pubkey x"
proof -
  define k where "k = (if ci_kind x = 17091 then js ''17091:'' else js ''37091:'')"
  have f: "format_identity x = k @ ci_pubkey x @ js '':'' @ ci_identifier x"
    using assms by (auto simp: format_identity_def identity_ok_def k_def kind_digits [symmetric])
  have parts: "length k = 6" "length (ci_pubkey x) = 64"
    using assms by (simp_all add: k_def identity_ok_def)
  then show "take 64 (drop 6 (format_identity x)) = ci_pubkey x" by (simp add: f)
  have ids: "drop 71 (format_identity x) = ci_identifier x" "take 1 (drop 70 (format_identity x)) = js '':''"
    "take 6 (format_identity x) = k"
    using parts by (simp_all add: f js_simps)
  have "\<not> list_ex line_terminator (ci_identifier x)"
    using assms by (auto simp: identity_ok_def valid_cache_identifier_def list_ex_iff dest: line_terminator_space)
  then show "canonical_writable_identity (format_identity x)"
    using assms ids parts \<open>take 64 (drop 6 (format_identity x)) = ci_pubkey x\<close>
    by (auto simp: canonical_writable_identity_def Let_def identity_ok_def k_def valid_identifier_writable)
qed

lemma identities_section_ok:
  assumes "npub_ok env" "identities_section env ss = Some ([], ids)"
  shows "length ids \<le> 32" "distinct (map format_identity ids)" "\<forall>x \<in> set ids. identity_ok x"
proof -
  let ?I = "\<lambda>ids. distinct (map format_identity ids) \<and> (\<forall>x \<in> set ids. identity_ok x)"
  have run: "length ss \<le> 32" "fold (identity_step env) (enumerate 0 ss) ([], []) = ([], ids)"
    using assms(2) by (auto simp: identities_section_def also_then_fine)
  have "?I ids"
    by (rule fold_clean [OF _ run(2)])
      (auto simp: identity_step_def split: option.splits if_splits dest: parse_read_identity_ok [OF assms(1)])
  then show "distinct (map format_identity ids)" "\<forall>x \<in> set ids. identity_ok x" by simp_all
  have "length ids \<le> length (snd ([] :: diagnostic list, [] :: config_identity list)) + length (enumerate 0 ss)"
    by (rule fold_length [OF _ run(2)]) (auto simp: identity_step_def split: prod.split option.split)
  then show "length ids \<le> 32" using run by simp
qed

subsection \<open>URLs\<close>

lemma relays_section_ok:
  assumes "relays_section env field ss = Some ([], us)"
  shows "relay_urls_ok us"
proof -
  have run: "length ss \<le> 32" "fold (relay_step env field) (enumerate 0 ss) ([], []) = ([], us)"
    using assms by (auto simp: relays_section_def also_then_fine)
  have "distinct (map url_href us) \<and> (\<forall>u \<in> set us. is_ws u \<and> anonymous u)"
    by (rule fold_clean [OF _ run(2)]) (auto simp: relay_step_def split: option.splits if_splits)
  moreover have "length us \<le> length (snd ([] :: diagnostic list, [] :: url list)) + length (enumerate 0 ss)"
    by (rule fold_length [OF _ run(2)]) (auto simp: relay_step_def split: prod.split option.split)
  ultimately show ?thesis using run by (simp add: relay_urls_ok_def)
qed

lemma trim_path_fields [simp]:
  "is_http (trim_path u) = is_http u" "anonymous (trim_path u) = anonymous u" "url_search (trim_path u) = url_search u"
  "ur_path (trim_path u) \<noteq> []"
  by (simp_all add: trim_path_def is_http_def anonymous_def url_search_def js_simps)

lemma servers_section_ok:
  assumes "servers_section env ss = Some ([], us)"
  shows "server_urls_ok us"
proof -
  have run: "length ss \<le> 32" "fold (server_step env) (enumerate 0 ss) ([], []) = ([], us)"
    using assms by (auto simp: servers_section_def also_then_fine)
  have "distinct (map server_key us)
      \<and> (\<forall>u \<in> set us. is_http u \<and> anonymous u \<and> url_search u = [] \<and> ur_path u \<noteq> [])"
    by (rule fold_clean [OF _ run(2)])
      (auto simp: server_step_def parse_url_def Let_def split: option.splits if_splits)
  moreover have "length us \<le> length (snd ([] :: diagnostic list, [] :: url list)) + length (enumerate 0 ss)"
    by (rule fold_length [OF _ run(2)]) (auto simp: server_step_def Let_def split: prod.split option.split)
  ultimately show ?thesis using run by (simp add: server_urls_ok_def)
qed

subsection \<open>Texts, paths and numbers\<close>

lemma owner_path_ok: "owner_path field v = Some ([], x) \<Longrightarrow> \<exists>p. x = Some p \<and> absolute_path p"
  by (auto simp: owner_path_def also_then_fine absolute_path_def split: option.splits if_splits)

lemma bounded_positive_ok:
  "bounded_positive field d h v = Some ([], n) \<Longrightarrow> 0 < n \<and> safe_int n \<and> (case h of None \<Rightarrow> True | Some c \<Rightarrow> n \<le> c)"
  by (auto simp: bounded_positive_def safe_value_def split: option.splits if_splits number.splits)

lemma port_section_ok: "port_section p = Some ([], n) \<Longrightarrow> 1 \<le> n \<and> n \<le> 65535"
  by (auto simp: port_section_def Let_def split: option.splits if_splits)

lemma checked_limits_ok:
  "checked_limits xs specs = Some ([], ls) \<Longrightarrow> map fst ls = map fst specs
    \<and> (\<forall>(key, n) \<in> set ls. \<exists>d h. (key, d, h) \<in> set specs \<and> 0 < n \<and> n \<le> h
        \<and> safe_value (limit_number xs (key, d, h)) = Some n)"
proof (induction specs arbitrary: ls)
  case (Cons spec specs)
  obtain key d h where spec: "spec = (key, d, h)" by (cases spec) auto
  obtain x ys where parts: "ls = x # ys" "checked_limits xs specs = Some ([], ys)"
    "x = (key, snd x)" "safe_value (limit_number xs (key, d, h)) = Some (snd x)" "0 < snd x" "snd x \<le> h"
    using Cons.prems by (auto simp: spec also_then_fine split: option.splits if_splits)
  have "fst x = key" using parts(3) by (metis fst_conv)
  then show ?case using Cons.IH [OF parts(2)] parts by (cases x) (fastforce simp: spec)
qed simp

lemma specs_distinct: "distinct (map fst limit_specs)"
  by (simp add: limit_specs_def js_simps)

lemma spec_unique: "(key, a) \<in> set limit_specs \<Longrightarrow> (key, b) \<in> set limit_specs \<Longrightarrow> a = b"
  using specs_distinct by (metis map_of_is_SomeI option.inject)

lemma limit_value_of:
  assumes "checked_limits xs limit_specs = Some ([], ls)" "(key, d, h) \<in> set limit_specs"
  obtains n where "map_of ls key = Some n" "0 < n" "n \<le> h" "limit_number xs (key, d, h) = NU_fin (of_int n)"
proof -
  note ls = checked_limits_ok [OF assms(1)]
  have "key \<in> set (map fst ls)" using ls assms(2) by force
  then obtain n where n: "map_of ls key = Some n" by (auto dest: weak_map_of_SomeI)
  then obtain d' h' where s: "(key, d', h') \<in> set limit_specs" "0 < n" "n \<le> h'"
    "safe_value (limit_number xs (key, d', h')) = Some n"
    using ls map_of_SomeD by fastforce
  then have "(d', h') = (d, h)" using spec_unique assms(2) by blast
  then show thesis
    using n s by (intro that [of n]) (auto simp: safe_value_def split: number.splits if_splits)
qed

lemma limits_section_ok:
  assumes "limits_section xs = Some ([], ls)"
  shows "map fst ls = map fst limit_specs"
    "\<forall>(key, n) \<in> set ls. \<exists>d h. (key, d, h) \<in> set limit_specs \<and> 0 < n \<and> n \<le> h"
    "the (map_of ls (js ''connectTimeoutMs'')) \<le> the (map_of ls (js ''totalTimeoutMs''))"
proof -
  let ?total = "(js ''totalTimeoutMs'', 300000, 1800000)" and ?connect = "(js ''connectTimeoutMs'', 5000, 30000)"
  have run: "checked_limits xs limit_specs = Some ([], ls)" "\<not> finite_less (limit_number xs ?total) (limit_number xs ?connect)"
    using assms by (auto simp: limits_section_def also_then_fine)
  show "map fst ls = map fst limit_specs"
    "\<forall>(key, n) \<in> set ls. \<exists>d h. (key, d, h) \<in> set limit_specs \<and> 0 < n \<and> n \<le> h"
    using checked_limits_ok [OF run(1)] by fastforce+
  have "?total \<in> set limit_specs" "?connect \<in> set limit_specs" by (simp_all add: limit_specs_def)
  then obtain t c where "map_of ls (js ''totalTimeoutMs'') = Some t" "limit_number xs ?total = NU_fin (of_int t)"
    "map_of ls (js ''connectTimeoutMs'') = Some c" "limit_number xs ?connect = NU_fin (of_int c)"
    using limit_value_of [OF run(1)] by metis
  then show "the (map_of ls (js ''connectTimeoutMs'')) \<le> the (map_of ls (js ''totalTimeoutMs''))"
    using run(2) by (simp add: finite_less_def)
qed

subsection \<open>The writable cache\<close>

lemma identity_section_ok:
  assumes "identity_section w = Some ([], i)" "writable_enabled w"
  shows "\<exists>x. i = Some x \<and> (x = \<lparr>wi_kind = 17091, wi_identifier = []\<rparr>
    \<or> wi_kind x = 37091 \<and> valid_cache_identifier (wi_identifier x))"
  using assms by (auto simp: identity_section_def also_then_fine split: if_splits option.splits)

lemma secret_section_ok:
  "secret_section valid' key mode True w (Some mode) = Some ([], x) \<Longrightarrow> \<exists>t. x = Some t \<and> valid' t"
  by (auto simp: secret_section_def Let_def also_then_fine split: option.splits)

lemma signer_section_ok:
  assumes "signer_section env override w = Some ([], x)" "writable_enabled w"
  shows "\<exists>y. x = Some y \<and> signer_ok env override y"
proof (cases override)
  case None
  obtain mode path ncryptsec nbunksec where run:
    "mode \<in> {Some (js ''local''), Some (js ''nip46''), Some (js ''ncryptsec''), Some (js ''nbunksec'')}"
    "(if mode = Some (js ''local'') \<or> mode = Some (js ''nip46'')
      then owner_path ''writable.signer.path'' (field_of (field_of w ''signer'') ''path'') else fine None) = Some ([], path)"
    "secret_section (valid_ncryptsec env) ''ncryptsec'' (js ''ncryptsec'') True w mode = Some ([], ncryptsec)"
    "secret_section (valid_nbunksec env) ''nbunksec'' (js ''nbunksec'') True w mode = Some ([], nbunksec)"
    "x = (if mode = Some (js ''nbunksec'') then map_option SG_nbunksec nbunksec
          else if mode = Some (js ''ncryptsec'') then map_option SG_ncryptsec ncryptsec
          else if mode = Some (js ''local'') then map_option SG_local path
          else if mode = Some (js ''nip46'') then map_option SG_nip46 path else None)"
    using assms unfolding signer_section_def None Let_def also_then_fine by (auto simp: also_then_fine)
  have names: "js ''local'' \<noteq> js ''ncryptsec''" "js ''local'' \<noteq> js ''nbunksec''" "js ''nip46'' \<noteq> js ''ncryptsec''"
    "js ''nip46'' \<noteq> js ''nbunksec''" "js ''nip46'' \<noteq> js ''local''" "js ''ncryptsec'' \<noteq> js ''nbunksec''"
    by (simp_all add: js_simps)
  consider "mode = Some (js ''local'')" | "mode = Some (js ''nip46'')" | "mode = Some (js ''ncryptsec'')"
    | "mode = Some (js ''nbunksec'')" using run(1) by auto
  then show ?thesis
  proof cases
    case 1
    then show ?thesis using run(2,5) names by (auto simp: signer_ok_def None dest: owner_path_ok)
  next
    case 2
    then show ?thesis using run(2,5) names by (auto simp: signer_ok_def None dest: owner_path_ok)
  next
    case 3
    then show ?thesis using run(3,5) names by (auto simp: signer_ok_def None dest: secret_section_ok)
  next
    case 4
    then show ?thesis using run(4,5) names by (auto simp: signer_ok_def None dest: secret_section_ok)
  qed
next
  case (Some o')
  then show ?thesis
    using assms by (cases o') (auto simp: signer_section_def Let_def also_then_fine signer_ok_def)
qed

lemma override_needs_enabled:
  "signer_section env override w = Some ([], x) \<Longrightarrow> \<not> writable_enabled w \<Longrightarrow> override = None"
  by (auto simp: signer_section_def Let_def also_then_fine)

lemma key_diags_ok: "key_diags keys = [] \<Longrightarrow> distinct keys \<and> (\<forall>k \<in> set keys. canonical_nix_key k)"
proof -
  assume d: "key_diags keys = []"
  have ok: "canonical_nix_key (keys ! i) \<and> keys ! i \<notin> set (take i keys)" if "i < length keys" for i
  proof -
    have "(i, keys ! i) \<in> set (enumerate 0 keys)" using that by (auto simp: in_set_enumerate_eq)
    then show ?thesis using d by (auto simp: key_diags_def split: if_splits prod.splits)
  qed
  then have "\<forall>k \<in> set keys. canonical_nix_key k" by (auto simp: in_set_conv_nth)
  moreover have "keys ! j \<noteq> keys ! i" if "j < i" "i < length keys" for i j
    using ok [OF that(2)] that by (auto simp: in_set_conv_nth dest: less_trans)
  then have "distinct keys" unfolding distinct_conv_nth by (metis linorder_neqE_nat)
  ultimately show ?thesis by simp
qed

lemma keys_section_ok:
  "keys_section v = Some ([], keys) \<Longrightarrow> length keys \<le> 32 \<and> distinct keys \<and> (\<forall>k \<in> set keys. canonical_nix_key k)"
  by (auto simp: keys_section_def also_then_fine dest: key_diags_ok)

lemma local_relay_ok:
  "local_relay_section env v = Some ([], x) \<Longrightarrow> case x of None \<Rightarrow> True | Some u \<Rightarrow> is_ws u \<and> anonymous u"
  by (auto simp: local_relay_section_def split: option.splits if_splits)

lemma writable_section_ok:
  assumes "writable_section env override w = Some ([], x)"
  shows "case x of None \<Rightarrow> override = None | Some c \<Rightarrow> writable_ok env override c"
proof (cases "writable_enabled w")
  case False
  then show ?thesis
    using assms by (auto simp: writable_section_def Let_def also_then_fine dest: override_needs_enabled)
next
  case True
  let ?s = "field_of w ''staging''" and ?p = "field_of w ''publication''"
  obtain identity signer directory body aggregate keys lifetime quiet concurrency attempts relay where run:
    "identity_section w = Some ([], identity)" "signer_section env override w = Some ([], signer)"
    "owner_path ''writable.staging.directory'' (field_of ?s ''directory'') = Some ([], directory)"
    "bounded_positive ''writable.staging.bodyBytes'' (1024 * 1024 * 1024) None (field_of ?s ''bodyBytes'') = Some ([], body)"
    "bounded_positive ''writable.staging.aggregateBytes'' (8 * 1024 * 1024 * 1024) None
       (field_of ?s ''aggregateBytes'') = Some ([], aggregate)"
    "keys_section (field_of ?p ''nixSigKeys'') = Some ([], keys)"
    "bounded_positive ''writable.publication.lifetimeSeconds'' 2592000 (Some 31536000)
       (field_of ?p ''lifetimeSeconds'') = Some ([], lifetime)"
    "bounded_positive ''writable.publication.quietSeconds'' 5 (Some 60) (field_of ?p ''quietSeconds'') = Some ([], quiet)"
    "bounded_positive ''writable.publication.concurrency'' 2 (Some 64) (field_of ?p ''concurrency'') = Some ([], concurrency)"
    "bounded_positive ''writable.publication.maxAttempts'' 8 (Some 32) (field_of ?p ''maxAttempts'') = Some ([], attempts)"
    "local_relay_section env (field_of ?p ''localRelayUrl'') = Some ([], relay)" "\<not> aggregate < body"
    "x = Some \<lparr>wc_identity = the identity, wc_signer = the signer, wc_directory = the directory,
       wc_body = body, wc_aggregate = aggregate, wc_keys = keys, wc_lifetime = lifetime, wc_quiet = quiet,
       wc_relay = relay, wc_concurrency = concurrency, wc_attempts = attempts\<rparr>"
    using assms True unfolding writable_section_def Let_def also_then_fine by (auto simp: also_then_fine)
  show ?thesis
    using identity_section_ok [OF run(1) True] signer_section_ok [OF run(2) True] owner_path_ok [OF run(3)]
      run(4,5,7-10) [THEN bounded_positive_ok] keys_section_ok [OF run(6)] local_relay_ok [OF run(11)] run(12)
    by (auto simp: run(13) writable_ok_def)
qed

subsection \<open>The whole configuration\<close>

text \<open>
  C30: The type of a validated configuration: when the NIP-19 decoder gives as a public key only 64
  lower-case hexadecimal digits, as nostr-tools does for an \<open>npub\<close>, then whatever JSON values and
  whatever signer it is given, a configuration that \<open>parseConfig\<close> accepts has a port, counts, sizes, times and limits within
  their ranges, distinct canonical identities and exactly their publishers, distinct anonymous
  relay and server URLs, absolute paths, canonical keys, and a signer exactly when writing is
  enabled.
\<close>

theorem accepted_config_typed:
  assumes "npub_ok env" "parse_config env override input = Some (Inr c)"
  shows "config_ok env override c"
proof -
  have "config_sections env override input = Some ([], c)"
    using assms(2) by (auto simp: parse_config_def split: if_splits)
  then obtain raw :: raw_config and port ids relays bootstrap servers database writable limits where run:
    "port_section (rc_port raw) = Some ([], port)"
    "identities_section env (list_values (rc_caches raw)) = Some ([], ids)"
    "relays_section env ''extraRelays'' (list_values (rc_relays raw)) = Some ([], relays)"
    "bootstrap_section env (rc_bootstrap raw) = Some ([], bootstrap)"
    "servers_section env (list_values (rc_servers raw)) = Some ([], servers)"
    "owner_path ''databasePath'' (map_option V_Str (rc_database raw)) = Some ([], database)"
    "writable_section env override (rc_writable raw) = Some ([], writable)"
    "limits_section (rc_limits raw) = Some ([], limits)"
    "c = \<lparr>cf_host = (case given (map_option trim (rc_host raw)) of None \<Rightarrow> js ''127.0.0.1'' | Some h \<Rightarrow> h),
       cf_port = port, cf_publishers = uniq (map ci_pubkey ids), cf_relays = relays, cf_bootstrap = bootstrap,
       cf_servers = servers, cf_database = the database, cf_identities = map format_identity ids,
       cf_intent = intent_of writable, cf_writable = writable, cf_limits = limits\<rparr>"
    unfolding config_sections_def also_then_fine fine_fine by blast
  note ids = identities_section_ok [OF assms(1) run(2)]
  have boot: "relay_urls_ok bootstrap" "bootstrap \<noteq> []"
    using run(4) by (auto simp: bootstrap_section_def also_then_fine dest: relays_section_ok)
  have host: "(case given (map_option trim (rc_host raw)) of None \<Rightarrow> js ''127.0.0.1'' | Some h \<Rightarrow> h) \<noteq> []"
    by (auto simp: given_def js_simps split: option.split list.split)
  have keys: "set (uniq (map ci_pubkey ids)) = (\<lambda>i. take 64 (drop 6 i)) ` set (map format_identity ids)"
  proof -
    have "map (\<lambda>i. take 64 (drop 6 i)) (map format_identity ids) = map ci_pubkey ids"
      using ids(3) format_identity_parts(2) by simp
    then show ?thesis by (metis set_map set_uniq)
  qed
  have forms: "\<forall>i \<in> set (map format_identity ids). canonical_writable_identity i"
    using ids(3) format_identity_parts(1) by simp
  obtain p where p: "database = Some p" "absolute_path p" using owner_path_ok [OF run(6)] by blast
  note limits = limits_section_ok [OF run(8)]
  note port = port_section_ok [OF run(1)]
  show ?thesis
    unfolding run(9) config_ok_def limit_of_def config.select_convs
    by (intro conjI; (rule forms | rule limits(2))?)
      (simp_all only: host port ids length_map forms distinct_uniq keys relays_section_ok [OF run(3)]
        boot servers_section_ok [OF run(5)] p option.sel limits writable_section_ok [OF run(7)] simp_thms)
qed

subsection \<open>A witness\<close>

text \<open>A read cache named by a NIP-19 text, and a decoder that reads it.\<close>

definition sample_npub :: jstr where
  "sample_npub = js ''npub1x''"

definition sample_config_env :: config_env where
  "sample_config_env = \<lparr>ce_url = (\<lambda>v. case v of V_Str s \<Rightarrow> Some \<lparr>ur_protocol = js ''wss:'', ur_username = [],
       ur_password = [], ur_hostname = s, ur_port = [], ur_path = js ''/'', ur_query = None, ur_fragment = None\<rparr>
     | _ \<Rightarrow> None), ce_nip19 = (\<lambda>s. if s = sample_npub then Some (N19_npub (replicate 64 97)) else None),
     ce_bech32 = (\<lambda>s. None), ce_nbunksec = (\<lambda>s. False)\<rparr>"

definition sample_writable :: props where
  "sample_writable = [(js ''enabled'', V_Bool True), (js ''type'', V_Str (js ''root'')),
     (js ''signer'', V_Obj [(js ''type'', V_Str (js ''local'')), (js ''path'', V_Str (js ''/key''))]),
     (js ''staging'', V_Obj [(js ''directory'', V_Str (js ''/stage'')), (js ''bodyBytes'', V_Int 100)])]"

definition sample_config :: props where
  "sample_config = [(js ''databasePath'', V_Str (js ''/db'')), (js ''caches'', V_Arr [V_Str sample_npub]),
     (js ''bootstrapRelays'', V_Arr [V_Str (js ''one'')]), (js ''writable'', V_Obj sample_writable)]"

definition sample_raw_config :: raw_config where
  "sample_raw_config = \<lparr>rc_host = None, rc_port = None, rc_caches = Some (LI_items [sample_npub]),
     rc_relays = None, rc_bootstrap = Some (LI_items [js ''one'']), rc_servers = None, rc_database = Some (js ''/db''),
     rc_writable = Some (V_Obj sample_writable), rc_limits = []\<rparr>"

lemma sample_normalized: "normalize_raw sample_config = Some ([], sample_raw_config)"
  by (simp add: normalize_raw_def sample_config_def sample_raw_config_def string_field_def number_field_def
      list_field_def limits_field_def writable_field_def also_then_def fine_def js_simps)

lemma sample_port: "port_section None = Some ([], 8787)"
proof -
  have "js_number (js ''8787'') = NU_fin (of_nat 8787)"
    using js_number_digits [of "js ''8787''"] by (simp add: js_simps is_digit_def dec_value_def)
  then show ?thesis by (simp add: port_section_def number_of_text_def safe_value_def safe_int_def max_safe_def fine_def)
qed

lemma sample_trims: "trim sample_npub = sample_npub" "trim (js ''one'') = js ''one''"
  "trim (js ''/db'') = js ''/db''" "trim (js ''root'') = js ''root''" "trim (js ''local'') = js ''local''"
  "trim (js ''/key'') = js ''/key''" "trim (js ''/stage'') = js ''/stage''"
  by (simp_all add: trim_def js_simps is_space_def sample_npub_def)

lemma sample_fields:
  "field_of (Some (V_Obj sample_writable)) ''enabled'' = Some (V_Bool True)"
  "field_of (Some (V_Obj sample_writable)) ''type'' = Some (V_Str (js ''root''))"
  "field_of (Some (V_Obj sample_writable)) ''name'' = None"
  "field_of (Some (V_Obj sample_writable)) ''publication'' = None"
  "field_of (field_of (Some (V_Obj sample_writable)) ''signer'') ''type'' = Some (V_Str (js ''local''))"
  "field_of (field_of (Some (V_Obj sample_writable)) ''signer'') ''path'' = Some (V_Str (js ''/key''))"
  "field_of (field_of (Some (V_Obj sample_writable)) ''signer'') ''ncryptsec'' = None"
  "field_of (field_of (Some (V_Obj sample_writable)) ''signer'') ''nbunksec'' = None"
  "field_of (field_of (Some (V_Obj sample_writable)) ''staging'') ''directory'' = Some (V_Str (js ''/stage''))"
  "field_of (field_of (Some (V_Obj sample_writable)) ''staging'') ''bodyBytes'' = Some (V_Int 100)"
  "field_of (field_of (Some (V_Obj sample_writable)) ''staging'') ''aggregateBytes'' = None"
  "field_of None key = None"
  by (simp_all add: field_of_def sample_writable_def js_simps)

lemma sample_path_accepted: "p = js ''/key'' \<or> p = js ''/stage'' \<or> p = js ''/db'' \<Longrightarrow> owner_path field (Some (V_Str p)) = Some ([], Some p)"
  by (auto simp: owner_path_def also_then_def trimmed_def fine_def given_def starts_with_def js_simps trim_def is_space_def)

lemma sample_signer_accepted:
  "signer_section sample_config_env None (Some (V_Obj sample_writable)) = Some ([], Some (SG_local (js ''/key'')))"
proof -
  have names: "js ''local'' \<noteq> js ''ncryptsec''" "js ''local'' \<noteq> js ''nbunksec''" by (simp_all add: js_simps)
  then show ?thesis
    by (simp add: signer_section_def Let_def writable_enabled_def sample_fields also_then_def complain_def fine_def
        trimmed_def sample_trims sample_path_accepted secret_section_def)
qed

lemma sample_writable_accepted: "\<exists>c. writable_section sample_config_env None (Some (V_Obj sample_writable)) = Some ([], Some c)"
proof -
  let ?w = "Some (V_Obj sample_writable)"
  have numbers: "bounded_positive field d h None = Some ([], d)" if "0 < d" "safe_int d" "case h of None \<Rightarrow> True | Some c \<Rightarrow> d \<le> c"
    for field d h using that by (auto simp: bounded_positive_def fine_def split: option.splits)
  have body: "bounded_positive field d None (Some (V_Int 100)) = Some ([], 100)" for field d
    by (simp add: bounded_positive_def safe_value_def safe_int_def max_safe_def fine_def)
  have "identity_section ?w = Some ([], Some \<lparr>wi_kind = 17091, wi_identifier = []\<rparr>)"
    by (simp add: identity_section_def sample_fields writable_enabled_def trimmed_def also_then_def complain_def fine_def
        sample_trims)
  moreover have "enabled_section ?w = Some ([], ())" "writable_enabled ?w"
    by (simp_all add: enabled_section_def writable_enabled_def sample_fields complain_def)
  moreover have "keys_section None = Some ([], [])" "local_relay_section sample_config_env None = Some ([], None)"
    by (simp_all add: keys_section_def list_values_of_def key_diags_def also_then_def complain_def fine_def
        local_relay_section_def)
  ultimately show ?thesis
    by (simp add: writable_section_def Let_def sample_fields sample_signer_accepted sample_path_accepted numbers body
        also_then_def complain_def fine_def safe_int_def max_safe_def)
qed

lemma sample_limits_accepted: "\<exists>ls. limits_section [] = Some ([], ls)"
  by (simp add: limits_section_def limit_specs_def limit_number_def also_then_def fine_def complain_def
      safe_value_def safe_int_def max_safe_def finite_less_def)

theorem accepted_config_typed_witness:
  "\<exists>c. parse_config sample_config_env None sample_config = Some (Inr c) \<and> config_ok sample_config_env None c
    \<and> cf_port c = 8787 \<and> cf_writable c \<noteq> None \<and> cf_publishers c = [replicate 64 97]"
proof -
  obtain w where w: "writable_section sample_config_env None (Some (V_Obj sample_writable)) = Some ([], Some w)"
    using sample_writable_accepted by blast
  obtain ls where ls: "limits_section [] = Some ([], ls)" using sample_limits_accepted by blast
  have npub: "parse_read_identity sample_config_env sample_npub = Some (root_identity (replicate 64 97))"
    by (simp add: parse_read_identity_def sample_config_env_def sample_npub_def starts_with_def js_simps)
  have ids: "identities_section sample_config_env [sample_npub] = Some ([], [root_identity (replicate 64 97)])"
    by (simp add: identities_section_def also_then_def complain_def identity_step_def npub)
  have one: "list_values (Some (LI_items [js ''one''])) = [js ''one'']"
  proof -
    have "js ''one'' \<noteq> []" by (simp add: js_simps)
    then show ?thesis by (simp add: list_values_def sample_trims(2))
  qed
  obtain u where "ce_url sample_config_env (V_Str (js ''one'')) = Some u" "is_ws u" "anonymous u"
    by (simp add: sample_config_env_def is_ws_def anonymous_def)
  then obtain us where us: "bootstrap_section sample_config_env (Some (LI_items [js ''one''])) = Some ([], us)"
    by (simp add: bootstrap_section_def relays_section_def also_then_def complain_def relay_step_def one fine_def)
  have hex_trim: "trim sample_npub = sample_npub" "sample_npub \<noteq> []"
    by (rule sample_trims) (simp add: sample_npub_def js_simps)
  have rest: "relays_section sample_config_env ''extraRelays'' [] = Some ([], [])"
    "servers_section sample_config_env [] = Some ([], [])" "list_values None = []"
    "list_values (Some (LI_items [sample_npub])) = [sample_npub]"
    "owner_path ''databasePath'' (Some (V_Str (js ''/db''))) = Some ([], Some (js ''/db''))"
    using hex_trim by (simp_all add: relays_section_def servers_section_def list_values_def also_then_def complain_def
        sample_path_accepted)
  obtain c where c: "parse_config sample_config_env None sample_config = Some (Inr c)" "cf_port c = 8787" "cf_writable c = Some w"
    "cf_publishers c = [replicate 64 97]"
    unfolding parse_config_def config_sections_def sample_normalized
    by (simp add: sample_raw_config_def also_then_def fine_def sample_port rest ids us w ls root_identity_def uniq_def)
  moreover have "npub_ok sample_config_env"
    by (simp add: npub_ok_def sample_config_env_def list_all_iff is_lower_hex_def)
  ultimately show ?thesis using accepted_config_typed [of sample_config_env None sample_config c] by auto
qed

end
