(* ===== verification/Startup.thy ===== *)
theory Startup
  imports Config
begin

section \<open>Starting the program (main.ts)\<close>

text \<open>
  \<^verbatim>\<open>src/main.ts\<close> builds the raw configuration: from the environment alone, or from a JSON
  file over which the environment is laid. An undefined property is an absent one. The parser of
  the command line, the file system, \<open>JSON.parse\<close> and the decoders of keys are fields of
  \<open>startup_env\<close>; paths are those of POSIX.
\<close>

datatype startup_error = ST_arguments | ST_signer | ST_read | ST_json | ST_root | ST_unknown jstr | ST_type jstr

record startup_env =
  su_config :: config_env
  su_arguments :: "jstr list \<Rightarrow> (jstr list \<times> jstr list) option"
  su_nsec :: "jstr \<Rightarrow> bool"
  su_cwd :: jstr
  su_read :: "jstr \<Rightarrow> jstr option"
  su_json :: "jstr \<Rightarrow> jsval option"

subsection \<open>The environment\<close>

definition supported_names :: "jstr list" where
  "supported_names = map js
     [''NIXSTR_BIND_HOST'', ''NIXSTR_BIND_PORT'', ''NIXSTR_CACHES'', ''NIXSTR_EXTRA_RELAYS'',
      ''NIXSTR_BOOTSTRAP_RELAYS'', ''NIXSTR_EXTRA_SERVERS'', ''NIXSTR_DATABASE_PATH'',
      ''NIXSTR_WRITABLE_ENABLED'', ''NIXSTR_WRITABLE_TYPE'', ''NIXSTR_WRITABLE_NAME'',
      ''NIXSTR_WRITABLE_SIGNER_TYPE'', ''NIXSTR_WRITABLE_SIGNER_PATH'', ''NIXSTR_WRITABLE_SIGNER_NCRYPTSEC'',
      ''NIXSTR_WRITABLE_STAGING_DIRECTORY'', ''NIXSTR_WRITABLE_STAGING_BODY_BYTES'',
      ''NIXSTR_WRITABLE_STAGING_AGGREGATE_BYTES'', ''NIXSTR_WRITABLE_PUBLICATION_NIX_SIG_KEYS'',
      ''NIXSTR_WRITABLE_PUBLICATION_LIFETIME_SECONDS'', ''NIXSTR_WRITABLE_PUBLICATION_LOCAL_RELAY_URL'',
      ''NIXSTR_WRITABLE_PUBLICATION_CONCURRENCY'', ''NIXSTR_WRITABLE_PUBLICATION_MAX_ATTEMPTS'',
      ''NIXSTR_LIMIT_MANIFEST_WIRE_BYTES'', ''NIXSTR_LIMIT_DECODED_METADATA_BYTES'',
      ''NIXSTR_LIMIT_BLOB_TRANSFER_BYTES'', ''NIXSTR_LIMIT_REQUEST_TRANSFER_BYTES'',
      ''NIXSTR_LIMIT_REQUEST_OUTPUT_BYTES'', ''NIXSTR_LIMIT_TRAVERSAL_DEPTH'', ''NIXSTR_LIMIT_LINKS_PER_NODE'',
      ''NIXSTR_LIMIT_UNIQUE_MANIFEST_NODES'', ''NIXSTR_LIMIT_TOTAL_DECODED_MANIFEST_BYTES'',
      ''NIXSTR_LIMIT_SOURCE_ATTEMPTS'', ''NIXSTR_LIMIT_MAX_REDIRECTS'', ''NIXSTR_LIMIT_CONNECT_TIMEOUT_MS'',
      ''NIXSTR_LIMIT_IDLE_TIMEOUT_MS'', ''NIXSTR_LIMIT_TOTAL_TIMEOUT_MS'', ''NIXSTR_LIMIT_CONCURRENT_FETCHES'',
      ''NIXSTR_LIMIT_MANIFEST_CACHE_ENTRIES'', ''NIXSTR_LIMIT_MANIFEST_CACHE_BYTES'']"

type_synonym environment = "jstr \<Rightarrow> jstr option"

definition defined_props :: "(string \<times> jsval option) list \<Rightarrow> props" where
  "defined_props xs = List.map_filter (\<lambda>(k, v). map_option (\<lambda>x. (js k, x)) v) xs"

text \<open>A variable of the environment object: only the supported ones were copied to it.\<close>

definition variable :: "environment \<Rightarrow> string \<Rightarrow> jsval option" where
  "variable read name = (if js name \<in> set supported_names then map_option V_Str (read (js name)) else None)"

definition nonempty_object :: "props \<Rightarrow> jsval option" where
  "nonempty_object ps = (if ps = [] then None else Some (V_Obj ps))"

definition enabled_value :: "jsval option \<Rightarrow> jsval option" where
  "enabled_value v = (if v = Some (V_Str (js ''true'')) then Some (V_Bool True)
     else if v = Some (V_Str (js ''false'')) then Some (V_Bool False) else v)"

text \<open>The objects, without the members and the groups that hold nothing.\<close>

definition signer_of_environment :: "environment \<Rightarrow> jsval option" where
  "signer_of_environment read = (let e = variable read in nonempty_object (defined_props
     [(''type'', e ''NIXSTR_WRITABLE_SIGNER_TYPE''),
      (''path'', e ''NIXSTR_WRITABLE_SIGNER_PATH''),
      (''ncryptsec'', e ''NIXSTR_WRITABLE_SIGNER_NCRYPTSEC'')]))"

definition staging_of_environment :: "environment \<Rightarrow> jsval option" where
  "staging_of_environment read = (let e = variable read in nonempty_object (defined_props
     [(''directory'', e ''NIXSTR_WRITABLE_STAGING_DIRECTORY''),
      (''bodyBytes'', e ''NIXSTR_WRITABLE_STAGING_BODY_BYTES''),
      (''aggregateBytes'', e ''NIXSTR_WRITABLE_STAGING_AGGREGATE_BYTES'')]))"

definition publication_of_environment :: "environment \<Rightarrow> jsval option" where
  "publication_of_environment read = (let e = variable read in nonempty_object (defined_props
     [(''nixSigKeys'', e ''NIXSTR_WRITABLE_PUBLICATION_NIX_SIG_KEYS''),
      (''lifetimeSeconds'', e ''NIXSTR_WRITABLE_PUBLICATION_LIFETIME_SECONDS''),
      (''quietSeconds'', e ''NIXSTR_WRITABLE_PUBLICATION_QUIET_SECONDS''),
      (''localRelayUrl'', e ''NIXSTR_WRITABLE_PUBLICATION_LOCAL_RELAY_URL''),
      (''concurrency'', e ''NIXSTR_WRITABLE_PUBLICATION_CONCURRENCY''),
      (''maxAttempts'', e ''NIXSTR_WRITABLE_PUBLICATION_MAX_ATTEMPTS'')]))"

definition writable_of_environment :: "environment \<Rightarrow> jsval option" where
  "writable_of_environment read = (let e = variable read in nonempty_object (defined_props
     [(''enabled'', enabled_value (e ''NIXSTR_WRITABLE_ENABLED'')),
      (''type'', e ''NIXSTR_WRITABLE_TYPE''),
      (''name'', e ''NIXSTR_WRITABLE_NAME''),
      (''signer'', signer_of_environment read),
      (''staging'', staging_of_environment read),
      (''publication'', publication_of_environment read)]))"

definition limits_of_environment :: "environment \<Rightarrow> props" where
  "limits_of_environment read = (let e = variable read in defined_props
     [(''manifestWireBytes'', e ''NIXSTR_LIMIT_MANIFEST_WIRE_BYTES''),
      (''decodedMetadataBytes'', e ''NIXSTR_LIMIT_DECODED_METADATA_BYTES''),
      (''blobTransferBytes'', e ''NIXSTR_LIMIT_BLOB_TRANSFER_BYTES''),
      (''requestTransferBytes'', e ''NIXSTR_LIMIT_REQUEST_TRANSFER_BYTES''),
      (''requestOutputBytes'', e ''NIXSTR_LIMIT_REQUEST_OUTPUT_BYTES''),
      (''traversalDepth'', e ''NIXSTR_LIMIT_TRAVERSAL_DEPTH''),
      (''linksPerNode'', e ''NIXSTR_LIMIT_LINKS_PER_NODE''),
      (''uniqueManifestNodes'', e ''NIXSTR_LIMIT_UNIQUE_MANIFEST_NODES''),
      (''totalDecodedManifestBytes'', e ''NIXSTR_LIMIT_TOTAL_DECODED_MANIFEST_BYTES''),
      (''sourceAttempts'', e ''NIXSTR_LIMIT_SOURCE_ATTEMPTS''),
      (''maxRedirects'', e ''NIXSTR_LIMIT_MAX_REDIRECTS''),
      (''connectTimeoutMs'', e ''NIXSTR_LIMIT_CONNECT_TIMEOUT_MS''),
      (''idleTimeoutMs'', e ''NIXSTR_LIMIT_IDLE_TIMEOUT_MS''),
      (''totalTimeoutMs'', e ''NIXSTR_LIMIT_TOTAL_TIMEOUT_MS''),
      (''concurrentFetches'', e ''NIXSTR_LIMIT_CONCURRENT_FETCHES''),
      (''manifestCacheEntries'', e ''NIXSTR_LIMIT_MANIFEST_CACHE_ENTRIES''),
      (''manifestCacheBytes'', e ''NIXSTR_LIMIT_MANIFEST_CACHE_BYTES'')])"

definition raw_of_environment :: "environment \<Rightarrow> props" where
  "raw_of_environment read = (let e = variable read in defined_props
     [(''bindHost'', e ''NIXSTR_BIND_HOST''),
      (''bindPort'', e ''NIXSTR_BIND_PORT''),
      (''caches'', e ''NIXSTR_CACHES''),
      (''extraRelays'', e ''NIXSTR_EXTRA_RELAYS''),
      (''bootstrapRelays'', e ''NIXSTR_BOOTSTRAP_RELAYS''),
      (''extraServers'', e ''NIXSTR_EXTRA_SERVERS''),
      (''databasePath'', e ''NIXSTR_DATABASE_PATH''),
      (''writable'', writable_of_environment read),
      (''limits'', Some (V_Obj (limits_of_environment read)))])"

subsection \<open>Paths\<close>

definition is_absolute :: "jstr \<Rightarrow> bool" where
  "is_absolute p = starts_with (js ''/'') p"

definition fs_segments :: "jstr \<Rightarrow> jstr list" where
  "fs_segments p = foldl (\<lambda>acc x. if x = [] \<or> x = js ''.'' then acc
     else if x = js ''..'' then butlast acc else acc @ [x]) [] (split_on 47 p)"

text \<open>\<open>resolve(base, p)\<close> on an absolute base, and \<open>dirname\<close> of a resolved path.\<close>

definition resolve_path :: "jstr \<Rightarrow> jstr \<Rightarrow> jstr" where
  "resolve_path base p = 47 # join_with [47] (fs_segments (if is_absolute p then p else base @ js ''/'' @ p))"

definition dirname :: "jstr \<Rightarrow> jstr" where
  "dirname p = 47 # join_with [47] (butlast (fs_segments p))"

subsection \<open>The file\<close>

definition no_error :: "startup_error + unit" where
  "no_error = Inr ()"

definition require :: "bool \<Rightarrow> startup_error \<Rightarrow> startup_error + unit" where
  "require good e = (if good then no_error else Inl e)"

fun check_all :: "('a \<Rightarrow> startup_error + unit) \<Rightarrow> 'a list \<Rightarrow> startup_error + unit" where
  "check_all f [] = no_error"
| "check_all f (x # xs) = (case f x of Inl e \<Rightarrow> Inl e | Inr u \<Rightarrow> check_all f xs)"

lemma check_all_Inr: "check_all f xs = Inr u \<longleftrightarrow> (\<forall>x \<in> set xs. f x = Inr ())"
  by (induction xs) (auto simp: no_error_def split: sum.split)

definition is_string :: "jsval \<Rightarrow> bool" where
  "is_string v \<longleftrightarrow> the_string v \<noteq> None"

definition is_number :: "jsval \<Rightarrow> bool" where
  "is_number v \<longleftrightarrow> native_number v \<noteq> None"

definition is_string_array :: "jsval \<Rightarrow> bool" where
  "is_string_array v \<longleftrightarrow> (case the_array v of None \<Rightarrow> False | Some vs \<Rightarrow> list_all is_string vs)"

definition field_check :: "(jsval \<Rightarrow> bool) \<Rightarrow> props \<Rightarrow> string \<Rightarrow> startup_error + unit" where
  "field_check good config field = require (case map_of config (js field) of None \<Rightarrow> True | Some v \<Rightarrow> good v) (ST_type (js field))"

definition json_fields :: "jstr list" where
  "json_fields = map js [''bindHost'', ''bindPort'', ''caches'', ''extraRelays'', ''bootstrapRelays'', ''extraServers'',
     ''databasePath'', ''writable'', ''limits'']"

definition validate_top :: "props \<Rightarrow> startup_error + unit" where
  "validate_top config =
     ebind (check_all (\<lambda>(k, v). require (k \<in> set json_fields) (ST_unknown k)) config) (\<lambda>u.
     ebind (check_all (field_check is_string config) [''bindHost'', ''databasePath'']) (\<lambda>u.
     ebind (field_check is_number config ''bindPort'') (\<lambda>u.
     ebind (check_all (field_check is_string_array config) [''caches'', ''extraRelays'', ''bootstrapRelays'', ''extraServers'']) (\<lambda>u.
     ebind (field_check (\<lambda>v. the_props v \<noteq> None) config ''limits'') (\<lambda>u.
     (case Option.bind (map_of config (js ''limits'')) the_props of None \<Rightarrow> no_error
      | Some ps \<Rightarrow> check_all (\<lambda>(k, v). ebind (require (k \<in> fst ` set limit_specs) (ST_unknown k))
          (\<lambda>u. require (is_number v) (ST_type k))) ps))))))"

text \<open>\<open>mergeDefined\<close>: objects are merged, anything else replaces.\<close>

function merge_defined :: "props \<Rightarrow> props \<Rightarrow> props" where
  "merge_defined base [] = base"
| "merge_defined base ((k, v) # rest) =
     merge_defined (AList.update k (case (v, map_of base k) of
        (V_Obj upper, Some (V_Obj lower)) \<Rightarrow> V_Obj (merge_defined lower upper) | _ \<Rightarrow> v) base) rest"
  by pat_completeness auto
termination
  by (relation "measure (\<lambda>(base, upper). size_list (size_prod (\<lambda>k. 0) size) upper)") auto

definition resolve_in :: "jstr \<Rightarrow> string \<Rightarrow> props \<Rightarrow> props" where
  "resolve_in base key ps = (case map_of ps (js key) of
     Some (V_Str p) \<Rightarrow> if is_absolute p then ps else AList.update (js key) (V_Str (resolve_path base p)) ps | _ \<Rightarrow> ps)"

definition resolve_group :: "jstr \<Rightarrow> string \<Rightarrow> string \<Rightarrow> props \<Rightarrow> props" where
  "resolve_group base part key ps = (case map_of ps (js part) of
     Some (V_Obj qs) \<Rightarrow> AList.update (js part) (V_Obj (resolve_in base key qs)) ps | _ \<Rightarrow> ps)"

definition resolve_writable_paths :: "jstr \<Rightarrow> props \<Rightarrow> props" where
  "resolve_writable_paths base config = (case map_of config (js ''writable'') of
     Some (V_Obj ps) \<Rightarrow> AList.update (js ''writable'')
       (V_Obj (resolve_group base ''staging'' ''directory'' (resolve_group base ''signer'' ''path'' ps))) config
   | _ \<Rightarrow> config)"

text \<open>
  The closed schema of \<open>writable\<close>. \<open>in\<close> sees the properties that every object inherits too;
  none of them is a type, so that a number is asked for.
\<close>

datatype field_type = FT_string | FT_number | FT_array

definition writable_groups :: "(string \<times> (string \<times> field_type) list) list" where
  "writable_groups =
     [(''signer'', [(''type'', FT_string), (''path'', FT_string), (''ncryptsec'', FT_string), (''nbunksec'', FT_string)]),
      (''staging'', [(''directory'', FT_string), (''bodyBytes'', FT_number), (''aggregateBytes'', FT_number)]),
      (''publication'', [(''nixSigKeys'', FT_array), (''lifetimeSeconds'', FT_number), (''quietSeconds'', FT_number),
        (''localRelayUrl'', FT_string), (''concurrency'', FT_number), (''maxAttempts'', FT_number)])]"

definition inherited_names :: "jstr list" where
  "inherited_names = map js [''constructor'', ''hasOwnProperty'', ''isPrototypeOf'', ''propertyIsEnumerable'',
     ''toLocaleString'', ''toString'', ''valueOf'', ''__proto__'', ''__defineGetter__'', ''__defineSetter__'',
     ''__lookupGetter__'', ''__lookupSetter__'']"

definition has_type :: "field_type \<Rightarrow> jsval \<Rightarrow> bool" where
  "has_type t v = (case t of FT_string \<Rightarrow> is_string v | FT_number \<Rightarrow> is_number v | FT_array \<Rightarrow> is_string_array v)"

definition group_field :: "(string \<times> field_type) list \<Rightarrow> jstr \<times> jsval \<Rightarrow> startup_error + unit" where
  "group_field schema = (\<lambda>(k, v).
     (case map_of (map (\<lambda>(f, t). (js f, t)) schema) k of
        Some t \<Rightarrow> require (has_type t v) (ST_type k)
      | None \<Rightarrow> if k \<in> set inherited_names then require (is_number v) (ST_type k) else Inl (ST_unknown k)))"

definition group_check :: "props \<Rightarrow> string \<times> (string \<times> field_type) list \<Rightarrow> startup_error + unit" where
  "group_check ps = (\<lambda>(part, schema).
     (case map_of ps (js part) of None \<Rightarrow> no_error
      | Some v \<Rightarrow> (case the_props v of None \<Rightarrow> Inl (ST_type (js part)) | Some qs \<Rightarrow> check_all (group_field schema) qs)))"

definition is_boolean :: "jsval \<Rightarrow> bool" where
  "is_boolean v = (case v of V_Bool b \<Rightarrow> True | _ \<Rightarrow> False)"

definition validate_writable :: "jsval option \<Rightarrow> startup_error + unit" where
  "validate_writable w = (case w of None \<Rightarrow> no_error
     | Some v \<Rightarrow> (case the_props v of None \<Rightarrow> Inl (ST_type (js ''writable''))
        | Some ps \<Rightarrow>
           if map_of ps (js ''enabled'') = Some (V_Bool False) then no_error
           else ebind (check_all (\<lambda>(k, x). require (k \<in> js ` {''enabled'', ''type'', ''name'', ''signer'', ''staging'', ''publication''})
                  (ST_unknown k)) ps) (\<lambda>u.
                ebind (field_check is_boolean ps ''enabled'') (\<lambda>u.
                ebind (check_all (field_check is_string ps) [''type'', ''name'']) (\<lambda>u.
                  check_all (group_check ps) writable_groups)))))"

definition load_config_file :: "startup_env \<Rightarrow> environment \<Rightarrow> jstr \<Rightarrow> startup_error + props" where
  "load_config_file su read selected =
     (let path = resolve_path (su_cwd su) selected; base = dirname path in
      case su_read su path of None \<Rightarrow> Inl ST_read
      | Some text \<Rightarrow> (case su_json su text of None \<Rightarrow> Inl ST_json
         | Some v \<Rightarrow> (case the_props v of None \<Rightarrow> Inl ST_root
            | Some config \<Rightarrow>
                ebind (validate_top config) (\<lambda>u.
                  let merged = merge_defined (resolve_writable_paths base (resolve_in base ''databasePath'' config))
                        (raw_of_environment read) in
                  ebind (validate_writable (map_of merged (js ''writable''))) (\<lambda>u. Inr merged)))))"

subsection \<open>The command line\<close>

definition signer_argument :: "startup_env \<Rightarrow> jstr \<Rightarrow> startup_error + signer_override" where
  "signer_argument su s =
     (if starts_with (js ''nsec1'') s then (if su_nsec su s then Inr (SO_nsec s) else Inl ST_signer)
      else if starts_with (js ''ncryptsec1'') s
      then (case ce_bech32 (su_config su) s of None \<Rightarrow> Inl ST_signer
        | Some (prefix, b) \<Rightarrow> if prefix \<noteq> js ''ncryptsec'' \<or> length b \<noteq> 91 \<or> b ! 0 \<noteq> 2 \<or> b ! 1 < 16 \<or> b ! 1 > 22 \<or> b ! 42 > 2
            then Inl ST_signer else Inr (SO_ncryptsec s))
      else if starts_with (js ''nbunksec1'') s
      then (if ce_nbunksec (su_config su) s then Inr (SO_nbunksec s) else Inl ST_signer)
      else Inl ST_signer)"

definition parse_arguments :: "startup_env \<Rightarrow> jstr list \<Rightarrow> startup_error + (jstr option \<times> signer_override option)" where
  "parse_arguments su args =
     (case su_arguments su args of None \<Rightarrow> Inl ST_arguments
      | Some (configs, signers) \<Rightarrow>
         if length configs > 1 \<or> length signers > 1 \<or> configs = [[]] \<or> signers = [[]] then Inl ST_arguments
         else ebind (case signers of [] \<Rightarrow> Inr None | s # r \<Rightarrow> map_sum id Some (signer_argument su s))
           (\<lambda>signer. Inr (case configs of [] \<Rightarrow> None | c # r \<Rightarrow> Some (resolve_path (su_cwd su) c), signer)))"

definition load_startup :: "startup_env \<Rightarrow> environment \<Rightarrow> jstr list \<Rightarrow> startup_error + (props \<times> signer_override option)" where
  "load_startup su read args =
     ebind (parse_arguments su args) (\<lambda>(path, signer).
     ebind (case path of None \<Rightarrow> Inr (raw_of_environment read) | Some p \<Rightarrow> load_config_file su read p)
       (\<lambda>raw. Inr (raw, signer)))"

end
