(* ===== verification/Startup_Proofs.thy ===== *)
theory Startup_Proofs
  imports Startup Config_Proofs
begin

section \<open>What the environment cannot say\<close>

text \<open>
  Lookups in the objects that \<^theory_text>\<open>Startup\<close> builds and merges, and two consequences for the
  environment variables that the documentation names.
\<close>

subsection \<open>The objects of the environment\<close>

lemma defined_props_keys: "fst ` set (defined_props xs) \<subseteq> js ` fst ` set xs"
  by (force simp: defined_props_def map_filter_def split: option.splits)

lemma distinct_defined_props: "distinct (map fst xs) \<Longrightarrow> distinct (map fst (defined_props xs))"
proof (induction xs)
  case (Cons x xs)
  then show ?case
    using defined_props_keys [of xs] by (cases x; cases "snd x") (auto simp: defined_props_def map_filter_def image_iff)
qed (simp add: defined_props_def map_filter_def)

lemma map_of_defined_props:
  "distinct (map fst xs) \<Longrightarrow> map_of (defined_props xs) (js f) = Option.bind (map_of xs f) (\<lambda>v. v)"
proof (induction xs)
  case (Cons x xs)
  have absent: "map_of (defined_props xs) (js a) = None" if "a \<notin> fst ` set xs" for a
  proof -
    have "js a \<notin> js ` fst ` set xs" using that by (force simp: image_iff)
    then show ?thesis using defined_props_keys [of xs] by (auto simp only: map_of_eq_None_iff)
  qed
  show ?case
    using Cons absent by (cases x; cases "snd x") (auto simp: defined_props_def map_filter_def)
qed (simp add: defined_props_def map_filter_def)

lemma variable_unsupported: "js name \<notin> set supported_names \<Longrightarrow> variable (read(js name := x)) = variable read"
  by (rule ext) (auto simp: variable_def)

lemma load_startup_unsupported:
  assumes "js name \<notin> set supported_names"
  shows "load_startup su (read(js name := x)) args = load_startup su read args"
proof -
  have raw: "raw_of_environment (read(js name := x)) = raw_of_environment read"
    by (simp only: raw_of_environment_def writable_of_environment_def limits_of_environment_def signer_of_environment_def
        staging_of_environment_def publication_of_environment_def variable_unsupported [OF assms])
  have loaded: "load_config_file su (read(js name := x)) = load_config_file su read"
    unfolding load_config_file_def raw by (rule refl)
  show ?thesis unfolding load_startup_def raw loaded by (rule refl)
qed

subsection \<open>Merging\<close>

definition combined :: "jsval \<Rightarrow> jsval option \<Rightarrow> jsval" where
  "combined v w = (case (v, w) of (V_Obj upper, Some (V_Obj lower)) \<Rightarrow> V_Obj (merge_defined lower upper) | _ \<Rightarrow> v)"

lemma map_of_merge:
  "distinct (map fst upper) \<Longrightarrow>
   map_of (merge_defined base upper) k = (case map_of upper k of None \<Rightarrow> map_of base k | Some v \<Rightarrow> Some (combined v (map_of base k)))"
proof (induction upper arbitrary: base)
  case (Cons x rest)
  obtain a v where x: "x = (a, v)" by (cases x)
  have "merge_defined base ((a, v) # rest) = merge_defined (AList.update a (combined v (map_of base a)) base) rest"
    by (simp add: combined_def)
  moreover have "map_of rest a = None" using Cons.prems by (simp add: x map_of_eq_None_iff)
  ultimately show ?case
    using Cons by (auto simp: x update_conv' split: option.split)
qed simp

lemma combined_text [simp]: "combined (V_Str s) w = V_Str s"
  by (simp add: combined_def)

lemma combined_object:
  assumes "map_of upper k = Some v" "distinct (map fst upper)"
  shows "\<exists>ps u. combined (V_Obj upper) w = V_Obj ps \<and> map_of ps k = Some (combined v u)"
proof (cases "\<exists>lower. w = Some (V_Obj lower)")
  case True
  then obtain lower where "w = Some (V_Obj lower)" by blast
  then show ?thesis using map_of_merge [OF assms(2)] assms(1) by (auto simp: combined_def [of "V_Obj upper"])
next
  case False
  then have "combined (V_Obj upper) w = V_Obj upper" by (auto simp: combined_def split: option.splits jsval.splits)
  moreover have "combined v None = v" by (cases v) (simp_all add: combined_def)
  ultimately show ?thesis using assms(1) by metis
qed

subsection \<open>Variables that hold a number or a list\<close>

definition typed_variables :: "(string \<times> string \<times> string) list" where
  "typed_variables =
     [(''NIXSTR_WRITABLE_STAGING_BODY_BYTES'', ''staging'', ''bodyBytes''),
      (''NIXSTR_WRITABLE_STAGING_AGGREGATE_BYTES'', ''staging'', ''aggregateBytes''),
      (''NIXSTR_WRITABLE_PUBLICATION_NIX_SIG_KEYS'', ''publication'', ''nixSigKeys''),
      (''NIXSTR_WRITABLE_PUBLICATION_LIFETIME_SECONDS'', ''publication'', ''lifetimeSeconds''),
      (''NIXSTR_WRITABLE_PUBLICATION_CONCURRENCY'', ''publication'', ''concurrency''),
      (''NIXSTR_WRITABLE_PUBLICATION_MAX_ATTEMPTS'', ''publication'', ''maxAttempts'')]"

lemma nonempty_group:
  assumes "distinct (map fst xs)" "map_of xs f = Some (Some v)"
  shows "\<exists>qs. nonempty_object (defined_props xs) = Some (V_Obj qs) \<and> distinct (map fst qs) \<and> map_of qs (js f) = Some v"
  using map_of_defined_props [OF assms(1), of f] distinct_defined_props [OF assms(1)] assms(2)
  by (auto simp: nonempty_object_def)

lemma staging_placed:
  assumes "(name, f) \<in> {(''NIXSTR_WRITABLE_STAGING_BODY_BYTES'', ''bodyBytes''), (''NIXSTR_WRITABLE_STAGING_AGGREGATE_BYTES'', ''aggregateBytes'')}"
    "variable read name = Some v"
  shows "\<exists>qs. staging_of_environment read = Some (V_Obj qs) \<and> distinct (map fst qs) \<and> map_of qs (js f) = Some v"
  using assms unfolding staging_of_environment_def Let_def by (intro nonempty_group) auto

lemma publication_placed:
  assumes "(name, f) \<in> {(''NIXSTR_WRITABLE_PUBLICATION_NIX_SIG_KEYS'', ''nixSigKeys''),
      (''NIXSTR_WRITABLE_PUBLICATION_LIFETIME_SECONDS'', ''lifetimeSeconds''),
      (''NIXSTR_WRITABLE_PUBLICATION_CONCURRENCY'', ''concurrency''),
      (''NIXSTR_WRITABLE_PUBLICATION_MAX_ATTEMPTS'', ''maxAttempts'')}"
    "variable read name = Some v"
  shows "\<exists>qs. publication_of_environment read = Some (V_Obj qs) \<and> distinct (map fst qs) \<and> map_of qs (js f) = Some v"
  using assms unfolding publication_of_environment_def Let_def by (intro nonempty_group) auto

lemma group_placed:
  assumes "(part, g) \<in> {(''staging'', staging_of_environment read), (''publication'', publication_of_environment read)}" "g = Some v"
  shows "\<exists>w. writable_of_environment read = Some (V_Obj w) \<and> distinct (map fst w) \<and> map_of w (js part) = Some v"
  using assms unfolding writable_of_environment_def Let_def by (intro nonempty_group) auto

lemma typed_variable_placed:
  assumes "(name, part, f) \<in> set typed_variables" "read (js name) = Some s"
  shows "\<exists>w qs. writable_of_environment read = Some (V_Obj w) \<and> distinct (map fst w) \<and> map_of w (js part) = Some (V_Obj qs)
    \<and> distinct (map fst qs) \<and> map_of qs (js f) = Some (V_Str s)"
proof -
  have v: "variable read name = Some (V_Str s)"
    using assms by (auto simp: typed_variables_def variable_def supported_names_def)
  show ?thesis
  proof (cases "part = ''staging''")
    case True
    then have "(name, f) \<in> {(''NIXSTR_WRITABLE_STAGING_BODY_BYTES'', ''bodyBytes''), (''NIXSTR_WRITABLE_STAGING_AGGREGATE_BYTES'', ''aggregateBytes'')}"
      using assms(1) by (auto simp: typed_variables_def)
    from staging_placed [OF this v] show ?thesis using group_placed [of part _ read] True by blast
  next
    case False
    then have "(name, f) \<in> {(''NIXSTR_WRITABLE_PUBLICATION_NIX_SIG_KEYS'', ''nixSigKeys''),
      (''NIXSTR_WRITABLE_PUBLICATION_LIFETIME_SECONDS'', ''lifetimeSeconds''),
      (''NIXSTR_WRITABLE_PUBLICATION_CONCURRENCY'', ''concurrency''),
      (''NIXSTR_WRITABLE_PUBLICATION_MAX_ATTEMPTS'', ''maxAttempts'')}" "part = ''publication''"
      using assms(1) by (auto simp: typed_variables_def)
    from publication_placed [OF this(1) v] this(2) show ?thesis using group_placed [of part _ read] by blast
  qed
qed

lemma raw_writable: "distinct (map fst (raw_of_environment read))"
  "map_of (raw_of_environment read) (js ''writable'') = writable_of_environment read"
proof -
  show "distinct (map fst (raw_of_environment read))"
    unfolding raw_of_environment_def Let_def by (rule distinct_defined_props) simp
  show "map_of (raw_of_environment read) (js ''writable'') = writable_of_environment read"
    unfolding raw_of_environment_def Let_def by (subst map_of_defined_props) auto
qed

subsection \<open>Numbers are refused beside a file\<close>

lemma typed_variable_schemas:
  "\<forall>(name, part, f) \<in> set typed_variables. case map_of writable_groups part of None \<Rightarrow> False
     | Some schema \<Rightarrow> map_of (map (\<lambda>(f, t). (js f, t)) schema) (js f) \<in> {Some FT_number, Some FT_array}"
  by (simp add: typed_variables_def writable_groups_def)

lemma typed_variable_schema:
  assumes "(name, part, f) \<in> set typed_variables"
  shows "\<exists>schema t. (part, schema) \<in> set writable_groups \<and> map_of (map (\<lambda>(f, t). (js f, t)) schema) (js f) = Some t \<and> t \<noteq> FT_string"
  using bspec [OF typed_variable_schemas assms] by (auto split: option.splits dest: map_of_SomeD)

lemma group_check_text:
  assumes "(part, schema) \<in> set writable_groups" "map_of (map (\<lambda>(f, t). (js f, t)) schema) (js f) = Some t" "t \<noteq> FT_string"
    "map_of ps (js part) = Some (V_Obj qs)" "map_of qs (js f) = Some (V_Str s)"
  shows "check_all (group_check ps) writable_groups \<noteq> Inr u"
proof
  assume "check_all (group_check ps) writable_groups = Inr u"
  then have "check_all (group_field schema) qs = Inr ()"
    using assms(1,4) by (auto simp: check_all_Inr group_check_def)
  then have "group_field schema (js f, V_Str s) = Inr ()"
    using map_of_SomeD [OF assms(5)] by (auto simp: check_all_Inr)
  then show False
    using assms(2,3) by (cases t) (auto simp: group_field_def require_def no_error_def has_type_def is_number_def is_string_array_def)
qed

text \<open>
  C31: A number of the environment is refused beside a file: when a configuration file is
  read and one of the nested writable variables that hold a number or the list of keys is set, the
  configuration is loaded only if writing is switched off by \<open>false\<close>, whatever the file and the
  variable hold, because the merged value is a text where \<open>validateWritableJson\<close> asks for a number
  or an array.
\<close>

theorem environment_numbers_refused:
  assumes "load_config_file su read path = Inr raw" "(name, part, f) \<in> set typed_variables" "read (js name) \<noteq> None"
  shows "field_of (map_of raw (js ''writable'')) ''enabled'' = Some (V_Bool False)"
proof -
  obtain base where merged: "raw = merge_defined base (raw_of_environment read)"
    and valid: "validate_writable (map_of raw (js ''writable'')) = Inr ()"
    using assms(1) by (auto simp: load_config_file_def Let_def ebind_Inr split: option.splits)
  obtain w qs s where w: "writable_of_environment read = Some (V_Obj w)" "distinct (map fst w)"
    "map_of w (js part) = Some (V_Obj qs)" "distinct (map fst qs)" "map_of qs (js f) = Some (V_Str s)"
    using typed_variable_placed [OF assms(2)] assms(3) by blast
  have "map_of raw (js ''writable'') = Some (combined (V_Obj w) (map_of base (js ''writable'')))"
    by (simp add: merged map_of_merge raw_writable w(1))
  then obtain ps v where ps: "map_of raw (js ''writable'') = Some (V_Obj ps)" "map_of ps (js part) = Some (combined (V_Obj qs) v)"
    using combined_object [OF w(3,2)] by metis
  obtain rs where rs: "map_of ps (js part) = Some (V_Obj rs)" "map_of rs (js f) = Some (V_Str s)"
    using ps(2) combined_object [OF w(5,4), of v] by auto
  obtain schema t where schema: "(part, schema) \<in> set writable_groups"
    "map_of (map (\<lambda>(f, t). (js f, t)) schema) (js f) = Some t" "t \<noteq> FT_string"
    using typed_variable_schema [OF assms(2)] by blast
  show ?thesis
    using valid group_check_text [OF schema rs]
    by (auto simp: ps(1) validate_writable_def field_of_def ebind_Inr split: if_splits)
qed

text \<open>
  The quiet period of the environment is ignored: whatever
  \<open>NIXSTR_WRITABLE_PUBLICATION_QUIET_SECONDS\<close> is set to, the same raw configuration is loaded, from
  the environment and from a file, although the documentation names the variable.
\<close>

theorem quiet_environment_ignored:
  "load_startup su (read(js ''NIXSTR_WRITABLE_PUBLICATION_QUIET_SECONDS'' := x)) args = load_startup su read args"
  by (rule load_startup_unsupported) (simp add: supported_names_def)

subsection \<open>A witness\<close>

definition sample_startup :: startup_env where
  "sample_startup = \<lparr>su_config = sample_config_env, su_arguments = (\<lambda>args. None), su_nsec = (\<lambda>s. False),
     su_cwd = js ''/'', su_read = (\<lambda>p. Some []),
     su_json = (\<lambda>t. Some (V_Obj [(js ''writable'', V_Obj [(js ''enabled'', V_Bool False)])]))\<rparr>"

definition sample_environment :: environment where
  "sample_environment = (\<lambda>n. if n = js ''NIXSTR_WRITABLE_PUBLICATION_CONCURRENCY'' then Some (js ''4'') else None)"

lemma sample_environment_writable:
  assumes "writable_of_environment sample_environment = Some (V_Obj w)"
  shows "map_of w (js ''enabled'') = None"
proof -
  have "variable sample_environment ''NIXSTR_WRITABLE_ENABLED'' = None"
    by (simp add: variable_def sample_environment_def)
  then have "enabled_value (variable sample_environment ''NIXSTR_WRITABLE_ENABLED'') = None"
    by (simp add: enabled_value_def)
  then have "map_of (defined_props (xs :: (string \<times> jsval option) list)) (js ''enabled'') = None"
    if "xs = (''enabled'', enabled_value (variable sample_environment ''NIXSTR_WRITABLE_ENABLED'')) # ys" "distinct (map fst xs)" for xs ys
    using map_of_defined_props [OF that(2), of "''enabled''"] that(1) by simp
  then show ?thesis
    using assms by (auto simp: writable_of_environment_def Let_def nonempty_object_def split: if_splits)
qed

theorem environment_numbers_refused_witness:
  "\<exists>raw. load_config_file sample_startup sample_environment (js ''/c'') = Inr raw
     \<and> field_of (map_of raw (js ''writable'')) ''enabled'' = Some (V_Bool False)"
proof -
  let ?set = "sample_environment (js ''NIXSTR_WRITABLE_PUBLICATION_CONCURRENCY'')"
  have listed: "(''NIXSTR_WRITABLE_PUBLICATION_CONCURRENCY'', ''publication'', ''concurrency'') \<in> set typed_variables"
    "?set = Some (js ''4'')" by (simp_all add: typed_variables_def sample_environment_def)
  obtain w where w: "writable_of_environment sample_environment = Some (V_Obj w)" "distinct (map fst w)"
    using typed_variable_placed [OF listed(1), of sample_environment, OF listed(2)] by blast
  define raw where "raw = merge_defined [(js ''writable'', V_Obj [(js ''enabled'', V_Bool False)])] (raw_of_environment sample_environment)"
  have "map_of raw (js ''writable'') = Some (V_Obj (merge_defined [(js ''enabled'', V_Bool False)] w))"
    by (simp add: raw_def map_of_merge raw_writable w(1) combined_def)
  then have "validate_writable (map_of raw (js ''writable'')) = Inr ()"
    using sample_environment_writable [OF w(1)] w(2) by (simp add: validate_writable_def map_of_merge no_error_def)
  then have "load_config_file sample_startup sample_environment (js ''/c'') = Inr raw"
    by (simp add: load_config_file_def sample_startup_def Let_def validate_top_def json_fields_def field_check_def
        require_def no_error_def resolve_in_def resolve_writable_paths_def resolve_group_def raw_def)
  then show ?thesis
    using environment_numbers_refused [OF _ listed(1)] listed(2) by auto
qed

end
