(* ===== verification/Upload.thy ===== *)
theory Upload
  imports Js_Number Config Merged_Cache Writer
begin

section \<open>Uploading blobs (blossom/upload_authorization.ts, blossom/publication_uploader.ts)\<close>

text \<open>
  Servers take blobs under a signed event that names them. One event names many hashes, as long
  as its header fits: \<open>createUploadAuthorizationBatch\<close> groups the servers by domain and the
  hashes by size, has every group signed, and keeps one header for each server and hash.
  \<open>prove\<close> asks a server for a blob and sends it when it is absent. The signer, the
  abort signal, the verification of events, the parsers of URLs and of JSON, and the answers of
  servers are parameters.
\<close>

subsection \<open>JSON.stringify\<close>

text \<open>A text: quotes, backslashes, control characters and unpaired surrogates are escaped.\<close>

definition json_escape :: "nat \<Rightarrow> jstr" where
  "json_escape u = js [CHR 0x5C, CHR ''u''] @ concat (map (\<lambda>k. [hex_digit (u div 16 ^ k mod 16)]) [3, 2, 1, 0])"

definition json_unit :: "nat \<Rightarrow> jstr" where
  "json_unit u =
     (if u = 34 \<or> u = 92 then [92, u] else if u = 8 then [92, 98] else if u = 9 then [92, 116]
      else if u = 10 then [92, 110] else if u = 12 then [92, 102] else if u = 13 then [92, 114]
      else if u < 32 then json_escape u else [u])"

fun json_units :: "jstr \<Rightarrow> jstr" where
  "json_units [] = []"
| "json_units [u] = (if high_surrogate u \<or> low_surrogate u then json_escape u else json_unit u)"
| "json_units (u # v # s) =
     (if high_surrogate u \<and> low_surrogate v then [u, v] @ json_units s
      else (if high_surrogate u \<or> low_surrogate u then json_escape u else json_unit u) @ json_units (v # s))"

definition json_string_text :: "jstr \<Rightarrow> jstr" where
  "json_string_text s = [34] @ json_units s @ [34]"

definition json_array :: "jstr list \<Rightarrow> jstr" where
  "json_array xs = [91] @ join_with [44] xs @ [93]"

definition json_object :: "(string \<times> jstr) list \<Rightarrow> jstr" where
  "json_object xs = [123] @ join_with [44] (map (\<lambda>(k, v). json_string_text (js k) @ [58] @ v) xs) @ [125]"

definition int_text :: "int \<Rightarrow> jstr" where
  "int_text n = (if n < 0 then 45 # dec_digits (nat (- n)) else dec_digits (nat n))"

subsection \<open>The event and its header\<close>

record upload_template =
  ut_kind :: int
  ut_created :: int
  ut_content :: jstr
  ut_tags :: "jstr list list"

definition upload_template_of :: "int \<Rightarrow> int \<Rightarrow> jstr option \<Rightarrow> jstr list \<Rightarrow> upload_template" where
  "upload_template_of now expires domain hashes =
     \<lparr>ut_kind = 24242, ut_created = now, ut_content = js ''Upload Nix cache blobs'',
      ut_tags = [[js ''t'', js ''upload''], [js ''expiration'', int_text expires]]
        @ (case domain of None \<Rightarrow> [] | Some d \<Rightarrow> [[js ''server'', d]])
        @ map (\<lambda>h. [js ''x'', h]) hashes\<rparr>"

definition signed_json :: "jstr \<Rightarrow> jstr \<Rightarrow> jstr \<Rightarrow> upload_template \<Rightarrow> jstr" where
  "signed_json i pubkey sig t = json_object
     [(''id'', json_string_text i), (''pubkey'', json_string_text pubkey), (''created_at'', int_text (ut_created t)),
      (''kind'', int_text (ut_kind t)), (''tags'', json_array (map (\<lambda>x. json_array (map json_string_text x)) (ut_tags t))),
      (''content'', json_string_text (ut_content t)), (''sig'', json_string_text sig)]"

text \<open>Base64 for URLs, without padding.\<close>

definition url_base64 :: "bytes \<Rightarrow> jstr" where
  "url_base64 bs = rev (dropWhile (\<lambda>u. u = 61) (rev (map (\<lambda>u. if u = 43 then 45 else if u = 47 then 95 else u) (btoa bs))))"

definition authorization_header :: "jstr \<Rightarrow> jstr" where
  "authorization_header json = js ''Nostr '' @ url_base64 (utf8_bytes json)"

definition field_bytes :: "jstr \<Rightarrow> int" where
  "field_bytes v = int (length (utf8 (js ''Authorization: '' @ v @ [13, 10])))"

definition conservative_bytes :: "upload_template \<Rightarrow> int" where
  "conservative_bytes t =
     field_bytes (authorization_header (signed_json (replicate 64 48) (replicate 64 48) (replicate 128 48) t))"

definition header_of :: "raw_publication \<Rightarrow> upload_template \<Rightarrow> jstr" where
  "header_of e t = authorization_header (signed_json (rp_id e) (rp_pubkey e) (rp_sig e) t)"

text \<open>The tags are texts, so that equal JSON means equal tags.\<close>

definition same_template :: "raw_publication \<Rightarrow> upload_template \<Rightarrow> bool" where
  "same_template e t \<longleftrightarrow> rp_kind e = V_Int (ut_kind t) \<and> rp_created_at e = V_Int (ut_created t)
     \<and> rp_content e = ut_content t \<and> rp_tags e = V_Arr (map (\<lambda>x. V_Arr (map V_Str x)) (ut_tags t))"

subsection \<open>The batch\<close>

datatype upload_error = UA_hash_limit | UA_header_limit | UA_hashes | UA_url | UA_aborted | UA_one_hash
  | UA_signer | UA_template | UA_verify | UA_oversized | UA_file

text \<open>\<open>ae_aborted\<close> is asked before and after each event is signed.\<close>

record auth_env =
  ae_url :: "jstr \<Rightarrow> url option"
  ae_verify :: "raw_publication \<Rightarrow> bool option"
  ae_signer :: "nat \<Rightarrow> upload_template \<Rightarrow> raw_publication option"
  ae_aborted :: "nat \<Rightarrow> bool"

record auth_options =
  ao_hashes :: "jstr list"
  ao_servers :: "jstr list"
  ao_now :: int
  ao_lifetime :: "int option"
  ao_max_hashes :: "int option"
  ao_max_header :: "int option"

definition max_hashes :: "auth_options \<Rightarrow> int" where
  "max_hashes p = (case ao_max_hashes p of None \<Rightarrow> 64 | Some n \<Rightarrow> n)"

definition max_header :: "auth_options \<Rightarrow> int" where
  "max_header p = (case ao_max_header p of None \<Rightarrow> 6 * 1024 | Some n \<Rightarrow> n)"

definition expiration_of :: "auth_options \<Rightarrow> int" where
  "expiration_of p = ao_now p + (case ao_lifetime p of None \<Rightarrow> 3600 | Some n \<Rightarrow> n)"

definition is_ipv4_text :: "jstr \<Rightarrow> bool" where
  "is_ipv4_text s \<longleftrightarrow> (let ws = split_on 46 s in length ws = 4 \<and> list_all (\<lambda>w. w \<noteq> [] \<and> list_all is_digit w) ws)"

definition domain_text :: "jstr \<Rightarrow> bool" where
  "domain_text s \<longleftrightarrow> s \<noteq> [] \<and> (is_lower (hd s) \<or> is_digit (hd s)) \<and> (is_lower (last s) \<or> is_digit (last s))
     \<and> list_all (\<lambda>u. is_lower u \<or> is_digit u \<or> u = 46 \<or> u = 45) s"

definition scoped_domain :: "url \<Rightarrow> jstr option" where
  "scoped_domain u = (let hostname = lower_ascii (ur_hostname u) in
     if 58 \<in> set hostname \<or> is_ipv4_text hostname \<or> \<not> domain_text hostname then None else Some hostname)"

text \<open>The servers by domain; the scope of those without one has the key none.\<close>

type_synonym scopes = "(jstr option, jstr list) jmap"

definition scope_step :: "auth_env \<Rightarrow> jstr \<Rightarrow> scopes \<Rightarrow> upload_error + scopes" where
  "scope_step env server scopes =
     (case ae_url env server of None \<Rightarrow> Inl UA_url
      | Some u \<Rightarrow> (let d = scoped_domain u in
          Inr (AList.update d ((case map_of scopes d of None \<Rightarrow> [] | Some ss \<Rightarrow> ss) @ [server]) scopes)))"

record auth_state =
  as_headers :: "(jstr, (jstr, jstr) jmap) jmap"
  as_count :: nat

text \<open>The inner loop; its first round always looks at one hash, since the limit is positive.\<close>

fun extend_group :: "(jstr list \<Rightarrow> bool) \<Rightarrow> int \<Rightarrow> jstr list \<Rightarrow> jstr list \<Rightarrow> jstr list \<times> jstr list" where
  "extend_group fits n group' [] = (group', [])"
| "extend_group fits n group' (h # hs) =
     (if int (length group') < n \<and> fits (group' @ [h]) then extend_group fits n (group' @ [h]) hs else (group', h # hs))"

definition set_headers :: "jstr list \<Rightarrow> jstr \<Rightarrow> jstr \<Rightarrow> (jstr, (jstr, jstr) jmap) jmap \<Rightarrow> (jstr, (jstr, jstr) jmap) jmap" where
  "set_headers group' header server m =
     AList.update server (fold (\<lambda>h. AList.update h header) group' (case map_of m server of None \<Rightarrow> [] | Some x \<Rightarrow> x)) m"

lemma extend_group_shorter: "length (snd (extend_group fits n group' hs)) \<le> length hs"
  by (induction fits n group' hs rule: extend_group.induct) auto

definition scope_fits :: "auth_options \<Rightarrow> jstr option \<Rightarrow> jstr list \<Rightarrow> bool" where
  "scope_fits p domain hs \<longleftrightarrow> conservative_bytes (upload_template_of (ao_now p) (expiration_of p) domain hs) \<le> max_header p"

function authorize_scope ::
  "auth_env \<Rightarrow> auth_options \<Rightarrow> jstr option \<Rightarrow> jstr list \<Rightarrow> jstr list \<Rightarrow> auth_state \<Rightarrow> upload_error + auth_state" where
  "authorize_scope env p domain servers [] st = Inr st"
| "authorize_scope env p domain servers (h # hs) st =
     (let k = as_count st in
      if ae_aborted env (2 * k) then Inl UA_aborted
      else if \<not> scope_fits p domain [h] then Inl UA_one_hash
      else (case extend_group (scope_fits p domain) (max_hashes p) [h] hs of (group', rest) \<Rightarrow>
        (let t = upload_template_of (ao_now p) (expiration_of p) domain group' in
         case ae_signer env k t of None \<Rightarrow> Inl UA_signer
         | Some e \<Rightarrow>
            if ae_aborted env (2 * k + 1) then Inl UA_aborted
            else if \<not> same_template e t then Inl UA_template
            else (case ae_verify env e of None \<Rightarrow> Inl UA_verify | Some False \<Rightarrow> Inl UA_template
              | Some True \<Rightarrow>
                 if field_bytes (header_of e t) > max_header p then Inl UA_oversized
                 else authorize_scope env p domain servers rest
                   (st\<lparr>as_headers := fold (set_headers group' (header_of e t)) servers (as_headers st),
                       as_count := k + 1\<rparr>)))))"
  by pat_completeness auto
termination
proof (relation "measure (\<lambda>(env, p, domain, servers, hs, st). length hs)", goal_cases)
  case 1
  show ?case by simp
next
  case (2 env p domain servers h hs st)
  then show ?case using extend_group_shorter [of "scope_fits p domain" "max_hashes p" "[h]" hs] by (auto simp: less_Suc_eq_le) (metis snd_conv)
qed

record auth_batch =
  ab_expiration :: int
  ab_count :: nat
  ab_headers :: "(jstr, (jstr, jstr) jmap) jmap"

definition create_authorization :: "auth_env \<Rightarrow> auth_options \<Rightarrow> upload_error + auth_batch" where
  "create_authorization env p =
     (let hashes = uniq (ao_hashes p) in
      if \<not> safe_int (max_hashes p) \<or> max_hashes p < 1 then Inl UA_hash_limit
      else if \<not> safe_int (max_header p) \<or> max_header p < 1 then Inl UA_header_limit
      else if hashes = [] \<or> list_ex (\<lambda>h. \<not> is_hash h) hashes then Inl UA_hashes
      else ebind (fold_err (scope_step env) (ao_servers p) []) (\<lambda>scopes.
           ebind (fold_err (\<lambda>(domain, servers). authorize_scope env p domain servers hashes) scopes
             \<lparr>as_headers = [], as_count = 0\<rparr>) (\<lambda>st.
             Inr \<lparr>ab_expiration = expiration_of p, ab_count = as_count st, ab_headers = as_headers st\<rparr>)))"

definition batch_header :: "auth_batch \<Rightarrow> jstr \<Rightarrow> jstr \<Rightarrow> jstr option" where
  "batch_header b server hash = Option.bind (map_of (ab_headers b) server) (\<lambda>m. map_of m hash)"

subsection \<open>Proving a replica (PublicationUploader)\<close>

text \<open>An answer: status, headers and body in pieces, which may end with an error. Cancelling may fail.\<close>

record upload_answer =
  ua_status :: int
  ua_length :: "jstr option"
  ua_body :: "bytes list"
  ua_broken :: bool
  ua_cancels :: bool

record upload_request =
  uq_url :: url
  uq_method :: jstr
  uq_headers :: "(string \<times> jstr) list"

record upload_env =
  ue_aborted :: bool
  ue_url :: "jstr \<Rightarrow> jstr \<Rightarrow> url option"
  ue_answer :: "upload_request \<Rightarrow> upload_answer option"
  ue_authorization :: "(jstr \<Rightarrow> candidate_blob \<Rightarrow> jstr option) option"
  ue_openable :: "jstr \<Rightarrow> bool"
  ue_json :: "jstr \<Rightarrow> jsval option"
  ue_descriptor :: "int option"

fun bounded_json_pieces :: "int \<Rightarrow> bool \<Rightarrow> bytes list \<Rightarrow> bytes \<Rightarrow> bytes option" where
  "bounded_json_pieces limit broken [] acc = (if broken then None else Some acc)"
| "bounded_json_pieces limit broken (p # ps) acc =
     (if int (length acc + length p) > limit then None else bounded_json_pieces limit broken ps (acc @ p))"

definition bounded_json :: "upload_env \<Rightarrow> upload_answer \<Rightarrow> jsval option" where
  "bounded_json env a =
     Option.bind (bounded_json_pieces (case ue_descriptor env of None \<Rightarrow> 16 * 1024 | Some n \<Rightarrow> n) (ua_broken a) (ua_body a) [])
       (\<lambda>bs. Option.bind (text_decode bs) (ue_json env))"

text \<open>\<open>/^(0|[1-9][0-9]*)$/\<close>.\<close>

definition decimal_text :: "jstr \<Rightarrow> bool" where
  "decimal_text s \<longleftrightarrow> s \<noteq> [] \<and> list_all is_digit s \<and> (s = js ''0'' \<or> hd s \<noteq> 48)"

definition server_base :: "jstr \<Rightarrow> jstr" where
  "server_base server = (if ends_with (js ''/'') server then server else server @ js ''/'')"

definition exact_length :: "candidate_blob \<Rightarrow> upload_answer \<Rightarrow> bool" where
  "exact_length entry a \<longleftrightarrow> (case ua_length a of None \<Rightarrow> False
     | Some s \<Rightarrow> decimal_text s \<and> js_number s = NU_fin (of_int (cb_size entry)))"

definition exact_descriptor :: "candidate_blob \<Rightarrow> jsval \<Rightarrow> bool" where
  "exact_descriptor entry v \<longleftrightarrow> field_of (Some v) ''sha256'' = Some (V_Str (cb_hash entry))
     \<and> field_of (Some v) ''size'' = Some (V_Int (cb_size entry))"

definition upload_headers :: "candidate_blob \<Rightarrow> jstr option \<Rightarrow> (string \<times> jstr) list" where
  "upload_headers entry auth =
     [(''content-length'', int_text (cb_size entry)), (''content-type'', js ''application/octet-stream''),
      (''x-sha-256'', cb_hash entry)]
     @ (case given auth of None \<Rightarrow> [] | Some a \<Rightarrow> [(''authorization'', a)])"

definition send_blob :: "upload_env \<Rightarrow> jstr \<Rightarrow> candidate_blob \<Rightarrow> jstr option \<Rightarrow> upload_error + bool" where
  "send_blob env server entry auth =
     (if \<not> ue_openable env (cb_path entry) then Inl UA_file
      else Inr (case ue_url env (js ''upload'') (server_base server) of None \<Rightarrow> False
        | Some u \<Rightarrow>
           (case ue_answer env \<lparr>uq_url = u, uq_method = js ''PUT'', uq_headers = upload_headers entry auth\<rparr> of
              None \<Rightarrow> False
            | Some a \<Rightarrow> if ua_status a \<noteq> 200 \<and> ua_status a \<noteq> 201 then False
                else (case bounded_json env a of None \<Rightarrow> False | Some v \<Rightarrow> exact_descriptor entry v))))"

definition prove_blob :: "upload_env \<Rightarrow> jstr \<Rightarrow> candidate_blob \<Rightarrow> upload_error + bool" where
  "prove_blob env server entry =
     (if ue_aborted env then Inl UA_aborted
      else (case ue_url env (cb_hash entry) (server_base server) of None \<Rightarrow> Inl UA_url
        | Some u \<Rightarrow>
           (case ue_answer env \<lparr>uq_url = u, uq_method = js ''HEAD'', uq_headers = []\<rparr> of None \<Rightarrow> Inr False
            | Some a \<Rightarrow>
               if \<not> ua_cancels a then Inr False
               else if ua_status a = 200 then Inr (exact_length entry a)
               else if ua_status a \<noteq> 404 then Inr False
               else (case ue_authorization env of None \<Rightarrow> send_blob env server entry None
                 | Some authorize \<Rightarrow> (case authorize server entry of None \<Rightarrow> Inl UA_signer
                     | Some x \<Rightarrow> send_blob env server entry (Some x))))))"

end
