(* ===== verification/Upload_Proofs.thy ===== *)
theory Upload_Proofs
  imports Upload Utf8_Order
begin

section \<open>Every server gets a header for every blob\<close>

subsection \<open>Lengths\<close>

definition ascii :: "jstr \<Rightarrow> bool" where
  "ascii s \<longleftrightarrow> (\<forall>u \<in> set s. u < 128)"

lemma ascii_simps [simp]: "ascii []" "ascii (u # s) \<longleftrightarrow> u < 128 \<and> ascii s" "ascii (s @ t) \<longleftrightarrow> ascii s \<and> ascii t"
  "ascii (concat ss) \<longleftrightarrow> (\<forall>s \<in> set ss. ascii s)" "ascii (rev s) \<longleftrightarrow> ascii s"
  "ascii (replicate n u) \<longleftrightarrow> n = 0 \<or> u < 128"
  by (auto simp: ascii_def)

lemma ascii_js: "ascii (js s) \<longleftrightarrow> (\<forall>c \<in> set s. of_char c < (128 :: nat))"
  by (simp add: ascii_def js_def)

lemma ascii_join: "ascii sep \<Longrightarrow> \<forall>s \<in> set ss. ascii s \<Longrightarrow> ascii (join_with sep ss)"
  by (induction sep ss rule: join_with.induct) auto

lemma length_utf8_ascii: "ascii s \<Longrightarrow> length (utf8 s) = length s"
proof -
  assume s: "ascii s"
  then have "plain s" by (auto simp: ascii_def plain_def)
  moreover have "utf8_scalar u = [u]" if "u \<in> set s" for u using s that by (auto simp: ascii_def utf8_scalar_def)
  ultimately have "utf8 s = concat (map (\<lambda>u. [u]) s)" by (simp add: utf8_plain cong: map_cong)
  then show ?thesis by simp
qed

lemma ascii_hex: "list_all is_lower_hex s \<Longrightarrow> ascii s"
  by (auto simp: ascii_def list_all_iff char_classes)

lemma ascii_digits: "ascii (dec_digits n)"
  using dec_digits_are_digits by (auto simp: ascii_def is_digit_def) fastforce

lemma ascii_int_text: "ascii (int_text n)"
  by (simp add: int_text_def ascii_digits)

lemma json_units_hex: "list_all is_lower_hex s \<Longrightarrow> json_units s = s"
  by (induction s rule: json_units.induct) (auto simp: char_classes high_surrogate_def low_surrogate_def json_unit_def)

lemma ascii_json_units: "ascii s \<Longrightarrow> ascii (json_units s)"
proof (induction s rule: json_units.induct)
  case (2 u)
  then show ?case
    by (auto simp: json_unit_def json_escape_def js_simps hex_digit_def high_surrogate_def low_surrogate_def)
next
  case (3 u v s)
  then show ?case
    by (auto simp: json_unit_def json_escape_def js_simps hex_digit_def high_surrogate_def low_surrogate_def)
qed simp

lemma ascii_json_text: "ascii s \<Longrightarrow> ascii (json_string_text s)"
  by (simp add: json_string_text_def ascii_json_units)

lemma ascii_json_array: "\<forall>s \<in> set ss. ascii s \<Longrightarrow> ascii (json_array ss)"
  by (simp add: json_array_def ascii_join)

lemma sextets_length: "length (sextets bs) = (4 * length bs + 2) div 3"
  by (induction bs rule: sextets.induct) (auto simp: algebra_simps)

lemma dropWhile_none: "\<forall>x \<in> set xs. \<not> P x \<Longrightarrow> dropWhile P xs = xs"
  by (induction xs) auto

lemma url_base64_text:
  "url_base64 bs = map (\<lambda>u. if u = 43 then 45 else if u = 47 then 95 else u) (map b64_char (sextets bs))"
proof -
  let ?f = "\<lambda>u :: nat. if u = 43 then 45 else if u = 47 then 95 else u"
  have "b64_char v \<noteq> 61" if "v \<in> set (sextets bs)" for v
    using b64_char_plain [OF sextets_bound [OF that]] by simp
  then have clean: "\<forall>x \<in> set (rev (map ?f (map b64_char (sextets bs)))). \<not> x = 61" by auto
  have pad: "dropWhile (\<lambda>u :: nat. u = 61) (replicate n 61 @ xs) = dropWhile (\<lambda>u. u = 61) xs" for n xs
    by (induction n) auto
  have "rev (map ?f (btoa bs)) = replicate (b64_pad bs) 61 @ rev (map ?f (map b64_char (sextets bs)))"
    by (simp add: btoa_sextets)
  then show ?thesis unfolding url_base64_def by (simp only: pad dropWhile_none [OF clean] rev_rev_ident)
qed

lemma field_bytes_header: "field_bytes (authorization_header j) = 23 + int ((4 * length (utf8 j) + 2) div 3)"
proof -
  have "b64_char v < 128" if "v \<in> set (sextets (utf8_bytes j))" for v
    using sextets_bound [OF that] by (auto simp: b64_char_def)
  then have "ascii (url_base64 (utf8_bytes j))" by (auto simp: ascii_def url_base64_text)
  moreover have "length (url_base64 (utf8_bytes j)) = (4 * length (utf8 j) + 2) div 3"
    by (simp add: url_base64_text sextets_length utf8_bytes_def)
  ultimately show ?thesis
    by (simp add: field_bytes_def authorization_header_def length_utf8_ascii ascii_js)
qed

lemma signed_json_length:
  assumes "list_all is_lower_hex i" "list_all is_lower_hex pubkey" "list_all is_lower_hex sig"
  shows "ascii (signed_json i pubkey sig t) \<longleftrightarrow> ascii (signed_json [] [] [] t)"
    "length (signed_json i pubkey sig t) = length i + length pubkey + length sig + length (signed_json [] [] [] t)"
  using assms
  by (simp_all add: signed_json_def json_object_def json_string_text_def json_units_hex ascii_hex)

definition ascii_template :: "upload_template \<Rightarrow> bool" where
  "ascii_template t \<longleftrightarrow> ascii (ut_content t) \<and> (\<forall>tag \<in> set (ut_tags t). \<forall>s \<in> set tag. ascii s)"

lemma ascii_signed_json: "ascii_template t \<Longrightarrow> ascii (signed_json [] [] [] t)"
  by (simp add: ascii_template_def signed_json_def json_object_def ascii_json_text ascii_json_array ascii_int_text ascii_js)

text \<open>The size that is reckoned with before signing is the size of the signed header.\<close>

lemma conservative_exact:
  assumes "ascii_template t" "list_all is_lower_hex (rp_id e)" "list_all is_lower_hex (rp_pubkey e)" "list_all is_lower_hex (rp_sig e)"
    "length (rp_id e) = 64" "length (rp_pubkey e) = 64" "length (rp_sig e) = 128"
  shows "field_bytes (header_of e t) = conservative_bytes t"
proof -
  have zeros: "list_all is_lower_hex (replicate n 48)" for n by (simp add: list_all_iff char_classes)
  show ?thesis
    using assms signed_json_length [of "rp_id e" "rp_pubkey e" "rp_sig e" t]
      signed_json_length [OF zeros zeros zeros, of 64 64 128 t] ascii_signed_json [OF assms(1)]
    by (simp add: header_of_def conservative_bytes_def field_bytes_header length_utf8_ascii)
qed

lemma ascii_upload_template:
  assumes "\<forall>h \<in> set hs. is_hash h" "case domain of None \<Rightarrow> True | Some d \<Rightarrow> domain_text d"
  shows "ascii_template (upload_template_of now expires domain hs)"
proof -
  have "ascii h" if "h \<in> set hs" for h using assms(1) that ascii_hex by (auto simp: is_hash_def)
  moreover have "ascii d" if "domain = Some d" for d
    using assms(2) that by (auto simp: domain_text_def ascii_def list_all_iff char_classes)
  ultimately show ?thesis
    by (auto simp: ascii_template_def upload_template_of_def ascii_js ascii_int_text split: option.splits)
qed

subsection \<open>Headers\<close>

definition header_entry :: "(jstr, (jstr, jstr) jmap) jmap \<Rightarrow> jstr \<Rightarrow> jstr \<Rightarrow> jstr option" where
  "header_entry m server h = Option.bind (map_of m server) (\<lambda>x. map_of x h)"

lemma fold_update_lookup: "map_of (fold (\<lambda>h. AList.update h x) hs m) k = (if k \<in> set hs then Some x else map_of m k)"
  by (induction hs arbitrary: m) (auto simp: map_of_update)

lemma header_entry_set: "header_entry (set_headers hs x server m) s k = (if s = server \<and> k \<in> set hs then Some x else header_entry m s k)"
  by (auto simp: header_entry_def set_headers_def map_of_update fold_update_lookup split: option.split)

lemma header_entry_fold:
  "header_entry (fold (set_headers hs x) servers m) s k = (if s \<in> set servers \<and> k \<in> set hs then Some x else header_entry m s k)"
  by (induction servers arbitrary: m) (auto simp: header_entry_set)

lemma extend_group_spec:
  assumes "extend_group fits n g hs = (g', rest)" "int (length g) \<le> n" "fits g"
  shows "int (length g') \<le> n \<and> fits g' \<and> (\<exists>more'. g' = g @ more' \<and> hs = more' @ rest)"
  using assms by (induction fits n g hs rule: extend_group.induct) (auto split: if_splits)

definition entry_ok :: "auth_env \<Rightarrow> auth_options \<Rightarrow> jstr \<Rightarrow> jstr \<Rightarrow> jstr \<Rightarrow> bool" where
  "entry_ok env p server h x \<longleftrightarrow> (\<exists>u e hs t k. ae_url env server = Some u \<and> ae_signer env k t = Some e
     \<and> t = upload_template_of (ao_now p) (expiration_of p) (scoped_domain u) hs
     \<and> x = header_of e t \<and> same_template e t \<and> ae_verify env e = Some True \<and> field_bytes x \<le> max_header p
     \<and> h \<in> set hs \<and> set hs \<subseteq> set (ao_hashes p) \<and> int (length hs) \<le> max_hashes p)"

definition headers_ok :: "auth_env \<Rightarrow> auth_options \<Rightarrow> auth_state \<Rightarrow> bool" where
  "headers_ok env p st \<longleftrightarrow> (\<forall>s h x. header_entry (as_headers st) s h = Some x \<longrightarrow> entry_ok env p s h x)"

definition in_domain :: "auth_env \<Rightarrow> jstr option \<Rightarrow> jstr list \<Rightarrow> bool" where
  "in_domain env d servers \<longleftrightarrow> servers \<noteq> [] \<and> (\<forall>s \<in> set servers. \<exists>u. ae_url env s = Some u \<and> scoped_domain u = d)"

definition covered :: "jstr list \<Rightarrow> jstr list \<Rightarrow> auth_state \<Rightarrow> auth_state \<Rightarrow> bool" where
  "covered servers hs st st' \<longleftrightarrow> (\<forall>s h. (s \<in> set servers \<and> h \<in> set hs) \<or> header_entry (as_headers st) s h \<noteq> None
     \<longrightarrow> header_entry (as_headers st') s h \<noteq> None)"

lemma authorize_scope_ok:
  assumes "authorize_scope env p d servers hs st = Inr st'" "1 \<le> max_hashes p" "set hs \<subseteq> set (ao_hashes p)"
    "in_domain env d servers" "headers_ok env p st"
  shows "headers_ok env p st' \<and> covered servers hs st st'"
  using assms
proof (induction "length hs" arbitrary: hs st rule: less_induct)
  case less
  show ?case
  proof (cases hs)
  case Nil
  then show ?thesis using less.prems by (simp add: covered_def)
next
  case (Cons h tl')
  let ?k = "as_count st" and ?n = "max_hashes p"
  obtain g rest where g: "extend_group (scope_fits p d) ?n [h] tl' = (g, rest)" by fastforce
  let ?t = "upload_template_of (ao_now p) (expiration_of p) d g"
  obtain e where e: "\<not> ae_aborted env (2 * ?k)" "scope_fits p d [h]" "ae_signer env ?k ?t = Some e"
    "\<not> ae_aborted env (2 * ?k + 1)" "same_template e ?t" "ae_verify env e = Some True"
    "\<not> field_bytes (header_of e ?t) > max_header p"
    and run: "authorize_scope env p d servers rest
       (st\<lparr>as_headers := fold (set_headers g (header_of e ?t)) servers (as_headers st), as_count := ?k + 1\<rparr>) = Inr st'"
    using less.prems(1) g by (auto simp: Cons Let_def split: if_splits option.splits bool.splits)
  let ?s = "st\<lparr>as_headers := fold (set_headers g (header_of e ?t)) servers (as_headers st), as_count := ?k + 1\<rparr>"
  obtain more' where spec: "int (length g) \<le> ?n" "g = [h] @ more'" "tl' = more' @ rest"
    using extend_group_spec [OF g] e(2) less.prems(2) by auto
  have ok: "headers_ok env p ?s"
    unfolding headers_ok_def
  proof (intro allI impI)
    fix s k x
    assume x: "header_entry (as_headers ?s) s k = Some x"
    show "entry_ok env p s k x"
    proof (cases "s \<in> set servers \<and> k \<in> set g")
      case True
      then obtain u where u: "ae_url env s = Some u" "scoped_domain u = d" using less.prems(4) by (auto simp: in_domain_def)
      have "set g \<subseteq> set (ao_hashes p)" using less.prems(3) spec by (auto simp: Cons)
      then show ?thesis
        unfolding entry_ok_def using x True u e spec(1)
        by (intro exI [of _ u] exI [of _ e] exI [of _ g] exI [of _ ?t] exI [of _ ?k]) (simp add: header_entry_fold)
    next
      case False
      then show ?thesis using x less.prems(5) unfolding headers_ok_def by (simp add: header_entry_fold split: if_splits)
    qed
  qed
  have "set rest \<subseteq> set (ao_hashes p)" using less.prems(3) spec by (auto simp: Cons)
  moreover have "length rest < length hs" using spec by (simp add: Cons)
  ultimately have "headers_ok env p st' \<and> covered servers rest ?s st'"
    using less.hyps [OF _ run less.prems(2) _ less.prems(4) ok] by blast
  then show ?thesis
    by (auto simp: covered_def header_entry_fold spec Cons)
  qed
qed

lemma scope_step_ok:
  assumes "scope_step env server scopes = Inr scopes'" "\<forall>d ss. map_of scopes d = Some ss \<longrightarrow> in_domain env d ss"
  shows "\<forall>d ss. map_of scopes' d = Some ss \<longrightarrow> in_domain env d ss"
    "(\<exists>d ss. map_of scopes' d = Some ss \<and> s \<in> set ss) \<longleftrightarrow> s = server \<or> (\<exists>d ss. map_of scopes d = Some ss \<and> s \<in> set ss)"
proof -
  obtain u where u: "ae_url env server = Some u"
    "scopes' = AList.update (scoped_domain u) ((case map_of scopes (scoped_domain u) of None \<Rightarrow> [] | Some ss \<Rightarrow> ss) @ [server]) scopes"
    using assms(1) by (auto simp: scope_step_def Let_def split: option.splits)
  let ?d = "scoped_domain u"
  let ?old = "case map_of scopes ?d of None \<Rightarrow> [] | Some ss \<Rightarrow> ss"
  have upd: "map_of scopes' d = (if d = ?d then Some (?old @ [server]) else map_of scopes d)" for d
    by (simp add: u(2) map_of_update)
  have "in_domain env ?d (?old @ [server])" using assms(2) u(1) by (cases "map_of scopes ?d") (auto simp: in_domain_def)
  then show "\<forall>d ss. map_of scopes' d = Some ss \<longrightarrow> in_domain env d ss" using assms(2) by (auto simp: upd)
  have "s \<in> set ?old \<longleftrightarrow> (\<exists>ss. map_of scopes ?d = Some ss \<and> s \<in> set ss)" by (cases "map_of scopes ?d") auto
  then show "(\<exists>d ss. map_of scopes' d = Some ss \<and> s \<in> set ss) \<longleftrightarrow> s = server \<or> (\<exists>d ss. map_of scopes d = Some ss \<and> s \<in> set ss)"
    unfolding upd by (metis (mono_tags) Un_iff empty_iff empty_set insert_iff list.simps(15) option.sel option.inject set_append)
qed

lemma scopes_ok:
  assumes "fold_err (scope_step env) servers scopes = Inr scopes'" "\<forall>d ss. map_of scopes d = Some ss \<longrightarrow> in_domain env d ss"
  shows "(\<forall>d ss. map_of scopes' d = Some ss \<longrightarrow> in_domain env d ss)
    \<and> (\<forall>s. (\<exists>d ss. map_of scopes' d = Some ss \<and> s \<in> set ss) \<longleftrightarrow> s \<in> set servers \<or> (\<exists>d ss. map_of scopes d = Some ss \<and> s \<in> set ss))"
  using assms
proof (induction servers arbitrary: scopes)
  case (Cons server servers)
  then obtain mid where mid: "scope_step env server scopes = Inr mid" "fold_err (scope_step env) servers mid = Inr scopes'"
    by (auto split: sum.splits)
  show ?case using Cons.IH [OF mid(2) scope_step_ok(1) [OF mid(1) Cons.prems(2)]] scope_step_ok(2) [OF mid(1) Cons.prems(2)] by auto
qed simp

lemma scopes_of_servers:
  assumes "fold_err (scope_step env) servers [] = Inr scopes"
  shows "map_of scopes d = Some ss \<Longrightarrow> in_domain env d ss" "map_of scopes d = Some ss \<Longrightarrow> s \<in> set ss \<Longrightarrow> s \<in> set servers"
    "s \<in> set servers \<Longrightarrow> \<exists>d ss. map_of scopes d = Some ss \<and> s \<in> set ss"
proof -
  have all: "(\<forall>d ss. map_of scopes d = Some ss \<longrightarrow> in_domain env d ss)
    \<and> (\<forall>s. (\<exists>d ss. map_of scopes d = Some ss \<and> s \<in> set ss) \<longleftrightarrow> s \<in> set servers)"
    using scopes_ok [OF assms] by simp
  show "map_of scopes d = Some ss \<Longrightarrow> in_domain env d ss" using all by blast
  show "map_of scopes d = Some ss \<Longrightarrow> s \<in> set ss \<Longrightarrow> s \<in> set servers" using all by blast
  show "s \<in> set servers \<Longrightarrow> \<exists>d ss. map_of scopes d = Some ss \<and> s \<in> set ss" using all by blast
qed

lemma jmap_ok_scopes: "fold_err (scope_step env) servers scopes = Inr scopes' \<Longrightarrow> jmap_ok scopes \<Longrightarrow> jmap_ok scopes'"
  by (erule fold_err_inv [where I = jmap_ok]) (auto simp: scope_step_def Let_def split: option.splits)

lemma authorize_scopes_ok:
  assumes "fold_err (\<lambda>(domain, servers). authorize_scope env p domain servers hs) scopes st = Inr st'" "1 \<le> max_hashes p"
    "set hs \<subseteq> set (ao_hashes p)" "\<forall>x \<in> set scopes. in_domain env (fst x) (snd x)" "headers_ok env p st"
  shows "headers_ok env p st' \<and> (\<forall>s h. ((\<exists>x \<in> set scopes. s \<in> set (snd x)) \<and> h \<in> set hs)
     \<or> header_entry (as_headers st) s h \<noteq> None \<longrightarrow> header_entry (as_headers st') s h \<noteq> None)"
  using assms
proof (induction scopes arbitrary: st)
  case (Cons x scopes)
  obtain d ss where x: "x = (d, ss)" by fastforce
  obtain mid where mid: "authorize_scope env p d ss hs st = Inr mid"
    "fold_err (\<lambda>(domain, servers). authorize_scope env p domain servers hs) scopes mid = Inr st'"
    using Cons.prems(1) by (auto simp: x split: sum.splits)
  have one: "headers_ok env p mid \<and> covered ss hs st mid"
    using authorize_scope_ok [OF mid(1) Cons.prems(2,3) _ Cons.prems(5)] Cons.prems(4) by (simp add: x)
  then have "headers_ok env p st' \<and> (\<forall>s h. ((\<exists>x \<in> set scopes. s \<in> set (snd x)) \<and> h \<in> set hs)
     \<or> header_entry (as_headers mid) s h \<noteq> None \<longrightarrow> header_entry (as_headers st') s h \<noteq> None)"
    using Cons.IH [OF mid(2) Cons.prems(2,3)] Cons.prems(4) by simp
  moreover have "\<exists>x \<in> set scopes. s \<in> set (snd x)" if "\<exists>y \<in> set (x # scopes). s \<in> set (snd y)" "s \<notin> set ss" for s
    using that by (auto simp: x)
  ultimately show ?case using one unfolding covered_def by meson
qed simp

text \<open>
  C32: Authorizations are complete: a batch that is created holds for every server and every hash
  it was asked for a header within the limit, made from an event that the signer answered to the
  template of a group of hashes, that has the fields of this template and verifies, whose tags name this hash among at most \<open>maxHashesPerEvent\<close> of those asked for,
  and whose scope is the domain of this server.
\<close>

theorem authorizations_complete:
  assumes "create_authorization env p = Inr b" "server \<in> set (ao_servers p)" "h \<in> set (ao_hashes p)"
  shows "\<exists>x. batch_header b server h = Some x \<and> entry_ok env p server h x"
proof -
  obtain scopes st where run: "1 \<le> max_hashes p" "fold_err (scope_step env) (ao_servers p) [] = Inr scopes"
    "fold_err (\<lambda>(domain, servers). authorize_scope env p domain servers (uniq (ao_hashes p))) scopes
       \<lparr>as_headers = [], as_count = 0\<rparr> = Inr st" "ab_headers b = as_headers st"
    using assms(1) by (auto simp: create_authorization_def Let_def ebind_Inr split: if_splits)
  have "jmap_ok scopes" using jmap_ok_scopes [OF run(2)] by simp
  then have mem: "(d, ss) \<in> set scopes \<longleftrightarrow> map_of scopes d = Some ss" for d ss by (rule jmap_ok_map_of)
  have "\<forall>x \<in> set scopes. in_domain env (fst x) (snd x)" "\<exists>x \<in> set scopes. server \<in> set (snd x)"
  proof -
    show "\<forall>x \<in> set scopes. in_domain env (fst x) (snd x)"
      using scopes_of_servers(1) [OF run(2)] mem by auto
    obtain d ss where "map_of scopes d = Some ss" "server \<in> set ss" using scopes_of_servers(3) [OF run(2) assms(2)] by blast
    then show "\<exists>x \<in> set scopes. server \<in> set (snd x)" using mem by (intro bexI [of _ "(d, ss)"]) simp_all
  qed
  moreover have "headers_ok env p \<lparr>as_headers = [], as_count = 0\<rparr>" by (simp add: headers_ok_def header_entry_def)
  ultimately have "headers_ok env p st \<and> header_entry (as_headers st) server h \<noteq> None"
    using authorize_scopes_ok [OF run(3,1)] assms(3) by simp
  then show ?thesis by (auto simp: headers_ok_def batch_header_def run(4) header_entry_def)
qed

subsection \<open>It is created for an honest signer\<close>

definition hex_of_length :: "nat \<Rightarrow> jstr \<Rightarrow> bool" where
  "hex_of_length n s \<longleftrightarrow> length s = n \<and> list_all is_lower_hex s"

definition honest :: "auth_env \<Rightarrow> bool" where
  "honest env \<longleftrightarrow> (\<forall>k t. \<exists>e. ae_signer env k t = Some e \<and> same_template e t \<and> ae_verify env e = Some True
     \<and> hex_of_length 64 (rp_id e) \<and> hex_of_length 64 (rp_pubkey e) \<and> hex_of_length 128 (rp_sig e))"

lemma scoped_domain_text: "scoped_domain u = Some d \<Longrightarrow> domain_text d"
  by (auto simp: scoped_domain_def Let_def split: if_splits)

lemma authorize_scope_succeeds:
  assumes "honest env" "\<forall>k. \<not> ae_aborted env k" "\<forall>h \<in> set hs. is_hash h \<and> scope_fits p d [h]" "1 \<le> max_hashes p"
    "case d of None \<Rightarrow> True | Some x \<Rightarrow> domain_text x"
  shows "\<exists>st'. authorize_scope env p d servers hs st = Inr st'"
  using assms(3)
proof (induction "length hs" arbitrary: hs st rule: less_induct)
  case less
  show ?case
  proof (cases hs)
    case Nil
    then show ?thesis by simp
  next
    case (Cons h tl')
    obtain g rest where g: "extend_group (scope_fits p d) (max_hashes p) [h] tl' = (g, rest)" by fastforce
    then obtain more' where spec: "scope_fits p d g" "g = [h] @ more'" "tl' = more' @ rest"
      using extend_group_spec [OF g] assms(4) less.prems by (auto simp: Cons)
    let ?t = "upload_template_of (ao_now p) (expiration_of p) d g"
    obtain e where e: "ae_signer env (as_count st) ?t = Some e" "same_template e ?t" "ae_verify env e = Some True"
      "hex_of_length 64 (rp_id e)" "hex_of_length 64 (rp_pubkey e)" "hex_of_length 128 (rp_sig e)"
      using assms(1) unfolding honest_def by blast
    have "\<forall>h \<in> set g. is_hash h" using less.prems by (auto simp: Cons spec)
    then have "field_bytes (header_of e ?t) = conservative_bytes ?t"
      using e(4-6) by (intro conservative_exact ascii_upload_template assms(5)) (simp_all add: hex_of_length_def)
    then have fits: "\<not> field_bytes (header_of e ?t) > max_header p" using spec(1) by (simp add: scope_fits_def)
    have "length rest < length hs" "\<forall>h \<in> set rest. is_hash h \<and> scope_fits p d [h]"
      using less.prems by (auto simp: Cons spec)
    then obtain st' where "authorize_scope env p d servers rest
       (st\<lparr>as_headers := fold (set_headers g (header_of e ?t)) servers (as_headers st), as_count := as_count st + 1\<rparr>) = Inr st'"
      using less.hyps by blast
    then show ?thesis using assms(2) less.prems e(1-3) fits by (simp add: Cons Let_def g)
  qed
qed

lemma fold_err_succeeds:
  assumes "\<And>x s. x \<in> set xs \<Longrightarrow> \<exists>t. f x s = Inr t"
  shows "\<exists>t. fold_err f xs s = Inr t"
  using assms
proof (induction xs arbitrary: s)
  case (Cons x xs)
  then obtain t where "f x s = Inr t" by (meson list.set_intros(1))
  then show ?case using Cons by simp
qed simp

text \<open>
  Authorizations succeed: when the servers' URLs parse, every hash alone fits into a header, and
  the signer signs what it is asked for with an identifier, key and signature of the usual lengths, a
  batch is created. The size that is reckoned with before signing is then that of the signed
  header, so that the second check never fails.
\<close>

lemma authorizations_succeed:
  assumes "honest env" "\<forall>k. \<not> ae_aborted env k" "ao_hashes p \<noteq> []" "\<forall>h \<in> set (ao_hashes p). is_hash h"
    "1 \<le> max_hashes p" "safe_int (max_hashes p)" "1 \<le> max_header p" "safe_int (max_header p)"
    "\<forall>s \<in> set (ao_servers p). \<exists>u. ae_url env s = Some u
       \<and> (\<forall>h \<in> set (ao_hashes p). conservative_bytes (upload_template_of (ao_now p) (expiration_of p) (scoped_domain u) [h]) \<le> max_header p)"
  shows "\<exists>b. create_authorization env p = Inr b"
proof -
  have "\<exists>t. scope_step env s x = Inr t" if "s \<in> set (ao_servers p)" for s x
    using bspec [OF assms(9) that] by (auto simp only: scope_step_def Let_def option.case)
  then have "\<exists>t. fold_err (scope_step env) (ao_servers p) [] = Inr t" by (rule fold_err_succeeds)
  then obtain scopes where scopes: "fold_err (scope_step env) (ao_servers p) [] = Inr scopes" ..
  have ok: "jmap_ok scopes" using jmap_ok_scopes [OF scopes] by simp
  have "\<exists>t. (case x of (domain, servers) \<Rightarrow> authorize_scope env p domain servers (uniq (ao_hashes p))) st = Inr t"
    if "x \<in> set scopes" for x st
  proof -
    obtain d ss where x: "x = (d, ss)" by fastforce
    then have found: "map_of scopes d = Some ss" using that ok by (simp add: jmap_ok_map_of)
    have dom: "in_domain env d ss" "s \<in> set ss \<Longrightarrow> s \<in> set (ao_servers p)" for s
      using scopes_of_servers(1) [OF scopes found] scopes_of_servers(2) [OF scopes found] by simp_all
    have "ss \<noteq> []" using dom(1) by (simp add: in_domain_def)
    then obtain s where s: "s \<in> set ss" by (meson list.set_sel(1))
    then obtain u where "ae_url env s = Some u" "scoped_domain u = d"
      using dom(1) unfolding in_domain_def by blast
    note u = dom(2) [OF s] this
    have "\<forall>h \<in> set (ao_hashes p). scope_fits p d [h]"
      using bspec [OF assms(9) u(1)] unfolding u(2) u(3) [symmetric] scope_fits_def by blast
    then have "\<forall>h \<in> set (uniq (ao_hashes p)). is_hash h \<and> scope_fits p d [h]" using assms(4) by simp
    moreover have "case d of None \<Rightarrow> True | Some x \<Rightarrow> domain_text x"
      using scoped_domain_text u(3) by (auto split: option.split)
    ultimately show ?thesis using authorize_scope_succeeds [OF assms(1,2) _ assms(5)] by (simp add: x)
  qed
  then have "\<exists>t. fold_err (\<lambda>(domain, servers). authorize_scope env p domain servers (uniq (ao_hashes p))) scopes
       \<lparr>as_headers = [], as_count = 0\<rparr> = Inr t" by (rule fold_err_succeeds)
  then obtain st where "fold_err (\<lambda>(domain, servers). authorize_scope env p domain servers (uniq (ao_hashes p))) scopes
       \<lparr>as_headers = [], as_count = 0\<rparr> = Inr st" ..
  moreover have "uniq (ao_hashes p) \<noteq> []" using assms(3) by (metis set_empty set_uniq)
  moreover have "\<not> list_ex (\<lambda>h. \<not> is_hash h) (uniq (ao_hashes p))" using assms(4) by (simp add: list_ex_iff)
  ultimately show ?thesis
    using assms(5-8) scopes by (simp add: create_authorization_def)
qed

subsection \<open>Witnesses\<close>

definition sample_signed_event :: "upload_template \<Rightarrow> raw_publication" where
  "sample_signed_event t = \<lparr>rp_id = replicate 64 48, rp_pubkey = replicate 64 48, rp_created_at = V_Int (ut_created t),
     rp_kind = V_Int (ut_kind t), rp_tags = V_Arr (map (\<lambda>x. V_Arr (map V_Str x)) (ut_tags t)),
     rp_content = ut_content t, rp_sig = replicate 128 48\<rparr>"

definition sample_auth_env :: auth_env where
  "sample_auth_env = \<lparr>ae_url = (\<lambda>s. Some \<lparr>ur_protocol = js ''https:'', ur_username = [], ur_password = [],
       ur_hostname = js ''h'', ur_port = [], ur_path = js ''/'', ur_query = None, ur_fragment = None\<rparr>),
     ae_verify = (\<lambda>e. Some True), ae_signer = (\<lambda>k t. Some (sample_signed_event t)), ae_aborted = (\<lambda>k. False)\<rparr>"

definition sample_auth_options :: auth_options where
  "sample_auth_options = \<lparr>ao_hashes = [replicate 64 97], ao_servers = [js ''s''], ao_now = 0, ao_lifetime = None,
     ao_max_hashes = None, ao_max_header = None\<rparr>"

lemma sample_hex: "list_all is_lower_hex (replicate n 48)" "list_all is_lower_hex (replicate n 97)"
  by (simp_all add: list_all_iff char_classes)

lemma sample_json: "length (signed_json [] [] [] (upload_template_of 0 3600 (Some (js ''h'')) [replicate 64 97])) \<le> 1024"
proof -
  have digits: "dec_digits 24242 = [50, 52, 50, 52, 50]" "dec_digits 3600 = [51, 54, 48, 48]" "dec_digits 0 = [48]"
    by (simp_all add: dec_digits.simps)
  show ?thesis
    by (simp add: signed_json_def json_object_def json_array_def upload_template_of_def json_string_text_def int_text_def digits
        js_simps json_unit_def high_surrogate_def low_surrogate_def json_units_hex [OF sample_hex(2)])
qed

lemma sample_size: "conservative_bytes (upload_template_of 0 3600 (Some (js ''h'')) [replicate 64 97]) \<le> 6 * 1024"
proof -
  let ?t = "upload_template_of 0 3600 (Some (js ''h'')) [replicate 64 97]"
  let ?j = "signed_json (replicate 64 48) (replicate 64 48) (replicate 128 48) ?t"
  have "ascii_template ?t"
    by (rule ascii_upload_template) (simp_all add: is_hash_def sample_hex domain_text_def js_simps char_classes)
  then have "ascii ?j" using signed_json_length(1) [OF sample_hex(1) sample_hex(1) sample_hex(1)] ascii_signed_json by blast
  then have "length (utf8 ?j) \<le> 64 + 64 + 128 + 1024"
    using signed_json_length(2) [OF sample_hex(1) sample_hex(1) sample_hex(1), of 64 64 128 ?t] sample_json by (simp add: length_utf8_ascii)
  then have "(4 * length (utf8 ?j) + 2) div 3 \<le> (4 * 1280 + 2) div 3" by (intro div_le_mono) simp
  then show ?thesis by (simp add: conservative_bytes_def field_bytes_header)
qed

lemma sample_created: "\<exists>b. create_authorization sample_auth_env sample_auth_options = Inr b"
proof (rule authorizations_succeed)
  show "honest sample_auth_env"
    by (simp add: honest_def sample_auth_env_def sample_signed_event_def same_template_def hex_of_length_def list_all_iff char_classes)
  have "scoped_domain (the (ae_url sample_auth_env s)) = Some (js ''h'')" for s
    by (simp add: sample_auth_env_def scoped_domain_def lower_ascii_def is_ipv4_text_def domain_text_def js_simps char_classes)
  then show "\<forall>s \<in> set (ao_servers sample_auth_options). \<exists>u. ae_url sample_auth_env s = Some u
     \<and> (\<forall>h \<in> set (ao_hashes sample_auth_options). conservative_bytes (upload_template_of (ao_now sample_auth_options)
          (expiration_of sample_auth_options) (scoped_domain u) [h]) \<le> max_header sample_auth_options)"
    using sample_size by (simp add: sample_auth_options_def expiration_of_def max_header_def sample_auth_env_def)
qed (simp_all add: sample_auth_env_def sample_auth_options_def max_hashes_def max_header_def safe_int_def max_safe_def
    is_hash_def list_all_iff char_classes)

theorem authorizations_complete_witness:
  "\<exists>b x. create_authorization sample_auth_env sample_auth_options = Inr b
     \<and> batch_header b (js ''s'') (replicate 64 97) = Some x
     \<and> entry_ok sample_auth_env sample_auth_options (js ''s'') (replicate 64 97) x"
proof -
  obtain b where b: "create_authorization sample_auth_env sample_auth_options = Inr b" using sample_created by blast
  have "js ''s'' \<in> set (ao_servers sample_auth_options)" "replicate 64 97 \<in> set (ao_hashes sample_auth_options)"
    by (simp_all add: sample_auth_options_def)
  then show ?thesis using authorizations_complete [OF b] b by blast
qed

end
