(* ===== verification/Scheduler.thy ===== *)
theory Scheduler
  imports Write_Publication
begin

section \<open>Batching changes (write/batch_scheduler.ts)\<close>

text \<open>
  Every change of the overlay marks the publication dirty and sets two timers anew: one for a quiet
  period since the last change, one for the longest time since the window was opened. The
  first that fires freezes the overlay as a batch; batches are built one after the other, and what is
  built becomes the pending candidate. An event is a call of the object, a timer that fires, an
  answer that a build waits for, or something outside: time that passes, or a change that others
  made to the repository. Diagnostics are left out, and so is what a listener of
  new batches does.
\<close>

subsection \<open>The state\<close>

record built_tree =
  bu_root :: jstr
  bu_nhash :: jstr
  bu_bytes :: int
  bu_inventory :: "candidate_blob list"
  bu_run :: jstr

text \<open>What the build at the head of the chain waits for.\<close>

datatype build_wait = BW_base | BW_tree | BW_dispose

text \<open>
  A timer is its time and the token it closes over. \<open>sc_failures\<close> are the errors of the
  repository that reached a caller or a timer, \<open>sc_announced\<close> the batches given to the listener.
\<close>

record scheduler =
  sc_repo :: write_state
  sc_now :: int
  sc_quiet :: "(int \<times> int) option"
  sc_maximum :: "(int \<times> int) option"
  sc_closed :: bool
  sc_queue :: "frozen_batch list"
  sc_build :: "(frozen_batch \<times> build_wait) option"
  sc_failures :: "write_error list"
  sc_announced :: "frozen_batch list"

record sched_options =
  so_quiet :: int
  so_resolves :: bool
  so_removes :: "jstr \<Rightarrow> bool"

subsection \<open>The timers\<close>

definition arm :: "sched_options \<Rightarrow> int \<Rightarrow> int \<Rightarrow> int \<Rightarrow> scheduler \<Rightarrow> scheduler" where
  "arm p token opened dirty c = c\<lparr>
     sc_quiet := Some (sc_now c + max 0 (dirty + so_quiet p - sc_now c), token),
     sc_maximum := Some (sc_now c + max 0 (opened + 60000 - sc_now c), token)\<rparr>"

definition sched_dirty :: "sched_options \<Rightarrow> int \<Rightarrow> jstr option \<Rightarrow> scheduler \<Rightarrow> scheduler" where
  "sched_dirty p generation base c =
     (if sc_closed c then c
      else (case mark_dirty generation (sc_now c) base (sc_repo c) of
          (Inl e, s) \<Rightarrow> c\<lparr>sc_repo := s, sc_failures := sc_failures c @ [e]\<rparr>
        | (Inr w, s) \<Rightarrow> arm p (ow_token w) (ow_opened w) (ow_dirty w) (c\<lparr>sc_repo := s\<rparr>)))"

definition enqueue_batch :: "frozen_batch \<Rightarrow> scheduler \<Rightarrow> scheduler" where
  "enqueue_batch b c = c\<lparr>sc_queue := sc_queue c @ [b]\<rparr>"

definition fire :: "int \<Rightarrow> scheduler \<Rightarrow> scheduler" where
  "fire token c =
     (if sc_closed c then c
      else (case claim_batch token (sc_repo c) of
          (Inl e, s) \<Rightarrow> c\<lparr>sc_repo := s, sc_quiet := None, sc_maximum := None, sc_failures := sc_failures c @ [e]\<rparr>
        | (Inr None, s) \<Rightarrow> c\<lparr>sc_repo := s, sc_quiet := None, sc_maximum := None\<rparr>
        | (Inr (Some b), s) \<Rightarrow> enqueue_batch b (c\<lparr>sc_repo := s, sc_quiet := None, sc_maximum := None,
            sc_announced := sc_announced c @ [b]\<rparr>)))"

subsection \<open>Building\<close>

text \<open>The next batch of the chain, when the one before has settled.\<close>

definition start_build :: "sched_options \<Rightarrow> scheduler \<Rightarrow> scheduler" where
  "start_build p c =
     (case (sc_build c, sc_queue c) of
        (None, b # bs) \<Rightarrow> c\<lparr>sc_queue := bs,
          sc_build := Some (b, if given (fb_base b) \<noteq> None \<and> so_resolves p then BW_base else BW_tree)\<rparr>
      | _ \<Rightarrow> c)"

definition build_failed :: "frozen_batch \<Rightarrow> scheduler \<Rightarrow> scheduler" where
  "build_failed b c = c\<lparr>sc_repo := mark_batch_failed (fb_id b) (sc_repo c), sc_build := Some (b, BW_dispose)\<rparr>"

definition base_answered :: "bool \<Rightarrow> scheduler \<Rightarrow> scheduler" where
  "base_answered resolved c =
     (case sc_build c of
        Some (b, BW_base) \<Rightarrow> if resolved then c\<lparr>sc_build := Some (b, BW_tree)\<rparr> else build_failed b c
      | _ \<Rightarrow> c)"

definition candidate_of :: "frozen_batch \<Rightarrow> built_tree \<Rightarrow> pending_candidate" where
  "candidate_of b t = \<lparr>pc_batch = fb_id b, pc_generation = fb_generation b, pc_root = bu_root t, pc_nhash = bu_nhash t,
     pc_blobs = int (length (bu_inventory t)), pc_bytes = bu_bytes t\<rparr>"

definition tree_answered :: "sched_options \<Rightarrow> built_tree option \<Rightarrow> scheduler \<Rightarrow> scheduler" where
  "tree_answered p answer c =
     (case sc_build c of
        Some (b, BW_tree) \<Rightarrow>
          (case answer of None \<Rightarrow> build_failed b c
           | Some t \<Rightarrow>
              (case record_pending (so_removes p) (sc_now c) b (candidate_of b t) (bu_inventory t) (Some (bu_run t)) (sc_repo c) of
                 (Inl e, s) \<Rightarrow> build_failed b (c\<lparr>sc_repo := s\<rparr>)
               | (Inr u, s) \<Rightarrow> c\<lparr>sc_repo := s, sc_build := Some (b, BW_dispose)\<rparr>))
      | _ \<Rightarrow> c)"

definition disposed :: "scheduler \<Rightarrow> scheduler" where
  "disposed c = (case sc_build c of Some (b, BW_dispose) \<Rightarrow> c\<lparr>sc_build := None\<rparr> | _ \<Rightarrow> c)"

definition close_scheduler :: "scheduler \<Rightarrow> scheduler" where
  "close_scheduler c = (if sc_closed c then c else c\<lparr>sc_closed := True, sc_quiet := None, sc_maximum := None\<rparr>)"

subsection \<open>The whole object\<close>

text \<open>The constructor: failed batches are built again, and an open window is armed.\<close>

definition start_scheduler :: "sched_options \<Rightarrow> int \<Rightarrow> write_state \<Rightarrow> write_error + scheduler" where
  "start_scheduler p now s =
     (let c = \<lparr>sc_repo = s, sc_now = now, sc_quiet = None, sc_maximum = None, sc_closed = False,
            sc_queue = failed_batches s, sc_build = None, sc_failures = [], sc_announced = []\<rparr> in
      case active_window s of Inl e \<Rightarrow> Inl e
      | Inr None \<Rightarrow> Inr c
      | Inr (Some w) \<Rightarrow> Inr (arm p (pw_token w) (pw_opened w) (pw_dirty w) c))"

datatype sched_event = EV_dirty int "jstr option" | EV_quiet | EV_maximum | EV_turn | EV_base bool
  | EV_tree "built_tree option" | EV_disposed | EV_close | EV_time int | EV_repository write_state

fun sched_advance :: "sched_options \<Rightarrow> sched_event \<Rightarrow> scheduler \<Rightarrow> scheduler" where
  "sched_advance p (EV_dirty generation base) c = sched_dirty p generation base c"
| "sched_advance p EV_quiet c = (case sc_quiet c of None \<Rightarrow> c | Some (due, token) \<Rightarrow> fire token c)"
| "sched_advance p EV_maximum c = (case sc_maximum c of None \<Rightarrow> c | Some (due, token) \<Rightarrow> fire token c)"
| "sched_advance p EV_turn c = start_build p c"
| "sched_advance p (EV_base resolved) c = base_answered resolved c"
| "sched_advance p (EV_tree answer) c = tree_answered p answer c"
| "sched_advance p EV_disposed c = disposed c"
| "sched_advance p EV_close c = close_scheduler c"
| "sched_advance p (EV_time t) c = c\<lparr>sc_now := t\<rparr>"
| "sched_advance p (EV_repository s) c = c\<lparr>sc_repo := s\<rparr>"

text \<open>
  A timer fires when it is due, time does not pass a timer that has not fired, and others do not
  touch the window: \<open>dirty\<close> and \<open>fire\<close> are the only callers of the two operations that do.
\<close>

definition not_after :: "int \<Rightarrow> (int \<times> int) option \<Rightarrow> bool" where
  "not_after t timer = (case timer of None \<Rightarrow> True | Some (due, token) \<Rightarrow> t \<le> due)"

definition due_now :: "int \<Rightarrow> (int \<times> int) option \<Rightarrow> bool" where
  "due_now t timer = (case timer of None \<Rightarrow> False | Some (due, token) \<Rightarrow> due \<le> t)"

fun on_time :: "sched_event \<Rightarrow> scheduler \<Rightarrow> bool" where
  "on_time EV_quiet c \<longleftrightarrow> due_now (sc_now c) (sc_quiet c)"
| "on_time EV_maximum c \<longleftrightarrow> due_now (sc_now c) (sc_maximum c)"
| "on_time (EV_time t) c \<longleftrightarrow> sc_now c \<le> t \<and> not_after t (sc_quiet c) \<and> not_after t (sc_maximum c)"
| "on_time (EV_repository s) c \<longleftrightarrow> wr_clock s = wr_clock (sc_repo c)"
| "on_time _ c \<longleftrightarrow> True"

definition clock_whole :: "write_state \<Rightarrow> bool" where
  "clock_whole s \<longleftrightarrow> (case wr_clock s of None \<Rightarrow> True
     | Some k \<Rightarrow> (ck_generation k = None \<longleftrightarrow> ck_active k = None) \<and> (ck_opened k = None \<longleftrightarrow> ck_active k = None)
         \<and> (ck_dirty k = None \<longleftrightarrow> ck_active k = None))"

text \<open>The columns of a window are set together and cleared together, also in what was stored before.\<close>

inductive sched_reachable :: "sched_options \<Rightarrow> int \<Rightarrow> scheduler \<Rightarrow> bool" for p started where
  start: "clock_whole s \<Longrightarrow> start_scheduler p started s = Inr c \<Longrightarrow> sched_reachable p started c"
| step: "sched_reachable p started c \<Longrightarrow> on_time ev c \<Longrightarrow> sched_reachable p started (sched_advance p ev c)"

end
