(* ===== verification/Scheduler_Proofs.thy ===== *)
theory Scheduler_Proofs
  imports Scheduler
begin

section \<open>When batches are frozen, and what a restart builds\<close>

subsection \<open>Windows are closed in time\<close>

text \<open>The clock row of the repository that the other operations leave alone.\<close>

lemma on_store_clock: "on_store f s = (r, s') \<Longrightarrow> wr_clock s' = wr_clock s"
  by (auto simp: on_store_def split: option.splits prod.splits sum.splits)

lemma release_superseded_clock: "release_superseded removes now old i s = (r, s') \<Longrightarrow> wr_clock s' = wr_clock s"
  by (auto simp: release_superseded_def sweep_content_def split: option.splits if_splits prod.splits sum.splits dest!: on_store_clock)

lemma add_pending_clock: "add_pending i run c s = Inr s' \<Longrightarrow> wr_clock s' = wr_clock s"
  by (auto simp: add_pending_def split: option.splits if_splits)

lemma fold_add_pending_clock: "fold_err (add_pending i run) bs s = Inr s' \<Longrightarrow> wr_clock s' = wr_clock s"
  by (induction bs arbitrary: s) (auto split: sum.splits dest!: add_pending_clock)

lemma own_pending_clock: "own_pending i run n s = Inr s' \<Longrightarrow> wr_clock s' = wr_clock s"
  by (auto simp: own_pending_def set_owners_def Let_def split: option.splits if_splits)

lemma record_pending_clock: "record_pending removes now b c blobs run s = (r, s') \<Longrightarrow> wr_clock s' = wr_clock s"
  by (auto simp: record_pending_def Let_def ebind_Inr split: sum.splits
      dest!: release_superseded_clock fold_add_pending_clock own_pending_clock)

lemma active_window_clock: "wr_clock s' = wr_clock s \<Longrightarrow> active_window s' = active_window s"
  by (simp add: active_window_def)

lemma clock_whole_clock: "wr_clock s' = wr_clock s \<Longrightarrow> clock_whole s' = clock_whole s"
  by (simp add: clock_whole_def)

definition armed :: "sched_options \<Rightarrow> int \<Rightarrow> publication_window \<Rightarrow> scheduler \<Rightarrow> bool" where
  "armed p started w c \<longleftrightarrow> (\<exists>q m. sc_quiet c = Some (q, pw_token w) \<and> sc_maximum c = Some (m, pw_token w)
     \<and> sc_now c \<le> q \<and> sc_now c \<le> m \<and> q \<le> max started (pw_dirty w + so_quiet p) \<and> m \<le> max started (pw_opened w + 60000)
     \<and> pw_dirty w + so_quiet p \<le> q \<and> pw_opened w + 60000 \<le> m)"

definition sched_ok :: "sched_options \<Rightarrow> int \<Rightarrow> scheduler \<Rightarrow> bool" where
  "sched_ok p started c \<longleftrightarrow> started \<le> sc_now c \<and> clock_whole (sc_repo c)
     \<and> (\<not> sc_closed c \<longrightarrow> sc_failures c = [] \<longrightarrow>
          (\<forall>w. active_window (sc_repo c) = Inr (Some w) \<longrightarrow> armed p started w c))"

lemma sched_ok_same:
  assumes "sched_ok p started c" "wr_clock (sc_repo d) = wr_clock (sc_repo c)" "sc_now d = sc_now c" "sc_quiet d = sc_quiet c"
    "sc_maximum d = sc_maximum c" "sc_closed d = sc_closed c" "sc_failures d = sc_failures c"
  shows "sched_ok p started d"
  using assms by (simp add: sched_ok_def armed_def active_window_clock [OF assms(2)] clock_whole_clock [OF assms(2)])

lemma start_ok: "clock_whole s \<Longrightarrow> start_scheduler p started s = Inr c \<Longrightarrow> sched_ok p started c"
  by (auto simp: start_scheduler_def Let_def sched_ok_def armed_def arm_def split: sum.splits option.splits)

lemma mark_dirty_window:
  assumes "mark_dirty g now base s = (Inr w, s')" "clock_whole s"
  shows "clock_whole s'" "ow_dirty w = now"
    "\<exists>v. active_window s' = Inr (Some v) \<and> pw_token v = ow_token w \<and> pw_opened v = ow_opened w \<and> pw_dirty v = now"
    "ow_opened w = now \<or> (\<exists>v. active_window s = Inr (Some v) \<and> pw_opened v = ow_opened w)"
  using assms by (auto simp: mark_dirty_def clock_whole_def active_window_def Let_def split: option.splits)

lemma mark_dirty_fails: "mark_dirty g now base s = (Inl e, s') \<Longrightarrow> s' = s"
  by (auto simp: mark_dirty_def Let_def split: option.splits)

lemma dirty_ok:
  assumes "sched_ok p started c" "0 \<le> so_quiet p"
  shows "sched_ok p started (sched_dirty p g base c)"
proof (cases "sc_closed c")
  case True
  then show ?thesis using assms by (simp add: sched_dirty_def)
next
  case False
  obtain r s' where run: "mark_dirty g (sc_now c) base (sc_repo c) = (r, s')" by fastforce
  have whole: "clock_whole (sc_repo c)" "started \<le> sc_now c" using assms(1) by (auto simp: sched_ok_def)
  show ?thesis
  proof (cases r)
    case (Inl e)
    then show ?thesis using mark_dirty_fails [of g "sc_now c" base "sc_repo c" e s'] run False whole
      by (simp add: sched_dirty_def sched_ok_def)
  next
    case (Inr w)
    note m = mark_dirty_window [OF run [unfolded Inr] whole(1)]
    have opened: "sc_now c \<le> max started (ow_opened w + 60000)" if "sc_failures c = []"
    proof -
      have "\<exists>x. sc_now c \<le> x \<and> x \<le> max started (pw_opened v + 60000)" if "active_window (sc_repo c) = Inr (Some v)" for v
        using assms(1) False that \<open>sc_failures c = []\<close> unfolding sched_ok_def armed_def by blast
      then show ?thesis using m(4) by fastforce
    qed
    show ?thesis
      using run False whole m(1-3) opened assms(2) by (auto simp: Inr sched_dirty_def sched_ok_def armed_def arm_def)
  qed
qed

lemma claim_batch_window:
  assumes "claim_batch token s = (Inr r, s')" "clock_whole s"
  shows "clock_whole s'"
    "active_window s = Inr (Some w) \<Longrightarrow> pw_token w = token \<Longrightarrow>
       active_window s' = Inr None \<and> (\<exists>b. r = Some b \<and> fb_token b = token \<and> fb_generation b = pw_generation w)"
    "active_window s' = Inr (Some v) \<Longrightarrow> active_window s = Inr (Some v)"
  using assms by (cases w; auto simp: claim_batch_def clock_whole_def active_window_def Let_def split: option.splits if_splits)+

lemma claim_batch_fails: "claim_batch token s = (Inl e, s') \<Longrightarrow> s' = s"
  by (auto simp: claim_batch_def Let_def split: option.splits if_splits)

lemma fire_ok:
  assumes "sched_ok p started c" "sc_quiet c = Some (q, token) \<or> sc_maximum c = Some (q, token)"
  shows "sched_ok p started (fire token c)"
proof (cases "sc_closed c")
  case True
  then show ?thesis using assms by (simp add: fire_def)
next
  case False
  obtain r s' where run: "claim_batch token (sc_repo c) = (r, s')" by fastforce
  have whole: "clock_whole (sc_repo c)" "started \<le> sc_now c" using assms(1) by (auto simp: sched_ok_def)
  show ?thesis
  proof (cases r)
    case (Inl e)
    then show ?thesis using claim_batch_fails [of token "sc_repo c" e s'] run False whole
      by (simp add: fire_def sched_ok_def)
  next
    case (Inr x)
    note b = claim_batch_window [OF run [unfolded Inr] whole(1)]
    have closed: "active_window s' \<noteq> Inr (Some v)" if none: "sc_failures c = []" for v
    proof
      assume v: "active_window s' = Inr (Some v)"
      then have before: "active_window (sc_repo c) = Inr (Some v)" by (rule b(3))
      then have "armed p started v c" using assms(1) False none by (simp add: sched_ok_def)
      then have "pw_token v = token" using assms(2) by (auto simp: armed_def)
      then show False using b(2) [OF before] v by simp
    qed
    then show ?thesis
      using run False whole b(1) by (cases x) (auto simp: Inr fire_def sched_ok_def enqueue_batch_def)
  qed
qed

lemma advance_ok:
  assumes "sched_ok p started c" "on_time ev c" "0 \<le> so_quiet p"
  shows "sched_ok p started (sched_advance p ev c)"
proof (cases ev)
  case (EV_dirty g base)
  then show ?thesis using dirty_ok [OF assms(1,3)] by simp
next
  case EV_quiet
  then show ?thesis using fire_ok [OF assms(1)] assms(1) by (auto split: option.split)
next
  case EV_maximum
  then show ?thesis using fire_ok [OF assms(1)] assms(1) by (auto split: option.split)
next
  case EV_turn
  show ?thesis unfolding EV_turn using assms(1)
    by (rule sched_ok_same) (auto simp: start_build_def split: option.split list.split)
next
  case (EV_base x)
  show ?thesis unfolding EV_base using assms(1)
    by (rule sched_ok_same) (auto simp: base_answered_def build_failed_def mark_batch_failed_def split: option.split build_wait.split)
next
  case (EV_tree x)
  show ?thesis unfolding EV_tree using assms(1)
    by (rule sched_ok_same) (auto simp: tree_answered_def build_failed_def mark_batch_failed_def
        split: option.split build_wait.split sum.split prod.split dest!: record_pending_clock)
next
  case EV_disposed
  show ?thesis unfolding EV_disposed using assms(1)
    by (rule sched_ok_same) (auto simp: disposed_def split: option.split build_wait.split)
next
  case EV_close
  then show ?thesis using assms(1) by (simp add: close_scheduler_def sched_ok_def)
next
  case (EV_time t)
  then show ?thesis using assms(1,2)
    by (fastforce simp: sched_ok_def armed_def not_after_def)
next
  case (EV_repository s)
  then have "wr_clock s = wr_clock (sc_repo c)" using assms(2) by simp
  then show ?thesis unfolding EV_repository using sched_ok_same [OF assms(1)] by simp
qed

lemma sched_reachable_ok: "sched_reachable p started c \<Longrightarrow> 0 \<le> so_quiet p \<Longrightarrow> sched_ok p started c"
  by (induction rule: sched_reachable.induct) (auto intro: start_ok advance_ok)

text \<open>
  C33: Windows close in time: as long as timers fire when they are due and no call of the repository
  throws, an open window is no older than a minute and its last change no older than the quiet
  time, counted from the start of the scheduler at the earliest; and an event that closes it comes
  after the quiet time or after the minute, and queues the batch of this window and of its generation.
\<close>

theorem windows_close_in_time:
  assumes "sched_reachable p started c" "0 \<le> so_quiet p" "\<not> sc_closed c" "sc_failures c = []"
    "active_window (sc_repo c) = Inr (Some w)"
  shows "sc_now c \<le> max started (pw_opened w + 60000) \<and> sc_now c \<le> max started (pw_dirty w + so_quiet p)
    \<and> (\<forall>ev. on_time ev c \<and> active_window (sc_repo (sched_advance p ev c)) = Inr None \<longrightarrow>
       (pw_dirty w + so_quiet p \<le> sc_now c \<or> pw_opened w + 60000 \<le> sc_now c)
       \<and> (\<exists>b. fb_token b = pw_token w \<and> fb_generation b = pw_generation w
            \<and> sc_queue (sched_advance p ev c) = sc_queue c @ [b]))"
proof (intro conjI)
  have ok: "sched_ok p started c" using sched_reachable_ok assms(1,2) .
  then obtain q m where timers: "sc_quiet c = Some (q, pw_token w)" "sc_maximum c = Some (m, pw_token w)"
    "sc_now c \<le> q" "sc_now c \<le> m" "q \<le> max started (pw_dirty w + so_quiet p)" "m \<le> max started (pw_opened w + 60000)"
    "pw_dirty w + so_quiet p \<le> q" "pw_opened w + 60000 \<le> m" and whole: "clock_whole (sc_repo c)"
    using assms(3-5) unfolding sched_ok_def armed_def by blast
  then show "sc_now c \<le> max started (pw_opened w + 60000)" "sc_now c \<le> max started (pw_dirty w + so_quiet p)" by linarith+
  show "\<forall>ev. on_time ev c \<and> active_window (sc_repo (sched_advance p ev c)) = Inr None \<longrightarrow>
       (pw_dirty w + so_quiet p \<le> sc_now c \<or> pw_opened w + 60000 \<le> sc_now c)
       \<and> (\<exists>b. fb_token b = pw_token w \<and> fb_generation b = pw_generation w
            \<and> sc_queue (sched_advance p ev c) = sc_queue c @ [b])"
  proof (intro allI impI)
    fix ev
    assume ev: "on_time ev c \<and> active_window (sc_repo (sched_advance p ev c)) = Inr None"
    have frozen: "\<exists>b. fb_token b = pw_token w \<and> fb_generation b = pw_generation w \<and> sc_queue (fire (pw_token w) c) = sc_queue c @ [b]"
      if gone: "active_window (sc_repo (fire (pw_token w) c)) = Inr None"
    proof (cases "claim_batch (pw_token w) (sc_repo c)")
      case (Pair r s')
      show ?thesis
      proof (cases r)
        case (Inl e)
        then show ?thesis using gone Pair claim_batch_fails [of "pw_token w" "sc_repo c" e s'] assms(3,5) by (simp add: fire_def)
      next
        case (Inr x)
        then show ?thesis using claim_batch_window(2) [OF Pair [unfolded Inr] whole assms(5) refl] Pair assms(3)
          by (auto simp: fire_def enqueue_batch_def)
      qed
    qed
    have same: "active_window (sc_repo d) = Inr None \<Longrightarrow> wr_clock (sc_repo d) = wr_clock (sc_repo c) \<Longrightarrow> False" for d :: scheduler
      using assms(5) active_window_clock [of "sc_repo d" "sc_repo c"] by simp
    show "(pw_dirty w + so_quiet p \<le> sc_now c \<or> pw_opened w + 60000 \<le> sc_now c)
       \<and> (\<exists>b. fb_token b = pw_token w \<and> fb_generation b = pw_generation w \<and> sc_queue (sched_advance p ev c) = sc_queue c @ [b])"
    proof (cases "ev = EV_quiet \<or> ev = EV_maximum")
      case True
      then show ?thesis using ev frozen timers by (auto simp: due_now_def)
    next
      case False
      then have "(\<exists>g base. ev = EV_dirty g base) \<or> wr_clock (sc_repo (sched_advance p ev c)) = wr_clock (sc_repo c)"
        using ev
        by (cases ev) (auto simp: start_build_def base_answered_def tree_answered_def disposed_def close_scheduler_def
            build_failed_def mark_batch_failed_def split: option.splits list.splits build_wait.splits sum.splits prod.splits
            dest!: record_pending_clock)
      moreover have "active_window (sc_repo (sched_dirty p g base c)) \<noteq> Inr None" for g base
      proof (cases "mark_dirty g (sc_now c) base (sc_repo c)")
        case (Pair r s')
        show ?thesis
        proof (cases r)
          case (Inl e)
          then show ?thesis using mark_dirty_fails [OF Pair [unfolded Inl]] Pair assms(3,5) by (simp add: sched_dirty_def)
        next
          case (Inr x)
          then show ?thesis using mark_dirty_window(3) [OF Pair [unfolded Inr] whole] Pair assms(3)
            by (auto simp: sched_dirty_def arm_def)
        qed
      qed
      ultimately show ?thesis using conjunct2 [OF ev] same by (metis sched_advance.simps(1))
    qed
  qed
qed

definition sample_schedule :: sched_options where
  "sample_schedule = \<lparr>so_quiet = 5000, so_resolves = False, so_removes = (\<lambda>x. True)\<rparr>"

definition fresh_clock :: clock_row where
  "fresh_clock = \<lparr>ck_next = 1, ck_active = None, ck_generation = None, ck_opened = None, ck_dirty = None, ck_base = None\<rparr>"

definition sample_scheduler :: scheduler where
  "sample_scheduler = \<lparr>sc_repo = empty_repository\<lparr>wr_clock := Some fresh_clock\<rparr>, sc_now = 0, sc_quiet = None,
     sc_maximum = None, sc_closed = False, sc_queue = [], sc_build = None, sc_failures = [], sc_announced = []\<rparr>"

theorem windows_close_in_time_witness:
  "\<exists>c w. sched_reachable sample_schedule 0 c \<and> active_window (sc_repo c) = Inr (Some w) \<and> sc_now c = 3000
     \<and> sc_now c \<le> max 0 (pw_opened w + 60000) \<and> sc_now c \<le> max 0 (pw_dirty w + so_quiet sample_schedule)"
proof -
  let ?w = "\<lparr>pw_token = 1, pw_generation = 1, pw_opened = 0, pw_dirty = 0, pw_base = None\<rparr>"
  let ?c = "sched_advance sample_schedule (EV_time 3000) (sched_advance sample_schedule (EV_dirty 1 None) sample_scheduler)"
  have "start_scheduler sample_schedule 0 (sc_repo sample_scheduler) = Inr sample_scheduler"
    by (simp add: start_scheduler_def sample_scheduler_def active_window_def fresh_clock_def failed_batches_def empty_repository_def)
  then have "sched_reachable sample_schedule 0 sample_scheduler"
    by (rule sched_reachable.start [rotated]) (simp add: clock_whole_def sample_scheduler_def fresh_clock_def)
  then have reach: "sched_reachable sample_schedule 0 ?c"
    by (intro sched_reachable.step) (simp_all add: sched_dirty_def sample_scheduler_def mark_dirty_def fresh_clock_def Let_def
        arm_def sample_schedule_def not_after_def)
  have "active_window (sc_repo ?c) = Inr (Some ?w)" "\<not> sc_closed ?c" "sc_failures ?c = []" "sc_now ?c = 3000"
    "0 \<le> so_quiet sample_schedule"
    by (simp_all add: sched_dirty_def sample_scheduler_def mark_dirty_def fresh_clock_def Let_def arm_def sample_schedule_def
        active_window_def given_def)
  then show ?thesis using windows_close_in_time [OF reach] reach by blast
qed

subsection \<open>A failed batch comes back\<close>

lemma active_window_queue: "start_scheduler p now s = Inr c \<Longrightarrow>
    sc_repo c = s \<and> sc_now c = now \<and> sc_queue c = failed_batches s \<and> sc_build c = None \<and> \<not> sc_closed c"
  by (auto simp: start_scheduler_def Let_def arm_def split: sum.splits option.splits)

lemma release_superseded_kept:
  "release_superseded removes now old i s = (r, s') \<Longrightarrow> wr_pending s' = wr_pending s \<and> wr_batches s' = wr_batches s"
  by (auto simp: release_superseded_def sweep_content_def on_store_def split: option.splits if_splits prod.splits sum.splits)

lemma fold_add_pending_kept: "fold_err (add_pending i run) bs s = Inr s' \<Longrightarrow> wr_batches s' = wr_batches s"
proof (induction bs arbitrary: s)
  case (Cons x bs)
  then obtain mid where mid: "add_pending i run x s = Inr mid" "fold_err (add_pending i run) bs mid = Inr s'"
    by (auto split: sum.splits)
  moreover have "wr_batches mid = wr_batches s" using mid(1) by (auto simp: add_pending_def split: option.splits if_splits)
  ultimately show ?case using Cons.IH [OF mid(2)] by simp
qed simp

lemma own_pending_kept: "own_pending i run n s = Inr s' \<Longrightarrow> wr_batches s' = wr_batches s"
  by (auto simp: own_pending_def set_owners_def Let_def split: option.splits if_splits)

lemma record_pending_kept:
  assumes "record_pending removes now b c blobs run s = (Inr u, s')"
  shows "wr_pending s' = Some (c\<lparr>pc_batch := fb_id b, pc_generation := fb_generation b\<rparr>)
    \<and> wr_batches s' = update_where (\<lambda>x. pb_id x = fb_id b \<and> pb_status x \<in> {B_building, B_failed})
        (\<lambda>x. x\<lparr>pb_status := B_pending\<rparr>) (wr_batches s)"
proof -
  obtain mid s1 where run: "fold_err (add_pending (fb_id b) (given run)) blobs (s\<lparr>wr_pending_blobs := []\<rparr>) = Inr mid"
    "own_pending (fb_id b) run (pc_blobs c) mid = Inr s1"
    using assms by (auto simp: record_pending_def Let_def ebind_Inr split: sum.splits)
  have "wr_batches s1 = wr_batches s"
    using fold_add_pending_kept [OF run(1)] own_pending_kept [OF run(2)] by simp
  then show ?thesis
    using assms run by (auto simp: record_pending_def Let_def dest!: release_superseded_kept)
qed

text \<open>
  C34: A restart builds what is out of date: a batch whose build had failed is built again when the
  scheduler is started, and when that works, its candidate replaces the pending one, also
  when this is of a newer generation. The newer batch is not among the failed ones, so that no
  start builds it again.
\<close>

theorem restart_replaces_newer:
  assumes "start_scheduler p now s = Inr c" "failed_batches s = b # bs" "fb_base b = None" "wr_pending s = Some newer"
    "pc_batch newer \<noteq> fb_id b" "\<forall>r \<in> set (wr_batches s). pb_id r = pc_batch newer \<longrightarrow> pb_status r = B_pending"
    "record_pending (so_removes p) now b (candidate_of b t) (bu_inventory t) (Some (bu_run t)) s = (Inr u, s')"
    "d = sched_advance p (EV_tree (Some t)) (sched_advance p EV_turn c)"
  shows "wr_pending (sc_repo d) = Some (candidate_of b t)
    \<and> pc_batch newer \<notin> fb_id ` set (failed_batches (sc_repo d)) \<and> (\<forall>x \<in> set (sc_queue d). fb_id x \<noteq> pc_batch newer)"
proof -
  note c = active_window_queue [OF assms(1)]
  have "sched_advance p EV_turn c = c\<lparr>sc_queue := bs, sc_build := Some (b, BW_tree)\<rparr>"
    using c assms(2,3) by (simp add: start_build_def given_def)
  then have d: "d = c\<lparr>sc_queue := bs, sc_repo := s', sc_build := Some (b, BW_dispose)\<rparr>"
    using c assms(7) by (simp add: assms(8) tree_answered_def)
  have newer: "pc_batch newer \<notin> fb_id ` set (failed_batches s)"
    using assms(6) by (auto simp: failed_batches_def)
  have kept: "wr_pending s' = Some (candidate_of b t) \<and> wr_batches s' = update_where (\<lambda>x. pb_id x = fb_id b \<and> pb_status x \<in> {B_building, B_failed})
      (\<lambda>x. x\<lparr>pb_status := B_pending\<rparr>) (wr_batches s)"
    using record_pending_kept [OF assms(7)] by (simp add: candidate_of_def)
  have "pc_batch newer \<notin> fb_id ` set (failed_batches s')"
    using assms(6) kept by (auto simp: failed_batches_def set_update_where)
  then show ?thesis using d kept newer assms(2) by (auto simp: image_iff)
qed

text \<open>The batch of generation 1 failed, that of generation 2 is pending, when the program is started again.\<close>

definition stale_repository :: write_state where
  "stale_repository = empty_repository\<lparr>wr_clock := Some fresh_clock, wr_sequence := 2,
     wr_batches := [\<lparr>pb_id = 1, pb_token = 1, pb_generation = 1, pb_base = None, pb_status = B_failed\<rparr>,
       \<lparr>pb_id = 2, pb_token = 2, pb_generation = 2, pb_base = None, pb_status = B_pending\<rparr>],
     wr_pending := Some \<lparr>pc_batch = 2, pc_generation = 2, pc_root = js ''b'', pc_nhash = js ''b'', pc_blobs = 0, pc_bytes = 0\<rparr>\<rparr>"

definition stale_tree :: built_tree where
  "stale_tree = \<lparr>bu_root = js ''a'', bu_nhash = js ''a'', bu_bytes = 0, bu_inventory = [], bu_run = js ''run:1''\<rparr>"

theorem restart_replaces_newer_witness:
  "\<exists>c q d. start_scheduler sample_schedule 0 stale_repository = Inr c
     \<and> map_option pc_generation (wr_pending (sc_repo c)) = Some 2
     \<and> d = sched_advance sample_schedule (EV_tree (Some stale_tree)) (sched_advance sample_schedule EV_turn c)
     \<and> wr_pending (sc_repo d) = Some q \<and> pc_generation q = 1
     \<and> 2 \<notin> fb_id ` set (failed_batches (sc_repo d))"
proof -
  let ?b = "\<lparr>fb_id = 1, fb_token = 1, fb_generation = 1, fb_base = None, fb_count = 0\<rparr>"
  obtain c where c: "start_scheduler sample_schedule 0 stale_repository = Inr c" "sc_repo c = stale_repository"
    by (simp add: start_scheduler_def active_window_def stale_repository_def fresh_clock_def)
  have failed: "failed_batches stale_repository = [?b]"
    by (simp add: failed_batches_def stale_repository_def entry_count_def empty_repository_def given_def)
  obtain s' where run: "record_pending (so_removes sample_schedule) 0 ?b (candidate_of ?b stale_tree) (bu_inventory stale_tree)
      (Some (bu_run stale_tree)) stale_repository = (Inr (), s')"
    by (simp add: record_pending_def own_pending_def candidate_of_def stale_tree_def stale_repository_def empty_repository_def
        owners_of_def copy_owner_def insert_rows_ignore_def set_owners_def release_superseded_def given_def js_simps)
  let ?d = "sched_advance sample_schedule (EV_tree (Some stale_tree)) (sched_advance sample_schedule EV_turn c)"
  have "wr_pending (sc_repo ?d) = Some (candidate_of ?b stale_tree) \<and> 2 \<notin> fb_id ` set (failed_batches (sc_repo ?d))"
    using restart_replaces_newer [OF c(1) failed _ _ _ _ run refl,
        of "\<lparr>pc_batch = 2, pc_generation = 2, pc_root = js ''b'', pc_nhash = js ''b'', pc_blobs = 0, pc_bytes = 0\<rparr>"]
    by (simp add: stale_repository_def)
  then show ?thesis using c by (auto simp: candidate_of_def stale_repository_def)
qed

end
