(* ===== verification/Blob_Fetch.thy ===== *)
theory Blob_Fetch
  imports Blob_Store State_Repository Config
begin

section \<open>Fetching blobs (blossom/source_plan.ts, blossom/blob_fetcher.ts)\<close>

text \<open>
  A publication names servers; with the configured ones they make a plan of sources. A blob is
  asked for at the sources of the plan in order, until one gives bytes with its hash, which the
  store keeps; a source that gives other bytes is quarantined. The parser of URLs, the answers of
  the network, SHA-256, random tokens and what others do to the store during a wait are parameters.
\<close>

subsection \<open>The plan\<close>

record source_candidate =
  sc_base :: jstr
  sc_origin :: jstr
  sc_trust :: source_trust

text \<open>\<open>candidate\<close>; the path without the slashes at its end, and the URL without a slash at its end.\<close>

definition plan_candidate :: "(jstr \<Rightarrow> url option) \<Rightarrow> source_trust \<Rightarrow> jstr \<Rightarrow> source_candidate option" where
  "plan_candidate parse trust s =
     (case parse s of None \<Rightarrow> None
      | Some u \<Rightarrow>
         if \<not> is_http u \<or> \<not> anonymous u \<or> url_search u \<noteq> [] \<or> (case ur_fragment u of None \<Rightarrow> False | Some f \<Rightarrow> f \<noteq> [])
         then None
         else Some \<lparr>sc_base = server_key (trim_path u), sc_origin = url_origin u, sc_trust = trust\<rparr>)"

record plan_input =
  pl_event :: "jstr list"
  pl_bud03 :: "jstr list"
  pl_extras :: "jstr list"
  pl_quarantined :: "jstr \<Rightarrow> bool"

definition plan_ordered :: "plan_input \<Rightarrow> (jstr \<times> source_trust) list" where
  "plan_ordered i = map (\<lambda>s. (s, T_publisher)) (pl_event i) @ map (\<lambda>s. (s, T_publisher)) (pl_bud03 i)
     @ map (\<lambda>s. (s, T_configured)) (pl_extras i)"

text \<open>The index of a base in \<open>seen\<close> is its index in the result.\<close>

definition plan_step :: "(jstr \<Rightarrow> url option) \<Rightarrow> plan_input \<Rightarrow> jstr \<times> source_trust \<Rightarrow> source_candidate list \<Rightarrow> source_candidate list" where
  "plan_step parse i = (\<lambda>(s, trust) result.
     (case plan_candidate parse trust s of None \<Rightarrow> result
      | Some item \<Rightarrow>
         if pl_quarantined i (sc_origin item) then result
         else if sc_base item \<in> sc_base ` set result
         then map (\<lambda>x. if sc_base x = sc_base item \<and> sc_trust item = T_configured \<and> sc_trust x \<noteq> T_configured
                        then item else x) result
         else result @ [item]))"

definition build_source_plan :: "(jstr \<Rightarrow> url option) \<Rightarrow> plan_input \<Rightarrow> source_candidate list" where
  "build_source_plan parse i = fold (plan_step parse i) (plan_ordered i) []"

subsection \<open>One attempt\<close>

text \<open>
  What a source answers: no answer when the fetch throws; \<open>fa_fails\<close> when reading the body ends with an
  error (the abort signal is one), \<open>fa_cancels\<close> when the body can be cancelled.
\<close>

record fetch_answer =
  fa_status :: int
  fa_length :: "jstr option"
  fa_pieces :: "bytes list"
  fa_fails :: bool
  fa_cancels :: bool

datatype attempt_error = AE_http | AE_size | AE_mismatch | AE_other

datatype fetch_error = FE_hash | FE_budget | FE_mismatch | FE_unavailable "(attempt_error \<times> source_candidate) list"
  | FE_store blob_error | FE_gone

record 'b fetch_bounds =
  fm_attempts :: int
  fm_transfer :: int
  fm_declared :: "int option"
  fm_before :: "'b \<Rightarrow> 'b option"
  fm_on_transfer :: "int \<Rightarrow> 'b \<Rightarrow> 'b option"

text \<open>The number of the attempt is an argument of everything that changes from one to the next.\<close>

record fetch_world =
  fw_sha :: "bytes \<Rightarrow> bytes"
  fw_answer :: "nat \<Rightarrow> source_candidate \<Rightarrow> fetch_answer option"
  fw_token :: "nat \<Rightarrow> jstr"
  fw_now :: "nat \<Rightarrow> int"
  fw_others :: "nat \<Rightarrow> store \<Rightarrow> store"
  fw_listener :: "nat \<Rightarrow> bool"
  fw_reason :: jstr

record 'b fetch_state =
  ft_store :: store
  ft_db :: state_db
  ft_budget :: 'b
  ft_contacts :: "(source_candidate \<times> attempt_error option) list"

definition bad_length :: "'b fetch_bounds \<Rightarrow> jstr \<Rightarrow> bool" where
  "bad_length lm s = (case safe_value (js_number s) of None \<Rightarrow> True
     | Some n \<Rightarrow> n < 0 \<or> n > fm_transfer lm \<or> (case fm_declared lm of None \<Rightarrow> False | Some d \<Rightarrow> n \<noteq> d))"

datatype answer_end = BD_complete | BD_size | BD_failed

text \<open>The stream given to the store: every piece is charged, then counted, before it is passed on.\<close>

fun passed_body :: "'b fetch_bounds \<Rightarrow> bool \<Rightarrow> bytes list \<Rightarrow> int \<Rightarrow> 'b \<Rightarrow> bytes list \<times> answer_end \<times> 'b" where
  "passed_body lm fails [] n b = ([], if fails then BD_failed else BD_complete, b)"
| "passed_body lm fails (p # ps) n b =
     (case fm_on_transfer lm (int (length p)) b of None \<Rightarrow> ([], BD_failed, b)
      | Some b' \<Rightarrow>
         (let n' = n + int (length p) in
          if n' > fm_transfer lm \<or> (case fm_declared lm of None \<Rightarrow> False | Some d \<Rightarrow> n' > d) then ([], BD_size, b')
          else (case passed_body lm fails ps n' b' of (qs, e, b'') \<Rightarrow> (p # qs, e, b''))))"

definition reserve_bytes :: "'b fetch_bounds \<Rightarrow> int" where
  "reserve_bytes lm = (case fm_declared lm of None \<Rightarrow> fm_transfer lm | Some d \<Rightarrow> d)"

text \<open>
  \<open>store.admit\<close> with the stream, and what follows it. When the reservation fails nothing is read
  (a piece that the stream may fetch ahead is left out).
\<close>

definition receive_body ::
  "fetch_world \<Rightarrow> 'b fetch_bounds \<Rightarrow> jstr \<Rightarrow> nat \<Rightarrow> fetch_answer \<Rightarrow> 'b fetch_state \<Rightarrow> (attempt_error + lease) \<times> 'b fetch_state" where
  "receive_body w lm expected k a st =
     (case reserve (fw_now w k) (fw_token w k) (reserve_bytes lm) (ft_store st) of
        (Inl e, s) \<Rightarrow> (Inl AE_other, st\<lparr>ft_store := s\<rparr>)
      | (Inr r, s) \<Rightarrow>
         (case passed_body lm (fa_fails a) (fa_pieces a) 0 (ft_budget st) of (pieces, ended, budget) \<Rightarrow>
            (case admit_finish (fw_sha w) (fw_now w k) \<lparr>bs_pieces = pieces, bs_fails = ended \<noteq> BD_complete\<rparr>
                    \<lparr>ad_origin = O_remote, ad_owner = None, ad_expected = Some expected\<rparr> r (fw_others w k s) of
               (Inl e, s') \<Rightarrow>
                 if e = BE_temp then (Inl AE_other, st\<lparr>ft_store := s'\<rparr>)
                 else (Inl (if ended = BD_complete \<and> to_hex (fw_sha w (concat pieces)) \<noteq> expected then AE_mismatch
                            else if ended = BD_size then AE_size else AE_other),
                       st\<lparr>ft_store := s', ft_budget := budget\<rparr>)
             | (Inr entry, s') \<Rightarrow>
                 (case entry of None \<Rightarrow> (Inl AE_other, st\<lparr>ft_store := s', ft_budget := budget\<rparr>)
                  | Some x \<Rightarrow>
                     if (case fm_declared lm of None \<Rightarrow> False | Some d \<Rightarrow> int (length (concat pieces)) \<noteq> d)
                     then (Inl AE_size, st\<lparr>ft_store := s', ft_budget := budget\<rparr>)
                     else (case lookup (fw_now w k) (ie_hash x) s' of
                         (Inr (Some l), s'') \<Rightarrow> (Inr l, st\<lparr>ft_store := s'', ft_budget := budget\<rparr>)
                       | (_, s'') \<Rightarrow> (Inl AE_other, st\<lparr>ft_store := s'', ft_budget := budget\<rparr>))))))"

definition attempt ::
  "fetch_world \<Rightarrow> 'b fetch_bounds \<Rightarrow> jstr \<Rightarrow> nat \<Rightarrow> source_candidate \<Rightarrow> 'b fetch_state \<Rightarrow> (attempt_error + lease) \<times> 'b fetch_state" where
  "attempt w lm expected k src st =
     (case fw_answer w k src of None \<Rightarrow> (Inl AE_other, st)
      | Some a \<Rightarrow>
         if fa_status a \<noteq> 200 then (Inl (if fa_cancels a then AE_http else AE_other), st)
         else if (case fa_length a of None \<Rightarrow> False | Some s \<Rightarrow> bad_length lm s)
         then (Inl (if fa_cancels a then AE_size else AE_other), st)
         else receive_body w lm expected k a st)"

subsection \<open>One source after the other\<close>

text \<open>
  The blob is given back once the listener saw it; that the listener throws, or that giving it back
  fails, counts as a failure of the source.
\<close>

definition finish_attempt :: "fetch_world \<Rightarrow> nat \<Rightarrow> lease \<Rightarrow> 'b fetch_state \<Rightarrow> attempt_error option \<times> 'b fetch_state" where
  "finish_attempt w k l st =
     (case release_lease (fw_now w k) (le_hash l) (ft_store st) of
        (Inl e, s) \<Rightarrow> (Some AE_other, st\<lparr>ft_store := s\<rparr>)
      | (Inr u, s) \<Rightarrow> (if fw_listener w k then None else Some AE_other, st\<lparr>ft_store := s\<rparr>))"

definition try_source ::
  "fetch_world \<Rightarrow> 'b fetch_bounds \<Rightarrow> jstr \<Rightarrow> nat \<Rightarrow> source_candidate \<Rightarrow> 'b fetch_state \<Rightarrow> attempt_error option \<times> 'b fetch_state" where
  "try_source w lm expected k src st =
     (case (case attempt w lm expected k src st of (Inl e, st1) \<Rightarrow> (Some e, st1)
            | (Inr l, st1) \<Rightarrow> finish_attempt w k l st1) of
        (failure, st2) \<Rightarrow> (failure, st2\<lparr>ft_contacts := ft_contacts st2 @ [(src, failure)],
          ft_db := (if failure = Some AE_mismatch then quarantine_origin (sc_origin src) (fw_reason w) (fw_now w k) (ft_db st2)
                    else ft_db st2)\<rparr>))"

fun try_sources ::
  "fetch_world \<Rightarrow> 'b fetch_bounds \<Rightarrow> jstr \<Rightarrow> nat \<Rightarrow> source_candidate list \<Rightarrow> (attempt_error \<times> source_candidate) list \<Rightarrow> 'b fetch_state
   \<Rightarrow> (fetch_error + unit) \<times> 'b fetch_state" where
  "try_sources w lm expected k [] failures st =
     (Inl (if map fst failures = [AE_mismatch] then FE_mismatch else FE_unavailable failures), st)"
| "try_sources w lm expected k (src # srcs) failures st =
     (if int k \<ge> fm_attempts lm
      then (Inl (if map fst failures = [AE_mismatch] then FE_mismatch else FE_unavailable failures), st)
      else if is_quarantined (sc_origin src) (ft_db st) then try_sources w lm expected k srcs failures st
      else (case fm_before lm (ft_budget st) of None \<Rightarrow> (Inl FE_budget, st)
        | Some b \<Rightarrow>
           (case try_source w lm expected k src (st\<lparr>ft_budget := b\<rparr>) of
              (None, st') \<Rightarrow> (Inr (), st')
            | (Some e, st') \<Rightarrow> try_sources w lm expected (Suc k) srcs (failures @ [(e, src)]) st')))"

definition populate ::
  "fetch_world \<Rightarrow> 'b fetch_bounds \<Rightarrow> jstr \<Rightarrow> source_candidate list \<Rightarrow> 'b fetch_state \<Rightarrow> (fetch_error + unit) \<times> 'b fetch_state" where
  "populate w lm expected srcs st = try_sources w lm expected 0 srcs [] st"

text \<open>
  \<open>fetch\<close>: the store first, then the sources, then the store again. A caller that finds the same hash
  already asked for waits for that population and only looks at the store afterwards:
  \<open>joined\<close> is how it ended.
\<close>

definition lookup_again :: "int \<Rightarrow> jstr \<Rightarrow> 'b fetch_state \<Rightarrow> (fetch_error + lease) \<times> 'b fetch_state" where
  "lookup_again now expected st =
     (case lookup now expected (ft_store st) of
        (Inl e, s) \<Rightarrow> (Inl (FE_store e), st\<lparr>ft_store := s\<rparr>)
      | (Inr None, s) \<Rightarrow> (Inl FE_gone, st\<lparr>ft_store := s\<rparr>)
      | (Inr (Some l), s) \<Rightarrow> (Inr l, st\<lparr>ft_store := s\<rparr>))"

definition fetch_verified ::
  "fetch_world \<Rightarrow> 'b fetch_bounds \<Rightarrow> (fetch_error + unit) option \<Rightarrow> jstr \<Rightarrow> source_candidate list \<Rightarrow> 'b fetch_state
   \<Rightarrow> (fetch_error + lease) \<times> 'b fetch_state" where
  "fetch_verified w lm joined expected srcs st =
     (if \<not> is_hash expected then (Inl FE_hash, st)
      else (case lookup (fw_now w 0) expected (ft_store st) of
          (Inl e, s) \<Rightarrow> (Inl (FE_store e), st\<lparr>ft_store := s\<rparr>)
        | (Inr (Some l), s) \<Rightarrow> (Inr l, st\<lparr>ft_store := s\<rparr>)
        | (Inr None, s) \<Rightarrow>
           (case (case joined of Some r \<Rightarrow> (r, st\<lparr>ft_store := fw_others w 0 s\<rparr>)
                  | None \<Rightarrow> populate w lm expected srcs (st\<lparr>ft_store := s\<rparr>)) of
              (Inl e, st') \<Rightarrow> (Inl e, st')
            | (Inr u, st') \<Rightarrow> lookup_again (fw_now w 0) expected st')))"

subsection \<open>A blob that is read (VerifiedBlob)\<close>

text \<open>
  \<open>vf_streams\<close> tells of each stream that was opened whether it has ended; \<open>vf_removals\<close> counts how often
  the lease was given back.
\<close>

record verified_file =
  vf_owner_released :: bool
  vf_references :: int
  vf_streams :: "bool list"
  vf_removals :: nat

definition new_verified :: verified_file where
  "new_verified = \<lparr>vf_owner_released = False, vf_references = 1, vf_streams = [], vf_removals = 0\<rparr>"

definition vf_release :: "verified_file \<Rightarrow> verified_file" where
  "vf_release v = (let n = vf_references v - 1 in
     v\<lparr>vf_references := n, vf_removals := (if n = 0 \<and> vf_removals v = 0 then 1 else vf_removals v)\<rparr>)"

definition vf_open :: "verified_file \<Rightarrow> verified_file" where
  "vf_open v = (if vf_owner_released v then v
     else v\<lparr>vf_references := vf_references v + 1, vf_streams := vf_streams v @ [False]\<rparr>)"

text \<open>A stream ends at its end, when it is cancelled and when it fails, but once.\<close>

definition vf_finish :: "nat \<Rightarrow> verified_file \<Rightarrow> verified_file" where
  "vf_finish i v = (if i < length (vf_streams v) \<and> \<not> vf_streams v ! i
     then vf_release (v\<lparr>vf_streams := (vf_streams v)[i := True]\<rparr>) else v)"

definition vf_dispose :: "verified_file \<Rightarrow> verified_file" where
  "vf_dispose v = (if vf_owner_released v then v else vf_release (v\<lparr>vf_owner_released := True\<rparr>))"

datatype vf_call = VF_open | VF_finish nat | VF_dispose

fun vf_step :: "vf_call \<Rightarrow> verified_file \<Rightarrow> verified_file" where
  "vf_step VF_open v = vf_open v"
| "vf_step (VF_finish i) v = vf_finish i v"
| "vf_step VF_dispose v = vf_dispose v"

definition vf_run :: "vf_call list \<Rightarrow> verified_file" where
  "vf_run calls = fold vf_step calls new_verified"

text \<open>\<open>blobFailureSources\<close>.\<close>

definition unavailable_sources :: "(attempt_error \<times> source_candidate) list \<Rightarrow> jstr list" where
  "unavailable_sources failures = uniq (map (sc_origin \<circ> snd) failures)"

end
