(* ===== verification/Blob_Fetch_Proofs.thy ===== *)
theory Blob_Fetch_Proofs
  imports Blob_Fetch Blob_Proofs "HOL-Library.Sublist"
begin

section \<open>Plans, quarantines and leases\<close>

subsection \<open>The plan\<close>

definition plan_items :: "(jstr \<Rightarrow> url option) \<Rightarrow> plan_input \<Rightarrow> source_candidate list" where
  "plan_items parse i = List.map_filter (\<lambda>(s, trust).
     (case plan_candidate parse trust s of None \<Rightarrow> None
      | Some x \<Rightarrow> if pl_quarantined i (sc_origin x) then None else Some x)) (plan_ordered i)"

text \<open>Of the usable items with a base, the first that is configured, else the first.\<close>

definition preferred :: "source_candidate list \<Rightarrow> jstr \<Rightarrow> source_candidate" where
  "preferred xs b = (case find (\<lambda>x. sc_base x = b \<and> sc_trust x = T_configured) xs of Some x \<Rightarrow> x
     | None \<Rightarrow> the (find (\<lambda>x. sc_base x = b) xs))"

definition item_step :: "source_candidate \<Rightarrow> source_candidate list \<Rightarrow> source_candidate list" where
  "item_step item result =
     (if sc_base item \<in> sc_base ` set result
      then map (\<lambda>x. if sc_base x = sc_base item \<and> sc_trust item = T_configured \<and> sc_trust x \<noteq> T_configured
                     then item else x) result
      else result @ [item])"

lemma item_step_known:
  "sc_base item \<in> sc_base ` set result \<Longrightarrow> item_step item result =
     map (\<lambda>x. if sc_base x = sc_base item \<and> sc_trust item = T_configured \<and> sc_trust x \<noteq> T_configured then item else x) result"
  "sc_base item \<notin> sc_base ` set result \<Longrightarrow> item_step item result = result @ [item]"
  by (simp_all add: item_step_def)

lemma plan_steps: "fold (plan_step parse i) xs acc = fold item_step (List.map_filter (\<lambda>(s, trust).
     (case plan_candidate parse trust s of None \<Rightarrow> None
      | Some x \<Rightarrow> if pl_quarantined i (sc_origin x) then None else Some x)) xs) acc"
  by (induction xs arbitrary: acc) (auto simp: plan_step_def item_step_def split: option.split)

lemma find_append: "find P (xs @ ys) = (case find P xs of None \<Rightarrow> find P ys | Some x \<Rightarrow> Some x)"
  by (induction xs) auto

lemma find_found: "find P xs = Some x \<Longrightarrow> x \<in> set xs \<and> P x"
  by (induction xs) (auto split: if_splits)

lemma uniq_snoc: "uniq (xs @ [x]) = (if x \<in> set xs then uniq xs else uniq xs @ [x])"
  by (simp add: uniq_def)

lemma preferred_base: "b \<in> sc_base ` set xs \<Longrightarrow> sc_base (preferred xs b) = b"
proof -
  assume "b \<in> sc_base ` set xs"
  then obtain y where y: "find (\<lambda>x. sc_base x = b) xs = Some y"
    by (cases "find (\<lambda>x. sc_base x = b) xs") (auto simp: find_None_iff)
  have "sc_base y = b" using find_found [OF y] by simp
  then show ?thesis
    using y by (cases "find (\<lambda>x. sc_base x = b \<and> sc_trust x = T_configured) xs") (auto simp: preferred_def dest: find_found)
qed

lemma preferred_configured:
  "b \<in> sc_base ` set xs \<Longrightarrow> sc_trust (preferred xs b) = T_configured \<longleftrightarrow> (\<exists>x \<in> set xs. sc_base x = b \<and> sc_trust x = T_configured)"
proof -
  assume "b \<in> sc_base ` set xs"
  then obtain x where x: "find (\<lambda>x. sc_base x = b) xs = Some x" "x \<in> set xs" "sc_base x = b"
    by (cases "find (\<lambda>x. sc_base x = b) xs") (auto simp: find_None_iff dest: find_found)
  show ?thesis
  proof (cases "find (\<lambda>x. sc_base x = b \<and> sc_trust x = T_configured) xs")
    case None
    then have "\<not> (\<exists>x \<in> set xs. sc_base x = b \<and> sc_trust x = T_configured)" by (auto simp: find_None_iff)
    then show ?thesis using None x by (auto simp: preferred_def)
  next
    case (Some y)
    then have "y \<in> set xs" "sc_base y = b" "sc_trust y = T_configured" by (auto dest: find_found)
    then show ?thesis using Some by (auto simp: preferred_def)
  qed
qed

lemma preferred_snoc:
  "preferred (xs @ [x]) b =
     (if sc_base x \<noteq> b then preferred xs b
      else if b \<notin> sc_base ` set xs then x
      else if sc_trust x = T_configured \<and> sc_trust (preferred xs b) \<noteq> T_configured then x else preferred xs b)"
proof (cases "b \<in> sc_base ` set xs")
  case True
  then obtain y where y: "find (\<lambda>x. sc_base x = b) xs = Some y"
    by (cases "find (\<lambda>x. sc_base x = b) xs") (auto simp: find_None_iff)
  have none: "find (\<lambda>x. sc_base x = b \<and> sc_trust x = T_configured) xs = None \<longleftrightarrow> sc_trust (preferred xs b) \<noteq> T_configured"
    using preferred_configured [OF True] by (auto simp: find_None_iff)
  show ?thesis
    using True y none by (cases "find (\<lambda>x. sc_base x = b \<and> sc_trust x = T_configured) xs") (auto simp: preferred_def find_append)
next
  case False
  then have "find (\<lambda>x. sc_base x = b) xs = None" "find (\<lambda>x. sc_base x = b \<and> sc_trust x = T_configured) xs = None"
    by (auto simp: find_None_iff)
  then show ?thesis using False by (auto simp: preferred_def find_append)
qed

text \<open>
  The plan of sources: of the servers of the event, of the publisher's list and of the
  configuration, in this order, those with a usable URL whose origin is not quarantined, each base
  once where it comes first, and as a configured source when any of its occurrences is one.
\<close>

theorem source_plan_exact:
  "build_source_plan parse i = map (preferred (plan_items parse i)) (uniq (map sc_base (plan_items parse i)))"
proof -
  have "fold item_step xs [] = map (preferred xs) (uniq (map sc_base xs))" for xs
  proof (induction xs rule: rev_induct)
    case Nil
    then show ?case by (simp add: uniq_def)
  next
    case (snoc x xs)
    let ?r = "map (preferred xs) (uniq (map sc_base xs))"
    have bases: "sc_base (preferred xs b) = b" if "b \<in> set (uniq (map sc_base xs))" for b
      using preferred_base that by simp
    then have images: "sc_base ` set ?r = sc_base ` set xs" by (force simp: image_iff)
    have step: "fold item_step (xs @ [x]) [] = item_step x ?r" by (simp add: snoc)
    show ?case
    proof (cases "sc_base x \<in> sc_base ` set xs")
      case True
      have "(if sc_base (preferred xs b) = sc_base x \<and> sc_trust x = T_configured \<and> sc_trust (preferred xs b) \<noteq> T_configured
          then x else preferred xs b) = preferred (xs @ [x]) b" if "b \<in> set (uniq (map sc_base xs))" for b
        using bases [OF that] that True by (auto simp: preferred_snoc)
      then show ?thesis unfolding step using True images by (simp add: item_step_known uniq_snoc)
    next
      case False
      have "preferred xs b = preferred (xs @ [x]) b" if "b \<in> set (uniq (map sc_base xs))" for b
        using that False by (auto simp: preferred_snoc)
      then show ?thesis unfolding step using False images by (simp add: item_step_known uniq_snoc preferred_snoc)
    qed
  qed
  then show ?thesis by (simp add: build_source_plan_def plan_steps plan_items_def)
qed

subsection \<open>A blob that is read\<close>

definition vf_ok :: "verified_file \<Rightarrow> bool" where
  "vf_ok v \<longleftrightarrow> vf_references v = (if vf_owner_released v then 0 else 1) + int (length (filter (\<lambda>b. \<not> b) (vf_streams v)))
     \<and> vf_removals v = (if vf_references v = 0 then 1 else 0)"

lemma open_streams_finish:
  "i < length xs \<Longrightarrow> \<not> xs ! i \<Longrightarrow> length (filter (\<lambda>b. \<not> b) xs) = Suc (length (filter (\<lambda>b. \<not> b) (xs[i := True])))"
proof (induction xs arbitrary: i)
  case (Cons x xs)
  then show ?case by (cases i) auto
qed simp

lemma vf_release_ok:
  assumes "vf_references v = (if vf_owner_released v then 0 else 1) + int (length (filter (\<lambda>b. \<not> b) (vf_streams v))) + 1"
    "vf_removals v = 0"
  shows "vf_ok (vf_release v)"
  using assms by (simp add: vf_ok_def vf_release_def Let_def)

lemma vf_step_ok: "vf_ok v \<Longrightarrow> vf_ok (vf_step call v)"
proof (cases call)
  case VF_open
  assume "vf_ok v"
  then show ?thesis by (auto simp: VF_open vf_open_def vf_ok_def)
next
  case (VF_finish i)
  assume ok: "vf_ok v"
  show ?thesis
  proof (cases "i < length (vf_streams v) \<and> \<not> vf_streams v ! i")
    case True
    then have "vf_ok (vf_release (v\<lparr>vf_streams := (vf_streams v)[i := True]\<rparr>))"
      using ok open_streams_finish [of i "vf_streams v"] by (intro vf_release_ok) (auto simp: vf_ok_def)
    then show ?thesis using True by (simp add: VF_finish vf_finish_def)
  next
    case False
    then show ?thesis using ok by (auto simp: VF_finish vf_finish_def)
  qed
next
  case VF_dispose
  assume ok: "vf_ok v"
  show ?thesis
  proof (cases "vf_owner_released v")
    case True
    then show ?thesis using ok by (simp add: VF_dispose vf_dispose_def)
  next
    case False
    then have "vf_ok (vf_release (v\<lparr>vf_owner_released := True\<rparr>))"
      using ok by (intro vf_release_ok) (auto simp: vf_ok_def)
    then show ?thesis using False by (simp add: VF_dispose vf_dispose_def)
  qed
qed

lemma vf_run_ok: "vf_ok (vf_run calls)"
proof -
  have "vf_ok (fold vf_step calls v)" if "vf_ok v" for v
    using that by (induction calls arbitrary: v) (auto intro: vf_step_ok)
  moreover have "vf_ok new_verified" by (simp add: vf_ok_def new_verified_def)
  ultimately show ?thesis by (simp add: vf_run_def)
qed

text \<open>
  C35: A lease is given back once: however the owner and the readers of a blob open, end, cancel and
  dispose, in whatever order and how often, the lease is given back at most once, and it has been
  given back exactly when the owner disposed of the blob and every stream has ended.
\<close>

theorem lease_given_back_once:
  "vf_removals (vf_run calls) = (if vf_owner_released (vf_run calls) \<and> list_all (\<lambda>b. b) (vf_streams (vf_run calls)) then 1 else 0)"
  using vf_run_ok [of calls] by (auto simp: vf_ok_def filter_empty_conv list_all_iff)

subsection \<open>Quarantine\<close>

text \<open>A body that was received whole and has another hash.\<close>

definition wrong_body :: "fetch_world \<Rightarrow> jstr \<Rightarrow> nat \<Rightarrow> source_candidate \<Rightarrow> bool" where
  "wrong_body w expected k src \<longleftrightarrow> (\<exists>a. fw_answer w k src = Some a \<and> fa_status a = 200 \<and> \<not> fa_fails a
     \<and> to_hex (fw_sha w (concat (fa_pieces a))) \<noteq> expected)"

lemma passed_complete: "passed_body lm fails ps n b = (qs, BD_complete, b') \<Longrightarrow> qs = ps \<and> \<not> fails"
  by (induction lm fails ps n b arbitrary: qs b' rule: passed_body.induct)
    (auto simp: Let_def split: if_splits option.splits prod.splits)

lemma receive_body_kept:
  assumes "receive_body w lm expected k a st = (r, st')"
  shows "ft_db st' = ft_db st \<and> ft_contacts st' = ft_contacts st
    \<and> (r = Inl AE_mismatch \<longrightarrow> \<not> fa_fails a \<and> to_hex (fw_sha w (concat (fa_pieces a))) \<noteq> expected)"
  using assms
  by (auto simp: receive_body_def split: prod.splits sum.splits option.splits if_splits dest!: passed_complete)

lemma attempt_kept:
  assumes "attempt w lm expected k src st = (r, st')"
  shows "ft_db st' = ft_db st \<and> ft_contacts st' = ft_contacts st \<and> (r = Inl AE_mismatch \<longrightarrow> wrong_body w expected k src)"
proof (cases "fw_answer w k src")
  case None
  then show ?thesis using assms by (auto simp: attempt_def)
next
  case (Some a)
  show ?thesis
  proof (cases "fa_status a = 200 \<and> \<not> (case fa_length a of None \<Rightarrow> False | Some s \<Rightarrow> bad_length lm s)")
    case True
    then have "receive_body w lm expected k a st = (r, st')" using assms Some by (simp add: attempt_def)
    then show ?thesis using receive_body_kept True Some unfolding wrong_body_def by blast
  next
    case False
    then show ?thesis using assms Some by (auto simp: attempt_def split: if_splits)
  qed
qed

lemma finish_attempt_kept:
  "finish_attempt w k l st = (f, st') \<Longrightarrow> ft_db st' = ft_db st \<and> ft_contacts st' = ft_contacts st \<and> f \<noteq> Some AE_mismatch"
  by (auto simp: finish_attempt_def split: prod.splits sum.splits if_splits)

lemma try_source_kept:
  assumes "try_source w lm expected k src st = (f, st')"
  shows "ft_contacts st' = ft_contacts st @ [(src, f)]"
    "ft_db st' = (if f = Some AE_mismatch then quarantine_origin (sc_origin src) (fw_reason w) (fw_now w k) (ft_db st) else ft_db st)"
    "f = Some AE_mismatch \<Longrightarrow> wrong_body w expected k src"
proof -
  obtain r st1 where run: "attempt w lm expected k src st = (r, st1)" by fastforce
  note kept = attempt_kept [OF run]
  obtain st2 where st2: "(case r of Inl e \<Rightarrow> (Some e, st1) | Inr l \<Rightarrow> finish_attempt w k l st1) = (f, st2)"
    "ft_contacts st' = ft_contacts st2 @ [(src, f)]"
    "ft_db st' = (if f = Some AE_mismatch then quarantine_origin (sc_origin src) (fw_reason w) (fw_now w k) (ft_db st2) else ft_db st2)"
    using assms run by (auto simp: try_source_def split: prod.splits sum.splits)
  have "ft_db st2 = ft_db st \<and> ft_contacts st2 = ft_contacts st \<and> (f = Some AE_mismatch \<longrightarrow> wrong_body w expected k src)"
    using st2(1) kept by (cases r) (auto dest!: finish_attempt_kept)
  then show "ft_contacts st' = ft_contacts st @ [(src, f)]"
    "ft_db st' = (if f = Some AE_mismatch then quarantine_origin (sc_origin src) (fw_reason w) (fw_now w k) (ft_db st) else ft_db st)"
    "f = Some AE_mismatch \<Longrightarrow> wrong_body w expected k src" using st2(2,3) by auto
qed

text \<open>
  What the code means by an answer with another hash, told without the steps of the code: status 200,
  no length announced that the limits exclude, the store has room and its temporary file is free,
  every piece is paid for and within the limits, the body ends without an error, and the digest of
  all of it is not the expected one.
\<close>

fun received :: "'b fetch_bounds \<Rightarrow> bytes list \<Rightarrow> int \<Rightarrow> 'b \<Rightarrow> bool" where
  "received lm [] n b = True"
| "received lm (p # ps) n b =
     (case fm_on_transfer lm (int (length p)) b of None \<Rightarrow> False
      | Some b' \<Rightarrow> n + int (length p) \<le> fm_transfer lm
          \<and> (case fm_declared lm of None \<Rightarrow> True | Some d \<Rightarrow> n + int (length p) \<le> d)
          \<and> received lm ps (n + int (length p)) b')"

definition room_for :: "fetch_world \<Rightarrow> 'b fetch_bounds \<Rightarrow> nat \<Rightarrow> store \<Rightarrow> bool" where
  "room_for w lm k s \<longleftrightarrow> (\<exists>r s'. reserve (fw_now w k) (fw_token w k) (reserve_bytes lm) s = (Inr r, s')
     \<and> map_of (st_tmp (fw_others w k s')) (admit_temp r) = None)"

definition sends_wrong :: "fetch_world \<Rightarrow> 'b fetch_bounds \<Rightarrow> jstr \<Rightarrow> nat \<Rightarrow> source_candidate \<Rightarrow> 'b fetch_state \<Rightarrow> bool" where
  "sends_wrong w lm expected k src st \<longleftrightarrow> (\<exists>a. fw_answer w k src = Some a \<and> fa_status a = 200
     \<and> (case fa_length a of None \<Rightarrow> True | Some s \<Rightarrow> \<not> bad_length lm s) \<and> \<not> fa_fails a
     \<and> room_for w lm k (ft_store st) \<and> received lm (fa_pieces a) 0 (ft_budget st)
     \<and> to_hex (fw_sha w (concat (fa_pieces a))) \<noteq> expected)"

lemma passed_received:
  "fst (snd (passed_body lm fails ps n b)) = BD_complete \<longleftrightarrow> \<not> fails \<and> received lm ps n b"
  by (induction lm fails ps n b rule: passed_body.induct)
    (auto simp: Let_def not_less case_prod_beta split: option.splits)

lemma admit_mismatch:
  assumes "is_hash expected" "to_hex (sha (concat ps)) \<noteq> expected"
  shows "\<exists>e s'. admit_finish sha now \<lparr>bs_pieces = ps, bs_fails = False\<rparr>
      \<lparr>ad_origin = O_remote, ad_owner = None, ad_expected = Some expected\<rparr> r s = (Inl e, s')
    \<and> (e = BE_temp \<longleftrightarrow> map_of (st_tmp s) (admit_temp r) \<noteq> None)"
proof -
  have there: "given (Some expected) = Some expected"
    using assms(1) by (cases expected) (simp_all add: given_def is_hash_def)
  have read: "(f = None \<longrightarrow> c = acc @ concat ps) \<and> f \<noteq> Some BE_temp"
    if "read_pieces n False ps acc = (f, c)" for n ps acc f c
    using that
  proof (induction ps arbitrary: acc)
    case (Cons p ps)
    then show ?case using Cons.IH [of "acc @ p"] by (auto split: if_splits)
  qed simp
  show ?thesis
  proof (cases "map_of (st_tmp s) (admit_temp r)")
    case None
    obtain f c where fc: "read_pieces (re_bytes r) False ps [] = (f, c)" by fastforce
    then show ?thesis using None there assms(2) read [OF fc]
      by (cases f) (auto simp: admit_finish_def admit_body_def Let_def)
  qed (simp add: admit_finish_def admit_body_def)
qed

lemma receive_body_mismatch_iff:
  assumes "is_hash expected"
  shows "fst (receive_body w lm expected k a st) = Inl AE_mismatch \<longleftrightarrow> \<not> fa_fails a
    \<and> room_for w lm k (ft_store st) \<and> received lm (fa_pieces a) 0 (ft_budget st)
    \<and> to_hex (fw_sha w (concat (fa_pieces a))) \<noteq> expected"
proof -
  obtain q s where q: "reserve (fw_now w k) (fw_token w k) (reserve_bytes lm) (ft_store st) = (q, s)" by fastforce
  obtain ps en b where p: "passed_body lm (fa_fails a) (fa_pieces a) 0 (ft_budget st) = (ps, en, b)"
    by (rule prod_cases3)
  have whole: "en = BD_complete \<longleftrightarrow> \<not> fa_fails a \<and> received lm (fa_pieces a) 0 (ft_budget st)"
    using passed_received [of lm "fa_fails a" "fa_pieces a" 0 "ft_budget st"] p by simp
  show ?thesis
  proof (cases q)
    case (Inl e)
    then show ?thesis using q by (simp add: receive_body_def room_for_def)
  next
    case (Inr res)
    show ?thesis
    proof (cases "en = BD_complete \<and> to_hex (fw_sha w (concat ps)) \<noteq> expected")
      case True
      then have ps: "ps = fa_pieces a"
        using passed_complete [of lm "fa_fails a" "fa_pieces a" 0 "ft_budget st" ps b] p by simp
      obtain e s' where e: "admit_finish (fw_sha w) (fw_now w k) \<lparr>bs_pieces = ps, bs_fails = False\<rparr>
          \<lparr>ad_origin = O_remote, ad_owner = None, ad_expected = Some expected\<rparr> res (fw_others w k s) = (Inl e, s')"
        "e = BE_temp \<longleftrightarrow> map_of (st_tmp (fw_others w k s)) (admit_temp res) \<noteq> None"
        using admit_mismatch [of expected "fw_sha w" ps "fw_now w k" res "fw_others w k s", OF assms conjunct2 [OF True]]
        by (elim exE conjE) (rule that)
      have "fst (receive_body w lm expected k a st) = Inl AE_mismatch \<longleftrightarrow> e \<noteq> BE_temp"
        using q Inr p True e(1) by (simp add: receive_body_def)
      moreover have "room_for w lm k (ft_store st) \<longleftrightarrow> e \<noteq> BE_temp" using q Inr e(2) by (simp add: room_for_def)
      ultimately show ?thesis using whole True ps by auto
    next
      case False
      have "fst (receive_body w lm expected k a st) \<noteq> Inl AE_mismatch"
      proof -
        obtain x s' where x: "admit_finish (fw_sha w) (fw_now w k) \<lparr>bs_pieces = ps, bs_fails = en \<noteq> BD_complete\<rparr>
            \<lparr>ad_origin = O_remote, ad_owner = None, ad_expected = Some expected\<rparr> res (fw_others w k s) = (x, s')"
          by fastforce
        let ?wrong = "if en = BD_complete \<and> to_hex (fw_sha w (concat ps)) \<noteq> expected then AE_mismatch
            else if en = BD_size then AE_size else AE_other"
        have wrong: "?wrong \<noteq> AE_mismatch" using False by simp
        show ?thesis
        proof (cases x)
          case (Inl e)
          have "fst (receive_body w lm expected k a st) = Inl (if e = BE_temp then AE_other else ?wrong)"
            unfolding receive_body_def q \<open>q = Inr res\<close> prod.case sum.case p x Inl by simp
          then show ?thesis using wrong by simp
        next
          case (Inr entry)
          note run = receive_body_def [of w lm expected k a st, unfolded q \<open>q = Inr res\<close> prod.case sum.case p x Inr]
          show ?thesis
          proof (cases entry)
            case (Some y)
            obtain u s2 where u: "lookup (fw_now w k) (ie_hash y) s' = (u, s2)" by fastforce
            show ?thesis unfolding run Some option.case u prod.case
              by (cases u) (simp_all split: option.split)
          qed (simp add: run)
        qed
      qed
      moreover have "ps = fa_pieces a" if "en = BD_complete"
        using passed_complete [of lm "fa_fails a" "fa_pieces a" 0 "ft_budget st" ps b] p that by simp
      ultimately show ?thesis using False whole by blast
    qed
  qed
qed

lemma attempt_mismatch_iff:
  assumes "is_hash expected"
  shows "fst (attempt w lm expected k src st) = Inl AE_mismatch \<longleftrightarrow> sends_wrong w lm expected k src st"
proof (cases "fw_answer w k src")
  case None
  then show ?thesis by (simp add: attempt_def sends_wrong_def)
next
  case (Some a)
  show ?thesis
  proof (cases "fa_status a = 200 \<and> (case fa_length a of None \<Rightarrow> True | Some s \<Rightarrow> \<not> bad_length lm s)")
    case True
    then have "attempt w lm expected k src st = receive_body w lm expected k a st"
      using Some by (simp add: attempt_def split: option.splits)
    then show ?thesis using receive_body_mismatch_iff [OF assms] Some True by (simp add: sends_wrong_def)
  next
    case False
    then show ?thesis using Some by (auto simp: attempt_def sends_wrong_def split: option.splits if_splits)
  qed
qed

lemma try_source_mismatch_iff:
  assumes "is_hash expected" "try_source w lm expected k src st = (f, st')"
  shows "f = Some AE_mismatch \<longleftrightarrow> sends_wrong w lm expected k src st"
proof -
  obtain r st1 where run: "attempt w lm expected k src st = (r, st1)" by fastforce
  have "f = Some AE_mismatch \<longleftrightarrow> r = Inl AE_mismatch"
    using assms(2) run finish_attempt_kept [of w k _ st1]
    by (cases r) (auto simp: try_source_def split: prod.splits)
  then show ?thesis using attempt_mismatch_iff [OF assms(1), of w lm k src st] run by simp
qed

text \<open>
  The contacts of a fetch, from state to state: each is charged, asks a source that is not
  quarantined then, and fails for a wrong hash exactly when the source sends another body.
\<close>

fun contact_trace ::
  "fetch_world \<Rightarrow> 'b fetch_bounds \<Rightarrow> jstr \<Rightarrow> nat \<Rightarrow> 'b fetch_state \<Rightarrow> (source_candidate \<times> attempt_error option) list \<Rightarrow> bool"
where
  "contact_trace w lm expected k st [] = True"
| "contact_trace w lm expected k st ((src, f) # cs) = (\<exists>b mid. fm_before lm (ft_budget st) = Some b
     \<and> \<not> is_quarantined (sc_origin src) (ft_db st)
     \<and> try_source w lm expected k src (st\<lparr>ft_budget := b\<rparr>) = (f, mid)
     \<and> (f = Some AE_mismatch \<longleftrightarrow> sends_wrong w lm expected k src (st\<lparr>ft_budget := b\<rparr>))
     \<and> contact_trace w lm expected (Suc k) mid cs)"

lemma quarantine_origin_iff: "is_quarantined x (quarantine_origin y reason t db) \<longleftrightarrow> x = y \<or> is_quarantined x db"
proof -
  have "qr_origin ` set (update_where (\<lambda>r. qr_origin r = y) (\<lambda>r. r\<lparr>qr_reason := reason, qr_at := t\<rparr>) q) = qr_origin ` set q" for q
  proof -
    have "map qr_origin (update_where (\<lambda>r. qr_origin r = y) (\<lambda>r. r\<lparr>qr_reason := reason, qr_at := t\<rparr>) q) = map qr_origin q"
      by (simp add: update_where_def)
    then show ?thesis by (metis list.set_map)
  qed
  then show ?thesis by (auto simp: is_quarantined_def quarantine_origin_def has_key_iff)
qed

text \<open>What a run of contacts, the first with number \<open>k\<close>, may be and does to the quarantine.\<close>

definition contacts_ok ::
  "fetch_world \<Rightarrow> jstr \<Rightarrow> nat \<Rightarrow> state_db \<Rightarrow> state_db \<Rightarrow> (source_candidate \<times> attempt_error option) list \<Rightarrow> bool" where
  "contacts_ok w expected k db db' cs \<longleftrightarrow>
     (\<forall>i < length cs. \<not> is_quarantined (sc_origin (fst (cs ! i))) db
        \<and> (\<forall>j < i. snd (cs ! j) = Some AE_mismatch \<longrightarrow> sc_origin (fst (cs ! j)) \<noteq> sc_origin (fst (cs ! i)))
        \<and> (snd (cs ! i) = Some AE_mismatch \<longrightarrow> wrong_body w expected (k + i) (fst (cs ! i))))
     \<and> (\<forall>x. is_quarantined x db' \<longleftrightarrow> is_quarantined x db \<or> (\<exists>c \<in> set cs. snd c = Some AE_mismatch \<and> sc_origin (fst c) = x))"

lemma contacts_ok_Nil: "contacts_ok w expected k db db []"
  by (simp add: contacts_ok_def)

lemma contacts_ok_Cons:
  assumes "contacts_ok w expected (Suc k) mid db' cs" "\<not> is_quarantined (sc_origin src) db"
    "mid = (if f = Some AE_mismatch then quarantine_origin (sc_origin src) reason t db else db)"
    "f = Some AE_mismatch \<Longrightarrow> wrong_body w expected k src"
  shows "contacts_ok w expected k db db' ((src, f) # cs)"
proof -
  have mid: "is_quarantined x mid \<longleftrightarrow> is_quarantined x db \<or> (f = Some AE_mismatch \<and> sc_origin src = x)" for x
    by (auto simp: assms(3) quarantine_origin_iff)
  have each: "\<not> is_quarantined (sc_origin (fst (((src, f) # cs) ! i))) db
        \<and> (\<forall>j < i. snd (((src, f) # cs) ! j) = Some AE_mismatch \<longrightarrow> sc_origin (fst (((src, f) # cs) ! j)) \<noteq> sc_origin (fst (((src, f) # cs) ! i)))
        \<and> (snd (((src, f) # cs) ! i) = Some AE_mismatch \<longrightarrow> wrong_body w expected (k + i) (fst (((src, f) # cs) ! i)))"
    if "i < length ((src, f) # cs)" for i
  proof (cases i)
    case 0
    then show ?thesis using assms(2,4) by simp
  next
    case (Suc m)
    then have m: "m < length cs" using that by simp
    have "\<not> is_quarantined (sc_origin (fst (cs ! m))) mid" using assms(1) m by (simp add: contacts_ok_def)
    moreover have "\<forall>j < Suc m. snd (((src, f) # cs) ! j) = Some AE_mismatch \<longrightarrow> sc_origin (fst (((src, f) # cs) ! j)) \<noteq> sc_origin (fst (cs ! m))"
    proof (intro allI impI)
      fix j
      assume "j < Suc m" "snd (((src, f) # cs) ! j) = Some AE_mismatch"
      then show "sc_origin (fst (((src, f) # cs) ! j)) \<noteq> sc_origin (fst (cs ! m))"
        using assms(1) m calculation mid by (cases j) (auto simp: contacts_ok_def)
    qed
    ultimately show ?thesis using assms(1) m mid by (auto simp: Suc contacts_ok_def)
  qed
  then show ?thesis
    using assms(1) mid unfolding contacts_ok_def by auto
qed

lemma try_sources_contacts:
  assumes "try_sources w lm expected k srcs failures st = (r, st')" "is_hash expected"
  shows "\<exists>cs. ft_contacts st' = ft_contacts st @ cs \<and> contacts_ok w expected k (ft_db st) (ft_db st') cs
    \<and> contact_trace w lm expected k st cs
    \<and> subseq (map fst cs) srcs \<and> int k + int (length cs) \<le> max (int k) (fm_attempts lm)"
  using assms
proof (induction srcs arbitrary: k failures st)
  case Nil
  then show ?case by (auto simp: contacts_ok_Nil)
next
  case (Cons src srcs)
  consider "int k \<ge> fm_attempts lm" | "int k < fm_attempts lm" "is_quarantined (sc_origin src) (ft_db st)"
    | "int k < fm_attempts lm" "\<not> is_quarantined (sc_origin src) (ft_db st)" "fm_before lm (ft_budget st) = None"
    | b where "int k < fm_attempts lm" "\<not> is_quarantined (sc_origin src) (ft_db st)" "fm_before lm (ft_budget st) = Some b"
    by force
  then show ?case
  proof cases
    case 1
    then show ?thesis using Cons.prems by (auto simp: contacts_ok_Nil)
  next
    case 2
    then have "try_sources w lm expected k srcs failures st = (r, st')" using Cons.prems by simp
    from Cons.IH [OF this Cons.prems(2)] show ?thesis by auto
  next
    case 3
    then show ?thesis using Cons.prems by (auto simp: contacts_ok_Nil)
  next
    case 4
    obtain f mid where mid: "try_source w lm expected k src (st\<lparr>ft_budget := b\<rparr>) = (f, mid)" by fastforce
    note kept = try_source_kept [OF mid]
    note exact = try_source_mismatch_iff [OF Cons.prems(2) mid]
    show ?thesis
    proof (cases f)
      case None
      then have "st' = mid" using Cons.prems 4 mid by simp
      moreover have "contacts_ok w expected k (ft_db st) (ft_db mid) [(src, f)]"
        using contacts_ok_Cons [OF contacts_ok_Nil 4(2), of _ f] kept None by simp
      moreover have "contact_trace w lm expected k st [(src, f)]" using 4 mid exact by auto
      ultimately show ?thesis using kept 4 by (intro exI [of _ "[(src, f)]"]) auto
    next
      case (Some e)
      then have "try_sources w lm expected (Suc k) srcs (failures @ [(e, src)]) mid = (r, st')" using Cons.prems 4 mid by simp
      from Cons.IH [OF this Cons.prems(2)] obtain cs where cs: "ft_contacts st' = ft_contacts mid @ cs"
        "contact_trace w lm expected (Suc k) mid cs"
        "contacts_ok w expected (Suc k) (ft_db mid) (ft_db st') cs" "subseq (map fst cs) srcs"
        "int (Suc k) + int (length cs) \<le> max (int (Suc k)) (fm_attempts lm)" by blast
      have "contacts_ok w expected k (ft_db st) (ft_db st') ((src, f) # cs)"
        by (rule contacts_ok_Cons [OF cs(3) 4(2), of f "fw_reason w" "fw_now w k"]) (use kept in auto)
      moreover have "contact_trace w lm expected k st ((src, f) # cs)" using 4 mid exact cs(2) by auto
      ultimately show ?thesis using cs kept 4(1) by (intro exI [of _ "(src, f) # cs"]) auto
    qed
  qed
qed

lemma lookup_hash: "lookup now h s = (Inr (Some l), s') \<Longrightarrow> le_hash l = h"
  by (auto simp: lookup_def split: sum.splits option.splits if_splits)

text \<open>
  C36: A quarantine has its reason and is never left out: one fetch contacts at most \<open>maxAttempts\<close>
  of the sources, in the order of the plan and none that is quarantined when its turn comes, and what it
  gives back has the hash that was asked for. A contact fails for a wrong hash exactly when the source
  sent, with status 200, within the limits and to its end, a body with another hash while the store
  had room for it; the fetch quarantines exactly the origins of these contacts, and contacts none of
  them again.
\<close>

theorem quarantine_exact:
  assumes "fetch_verified w lm None expected srcs st = (r, st')" "ft_contacts st = []" "0 \<le> fm_attempts lm" "ft_contacts st' = cs"
  shows "int (length cs) \<le> fm_attempts lm \<and> subseq (map fst cs) srcs
    \<and> contact_trace w lm expected 0 (st\<lparr>ft_store := snd (lookup (fw_now w 0) expected (ft_store st))\<rparr>) cs
    \<and> (\<forall>i < length cs. \<not> is_quarantined (sc_origin (fst (cs ! i))) (ft_db st)
        \<and> (\<forall>j < i. snd (cs ! j) = Some AE_mismatch \<longrightarrow> sc_origin (fst (cs ! j)) \<noteq> sc_origin (fst (cs ! i)))
        \<and> (snd (cs ! i) = Some AE_mismatch \<longrightarrow> wrong_body w expected i (fst (cs ! i))))
    \<and> (\<forall>x. is_quarantined x (ft_db st') \<longleftrightarrow>
         is_quarantined x (ft_db st) \<or> (\<exists>c \<in> set cs. snd c = Some AE_mismatch \<and> sc_origin (fst c) = x))
    \<and> (\<forall>l. r = Inr l \<longrightarrow> le_hash l = expected)"
proof -
  have again: "ft_contacts st2 = ft_contacts st1 \<and> ft_db st2 = ft_db st1 \<and> (\<forall>l. u = Inr l \<longrightarrow> le_hash l = expected)"
    if "lookup_again (fw_now w 0) expected st1 = (u, st2)" for u st1 st2
    using that by (auto simp: lookup_again_def split: prod.splits sum.splits option.splits dest!: lookup_hash)
  have "contacts_ok w expected 0 (ft_db st) (ft_db st') cs \<and> subseq (map fst cs) srcs \<and> int (length cs) \<le> fm_attempts lm
    \<and> contact_trace w lm expected 0 (st\<lparr>ft_store := snd (lookup (fw_now w 0) expected (ft_store st))\<rparr>) cs
    \<and> (\<forall>l. r = Inr l \<longrightarrow> le_hash l = expected)"
  proof (cases "is_hash expected")
    case False
    then show ?thesis using assms by (auto simp: fetch_verified_def contacts_ok_Nil)
  next
    case True
    obtain found s where look: "lookup (fw_now w 0) expected (ft_store st) = (found, s)" by fastforce
    show ?thesis
    proof (cases "found = Inr None")
      case False
      then show ?thesis using assms True look
        by (auto simp: fetch_verified_def contacts_ok_Nil split: sum.splits option.splits dest!: lookup_hash)
    next
      case none: True
      obtain v mid where run: "try_sources w lm expected 0 srcs [] (st\<lparr>ft_store := s\<rparr>) = (v, mid)" by fastforce
      have "ft_contacts st' = ft_contacts mid \<and> ft_db st' = ft_db mid \<and> (\<forall>l. r = Inr l \<longrightarrow> le_hash l = expected)"
        using assms(1) True look none run again [of mid] by (cases v) (auto simp: fetch_verified_def populate_def)
      then show ?thesis using try_sources_contacts [OF run True] assms(2-4) look by auto
    qed
  qed
  then show ?thesis unfolding contacts_ok_def by simp
qed

subsection \<open>A witness: the first source lies\<close>

definition sample_source :: source_candidate where
  "sample_source = \<lparr>sc_base = js ''https://h'', sc_origin = js ''https://h'', sc_trust = T_publisher\<rparr>"

definition sample_world :: fetch_world where
  "sample_world = \<lparr>fw_sha = sample_digest, fw_answer = (\<lambda>k src. Some \<lparr>fa_status = 200, fa_length = None,
       fa_pieces = [[1], [2, 3]], fa_fails = False, fa_cancels = True\<rparr>), fw_token = (\<lambda>k. js ''t''), fw_now = (\<lambda>k. 1),
     fw_others = (\<lambda>k s. s), fw_listener = (\<lambda>k. True), fw_reason = js ''mismatch''\<rparr>"

definition sample_blob_limits :: "unit fetch_bounds" where
  "sample_blob_limits = \<lparr>fm_attempts = 3, fm_transfer = 5, fm_declared = None, fm_before = Some, fm_on_transfer = (\<lambda>n. Some)\<rparr>"

definition sample_fetch :: "unit fetch_state" where
  "sample_fetch = \<lparr>ft_store = sample_open, ft_db = \<lparr>sd_identities = [], sd_quarantine = []\<rparr>, ft_budget = (), ft_contacts = []\<rparr>"

lemma sample_mismatch:
  "try_source sample_world sample_blob_limits (replicate 64 97) 0 sample_source sample_fetch =
     (Some AE_mismatch, sample_fetch\<lparr>ft_db := quarantine_origin (js ''https://h'') (js ''mismatch'') 1 (ft_db sample_fetch),
        ft_contacts := [(sample_source, Some AE_mismatch)]\<rparr>)"
proof -
  have differs: "sample_hash \<noteq> replicate 64 97"
    by (simp add: sample_hash_def hex_byte_def hex_digit_def replicate_numeral)
  have there: "given (Some (replicate 64 97)) = Some (replicate 64 97)" by (simp add: given_def replicate_numeral)
  have "admit_finish sample_digest 1 \<lparr>bs_pieces = [[1], [2, 3]], bs_fails = False\<rparr>
      \<lparr>ad_origin = O_remote, ad_owner = None, ad_expected = Some (replicate 64 97)\<rparr> sample_reservation
      (sample_open\<lparr>st_reservations := [\<lparr>rv_token = js ''t'', rv_bytes = 5, rv_created = 1\<rparr>]\<rparr>) = (Inl BE_mismatch, sample_open)"
    using differs there
    by (simp add: admit_finish_def admit_body_def admit_finally_def sample_reservation_def sample_open_def empty_disk_def
        delete_where_def release_reservation_def Let_def)
  then show ?thesis
    using differs
    by (simp add: try_source_def attempt_def receive_body_def sample_world_def sample_blob_limits_def sample_fetch_def
        sample_source_def reserve_bytes_def sample_reserves)
qed

theorem quarantine_exact_witness:
  "\<exists>r st'. fetch_verified sample_world sample_blob_limits None (replicate 64 97) [sample_source, sample_source] sample_fetch = (r, st')
     \<and> ft_contacts st' = [(sample_source, Some AE_mismatch)] \<and> is_quarantined (js ''https://h'') (ft_db st')
     \<and> wrong_body sample_world (replicate 64 97) 0 sample_source"
proof -
  have hash: "is_hash (replicate 64 97)" by (simp add: is_hash_def list_all_iff is_lower_hex_def)
  have look: "lookup 1 (replicate 64 97) sample_open = (Inr None, sample_open)"
    using hash by (simp add: lookup_def path_for_def ready_row_def sample_open_def empty_disk_def)
  have quarantined: "is_quarantined (js ''https://h'') (quarantine_origin (js ''https://h'') (js ''mismatch'') 1 db)" for db
    by (simp add: quarantine_origin_iff)
  have fresh: "\<not> is_quarantined x (ft_db sample_fetch)" for x by (simp add: is_quarantined_def sample_fetch_def has_key_def)
  have state: "sample_fetch\<lparr>ft_store := sample_open\<rparr> = sample_fetch" "sample_fetch\<lparr>ft_budget := b\<rparr> = sample_fetch"
    "ft_store sample_fetch = sample_open" "fw_now sample_world 0 = 1" "fm_attempts sample_blob_limits = 3"
    "fm_before sample_blob_limits b = Some b" "sc_origin sample_source = js ''https://h''" for b
    by (simp_all add: sample_fetch_def sample_world_def sample_blob_limits_def sample_source_def)
  obtain r st' where run: "fetch_verified sample_world sample_blob_limits None (replicate 64 97) [sample_source, sample_source] sample_fetch = (r, st')"
    "ft_contacts st' = [(sample_source, Some AE_mismatch)]" "is_quarantined (js ''https://h'') (ft_db st')"
    using hash look quarantined fresh sample_mismatch
    by (simp add: fetch_verified_def populate_def state)
  have "ft_contacts sample_fetch = []" "0 \<le> fm_attempts sample_blob_limits" by (simp_all add: sample_fetch_def state)
  then show ?thesis using quarantine_exact [OF run(1) _ _ run(2)] run by fastforce
qed

end
