(* ===== verification/Http_Handler.thy ===== *)
theory Http_Handler
  imports Merged_Cache Write_Overlay Addresses
begin

section \<open>The HTTP handler (nix/http_handler.ts)\<close>

text \<open>
  One request goes through the whole program: a narinfo is merged from the trees of the selected
  publications or read from the overlay of what was uploaded, and pins where its NAR will come from; a
  NAR is streamed from there; an upload is staged in the repository. The state is that of the
  handler (two registries of routes) and of what it shares: the repository, the overlay's current
  snapshot, and the world of the readers. What other requests and the rest of the daemon do
  during a wait is a function of the environment, and so are the clock, random
  tokens, SHA-256, the verification of signatures and the texts of the health and status providers.
\<close>

subsection \<open>Requests and responses\<close>

datatype request_method = GET | HEAD | PUT | Other_method

text \<open>\<open>rq_query\<close> and \<open>rq_fragment\<close> are \<open>url.search\<close> and \<open>url.hash\<close>.\<close>

record http_request =
  rq_method :: request_method
  rq_path :: jstr
  rq_query :: jstr
  rq_fragment :: jstr
  rq_encoding :: "jstr option"
  rq_body :: "blob_source option"

text \<open>A body that is streamed later keeps what it needs: the plan of the reader, or leases.\<close>

datatype http_body = HB_none | HB_bytes bytes
  | HB_tree selected_publication body budget "(jstr, manifest) jmap"
  | HB_overlay overlay_body "int handle"

record http_response =
  ho_status :: int
  ho_headers :: "(string, jstr) jmap"
  ho_body :: http_body

definition put_header :: "string \<Rightarrow> jstr \<Rightarrow> (string, jstr) jmap \<Rightarrow> (string, jstr) jmap" where
  "put_header k v hs = AList.update k v hs"

definition bytes_response :: "request_method \<Rightarrow> int \<Rightarrow> jstr \<Rightarrow> (string, jstr) jmap \<Rightarrow> jstr \<Rightarrow> http_response" where
  "bytes_response method status content_type headers text = (let bs = utf8_bytes text in
     \<lparr>ho_status = status, ho_headers = put_header ''content-length'' (dec_digits (length bs))
        (put_header ''content-type'' content_type headers),
      ho_body = (if method = HEAD then HB_none else HB_bytes bs)\<rparr>)"

definition text_response :: "jstr \<Rightarrow> request_method \<Rightarrow> http_response" where
  "text_response text method = bytes_response method 200 (js ''text/x-nix-cache-info'') [] text"

definition html_headers :: "(string, jstr) jmap" where
  "html_headers = [(''cache-control'', js ''no-store''), (''x-content-type-options'', js ''nosniff''),
     (''referrer-policy'', js ''no-referrer''),
     (''content-security-policy'', js (''default-src '' @ [CHR 0x27] @ ''none'' @ [CHR 0x27] @ ''; style-src '' @ [CHR 0x27]
        @ ''unsafe-inline'' @ [CHR 0x27] @ ''; base-uri '' @ [CHR 0x27] @ ''none'' @ [CHR 0x27] @ ''; form-action '' @ [CHR 0x27]
        @ ''none'' @ [CHR 0x27] @ ''; frame-ancestors '' @ [CHR 0x27] @ ''none'' @ [CHR 0x27]))]"

definition html_response :: "jstr \<Rightarrow> request_method \<Rightarrow> http_response" where
  "html_response text method = bytes_response method 200 (js ''text/html; charset=utf-8'') html_headers text"

text \<open>\<open>replace(/[\r\n]+/g, " ")\<close>.\<close>

fun collapse_lines :: "bool \<Rightarrow> jstr \<Rightarrow> jstr" where
  "collapse_lines inside [] = []"
| "collapse_lines inside (u # s) =
     (if u = 10 \<or> u = 13 then (if inside then [] else [32]) @ collapse_lines True s else u # collapse_lines False s)"

definition bounded_line :: "jstr \<Rightarrow> jstr" where
  "bounded_line s = trim (collapse_lines False (take 1023 s)) @ [10]"

definition text_error :: "jstr \<Rightarrow> request_method \<Rightarrow> int \<Rightarrow> (string, jstr) jmap \<Rightarrow> http_response" where
  "text_error text method status headers =
     bytes_response method status (js ''text/plain; charset=utf-8'') headers (bounded_line text)"

datatype http_failure = HF_absent | HF_deadline | HF_other

definition mapped :: "http_failure \<Rightarrow> request_method \<Rightarrow> http_response" where
  "mapped e method =
     (case e of HF_absent \<Rightarrow> text_error (js ''not found'') method 404 []
      | HF_deadline \<Rightarrow> text_error (js ''upstream timeout'') method 504 []
      | HF_other \<Rightarrow> text_error (js ''bad gateway'') method 502 [])"

text \<open>The only message of a \<open>BudgetExceeded\<close> with one of the two words is that of the deadline.\<close>

definition reader_failure :: "reader_error \<Rightarrow> http_failure" where
  "reader_failure e = (if e = RE_absent then HF_absent else if e = RE_budget BE_deadline then HF_deadline else HF_other)"

definition merge_failure :: "merge_error \<Rightarrow> http_failure" where
  "merge_failure e = (case e of MG_reader x \<Rightarrow> reader_failure x | _ \<Rightarrow> HF_other)"

definition overlay_failure :: "overlay_error \<Rightarrow> http_failure" where
  "overlay_failure e = (case e of OV_absent r \<Rightarrow> HF_absent | _ \<Rightarrow> HF_other)"

subsection \<open>Routes\<close>

text \<open>\<open>/^\/([0-9a-z]{32})\.narinfo$/\<close>, and the two forms of a NAR route.\<close>

definition narinfo_route :: "jstr \<Rightarrow> jstr option" where
  "narinfo_route path = (let h = take 32 (drop 1 path) in
     if path = 47 # h @ js ''.narinfo'' \<and> length h = 32 \<and> list_all is_base32 h then Some h else None)"

definition nar_route :: "bool \<Rightarrow> jstr \<Rightarrow> jstr option" where
  "nar_route nested path = (let r = drop 1 path in
     if path = 47 # r \<and> starts_with (js ''nar/'') r \<and> drop 4 r \<noteq> []
        \<and> list_all (\<lambda>u. nar_char u \<and> (nested \<or> u \<noteq> 47)) (drop 4 r) then Some r else None)"

subsection \<open>Decoding a body (Response.text)\<close>

text \<open>Each byte sequence that is cut short or not allowed becomes one replacement character.\<close>

fun utf8_lossy :: "nat list \<Rightarrow> nat list" where
  "utf8_lossy [] = []"
| "utf8_lossy (a # r) =
     (if a < 0x80 then a # utf8_lossy r
      else if 0xC2 \<le> a \<and> a < 0xE0 then
        (case r of [] \<Rightarrow> [0xFFFD]
         | b # s \<Rightarrow> if cont b then ((a - 0xC0) * 0x40 + (b - 0x80)) # utf8_lossy s else 0xFFFD # utf8_lossy r)
      else if 0xE0 \<le> a \<and> a < 0xF5 then
        (case r of [] \<Rightarrow> [0xFFFD]
         | b # s \<Rightarrow>
             if \<not> cont b \<or> a = 0xE0 \<and> b < 0xA0 \<or> a = 0xED \<and> 0xA0 \<le> b \<or> a = 0xF0 \<and> b < 0x90 \<or> a = 0xF4 \<and> 0x90 \<le> b
             then 0xFFFD # utf8_lossy r
             else (case s of [] \<Rightarrow> [0xFFFD]
               | c # t \<Rightarrow>
                   if \<not> cont c then 0xFFFD # utf8_lossy s
                   else if a < 0xF0 then ((a - 0xE0) * 0x1000 + (b - 0x80) * 0x40 + (c - 0x80)) # utf8_lossy t
                   else (case t of [] \<Rightarrow> [0xFFFD]
                     | d # u \<Rightarrow>
                         if \<not> cont d then 0xFFFD # utf8_lossy t
                         else ((a - 0xF0) * 0x40000 + (b - 0x80) * 0x1000 + (c - 0x80) * 0x40 + (d - 0x80)) # utf8_lossy u)))
      else 0xFFFD # utf8_lossy r)"

definition response_text :: "bytes \<Rightarrow> jstr" where
  "response_text bs = (let cs = utf8_lossy (map unat bs) in
     concat (map utf16 (if cs \<noteq> [] \<and> hd cs = 0xFEFF then tl cs else cs)))"

subsection \<open>The state and what surrounds it\<close>

text \<open>\<open>hs_current\<close> is the overlay's current snapshot, none when there is no overlay; \<open>hs_endorsed\<close> logs the callback.\<close>

record 'w http_state =
  hs_closed :: bool
  hs_routes :: winner_registry
  hs_signers :: "(overlay_snapshot \<times> int handle) signer_registry"
  hs_write :: write_state
  hs_current :: "overlay_snapshot option"
  hs_world :: 'w
  hs_endorsed :: "(selected_publication \<times> jstr \<times> nat) list"

datatype error_class = EC_conflict | EC_range | EC_type | EC_other

record 'w http_env =
  he_clock :: "nat \<Rightarrow> int"
  he_others :: "nat \<Rightarrow> 'w http_state \<Rightarrow> 'w http_state"
  he_selection :: "selected_publication list"
  he_reader :: "selected_publication \<Rightarrow> 'w reader_env"
  he_budget :: budget
  he_metadata :: int
  he_verify :: "bytes \<Rightarrow> bytes \<Rightarrow> bytes \<Rightarrow> bool"
  he_health :: "jstr option"
  he_reasons :: "jstr list"
  he_page :: "jstr option option"
  he_ready :: bool
  he_repository :: bool
  he_authorize :: "bool option"
  he_staged :: "(jstr \<Rightarrow> 'w http_state \<Rightarrow> error_class option \<times> 'w http_state) option"
  he_sha :: "bytes \<Rightarrow> bytes"
  he_limits :: write_limits
  he_token :: jstr
  he_tokens :: "jstr list"
  he_store :: store
  he_removes :: "jstr \<Rightarrow> bool"
  he_file_text :: "bytes \<Rightarrow> jstr"
  he_source_class :: error_class

text \<open>
  Giving a lease back. The call may prune generations; the database does not fail, so that nothing is
  thrown to the caller.
\<close>

definition let_go :: "'w http_env \<Rightarrow> int handle \<Rightarrow> 'w http_state \<Rightarrow> 'w http_state" where
  "let_go env l st = st\<lparr>hs_write := snd (snd (release_generation (he_removes env) (he_clock env 0) l (hs_write st)))\<rparr>"

text \<open>The leases that an operation of the registry released.\<close>

definition let_go_dropped :: "'w http_env \<Rightarrow> 'w http_state \<Rightarrow> 'w http_state" where
  "let_go_dropped env st = fold (let_go env \<circ> snd) (sr_released (hs_signers st))
     (st\<lparr>hs_signers := (hs_signers st)\<lparr>sr_released := []\<rparr>\<rparr>)"

definition registry_take :: "'w http_env \<Rightarrow> jstr \<Rightarrow> 'w http_state \<Rightarrow> (overlay_snapshot \<times> int handle) option \<times> 'w http_state" where
  "registry_take env path st =
     (case signer_take (he_clock env 1) (he_clock env 2) path (hs_signers st) of
        (l, r) \<Rightarrow> (l, let_go_dropped env (st\<lparr>hs_signers := r\<rparr>)))"

definition registry_set :: "'w http_env \<Rightarrow> jstr \<Rightarrow> overlay_snapshot \<times> int handle \<Rightarrow> 'w http_state
   \<Rightarrow> (registry_error + 'w http_state) option" where
  "registry_set env path l st =
     (case signer_set (he_clock env 1) (he_clock env 2) (he_clock env 3) path l (hs_signers st) of
        None \<Rightarrow> None
      | Some (Inl e) \<Rightarrow> Some (Inl e)
      | Some (Inr r) \<Rightarrow> Some (Inr (let_go_dropped env (st\<lparr>hs_signers := r\<rparr>))))"

definition overlay_acquire :: "int option \<Rightarrow> overlay_snapshot \<Rightarrow> 'w http_state
   \<Rightarrow> (overlay_snapshot \<times> int handle) \<times> 'w http_state" where
  "overlay_acquire generation current st =
     (case acquire_snapshot generation current (hs_write st) of
        (snapshot, l, s) \<Rightarrow> ((snapshot, l), st\<lparr>hs_write := s\<rparr>))"

subsection \<open>Uploads\<close>

text \<open>The class of an error that the repository or the blob store throws.\<close>

definition write_class :: "'w http_env \<Rightarrow> write_error \<Rightarrow> error_class" where
  "write_class env e =
     (case e of WR_conflict \<Rightarrow> EC_conflict
      | WR_body_ceiling \<Rightarrow> EC_range | WR_aggregate \<Rightarrow> EC_range | WR_reservation \<Rightarrow> EC_range
      | WR_blob BE_reservation \<Rightarrow> EC_range | WR_blob BE_capacity \<Rightarrow> EC_range | WR_blob BE_exceeds \<Rightarrow> EC_range
      | WR_blob BE_size_changed \<Rightarrow> EC_range | WR_blob BE_hash \<Rightarrow> EC_type
      | WR_source \<Rightarrow> he_source_class env | _ \<Rightarrow> EC_other)"

text \<open>\<open>repository.stage\<close>, with what others do while the body arrives and after the file is linked.\<close>

definition stage_upload :: "'w http_env \<Rightarrow> jstr \<Rightarrow> int option \<Rightarrow> blob_source \<Rightarrow> 'w http_state
   \<Rightarrow> (write_error + staged_blob) \<times> 'w http_state" where
  "stage_upload env route ceiling source st =
     (if starts_with (js ''nar/'') route
      then (let st1 = he_others env 1 st in
        case stage_nar (he_sha env) (he_limits env) ceiling (he_clock env 4) (he_tokens env) (he_token env) route source
               (he_store env) (hs_write st1) of (r, s) \<Rightarrow> (r, st1\<lparr>hs_write := s\<rparr>))
      else (case stage_begin (he_limits env) (he_token env) (hs_write st) of
          (Inl e, s) \<Rightarrow> (Inl e, st\<lparr>hs_write := s\<rparr>)
        | (Inr u, s) \<Rightarrow>
           (let st1 = he_others env 1 (st\<lparr>hs_write := s\<rparr>) in
            case stage_body (he_sha env) (he_limits env) ceiling (he_token env) route source (hs_write st1) of
              (Inl e, s1) \<Rightarrow> (Inl e, st1\<lparr>hs_write := s1\<rparr>)
            | (Inr (Staged x), s1) \<Rightarrow> (Inr x, st1\<lparr>hs_write := s1\<rparr>)
            | (Inr (Linked digest n), s1) \<Rightarrow>
               (let st2 = he_others env 2 (st1\<lparr>hs_write := s1\<rparr>) in
                case stage_commit (he_limits env) (he_token env) route digest n (hs_write st2) of
                  (r, s2) \<Rightarrow> (r, st2\<lparr>hs_write := s2\<rparr>)))))"

text \<open>
  The record of a staged narinfo. \<open>NarInfoError\<close> is an \<open>Error\<close>, not a \<open>TypeError\<close>.
\<close>

definition record_upload :: "'w http_env \<Rightarrow> jstr \<Rightarrow> jstr \<Rightarrow> staged_blob \<Rightarrow> 'w http_state \<Rightarrow> error_class option \<times> 'w http_state" where
  "record_upload env hash route x st =
     (let st1 = he_others env 3 st; s = hs_write st1 in
      case map_of (wr_files s) (sb_path (sd_row x)) of None \<Rightarrow> (Some EC_other, st1)
      | Some bs \<Rightarrow>
         (case parse_narinfo (he_file_text env bs) of
            Inl e \<Rightarrow> (Some EC_other, st1\<lparr>hs_write := discard route s\<rparr>)
          | Inr n \<Rightarrow>
             if slice 11 43 (ni_store_path n) \<noteq> hash then (Some EC_type, st1\<lparr>hs_write := discard route s\<rparr>)
             else (None, st1\<lparr>hs_write := record_narinfo route n s\<rparr>)))"

definition perform_upload :: "'w http_env \<Rightarrow> jstr option \<Rightarrow> jstr \<Rightarrow> blob_source \<Rightarrow> 'w http_state \<Rightarrow> error_class option \<times> 'w http_state" where
  "perform_upload env narinfo route source st =
     (case stage_upload env route (case narinfo of None \<Rightarrow> None | Some h \<Rightarrow> Some (he_metadata env)) source st of
        (Inl e, st1) \<Rightarrow> (Some (write_class env e), st1)
      | (Inr x, st1) \<Rightarrow>
         (case (case narinfo of None \<Rightarrow> (None, st1) | Some h \<Rightarrow> record_upload env h route x st1) of
            (Some c, st2) \<Rightarrow> (Some c, st2)
          | (None, st2) \<Rightarrow> (case he_staged env of None \<Rightarrow> (None, st2) | Some f \<Rightarrow> f route st2)))"

definition upload_response :: "error_class option \<Rightarrow> http_response" where
  "upload_response r =
     (case r of None \<Rightarrow> \<lparr>ho_status = 200, ho_headers = [], ho_body = HB_none\<rparr>
      | Some EC_conflict \<Rightarrow> text_error (js ''immutable route conflict'') PUT 409 []
      | Some EC_range \<Rightarrow> text_error (js ''payload too large'') PUT 413 []
      | Some EC_type \<Rightarrow> text_error (js ''invalid narinfo'') PUT 400 []
      | Some EC_other \<Rightarrow> text_error (js ''staging unavailable'') PUT 503 [])"

definition not_allowed :: "request_method \<Rightarrow> http_response" where
  "not_allowed method = text_error (js ''method not allowed'') method 405 [(''allow'', js ''GET, HEAD'')]"

definition upload_route :: "jstr \<Rightarrow> (jstr option \<times> jstr) option" where
  "upload_route path =
     (case narinfo_route path of Some h \<Rightarrow> Some (Some h, h @ js ''.narinfo'')
      | None \<Rightarrow> (case nar_route False path of Some r \<Rightarrow> Some (None, r) | None \<Rightarrow> None))"

definition handle_put :: "'w http_env \<Rightarrow> http_request \<Rightarrow> 'w http_state \<Rightarrow> http_response \<times> 'w http_state" where
  "handle_put env rq st =
     (if \<not> he_ready env \<or> \<not> he_repository env then (not_allowed PUT, st)
      else if he_authorize env = Some False then (not_allowed PUT, he_others env 0 st)
      else
       (let st0 = he_others env 0 st in
        if rq_query rq \<noteq> [] \<or> rq_fragment rq \<noteq> [] \<or> 37 \<in> set (rq_path rq) \<or> rq_body rq = None
        then (text_error (js ''not found'') PUT 404 [], st0)
        else if lower_ascii (case rq_encoding rq of None \<Rightarrow> js ''identity'' | Some e \<Rightarrow> e) \<noteq> js ''identity''
        then (text_error (js ''unsupported content encoding'') PUT 415 [], st0)
        else (case upload_route (rq_path rq) of None \<Rightarrow> (text_error (js ''not found'') PUT 404 [], st0)
          | Some (narinfo, route) \<Rightarrow>
             (case perform_upload env narinfo route (the (rq_body rq)) st0 of
                (r, st1) \<Rightarrow> (upload_response r, st1)))))"

subsection \<open>Narinfos\<close>

text \<open>Reading the body of the overlay to its end gives the leases of its components back; an error does not.\<close>

definition overlay_leases :: "overlay_body \<Rightarrow> lease list" where
  "overlay_leases body = (case body of OB_leases ls \<Rightarrow> ls | OB_file bs \<Rightarrow> [])"

definition overlay_text :: "int \<Rightarrow> overlay_body \<Rightarrow> write_state \<Rightarrow> jstr option \<times> write_state" where
  "overlay_text now body s =
     (case body_bytes body s of Inl e \<Rightarrow> (None, s)
      | Inr bs \<Rightarrow> (case release_leases now (overlay_leases body) s of
          (Inl e, s') \<Rightarrow> (None, s') | (Inr u, s') \<Rightarrow> (Some (response_text bs), s')))"

text \<open>
  A narinfo of the overlay: its lease goes to the registry when everything before went well. A value
  \<open>None\<close> is a registry that would not end making room.
\<close>

definition overlay_narinfo :: "'w http_env \<Rightarrow> request_method \<Rightarrow> jstr \<Rightarrow> overlay_snapshot \<Rightarrow> 'w http_state
   \<Rightarrow> (http_response \<times> 'w http_state) option" where
  "overlay_narinfo env method path current st =
     (case overlay_acquire (Some (os_generation current)) current st of
        (l, st1) \<Rightarrow>
          (case resolve_get (he_clock env 4) (fst l) path (hs_write st1) of
             (Inl e, s) \<Rightarrow> Some (mapped (overlay_failure e) method, st1\<lparr>hs_write := s\<rparr>)
           | (Inr (h, body), s) \<Rightarrow>
              (let st2 = he_others env 4 (st1\<lparr>hs_write := s\<rparr>) in
               case overlay_text (he_clock env 4) body (hs_write st2) of
                 (None, s2) \<Rightarrow> Some (mapped HF_other method, st2\<lparr>hs_write := s2\<rparr>)
               | (Some text, s2) \<Rightarrow>
                  (let st3 = st2\<lparr>hs_write := s2\<rparr> in
                   case parse_narinfo text of Inl e \<Rightarrow> Some (mapped HF_other method, st3)
                   | Inr n \<Rightarrow>
                      (case registry_set env (ni_url n) l st3 of None \<Rightarrow> None
                       | Some (Inl e) \<Rightarrow> Some (mapped HF_other method, st3)
                       | Some (Inr st4) \<Rightarrow> Some (text_response text method, st4))))))"

definition merged_narinfo :: "'w http_env \<Rightarrow> request_method \<Rightarrow> jstr \<Rightarrow> jstr \<Rightarrow> 'w http_state
   \<Rightarrow> (http_response \<times> 'w http_state) option" where
  "merged_narinfo env method path hash st =
     (case resolve_merged (he_reader env) (he_selection env) path hash (he_metadata env) (he_budget env, hs_world st) of
        (Inl e, b, w) \<Rightarrow> Some (mapped (merge_failure e) method, he_others env 5 (st\<lparr>hs_world := w\<rparr>))
      | (Inr (merged, conflicts), b, w) \<Rightarrow>
         (let st1 = he_others env 6 (he_others env 5 (st\<lparr>hs_world := w\<rparr>)) in
          case classify_endorsements (he_verify env) (mg_record merged) (map nk_bytes (vp_keys (mg_winner merged))) of
            Inl e \<Rightarrow> Some (mapped HF_other method, st1)
          | Inr es \<Rightarrow>
             (let st2 = st1\<lparr>hs_endorsed := hs_endorsed st1 @ [(mg_winner merged, path, length (filter en_endorsed es))]\<rparr> in
              case winner_set (he_clock env 1) (he_clock env 2) (ni_url (mg_record merged)) (mg_winner merged) (hs_routes st2) of
                None \<Rightarrow> None
              | Some (Inl e) \<Rightarrow> Some (mapped HF_other method, st2)
              | Some (Inr r) \<Rightarrow> Some (text_response (mg_text merged) method, st2\<lparr>hs_routes := r\<rparr>))))"

subsection \<open>NARs\<close>

definition has_route :: "jstr \<Rightarrow> overlay_snapshot option \<Rightarrow> bool" where
  "has_route path current \<longleftrightarrow> (case current of None \<Rightarrow> False | Some ov \<Rightarrow> has_key fst path (os_entries ov))"

text \<open>Where the overlay is asked: a pinned lease first, then the current generation.\<close>

definition nar_lease :: "'w http_env \<Rightarrow> jstr \<Rightarrow> overlay_snapshot option \<Rightarrow> 'w http_state
   \<Rightarrow> (overlay_snapshot \<times> int handle) option \<times> 'w http_state" where
  "nar_lease env path current st =
     (case registry_take env path st of
        (Some l, st1) \<Rightarrow> (Some l, st1)
      | (None, st1) \<Rightarrow>
         (case current of None \<Rightarrow> (None, st1)
          | Some ov \<Rightarrow>
             if has_route path current then (case overlay_acquire None ov st1 of (l, st2) \<Rightarrow> (Some l, st2))
             else (None, st1)))"

definition nar_headers :: "int \<Rightarrow> (string, jstr) jmap" where
  "nar_headers n = [(''content-type'', js ''application/x-nix-nar''), (''content-length'', dec_digits (nat n))]"

definition head_response :: "int \<Rightarrow> http_response" where
  "head_response n = \<lparr>ho_status = 200, ho_headers = [(''content-length'', dec_digits (nat n))], ho_body = HB_none\<rparr>"

text \<open>The registry of winners is asked also when the overlay has answered, and forgets what is over.\<close>

definition winner_lookup :: "'w http_env \<Rightarrow> jstr \<Rightarrow> 'w http_state \<Rightarrow> selected_publication option \<times> 'w http_state" where
  "winner_lookup env path st = (case winner_get (he_clock env 5) path (hs_routes st) of (p, r) \<Rightarrow> (p, st\<lparr>hs_routes := r\<rparr>))"

definition overlay_nar :: "'w http_env \<Rightarrow> request_method \<Rightarrow> jstr \<Rightarrow> overlay_snapshot \<times> int handle \<Rightarrow> 'w http_state
   \<Rightarrow> http_response \<times> 'w http_state" where
  "overlay_nar env method path l st =
     (if method = HEAD
      then (case resolve_head (fst l) path of
          Inl e \<Rightarrow> (mapped (overlay_failure e) method, let_go env (snd l) (he_others env 7 st))
        | Inr h \<Rightarrow> (head_response (oh_size h), let_go env (snd l) (snd (winner_lookup env path (he_others env 7 st)))))
      else (case resolve_get (he_clock env 4) (fst l) path (hs_write st) of
          (Inl e, s) \<Rightarrow> (mapped (overlay_failure e) method, let_go env (snd l) (he_others env 7 (st\<lparr>hs_write := s\<rparr>)))
        | (Inr (h, body), s) \<Rightarrow>
            (\<lparr>ho_status = 200, ho_headers = nar_headers (oh_size h), ho_body = HB_overlay body (snd l)\<rparr>,
             snd (winner_lookup env path (he_others env 7 (st\<lparr>hs_write := s\<rparr>))))))"

definition resolve_published :: "'w http_env \<Rightarrow> bool \<Rightarrow> jstr \<Rightarrow> selected_publication \<Rightarrow> budget \<times> 'w
   \<Rightarrow> (reader_error + resolved) \<times> 'w rstate" where
  "resolve_published env head path p bw = resolve (he_reader env p) (pr_hex (vp_root p)) path head (fst bw) (snd bw)"

text \<open>The publications in order; only a verified absence goes on to the next.\<close>

fun first_resolved :: "'w http_env \<Rightarrow> bool \<Rightarrow> jstr \<Rightarrow> selected_publication list \<Rightarrow> budget \<times> 'w
   \<Rightarrow> (reader_error + selected_publication \<times> resolved \<times> (jstr, manifest) jmap) \<times> budget \<times> 'w" where
  "first_resolved env head path [] bw = (Inl RE_absent, bw)"
| "first_resolved env head path (p # ps) bw =
     (case resolve_published env head path p bw of
        (Inl e, st) \<Rightarrow>
          if e = RE_absent then first_resolved env head path ps (rs_budget st, rs_world st)
          else (Inl e, rs_budget st, rs_world st)
      | (Inr r, st) \<Rightarrow> (Inr (p, r, rs_manifests st), rs_budget st, rs_world st))"

definition tree_nar :: "'w http_env \<Rightarrow> request_method \<Rightarrow> jstr \<Rightarrow> 'w http_state \<Rightarrow> http_response \<times> 'w http_state" where
  "tree_nar env method path st =
     (case winner_lookup env path st of
        (pinned, st1) \<Rightarrow>
          (case first_resolved env (method = HEAD) path (case pinned of Some p \<Rightarrow> [p] | None \<Rightarrow> he_selection env)
                  (he_budget env, hs_world st1) of
             (Inl e, b, w) \<Rightarrow> (mapped (reader_failure e) method, he_others env 7 (st1\<lparr>hs_world := w\<rparr>))
           | (Inr (p, r, ms), b, w) \<Rightarrow>
               (if method = HEAD then head_response (rv_size r)
                else if rv_body r = B_none then mapped HF_other method
                else \<lparr>ho_status = 200, ho_headers = nar_headers (rv_size r), ho_body = HB_tree p (rv_body r) b ms\<rparr>,
                he_others env 7 (st1\<lparr>hs_world := w\<rparr>))))"

definition get_nar :: "'w http_env \<Rightarrow> request_method \<Rightarrow> jstr \<Rightarrow> 'w http_state \<Rightarrow> http_response \<times> 'w http_state" where
  "get_nar env method path st =
     (case nar_lease env path (hs_current st) st of
        (Some l, st1) \<Rightarrow> overlay_nar env method path l st1
      | (None, st1) \<Rightarrow> tree_nar env method path st1)"

subsection \<open>The handler\<close>

definition get_narinfo :: "'w http_env \<Rightarrow> request_method \<Rightarrow> jstr \<Rightarrow> 'w http_state \<Rightarrow> (http_response \<times> 'w http_state) option" where
  "get_narinfo env method hash st = (let path = hash @ js ''.narinfo'' in
     case hs_current st of
       Some ov \<Rightarrow> if has_route path (Some ov) then overlay_narinfo env method path ov st else merged_narinfo env method path hash st
     | None \<Rightarrow> merged_narinfo env method path hash st)"

definition cache_info :: jstr where
  "cache_info = js ''StoreDir: /nix/store'' @ [10] @ js ''WantMassQuery: 1'' @ [10] @ js ''Priority: 40'' @ [10]"

definition handle_read :: "'w http_env \<Rightarrow> http_request \<Rightarrow> 'w http_state \<Rightarrow> (http_response \<times> 'w http_state) option" where
  "handle_read env rq st = (let method = rq_method rq; path = rq_path rq in
     if path = js ''/nix-cache-info'' then Some (text_response cache_info method, st)
     else if narinfo_route path = None \<and> nar_route True path = None then Some (text_error (js ''not found'') method 404 [], st)
     else if he_selection env = [] \<and> \<not> has_route (drop 1 path) (hs_current st)
     then Some (if he_ready env then text_error (js ''not found'') method 404 []
                else text_error (js ''cache unavailable'') method 503 [], st)
     else (case narinfo_route path of Some h \<Rightarrow> get_narinfo env method h st
       | None \<Rightarrow> Some (get_nar env method (the (nar_route True path)) st)))"

definition handle_request :: "'w http_env \<Rightarrow> http_request \<Rightarrow> 'w http_state \<Rightarrow> (http_response \<times> 'w http_state) option" where
  "handle_request env rq st = (let method = rq_method rq; path = rq_path rq; reads = (method = GET \<or> method = HEAD) in
     if hs_closed st then Some (text_error (js ''service unavailable'') method 503 [], st)
     else if path = js ''/health'' \<and> reads
     then Some (case he_health env of None \<Rightarrow> text_error (js ''not found'') method 404 []
                | Some json \<Rightarrow> bytes_response method 200 (js ''application/json'') [] json, st)
     else if path = js ''/'' \<and> reads
     then Some (case he_page env of None \<Rightarrow> text_error (js ''not found'') method 404 []
                | Some None \<Rightarrow> text_error (js ''status unavailable'') method 500 []
                | Some (Some page) \<Rightarrow> html_response page method, st)
     else if method = PUT then Some (handle_put env rq st)
     else if \<not> reads then Some (not_allowed method, st)
     else handle_read env rq st)"

text \<open>The reasons of the health snapshot replace the text of an answer 503.\<close>

definition explain :: "'w http_env \<Rightarrow> request_method \<Rightarrow> http_response \<Rightarrow> http_response" where
  "explain env method a =
     (if ho_status a = 503 \<and> he_health env \<noteq> None \<and> he_reasons env \<noteq> []
      then text_error (js ''cache unavailable: '' @ join_with (js '', '') (he_reasons env)) method 503 (ho_headers a)
      else a)"

definition handle_http :: "'w http_env \<Rightarrow> http_request \<Rightarrow> 'w http_state \<Rightarrow> (http_response \<times> 'w http_state) option" where
  "handle_http env rq st = map_option (\<lambda>(a, st'). (explain env (rq_method rq) a, st')) (handle_request env rq st)"

text \<open>
  \<open>releaseOnTerminal\<close>: the lease of the generation is given back when the body ends, fails or is
  cancelled. The leases of the components are given back at the end and when it is cancelled.
\<close>

definition body_finished :: "'w http_env \<Rightarrow> bool \<Rightarrow> http_body \<Rightarrow> 'w http_state \<Rightarrow> 'w http_state" where
  "body_finished env failed body st =
     (case body of
        HB_overlay b l \<Rightarrow> let_go env l
          (if failed then st else st\<lparr>hs_write := snd (release_leases (he_clock env 6) (overlay_leases b) (hs_write st))\<rparr>)
      | _ \<Rightarrow> st)"

text \<open>The timer of the registry.\<close>

definition registry_tick :: "'w http_env \<Rightarrow> 'w http_state \<Rightarrow> 'w http_state" where
  "registry_tick env st = let_go_dropped env (st\<lparr>hs_signers := signer_tick (he_clock env 1) (he_clock env 2) (hs_signers st)\<rparr>)"

text \<open>A new handler, with the registry of winners that it is given.\<close>

definition start_handler :: "winner_registry option \<Rightarrow> write_state \<Rightarrow> overlay_snapshot option \<Rightarrow> 'w \<Rightarrow> registry_error + 'w http_state" where
  "start_handler routes s current w =
     map_sum (\<lambda>e. e) (\<lambda>r. \<lparr>hs_closed = False, hs_routes = r, hs_signers = new_signer_registry 1024 (5 * 60000),
         hs_write = s, hs_current = current, hs_world = w, hs_endorsed = []\<rparr>)
       (case routes of Some r \<Rightarrow> Inr r | None \<Rightarrow> new_winner_registry 1024 (5 * 60000))"

definition close_handler :: "'w http_env \<Rightarrow> 'w http_state \<Rightarrow> 'w http_state" where
  "close_handler env st =
     (if hs_closed st then st
      else (let st1 = let_go_dropped env (st\<lparr>hs_closed := True, hs_signers := signer_close (hs_signers st)\<rparr>) in
            st1\<lparr>hs_routes := winner_close (hs_routes st1)\<rparr>))"

end
