(* ===== verification/Http_Proofs.thy ===== *)
theory Http_Proofs
  imports Http_Handler Blob_Proofs
begin

section \<open>The HTTP handler: leases, uploads and the origin of a NAR\<close>

subsection \<open>What an operation on the repository leaves alone\<close>

definition count_leases :: "int \<Rightarrow> write_state \<Rightarrow> nat" where
  "count_leases g s = (case map_of (wr_leases s) g of None \<Rightarrow> 0 | Some n \<Rightarrow> n)"

lemma on_store_leases [simp]: "wr_leases (snd (on_store f s)) = wr_leases s"
  by (auto simp: on_store_def split: option.splits sum.splits prod.splits)

lemma blob_lease_leases [simp]: "wr_leases (snd (blob_lease now h s)) = wr_leases s"
proof -
  obtain r s' where r: "on_store (lookup now h) s = (r, s')" by fastforce
  then have "wr_leases s' = wr_leases s" using on_store_leases [of "lookup now h" s] by simp
  then show ?thesis using r by (simp add: blob_lease_def split: sum.splits)
qed

lemma lease_components_leases [simp]: "wr_leases (snd (lease_components now cs acc s)) = wr_leases s"
proof (induction cs arbitrary: acc s)
  case (Cons c cs)
  obtain r s' where r: "blob_lease now (rc_hash c) s = (r, s')" by fastforce
  then have "wr_leases s' = wr_leases s" using blob_lease_leases [of now "rc_hash c" s] by simp
  then show ?case using r Cons.IH by (simp split: sum.splits option.splits)
qed simp

lemma resolve_get_leases [simp]: "wr_leases (snd (resolve_get now ov route s)) = wr_leases s"
proof (cases "map_of (os_entries ov) route")
  case (Some e)
  obtain r s' where r: "lease_components now (oy_components e) [] s = (r, s')" by fastforce
  then have "wr_leases s' = wr_leases s" using lease_components_leases [of now "oy_components e" "[]" s] by simp
  then show ?thesis using Some r by (simp add: resolve_get_def Let_def split: sum.splits option.splits)
qed (simp add: resolve_get_def)

lemma release_leases_leases [simp]: "wr_leases (snd (release_leases now ls s)) = wr_leases s"
proof (induction ls arbitrary: s)
  case (Cons l ls)
  obtain r s' where r: "on_store (release_lease now (le_hash l)) s = (r, s')" by fastforce
  then have "wr_leases s' = wr_leases s" using on_store_leases [of "release_lease now (le_hash l)" s] by simp
  then show ?case using r Cons.IH by (simp split: sum.splits)
qed simp

lemma overlay_text_leases [simp]: "wr_leases (snd (overlay_text now body s)) = wr_leases s"
proof -
  have "wr_leases s' = wr_leases s" if "release_leases now ls s = (r, s')" for ls r s'
    using release_leases_leases [of now ls s] that by simp
  then show ?thesis by (auto simp: overlay_text_def split: sum.splits prod.splits)
qed

lemma fold_drop_leases:
  "wr_leases (fold drop_generation gs s) = wr_leases s" "wr_leases (fold drop_batch bs s) = wr_leases s"
  by (induction gs arbitrary: s) (simp_all add: drop_generation_def,
      induction bs arbitrary: s, simp_all add: drop_batch_def)

lemma release_batches_leases: "wr_leases (snd (release_batches now bs s)) = wr_leases s"
proof (induction bs arbitrary: s)
  case (Cons b bs)
  obtain r s' where r: "on_store (release_owner now (batch_owner ''saga:'' b) None) s = (r, s')" by fastforce
  then have "wr_leases s' = wr_leases s"
    using on_store_leases [of "release_owner now (batch_owner ''saga:'' b) None" s] by simp
  then show ?case using r Cons.IH by (simp split: sum.splits option.splits)
qed simp

lemma prune_admitted_leases [simp]: "wr_leases (snd (prune_admitted removes now s)) = wr_leases s"
proof -
  let ?s1 = "fold drop_batch (releasable s) (fold drop_generation (prunable s) s)"
  obtain r s2 where r: "release_batches now (releasable s) ?s1 = (r, s2)" by fastforce
  then have "wr_leases s2 = wr_leases s"
    using release_batches_leases [of now "releasable s" ?s1] by (simp add: fold_drop_leases)
  then show ?thesis using r by (simp add: prune_admitted_def Let_def sweep_content_def split: sum.splits)
qed

lemma count_release:
  "count_leases g (snd (snd (release_generation removes now l s))) = count_leases g s - (if l = Live g then 1 else 0)"
proof (cases l)
  case (Live h)
  let ?n = "(case map_of (wr_leases s) h of None \<Rightarrow> 1 | Some m \<Rightarrow> m) - 1"
  let ?s1 = "s\<lparr>wr_leases := (if ?n > 0 then AList.update h ?n (wr_leases s) else AList.delete h (wr_leases s))\<rparr>"
  have "wr_leases (snd (snd (release_generation removes now l s))) = wr_leases ?s1"
    using prune_admitted_leases [of removes now ?s1] Live by (simp add: release_generation_def Let_def case_prod_beta)
  then show ?thesis using Live
    by (auto simp: count_leases_def update_conv' delete_conv' split: option.splits if_splits)
qed (simp add: release_generation_def)

lemma count_acquire:
  "count_leases g (snd (acquire_generation h s)) = count_leases g s + (if h = g then 1 else 0)"
  by (auto simp: acquire_generation_def count_leases_def update_conv' split: option.splits)

subsection \<open>The balance of the leases\<close>

text \<open>What the repository counts for a generation beyond the leases that the registry holds.\<close>

definition held_leases :: "int \<Rightarrow> 'w http_state \<Rightarrow> nat" where
  "held_leases g st = count (image_mset snd (route_values (sr_entries (hs_signers st)))) (Live g)"

definition surplus :: "int \<Rightarrow> 'w http_state \<Rightarrow> int" where
  "surplus g st = int (count_leases g (hs_write st)) - int (held_leases g st)"

definition live_for :: "int \<Rightarrow> int handle \<Rightarrow> int" where
  "live_for g l = (if l = Live g then 1 else 0)"

lemma live_for_bounds [simp]: "0 \<le> live_for g l"
  by (simp add: live_for_def)

definition signers_ok :: "'w http_state \<Rightarrow> bool" where
  "signers_ok st \<longleftrightarrow> (let r = hs_signers st in
     0 < sr_max r \<and> jmap_ok (sr_entries r) \<and> int (length (sr_entries r)) \<le> sr_max r
     \<and> (sr_closed r \<longrightarrow> sr_entries r = []) \<and> sr_released r = []) \<and> (\<forall>g. 0 \<le> surplus g st)"

definition same_leases :: "'w http_state \<Rightarrow> 'w http_state \<Rightarrow> bool" where
  "same_leases st st' \<longleftrightarrow> hs_signers st' = hs_signers st \<and> wr_leases (hs_write st') = wr_leases (hs_write st)"

lemma same_leases_surplus: "same_leases st st' \<Longrightarrow> surplus g st' = surplus g st"
  by (simp add: same_leases_def surplus_def count_leases_def held_leases_def)

lemma same_leases_ok: "same_leases st st' \<Longrightarrow> signers_ok st \<Longrightarrow> signers_ok st'"
  using same_leases_surplus [of st st'] by (simp add: signers_ok_def same_leases_def)

lemma same_leases_trans: "same_leases a b \<Longrightarrow> same_leases b c \<Longrightarrow> same_leases a c"
  by (simp add: same_leases_def)

lemma same_leases_refl [simp]: "same_leases a a"
  by (simp add: same_leases_def)

lemma let_go_signers [simp]: "hs_signers (let_go env l st) = hs_signers st"
  by (simp add: let_go_def)

lemma let_go_surplus:
  assumes "live_for g l \<le> surplus g st" "0 \<le> surplus g st"
  shows "surplus g (let_go env l st) = surplus g st - live_for g l"
proof -
  have "count_leases g (hs_write (let_go env l st)) = count_leases g (hs_write st) - (if l = Live g then 1 else 0)"
    by (simp add: let_go_def count_release)
  then show ?thesis using assms by (auto simp: surplus_def held_leases_def live_for_def)
qed

lemma let_go_ok: "signers_ok st \<Longrightarrow> \<forall>g. live_for g l \<le> surplus g st \<Longrightarrow> signers_ok (let_go env l st)"
  using let_go_surplus [of _ l st env] by (simp add: signers_ok_def)

lemma fold_let_go:
  "hs_signers (fold (let_go env \<circ> snd) ls st) = hs_signers st
   \<and> count_leases g (hs_write (fold (let_go env \<circ> snd) ls st)) = count_leases g (hs_write st) - count (mset (map snd ls)) (Live g)"
  by (induction ls arbitrary: st) (simp_all add: let_go_def count_release)

text \<open>What an operation of the registry drops is given back: only a lease that is given in or out changes the balance.\<close>

lemma let_go_dropped_surplus:
  assumes "signers_ok st" "sr_max r = sr_max (hs_signers st)" "jmap_ok (sr_entries r)" "int (length (sr_entries r)) \<le> sr_max r"
    "sr_closed r \<longrightarrow> sr_entries r = []"
    "route_values (sr_entries r) + mset (sr_released r) + out = route_values (sr_entries (hs_signers st)) + in'"
    "\<forall>g. int (count (image_mset snd in') (Live g)) \<le> surplus g st"
  shows "signers_ok (let_go_dropped env (st\<lparr>hs_signers := r\<rparr>))
    \<and> surplus g (let_go_dropped env (st\<lparr>hs_signers := r\<rparr>))
      = surplus g st + int (count (image_mset snd out) (Live g)) - int (count (image_mset snd in') (Live g))"
proof -
  let ?begun = "st\<lparr>hs_signers := r\<lparr>sr_released := []\<rparr>\<rparr>"
  let ?st = "let_go_dropped env (st\<lparr>hs_signers := r\<rparr>)"
  have st: "?st = fold (let_go env \<circ> snd) (sr_released r) ?begun" by (simp add: let_go_dropped_def)
  have signers: "hs_signers ?st = r\<lparr>sr_released := []\<rparr>" unfolding st using fold_let_go [of env "sr_released r" ?begun] by simp
  have counted: "count_leases g (hs_write ?st) = count_leases g (hs_write st) - count (mset (map snd (sr_released r))) (Live g)" for g
    unfolding st using fold_let_go [of env "sr_released r" ?begun g] by simp
  have sum: "held_leases g ?st + count (mset (map snd (sr_released r))) (Live g) + count (image_mset snd out) (Live g)
      = held_leases g st + count (image_mset snd in') (Live g)" for g
    using arg_cong [OF assms(6), of "\<lambda>m. count (image_mset snd m) (Live g)"] signers by (simp add: held_leases_def)
  have bal: "surplus g ?st = surplus g st + int (count (image_mset snd out) (Live g)) - int (count (image_mset snd in') (Live g))" for g
    using sum [of g] counted [of g] assms(7) [rule_format, of g] by (simp add: surplus_def)
  moreover have "0 \<le> surplus g ?st" for g using bal [of g] assms(7) [rule_format, of g] by simp
  ultimately show ?thesis using assms(1-5) signers by (simp add: signers_ok_def Let_def)
qed

definition registry_view :: "'w http_state \<Rightarrow> (overlay_snapshot \<times> int handle) registry_run" where
  "registry_view st = \<lparr>rr_registry = hs_signers st, rr_accepted = map (fst \<circ> snd) (sr_entries (hs_signers st)), rr_taken = []\<rparr>"

lemma registry_view_ok: "signers_ok st \<Longrightarrow> registry_ok (sr_max (hs_signers st)) (registry_view st)"
  by (simp add: signers_ok_def registry_ok_def registry_view_def route_values_def Let_def)

lemma registry_take_surplus:
  assumes "signers_ok st" "registry_take env path st = (x, st')"
  shows "signers_ok st' \<and> surplus g st' = surplus g st + (case x of None \<Rightarrow> 0 | Some l \<Rightarrow> live_for g (snd l))"
proof -
  obtain l r where t: "signer_take (he_clock env 1) (he_clock env 2) path (hs_signers st) = (l, r)" by fastforce
  then have st': "x = l" "st' = let_go_dropped env (st\<lparr>hs_signers := r\<rparr>)"
    using assms(2) by (simp_all add: registry_take_def)
  have "registry_ok (sr_max (hs_signers st)) ((registry_view st)\<lparr>rr_registry := r,
      rr_taken := (case l of None \<Rightarrow> [] | Some v \<Rightarrow> [v])\<rparr>)"
    using take_ok [OF registry_view_ok [OF assms(1)], of "he_clock env 1" "he_clock env 2" path l r] t
    by (cases l) (simp_all add: registry_view_def)
  then have r: "sr_max r = sr_max (hs_signers st)" "jmap_ok (sr_entries r)" "int (length (sr_entries r)) \<le> sr_max r"
    "sr_closed r \<longrightarrow> sr_entries r = []"
    "route_values (sr_entries r) + mset (sr_released r) + mset (case l of None \<Rightarrow> [] | Some v \<Rightarrow> [v])
       = route_values (sr_entries (hs_signers st)) + {#}"
    by (simp_all add: registry_ok_def registry_view_def route_values_def Let_def)
  have "\<forall>g. int (count (image_mset snd {#}) (Live g)) \<le> surplus g st" using assms(1) by (simp add: signers_ok_def)
  from let_go_dropped_surplus [OF assms(1) r this, of env g] show ?thesis
    using st' by (cases l) (simp_all add: live_for_def)
qed

lemma registry_set_surplus:
  assumes "signers_ok st" "registry_set env path l st = Some (Inr st')" "\<forall>g. live_for g (snd l) \<le> surplus g st"
  shows "signers_ok st' \<and> surplus g st' = surplus g st - live_for g (snd l)"
proof -
  obtain r where t: "signer_set (he_clock env 1) (he_clock env 2) (he_clock env 3) path l (hs_signers st) = Some (Inr r)"
    and st': "st' = let_go_dropped env (st\<lparr>hs_signers := r\<rparr>)"
    using assms(2) by (auto simp: registry_set_def split: option.splits sum.splits)
  have "registry_ok (sr_max (hs_signers st)) ((registry_view st)\<lparr>rr_registry := r, rr_accepted := l # rr_accepted (registry_view st)\<rparr>)"
    using set_ok [OF registry_view_ok [OF assms(1)]] t by (simp add: registry_view_def)
  then have r: "sr_max r = sr_max (hs_signers st)" "jmap_ok (sr_entries r)" "int (length (sr_entries r)) \<le> sr_max r"
    "sr_closed r \<longrightarrow> sr_entries r = []"
    "route_values (sr_entries r) + mset (sr_released r) + {#} = route_values (sr_entries (hs_signers st)) + {#l#}"
    by (simp_all add: registry_ok_def registry_view_def route_values_def Let_def)
  have "\<forall>g. int (count (image_mset snd {#l#}) (Live g)) \<le> surplus g st" 
  proof
    show "int (count (image_mset snd {#l#}) (Live g)) \<le> surplus g st" for g
      using assms(3) [rule_format, of g] by (auto simp: live_for_def)
  qed
  from let_go_dropped_surplus [OF assms(1) r this, of env g] show ?thesis
    using st' by (simp add: live_for_def)
qed

subsection \<open>One request\<close>

text \<open>Between the steps of a request the rest of the daemon keeps its hands off the leases.\<close>

definition calm :: "'w http_env \<Rightarrow> bool" where
  "calm env \<longleftrightarrow> (\<forall>k s. same_leases s (he_others env k s))
     \<and> (\<forall>f r s. he_staged env = Some f \<longrightarrow> same_leases s (snd (f r s)))"

lemma calm_others: "calm env \<Longrightarrow> same_leases s (he_others env k s)"
  by (simp add: calm_def)

lemma stage_begin_leases [simp]: "wr_leases (snd (stage_begin limits token s)) = wr_leases s"
  by (auto simp: stage_begin_def reserve_body_def split: option.splits)

lemma stage_failed_leases [simp]: "wr_leases (stage_failed token s) = wr_leases s"
  by (simp add: stage_failed_def release_body_def drop_temp_def)

lemma stage_body_leases [simp]: "wr_leases (snd (stage_body sha limits ceiling token route source s)) = wr_leases s"
  by (auto simp: stage_body_def Let_def release_body_def drop_temp_def split: sum.splits option.splits)

lemma stage_commit_leases [simp]: "wr_leases (snd (stage_commit limits token route digest n s)) = wr_leases s"
  by (auto simp: stage_commit_def Let_def release_body_def announce_def split: option.splits)

lemma nar_commit_leases [simp]: "wr_leases (snd (nar_commit sha now owner route u s)) = wr_leases s"
proof (cases "lookup_route route s")
  case None
  let ?f = "commit_route now route (int (length (nu_content u))) (nu_components u) owner"
  obtain r s' where r: "on_store ?f s = (r, s')" by fastforce
  then have kept: "wr_leases s' = wr_leases s" using on_store_leases [of ?f s] by simp
  show ?thesis
  proof (cases r)
    case (Inl e)
    then show ?thesis using None r kept by (cases e) (simp_all add: nar_commit_def Let_def split: blob_error.splits)
  next
    case (Inr x)
    then show ?thesis using None r kept by (simp add: nar_commit_def Let_def announce_def split: list.splits option.splits)
  qed
next
  case (Some existing)
  obtain r s' where r: "on_store (release_owner now owner None) s = (r, s')" by fastforce
  then have "wr_leases s' = wr_leases s" using on_store_leases [of "release_owner now owner None" s] by simp
  then show ?thesis using Some r by (simp add: nar_commit_def Let_def split: sum.splits)
qed

lemma stage_nar_leases [simp]: "wr_leases (snd (stage_nar sha limits ceiling now tokens uuid route source b s)) = wr_leases s"
proof -
  let ?owner = "js ''upload:'' @ uuid"
  have closing: "wr_leases (snd (case on_store (release_owner now ?owner None) s2 of
      (Inl e', s3) \<Rightarrow> (Inl e', s3) | (Inr y, s3) \<Rightarrow> (Inl e :: write_error + staged_blob, s3))) = wr_leases s2" for s2 and e :: write_error
  proof -
    obtain r s3 where r: "on_store (release_owner now ?owner None) s2 = (r, s3)" by fastforce
    then have "wr_leases s3 = wr_leases s2" using on_store_leases [of "release_owner now ?owner None" s2] by simp
    then show ?thesis using r by (simp split: sum.splits)
  qed
  obtain failure u where u: "nar_pieces sha now ?owner (min (case ceiling of None \<Rightarrow> wl_body limits | Some c \<Rightarrow> c) (wl_body limits))
      (bs_fails source) (bs_pieces source) \<lparr>nu_buffer = [], nu_content = [], nu_components = [], nu_tokens = tokens,
        nu_store = (case wr_store s of None \<Rightarrow> b | Some x \<Rightarrow> x)\<rparr> = (failure, u)" by fastforce
  let ?s1 = "s\<lparr>wr_store := Some (nu_store u)\<rparr>"
  obtain r s2 where r: "(case failure of Some e \<Rightarrow> (Inl e, ?s1) | None \<Rightarrow> nar_commit sha now ?owner route u ?s1) = (r, s2)"
    by fastforce
  have "wr_leases (snd (case failure of Some e \<Rightarrow> (Inl e, ?s1) | None \<Rightarrow> nar_commit sha now ?owner route u ?s1)) = wr_leases s"
    by (simp split: option.splits)
  then have "wr_leases s2 = wr_leases s" unfolding r by simp
  then show ?thesis using u r closing by (cases r) (simp_all add: stage_nar_def Let_def)
qed

lemma stage_upload_leases:
  assumes "calm env"
  shows "same_leases st (snd (stage_upload env route ceiling source st))"
proof (cases "starts_with (js ''nar/'') route")
  case True
  have "same_leases (he_others env 1 st) (snd (stage_upload env route ceiling source st))"
    using True stage_nar_leases [of "he_sha env" "he_limits env" ceiling "he_clock env 4" "he_tokens env" "he_token env" route
        source "he_store env" "hs_write (he_others env 1 st)"]
    by (simp add: stage_upload_def Let_def same_leases_def case_prod_beta)
  then show ?thesis using calm_others [OF assms] same_leases_trans by blast
next
  case False
  obtain r s where b: "stage_begin (he_limits env) (he_token env) (hs_write st) = (r, s)" by fastforce
  then have s: "same_leases st (st\<lparr>hs_write := s\<rparr>)"
    using stage_begin_leases [of "he_limits env" "he_token env" "hs_write st"] by (simp add: same_leases_def)
  let ?st1 = "he_others env 1 (st\<lparr>hs_write := s\<rparr>)"
  obtain r1 s1 where b1: "stage_body (he_sha env) (he_limits env) ceiling (he_token env) route source (hs_write ?st1) = (r1, s1)"
    by fastforce
  then have "same_leases ?st1 (?st1\<lparr>hs_write := s1\<rparr>)"
    using stage_body_leases [of "he_sha env" "he_limits env" ceiling "he_token env" route source "hs_write ?st1"]
    by (simp add: same_leases_def)
  then have s1: "same_leases st (?st1\<lparr>hs_write := s1\<rparr>)" using s calm_others [OF assms] same_leases_trans by blast
  let ?st2 = "he_others env 2 (?st1\<lparr>hs_write := s1\<rparr>)"
  have "same_leases ?st2 (?st2\<lparr>hs_write := snd (stage_commit (he_limits env) (he_token env) route digest n (hs_write ?st2))\<rparr>)"
    for digest n by (simp add: same_leases_def)
  then have s2: "same_leases st (?st2\<lparr>hs_write := snd (stage_commit (he_limits env) (he_token env) route digest n (hs_write ?st2))\<rparr>)"
    for digest n using s1 calm_others [OF assms] same_leases_trans by blast
  show ?thesis using False b b1 s s1 s2
    by (cases r; cases r1) (auto simp: stage_upload_def Let_def case_prod_beta split: staged.splits)
qed

lemma record_upload_leases:
  assumes "calm env"
  shows "same_leases st (snd (record_upload env hash route x st))"
proof -
  have "wr_leases (discard route s) = wr_leases s" for s
    by (simp add: discard_def Let_def remove_staged_def split: option.splits)
  moreover have "wr_leases (record_narinfo route n s) = wr_leases s" for n s
    by (simp add: record_narinfo_def Let_def announce_def)
  ultimately have "same_leases (he_others env 3 st) (snd (record_upload env hash route x st))"
    by (simp add: record_upload_def Let_def same_leases_def split: option.splits sum.splits)
  then show ?thesis using calm_others [OF assms] same_leases_trans by blast
qed

lemma perform_upload_leases:
  assumes "calm env"
  shows "same_leases st (snd (perform_upload env narinfo route source st))"
proof -
  obtain r st1 where a: "stage_upload env route (case narinfo of None \<Rightarrow> None | Some h \<Rightarrow> Some (he_metadata env)) source st = (r, st1)"
    by fastforce
  then have s1: "same_leases st st1" using stage_upload_leases [OF assms] by (metis snd_conv)
  have s2: "same_leases st (snd (record_upload env h route x st1))" for h x
    using s1 record_upload_leases [OF assms] same_leases_trans by blast
  have s3: "same_leases st (snd (f route st2))" if "he_staged env = Some f" "same_leases st st2" for f st2
    using that assms same_leases_trans unfolding calm_def by blast
  obtain q st2 where rec: "case r of Inl e \<Rightarrow> q = Some (write_class env e) \<and> st2 = st1
      | Inr x \<Rightarrow> (case narinfo of None \<Rightarrow> (None, st1) | Some h \<Rightarrow> record_upload env h route x st1) = (q, st2)"
    by (cases r) (auto simp: prod_eq_iff)
  then have st2: "same_leases st st2" using s1 s2 by (auto split: sum.splits option.splits) (metis snd_conv)
  then show ?thesis using a rec s1 s3
    by (cases r; cases q) (auto simp: perform_upload_def split: option.splits)
qed

lemma handle_put_leases:
  assumes "calm env"
  shows "same_leases st (snd (handle_put env rq st)) \<and> (\<forall>b l. ho_body (fst (handle_put env rq st)) \<noteq> HB_overlay b l)"
proof -
  have s: "same_leases st (snd (perform_upload env n r b (he_others env 0 st)))" for n r b
    using calm_others [OF assms] perform_upload_leases [OF assms] same_leases_trans by blast
  have "\<forall>b l. ho_body (upload_response r) \<noteq> HB_overlay b l" for r
    by (auto simp: upload_response_def text_error_def bytes_response_def Let_def split: option.splits error_class.splits)
  then show ?thesis using s calm_others [OF assms]
    by (auto simp: handle_put_def Let_def not_allowed_def text_error_def bytes_response_def case_prod_beta split: option.splits)
qed

subsection \<open>Reads\<close>

definition body_live :: "int \<Rightarrow> http_body \<Rightarrow> int" where
  "body_live g b = (case b of HB_overlay ov l \<Rightarrow> live_for g l | _ \<Rightarrow> 0)"

lemma body_live_simps [simp]:
  "body_live g HB_none = 0" "body_live g (HB_bytes bs) = 0" "body_live g (HB_tree p b bu ms) = 0" "body_live g (HB_overlay ov l) = live_for g l"
  by (simp_all add: body_live_def)

lemma body_live_nonneg [simp]: "0 \<le> body_live g b"
  by (cases b) simp_all

lemma plain_bodies [simp]:
  "body_live g (ho_body (bytes_response method status ty hs text)) = 0" "ho_status (bytes_response method status ty hs text) = status"
  by (simp_all add: bytes_response_def Let_def)

lemma plain_responses [simp]:
  "body_live g (ho_body (text_error text method status hs)) = 0" "ho_status (text_error text method status hs) = status"
  "body_live g (ho_body (text_response text method)) = 0" "ho_status (text_response text method) = 200"
  "body_live g (ho_body (html_response text method)) = 0" "ho_status (html_response text method) = 200"
  by (simp_all add: text_error_def text_response_def html_response_def)

lemma mapped_responses [simp]: "body_live g (ho_body (mapped e method)) = 0" "ho_status (mapped e method) \<noteq> 200" "ho_status (mapped e method) \<noteq> 503"
  by (simp_all add: mapped_def split: http_failure.splits)

lemma merged_narinfo_leases:
  assumes "calm env" "merged_narinfo env method path hash st = Some (a, st')"
  shows "same_leases st st' \<and> body_live g (ho_body a) = 0"
proof -
  have "same_leases st (st\<lparr>hs_world := w\<rparr>)" for w by (simp add: same_leases_def)
  then have one: "same_leases st (he_others env 5 (st\<lparr>hs_world := w\<rparr>))" for w
    using calm_others [OF assms(1)] same_leases_trans by blast
  have two: "same_leases st (he_others env 6 (he_others env 5 (st\<lparr>hs_world := w\<rparr>)))" for w
    using one [of w] calm_others [OF assms(1)] same_leases_trans by blast
  have log: "same_leases st s \<Longrightarrow> same_leases st (s\<lparr>hs_endorsed := x\<rparr>)"
    "same_leases st s \<Longrightarrow> same_leases st (s\<lparr>hs_endorsed := x, hs_routes := r\<rparr>)" for s x r
    by (simp_all add: same_leases_def)
  show ?thesis using assms(2) one two log
    by (auto simp: merged_narinfo_def Let_def split: prod.splits sum.splits option.splits)
qed

lemma overlay_acquire_surplus:
  assumes "signers_ok st" "overlay_acquire generation current st = (l, st')"
    "generation = None \<or> generation = Some (os_generation current)"
  shows "signers_ok st' \<and> surplus g st' = surplus g st + (if g = os_generation current then 1 else 0)
    \<and> snd l = Live (os_generation current) \<and> fst l = current"
proof -
  obtain h s where a: "acquire_generation (os_generation current) (hs_write st) = (h, s)" by fastforce
  then have st': "st' = st\<lparr>hs_write := s\<rparr>" "l = (current, h)" "h = Live (os_generation current)"
    using assms(2,3) by (auto simp: overlay_acquire_def acquire_snapshot_def Let_def acquire_generation_def)
  have "surplus k st' = surplus k st + (if k = os_generation current then 1 else 0)" for k
    using count_acquire [of k "os_generation current" "hs_write st"] a st' by (simp add: surplus_def held_leases_def)
  then show ?thesis using assms(1) st' by (simp add: signers_ok_def)
qed

lemma overlay_narinfo_leases:
  assumes "calm env" "signers_ok st" "overlay_narinfo env method path current st = Some (a, st')"
  shows "signers_ok st' \<and> body_live g (ho_body a) = 0
    \<and> surplus g st' = surplus g st + (if g = os_generation current \<and> ho_status a \<noteq> 200 then 1 else 0)"
proof -
  obtain l st1 where a: "overlay_acquire (Some (os_generation current)) current st = (l, st1)" by fastforce
  have s1: "signers_ok st1" "snd l = Live (os_generation current)"
    "surplus k st1 = surplus k st + (if k = os_generation current then 1 else 0)" for k
    using overlay_acquire_surplus [OF assms(2) a] by simp_all
  obtain r s where b: "resolve_get (he_clock env 4) (fst l) path (hs_write st1) = (r, s)" by fastforce
  then have s: "same_leases st1 (st1\<lparr>hs_write := s\<rparr>)"
    using resolve_get_leases [of "he_clock env 4" "fst l" path "hs_write st1"] by (simp add: same_leases_def)
  let ?st2 = "he_others env 4 (st1\<lparr>hs_write := s\<rparr>)"
  have "same_leases ?st2 (?st2\<lparr>hs_write := snd (overlay_text (he_clock env 4) body (hs_write ?st2))\<rparr>)" for body
    by (simp add: same_leases_def)
  then have s2: "same_leases st1 (?st2\<lparr>hs_write := snd (overlay_text (he_clock env 4) body (hs_write ?st2))\<rparr>)" for body
    using s calm_others [OF assms(1)] same_leases_trans by blast
  have leaked: "signers_ok st3 \<and> surplus k st3 = surplus k st + (if k = os_generation current then 1 else 0)"
    if "same_leases st1 st3" for st3 k
    using same_leases_ok [OF that s1(1)] same_leases_surplus [OF that] s1(3) by simp
  show ?thesis
  proof (cases "\<exists>text n h body. r = Inr (h, body) \<and> fst (overlay_text (he_clock env 4) body (hs_write ?st2)) = Some text
      \<and> parse_narinfo text = Inr n \<and> (\<exists>st4. registry_set env (ni_url n) l
          (?st2\<lparr>hs_write := snd (overlay_text (he_clock env 4) body (hs_write ?st2))\<rparr>) = Some (Inr st4))")
    case False
    have "ho_status a \<noteq> 200 \<and> same_leases st1 st' \<and> body_live g (ho_body a) = 0"
      using assms(3) a b s s2 False
      by (simp add: overlay_narinfo_def Let_def case_prod_beta split: sum.splits option.splits) auto
    then show ?thesis using leaked by simp
  next
    case True
    then obtain raw n h body st4 where r: "r = Inr (h, body)" "fst (overlay_text (he_clock env 4) body (hs_write ?st2)) = Some raw"
      "parse_narinfo raw = Inr n" and pinned: "registry_set env (ni_url n) l
          (?st2\<lparr>hs_write := snd (overlay_text (he_clock env 4) body (hs_write ?st2))\<rparr>) = Some (Inr st4)" by blast
    then have a': "a = text_response raw method" "st' = st4"
      using assms(3) a b by (auto simp: overlay_narinfo_def Let_def case_prod_beta)
    have st3: "signers_ok (?st2\<lparr>hs_write := snd (overlay_text (he_clock env 4) body (hs_write ?st2))\<rparr>)"
      "surplus k (?st2\<lparr>hs_write := snd (overlay_text (he_clock env 4) body (hs_write ?st2))\<rparr>)
        = surplus k st + (if k = os_generation current then 1 else 0)" for k
      using leaked [OF s2 [of body]] by simp_all
    have "\<forall>k. live_for k (snd l) \<le> surplus k (?st2\<lparr>hs_write := snd (overlay_text (he_clock env 4) body (hs_write ?st2))\<rparr>)"
      using st3 assms(2) s1(2) by (auto simp: live_for_def signers_ok_def)
    from registry_set_surplus [OF st3(1) pinned this, of g] st3(2) [of g] show ?thesis
      using a' s1(2) by (simp add: live_for_def)
  qed
qed

lemma winner_lookup_leases: "winner_lookup env path st = (p, st') \<Longrightarrow> same_leases st st'"
  by (auto simp: winner_lookup_def same_leases_def split: prod.splits)

lemma tree_nar_leases:
  assumes "calm env"
  shows "same_leases st (snd (tree_nar env method path st)) \<and> body_live g (ho_body (fst (tree_nar env method path st))) = 0"
proof -
  obtain p st1 where p: "winner_lookup env path st = (p, st1)" by fastforce
  have "same_leases st1 (st1\<lparr>hs_world := w\<rparr>)" for w by (simp add: same_leases_def)
  then have "same_leases st (he_others env 7 (st1\<lparr>hs_world := w\<rparr>))" for w
    using winner_lookup_leases [OF p] calm_others [OF assms] same_leases_trans by blast
  then show ?thesis using p
    by (auto simp: tree_nar_def head_response_def split: prod.splits sum.splits)
qed

lemma overlay_nar_leases:
  assumes "calm env" "signers_ok st" "\<forall>g. live_for g (snd l) \<le> surplus g st"
  shows "signers_ok (snd (overlay_nar env method path l st)) \<and> surplus g (snd (overlay_nar env method path l st))
    = surplus g st - live_for g (snd l) + body_live g (ho_body (fst (overlay_nar env method path l st)))"
proof -
  have released: "signers_ok (let_go env (snd l) s) \<and> surplus g (let_go env (snd l) s) = surplus g st - live_for g (snd l)"
    if "same_leases st s" for s
    using that assms(2,3) same_leases_surplus [OF that] same_leases_ok [OF that]
      let_go_ok [of s "snd l" env] let_go_surplus [of g "snd l" s env] by (auto simp: signers_ok_def)
  have kept: "signers_ok s \<and> surplus g s = surplus g st" if "same_leases st s" for s
    using that assms(2) same_leases_surplus [OF that] same_leases_ok [OF that] by simp
  have looked: "same_leases s (snd (winner_lookup env path s))" for s
    using winner_lookup_leases [of env path s] by (metis prod.collapse)
  obtain r s where b: "resolve_get (he_clock env 4) (fst l) path (hs_write st) = (r, s)" by fastforce
  then have s: "same_leases st (st\<lparr>hs_write := s\<rparr>)"
    using resolve_get_leases [of "he_clock env 4" "fst l" path "hs_write st"] by (simp add: same_leases_def)
  have steps: "same_leases st (he_others env 7 st)" "same_leases st (snd (winner_lookup env path (he_others env 7 st)))"
    "same_leases st (he_others env 7 (st\<lparr>hs_write := s\<rparr>))"
    "same_leases st (snd (winner_lookup env path (he_others env 7 (st\<lparr>hs_write := s\<rparr>))))"
    using s looked calm_others [OF assms(1)] same_leases_trans by blast+
  show ?thesis
    using b steps [THEN released] steps [THEN kept]
    by (simp add: overlay_nar_def head_response_def split: sum.splits prod.splits)
qed

lemma get_nar_leases:
  assumes "calm env" "signers_ok st"
  shows "signers_ok (snd (get_nar env method path st)) \<and> surplus g (snd (get_nar env method path st))
    = surplus g st + body_live g (ho_body (fst (get_nar env method path st)))"
proof -
  obtain x st1 where t: "registry_take env path st = (x, st1)" by fastforce
  note taken = registry_take_surplus [OF assms(2) t]
  have above: "\<forall>k. live_for k (snd l) \<le> surplus k st1" if "x = Some l" for l
    using taken assms(2) that by (auto simp: signers_ok_def)
  have plain: "signers_ok (snd (tree_nar env method path st1)) \<and> surplus g (snd (tree_nar env method path st1)) = surplus g st1
      \<and> body_live g (ho_body (fst (tree_nar env method path st1))) = 0"
    using tree_nar_leases [OF assms(1)] same_leases_ok same_leases_surplus taken by metis
  show ?thesis
  proof (cases x)
    case (Some l)
    then show ?thesis using t taken [of g] overlay_nar_leases [OF assms(1) _ above, where g = g and l = l]
      by (simp add: get_nar_def nar_lease_def)
  next
    case None
    show ?thesis
    proof (cases "has_route path (hs_current st)")
      case False
      then have "nar_lease env path (hs_current st) st = (None, st1)"
        using None t by (cases "hs_current st") (simp_all add: nar_lease_def)
      then show ?thesis using plain taken None by (simp add: get_nar_def)
    next
      case True
      then obtain ov where ov: "hs_current st = Some ov" by (auto simp: has_route_def split: option.splits)
      obtain l st2 where a: "overlay_acquire None ov st1 = (l, st2)" by fastforce
      have st1: "signers_ok st1" using taken by simp
      note s2 = overlay_acquire_surplus [OF st1 a]
      have "nar_lease env path (hs_current st) st = (Some l, st2)"
        using None t True ov a by (simp add: nar_lease_def)
      moreover have "\<forall>k. live_for k (snd l) \<le> surplus k st2"
        using s2 st1 by (auto simp: live_for_def signers_ok_def)
      moreover have "surplus g st1 = surplus g st" using taken None by simp
      ultimately show ?thesis using s2 overlay_nar_leases [OF assms(1), where st = st2 and l = l and g = g]
        by (auto simp: get_nar_def live_for_def)
    qed
  qed
qed

subsection \<open>Every lease is accounted for\<close>

text \<open>The lease of a narinfo that the overlay has and could not serve.\<close>

definition lost_lease :: "http_request \<Rightarrow> 'w http_state \<Rightarrow> http_response \<Rightarrow> int list" where
  "lost_lease rq st a =
     (case (hs_current st, narinfo_route (rq_path rq)) of
        (Some ov, Some h) \<Rightarrow>
          if \<not> hs_closed st \<and> rq_method rq \<in> {GET, HEAD} \<and> has_route (h @ js ''.narinfo'') (Some ov) \<and> ho_status a \<noteq> 200
          then [os_generation ov] else []
      | _ \<Rightarrow> [])"

lemma no_narinfo [simp]:
  "narinfo_route (js ''/nix-cache-info'') = None" "narinfo_route (js ''/health'') = None" "narinfo_route (js ''/'') = None"
  by (simp_all add: narinfo_route_def Let_def js_simps)

lemma narinfo_route_path: "narinfo_route path = Some h \<Longrightarrow> path = 47 # h @ js ''.narinfo''"
  by (simp add: narinfo_route_def Let_def split: if_splits)

lemma get_narinfo_leases:
  assumes "calm env" "signers_ok st" "get_narinfo env method h st = Some (a, st')"
  shows "signers_ok st' \<and> body_live g (ho_body a) = 0 \<and> surplus g st' = surplus g st + int (count_list (case hs_current st of None \<Rightarrow> []
      | Some ov \<Rightarrow> if has_route (h @ js ''.narinfo'') (Some ov) \<and> ho_status a \<noteq> 200 then [os_generation ov] else []) g)"
proof -
  have merged: "signers_ok st' \<and> body_live g (ho_body a) = 0 \<and> surplus g st' = surplus g st"
    if "merged_narinfo env method (h @ js ''.narinfo'') h st = Some (a, st')"
    using merged_narinfo_leases [OF assms(1) that] same_leases_ok same_leases_surplus assms(2) by metis
  show ?thesis
  proof (cases "has_route (h @ js ''.narinfo'') (hs_current st)")
    case True
    then obtain ov where ov: "hs_current st = Some ov" by (auto simp: has_route_def split: option.splits)
    then have "overlay_narinfo env method (h @ js ''.narinfo'') ov st = Some (a, st')"
      using True assms(3) by (simp add: get_narinfo_def Let_def)
    from overlay_narinfo_leases [OF assms(1,2) this, of g] show ?thesis using True ov by auto
  next
    case False
    then have "merged_narinfo env method (h @ js ''.narinfo'') h st = Some (a, st')"
      using assms(3) by (auto simp: get_narinfo_def Let_def split: option.splits)
    from merged [OF this] False show ?thesis by (auto split: option.splits)
  qed
qed

lemma handle_read_leases:
  assumes "calm env" "signers_ok st" "\<not> hs_closed st" "rq_method rq \<in> {GET, HEAD}" "handle_read env rq st = Some (a, st')"
  shows "signers_ok st' \<and> surplus g st' = surplus g st + body_live g (ho_body a) + int (count_list (lost_lease rq st a) g)"
proof (cases "narinfo_route (rq_path rq)")
  case None
  then have "lost_lease rq st a = []" by (simp add: lost_lease_def split: option.splits)
  then show ?thesis
    using assms(2,5) get_nar_leases [OF assms(1,2), of "rq_method rq" "the (nar_route True (rq_path rq))" g] None
    by (auto simp: handle_read_def Let_def split: if_splits)
next
  case (Some h)
  then have path: "rq_path rq = 47 # h @ js ''.narinfo''" by (rule narinfo_route_path)
  have info: "rq_path rq \<noteq> js ''/nix-cache-info''" using Some by auto
  show ?thesis
  proof (cases "he_selection env = [] \<and> \<not> has_route (h @ js ''.narinfo'') (hs_current st)")
    case True
    then have "lost_lease rq st a = []" using Some by (auto simp: lost_lease_def split: option.splits)
    then show ?thesis using True Some info path assms(2,5) by (auto simp: handle_read_def Let_def)
  next
    case False
    then have "get_narinfo env (rq_method rq) h st = Some (a, st')"
      using Some info path assms(5) by (auto simp: handle_read_def Let_def split: if_splits)
    from get_narinfo_leases [OF assms(1,2) this, of g] show ?thesis
      using Some assms(3,4) by (auto simp: lost_lease_def split: option.splits)
  qed
qed

lemma lost_lease_other: "rq_method rq \<notin> {GET, HEAD} \<or> hs_closed st \<or> narinfo_route (rq_path rq) = None \<Longrightarrow> lost_lease rq st a = []"
  by (auto simp: lost_lease_def split: option.splits)

lemma handle_request_leases:
  assumes "calm env" "signers_ok st" "handle_request env rq st = Some (a, st')"
  shows "signers_ok st' \<and> surplus g st' = surplus g st + body_live g (ho_body a) + int (count_list (lost_lease rq st a) g)"
proof -
  have plain: ?thesis if "st' = st" "body_live g (ho_body a) = 0" "rq_method rq \<notin> {GET, HEAD} \<or> hs_closed st \<or> narinfo_route (rq_path rq) = None"
    using that assms(2) lost_lease_other [of rq st a] by simp
  show ?thesis
  proof (cases "hs_closed st")
    case True
    then show ?thesis using assms(3) by (intro plain) (auto simp: handle_request_def Let_def)
  next
    case opened: False
    show ?thesis
    proof (cases "rq_method rq = PUT")
      case True
      then have h: "handle_put env rq st = (a, st')" using opened assms(3) by (simp add: handle_request_def Let_def)
      have "same_leases st st'" "\<forall>b l. ho_body a \<noteq> HB_overlay b l" using handle_put_leases [OF assms(1), of st rq] h by simp_all
      then show ?thesis using True assms(2) same_leases_ok same_leases_surplus lost_lease_other [of rq st a]
        by (auto simp: body_live_def split: http_body.splits)
    next
      case put: False
      show ?thesis
      proof (cases "rq_method rq \<in> {GET, HEAD} \<and> rq_path rq \<noteq> js ''/health'' \<and> rq_path rq \<noteq> js ''/''")
        case True
        then have "handle_read env rq st = Some (a, st')" using opened put assms(3) by (auto simp: handle_request_def Let_def)
        then show ?thesis using handle_read_leases [OF assms(1,2) opened] True by blast
      next
        case False
        then show ?thesis using opened put assms(3)
          by (intro plain) (auto simp: handle_request_def Let_def not_allowed_def split: if_splits option.splits)
      qed
    qed
  qed
qed

lemma streamed_status:
  assumes "handle_request env rq st = Some (a, st')" "ho_body a = HB_overlay b l"
  shows "ho_status a = 200"
proof -
  have no: "ho_body (bytes_response m s ty hs t) \<noteq> HB_overlay b l" for m s ty hs t by (simp add: bytes_response_def Let_def)
  then have no': "ho_body (text_error t m s hs) \<noteq> HB_overlay b l" "ho_body (text_response t m) \<noteq> HB_overlay b l"
    "ho_body (html_response t m) \<noteq> HB_overlay b l" for t m s hs
    by (simp_all add: text_error_def text_response_def html_response_def)
  then have no2: "ho_body (mapped e m) \<noteq> HB_overlay b l" for e m by (simp add: mapped_def split: http_failure.splits)
  have put: "ho_body (upload_response r) \<noteq> HB_overlay b l" for r
    using no' by (simp add: upload_response_def split: option.splits error_class.splits)
  have nar: "ho_status a = 200" if "overlay_nar env m p x s = (a, st')" for m p x s
    using that assms(2) no2 by (auto simp: overlay_nar_def head_response_def split: if_splits sum.splits prod.splits)
  have tree: "ho_body (fst (tree_nar env m p s)) \<noteq> HB_overlay b l" for m p s
    using no2 by (simp add: tree_nar_def head_response_def split: sum.splits prod.splits)
  have info: "ho_status a = 200" if "get_narinfo env m h s = Some (a, st')" for m h s
    using that assms(2) no2 no' by (auto simp: get_narinfo_def overlay_narinfo_def merged_narinfo_def Let_def split: option.splits if_splits sum.splits prod.splits)
  show ?thesis
    using assms no no' put tree
    by (auto simp: handle_request_def handle_read_def handle_put_def get_nar_def not_allowed_def Let_def
        split: if_splits option.splits prod.splits dest: nar info) (metis fst_conv tree)+
qed

lemma handle_http_leases:
  assumes "calm env" "signers_ok st" "handle_http env rq st = Some (a, st')"
  shows "signers_ok st' \<and> surplus g st' = surplus g st + body_live g (ho_body a) + int (count_list (lost_lease rq st a) g)"
proof -
  obtain a0 where r: "handle_request env rq st = Some (a0, st')" and a: "a = explain env (rq_method rq) a0"
    using assms(3) by (auto simp: handle_http_def)
  have "body_live g (ho_body a) = body_live g (ho_body a0)"
  proof -
    have "ho_status a0 = 503 \<Longrightarrow> body_live g (ho_body a0) = 0" using streamed_status [OF r] by (cases "ho_body a0") auto
    then show ?thesis using a by (auto simp: explain_def)
  qed
  moreover have "lost_lease rq st a = lost_lease rq st a0"
    using a by (auto simp: lost_lease_def explain_def split: option.splits)
  ultimately show ?thesis using handle_request_leases [OF assms(1,2) r, of g] by simp
qed

subsection \<open>A life of the handler\<close>

text \<open>
  The handler serves requests, bodies end, its timer fires, it is closed, and the rest of the daemon changes
  everything but the leases. The second argument are the bodies under way, the third the generations
  of lost leases.
\<close>

inductive http_run :: "'w http_state \<Rightarrow> http_body list \<Rightarrow> int list \<Rightarrow> bool" where
  start: "start_handler routes s current w = Inr st \<Longrightarrow> wr_leases s = [] \<Longrightarrow> http_run st [] []"
| request: "http_run st bodies lost \<Longrightarrow> calm env \<Longrightarrow> handle_http env rq st = Some (a, st')
    \<Longrightarrow> http_run st' (ho_body a # bodies) (lost_lease rq st a @ lost)"
| finish: "http_run st (xs @ b # ys) lost \<Longrightarrow> http_run (body_finished env failed b st) (xs @ ys) lost"
| tick: "http_run st bodies lost \<Longrightarrow> http_run (registry_tick env st) bodies lost"
| close: "http_run st bodies lost \<Longrightarrow> http_run (close_handler env st) bodies lost"
| outside: "http_run st bodies lost \<Longrightarrow> same_leases st st' \<Longrightarrow> http_run st' bodies lost"

definition open_leases :: "int \<Rightarrow> http_body list \<Rightarrow> int" where
  "open_leases g bodies = sum_list (map (body_live g) bodies)"

lemma open_leases_nonneg: "0 \<le> open_leases g bodies"
  unfolding open_leases_def by (rule sum_list_nonneg) auto

lemma body_finished_leases:
  assumes "signers_ok st" "\<forall>g. body_live g b \<le> surplus g st"
  shows "signers_ok (body_finished env failed b st) \<and> surplus g (body_finished env failed b st) = surplus g st - body_live g b"
proof (cases b)
  case (HB_overlay ov l)
  let ?s = "if failed then st else st\<lparr>hs_write := snd (release_leases (he_clock env 6) (overlay_leases ov) (hs_write st))\<rparr>"
  have s: "same_leases st ?s" by (simp add: same_leases_def)
  have above: "\<forall>k. live_for k l \<le> surplus k ?s" using assms(2) HB_overlay same_leases_surplus [OF s] by simp
  then show ?thesis
    using let_go_ok [OF same_leases_ok [OF s assms(1)] above, of env] let_go_surplus [of g l ?s env] assms(1)
      same_leases_surplus [OF s] HB_overlay same_leases_ok [OF s assms(1)]
    by (auto simp: body_finished_def signers_ok_def)
qed (simp_all add: body_finished_def assms(1))

lemma route_values_of: "route_values es = mset (map (\<lambda>(k, v, at). v) es)"
  by (simp add: route_values_def comp_def split_def)

lemma registry_tick_leases:
  assumes "signers_ok st"
  shows "signers_ok (registry_tick env st) \<and> surplus g (registry_tick env st) = surplus g st"
proof -
  let ?r = "(hs_signers st)\<lparr>sr_timer := None\<rparr>"
  have ok: "jmap_ok (sr_entries ?r)" using assms by (simp add: signers_ok_def Let_def)
  let ?t = "signer_tick (he_clock env 1) (he_clock env 2) (hs_signers st)"
  have "route_values (sr_entries ?t) + mset (sr_released ?t) + {#} = route_values (sr_entries (hs_signers st)) + {#}"
    using signer_purge_values(1) [of "he_clock env 1" ?r] assms by (simp add: signer_tick_def signers_ok_def Let_def)
  from let_go_dropped_surplus [OF assms _ _ _ _ this, of env g]
  show ?thesis using assms ok signer_purge_values(2,3) [where now = "he_clock env 1" and r = ?r]
    by (simp add: registry_tick_def signer_tick_def signers_ok_def Let_def)
qed

lemma close_handler_leases:
  assumes "signers_ok st"
  shows "signers_ok (close_handler env st) \<and> surplus g (close_handler env st) = surplus g st"
proof (cases "hs_closed st")
  case False
  let ?st = "st\<lparr>hs_closed := True\<rparr>"
  have s: "same_leases st ?st" by (simp add: same_leases_def)
  let ?t = "signer_close (hs_signers ?st)"
  have released: "sr_released (hs_signers st) = []" "0 < sr_max (hs_signers st)" "jmap_ok (sr_entries (hs_signers st))"
    "int (length (sr_entries (hs_signers st))) \<le> sr_max (hs_signers st)"
    "sr_closed (hs_signers st) \<Longrightarrow> sr_entries (hs_signers st) = []"
    using assms by (simp_all add: signers_ok_def Let_def)
  have "route_values (sr_entries ?t) + mset (sr_released ?t) + {#} = route_values (sr_entries (hs_signers ?st)) + {#}"
    using released by (simp add: signer_close_def route_values_of)
  from let_go_dropped_surplus [OF same_leases_ok [OF s assms] _ _ _ _ this, of env g]
  have closed: "signers_ok (let_go_dropped env (?st\<lparr>hs_signers := ?t\<rparr>))
      \<and> surplus g (let_go_dropped env (?st\<lparr>hs_signers := ?t\<rparr>)) = surplus g st"
    using released same_leases_ok [OF s assms] same_leases_surplus [OF s]
    by (auto simp: signer_close_def signers_ok_def jmap_ok_def)
  let ?u = "let_go_dropped env (?st\<lparr>hs_signers := ?t\<rparr>)"
  have u: "same_leases ?u (?u\<lparr>hs_routes := winner_close (hs_routes ?u)\<rparr>)" by (simp add: same_leases_def)
  show ?thesis using False closed same_leases_ok [OF u] same_leases_surplus [OF u]
    by (simp add: close_handler_def Let_def)
qed (simp add: close_handler_def assms)

lemma http_run_balance:
  "http_run st bodies lost \<Longrightarrow> signers_ok st \<and> (\<forall>g. surplus g st = open_leases g bodies + int (count_list lost g))"
proof (induction rule: http_run.induct)
  case (start routes s current w st)
  then have "hs_signers st = new_signer_registry 1024 (5 * 60000)" "hs_write st = s"
    by (auto simp: start_handler_def map_sum_Inr)
  then show ?case using start
    by (simp add: signers_ok_def surplus_def count_leases_def held_leases_def new_signer_registry_def open_leases_def
        route_values_def jmap_ok_def)
next
  case (request st bodies lost env rq a st')
  then show ?case using handle_http_leases [OF request.hyps(2) _ request.hyps(3)]
    by (simp add: open_leases_def)
next
  case (finish st xs b ys lost env failed)
  have split: "open_leases g (xs @ b # ys) = body_live g b + open_leases g (xs @ ys)" for g by (simp add: open_leases_def)
  have "\<forall>g. body_live g b \<le> surplus g st" using finish.IH split open_leases_nonneg by simp
  then show ?case using body_finished_leases [of st b] finish.IH split by simp
next
  case (tick st bodies lost env)
  then show ?case using registry_tick_leases by metis
next
  case (close st bodies lost env)
  then show ?case using close_handler_leases by metis
next
  case (outside st bodies lost st')
  then show ?case using same_leases_ok same_leases_surplus by metis
qed

text \<open>
  C37: Every lease is accounted for: however requests, ends of bodies, the timer and the closing of
  the handler follow each other, the repository counts for each generation of the overlay the leases that the
  registry holds, those of the bodies that are being streamed, and those that
  were lost: one for each narinfo that the overlay had and did not serve. Nothing gives the last ones back.
\<close>

theorem overlay_leases_accounted:
  assumes "http_run st bodies lost"
  shows "int (count_leases g (hs_write st)) = int (held_leases g st) + open_leases g bodies + int (count_list lost g)"
  using http_run_balance [OF assms] by (simp add: surplus_def algebra_simps)

subsection \<open>A witness: the file of a narinfo is gone\<close>

definition sample_hash32 :: jstr where
  "sample_hash32 = replicate 32 97"

definition sample_row :: staged_row where
  "sample_row = \<lparr>sb_route = sample_hash32 @ js ''.narinfo'', sb_digest = [], sb_size = 1, sb_path = js ''blobs/''\<rparr>"

definition sample_overlay :: overlay_snapshot where
  "sample_overlay = \<lparr>os_generation = 1, os_entries = [(sb_route sample_row, \<lparr>oy_blob = sample_row, oy_components = []\<rparr>)], os_paths = []\<rparr>"

definition sample_http :: "unit http_env" where
  "sample_http = \<lparr>he_clock = (\<lambda>k. 0), he_others = (\<lambda>k s. s), he_selection = [], he_reader = (\<lambda>p. sample_merge_reader),
     he_budget = sample_budget, he_metadata = 5000, he_verify = (\<lambda>s m k. False), he_health = None, he_reasons = [],
     he_page = None, he_ready = True, he_repository = True, he_authorize = None, he_staged = None,
     he_sha = (\<lambda>bs. []), he_limits = \<lparr>wl_body = 5000, wl_aggregate = 50000\<rparr>, he_token = js ''t'', he_tokens = [],
     he_store = sample_open, he_removes = (\<lambda>p. True), he_file_text = response_text, he_source_class = EC_other\<rparr>"

definition sample_read :: http_request where
  "sample_read = \<lparr>rq_method = GET, rq_path = 47 # sb_route sample_row, rq_query = [], rq_fragment = [], rq_encoding = None, rq_body = None\<rparr>"

lemma sample_narinfo_route: "narinfo_route (47 # sample_hash32 @ js ''.narinfo'') = Some sample_hash32"
  by (simp add: narinfo_route_def Let_def sample_hash32_def is_base32_def is_lower_def list_all_iff)

definition sample_handler :: "overlay_snapshot option \<Rightarrow> unit http_state" where
  "sample_handler current = \<lparr>hs_closed = False, hs_routes = \<lparr>wr_max = 1024, wr_ttl = 5 * 60000, wr_entries = []\<rparr>,
     hs_signers = new_signer_registry 1024 (5 * 60000), hs_write = empty_repository, hs_current = current, hs_world = (), hs_endorsed = []\<rparr>"

lemma sample_start: "start_handler None empty_repository current () = Inr (sample_handler current)"
  by (simp add: start_handler_def new_winner_registry_def safe_int_def max_safe_def sample_handler_def)

theorem overlay_leases_accounted_witness:
  "\<exists>(st :: unit http_state) bodies. http_run st bodies [1] \<and> int (count_leases 1 (hs_write st)) = 0 + open_leases 1 bodies + 1"
proof -
  let ?st = "sample_handler (Some sample_overlay)"
  have run: "http_run ?st [] []"
    using sample_start by (rule http_run.start) (simp add: empty_repository_def)
  have "calm sample_http" by (simp add: calm_def sample_http_def)
  have route: "has_route (sample_hash32 @ js ''.narinfo'') (Some sample_overlay)"
    by (simp add: has_route_def has_key_def sample_overlay_def sample_row_def)
  have path: "rq_path sample_read = 47 # sample_hash32 @ js ''.narinfo''" "rq_method sample_read = GET"
    by (simp_all add: sample_read_def sample_row_def)
  have other: "rq_path sample_read \<noteq> js ''/nix-cache-info''" "rq_path sample_read \<noteq> js ''/health''" "rq_path sample_read \<noteq> js ''/''"
    using sample_narinfo_route path no_narinfo by (metis option.distinct(1))+
  let ?s = "(hs_write ?st)\<lparr>wr_leases := [(1, 1)]\<rparr>"
  have served: "overlay_narinfo sample_http GET (sample_hash32 @ js ''.narinfo'') sample_overlay ?st = Some (mapped HF_other GET, ?st\<lparr>hs_write := ?s\<rparr>)"
    by (simp add: overlay_narinfo_def overlay_acquire_def acquire_snapshot_def acquire_generation_def resolve_get_def Let_def
        sample_overlay_def sample_row_def sample_handler_def empty_repository_def overlay_failure_def)
  have "handle_read sample_http sample_read ?st = Some (mapped HF_other GET, ?st\<lparr>hs_write := ?s\<rparr>)"
    using route path other(1) sample_narinfo_route served
    by (simp add: handle_read_def Let_def get_narinfo_def sample_handler_def)
  then have "handle_http sample_http sample_read ?st = Some (mapped HF_other GET, ?st\<lparr>hs_write := ?s\<rparr>)"
    using other path by (simp add: handle_http_def handle_request_def Let_def explain_def sample_handler_def sample_http_def)
  with run \<open>calm sample_http\<close> have "http_run (?st\<lparr>hs_write := ?s\<rparr>) [ho_body (mapped HF_other GET)] (lost_lease sample_read ?st (mapped HF_other GET) @ [])"
    by (rule http_run.request)
  moreover have "lost_lease sample_read ?st (mapped HF_other GET) = [1]"
    using route path sample_narinfo_route by (simp add: lost_lease_def sample_handler_def sample_overlay_def)
  ultimately have run: "http_run (?st\<lparr>hs_write := ?s\<rparr>) [ho_body (mapped HF_other GET)] [1]" by simp
  have "held_leases 1 (?st\<lparr>hs_write := ?s\<rparr>) = 0"
    by (simp add: held_leases_def sample_handler_def new_signer_registry_def route_values_def)
  then have "int (count_leases 1 (hs_write (?st\<lparr>hs_write := ?s\<rparr>))) = 0 + open_leases 1 [ho_body (mapped HF_other GET)] + 1"
    using overlay_leases_accounted [OF run, of 1] by simp
  with run show ?thesis by blast
qed

end
