(* ===== verification/Http_Answers.thy ===== *)
theory Http_Answers
  imports Http_Proofs
begin

section \<open>What the answers of the handler mean\<close>

subsection \<open>A NAR comes from the publication of its narinfo\<close>

lemma let_go_routes: "hs_routes (let_go env l st) = hs_routes st"
  by (simp add: let_go_def)

lemma fold_let_go_routes: "hs_routes (fold (let_go env \<circ> snd) ls s) = hs_routes s"
  by (induction ls arbitrary: s) (simp_all add: let_go_routes)

lemma let_go_dropped_routes: "hs_routes (let_go_dropped env st) = hs_routes st"
  by (simp add: let_go_dropped_def fold_let_go_routes)

lemma nar_lease_routes: "nar_lease env path current st = (None, st1) \<Longrightarrow> hs_routes st1 = hs_routes st"
  by (auto simp: nar_lease_def registry_take_def let_go_dropped_routes split: prod.splits option.splits if_splits)

lemma first_resolved_single:
  "first_resolved env head path [p] bw = (Inr (q, r, ms), bw') \<Longrightarrow> q = p"
  by (auto simp: split: prod.splits sum.splits if_splits)

lemma nar_not_narinfo: "nar_route nested path = Some r \<Longrightarrow> narinfo_route path = None"
proof (rule ccontr)
  assume nar: "nar_route nested path = Some r" and "narinfo_route path \<noteq> None"
  then obtain h where h: "path = 47 # h @ js ''.narinfo''" "length h = 32" "list_all is_base32 h"
    by (auto simp: narinfo_route_def Let_def split: if_splits)
  have "starts_with (js ''nar/'') (h @ js ''.narinfo'')" using nar h(1) by (auto simp: nar_route_def Let_def split: if_splits)
  moreover have four: "length (js ''nar/'') = 4" by simp
  ultimately have "take 4 h = js ''nar/''" using h(2) unfolding starts_with_def four by simp
  moreover have "h ! 3 = take 4 h ! 3" by simp
  ultimately have "h ! 3 = js ''nar/'' ! 3" by simp
  then have "h ! 3 = 47" by (simp add: js_simps)
  moreover have "is_base32 (h ! 3)" using h(2,3) by (simp add: list_all_length)
  ultimately show False by (simp add: is_base32_def is_digit_def is_lower_def)
qed

lemma tree_body_request:
  assumes "handle_http env rq st = Some (a, st')" "ho_body a = HB_tree p b bu ms"
  shows "\<exists>path st1. nar_route True (rq_path rq) = Some path \<and> nar_lease env path (hs_current st) st = (None, st1)
    \<and> fst (tree_nar env (rq_method rq) path st1) = a"
proof -
  have no: "ho_body (bytes_response m s ty hs t) \<noteq> HB_tree p b bu ms" for m s ty hs t by (simp add: bytes_response_def Let_def)
  then have no': "ho_body (text_error t m s hs) \<noteq> HB_tree p b bu ms" "ho_body (text_response t m) \<noteq> HB_tree p b bu ms"
    "ho_body (html_response t m) \<noteq> HB_tree p b bu ms" for t m s hs
    by (simp_all add: text_error_def text_response_def html_response_def)
  then have no2: "ho_body (mapped e m) \<noteq> HB_tree p b bu ms" for e m by (simp add: mapped_def split: http_failure.splits)
  have put: "ho_body (upload_response r) \<noteq> HB_tree p b bu ms" for r
    using no' by (simp add: upload_response_def split: option.splits error_class.splits)
  obtain a0 where r: "handle_request env rq st = Some (a0, st')" "a = explain env (rq_method rq) a0"
    using assms(1) by (auto simp: handle_http_def)
  then have a: "a0 = a" using assms(2) no' by (auto simp: explain_def split: if_splits)
  have ov: False if "overlay_nar env m q x s = (a, st')" for m q x s
    using that assms(2) no2 by (auto simp: overlay_nar_def head_response_def split: if_splits sum.splits prod.splits)
  have info: False if "get_narinfo env m h s = Some (a, st')" for m h s
    using that assms(2) no2 no' by (auto simp: get_narinfo_def overlay_narinfo_def merged_narinfo_def Let_def split: option.splits if_splits sum.splits prod.splits)
  have put': False if "handle_put env rq st = (a, st')"
    using that assms(2) no' put by (auto simp: handle_put_def not_allowed_def Let_def split: if_splits option.splits prod.splits)
  have "handle_read env rq st = Some (a, st')"
    using r(1) a assms(2) no no' put' by (auto simp: handle_request_def not_allowed_def Let_def split: if_splits option.splits)
  then obtain path where path: "nar_route True (rq_path rq) = Some path" "get_nar env (rq_method rq) path st = (a, st')"
    using assms(2) no' by (auto simp: handle_read_def Let_def split: if_splits option.splits dest: info)
  then show ?thesis using ov by (auto simp: get_nar_def split: prod.splits option.splits)
qed

text \<open>A publication that the registry of winners holds for a URL, and until when.\<close>

definition pinned :: "jstr \<Rightarrow> selected_publication \<Rightarrow> int \<Rightarrow> 'w http_state \<Rightarrow> bool" where
  "pinned url p at st \<longleftrightarrow> (\<exists>key. normalized_nar_path url = Some key
     \<and> map_of (winner_registry.wr_entries (hs_routes st)) key = Some (p, at))"

lemma winner_pinned:
  assumes "winner_set now now' path p r = Some (Inr r')"
  shows "\<exists>key. normalized_nar_path path = Some key \<and> map_of (winner_registry.wr_entries r') key = Some (p, now' + wr_ttl r)
    \<and> wr_ttl r' = wr_ttl r"
proof -
  obtain key kept dropped where k: "normalized_nar_path path = Some key"
    "evict_routes (wr_max r) (AList.delete key (fst (purge_routes now (winner_registry.wr_entries r)))) = Some (kept, dropped)"
    "r' = winner_registry.wr_entries_update (\<lambda>_. kept @ [(key, p, now' + wr_ttl r)]) r"
    using assms by (auto simp: winner_set_def split: option.splits)
  obtain j where "kept = drop j (AList.delete key (fst (purge_routes now (winner_registry.wr_entries r))))"
    using evict_values [OF k(2)] by blast
  then have "key \<notin> fst ` set kept"
    using set_drop_subset [of j "AList.delete key (fst (purge_routes now (winner_registry.wr_entries r)))"] by (auto simp: AList.delete_eq)
  then have "map_of kept key = None" by (simp add: map_of_eq_None_iff)
  then show ?thesis using k by (simp add: map_add_def)
qed

lemma pinned_get: "pinned url p at st \<Longrightarrow> now < at \<Longrightarrow> winner_get now url (hs_routes st) = (Some p, hs_routes st)"
  by (auto simp: pinned_def winner_get_def)

lemma pinned_tree_nar:
  assumes "pinned url p at st" "he_clock env 5 < at" "tree_nar env method url st = (a, st')" "ho_body a = HB_tree q body budget ms"
  shows "q = p"
  using assms(3,4) pinned_get [OF assms(1,2)]
  by (auto simp: tree_nar_def winner_lookup_def head_response_def mapped_def text_error_def bytes_response_def Let_def
      split: prod.splits sum.splits if_splits http_failure.splits dest!: first_resolved_single simp del: first_resolved.simps)

text \<open>
  C39: The tree of a NAR is the tree of its narinfo: a request for a narinfo that is answered from the
  merged trees pins the URL of the merged record to the publication that won the merge; and whatever
  happens in between, as long as the registry still holds this route and it has not expired, a NAR
  that is read from a tree under that URL comes from that publication.
\<close>

theorem nar_from_winner:
  fixes env :: "'w http_env"
  assumes "handle_http env rq st = Some (a, st1)" "ho_status a = 200" "rq_method rq \<in> {GET, HEAD}"
    "narinfo_route (rq_path rq) = Some h" "\<not> has_route (h @ js ''.narinfo'') (hs_current st)"
  shows "\<exists>merged conflicts bw. resolve_merged (he_reader env) (he_selection env) (h @ js ''.narinfo'') h (he_metadata env)
        (he_budget env, hs_world st) = (Inr (merged, conflicts), bw)
    \<and> a = text_response (mg_text merged) (rq_method rq)
    \<and> pinned (ni_url (mg_record merged)) (mg_winner merged) (he_clock env 2 + wr_ttl (hs_routes st1)) st1
    \<and> (\<forall>(env' :: 'w http_env) rq' at s a' s' p body budget ms.
        pinned (ni_url (mg_record merged)) (mg_winner merged) at s \<and> he_clock env' 5 < at
        \<and> handle_http env' rq' s = Some (a', s') \<and> nar_route True (rq_path rq') = Some (ni_url (mg_record merged))
        \<and> ho_body a' = HB_tree p body budget ms
        \<longrightarrow> p = mg_winner merged)"
proof -
  have info: "rq_path rq \<noteq> js ''/nix-cache-info''" "rq_path rq \<noteq> js ''/health''" "rq_path rq \<noteq> js ''/''"
    using assms(4) no_narinfo by (metis option.distinct(1))+
  obtain a0 where r: "handle_request env rq st = Some (a0, st1)" "a = explain env (rq_method rq) a0"
    using assms(1) by (auto simp: handle_http_def)
  have ok: "ho_status a0 = 200" "a = a0" using r(2) assms(2) by (auto simp: explain_def split: if_splits)
  have "\<not> hs_closed st" using r(1) ok(1) by (auto simp: handle_request_def Let_def)
  then have "handle_read env rq st = Some (a0, st1)" using r(1) info assms(3) by (auto simp: handle_request_def Let_def split: if_splits)
  then have "get_narinfo env (rq_method rq) h st = Some (a0, st1)"
    using info assms(4) ok(1) by (auto simp: handle_read_def Let_def split: if_splits)
  then have m: "merged_narinfo env (rq_method rq) (h @ js ''.narinfo'') h st = Some (a0, st1)"
    using assms(5) by (auto simp: get_narinfo_def Let_def split: option.splits)
  then obtain merged conflicts bw s2 routes where found: "resolve_merged (he_reader env) (he_selection env) (h @ js ''.narinfo'') h
        (he_metadata env) (he_budget env, hs_world st) = (Inr (merged, conflicts), bw)"
    and a0: "a0 = text_response (mg_text merged) (rq_method rq)" and st1: "st1 = s2\<lparr>hs_routes := routes\<rparr>"
    and set: "winner_set (he_clock env 1) (he_clock env 2) (ni_url (mg_record merged)) (mg_winner merged) (hs_routes s2) = Some (Inr routes)"
    using ok(1) by (auto simp: merged_narinfo_def Let_def split: prod.splits sum.splits option.splits)
  let ?url = "ni_url (mg_record merged)" and ?p = "mg_winner merged"
  have pin: "pinned ?url ?p (he_clock env 2 + wr_ttl (hs_routes st1)) st1"
    using winner_pinned [OF set] st1 by (auto simp: pinned_def)
  have later: "p = ?p" if later: "pinned ?url ?p at s" "he_clock env' 5 < at" "handle_http env' rq' s = Some (a', s')"
      "nar_route True (rq_path rq') = Some ?url" "ho_body a' = HB_tree p body budget ms"
    for env' :: "'w http_env" and rq' at s a' s' p body budget ms
  proof -
    obtain t where t: "nar_lease env' ?url (hs_current s) s = (None, t)" "fst (tree_nar env' (rq_method rq') ?url t) = a'"
      using tree_body_request [OF later(3,5)] later(4) by auto
    have "pinned ?url ?p at t" using later(1) nar_lease_routes [OF t(1)] by (simp add: pinned_def)
    then show ?thesis using pinned_tree_nar [OF _ later(2) _ later(5)] t(2) by (metis prod.collapse)
  qed
  show ?thesis using found a0 ok(2) pin later by (intro exI conjI allI impI) auto
qed

subsection \<open>What an upload that is accepted left behind\<close>

lemma stage_pieces_content:
  "stage_pieces limit fails ps acc = Inr c \<Longrightarrow> c = acc @ concat ps \<and> \<not> fails \<and> (ps = [] \<or> int (length c) \<le> limit)"
  by (induction limit fails ps acc rule: stage_pieces.induct) (auto split: if_splits)

lemma nar_flush_content:
  "nar_flush sha now owner u = (None, u') \<Longrightarrow> nu_content u' = nu_content u \<and> nu_buffer u' = []"
  by (auto simp: nar_flush_def split: if_splits prod.splits sum.splits option.splits)

lemma nar_piece_content:
  assumes "nar_piece sha now owner limit piece u = (None, u')" "length (nu_buffer u) < file_chunk_bytes"
  shows "nu_content u' = nu_content u @ piece \<and> length (nu_buffer u') < file_chunk_bytes
    \<and> (piece = [] \<or> int (length (nu_content u')) \<le> limit)"
  using assms
proof (induction sha now owner limit piece u rule: nar_piece.induct)
  case (1 sha now owner limit piece u)
  define room where "room = file_chunk_bytes - length (nu_buffer u)"
  define part where "part = take room piece"
  have room: "room \<noteq> 0" using 1(3) by (simp add: room_def)
  show ?case
  proof (cases "piece = []")
    case True
    then show ?thesis using 1(2,3) by (simp add: nar_piece.simps)
  next
    case False
    define u1 where "u1 = u\<lparr>nu_buffer := nu_buffer u @ part, nu_content := nu_content u @ part\<rparr>"
    have step: "nar_piece sha now owner limit piece u = (if int (length (nu_content u) + length part) > limit
        then (Some WR_body_ceiling, u\<lparr>nu_buffer := nu_buffer u @ part\<rparr>)
        else (case (if length (nu_buffer u1) = file_chunk_bytes then nar_flush sha now owner u1 else (None, u1)) of
           (Some e, u2) \<Rightarrow> (Some e, u2) | (None, u2) \<Rightarrow> nar_piece sha now owner limit (drop room piece) u2))"
      using False room unfolding part_def u1_def room_def by (subst nar_piece.simps) (unfold Let_def, rule if_not_P, blast)
    then have small: "int (length (nu_content u) + length part) \<le> limit" using 1(2) by (auto split: if_splits)
    obtain u2 where u2: "(if length (nu_buffer u1) = file_chunk_bytes then nar_flush sha now owner u1 else (None, u1)) = (None, u2)"
      "nar_piece sha now owner limit (drop room piece) u2 = (None, u')"
      using step 1(2) small by (auto split: if_splits prod.splits option.splits)
    have len: "length (nu_buffer u1) \<le> file_chunk_bytes" using 1(3) by (simp add: u1_def part_def room_def)
    have c2: "nu_content u2 = nu_content u @ part \<and> length (nu_buffer u2) < file_chunk_bytes"
      using u2(1) len nar_flush_content [of sha now owner u1 u2]
      by (auto simp: u1_def file_chunk_bytes_def split: if_splits)
    have "nu_content u' = nu_content u2 @ drop room piece \<and> length (nu_buffer u') < file_chunk_bytes
        \<and> (drop room piece = [] \<or> int (length (nu_content u')) \<le> limit)"
    proof (rule 1(1) [where xa = part and xb = u1, OF room_def part_def _ _ u1_def u2(1) [symmetric] refl u2(2)])
      show "\<not> (piece = [] \<or> room = 0)" using False room by simp
      show "\<not> limit < int (length (nu_content u) + length part)" using small by simp
      show "length (nu_buffer u2) < file_chunk_bytes" using c2 by simp
    qed
    then show ?thesis using c2 small by (auto simp: part_def)
  qed
qed

lemma nar_pieces_content:
  assumes "nar_pieces sha now owner limit fails ps u = (None, u')" "length (nu_buffer u) < file_chunk_bytes"
  shows "nu_content u' = nu_content u @ concat ps \<and> \<not> fails \<and> (concat ps = [] \<or> int (length (nu_content u')) \<le> limit)"
  using assms
proof (induction ps arbitrary: u)
  case Nil
  then show ?case using nar_flush_content by (auto split: if_splits)
next
  case (Cons p ps)
  obtain u1 where u1: "nar_piece sha now owner limit p u = (None, u1)" "nar_pieces sha now owner limit fails ps u1 = (None, u')"
    using Cons.prems(1) by (auto split: prod.splits option.splits)
  note c = nar_piece_content [OF u1(1) Cons.prems(2)]
  have "nu_content u' = nu_content u1 @ concat ps \<and> \<not> fails \<and> (concat ps = [] \<or> int (length (nu_content u')) \<le> limit)"
    using Cons.IH [OF u1(2)] c by blast
  then show ?case using c by (cases "concat ps = []") (auto simp del: concat_eq_Nil_conv)
qed

text \<open>A row for the route, with the digest and the size of the body.\<close>

definition row_of :: "(bytes \<Rightarrow> bytes) \<Rightarrow> write_limits \<Rightarrow> jstr \<Rightarrow> blob_source \<Rightarrow> staged_row \<Rightarrow> bool" where
  "row_of sha limits route source r \<longleftrightarrow> \<not> bs_fails source \<and> sb_route r = route
     \<and> sb_digest r = to_hex (sha (concat (bs_pieces source))) \<and> sb_size r = int (length (concat (bs_pieces source)))
     \<and> (sb_size r = 0 \<or> sb_size r \<le> wl_body limits)"

lemma lookup_route_row: "lookup_route route s = Some x \<Longrightarrow> sd_row x \<in> set (wr_staged s) \<and> sb_route (sd_row x) = route"
  by (auto simp: lookup_route_def row_def find_Some_iff)

lemma stage_body_row:
  assumes "stage_body sha limits ceiling token route source s = (Inr r, s')"
  shows "case r of Staged x \<Rightarrow> sd_row x \<in> set (wr_staged s') \<and> row_of sha limits route source (sd_row x)
    | Linked digest n \<Rightarrow> \<not> bs_fails source \<and> digest = to_hex (sha (concat (bs_pieces source)))
        \<and> n = int (length (concat (bs_pieces source))) \<and> (n = 0 \<or> n \<le> wl_body limits)"
proof -
  obtain c where c: "stage_pieces (min (case ceiling of None \<Rightarrow> wl_body limits | Some c \<Rightarrow> c) (wl_body limits))
      (bs_fails source) (bs_pieces source) [] = Inr c" using assms by (auto simp: stage_body_def split: sum.splits)
  note p = stage_pieces_content [OF c]
  then have size: "c = concat (bs_pieces source)" "\<not> bs_fails source" "length c = 0 \<or> int (length c) \<le> wl_body limits" by auto
  show ?thesis using assms c size
    by (auto simp: stage_body_def Let_def row_of_def release_body_def drop_temp_def split: option.splits if_splits
        dest!: lookup_route_row)
qed

lemma stage_commit_row:
  assumes "stage_commit limits token route digest n s = (Inr x, s')"
  shows "sd_row x \<in> set (wr_staged s') \<and> sb_route (sd_row x) = route \<and> sb_digest (sd_row x) = digest \<and> sb_size (sd_row x) = n"
  using assms by (auto simp: stage_commit_def Let_def insert_row_def announce_def release_body_def split: if_splits option.splits)

lemma on_store_staged: "on_store f s = (r, s') \<Longrightarrow> wr_staged s' = wr_staged s"
  by (auto simp: on_store_def split: option.splits sum.splits prod.splits)

lemma nar_commit_row:
  assumes "nar_commit sha now owner route u s = (Inr x, s')"
  shows "sd_row x \<in> set (wr_staged s') \<and> sb_route (sd_row x) = route \<and> sb_digest (sd_row x) = to_hex (sha (nu_content u))
    \<and> sb_size (sd_row x) = int (length (nu_content u))"
proof (cases "lookup_route route s")
  case None
  obtain r s1 where r: "on_store (commit_route now route (int (length (nu_content u))) (nu_components u) owner) s = (r, s1)" by fastforce
  show ?thesis
  proof (cases r)
    case (Inl e)
    then show ?thesis using None r assms by (cases e) (simp_all add: nar_commit_def Let_def split: blob_error.splits)
  next
    case (Inr y)
    then show ?thesis using None r assms
      by (auto simp: nar_commit_def Let_def insert_row_def announce_def split: list.splits option.splits if_splits)
  qed
next
  case (Some existing)
  then show ?thesis using assms lookup_route_row [OF Some]
    by (auto simp: nar_commit_def Let_def split: if_splits prod.splits sum.splits dest: on_store_staged)
qed

lemma stage_nar_row:
  assumes "stage_nar sha limits ceiling now tokens uuid route source b s = (Inr x, s')"
  shows "sd_row x \<in> set (wr_staged s') \<and> row_of sha limits route source (sd_row x)"
proof -
  let ?limit = "min (case ceiling of None \<Rightarrow> wl_body limits | Some c \<Rightarrow> c) (wl_body limits)"
  let ?u = "\<lparr>nu_buffer = [], nu_content = [], nu_components = [], nu_tokens = tokens,
        nu_store = (case wr_store s of None \<Rightarrow> b | Some x \<Rightarrow> x)\<rparr>"
  obtain failure u where u: "nar_pieces sha now (js ''upload:'' @ uuid) ?limit (bs_fails source) (bs_pieces source) ?u = (failure, u)"
    by fastforce
  have failed: "failure = None" using assms u
    by (cases failure) (auto simp: stage_nar_def Let_def split: prod.splits sum.splits)
  then have "nar_commit sha now (js ''upload:'' @ uuid) route u (s\<lparr>wr_store := Some (nu_store u)\<rparr>) = (Inr x, s')"
    using assms u by (auto simp: stage_nar_def Let_def split: prod.splits sum.splits)
  note row = nar_commit_row [OF this]
  have "length (nu_buffer ?u) < file_chunk_bytes" by (simp add: file_chunk_bytes_def)
  from nar_pieces_content [OF u [unfolded failed] this] row show ?thesis by (auto simp: row_of_def)
qed

text \<open>While a request waits, nobody takes rows away.\<close>

definition keeps_rows :: "'w http_env \<Rightarrow> bool" where
  "keeps_rows env \<longleftrightarrow> (\<forall>k s. set (wr_staged (hs_write s)) \<subseteq> set (wr_staged (hs_write (he_others env k s))))
     \<and> (\<forall>f r s. he_staged env = Some f \<longrightarrow> set (wr_staged (hs_write s)) \<subseteq> set (wr_staged (hs_write (snd (f r s))))
          \<and> set (wr_narinfos (hs_write s)) \<subseteq> set (wr_narinfos (hs_write (snd (f r s)))))"

lemma stage_upload_row:
  assumes "stage_upload env route ceiling source st = (Inr x, st')"
  shows "sd_row x \<in> set (wr_staged (hs_write st')) \<and> row_of (he_sha env) (he_limits env) route source (sd_row x)"
proof (cases "starts_with (js ''nar/'') route")
  case True
  then show ?thesis using assms
    by (auto simp: stage_upload_def Let_def split: prod.splits dest: stage_nar_row)
next
  case False
  obtain u s where begun: "stage_begin (he_limits env) (he_token env) (hs_write st) = (Inr u, s)"
    using assms False by (auto simp: stage_upload_def split: prod.splits sum.splits)
  let ?st1 = "he_others env 1 (st\<lparr>hs_write := s\<rparr>)"
  obtain r s1 where body: "stage_body (he_sha env) (he_limits env) ceiling (he_token env) route source (hs_write ?st1) = (Inr r, s1)"
    using assms False begun by (auto simp: stage_upload_def Let_def split: prod.splits sum.splits)
  show ?thesis
  proof (cases r)
    case (Staged y)
    then show ?thesis using assms False begun body stage_body_row [OF body] by (auto simp: stage_upload_def Let_def)
  next
    case (Linked digest n)
    let ?st2 = "he_others env 2 (?st1\<lparr>hs_write := s1\<rparr>)"
    obtain s2 where "stage_commit (he_limits env) (he_token env) route digest n (hs_write ?st2) = (Inr x, s2)"
      "st' = ?st2\<lparr>hs_write := s2\<rparr>"
      using assms False begun body Linked by (auto simp: stage_upload_def Let_def split: prod.splits)
    then show ?thesis using stage_commit_row stage_body_row [OF body] Linked by (fastforce simp: row_of_def)
  qed
qed

lemma record_upload_row:
  assumes "record_upload env hash route x st = (None, st')"
  shows "wr_staged (hs_write st') = wr_staged (hs_write (he_others env 3 st))
    \<and> (\<exists>r \<in> set (wr_narinfos (hs_write st')). sn_hash r = hash \<and> sn_route r = route)"
  using assms by (auto simp: record_upload_def Let_def record_narinfo_def announce_def split: option.splits sum.splits if_splits)

lemma upload_response_ok: "ho_status (upload_response r) = 200 \<longleftrightarrow> r = None"
  by (auto simp: upload_response_def split: option.splits error_class.splits)

text \<open>
  C38: An upload that is accepted is staged: a PUT is answered 200 only when writing is ready and the
  signer did not refuse, the route is one of the two forms, and the body came to its end. Then
  a row has the route with the digest and the size of the whole body, which is within the limit, and for
  a narinfo the record of its store path is there too.
\<close>

theorem upload_accepted:
  assumes "handle_http env rq st = Some (a, st')" "rq_method rq = PUT" "ho_status a = 200" "keeps_rows env"
  shows "he_ready env \<and> he_repository env \<and> he_authorize env \<noteq> Some False \<and> \<not> hs_closed st
    \<and> (\<exists>narinfo route source r. upload_route (rq_path rq) = Some (narinfo, route) \<and> rq_body rq = Some source
        \<and> r \<in> set (wr_staged (hs_write st')) \<and> row_of (he_sha env) (he_limits env) route source r
        \<and> (\<forall>h. narinfo = Some h \<longrightarrow> (\<exists>n \<in> set (wr_narinfos (hs_write st')). sn_hash n = h \<and> sn_route n = route)))"
proof -
  obtain a0 where r: "handle_request env rq st = Some (a0, st')" "a = explain env (rq_method rq) a0"
    using assms(1) by (auto simp: handle_http_def)
  have ok: "ho_status a0 = 200" using r(2) assms(3) by (auto simp: explain_def split: if_splits)
  have opened: "\<not> hs_closed st" using r(1) ok by (auto simp: handle_request_def Let_def)
  then have put: "handle_put env rq st = (a0, st')" using r(1) assms(2) by (simp add: handle_request_def Let_def)
  have ready: "he_ready env \<and> he_repository env \<and> he_authorize env \<noteq> Some False"
    using put ok by (auto simp: handle_put_def not_allowed_def split: if_splits)
  let ?st0 = "he_others env 0 st"
  obtain narinfo route source q where up: "upload_route (rq_path rq) = Some (narinfo, route)" "rq_body rq = Some source"
    "perform_upload env narinfo route source ?st0 = (q, st')" "a0 = upload_response q"
    using put ok ready by (auto simp: handle_put_def Let_def split: if_splits option.splits prod.splits)
  have "q = None" using up(4) ok upload_response_ok by simp
  then obtain x st1 st2 where staged: "stage_upload env route (case narinfo of None \<Rightarrow> None | Some h \<Rightarrow> Some (he_metadata env)) source ?st0 = (Inr x, st1)"
    and rec: "(case narinfo of None \<Rightarrow> (None, st1) | Some h \<Rightarrow> record_upload env h route x st1) = (None, st2)"
    and last': "(case he_staged env of None \<Rightarrow> (None, st2) | Some f \<Rightarrow> f route st2) = (None, st')"
    using up(3) by (auto simp: perform_upload_def split: prod.splits sum.splits option.splits)
  note row = stage_upload_row [OF staged]
  have kept: "set (wr_staged (hs_write st1)) \<subseteq> set (wr_staged (hs_write st2))"
    using rec assms(4) record_upload_row [of env _ route x st1 st2] by (auto simp: keeps_rows_def split: option.splits)
  have narinfo: "\<forall>h. narinfo = Some h \<longrightarrow> (\<exists>n \<in> set (wr_narinfos (hs_write st2)). sn_hash n = h \<and> sn_route n = route)"
    using rec record_upload_row [of env _ route x st1 st2] by auto
  have final: "set (wr_staged (hs_write st2)) \<subseteq> set (wr_staged (hs_write st'))"
    "set (wr_narinfos (hs_write st2)) \<subseteq> set (wr_narinfos (hs_write st'))"
    using last' assms(4) by (auto simp: keeps_rows_def split: option.splits) (metis snd_conv subsetD)+
  have "sd_row x \<in> set (wr_staged (hs_write st'))" using row kept final(1) by blast
  moreover have "\<forall>h. narinfo = Some h \<longrightarrow> (\<exists>n \<in> set (wr_narinfos (hs_write st')). sn_hash n = h \<and> sn_route n = route)"
    using narinfo final(2) by blast
  ultimately show ?thesis using ready opened up(1,2) row by blast
qed

subsection \<open>A narinfo that does not parse\<close>

text \<open>
  C40: A malformed narinfo is answered as an outage: when the body of a narinfo was staged but does
  not parse, the route is discarded, and the answer is 503 instead of the 400 that the handler has for invalid
  narinfos, since \<open>NarInfoError\<close> is no \<open>TypeError\<close>; the client is told to try again.
\<close>

theorem malformed_narinfo_unavailable:
  assumes "\<not> hs_closed st" "he_ready env" "he_repository env" "he_authorize env \<noteq> Some False"
    "rq_method rq = PUT" "rq_query rq = []" "rq_fragment rq = []" "rq_encoding rq = None" "rq_body rq = Some source"
    "narinfo_route (rq_path rq) = Some h"
    "stage_upload env (h @ js ''.narinfo'') (Some (he_metadata env)) source (he_others env 0 st) = (Inr x, st1)"
    "map_of (wr_files (hs_write (he_others env 3 st1))) (sb_path (sd_row x)) = Some bs"
    "parse_narinfo (he_file_text env bs) = Inl e"
  shows "\<exists>a st'. handle_http env rq st = Some (a, st') \<and> ho_status a = 503
    \<and> hs_write st' = discard (h @ js ''.narinfo'') (hs_write (he_others env 3 st1))"
proof -
  have found: "(if A then Some t else None) = Some h \<longleftrightarrow> A \<and> t = h" for A and t :: jstr by simp
  have path: "rq_path rq = 47 # h @ js ''.narinfo''" "list_all is_base32 h"
    using assms(10) unfolding narinfo_route_def Let_def found by metis+
  then have percent: "37 \<notin> set (rq_path rq)"
    by (auto simp: js_simps is_base32_def is_digit_def is_lower_def list_all_iff)
  have other: "rq_path rq \<noteq> js ''/health''" "rq_path rq \<noteq> js ''/''" using assms(10) no_narinfo by (metis option.distinct(1))+
  let ?st2 = "(he_others env 3 st1)\<lparr>hs_write := discard (h @ js ''.narinfo'') (hs_write (he_others env 3 st1))\<rparr>"
  have "perform_upload env (Some h) (h @ js ''.narinfo'') source (he_others env 0 st) = (Some EC_other, ?st2)"
    using assms(11-13) by (simp add: perform_upload_def record_upload_def Let_def)
  moreover have "lower_ascii (js ''identity'') = js ''identity''" by (simp add: lower_ascii_def js_simps is_upper_def)
  ultimately have "handle_put env rq st = (upload_response (Some EC_other), ?st2)"
    using assms(2-10) percent by (simp add: handle_put_def Let_def upload_route_def)
  then have "handle_request env rq st = Some (upload_response (Some EC_other), ?st2)"
    using assms(1,5) by (simp add: handle_request_def Let_def)
  then have "handle_http env rq st = Some (explain env PUT (upload_response (Some EC_other)), ?st2)"
    using assms(5) by (simp add: handle_http_def)
  moreover have "ho_status (explain env PUT (upload_response (Some EC_other))) = 503"
    by (simp add: explain_def upload_response_def)
  ultimately show ?thesis by auto
qed

subsection \<open>Witnesses\<close>

definition sample_put :: "bytes \<Rightarrow> http_request" where
  "sample_put bs = \<lparr>rq_method = PUT, rq_path = 47 # sample_hash32 @ js ''.narinfo'', rq_query = [], rq_fragment = [],
     rq_encoding = None, rq_body = Some \<lparr>bs_pieces = [bs], bs_fails = False\<rparr>\<rparr>"

lemma sample_not_nar: "\<not> starts_with (js ''nar/'') (sample_hash32 @ js ''.narinfo'')"
  by (simp add: starts_with_def sample_hash32_def js_simps)

lemma sample_stages:
  assumes "length bs \<le> 5000"
  shows "\<exists>st1. stage_upload sample_http (sample_hash32 @ js ''.narinfo'') (Some 5000) \<lparr>bs_pieces = [bs], bs_fails = False\<rparr>
      (sample_handler None) = (Inr \<lparr>sd_row = \<lparr>sb_route = sample_hash32 @ js ''.narinfo'', sb_digest = [], sb_size = int (length bs),
        sb_path = js ''blobs/''\<rparr>, sd_idempotent = False\<rparr>, st1)
    \<and> map_of (wr_files (hs_write st1)) (js ''blobs/'') = Some bs"
proof -
  let ?st = "sample_handler None"
  have fields: "he_limits sample_http = \<lparr>wl_body = 5000, wl_aggregate = 50000\<rparr>" "he_token sample_http = js ''t''"
    "he_others sample_http = (\<lambda>k s. s)" "he_sha sample_http = (\<lambda>b. [])" by (simp_all add: sample_http_def)
  have digest: "to_hex [] = []" by (simp add: to_hex_def)
  show ?thesis using sample_not_nar assms
    by (simp add: stage_upload_def fields stage_begin_def reserve_body_def staged_bytes_def insert_row_def has_key_def
        stage_body_def lookup_route_def row_def stage_commit_def staging_path_def drop_temp_def release_body_def announce_def
        digest sample_handler_def empty_repository_def Let_def delete_where_def uniq_def)
qed

lemma sample_record:
  "\<exists>n. parse_narinfo (sample_text []) = Inr n \<and> ni_url n = js ''nar/x'' \<and> ni_signatures n = []
    \<and> slice 11 43 (ni_store_path n) = sample_hash32 \<and> ni_raw n = sample_text []"
proof -
  have "store_path (sample_narinfo_path ''a'') \<and> plain_value (sample_narinfo_path ''a'')"
    by (rule sample_narinfo_paths) (simp_all add: js_eval char_classes)
  moreover have "slice 11 43 (sample_narinfo_path ''a'') = sample_hash32"
    by (simp add: slice_def sample_narinfo_path_def sample_store_name_def sample_hash32_def)
  ultimately show ?thesis
    using parse_narinfo_text [of "sample_narinfo_path ''a''" "js ''sha256:y''" 5 "[]" "[]" "[]"] sample_hash_text
    by (simp add: sample_text_def max_safe_def)
qed

lemma ascii_response: "\<forall>u \<in> set s. u < 0x80 \<Longrightarrow> response_text (utf8_bytes s) = s"
proof -
  assume a: "\<forall>u \<in> set s. u < 0x80"
  have sc: "scalars s = s" using a
    by (induction s rule: scalars.induct) (auto simp: high_surrogate_def low_surrogate_def)
  have "concat (map utf8_scalar s) = s" using a by (induction s) (auto simp: utf8_scalar_def)
  then have "map unat (utf8_bytes s) = s" using a sc
    by (auto simp: utf8_bytes_def utf8_def unat_of_nat intro!: map_idI)
  moreover have "utf8_lossy s = s" using a by (induction s) auto
  moreover have "concat (map utf16 s) = s" using a by (induction s) (auto simp: utf16_def)
  moreover have "s \<noteq> [] \<Longrightarrow> hd s \<noteq> 0xFEFF" using a by (cases s) auto
  ultimately show ?thesis by (auto simp: response_text_def Let_def)
qed

theorem malformed_narinfo_unavailable_witness:
  "\<exists>a st'. handle_http sample_http (sample_put [120]) (sample_handler None) = Some (a, st') \<and> ho_status a = 503"
proof -
  obtain st1 where staged: "stage_upload sample_http (sample_hash32 @ js ''.narinfo'') (Some (he_metadata sample_http))
      \<lparr>bs_pieces = [[120]], bs_fails = False\<rparr> (he_others sample_http 0 (sample_handler None))
    = (Inr \<lparr>sd_row = \<lparr>sb_route = sample_hash32 @ js ''.narinfo'', sb_digest = [], sb_size = 1, sb_path = js ''blobs/''\<rparr>, sd_idempotent = False\<rparr>, st1)"
    "map_of (wr_files (hs_write st1)) (js ''blobs/'') = Some [120]"
    using sample_stages [of "[120]"] by (auto simp: sample_http_def)
  have bad: "parse_narinfo (he_file_text sample_http [120]) = Inl NE_text"
    using ascii_response [of "[120]"]
    by (simp add: sample_http_def parse_narinfo_def ends_with_def response_text_def utf16_def)
  have "\<exists>a st'. handle_http sample_http (sample_put [120]) (sample_handler None) = Some (a, st') \<and> ho_status a = 503
    \<and> hs_write st' = discard (sample_hash32 @ js ''.narinfo'') (hs_write (he_others sample_http 3 st1))"
    by (rule malformed_narinfo_unavailable [OF _ _ _ _ _ _ _ _ _ _ staged(1) _ bad])
      (use staged(2) sample_narinfo_route in \<open>simp_all add: sample_http_def sample_put_def sample_handler_def\<close>)
  then show ?thesis by blast
qed

theorem upload_accepted_witness:
  "\<exists>a st' r. handle_http sample_http (sample_put sample_narinfo_bytes) (sample_handler None) = Some (a, st') \<and> ho_status a = 200
    \<and> r \<in> set (wr_staged (hs_write st')) \<and> sb_size r = int (length sample_narinfo_bytes)"
proof -
  let ?rq = "sample_put sample_narinfo_bytes" and ?st = "sample_handler None" and ?route = "sample_hash32 @ js ''.narinfo''"
  have small: "length sample_narinfo_bytes \<le> 5000" using sample_bytes_length by simp
  obtain st1 where staged: "stage_upload sample_http ?route (Some (he_metadata sample_http))
      \<lparr>bs_pieces = [sample_narinfo_bytes], bs_fails = False\<rparr> (he_others sample_http 0 ?st)
    = (Inr \<lparr>sd_row = \<lparr>sb_route = ?route, sb_digest = [], sb_size = int (length sample_narinfo_bytes), sb_path = js ''blobs/''\<rparr>,
        sd_idempotent = False\<rparr>, st1)" "map_of (wr_files (hs_write st1)) (js ''blobs/'') = Some sample_narinfo_bytes"
    using sample_stages [OF small] by (auto simp: sample_http_def)
  obtain n where n: "parse_narinfo (sample_text []) = Inr n" "slice 11 43 (ni_store_path n) = sample_hash32"
    using sample_record by blast
  have decoded: "he_file_text sample_http sample_narinfo_bytes = sample_text []"
    using ascii_response [OF sample_text_ascii] by (simp add: sample_http_def sample_narinfo_bytes_def)
  have env: "he_others sample_http = (\<lambda>k s. s)" "he_staged sample_http = None" "he_ready sample_http" "he_repository sample_http"
    "he_authorize sample_http = None" by (simp_all add: sample_http_def)
  let ?st2 = "st1\<lparr>hs_write := record_narinfo ?route n (hs_write st1)\<rparr>"
  have uploaded: "perform_upload sample_http (Some sample_hash32) ?route \<lparr>bs_pieces = [sample_narinfo_bytes], bs_fails = False\<rparr> ?st = (None, ?st2)"
    using staged n decoded env by (simp add: perform_upload_def record_upload_def Let_def)
  have rq: "rq_method ?rq = PUT" "rq_query ?rq = []" "rq_fragment ?rq = []" "rq_encoding ?rq = None" "rq_path ?rq = 47 # ?route"
    "rq_body ?rq = Some \<lparr>bs_pieces = [sample_narinfo_bytes], bs_fails = False\<rparr>" by (simp_all add: sample_put_def)
  have plain: "37 \<notin> set (47 # ?route)" by (simp add: sample_hash32_def js_simps)
  have identity: "lower_ascii (js ''identity'') = js ''identity''" by (simp add: lower_ascii_def js_simps is_upper_def)
  have "handle_put sample_http ?rq ?st = (upload_response None, ?st2)"
    using uploaded rq plain identity env sample_narinfo_route by (simp add: handle_put_def Let_def upload_route_def)
  then have run: "handle_http sample_http ?rq ?st = Some (upload_response None, ?st2)"
    using rq by (simp add: handle_http_def handle_request_def Let_def sample_handler_def upload_response_def explain_def)
  have ok: "ho_status (upload_response None) = 200" by (simp add: upload_response_def)
  have "keeps_rows sample_http" using env by (simp add: keeps_rows_def)
  from upload_accepted [OF run rq(1) ok this] rq(6)
  obtain r where "r \<in> set (wr_staged (hs_write ?st2))" "sb_size r = int (length sample_narinfo_bytes)"
    by (auto simp: row_of_def)
  with run ok show ?thesis by blast
qed

definition sample_reads :: "unit http_env" where
  "sample_reads = sample_http\<lparr>he_selection := [sample_selected]\<rparr>"

text \<open>The same publication with a tree that also holds \<open>nar/x\<close>, a blob of two bytes.\<close>

definition sample_dir :: "string \<Rightarrow> nat \<Rightarrow> int \<Rightarrow> link_type \<Rightarrow> manifest" where
  "sample_dir nm n len t = \<lparr>m_type = M_Directory, m_links = [\<lparr>ml_hash = replicate 32 (of_nat n), ml_key = None,
     ml_metadata = None, ml_name = Some (js nm), ml_size = len, ml_type = t\<rparr>]\<rparr>"

definition sample_nar_reader :: "unit reader_env" where
  "sample_nar_reader = sample_merge_reader
     \<lparr>re_shared := Some (\<lambda>h load s. (Inr \<lparr>vm_manifest = if h = to_hex (replicate 32 9) then sample_dir ''nar'' 3 2 L_Directory
        else sample_dir ''x'' 4 2 L_Blob, vm_decoded_bytes = 10\<rparr>, s)),
      re_fetch := (\<lambda>bl h s. (Inr \<lparr>vb_pieces = [[7, 8]], vb_size = 2\<rparr>, s))\<rparr>"

definition sample_nar_reads :: "unit http_env" where
  "sample_nar_reads = sample_reads\<lparr>he_reader := (\<lambda>p. sample_nar_reader)\<rparr>"

definition sample_nar_read :: http_request where
  "sample_nar_read = \<lparr>rq_method = GET, rq_path = js ''/nar/x'', rq_query = [], rq_fragment = [], rq_encoding = None, rq_body = None\<rparr>"

lemma sample_nar_simps:
  "re_limits sample_nar_reader = sample_traversal\<lparr>tl_max_decoded_bytes := 1000, tl_max_blob_transfer_bytes := 100000,
       tl_max_transferred_bytes := 100000, tl_max_output_bytes := 100000\<rparr>"
  "re_aborted sample_nar_reader w = False"
  "re_shared sample_nar_reader = Some (\<lambda>h load s. (Inr \<lparr>vm_manifest = if h = to_hex (replicate 32 9) then sample_dir ''nar'' 3 2 L_Directory
        else sample_dir ''x'' 4 2 L_Blob, vm_decoded_bytes = 10\<rparr>, s))"
  "re_fetch sample_nar_reader bl h s = (Inr \<lparr>vb_pieces = [[7, 8]], vb_size = 2\<rparr>, s)"
  by (simp_all add: sample_nar_reader_def sample_merge_reader_def sample_reader_def)

lemma sample_dir_simps:
  "m_type (sample_dir nm n len t) = M_Directory"
  "m_links (sample_dir nm n len t) = [\<lparr>ml_hash = replicate 32 (of_nat n), ml_key = None,
     ml_metadata = None, ml_name = Some (js nm), ml_size = len, ml_type = t\<rparr>]"
  by (simp_all add: sample_dir_def)

lemma sample_nar_segments: "path_segments (js ''nar/x'') = [js ''nar'', js ''x'']"
  by (simp add: path_segments_def js_eval)

lemma sample_nar_resolves:
  "\<exists>st. resolve sample_nar_reader (to_hex (replicate 32 9)) (js ''nar/x'') False sample_budget () =
    (Inr \<lparr>rv_hash = to_hex (replicate 32 4), rv_size = 2, rv_type = L_Blob, rv_body = B_raw \<lparr>vb_pieces = [[7, 8]], vb_size = 2\<rparr> 2\<rparr>, st)"
  by (simp add: reader_eval sample_nar_segments sample_nar_simps sample_dir_simps replicate_eq_replicate
      resolve_loop.simps [of _ _ _ "to_hex (replicate 32 9)"] resolve_loop.simps [of _ _ _ "to_hex (replicate 32 3)"])

lemma sample_signers:
  assumes "hs_signers st = new_signer_registry 1024 (5 * 60000)"
  shows "registry_take sample_nar_reads path st = (None, st)"
proof -
  have none: "signer_take now now' path (hs_signers st) = (None, hs_signers st)" for now now'
    unfolding assms
    by (simp add: signer_take_def new_signer_registry_def signer_delete_def delete_route_def arm_timer_def split: option.split)
  have "sr_released (hs_signers st) = []" "(hs_signers st)\<lparr>sr_released := []\<rparr> = hs_signers st"
    unfolding assms by (simp_all add: new_signer_registry_def)
  then show ?thesis by (simp add: registry_take_def none let_go_dropped_def)
qed

lemma sample_nar_run:
  assumes "pinned (js ''nar/x'') sample_selected at st" "0 < at" "hs_current st = None" "\<not> hs_closed st"
    "hs_signers st = new_signer_registry 1024 (5 * 60000)"
  shows "\<exists>a st' p body b ms. handle_http sample_nar_reads sample_nar_read st = Some (a, st') \<and> ho_body a = HB_tree p body b ms"
proof -
  have env: "he_reader sample_nar_reads = (\<lambda>p. sample_nar_reader)" "he_selection sample_nar_reads = [sample_selected]"
    "he_budget sample_nar_reads = sample_budget" "he_clock sample_nar_reads = (\<lambda>k. 0)"
    by (simp_all add: sample_nar_reads_def sample_reads_def sample_http_def)
  have root: "pr_hex (vp_root sample_selected) = to_hex (replicate 32 9)"
    by (simp add: sample_selected_def with_servers_def sample_publication_def)
  have route: "nar_route True (js ''/nar/x'') = Some (js ''nar/x'')"
    by (simp add: nar_route_def starts_with_def js_simps nar_char_def is_lower_def Let_def)
  have other: "narinfo_route (js ''/nar/x'') = None" by (rule nar_not_narinfo [OF route])
  have paths: "js ''/nar/x'' \<noteq> js ''/nix-cache-info''" "js ''/nar/x'' \<noteq> js ''/health''" "js ''/nar/x'' \<noteq> js ''/''"
    by (simp_all add: js_simps)
  have pin: "winner_get 0 (js ''nar/x'') (hs_routes st) = (Some sample_selected, hs_routes st)"
    using pinned_get [OF assms(1,2)] .
  obtain s where r: "resolve sample_nar_reader (to_hex (replicate 32 9)) (js ''nar/x'') False sample_budget () =
    (Inr \<lparr>rv_hash = to_hex (replicate 32 4), rv_size = 2, rv_type = L_Blob, rv_body = B_raw \<lparr>vb_pieces = [[7, 8]], vb_size = 2\<rparr> 2\<rparr>, s)"
    using sample_nar_resolves by blast
  let ?a = "\<lparr>ho_status = 200, ho_headers = nar_headers 2,
      ho_body = HB_tree sample_selected (B_raw \<lparr>vb_pieces = [[7, 8]], vb_size = 2\<rparr> 2) (rs_budget s) (rs_manifests s)\<rparr>"
  have "hs_world st = ()" by simp
  then obtain t where "tree_nar sample_nar_reads GET (js ''nar/x'') st = (?a, t)"
    using pin r by (simp add: tree_nar_def winner_lookup_def env resolve_published_def root)
  then have "get_nar sample_nar_reads GET (js ''nar/x'') st = (?a, t)"
    using sample_signers [OF assms(5)] assms(3) by (simp add: get_nar_def nar_lease_def)
  then have "handle_http sample_nar_reads sample_nar_read st = Some (?a, t)"
    using assms(4) paths route other
    by (simp add: handle_http_def handle_request_def handle_read_def sample_nar_read_def env Let_def explain_def)
  then show ?thesis by (intro exI conjI) auto
qed

theorem nar_from_winner_witness:
  "\<exists>a st1 a' st2 body b ms. handle_http sample_reads sample_read (sample_handler None) = Some (a, st1) \<and> ho_status a = 200
    \<and> handle_http sample_nar_reads sample_nar_read st1 = Some (a', st2) \<and> ho_body a' = HB_tree sample_selected body b ms"
proof -
  let ?st = "sample_handler None"
  have route: "sample_hash32 @ js ''.narinfo'' = sample_route" by (simp add: sample_hash32_def sample_route_def)
  obtain n s' where n: "parse_narinfo (sample_text []) = Inr n"
    "publication_record sample_merge_reader sample_route 5000 sample_selected (sample_budget, ()) = (Inr n, s')"
    using sample_merge_record by blast
  have url: "ni_url n = js ''nar/x''" "ni_signatures n = []" using sample_record n(1) by auto
  define merged where "merged = \<lparr>mg_winner = sample_selected, mg_providers = [sample_selected], mg_record = n, mg_text = ni_raw n\<rparr>"
  have found: "resolve_merged (\<lambda>p. sample_merge_reader) [sample_selected] sample_route h 5000 (sample_budget, ()) = (Inr (merged, []), s')" for h
    using n(2) by (simp add: resolve_merged_def merge_records_def merged_def append_signatures_def)
  have key: "normalized_nar_path (js ''nar/x'') = Some (js ''nar/x'')"
    by (simp add: normalized_nar_path_def starts_with_def js_simps nar_char_def is_lower_def Let_def)
  have set: "\<exists>r. winner_set 0 0 (js ''nar/x'') p \<lparr>wr_max = 1024, wr_ttl = 5 * 60000, wr_entries = []\<rparr> = Some (Inr r)" for p
    by (simp add: winner_set_def key purge_routes_def)
  have env: "he_reader sample_reads = (\<lambda>p. sample_merge_reader)" "he_selection sample_reads = [sample_selected]"
    "he_metadata sample_reads = 5000" "he_budget sample_reads = sample_budget" "he_others sample_reads = (\<lambda>k s. s)"
    "he_clock sample_reads = (\<lambda>k. 0)" "he_health sample_reads = None" "he_page sample_reads = None"
    by (simp_all add: sample_reads_def sample_http_def)
  have st: "hs_world ?st = ()" "hs_current ?st = None" "\<not> hs_closed ?st"
    "hs_routes ?st = \<lparr>wr_max = 1024, wr_ttl = 5 * 60000, wr_entries = []\<rparr>" "hs_signers ?st = new_signer_registry 1024 (5 * 60000)"
    by (simp_all add: sample_handler_def)
  obtain s1 where merged': "merged_narinfo sample_reads GET sample_route sample_hash32 ?st = Some (text_response (ni_raw n) GET, s1)"
    and s1: "hs_current s1 = None" "\<not> hs_closed s1" "hs_signers s1 = new_signer_registry 1024 (5 * 60000)" "wr_ttl (hs_routes s1) = 5 * 60000"
    using found set [of sample_selected] url st winner_pinned [of 0 0 "js ''nar/x''" sample_selected "hs_routes ?st"]
    by (auto simp: merged_narinfo_def env merged_def classify_endorsements_def enumerate_eq_zip)
  have path: "rq_path sample_read = 47 # sample_hash32 @ js ''.narinfo''" "rq_method sample_read = GET"
    by (simp_all add: sample_read_def sample_row_def)
  have other: "rq_path sample_read \<noteq> js ''/nix-cache-info''" "rq_path sample_read \<noteq> js ''/health''" "rq_path sample_read \<noteq> js ''/''"
    using sample_narinfo_route path no_narinfo by (metis option.distinct(1))+
  have "handle_read sample_reads sample_read ?st = Some (text_response (ni_raw n) GET, s1)"
    using path other(1) sample_narinfo_route merged' st(2) route by (simp add: handle_read_def Let_def get_narinfo_def env)
  then have run: "handle_http sample_reads sample_read ?st = Some (text_response (ni_raw n) GET, s1)"
    using other path st(3) by (simp add: handle_http_def handle_request_def Let_def explain_def)
  have ok: "ho_status (text_response (ni_raw n) GET) = 200" "\<not> has_route (sample_hash32 @ js ''.narinfo'') (hs_current ?st)"
    by (simp_all add: st has_route_def)
  have get: "rq_method sample_read \<in> {GET, HEAD}" "narinfo_route (rq_path sample_read) = Some sample_hash32"
    using path sample_narinfo_route by simp_all
  obtain m conflicts bw where m: "resolve_merged (he_reader sample_reads) (he_selection sample_reads) (sample_hash32 @ js ''.narinfo'')
        sample_hash32 (he_metadata sample_reads) (he_budget sample_reads, hs_world ?st) = (Inr (m, conflicts), bw)"
    and pin: "pinned (ni_url (mg_record m)) (mg_winner m) (he_clock sample_reads 2 + wr_ttl (hs_routes s1)) s1"
    and later: "\<forall>(env' :: unit http_env) rq' at s a' s' p body budget ms. pinned (ni_url (mg_record m)) (mg_winner m) at s \<and> he_clock env' 5 < at
        \<and> handle_http env' rq' s = Some (a', s') \<and> nar_route True (rq_path rq') = Some (ni_url (mg_record m))
        \<and> ho_body a' = HB_tree p body budget ms \<longrightarrow> p = mg_winner m"
    using nar_from_winner [OF run ok(1) get ok(2)] by (elim exE conjE) (rule that)
  have m': "ni_url (mg_record m) = js ''nar/x''" "mg_winner m = sample_selected" "he_clock sample_reads 2 + wr_ttl (hs_routes s1) = 5 * 60000"
    using m found st(1) url s1(4) by (auto simp: env merged_def route)
  have pin': "pinned (js ''nar/x'') sample_selected (5 * 60000) s1" using pin unfolding m' .
  obtain a' st2 p body b ms where nar: "handle_http sample_nar_reads sample_nar_read s1 = Some (a', st2)" "ho_body a' = HB_tree p body b ms"
    using sample_nar_run [OF pin' _ s1(1-3)] by auto
  have url': "nar_route True (rq_path sample_nar_read) = Some (js ''nar/x'')" "he_clock sample_nar_reads 5 = 0"
    by (simp_all add: sample_nar_read_def nar_route_def starts_with_def js_simps nar_char_def is_lower_def Let_def
        sample_nar_reads_def sample_reads_def sample_http_def)
  have "p = sample_selected"
    using later [rule_format, of "5 * 60000" s1 sample_nar_reads sample_nar_read a' st2 p body b ms] m'(1,2) pin' url' nar by simp
  with run ok(1) nar show ?thesis by blast
qed

end
