(* ===== verification/Spec2Isabelle.thy ===== *)
theory Spec2Isabelle
  imports Prelude Tables Hashtree_Codec Nhash Base64 Publication Newest_Wins State_Repository
    Budget Utf8_Order Reader Writer Writer_Proofs Narinfo Selection Merged_Cache Blob_Store Blob_Proofs Blob_Startup
    Write_State Write_Staging Write_Overlay Write_Publication Write_Eligibility Write_Sagas Addresses Safe_Fetcher Fetcher_Proofs Coordinator Coordinator_Proofs Js_Number Config Config_Proofs Startup Startup_Proofs Upload Upload_Proofs Scheduler Scheduler_Proofs Blob_Fetch Blob_Fetch_Proofs Http_Handler Http_Proofs Http_Answers
begin

text \<open>
  A verification development for nixstr-cache, a binary cache for Nix whose contents are hash
  trees (BUD manifests over blobs) that Nostr events announce and Blossom servers hold. The
  sources are under \<^verbatim>\<open>src/src/\<close> and \<^verbatim>\<open>src/main.ts\<close>; paths below are relative to \<^verbatim>\<open>src/src/\<close>.

  \<^bold>\<open>The program and its parts.\<close> At startup, \<^verbatim>\<open>main.ts\<close> reads the environment and a file into a raw
  configuration, which \<^verbatim>\<open>config/config.ts\<close> validates. From then on:

  \<^item> Reading. Publication events arrive from relays; \<^verbatim>\<open>nostr/selection.ts\<close> validates them
    (\<^verbatim>\<open>protocol/publication.ts\<close>), offers them to \<^verbatim>\<open>persistence/state_repository.ts\<close>, and selects one
    for each configured identity. A request for a narinfo (\<^verbatim>\<open>nix/http_handler.ts\<close>) is resolved in the
    tree of every selected publication by \<^verbatim>\<open>hashtree/reader.ts\<close> under one request budget, and the
    records found are merged by \<^verbatim>\<open>nix/merged_cache.ts\<close>. The blobs come from
    \<^verbatim>\<open>blossom/blob_fetcher.ts\<close>, which tries the sources of \<^verbatim>\<open>blossom/source_plan.ts\<close> through
    \<^verbatim>\<open>network/safe_fetcher.ts\<close> and keeps what it verified in \<^verbatim>\<open>persistence/blob_store.ts\<close>.
  \<^item> Writing. An upload (PUT) is staged in \<^verbatim>\<open>persistence/write_repository.ts\<close>; \<^verbatim>\<open>write/eligibility.ts\<close>
    decides which staged store paths enter the overlay that \<^verbatim>\<open>write/overlay.ts\<close> serves;
    \<^verbatim>\<open>write/batch_scheduler.ts\<close> freezes an overlay into a batch and has \<^verbatim>\<open>hashtree/writer.ts\<close> build
    a tree of it; \<^verbatim>\<open>write/publication_coordinator.ts\<close> brings its blobs to servers
    (\<^verbatim>\<open>blossom/publication_uploader.ts\<close>, authorised by \<^verbatim>\<open>blossom/upload_authorization.ts\<close>), has the
    event signed, publishes it, and commits it: a saga in the repository, resumed after a crash.

  \<^bold>\<open>How code becomes HOL.\<close> JavaScript strings are lists of UTF-16 code units (\<open>jstr\<close>), its safe
  integers are \<open>int\<close> with every check of \<open>Number.isSafeInteger\<close> written out, bytes are \<open>8 word\<close>, objects and
  rows are records, a \<open>Map\<close> is an association list in insertion order. A throw is the left side of a
  sum; an operation on a state is a function from the state to its result and the new state, which
  keeps what was changed before a throw. SQLite tables are lists of rows, with one operation for each
  form of statement (\<open>Tables\<close>); a transaction that rolls back restores the tables and not the
  files. An asynchronous method is split at its waits: either the whole call takes, for each wait,
  what others do meanwhile as an argument, or each segment is a step of a state machine. What is not under
  \<^verbatim>\<open>src/\<close> is a parameter: MessagePack, SHA-256, Bech32 and NIP-19, the verification of signatures, the
  URL parser, the event store, the network, the signer, the file system, clocks and random
  texts. What a theorem asks of a parameter is a hypothesis of its statement.

  \<^bold>\<open>Prelude.\<close> \<open>Prelude\<close> holds code units, UTF-8, decimal and hexadecimal texts, JSON values, the
  composition of operations (\<open>op_bind\<close>) and generic lemmas; \<open>Tables\<close> the SQL forms; \<open>Utf8_Order\<close> when
  the order of UTF-8 bytes is that of code units; \<open>Base64\<close> \<open>atob\<close> and \<open>btoa\<close>; \<open>Js_Number\<close> \<open>Number(text)\<close>
  on binary64.

  \<^bold>\<open>Protocol.\<close>
  \<^item> \<open>Hashtree_Codec\<close> (\<^verbatim>\<open>protocol/hashtree.ts\<close>): \<open>validate_manifest\<close>, \<open>encode_manifest\<close>,
    \<open>decode_validated_manifest\<close>. What is decoded satisfies \<open>wf_manifest\<close>, and what is encoded
    decodes to itself.
  \<^item> \<open>Nhash\<close> (\<^verbatim>\<open>protocol/nhash.ts\<close>): an accepted root has one text.
  \<^item> \<open>Publication\<close> (\<^verbatim>\<open>protocol/publication.ts\<close>): all that an accepted event satisfies.
  \<^item> \<open>Narinfo\<close> (\<^verbatim>\<open>protocol/narinfo.ts\<close>): parsing, comparing and appending signatures, as texts.

  \<^bold>\<open>Selecting and reading.\<close>
  \<^item> \<open>State_Repository\<close> (\<^verbatim>\<open>persistence/state_repository.ts\<close>), with the abstract \<open>Newest_Wins\<close> (a locale
    for stores that keep the greatest of what they are given): signed publications converge whatever
    their order, and no run of operations replaces a signed one by an unsigned one without consent.
  \<^item> \<open>Selection\<close> (\<^verbatim>\<open>nostr/selection.ts\<close>, \<^verbatim>\<open>nostr/blossom_servers.ts\<close>): the selection is the newest valid
    authorised publication of each identity.
  \<^item> \<open>Budget\<close> (class \<open>RequestBudget\<close> of \<^verbatim>\<open>hashtree/reader.ts\<close>): the locale \<open>metered\<close>, interpreted for each
    counter, and the bounds of all counters over any calls.
  \<^item> \<open>Reader\<close> (the rest of \<^verbatim>\<open>hashtree/reader.ts\<close> but \<open>materialize\<close>): what is resolved is what
    \<open>locates\<close> says of the tree that the hashes authenticate, an absence is one of that tree, and
    a stream that ends well delivers the file; where the search of a fanout is exact.
  \<^item> \<open>Merged_Cache\<close> (\<^verbatim>\<open>nix/merged_cache.ts\<close>): the merged text, and the conservation of the leases
    that the registry of overlay routes holds.
  \<^item> \<open>Addresses\<close>, \<open>Safe_Fetcher\<close>, \<open>Fetcher_Proofs\<close> (\<^verbatim>\<open>network/safe_fetcher.ts\<close>): the forbidden
    ranges, requests, redirects and chunked bodies; where a fetch may connect, and what it reads.
  \<^item> \<open>Blob_Fetch\<close>, \<open>Blob_Fetch_Proofs\<close> (\<^verbatim>\<open>blossom/source_plan.ts\<close>, \<^verbatim>\<open>blossom/blob_fetcher.ts\<close>): which
    sources are asked, which are quarantined and why, and that a lease is given back once.

  \<^bold>\<open>Storing and writing.\<close>
  \<^item> \<open>Blob_Store\<close>, \<open>Blob_Proofs\<close>, \<open>Blob_Startup\<close> (\<^verbatim>\<open>persistence/blob_store.ts\<close>): the operations over
    tables and directory, a step relation with interleaved admissions, its invariant (capacity, leases,
    owners), and what a rollback and a restart do to removed files.
  \<^item> \<open>Write_State\<close>, \<open>Write_Staging\<close>, \<open>Write_Overlay\<close>, \<open>Write_Publication\<close>, \<open>Write_Sagas\<close>
    (\<^verbatim>\<open>persistence/write_repository.ts\<close>, \<^verbatim>\<open>write/eligibility.ts\<close>, \<^verbatim>\<open>write/overlay.ts\<close>): all operations as
    steps \<open>write_step\<close>; the sagas go through their five facts in order.
  \<^item> \<open>Write_Eligibility\<close>: the loop admits exactly the inductive set \<open>eligible\<close>, ends, and keeps an
    overlay closed under references.
  \<^item> \<open>Writer\<close>, \<open>Writer_Proofs\<close> (\<^verbatim>\<open>hashtree/writer.ts\<close>): chunks, grouping and manifests over any
    content store (locale \<open>content_store\<close>, interpreted on the directory of files); what is written reads
    back under the specification of \<open>Reader\<close>.
  \<^item> \<open>Scheduler\<close>, \<open>Scheduler_Proofs\<close> (\<^verbatim>\<open>write/batch_scheduler.ts\<close>): its timers and its chain of builds
    as a timed state machine; a window closes in time, and what a restart replays.
  \<^item> \<open>Coordinator\<close>, \<open>Coordinator_Proofs\<close> (\<^verbatim>\<open>write/publication_coordinator.ts\<close>): the segments of a tick;
    what is handed to relays, and a loop of retries without delay.
  \<^item> \<open>Upload\<close>, \<open>Upload_Proofs\<close> (\<^verbatim>\<open>blossom/upload_authorization.ts\<close>, \<^verbatim>\<open>blossom/publication_uploader.ts\<close>):
    the authorization of every hash at every server, and the proof of a blob.

  \<^bold>\<open>Configuration and the handler.\<close>
  \<^item> \<open>Config\<close>, \<open>Config_Proofs\<close> (\<^verbatim>\<open>config/config.ts\<close>), \<open>Startup\<close>, \<open>Startup_Proofs\<close> (\<^verbatim>\<open>main.ts\<close>): the type of an
    accepted configuration, and what the environment may not set beside a file.
  \<^item> \<open>Http_Handler\<close>, \<open>Http_Proofs\<close>, \<open>Http_Answers\<close> (\<^verbatim>\<open>nix/http_handler.ts\<close>): every route over the models of
    the reader, the merged cache, the repository and the overlay. Every lease of a generation is
    accounted for, one that leaks included; a NAR is read from the publication that its narinfo
    pinned; an accepted upload has its row; a narinfo that does not parse is answered as an outage.

  \<^bold>\<open>Termination, bounds, samples.\<close> No definition takes fuel. Loops over the network are bounded by
  what the code counts, and their measures say so: the depth for the traversals of the
  reader, the redirects and header and line limits of the fetcher, the pieces that a connection still has, the rows
  that are not admitted yet for the eligibility loop, the links of a level for the writer, the
  size of a group of hashes for authorizations. A network that never answers is an answer of the
  environment (a deadline). Concrete inputs stand at the end of the theories: each theorem that has
  hypotheses is applied there to a case in which they hold.

  \<^bold>\<open>Not modelled.\<close> In \<^verbatim>\<open>hashtree/reader.ts\<close>, \<open>materialize\<close> and the cancelling of a stream; in
  \<^verbatim>\<open>hashtree/writer.ts\<close>, the import of a base tree, the ledger of a run's owners and its disposal;
  \<^verbatim>\<open>hashtree/manifest_cache.ts\<close> (a third-party LRU map, here any cache); \<^verbatim>\<open>runtime/daemon.ts\<close> and
  \<^verbatim>\<open>app.ts\<close> (they build, wire and close what is modelled); \<^verbatim>\<open>operations/\<close> (health, status, its page,
  diagnostics: values and texts for operators that nothing depends on); \<^verbatim>\<open>signer/capability.ts\<close> and
  \<^verbatim>\<open>runtime/password_prompt.ts\<close> (the terminal and third-party signers); \<^verbatim>\<open>nostr/runtime.ts\<close>,
  \<^verbatim>\<open>nostr/publications.ts\<close> and \<^verbatim>\<open>nostr/local_relay_cache.ts\<close> (a third-party event store and relay
  pool, whose events are inputs here). Failures of a database and of the file system beyond those named in
  the theories are left out, and so are texts of messages.
\<close>

end
